(* ===== verification/Prelude.thy ===== *)
theory Prelude
  imports Main "HOL-Library.AList"
begin

text \<open>
  What every component of the development shares: the types that stand for the program's
  identifiers, the standard-library operations on sequences and hash maps that the code
  calls (\<open>VecDeque::remove\<close>, \<open>Iterator::position\<close>, \<open>HashMap::insert\<close>), the contract of an
  operation that keeps an invariant, and the collections of facts the proofs use.

  A \<open>Uuid\<close> is only ever compared for equality, so it is a \<open>nat\<close>; a commit id is the string the
  code stores. A \<open>HashMap\<close> is an association list with distinct keys: the code never depends
  on its iteration order, and neither does any statement here. A fresh id that the code
  draws with \<open>Uuid::new_v4()\<close> is an argument of the operation that draws it.
\<close>

type_synonym uuid = nat
type_synonym sha = string

named_theorems lane_simps \<open>the landing lane's operations and observations\<close>
named_theorems queue_simps \<open>the thread queue's operations and observations\<close>
named_theorems check_simps \<open>the main check's operations and observations\<close>
named_theorems lifecycle_simps \<open>the thread lifecycle's decisions\<close>

section \<open>Sequences\<close>

text \<open>\<open>VecDeque::remove(i)\<close>: the sequence without its element at \<open>i\<close>; out of range changes nothing.\<close>

definition remove_nth :: "nat \<Rightarrow> 'a list \<Rightarrow> 'a list" where
  "remove_nth i xs = take i xs @ drop (Suc i) xs"

text \<open>\<open>Iterator::position\<close>: the index of the first element that satisfies the predicate.\<close>

fun position :: "('a \<Rightarrow> bool) \<Rightarrow> 'a list \<Rightarrow> nat option" where
  "position P [] = None"
| "position P (x # xs) = (if P x then Some 0 else map_option Suc (position P xs))"

lemma remove_nth_append [simp]: "remove_nth (length xs) (xs @ y # ys) = xs @ ys"
  by (simp add: remove_nth_def)

lemma length_remove_nth [simp]: "i < length xs \<Longrightarrow> length (remove_nth i xs) = length xs - 1"
  by (simp add: remove_nth_def)

lemma position_SomeD: "position P xs = Some i \<Longrightarrow> i < length xs \<and> P (xs ! i)"
  by (induction xs arbitrary: i) (auto split: if_splits)

lemma position_split:
  "position P xs = Some i \<Longrightarrow>
     \<exists>ys zs. xs = ys @ (xs ! i) # zs \<and> length ys = i \<and> (\<forall>y \<in> set ys. \<not> P y) \<and> P (xs ! i)"
proof (induction xs arbitrary: i)
  case Nil
  then show ?case by simp
next
  case (Cons x xs)
  show ?case
  proof (cases "P x")
    case True
    with Cons.prems show ?thesis by auto
  next
    case False
    with Cons.prems obtain j where j: "position P xs = Some j" "i = Suc j" by auto
    from Cons.IH [OF j(1)] obtain ys zs where
      "xs = ys @ (xs ! j) # zs" "length ys = j" "\<forall>y \<in> set ys. \<not> P y" "P (xs ! j)"
      by blast
    with False j(2) show ?thesis
      by (intro exI [of _ "x # ys"] exI [of _ zs]) auto
  qed
qed

lemma position_None_iff: "position P xs = None \<longleftrightarrow> (\<forall>x \<in> set xs. \<not> P x)"
  by (induction xs) auto

lemma filter_key_other:
  "distinct (map k xs) \<Longrightarrow> x \<in> set xs \<Longrightarrow> y \<in> set xs \<Longrightarrow> k x = k y \<Longrightarrow> x = y"
  by (induction xs) (auto simp: image_iff)

lemma distinct_map_filterI [intro]: "distinct (map k xs) \<Longrightarrow> distinct (map k (filter P xs))"
  by (rule distinct_map_filter)

lemma filter_filter_conj: "filter P (filter Q xs) = filter (\<lambda>x. Q x \<and> P x) xs"
  by (simp add: conj_commute)

section \<open>Hash maps\<close>

text \<open>
  \<open>insert\<close>, \<open>remove\<close>, \<open>get\<close> and \<open>values\<close> of a \<open>HashMap\<close>, over an association list whose keys
  are distinct.
\<close>

abbreviation hm_insert :: "'k \<Rightarrow> 'v \<Rightarrow> ('k \<times> 'v) list \<Rightarrow> ('k \<times> 'v) list" where
  "hm_insert \<equiv> AList.update"

abbreviation hm_remove :: "'k \<Rightarrow> ('k \<times> 'v) list \<Rightarrow> ('k \<times> 'v) list" where
  "hm_remove \<equiv> AList.delete"

abbreviation hm_get :: "('k \<times> 'v) list \<Rightarrow> 'k \<Rightarrow> 'v option" where
  "hm_get \<equiv> map_of"

definition hm_keys :: "('k \<times> 'v) list \<Rightarrow> 'k set" where
  "hm_keys m = fst ` set m"

definition hm_ok :: "('k \<times> 'v) list \<Rightarrow> bool" where
  "hm_ok m \<longleftrightarrow> distinct (map fst m)"

lemma hm_ok_Nil [simp]: "hm_ok []"
  by (simp add: hm_ok_def)

lemma hm_ok_insert [simp]: "hm_ok m \<Longrightarrow> hm_ok (hm_insert k v m)"
  by (simp add: hm_ok_def distinct_update)

lemma hm_ok_remove [simp]: "hm_ok m \<Longrightarrow> hm_ok (hm_remove k m)"
  by (simp add: hm_ok_def distinct_delete)

lemma hm_keys_insert [simp]: "hm_keys (hm_insert k v m) = insert k (hm_keys m)"
  by (simp add: hm_keys_def dom_update)

lemma hm_keys_remove [simp]: "hm_keys (hm_remove k m) = hm_keys m - {k}"
  by (auto simp: hm_keys_def AList.delete_eq)

lemma hm_insert_fresh: "k \<notin> hm_keys m \<Longrightarrow> hm_insert k v m = m @ [(k, v)]"
  by (induction m) (auto simp: hm_keys_def)

lemma hm_get_None_iff: "hm_get m k = None \<longleftrightarrow> k \<notin> hm_keys m"
  by (simp add: hm_keys_def map_of_eq_None_iff)

lemma hm_remove_absent: "k \<notin> hm_keys m \<Longrightarrow> hm_remove k m = m"
  by (induction m) (auto simp: hm_keys_def AList.delete_eq)

lemma length_hm_remove: "hm_ok m \<Longrightarrow> k \<in> hm_keys m \<Longrightarrow> Suc (length (hm_remove k m)) = length m"
proof (induction m)
  case Nil
  then show ?case by (simp add: hm_keys_def)
next
  case (Cons kv m)
  show ?case
  proof (cases "fst kv = k")
    case True
    with Cons.prems(1) have "k \<notin> hm_keys m" by (auto simp: hm_ok_def hm_keys_def)
    with True show ?thesis by (cases kv) (simp add: hm_remove_absent)
  next
    case False
    with Cons show ?thesis by (cases kv) (auto simp: hm_ok_def hm_keys_def)
  qed
qed

section \<open>Operations that keep an invariant\<close>

text \<open>
  The contract several components share: a state changes only by steps, each step keeps the
  component's invariant, and so does every run of steps. A component interprets it on its own
  step function.
\<close>

locale invariant_steps =
  fixes step :: "'s \<Rightarrow> 'e \<Rightarrow> 's"
    and inv :: "'s \<Rightarrow> bool"
  assumes step_inv: "inv s \<Longrightarrow> inv (step s e)"
begin

lemma run_inv: "inv s \<Longrightarrow> inv (foldl step s es)"
  by (induction es arbitrary: s) (auto intro: step_inv)

lemma run_prefix_inv: "inv s \<Longrightarrow> inv (foldl step s (take n es))"
  by (rule run_inv)

end

end
