(* ===== verification/Lane_State.thy ===== *)
theory Lane_State
  imports Prelude
begin

text \<open>
  The landing lane's pure decisions (\<open>landing_lane/state.rs\<close>): which change waits, which
  changes form the one resolving batch, and when a batch ends. The queue, the batch and the
  open Apply All presses are one record; each method of \<open>Lane\<close> is a function on it, a method
  with \<open>&mut self\<close> returning the new lane (with its result, where it has one).
\<close>

section \<open>Data\<close>

record lane_member =
  change_id :: uuid
  snapshot_sha :: sha

datatype place = Waiting | Resolving | Absent

datatype lane_removal = InBatch | NotWaiting

record lane_hold =
  hold_waiting :: "uuid list"
  hold_in_batch :: "uuid list"
  hold_batch :: "uuid option"

definition hold_members :: "lane_hold \<Rightarrow> uuid list" where
  "hold_members h = hold_waiting h @ hold_in_batch h"

record resolving_batch =
  batch_id :: uuid
  base_sha :: sha
  lane_thread_id :: uuid
  members :: "lane_member list"
  landed_ids :: "uuid list"

record lane =
  waiting :: "lane_member list"
  resolving :: "resolving_batch option"
  presses :: "uuid set"

definition lane_default :: lane where
  "lane_default = \<lparr>waiting = [], resolving = None, presses = {}\<rparr>"

abbreviation member_ids :: "lane_member list \<Rightarrow> uuid set" where
  "member_ids ms \<equiv> change_id ` set ms"

section \<open>The resolving batch\<close>

definition new_batch :: "uuid \<Rightarrow> sha \<Rightarrow> uuid \<Rightarrow> lane_member list \<Rightarrow> resolving_batch" where
  "new_batch b base t ms =
     \<lparr>batch_id = b, base_sha = base, lane_thread_id = t, members = ms, landed_ids = []\<rparr>"

definition unlanded :: "resolving_batch \<Rightarrow> lane_member list" where
  "unlanded b = filter (\<lambda>m. change_id m \<notin> set (landed_ids b)) (members b)"

definition all_landed :: "resolving_batch \<Rightarrow> bool" where
  "all_landed b \<longleftrightarrow> unlanded b = []"

definition mark_landed :: "uuid \<Rightarrow> resolving_batch \<Rightarrow> resolving_batch" where
  "mark_landed c b =
     (if (\<exists>m \<in> set (members b). change_id m = c) \<and> c \<notin> set (landed_ids b)
      then b\<lparr>landed_ids := landed_ids b @ [c]\<rparr> else b)"

section \<open>The lane's operations\<close>

definition resolving_batch_of :: "uuid \<Rightarrow> lane \<Rightarrow> resolving_batch option" where
  "resolving_batch_of b l =
     (case resolving l of None \<Rightarrow> None
      | Some r \<Rightarrow> if batch_id r = b then Some r else None)"

definition batch_of_lane_thread :: "uuid \<Rightarrow> lane \<Rightarrow> uuid option" where
  "batch_of_lane_thread t l =
     (case resolving l of None \<Rightarrow> None
      | Some r \<Rightarrow> if lane_thread_id r = t then Some (batch_id r) else None)"

definition lane_place :: "lane \<Rightarrow> uuid \<Rightarrow> place" where
  "lane_place l c =
     (if \<exists>m \<in> set (waiting l). change_id m = c then Waiting
      else if (case resolving l of None \<Rightarrow> False
               | Some b \<Rightarrow> \<exists>m \<in> set (unlanded b). change_id m = c) then Resolving
      else Absent)"

fun held_of_loop :: "lane \<Rightarrow> uuid list \<Rightarrow> lane_hold \<Rightarrow> lane_hold" where
  "held_of_loop l [] h = h"
| "held_of_loop l (c # cs) h =
     held_of_loop l cs
       (case lane_place l c of
          Waiting \<Rightarrow> h\<lparr>hold_waiting := hold_waiting h @ [c]\<rparr>
        | Resolving \<Rightarrow> h\<lparr>hold_in_batch := hold_in_batch h @ [c]\<rparr>
        | Absent \<Rightarrow> h)"

definition held_of :: "lane \<Rightarrow> uuid list \<Rightarrow> lane_hold" where
  "held_of l cs =
     (let h = held_of_loop l cs \<lparr>hold_waiting = [], hold_in_batch = [], hold_batch = None\<rparr>
      in if hold_in_batch h \<noteq> []
         then h\<lparr>hold_batch := map_option batch_id (resolving l)\<rparr> else h)"

definition removal :: "lane \<Rightarrow> uuid \<Rightarrow> lane_removal + unit" where
  "removal l c =
     (case lane_place l c of
        Waiting \<Rightarrow> Inr ()
      | Resolving \<Rightarrow> Inl InBatch
      | Absent \<Rightarrow> Inl NotWaiting)"

definition queue_held :: "lane \<Rightarrow> bool" where
  "queue_held l \<longleftrightarrow> resolving l \<noteq> None \<or> presses l \<noteq> {}"

definition gathering :: "lane \<Rightarrow> bool" where
  "gathering l \<longleftrightarrow> resolving l = None \<and> presses l \<noteq> {}"

definition open_press :: "uuid \<Rightarrow> lane \<Rightarrow> lane" where
  "open_press p l = l\<lparr>presses := insert p (presses l)\<rparr>"

definition submit_press :: "uuid \<Rightarrow> lane \<Rightarrow> bool \<times> lane" where
  "submit_press p l =
     (let l' = l\<lparr>presses := presses l - {p}\<rparr>
      in (p \<in> presses l \<and> \<not> queue_held l', l'))"

definition wait :: "lane_member \<Rightarrow> lane \<Rightarrow> lane" where
  "wait m l = (if lane_place l (change_id m) = Absent then l\<lparr>waiting := waiting l @ [m]\<rparr> else l)"

definition take_pass :: "lane \<Rightarrow> lane_member list \<times> lane" where
  "take_pass l = (if queue_held l then ([], l) else (waiting l, l\<lparr>waiting := []\<rparr>))"

definition take_members :: "uuid set \<Rightarrow> lane \<Rightarrow> lane_member list \<times> lane" where
  "take_members ids l =
     (let (taken, rest) = partition (\<lambda>m. change_id m \<in> ids) (waiting l)
      in (taken, l\<lparr>waiting := rest\<rparr>))"

definition set_aside ::
  "uuid \<Rightarrow> sha \<Rightarrow> uuid \<Rightarrow> lane_member list \<Rightarrow> lane \<Rightarrow> resolving_batch option \<times> lane" where
  "set_aside b base t ms l =
     (if ms = [] then (None, l)
      else if queue_held l then (None, l\<lparr>waiting := waiting l @ ms\<rparr>)
      else (Some (new_batch b base t ms), l\<lparr>resolving := Some (new_batch b base t ms)\<rparr>))"

definition unqueue :: "uuid \<Rightarrow> lane \<Rightarrow> bool \<times> lane" where
  "unqueue c l =
     (let ws = filter (\<lambda>m. change_id m \<noteq> c) (waiting l)
      in (length ws \<noteq> length (waiting l), l\<lparr>waiting := ws\<rparr>))"

definition landed :: "uuid \<Rightarrow> lane \<Rightarrow> lane" where
  "landed c l =
     (let l' = snd (unqueue c l)
      in l'\<lparr>resolving := map_option (mark_landed c) (resolving l')\<rparr>)"

definition open_batch :: "resolving_batch \<Rightarrow> lane \<Rightarrow> lane" where
  "open_batch b l =
     l\<lparr>waiting := filter (\<lambda>w. \<not> (\<exists>m \<in> set (members b). change_id m = change_id w)) (waiting l),
       resolving := Some b\<rparr>"

definition end_batch :: "uuid \<Rightarrow> lane \<Rightarrow> resolving_batch option \<times> lane" where
  "end_batch b l =
     (if resolving_batch_of b l \<noteq> None then (resolving l, l\<lparr>resolving := None\<rparr>) else (None, l))"

definition retain_waiting :: "(uuid \<Rightarrow> bool) \<Rightarrow> lane \<Rightarrow> lane" where
  "retain_waiting keep l = l\<lparr>waiting := filter (\<lambda>m. keep (change_id m)) (waiting l)\<rparr>"

section \<open>Well-formed lanes\<close>

text \<open>
  A batch holds each change once and counts as landed only its own members; the queue holds
  each change once, and no change both waits and resolves.
\<close>

definition batch_ok :: "resolving_batch \<Rightarrow> bool" where
  "batch_ok b \<longleftrightarrow> distinct (map change_id (members b)) \<and> distinct (landed_ids b) \<and>
     set (landed_ids b) \<subseteq> member_ids (members b)"

definition lane_ok :: "lane \<Rightarrow> bool" where
  "lane_ok l \<longleftrightarrow> distinct (map change_id (waiting l)) \<and>
     (case resolving l of None \<Rightarrow> True
      | Some b \<Rightarrow> batch_ok b \<and> member_ids (waiting l) \<inter> member_ids (unlanded b) = {})"

text \<open>The changes a batch still owes, and the changes a lane holds.\<close>

definition resolving_ids :: "lane \<Rightarrow> uuid set" where
  "resolving_ids l = (case resolving l of None \<Rightarrow> {} | Some b \<Rightarrow> member_ids (unlanded b))"

definition held_ids :: "lane \<Rightarrow> uuid set" where
  "held_ids l = member_ids (waiting l) \<union> resolving_ids l"

lemma any_member: "(\<exists>m \<in> set ms. change_id m = c) \<longleftrightarrow> c \<in> member_ids ms"
  by auto

lemma lane_place_by_ids:
  "lane_place l c =
     (if c \<in> member_ids (waiting l) then Waiting
      else if c \<in> resolving_ids l then Resolving else Absent)"
  by (cases "resolving l") (simp_all add: lane_place_def resolving_ids_def any_member)

lemma lane_place_Waiting [lane_simps]: "lane_place l c = Waiting \<longleftrightarrow> c \<in> member_ids (waiting l)"
  by (simp add: lane_place_by_ids)

lemma lane_place_Absent [lane_simps]: "lane_place l c = Absent \<longleftrightarrow> c \<notin> held_ids l"
  by (simp add: lane_place_by_ids held_ids_def)

lemma lane_place_Resolving [lane_simps]:
  "lane_place l c = Resolving \<longleftrightarrow> c \<in> resolving_ids l \<and> c \<notin> member_ids (waiting l)"
  by (simp add: lane_place_by_ids)

lemma lane_ok_default [simp]: "lane_ok lane_default"
  by (simp add: lane_ok_def lane_default_def)

lemma lane_ok_distinct: "lane_ok l \<Longrightarrow> distinct (map change_id (waiting l))"
  by (simp add: lane_ok_def)

lemma lane_ok_disjoint: "lane_ok l \<Longrightarrow> member_ids (waiting l) \<inter> resolving_ids l = {}"
  by (auto simp: lane_ok_def resolving_ids_def split: option.splits)

lemma lane_ok_batch: "lane_ok l \<Longrightarrow> resolving l = Some b \<Longrightarrow> batch_ok b"
  by (simp add: lane_ok_def)

lemma lane_okI:
  "distinct (map change_id (waiting l)) \<Longrightarrow>
   (\<And>b. resolving l = Some b \<Longrightarrow> batch_ok b) \<Longrightarrow>
   member_ids (waiting l) \<inter> resolving_ids l = {} \<Longrightarrow> lane_ok l"
  by (auto simp: lane_ok_def resolving_ids_def split: option.splits)

lemma unlanded_subset: "set (unlanded b) \<subseteq> set (members b)"
  by (auto simp: unlanded_def)

lemma unlanded_new_batch [simp]: "unlanded (new_batch b base t ms) = ms"
  by (simp add: unlanded_def new_batch_def)

lemma new_batch_sel [simp]:
  "batch_id (new_batch b base t ms) = b" "base_sha (new_batch b base t ms) = base"
  "lane_thread_id (new_batch b base t ms) = t" "members (new_batch b base t ms) = ms"
  "landed_ids (new_batch b base t ms) = []"
  by (simp_all add: new_batch_def)

lemma batch_ok_new [simp]: "batch_ok (new_batch b base t ms) \<longleftrightarrow> distinct (map change_id ms)"
  by (simp add: batch_ok_def)

lemma unlanded_mark_landed [lane_simps]:
  "unlanded (mark_landed c b) = filter (\<lambda>m. change_id m \<noteq> c) (unlanded b)"
proof (cases "c \<in> member_ids (members b)")
  case True
  then show ?thesis
    by (auto simp: unlanded_def mark_landed_def filter_filter_conj intro!: filter_cong)
next
  case False
  then have "filter (\<lambda>m. change_id m \<noteq> c) (unlanded b) = unlanded b"
    using unlanded_subset [of b] by (intro filter_True) blast
  with False show ?thesis by (auto simp: unlanded_def mark_landed_def)
qed

lemma mark_landed_sel [simp]:
  "batch_id (mark_landed c b) = batch_id b" "base_sha (mark_landed c b) = base_sha b"
  "lane_thread_id (mark_landed c b) = lane_thread_id b" "members (mark_landed c b) = members b"
  by (simp_all add: mark_landed_def)

lemma batch_ok_mark_landed [simp]: "batch_ok b \<Longrightarrow> batch_ok (mark_landed c b)"
  by (auto simp: batch_ok_def mark_landed_def)

text \<open>What each operation does to the queue, the batch and the presses.\<close>

lemma queue_held_simps [lane_simps]:
  "queue_held (l\<lparr>waiting := ws\<rparr>) = queue_held l"
  by (simp add: queue_held_def)

lemma waiting_wait [lane_simps]:
  "waiting (wait m l) = (if change_id m \<in> held_ids l then waiting l else waiting l @ [m])"
  "resolving (wait m l) = resolving l" "presses (wait m l) = presses l"
  by (auto simp: wait_def lane_place_Absent)

lemma unqueue_lane [lane_simps]:
  "waiting (snd (unqueue c l)) = filter (\<lambda>m. change_id m \<noteq> c) (waiting l)"
  "resolving (snd (unqueue c l)) = resolving l" "presses (snd (unqueue c l)) = presses l"
  by (simp_all add: unqueue_def Let_def)

lemma unqueue_hit [lane_simps]: "fst (unqueue c l) \<longleftrightarrow> c \<in> member_ids (waiting l)"
proof -
  have "length (filter (\<lambda>m. change_id m \<noteq> c) ws) = length ws \<longleftrightarrow> c \<notin> member_ids ws" for ws
  proof
    assume eq: "length (filter (\<lambda>m. change_id m \<noteq> c) ws) = length ws"
    have "change_id m \<noteq> c" if "m \<in> set ws" for m
      using length_filter_less [of m ws "\<lambda>m. change_id m \<noteq> c"] that eq by auto
    then show "c \<notin> member_ids ws" by auto
  next
    assume "c \<notin> member_ids ws"
    then have "filter (\<lambda>m. change_id m \<noteq> c) ws = ws" by (intro filter_True) auto
    then show "length (filter (\<lambda>m. change_id m \<noteq> c) ws) = length ws" by simp
  qed
  then show ?thesis by (simp add: unqueue_def Let_def)
qed

lemma landed_lane [lane_simps]:
  "waiting (landed c l) = filter (\<lambda>m. change_id m \<noteq> c) (waiting l)"
  "resolving (landed c l) = map_option (mark_landed c) (resolving l)"
  "presses (landed c l) = presses l"
  by (simp_all add: landed_def Let_def unqueue_lane)

lemma open_batch_lane [lane_simps]:
  "waiting (open_batch b l) = filter (\<lambda>w. change_id w \<notin> member_ids (members b)) (waiting l)"
  "resolving (open_batch b l) = Some b" "presses (open_batch b l) = presses l"
  by (auto simp: open_batch_def image_iff intro!: filter_cong)

lemma end_batch_lane [lane_simps]:
  "waiting (snd (end_batch b l)) = waiting l" "presses (snd (end_batch b l)) = presses l"
  "resolving (snd (end_batch b l)) =
     (if resolving_batch_of b l \<noteq> None then None else resolving l)"
  by (auto simp: end_batch_def)

lemma retain_waiting_lane [lane_simps]:
  "waiting (retain_waiting keep l) = filter (\<lambda>m. keep (change_id m)) (waiting l)"
  "resolving (retain_waiting keep l) = resolving l" "presses (retain_waiting keep l) = presses l"
  by (simp_all add: retain_waiting_def)

lemma resolving_batch_of_Some [lane_simps]:
  "resolving_batch_of b l = Some r \<longleftrightarrow> resolving l = Some r \<and> batch_id r = b"
  by (auto simp: resolving_batch_of_def split: option.splits)

lemma resolving_batch_of_None [lane_simps]:
  "resolving_batch_of b l = None \<longleftrightarrow> (\<forall>r. resolving l = Some r \<longrightarrow> batch_id r \<noteq> b)"
  by (auto simp: resolving_batch_of_def split: option.splits)

lemma resolving_ids_landed [lane_simps]: "resolving_ids (landed c l) = resolving_ids l - {c}"
  by (auto simp: resolving_ids_def lane_simps split: option.splits)

lemma resolving_ids_cong: "resolving l' = resolving l \<Longrightarrow> resolving_ids l' = resolving_ids l"
  by (simp add: resolving_ids_def)

section \<open>Every operation keeps the lane well-formed\<close>

lemma lane_ok_waitingI:
  assumes "lane_ok l" "resolving l' = resolving l" "distinct (map change_id (waiting l'))"
    and "member_ids (waiting l') \<inter> resolving_ids l = {}"
  shows "lane_ok l'"
proof (rule lane_okI)
  show "batch_ok b" if "resolving l' = Some b" for b
    using that assms(2) lane_ok_batch [OF assms(1)] by simp
  show "member_ids (waiting l') \<inter> resolving_ids l' = {}"
    using assms(2,4) by (simp add: resolving_ids_def)
qed (rule assms(3))

lemma lane_ok_shrink:
  assumes "lane_ok l" "resolving l' = resolving l" "distinct (map change_id (waiting l'))"
    and "set (waiting l') \<subseteq> set (waiting l)"
  shows "lane_ok l'"
  using assms(1-3)
proof (rule lane_ok_waitingI)
  show "member_ids (waiting l') \<inter> resolving_ids l = {}"
    using lane_ok_disjoint [OF assms(1)] assms(4) by blast
qed

lemma lane_ok_wait [simp]: "lane_ok l \<Longrightarrow> lane_ok (wait m l)"
  by (rule lane_ok_waitingI [of l])
     (use lane_ok_distinct lane_ok_disjoint in \<open>auto simp: lane_simps held_ids_def\<close>)

lemma lane_ok_unqueue [simp]: "lane_ok l \<Longrightarrow> lane_ok (snd (unqueue c l))"
  by (rule lane_ok_shrink [of l]) (auto simp: lane_simps dest: lane_ok_distinct)

lemma lane_ok_retain [simp]: "lane_ok l \<Longrightarrow> lane_ok (retain_waiting keep l)"
  by (rule lane_ok_shrink [of l]) (auto simp: lane_simps dest: lane_ok_distinct)

lemma lane_ok_landed [simp]:
  assumes "lane_ok l"
  shows "lane_ok (landed c l)"
proof (rule lane_okI)
  show "distinct (map change_id (waiting (landed c l)))"
    using assms by (auto simp: lane_simps dest: lane_ok_distinct)
  show "batch_ok b" if "resolving (landed c l) = Some b" for b
    using that assms by (auto simp: lane_simps dest: lane_ok_batch)
  show "member_ids (waiting (landed c l)) \<inter> resolving_ids (landed c l) = {}"
    using lane_ok_disjoint [OF assms] by (auto simp: lane_simps)
qed

lemma lane_ok_open_batch:
  assumes "lane_ok l" "batch_ok b"
  shows "lane_ok (open_batch b l)"
proof (rule lane_okI)
  show "distinct (map change_id (waiting (open_batch b l)))"
    using assms(1) by (auto simp: lane_simps dest: lane_ok_distinct)
  show "member_ids (waiting (open_batch b l)) \<inter> resolving_ids (open_batch b l) = {}"
    using unlanded_subset [of b] by (auto simp: lane_simps resolving_ids_def)
qed (use assms in \<open>auto simp: lane_simps\<close>)

lemma lane_ok_end_batch [simp]:
  assumes "lane_ok l"
  shows "lane_ok (snd (end_batch b l))"
proof (cases "resolving_batch_of b l")
  case None
  then show ?thesis using assms by (simp add: end_batch_def)
next
  case (Some r)
  then show ?thesis using assms by (simp add: end_batch_def lane_ok_def)
qed

lemma lane_ok_presses [simp]: "lane_ok (l\<lparr>presses := P\<rparr>) = lane_ok l"
  by (cases "resolving l") (simp_all add: lane_ok_def)

lemma lane_ok_open_press [simp]: "lane_ok l \<Longrightarrow> lane_ok (open_press p l)"
  by (simp add: open_press_def)

lemma lane_ok_submit_press [simp]: "lane_ok l \<Longrightarrow> lane_ok (snd (submit_press p l))"
  by (simp add: submit_press_def Let_def)

text \<open>
  What a pass takes leaves the lane; taking is what makes setting aside safe: the members the
  lane takes back in are held nowhere else.
\<close>

definition takeable :: "lane \<Rightarrow> lane_member list \<Rightarrow> bool" where
  "takeable l ms \<longleftrightarrow> distinct (map change_id ms) \<and> member_ids ms \<inter> held_ids l = {}"

lemma take_pass_lane [lane_simps]:
  "fst (take_pass l) = (if queue_held l then [] else waiting l)"
  "waiting (snd (take_pass l)) = (if queue_held l then waiting l else [])"
  "resolving (snd (take_pass l)) = resolving l" "presses (snd (take_pass l)) = presses l"
  by (simp_all add: take_pass_def)

lemma take_members_lane [lane_simps]:
  "fst (take_members ids l) = filter (\<lambda>m. change_id m \<in> ids) (waiting l)"
  "waiting (snd (take_members ids l)) = filter (\<lambda>m. change_id m \<notin> ids) (waiting l)"
  "resolving (snd (take_members ids l)) = resolving l"
  "presses (snd (take_members ids l)) = presses l"
  by (simp_all add: take_members_def partition_filter_conv Let_def comp_def)

lemma lane_ok_take_pass [simp]: "lane_ok l \<Longrightarrow> lane_ok (snd (take_pass l))"
  by (rule lane_ok_shrink [of l]) (auto simp: lane_simps dest: lane_ok_distinct)

lemma lane_ok_take_members [simp]: "lane_ok l \<Longrightarrow> lane_ok (snd (take_members ids l))"
  by (rule lane_ok_shrink [of l]) (auto simp: lane_simps dest: lane_ok_distinct)

lemma takeable_take_pass: "lane_ok l \<Longrightarrow> takeable (snd (take_pass l)) (fst (take_pass l))"
  by (auto simp: takeable_def lane_simps held_ids_def queue_held_def resolving_ids_def
      dest: lane_ok_distinct)

lemma takeable_take_members:
  assumes "lane_ok l"
  shows "takeable (snd (take_members ids l)) (fst (take_members ids l))"
proof -
  have "resolving_ids (snd (take_members ids l)) = resolving_ids l"
    by (rule resolving_ids_cong) (simp add: lane_simps)
  then show ?thesis
    using lane_ok_disjoint [OF assms] lane_ok_distinct [OF assms]
    by (auto simp: takeable_def lane_simps held_ids_def)
qed

lemma set_aside_lane [lane_simps]:
  "waiting (snd (set_aside b base t ms l)) = (if queue_held l then waiting l @ ms else waiting l)"
  "resolving (snd (set_aside b base t ms l)) =
     (if ms \<noteq> [] \<and> \<not> queue_held l then Some (new_batch b base t ms) else resolving l)"
  "presses (snd (set_aside b base t ms l)) = presses l"
  "fst (set_aside b base t ms l) =
     (if ms \<noteq> [] \<and> \<not> queue_held l then Some (new_batch b base t ms) else None)"
  by (auto simp: set_aside_def)

lemma lane_ok_set_aside:
  assumes "lane_ok l" "takeable l ms"
  shows "lane_ok (snd (set_aside b base t ms l))"
proof (cases "queue_held l")
  case True
  then show ?thesis
    using assms by (intro lane_ok_waitingI [OF assms(1)])
      (auto simp: lane_simps takeable_def held_ids_def dest: lane_ok_distinct lane_ok_disjoint)
next
  case False
  then have "resolving l = None" by (simp add: queue_held_def)
  with False assms show ?thesis
    by (auto simp: lane_simps takeable_def held_ids_def resolving_ids_def intro!: lane_okI
        dest: lane_ok_distinct split: if_splits)
qed

end
