(* ===== verification/Lane_Recovery.thy ===== *)
theory Lane_Recovery
  imports Lane_State
begin

text \<open>
  The lane rebuilt from its events after a restart (\<open>landing_lane/recovery.rs\<close>) and the lane
  as clients see it (\<open>landing_lane/snapshot.rs\<close>). The lane keeps no table: its state is a fold
  over its own events, so the lemmas here say what the fold reads back from a log.
\<close>

section \<open>The fold\<close>

datatype lane_record =
    Queued lane_member
  | Unqueued uuid
  | Applied uuid
  | BatchStarted uuid sha uuid "lane_member list"
  | BatchEnded uuid

fun fold_record :: "lane \<Rightarrow> lane_record \<Rightarrow> lane" where
  "fold_record l (Queued m) = wait m l"
| "fold_record l (Unqueued c) = snd (unqueue c l)"
| "fold_record l (Applied c) = landed c l"
| "fold_record l (BatchStarted b base t ms) = open_batch (new_batch b base t ms) l"
| "fold_record l (BatchEnded b) = snd (end_batch b l)"

definition lane_fold :: "lane_record list \<Rightarrow> (uuid \<Rightarrow> bool) \<Rightarrow> lane" where
  "lane_fold rs is_pending = retain_waiting is_pending (foldl fold_record lane_default rs)"

text \<open>
  \<open>stranded\<close> walks the log with the order in which changes were first queued or unqueued, and
  a map from each change to whether its latest such event queued it.
\<close>

fun queue_mark :: "lane_record \<Rightarrow> (uuid \<times> bool) option" where
  "queue_mark (Queued m) = Some (change_id m, True)"
| "queue_mark (Unqueued c) = Some (c, False)"
| "queue_mark (Applied c) = Some (c, False)"
| "queue_mark (BatchStarted b base t ms) = None"
| "queue_mark (BatchEnded b) = None"

definition stranded_step ::
  "uuid list \<times> (uuid \<times> bool) list \<Rightarrow> lane_record \<Rightarrow> uuid list \<times> (uuid \<times> bool) list" where
  "stranded_step st r =
     (case queue_mark r of
        None \<Rightarrow> st
      | Some (c, is_queued) \<Rightarrow>
          (if hm_get (snd st) c = None then fst st @ [c] else fst st,
           hm_insert c is_queued (snd st)))"

definition stranded :: "lane_record list \<Rightarrow> lane \<Rightarrow> (uuid \<Rightarrow> bool) \<Rightarrow> uuid list" where
  "stranded rs l is_pending =
     (let (order, queued) = foldl stranded_step ([], []) rs
      in filter (\<lambda>c. hm_get queued c = Some True \<and> is_pending c \<and> lane_place l c = Absent) order)"

record lane_restore =
  restore_lane :: lane
  opened_here :: "uuid set"
  restore_stranded :: "uuid list"

definition lane_restore_of :: "lane_record list \<Rightarrow> (uuid \<Rightarrow> bool) \<Rightarrow> lane_restore" where
  "lane_restore_of rs is_pending =
     (let l = lane_fold rs is_pending
      in \<lparr>restore_lane = l,
          opened_here =
            set (List.map_filter
              (\<lambda>r. case r of BatchStarted b _ _ _ \<Rightarrow> Some b | _ \<Rightarrow> None) rs),
          restore_stranded = stranded rs l is_pending\<rparr>)"

section \<open>The open batch after a restart\<close>

datatype lane_thread_state = NotOpened | Finished | Unfinished | Closed

datatype batch_recovery_step = OpenLaneThread | Land | AwaitLaneThread | Fail

fun batch_recovery :: "lane_thread_state \<Rightarrow> batch_recovery_step" where
  "batch_recovery NotOpened = OpenLaneThread"
| "batch_recovery Finished = Land"
| "batch_recovery Unfinished = AwaitLaneThread"
| "batch_recovery Closed = Fail"

section \<open>The lane as clients see it\<close>

datatype lane_step = StepResolving | StepLanding

record open_batch_snapshot =
  snap_batch_id :: uuid
  snap_lane_thread_id :: uuid
  snap_members :: "uuid list"
  snap_step :: lane_step

record lane_snapshot =
  snap_open_batch :: "open_batch_snapshot option"
  snap_waiting :: "uuid list"
  snap_gathering :: bool
  snap_waiting_for_origin :: "string option"

definition lane_snapshot_of :: "lane \<Rightarrow> uuid option \<Rightarrow> lane_snapshot" where
  "lane_snapshot_of l landing =
     \<lparr>snap_open_batch =
        map_option (\<lambda>b.
          \<lparr>snap_batch_id = batch_id b,
           snap_lane_thread_id = lane_thread_id b,
           snap_members = map change_id (unlanded b),
           snap_step = (if landing = Some (batch_id b) then StepLanding else StepResolving)\<rparr>)
          (resolving l),
      snap_waiting = map change_id (waiting l),
      snap_gathering = gathering l,
      snap_waiting_for_origin = None\<rparr>"

definition snapshot_waiting_for_origin :: "string option \<Rightarrow> lane_snapshot \<Rightarrow> lane_snapshot" where
  "snapshot_waiting_for_origin why s = s\<lparr>snap_waiting_for_origin := why\<rparr>"

section \<open>What the fold reads back\<close>

text \<open>A log whose batches each name a change once, as \<open>take_in_set_aside\<close> writes them.\<close>

fun record_ok :: "lane_record \<Rightarrow> bool" where
  "record_ok (BatchStarted b base t ms) \<longleftrightarrow> distinct (map change_id ms)"
| "record_ok r \<longleftrightarrow> True"

lemma lane_ok_fold_record: "lane_ok l \<Longrightarrow> record_ok r \<Longrightarrow> lane_ok (fold_record l r)"
  by (cases r) (auto intro: lane_ok_open_batch)

interpretation lane_log: invariant_steps
  "\<lambda>l r. if record_ok r then fold_record l r else l" lane_ok
  by unfold_locales (auto intro: lane_ok_fold_record)

lemma foldl_records_ok:
  assumes "list_all record_ok rs"
  shows "lane_ok (foldl fold_record lane_default rs)"
proof -
  have "foldl fold_record l rs = foldl (\<lambda>l r. if record_ok r then fold_record l r else l) l rs" for l
    using assms by (induction rs arbitrary: l) auto
  then show ?thesis using lane_log.run_inv [OF lane_ok_default] by simp
qed

text \<open>What a change's latest queue event said.\<close>

fun latest_mark :: "lane_record list \<Rightarrow> uuid \<Rightarrow> bool option" where
  "latest_mark [] c = None"
| "latest_mark (r # rs) c =
     (case latest_mark rs c of
        Some q \<Rightarrow> Some q
      | None \<Rightarrow> (case queue_mark r of Some (d, q) \<Rightarrow> if d = c then Some q else None | None \<Rightarrow> None))"

lemma latest_mark_snoc [lane_simps]:
  "latest_mark (rs @ [r]) c =
     (case queue_mark r of
        Some (d, q) \<Rightarrow> if d = c then Some q else latest_mark rs c
      | None \<Rightarrow> latest_mark rs c)"
  by (induction rs) (auto split: option.splits)

lemma stranded_walk:
  "foldl stranded_step ([], []) rs = (order, queued) \<Longrightarrow>
     hm_get queued = latest_mark rs \<and> set order = {c. latest_mark rs c \<noteq> None} \<and> distinct order"
proof (induction rs arbitrary: order queued rule: rev_induct)
  case Nil
  then show ?case by auto
next
  case (snoc r rs)
  obtain o1 q1 where walk: "foldl stranded_step ([], []) rs = (o1, q1)" by fastforce
  note IH = snoc.IH [OF walk]
  have step: "stranded_step (o1, q1) r = (order, queued)"
    using snoc.prems walk by simp
  show ?case
  proof (cases "queue_mark r")
    case None
    with step have "order = o1" "queued = q1" by (simp_all add: stranded_step_def)
    with IH None show ?thesis by (simp add: latest_mark_snoc fun_eq_iff)
  next
    case (Some dq)
    obtain d q where dq: "dq = (d, q)" by fastforce
    have "order = (if latest_mark rs d = None then o1 @ [d] else o1)"
      and "queued = hm_insert d q q1"
      using step IH Some dq by (auto simp: stranded_step_def)
    with IH Some dq show ?thesis
      by (auto simp: latest_mark_snoc fun_eq_iff update_conv')
  qed
qed

lemma stranded_iff:
  "c \<in> set (stranded rs l is_pending) \<longleftrightarrow>
     latest_mark rs c = Some True \<and> is_pending c \<and> c \<notin> held_ids l"
proof -
  obtain order queued where walk: "foldl stranded_step ([], []) rs = (order, queued)" by fastforce
  from stranded_walk [OF walk] walk show ?thesis
    by (auto simp: stranded_def lane_place_Absent)
qed

lemma distinct_stranded: "distinct (stranded rs l is_pending)"
proof -
  obtain order queued where walk: "foldl stranded_step ([], []) rs = (order, queued)" by fastforce
  from stranded_walk [OF walk] walk show ?thesis by (simp add: stranded_def)
qed

text \<open>Whether a record is about a change at all, and what it leaves alone.\<close>

fun record_about :: "lane_record \<Rightarrow> uuid set" where
  "record_about (Queued m) = {change_id m}"
| "record_about (Unqueued c) = {c}"
| "record_about (Applied c) = {c}"
| "record_about (BatchStarted b base t ms) = member_ids ms"
| "record_about (BatchEnded b) = {}"

lemma fold_record_not_held:
  "c \<notin> held_ids l \<Longrightarrow> c \<notin> record_about r \<Longrightarrow> c \<notin> held_ids (fold_record l r)"
proof (cases r)
  case (Applied d)
  assume "c \<notin> held_ids l"
  with Applied show ?thesis by (auto simp: held_ids_def lane_simps)
qed (auto simp: held_ids_def resolving_ids_def lane_simps split: if_splits option.splits)

lemma foldl_not_held:
  "c \<notin> held_ids l \<Longrightarrow> \<forall>r \<in> set rs. c \<notin> record_about r \<Longrightarrow>
     c \<notin> held_ids (foldl fold_record l rs)"
  by (induction rs arbitrary: l) (simp_all add: fold_record_not_held)

lemma held_after_landed: "c \<notin> held_ids (landed c l)"
  by (auto simp: held_ids_def lane_simps)

lemma held_ids_retain: "held_ids (retain_waiting keep l) \<subseteq> held_ids l"
  by (auto simp: held_ids_def resolving_ids_def lane_simps)

end
