(* ===== verification/Lane_Properties.thy ===== *)
theory Lane_Properties
  imports Lane_Recovery
begin

text \<open>
  The landing lane over whole runs: a change is in one place, a restart reads the same lane back
  from the events, a failed batch's lost members are found once, and clients see every change
  the lane holds exactly once. A run holds, besides the lane, the members a pass has taken and
  not yet dealt with: each lands, leaves the queue, or is set aside.
\<close>

section \<open>Runs\<close>

datatype lane_op =
    OpQueue lane_member
  | OpLeave uuid
  | OpLanded uuid
  | OpOpenPress uuid
  | OpSubmitPress uuid
  | OpTakePass
  | OpTakeMembers "uuid list"
  | OpSetAside uuid sha uuid
  | OpEndBatch uuid

text \<open>The step, with the records the driver writes for it.\<close>

fun lane_op_step :: "lane \<times> lane_member list \<Rightarrow> lane_op \<Rightarrow> lane_record list \<times> lane \<times> lane_member list" where
  "lane_op_step (l, hand) (OpQueue m) = ([Queued m], wait m l, hand)"
| "lane_op_step (l, hand) (OpLeave c) =
     ([Unqueued c], snd (unqueue c l), filter (\<lambda>m. change_id m \<noteq> c) hand)"
| "lane_op_step (l, hand) (OpLanded c) =
     ([Applied c], landed c l, filter (\<lambda>m. change_id m \<noteq> c) hand)"
| "lane_op_step (l, hand) (OpOpenPress p) = ([], open_press p l, hand)"
| "lane_op_step (l, hand) (OpSubmitPress p) = ([], snd (submit_press p l), hand)"
| "lane_op_step (l, hand) OpTakePass = ([], snd (take_pass l), hand @ fst (take_pass l))"
| "lane_op_step (l, hand) (OpTakeMembers cs) =
     ([], snd (take_members (set cs) l), hand @ fst (take_members (set cs) l))"
| "lane_op_step (l, hand) (OpSetAside b base t) =
     ((case fst (set_aside b base t hand l) of
         None \<Rightarrow> [] | Some batch \<Rightarrow> [BatchStarted b base t (members batch)]),
      snd (set_aside b base t hand l), [])"
| "lane_op_step (l, hand) (OpEndBatch b) =
     (if fst (end_batch b l) = None then [] else [BatchEnded b], snd (end_batch b l), hand)"

fun lane_run :: "lane \<times> lane_member list \<Rightarrow> lane_op list \<Rightarrow> lane_record list \<times> lane \<times> lane_member list" where
  "lane_run s [] = ([], s)"
| "lane_run s (opn # ops) =
     (let (log, s) = lane_op_step s opn; (more, s) = lane_run s ops in (log @ more, s))"

text \<open>A change that a pass holds is claimed, so nothing queues it meanwhile.\<close>

fun lane_op_ok :: "lane \<times> lane_member list \<Rightarrow> lane_op \<Rightarrow> bool" where
  "lane_op_ok (l, hand) (OpQueue m) \<longleftrightarrow> change_id m \<notin> member_ids hand"
| "lane_op_ok s opn \<longleftrightarrow> True"

fun lane_run_ok :: "lane \<times> lane_member list \<Rightarrow> lane_op list \<Rightarrow> bool" where
  "lane_run_ok s [] \<longleftrightarrow> True"
| "lane_run_ok s (opn # ops) \<longleftrightarrow> lane_op_ok s opn \<and> lane_run_ok (snd (lane_op_step s opn)) ops"

section \<open>One place per change\<close>

definition run_state_ok :: "lane \<times> lane_member list \<Rightarrow> bool" where
  "run_state_ok s \<longleftrightarrow> lane_ok (fst s) \<and> takeable (fst s) (snd s)"

lemma takeable_shrink:
  assumes "takeable l hand" "held_ids l' \<subseteq> held_ids l" "distinct (map change_id hand')"
    and "set hand' \<subseteq> set hand"
  shows "takeable l' hand'"
  using assms unfolding takeable_def by blast

lemma held_unqueue: "held_ids (snd (unqueue c l)) \<subseteq> held_ids l"
  by (auto simp: held_ids_def resolving_ids_def lane_simps)

lemma held_landed: "held_ids (landed c l) \<subseteq> held_ids l"
  by (auto simp: held_ids_def resolving_ids_landed lane_simps)

lemma held_presses: "held_ids (l\<lparr>presses := P\<rparr>) = held_ids l"
  by (simp add: held_ids_def resolving_ids_def)

lemma held_end_batch: "held_ids (snd (end_batch b l)) \<subseteq> held_ids l"
  by (auto simp: held_ids_def resolving_ids_def lane_simps)

lemma takeable_append:
  assumes "takeable l hand" "takeable l' taken" "held_ids l' \<union> member_ids taken \<subseteq> held_ids l"
  shows "takeable l' (hand @ taken)"
proof -
  have "member_ids hand \<inter> member_ids taken = {}" "member_ids hand \<inter> held_ids l' = {}"
    using assms unfolding takeable_def by blast+
  with assms show ?thesis unfolding takeable_def by (simp add: image_Un) blast
qed

lemma held_take_pass: "held_ids (snd (take_pass l)) \<union> member_ids (fst (take_pass l)) \<subseteq> held_ids l"
  by (auto simp: held_ids_def resolving_ids_def lane_simps)

lemma held_take_members:
  "held_ids (snd (take_members ids l)) \<union> member_ids (fst (take_members ids l)) \<subseteq> held_ids l"
  by (auto simp: held_ids_def resolving_ids_def lane_simps)

lemma lane_step_ok:
  assumes "run_state_ok s" "lane_op_ok s opn"
  shows "run_state_ok (snd (lane_op_step s opn))"
proof -
  obtain l hand where s: "s = (l, hand)" by (cases s)
  have ok: "lane_ok l" "takeable l hand" "distinct (map change_id hand)"
    using assms(1) s by (simp_all add: run_state_ok_def takeable_def)
  have fewer: "distinct (map change_id (filter P hand))" for P using ok(3) by (rule distinct_map_filterI)
  show ?thesis
  proof (cases opn)
    case (OpQueue m)
    have "takeable (wait m l) hand"
      using ok(2) assms(2) s OpQueue
      by (auto simp: takeable_def held_ids_def resolving_ids_def lane_simps)
    with ok OpQueue s show ?thesis by (simp add: run_state_ok_def)
  next
    case (OpLeave c)
    with ok s takeable_shrink [OF ok(2) held_unqueue fewer] show ?thesis by (simp add: run_state_ok_def)
  next
    case (OpLanded c)
    with ok s takeable_shrink [OF ok(2) held_landed fewer] show ?thesis by (simp add: run_state_ok_def)
  next
    case (OpOpenPress p)
    with ok s show ?thesis
      by (simp add: run_state_ok_def open_press_def takeable_def held_presses)
  next
    case (OpSubmitPress p)
    with ok s show ?thesis
      by (simp add: run_state_ok_def submit_press_def Let_def takeable_def held_presses)
  next
    case OpTakePass
    with ok s takeable_append [OF ok(2) takeable_take_pass [OF ok(1)] held_take_pass] show ?thesis
      by (simp add: run_state_ok_def)
  next
    case (OpTakeMembers cs)
    with ok s takeable_append [OF ok(2) takeable_take_members [OF ok(1)] held_take_members]
    show ?thesis by (simp add: run_state_ok_def)
  next
    case (OpSetAside b base t)
    with ok s lane_ok_set_aside show ?thesis by (simp add: run_state_ok_def takeable_def)
  next
    case (OpEndBatch b)
    with ok s takeable_shrink [OF ok(2) held_end_batch ok(3)] show ?thesis
      by (simp add: run_state_ok_def)
  qed
qed

lemma lane_run_ok_state:
  "run_state_ok s \<Longrightarrow> lane_run_ok s ops \<Longrightarrow> run_state_ok (snd (lane_run s ops))"
proof (induction ops arbitrary: s)
  case (Cons opn ops)
  from Cons.IH [OF lane_step_ok [OF Cons.prems(1)], of opn] Cons.prems(2) show ?case
    by (simp add: split_def Let_def)
qed simp

lemma run_state_ok_start: "run_state_ok (lane_default, [])"
  by (simp add: run_state_ok_def takeable_def)

text \<open>A change is in one place. Over any run of the lane, whatever queues, lands, leaves, is taken,
  set aside or ended in whatever order, the waiting changes, those the open batch still owes and
  those a pass has in hand are all different, and a batch counts as landed only its own members.\<close>

theorem a_change_is_in_one_place:
  assumes "lane_run_ok (lane_default, []) ops" "lane_run (lane_default, []) ops = (log, l, hand)"
  shows "distinct (map change_id (waiting l) @
      (case resolving l of None \<Rightarrow> [] | Some b \<Rightarrow> map change_id (unlanded b)) @ map change_id hand) \<and>
    (case resolving l of None \<Rightarrow> True | Some b \<Rightarrow> set (landed_ids b) \<subseteq> member_ids (members b))"
proof -
  have ok: "lane_ok l" "takeable l hand"
    using lane_run_ok_state [OF run_state_ok_start assms(1)] assms(2) by (simp_all add: run_state_ok_def)
  show ?thesis
  proof (cases "resolving l")
    case None
    with ok show ?thesis
      by (auto simp: lane_ok_def takeable_def held_ids_def resolving_ids_def)
  next
    case (Some b)
    have "distinct (map change_id (unlanded b))"
      using lane_ok_batch [OF ok(1) Some] by (auto simp: batch_ok_def unlanded_def)
    with Some ok lane_ok_batch [OF ok(1) Some] show ?thesis
      by (auto simp: lane_ok_def takeable_def held_ids_def resolving_ids_def batch_ok_def)
  qed
qed

abbreviation demo_member :: "uuid \<Rightarrow> lane_member" where
  "demo_member c \<equiv> \<lparr>change_id = c, snapshot_sha = ''abc''\<rparr>"

definition demo_lane_ops :: "lane_op list" where
  "demo_lane_ops = [OpQueue (demo_member 1), OpQueue (demo_member 2), OpTakePass, OpLanded 1,
     OpSetAside 7 ''base'' 8, OpQueue (demo_member 3)]"

theorem a_change_is_in_one_place_witness:
  "\<exists>log l hand. lane_run (lane_default, []) demo_lane_ops = (log, l, hand) \<and>
     distinct (map change_id (waiting l) @
       (case resolving l of None \<Rightarrow> [] | Some b \<Rightarrow> map change_id (unlanded b)) @ map change_id hand)"
proof -
  obtain log l hand where run: "lane_run (lane_default, []) demo_lane_ops = (log, l, hand)"
    by (rule prod_cases3)
  have "lane_run_ok (lane_default, []) demo_lane_ops"
    by (simp add: demo_lane_ops_def lane_default_def take_pass_def queue_held_def wait_def lane_place_def)
  from a_change_is_in_one_place [OF this run] run show ?thesis by blast
qed


section \<open>A restart\<close>

text \<open>What the log reads back: the same batch, and in the queue what waits and what is in hand.\<close>

definition reads_back :: "lane \<Rightarrow> lane \<times> lane_member list \<Rightarrow> bool" where
  "reads_back f s \<longleftrightarrow> resolving f = resolving (fst s) \<and>
     set (waiting f) = set (waiting (fst s)) \<union> set (snd s)"

lemma reads_back_held: "reads_back f (l, hand) \<Longrightarrow> held_ids f = held_ids l \<union> member_ids hand"
  by (auto simp: reads_back_def held_ids_def resolving_ids_def)

lemma reads_back_step:
  assumes "reads_back f s" "run_state_ok s" "lane_op_ok s opn"
  shows "reads_back (foldl fold_record f (fst (lane_op_step s opn))) (snd (lane_op_step s opn))"
proof -
  obtain l hand where s: "s = (l, hand)" by (cases s)
  have rb: "resolving f = resolving l" "set (waiting f) = set (waiting l) \<union> set hand"
    using assms(1) s by (simp_all add: reads_back_def)
  have ok: "takeable l hand" using assms(2) s by (simp add: run_state_ok_def)
  show ?thesis
  proof (cases opn)
    case (OpQueue m)
    then have "change_id m \<in> held_ids f \<longleftrightarrow> change_id m \<in> held_ids l"
      using assms(3) s reads_back_held [of f l hand] assms(1) by auto
    with OpQueue rb s show ?thesis by (simp add: reads_back_def lane_simps)
  next
    case (OpLeave c)
    with rb s show ?thesis by (auto simp: reads_back_def lane_simps)
  next
    case (OpLanded c)
    with rb s show ?thesis by (auto simp: reads_back_def lane_simps)
  next
    case (OpSetAside b base t)
    show ?thesis
    proof (cases "hand \<noteq> [] \<and> \<not> queue_held l")
      case True
      have "filter (\<lambda>w. change_id w \<notin> member_ids hand) (waiting l) = waiting l"
        using ok by (intro filter_True) (auto simp: takeable_def held_ids_def)
      moreover have "set (filter (\<lambda>w. change_id w \<notin> member_ids hand) (waiting f)) =
          set (filter (\<lambda>w. change_id w \<notin> member_ids hand) (waiting l))"
        using rb(2) by auto
      ultimately show ?thesis using True OpSetAside s by (simp add: reads_back_def lane_simps)
    next
      case False
      with OpSetAside rb s show ?thesis by (auto simp: reads_back_def lane_simps)
    qed
  next
    case (OpEndBatch b)
    have same: "resolving_batch_of b f = resolving_batch_of b l" using rb(1) by (simp add: resolving_batch_of_def)
    show ?thesis
    proof (cases "resolving_batch_of b l")
      case None
      then have "end_batch b l = (None, l)" by (simp add: end_batch_def)
      with OpEndBatch rb s show ?thesis by (simp add: reads_back_def)
    next
      case (Some r)
      then have "fst (end_batch b l) \<noteq> None" by (simp add: end_batch_def lane_simps)
      with OpEndBatch rb s same Some show ?thesis by (simp add: reads_back_def lane_simps)
    qed
  qed (use rb s in \<open>auto simp: reads_back_def lane_simps open_press_def submit_press_def Let_def\<close>)
qed

lemma reads_back_run:
  "reads_back f s \<Longrightarrow> run_state_ok s \<Longrightarrow> lane_run_ok s ops \<Longrightarrow>
     reads_back (foldl fold_record f (fst (lane_run s ops))) (snd (lane_run s ops))"
proof (induction ops arbitrary: f s)
  case (Cons opn ops)
  from Cons.IH [OF reads_back_step [OF Cons.prems(1,2), of opn] lane_step_ok [OF Cons.prems(2), of opn]]
    Cons.prems(3)
  show ?case by (simp add: split_def Let_def)
qed simp

text \<open>A restart finds the lane it left. Whatever the lane did before, folding the events it wrote
  gives the same open batch, with the same members landed, and exactly the waiting changes whose
  rows are still pending; a change that a pass had in hand when the engine stopped waits again.\<close>

theorem restart_recovers_the_lane:
  assumes "lane_run_ok (lane_default, []) ops" "lane_run (lane_default, []) ops = (log, l, hand)"
  shows "resolving (lane_fold log is_pending) = resolving l \<and>
    set (waiting (lane_fold log is_pending)) =
      {m \<in> set (waiting l) \<union> set hand. is_pending (change_id m)} \<and>
    lane_ok (lane_fold log is_pending)"
proof -
  have "reads_back lane_default (lane_default, [])" by (simp add: reads_back_def)
  from reads_back_run [OF this run_state_ok_start assms(1)] assms(2)
  have rb: "reads_back (foldl fold_record lane_default log) (l, hand)" by simp
  have "list_all record_ok (fst (lane_run s ops))" if "run_state_ok s" "lane_run_ok s ops" for s
    using that
  proof (induction ops arbitrary: s)
    case (Cons opn ops)
    have "list_all record_ok (fst (lane_op_step s opn))"
      using Cons.prems(1)
      by (cases s; cases opn) (auto simp: run_state_ok_def takeable_def lane_simps)
    with Cons.IH [OF lane_step_ok [OF Cons.prems(1), of opn]] Cons.prems(2) show ?case
      by (simp add: split_def Let_def)
  qed simp
  from this [OF run_state_ok_start assms(1)] assms(2) foldl_records_ok
  have "lane_ok (foldl fold_record lane_default log)" by simp
  with rb show ?thesis by (auto simp: reads_back_def lane_fold_def lane_simps)
qed

theorem restart_recovers_the_lane_witness:
  "\<exists>log l hand. lane_run (lane_default, []) demo_lane_ops = (log, l, hand) \<and>
     resolving (lane_fold log (\<lambda>c. True)) = resolving l"
proof -
  obtain log l hand where run: "lane_run (lane_default, []) demo_lane_ops = (log, l, hand)"
    by (rule prod_cases3)
  have "lane_run_ok (lane_default, []) demo_lane_ops"
    by (simp add: demo_lane_ops_def lane_default_def take_pass_def queue_held_def wait_def lane_place_def)
  from restart_recovers_the_lane [OF this run, of "\<lambda>c. True"] run show ?thesis by blast
qed

section \<open>Stranded changes\<close>

lemma latest_mark_unqueued:
  "latest_mark (rs @ map Unqueued cs) c = (if c \<in> set cs then Some False else latest_mark rs c)"
proof (induction cs rule: rev_induct)
  case (snoc d cs)
  have "latest_mark (rs @ map Unqueued (cs @ [d])) c =
      (if d = c then Some False else latest_mark (rs @ map Unqueued cs) c)"
    using latest_mark_snoc [of "rs @ map Unqueued cs" "Unqueued d" c] by simp
  with snoc show ?case by auto
qed simp

text \<open>A crash strands no change. The restart finds, once each, exactly the pending changes whose
  last lane event queued them and which the lane holds nowhere; and once their leaving is
  recorded, the next restart finds none.\<close>

theorem stranded_changes_are_found_once:
  "distinct (restore_stranded (lane_restore_of rs is_pending)) \<and>
   set (restore_stranded (lane_restore_of rs is_pending)) =
     {c. latest_mark rs c = Some True \<and> is_pending c \<and> c \<notin> held_ids (restore_lane (lane_restore_of rs is_pending))} \<and>
   restore_stranded (lane_restore_of
     (rs @ map Unqueued (restore_stranded (lane_restore_of rs is_pending))) is_pending) = []"
proof -
  let ?cs = "stranded rs (lane_fold rs is_pending) is_pending"
  have found: "distinct ?cs"
    "set ?cs = {c. latest_mark rs c = Some True \<and> is_pending c \<and> c \<notin> held_ids (lane_fold rs is_pending)}"
    using distinct_stranded stranded_iff by blast+
  have unq: "resolving_ids (foldl fold_record l (map Unqueued cs)) = resolving_ids l"
      "waiting (foldl fold_record l (map Unqueued cs)) = filter (\<lambda>w. change_id w \<notin> set cs) (waiting l)" for l cs
    by (induction cs arbitrary: l) (auto simp: lane_simps resolving_ids_def conj_commute)
  have "c \<notin> set (stranded (rs @ map Unqueued ?cs) (lane_fold (rs @ map Unqueued ?cs) is_pending) is_pending)" for c
  proof
    assume "c \<in> set (stranded (rs @ map Unqueued ?cs) (lane_fold (rs @ map Unqueued ?cs) is_pending) is_pending)"
    then have c: "latest_mark rs c = Some True" "c \<notin> set ?cs" "is_pending c"
      "c \<notin> held_ids (lane_fold (rs @ map Unqueued ?cs) is_pending)"
      by (auto simp: stranded_iff latest_mark_unqueued split: if_splits)
    then have "c \<in> held_ids (lane_fold rs is_pending)" using found(2) by blast
    then have "c \<in> held_ids (lane_fold (rs @ map Unqueued ?cs) is_pending)"
      using c(2,3) unq [of "foldl fold_record lane_default rs" ?cs]
      by (auto simp: lane_fold_def held_ids_def lane_simps resolving_ids_def)
    with c(4) show False by simp
  qed
  then have "stranded (rs @ map Unqueued ?cs) (lane_fold (rs @ map Unqueued ?cs) is_pending) is_pending = []"
    by (metis list.set_intros(1) neq_Nil_conv)
  with found show ?thesis by (simp add: lane_restore_of_def Let_def)
qed

section \<open>The clients' view\<close>

text \<open>Clients see the lane they would act on. For any lane a run can reach, the snapshot lists
  every change the lane holds once, in its queue or in its open batch, lists no other change, and
  shows the queue as gathering exactly when Apply All presses alone hold it.\<close>

theorem the_view_lists_every_held_change_once:
  assumes "lane_run_ok (lane_default, []) ops" "lane_run (lane_default, []) ops = (log, l, hand)"
    and "view = lane_snapshot_of l landing"
    and "shown = snap_waiting view @ (case snap_open_batch view of None \<Rightarrow> [] | Some b \<Rightarrow> snap_members b)"
  shows "distinct shown \<and> set shown = held_ids l \<and>
    (\<forall>c. lane_place l c = Waiting \<longleftrightarrow> c \<in> set (snap_waiting view)) \<and>
    (snap_gathering view \<longleftrightarrow> queue_held l \<and> snap_open_batch view = None)"
proof -
  have ok: "lane_ok l"
    using lane_run_ok_state [OF run_state_ok_start assms(1)] assms(2) by (simp add: run_state_ok_def)
  have "distinct (map change_id (unlanded b))" if "resolving l = Some b" for b
    using lane_ok_batch [OF ok that] by (auto simp: batch_ok_def unlanded_def)
  with ok show ?thesis
    unfolding assms(3,4)
    by (cases "resolving l")
       (auto simp: lane_snapshot_of_def lane_ok_def held_ids_def resolving_ids_def lane_place_Waiting
          gathering_def queue_held_def)
qed

theorem the_view_lists_every_held_change_once_witness:
  "\<exists>log l hand view. lane_run (lane_default, []) demo_lane_ops = (log, l, hand) \<and>
     view = lane_snapshot_of l None \<and> (\<forall>c. lane_place l c = Waiting \<longleftrightarrow> c \<in> set (snap_waiting view))"
proof -
  obtain log l hand where run: "lane_run (lane_default, []) demo_lane_ops = (log, l, hand)"
    by (rule prod_cases3)
  have "lane_run_ok (lane_default, []) demo_lane_ops"
    by (simp add: demo_lane_ops_def lane_default_def take_pass_def queue_held_def wait_def lane_place_def)
  from the_view_lists_every_held_change_once [OF this run refl refl, of None] run show ?thesis by blast
qed

end
