(* ===== verification/Main_Check.thy ===== *)
theory Main_Check
  imports Prelude
begin

text \<open>
  The main check's pure scheduler (\<open>main_check/state.rs\<close>), its fold over the stored events
  (\<open>main_check/recovery.rs\<close>) and its view (\<open>main_check/snapshot.rs\<close>). A check covers what
  landed on \<open>main\<close> since the last check with a verdict; a failed check leaves a red, which
  holds every further check until it closes.
\<close>

section \<open>Data\<close>

record check_range =
  check_id :: uuid
  from_sha :: sha
  to_sha :: sha

record failed_test =
  suite :: string
  test_name :: string
  detail :: string

record red_check =
  red_range :: check_range
  red_summary :: string
  red_tail :: string
  red_failures :: "failed_test list"
  red_run_url :: "string option"
  red_fix_thread_id :: uuid

record flaky_fix =
  flaky_range :: check_range
  flaky_run_url :: "string option"
  flaky_tests :: "failed_test list"
  flaky_fix_thread_id :: uuid

datatype verdict =
    Passed
  | PassedWithFlakyFix "string option" "failed_test list" uuid
  | Failed string string "failed_test list" "string option" uuid
  | Abandoned

datatype red_close_cause = FixLanded | ClosedByMaintainer

datatype check_effect = CloseRed uuid red_close_cause | Start check_range

datatype close_refusal = NoRed | StateUnread

record main_check =
  mc_base :: "sha option"
  mc_running :: "check_range option"
  mc_dirty :: bool
  mc_red :: "red_check option"
  mc_passed :: "check_range option"
  mc_flaky :: "flaky_fix option"

definition main_check_default :: main_check where
  "main_check_default =
     \<lparr>mc_base = None, mc_running = None, mc_dirty = False, mc_red = None, mc_passed = None,
      mc_flaky = None\<rparr>"

section \<open>The scheduler's transitions\<close>

definition check_start :: "sha option \<Rightarrow> uuid \<Rightarrow> main_check \<Rightarrow> check_effect option \<times> main_check" where
  "check_start main new_id c =
     (case main of
        None \<Rightarrow> (None, c\<lparr>mc_dirty := True\<rparr>)
      | Some tip \<Rightarrow>
          (let c = c\<lparr>mc_dirty := False\<rparr>;
               from = (case mc_base c of Some b \<Rightarrow> b | None \<Rightarrow> tip)
           in if from = tip then (None, c)
              else (let rng = \<lparr>check_id = new_id, from_sha = from, to_sha = tip\<rparr>
                    in (Some (Start rng), c\<lparr>mc_running := Some rng, mc_passed := None\<rparr>))))"

definition option_list :: "'a option \<Rightarrow> 'a list" where
  "option_list x = (case x of None \<Rightarrow> [] | Some y \<Rightarrow> [y])"

definition check_landed ::
  "sha option \<Rightarrow> bool \<Rightarrow> sha option \<Rightarrow> uuid \<Rightarrow> main_check \<Rightarrow> check_effect list \<times> main_check" where
  "check_landed pre from_fix main next_id c =
     (let c = (if mc_base c = None then c\<lparr>mc_base := pre\<rparr> else c)
      in if mc_running c \<noteq> None then ([], c\<lparr>mc_dirty := True\<rparr>)
         else (case mc_red c of
                 None \<Rightarrow> (let (e, c') = check_start main next_id c in (option_list e, c'))
               | Some red \<Rightarrow>
                   if \<not> from_fix then ([], c\<lparr>mc_dirty := True\<rparr>)
                   else (let (e, c') = check_start main next_id (c\<lparr>mc_red := None\<rparr>)
                         in (CloseRed (check_id (red_range red)) FixLanded # option_list e, c'))))"

definition check_pass :: "check_range \<Rightarrow> main_check \<Rightarrow> bool \<times> main_check" where
  "check_pass rng c =
     (mc_dirty c, c\<lparr>mc_base := Some (to_sha rng), mc_passed := Some rng, mc_dirty := False\<rparr>)"

definition check_finish :: "uuid \<Rightarrow> verdict \<Rightarrow> main_check \<Rightarrow> bool \<times> main_check" where
  "check_finish cid v c =
     (case mc_running c of
        None \<Rightarrow> (False, c)
      | Some rng \<Rightarrow>
          if check_id rng \<noteq> cid then (False, c)
          else (let c = c\<lparr>mc_running := None\<rparr>
                in case v of
                     Passed \<Rightarrow> check_pass rng c
                   | PassedWithFlakyFix url tests t \<Rightarrow>
                       check_pass rng (c\<lparr>mc_flaky := Some
                         \<lparr>flaky_range = rng, flaky_run_url = url, flaky_tests = tests,
                          flaky_fix_thread_id = t\<rparr>\<rparr>)
                   | Failed summary tail failures url t \<Rightarrow>
                       (False, c\<lparr>mc_base := Some (to_sha rng),
                                 mc_red := Some
                         \<lparr>red_range = rng, red_summary = summary, red_tail = tail,
                          red_failures = failures, red_run_url = url, red_fix_thread_id = t\<rparr>\<rparr>)
                   | Abandoned \<Rightarrow> (False, c\<lparr>mc_dirty := False\<rparr>)))"

definition check_ended ::
  "uuid \<Rightarrow> verdict \<Rightarrow> sha option \<Rightarrow> uuid \<Rightarrow> main_check \<Rightarrow> check_effect list \<times> main_check" where
  "check_ended cid v main next_id c =
     (let (due, c) = check_finish cid v c
      in if due then (let (e, c') = check_start main next_id c in (option_list e, c'))
         else ([], c))"

definition close_flaky_for :: "uuid \<Rightarrow> main_check \<Rightarrow> bool \<times> main_check" where
  "close_flaky_for t c =
     (case mc_flaky c of
        None \<Rightarrow> (False, c)
      | Some f \<Rightarrow> if flaky_fix_thread_id f = t then (True, c\<lparr>mc_flaky := None\<rparr>) else (False, c))"

definition forget_flaky :: "main_check \<Rightarrow> main_check" where
  "forget_flaky c = c\<lparr>mc_flaky := None\<rparr>"

definition check_close ::
  "sha option \<Rightarrow> uuid \<Rightarrow> main_check \<Rightarrow> (close_refusal + check_effect list) \<times> main_check" where
  "check_close main next_id c =
     (case mc_red c of
        None \<Rightarrow> (Inl NoRed, c)
      | Some red \<Rightarrow>
          (let close = CloseRed (check_id (red_range red)) ClosedByMaintainer;
               due = mc_dirty c;
               c = c\<lparr>mc_red := None, mc_dirty := False\<rparr>
           in if due then (let (e, c') = check_start main next_id c
                           in (Inr (close # option_list e), c'))
              else (Inr [close], c)))"

section \<open>Replay\<close>

definition replay_started :: "check_range \<Rightarrow> main_check \<Rightarrow> main_check" where
  "replay_started rng c = c\<lparr>mc_running := Some rng, mc_passed := None, mc_dirty := False\<rparr>"

definition replay_ended :: "uuid \<Rightarrow> verdict \<Rightarrow> main_check \<Rightarrow> main_check" where
  "replay_ended cid v c = snd (check_finish cid v c)"

definition replay_landed :: "sha option \<Rightarrow> main_check \<Rightarrow> main_check" where
  "replay_landed pre c =
     (let c = (if mc_base c = None then c\<lparr>mc_base := pre\<rparr> else c)
      in if mc_running c \<noteq> None \<or> mc_red c \<noteq> None then c\<lparr>mc_dirty := True\<rparr> else c)"

definition replay_red_closed :: "uuid \<Rightarrow> main_check \<Rightarrow> main_check" where
  "replay_red_closed cid c =
     (case mc_red c of
        None \<Rightarrow> c
      | Some red \<Rightarrow> if check_id (red_range red) = cid then c\<lparr>mc_red := None\<rparr> else c)"

definition expire_followup :: "main_check \<Rightarrow> main_check" where
  "expire_followup c = c\<lparr>mc_dirty := False\<rparr>"

definition take_interrupted :: "main_check \<Rightarrow> check_range option \<times> main_check" where
  "take_interrupted c =
     (case mc_running c of
        None \<Rightarrow> (None, c)
      | Some rng \<Rightarrow> (Some rng, c\<lparr>mc_running := None, mc_dirty := False\<rparr>))"

definition heal_fix_landed :: "main_check \<Rightarrow> uuid option \<times> main_check" where
  "heal_fix_landed c =
     (case mc_red c of
        None \<Rightarrow> (None, c)
      | Some red \<Rightarrow> (Some (check_id (red_range red)), c\<lparr>mc_red := None, mc_dirty := False\<rparr>))"

section \<open>The fold over the stored events\<close>

record run_link =
  run_url :: string
  run_branch :: string

datatype main_check_record =
    RestoreBoundary
  | RStarted check_range
  | RRunLinked uuid run_link
  | REnded uuid verdict
  | RRedClosed uuid
  | RLanded "uuid option" "sha option"

record recovered =
  rec_check :: main_check
  rec_interrupted :: "check_range option"
  rec_reattach :: "(check_range \<times> run_link) option"
  rec_fix_landed :: "uuid option"

text \<open>The three variables the fold's loop carries: the check, \<open>fix_landed\<close> and \<open>linked\<close>.\<close>

type_synonym fold_state = "main_check \<times> uuid option \<times> (uuid \<times> run_link) option"

fun fold_step :: "fold_state \<Rightarrow> main_check_record \<Rightarrow> fold_state" where
  "fold_step (c, fix_landed, linked) RestoreBoundary = (expire_followup c, fix_landed, linked)"
| "fold_step (c, fix_landed, linked) (RStarted rng) = (replay_started rng c, fix_landed, linked)"
| "fold_step (c, fix_landed, linked) (RRunLinked cid link) = (c, fix_landed, Some (cid, link))"
| "fold_step (c, fix_landed, linked) (REnded cid v) = (replay_ended cid v c, fix_landed, linked)"
| "fold_step (c, fix_landed, linked) (RRedClosed cid) =
     (replay_red_closed cid c, if fix_landed = Some cid then None else fix_landed, linked)"
| "fold_step (c, fix_landed, linked) (RLanded t pre) =
     (let c = (case t of Some thread \<Rightarrow> snd (close_flaky_for thread c) | None \<Rightarrow> c);
          fix_landed =
            (case mc_red c of
               Some red \<Rightarrow> if t = Some (red_fix_thread_id red)
                           then Some (check_id (red_range red)) else fix_landed
             | None \<Rightarrow> fix_landed)
      in (replay_landed pre c, fix_landed, linked))"

definition check_fold :: "main_check_record list \<Rightarrow> recovered" where
  "check_fold rs =
     (let (c, fix_landed, linked) = foldl fold_step (main_check_default, None, None) rs;
          reattach =
            (case mc_running c of
               None \<Rightarrow> None
             | Some rng \<Rightarrow>
                 (case linked of
                    None \<Rightarrow> None
                  | Some (cid, link) \<Rightarrow> if cid = check_id rng then Some (rng, link) else None));
          (interrupted, c) = (if reattach \<noteq> None then (None, c) else take_interrupted c);
          fix_landed =
            (case fix_landed of
               None \<Rightarrow> None
             | Some cid \<Rightarrow>
                 (case mc_red c of
                    None \<Rightarrow> None
                  | Some red \<Rightarrow> if check_id (red_range red) = cid then Some cid else None))
      in \<lparr>rec_check = c, rec_interrupted = interrupted, rec_reattach = reattach,
          rec_fix_landed = fix_landed\<rparr>)"

section \<open>The check as clients see it\<close>

datatype main_check_state = Idle | Running | PassedState | Red | Unavailable

record main_check_snapshot =
  snap_state :: main_check_state
  snap_check_id :: "uuid option"
  snap_from_sha :: "sha option"
  snap_to_sha :: "sha option"
  snap_run_url :: "string option"
  snap_fix_thread_id :: "uuid option"
  snap_flaky_fix_thread_id :: "uuid option"
  snap_summary :: "string option"

definition snapshot_default :: main_check_snapshot where
  "snapshot_default =
     \<lparr>snap_state = Idle, snap_check_id = None, snap_from_sha = None, snap_to_sha = None,
      snap_run_url = None, snap_fix_thread_id = None, snap_flaky_fix_thread_id = None,
      snap_summary = None\<rparr>"

definition snapshot_of_state ::
  "main_check \<Rightarrow> string option \<Rightarrow> string option \<Rightarrow> main_check_snapshot" where
  "snapshot_of_state c unavailable url =
     (case mc_running c of
        Some r \<Rightarrow> snapshot_default
          \<lparr>snap_state := Running, snap_check_id := Some (check_id r),
           snap_from_sha := Some (from_sha r), snap_to_sha := Some (to_sha r),
           snap_run_url := url\<rparr>
      | None \<Rightarrow>
     (case mc_red c of
        Some red \<Rightarrow> snapshot_default
          \<lparr>snap_state := Red, snap_check_id := Some (check_id (red_range red)),
           snap_from_sha := Some (from_sha (red_range red)),
           snap_to_sha := Some (to_sha (red_range red)), snap_run_url := red_run_url red,
           snap_fix_thread_id := Some (red_fix_thread_id red),
           snap_summary := Some (red_summary red)\<rparr>
      | None \<Rightarrow>
     (case unavailable of
        Some reason \<Rightarrow> snapshot_default\<lparr>snap_state := Unavailable, snap_summary := Some reason\<rparr>
      | None \<Rightarrow>
     (case mc_passed c of
        Some r \<Rightarrow> snapshot_default
          \<lparr>snap_state := PassedState, snap_check_id := Some (check_id r),
           snap_from_sha := Some (from_sha r), snap_to_sha := Some (to_sha r)\<rparr>
      | None \<Rightarrow> snapshot_default))))"

definition check_snapshot_of ::
  "main_check \<Rightarrow> string option \<Rightarrow> string option \<Rightarrow> main_check_snapshot" where
  "check_snapshot_of c unavailable url =
     (snapshot_of_state c unavailable url)
       \<lparr>snap_flaky_fix_thread_id := map_option flaky_fix_thread_id (mc_flaky c)\<rparr>"

end
