(* ===== verification/Main_Check_Facts.thy ===== *)
theory Main_Check_Facts
  imports Main_Check
begin

text \<open>
  What the main check's scheduler guarantees: a run of its operations keeps it well-formed,
  the ranges that got a verdict tile \<open>main\<close> without a gap, and a landing stays owed until a
  check covers it.
\<close>

section \<open>Runs of the scheduler\<close>

datatype check_op =
    OpLanded "sha option" bool "sha option" uuid
  | OpEnded uuid verdict "sha option" uuid
  | OpClose "sha option" uuid
  | OpFlakyLanded uuid
  | OpForgetFlaky

fun check_apply :: "main_check \<Rightarrow> check_op \<Rightarrow> main_check" where
  "check_apply c (OpLanded pre from_fix main i) = snd (check_landed pre from_fix main i c)"
| "check_apply c (OpEnded cid v main i) = snd (check_ended cid v main i c)"
| "check_apply c (OpClose main i) = snd (check_close main i c)"
| "check_apply c (OpFlakyLanded t) = snd (close_flaky_for t c)"
| "check_apply c OpForgetFlaky = forget_flaky c"

fun check_effects :: "main_check \<Rightarrow> check_op \<Rightarrow> check_effect list" where
  "check_effects c (OpLanded pre from_fix main i) = fst (check_landed pre from_fix main i c)"
| "check_effects c (OpEnded cid v main i) = fst (check_ended cid v main i c)"
| "check_effects c (OpClose main i) =
     (case fst (check_close main i c) of Inl _ \<Rightarrow> [] | Inr es \<Rightarrow> es)"
| "check_effects c (OpFlakyLanded t) = []"
| "check_effects c OpForgetFlaky = []"

section \<open>Well-formed schedulers\<close>

text \<open>
  A running check excludes a red and a pass, starts where the last verdict ended and has
  something to check; a red excludes a pass, and the next range starts behind it.
\<close>

definition check_ok :: "main_check \<Rightarrow> bool" where
  "check_ok c \<longleftrightarrow>
     (\<forall>r. mc_running c = Some r \<longrightarrow>
        mc_red c = None \<and> mc_passed c = None \<and> mc_base c = Some (from_sha r) \<and>
        from_sha r \<noteq> to_sha r) \<and>
     (\<forall>red. mc_red c = Some red \<longrightarrow>
        mc_passed c = None \<and> mc_base c = Some (to_sha (red_range red)))"

lemmas check_defs =
  check_start_def check_landed_def check_pass_def check_finish_def check_ended_def
  close_flaky_for_def forget_flaky_def check_close_def option_list_def Let_def

lemma check_ok_default [simp]: "check_ok main_check_default"
  by (simp add: check_ok_def main_check_default_def)

lemma check_ok_cong:
  "check_ok c \<Longrightarrow> mc_running c' = mc_running c \<Longrightarrow> mc_red c' = mc_red c \<Longrightarrow>
   mc_passed c' = mc_passed c \<Longrightarrow> mc_base c' = mc_base c \<Longrightarrow> check_ok c'"
  by (simp add: check_ok_def)

lemma check_ok_start:
  "check_ok c \<Longrightarrow> mc_running c = None \<Longrightarrow> mc_red c = None \<Longrightarrow> check_ok (snd (check_start main i c))"
  by (auto simp: check_ok_def check_start_def Let_def split: option.splits)

lemma snd_option_start: "snd (let (e, c') = p in (f e, c')) = snd p"
  by (simp add: split_def)

lemma fst_option_start: "fst (let (e, c') = p in (f e, c')) = f (fst p)"
  by (simp add: split_def)

lemma check_ok_landed: "check_ok c \<Longrightarrow> check_ok (snd (check_landed pre from_fix main i c))"
  by (auto simp: check_landed_def check_start_def check_ok_def Let_def split: option.splits)

lemma check_ok_finish:
  assumes "check_ok c"
  shows "check_ok (snd (check_finish cid v c))"
  using assms by (cases v) (auto simp: check_finish_def check_pass_def check_ok_def Let_def
      split: option.splits)

lemma check_finish_due:
  "check_ok c \<Longrightarrow> fst (check_finish cid v c) \<Longrightarrow>
   mc_running (snd (check_finish cid v c)) = None \<and> mc_red (snd (check_finish cid v c)) = None"
  by (cases v) (auto simp: check_finish_def check_pass_def check_ok_def Let_def
      split: option.splits if_splits)

lemma check_ok_ended: "check_ok c \<Longrightarrow> check_ok (snd (check_ended cid v main i c))"
  using check_ok_finish [of c cid v] check_finish_due [of c cid v]
  by (auto simp: check_ended_def split_def Let_def intro!: check_ok_start)

lemma check_ok_close: "check_ok c \<Longrightarrow> check_ok (snd (check_close main i c))"
  by (auto simp: check_close_def check_start_def check_ok_def Let_def split: option.splits)

lemma check_ok_apply: "check_ok c \<Longrightarrow> check_ok (check_apply c opn)"
  by (cases opn)
     (auto simp: check_ok_landed check_ok_ended check_ok_close close_flaky_for_def forget_flaky_def
        intro: check_ok_cong split: option.splits)

interpretation check: invariant_steps check_apply check_ok
  by unfold_locales (rule check_ok_apply)

section \<open>What a start needs\<close>

lemma Start_check_start:
  "Start r \<in> set (option_list (fst (check_start main i c))) \<Longrightarrow>
     mc_running (snd (check_start main i c)) = Some r \<and> check_id r = i \<and> main = Some (to_sha r)"
  by (auto simp: check_start_def option_list_def Let_def split: option.splits if_splits)

lemma mc_red_start [check_simps]: "mc_red (snd (check_start main i c)) = mc_red c"
  by (auto simp: check_start_def Let_def split: option.splits)

lemma mc_flaky_start [check_simps]: "mc_flaky (snd (check_start main i c)) = mc_flaky c"
  by (auto simp: check_start_def Let_def split: option.splits)

lemma mc_base_start [check_simps]: "mc_base (snd (check_start main i c)) = mc_base c"
  by (auto simp: check_start_def Let_def split: option.splits)

lemma start_effect_runs:
  assumes "check_ok c" "Start r \<in> set (check_effects c opn)"
  shows "mc_running (check_apply c opn) = Some r \<and> mc_red (check_apply c opn) = None \<and>
     (\<forall>r'. mc_running c = Some r' \<longrightarrow> (\<exists>v main i. opn = OpEnded (check_id r') v main i))"
proof (cases opn)
  case (OpLanded pre from_fix main i)
  with assms show ?thesis
    by (auto simp: check_landed_def split_def Let_def check_simps split: option.splits if_splits
        dest: Start_check_start)
next
  case (OpEnded cid v main i)
  with assms show ?thesis
    using check_finish_due [OF assms(1), of cid v]
    by (auto simp: check_ended_def split_def Let_def check_simps split: if_splits
        dest: Start_check_start) (auto simp: check_finish_def split: if_splits)
next
  case (OpClose main i)
  with assms show ?thesis
    by (auto simp: check_close_def split_def Let_def check_simps check_ok_def
        split: option.splits if_splits dest: Start_check_start)
qed (use assms in auto)

section \<open>The checked ranges tile main\<close>

text \<open>The range an operation gives a verdict: the running one, when its own pass or failure ends it.\<close>

fun verdict_range :: "main_check \<Rightarrow> check_op \<Rightarrow> check_range option" where
  "verdict_range c (OpEnded cid v main i) =
     (case mc_running c of
        None \<Rightarrow> None
      | Some r \<Rightarrow> if check_id r = cid \<and> v \<noteq> Abandoned then Some r else None)"
| "verdict_range c opn = None"

fun verdict_ranges :: "main_check \<Rightarrow> check_op list \<Rightarrow> check_range list" where
  "verdict_ranges c [] = []"
| "verdict_ranges c (opn # ops) =
     option_list (verdict_range c opn) @ verdict_ranges (check_apply c opn) ops"

fun tiles :: "sha \<Rightarrow> check_range list \<Rightarrow> sha \<Rightarrow> bool" where
  "tiles b [] e \<longleftrightarrow> b = e"
| "tiles b (r # rs) e \<longleftrightarrow> from_sha r = b \<and> tiles (to_sha r) rs e"

lemma base_apply:
  assumes "check_ok c" "mc_base c = Some b"
  shows "mc_base (check_apply c opn) =
     (case verdict_range c opn of None \<Rightarrow> Some b | Some r \<Rightarrow> Some (to_sha r))"
proof (cases opn)
  case (OpEnded cid v main i)
  with assms show ?thesis
    by (cases v) (auto simp: check_ended_def check_finish_def check_pass_def split_def Let_def
        check_simps split: option.splits)
next
  case (OpLanded pre from_fix main i)
  with assms show ?thesis
    by (auto simp: check_landed_def split_def Let_def check_simps split: option.splits)
next
  case (OpClose main i)
  with assms show ?thesis
    by (auto simp: check_close_def split_def Let_def check_simps split: option.splits)
qed (use assms in \<open>auto simp: close_flaky_for_def forget_flaky_def split: option.splits\<close>)

lemma verdict_range_from:
  "check_ok c \<Longrightarrow> verdict_range c opn = Some r \<Longrightarrow> mc_base c = Some (from_sha r)"
  by (cases opn) (auto simp: check_ok_def split: option.splits if_splits)

lemma verdict_ranges_tile:
  "check_ok c \<Longrightarrow> mc_base c = Some b \<Longrightarrow>
     \<exists>e. mc_base (foldl check_apply c ops) = Some e \<and> tiles b (verdict_ranges c ops) e"
proof (induction ops arbitrary: c b)
  case Nil
  then show ?case by simp
next
  case (Cons opn ops)
  note ok = check_ok_apply [OF Cons.prems(1), of opn]
  show ?case
  proof (cases "verdict_range c opn")
    case None
    with Cons.IH [OF ok] base_apply [OF Cons.prems, of opn] show ?thesis
      by (simp add: option_list_def)
  next
    case (Some r)
    with Cons.IH [OF ok] base_apply [OF Cons.prems, of opn] verdict_range_from [OF Cons.prems(1) Some]
      Cons.prems(2)
    show ?thesis by (simp add: option_list_def)
  qed
qed

section \<open>A landing stays owed until a check covers it\<close>

definition accounts_for :: "sha \<Rightarrow> main_check \<Rightarrow> bool" where
  "accounts_for tip c \<longleftrightarrow>
     mc_dirty c \<or>
     (case mc_running c of None \<Rightarrow> mc_base c = Some tip | Some r \<Rightarrow> to_sha r = tip)"

text \<open>Operations that leave \<open>main\<close> at \<open>tip\<close>, read or unread, and abandon no check.\<close>

fun keeps_tip :: "sha \<Rightarrow> check_op \<Rightarrow> bool" where
  "keeps_tip tip (OpLanded pre from_fix main i) \<longleftrightarrow> main = None \<or> main = Some tip"
| "keeps_tip tip (OpEnded cid v main i) \<longleftrightarrow> (main = None \<or> main = Some tip) \<and> v \<noteq> Abandoned"
| "keeps_tip tip (OpClose main i) \<longleftrightarrow> main = None \<or> main = Some tip"
| "keeps_tip tip opn \<longleftrightarrow> True"

lemma accounts_start:
  "main = None \<or> main = Some tip \<Longrightarrow> mc_base c \<noteq> None \<Longrightarrow> mc_running c = None \<Longrightarrow>
     accounts_for tip (snd (check_start main i c))"
  by (auto simp: accounts_for_def check_start_def Let_def split: option.splits)

lemma accounts_landed:
  assumes "main = None \<or> main = Some tip" "mc_base c \<noteq> None \<or> pre \<noteq> None"
  shows "accounts_for tip (snd (check_landed pre from_fix main i c))"
proof -
  have owed: "accounts_for tip (c'\<lparr>mc_dirty := True\<rparr>)" for c' :: main_check
    by (simp add: accounts_for_def)
  show ?thesis
    using assms
    by (auto simp: check_landed_def split_def Let_def owed intro!: accounts_start
        split: option.splits)
qed

lemma accounts_ended:
  assumes "check_ok c" "main = None \<or> main = Some tip" "v \<noteq> Abandoned" "accounts_for tip c"
  shows "accounts_for tip (snd (check_ended cid v main i c))"
proof (cases "fst (check_finish cid v c)")
  case True
  then have "mc_base (snd (check_finish cid v c)) \<noteq> None \<and>
      mc_running (snd (check_finish cid v c)) = None"
    by (cases v) (auto simp: check_finish_def check_pass_def Let_def split: option.splits if_splits)
  with True assms(2) show ?thesis
    by (simp add: check_ended_def split_def Let_def accounts_start)
next
  case False
  then have "accounts_for tip (snd (check_finish cid v c))"
    using assms(3,4) by (cases v) (auto simp: accounts_for_def check_finish_def check_pass_def Let_def
        split: option.splits if_splits)
  with False show ?thesis by (simp add: check_ended_def split_def)
qed

lemma accounts_close:
  assumes "check_ok c" "main = None \<or> main = Some tip" "accounts_for tip c"
  shows "accounts_for tip (snd (check_close main i c))"
proof (cases "mc_red c")
  case None
  with assms(3) show ?thesis by (simp add: check_close_def)
next
  case (Some red)
  with assms(1) have base: "mc_base c \<noteq> None" and idle: "mc_running c = None"
    by (auto simp: check_ok_def)
  show ?thesis
  proof (cases "mc_dirty c")
    case True
    with Some base idle assms(2) show ?thesis
      by (simp add: check_close_def split_def Let_def accounts_start)
  next
    case False
    with Some idle assms(3) show ?thesis by (simp add: check_close_def accounts_for_def Let_def)
  qed
qed

lemma accounts_apply:
  assumes "check_ok c" "mc_base c \<noteq> None" "keeps_tip tip opn" "accounts_for tip c"
  shows "accounts_for tip (check_apply c opn)"
proof (cases opn)
  case (OpLanded pre from_fix main i)
  with assms(2,3) show ?thesis by (simp add: accounts_landed)
next
  case (OpEnded cid v main i)
  with assms show ?thesis by (simp add: accounts_ended)
next
  case (OpClose main i)
  with assms show ?thesis by (simp add: accounts_close)
next
  case (OpFlakyLanded t)
  with assms(4) show ?thesis
    by (auto simp: close_flaky_for_def accounts_for_def split: option.splits)
next
  case OpForgetFlaky
  with assms(4) show ?thesis
    by (auto simp: forget_flaky_def accounts_for_def split: option.splits)
qed

lemma base_stays: "mc_base c \<noteq> None \<Longrightarrow> check_ok c \<Longrightarrow> mc_base (check_apply c opn) \<noteq> None"
  using base_apply [of c _ opn] by (auto split: option.splits)

lemma accounts_run:
  "check_ok c \<Longrightarrow> mc_base c \<noteq> None \<Longrightarrow> list_all (keeps_tip tip) ops \<Longrightarrow> accounts_for tip c \<Longrightarrow>
     accounts_for tip (foldl check_apply c ops)"
proof (induction ops arbitrary: c)
  case (Cons opn ops)
  then show ?case
    using check_ok_apply [of c opn] base_stays [of c opn] accounts_apply [of c tip opn] by simp
qed simp

end
