(* ===== verification/Until_Restored.thy ===== *)
theory Until_Restored
  imports Prelude
begin

text \<open>
  The gate both drivers put before their first message (\<open>until_restored.rs\<close>): every message
  waits until the restore arrives, then the restore goes first and what waited follows in
  order. The gate's state is \<open>held\<close>: \<open>Some\<close> until the restore arrives, with what came before.
\<close>

type_synonym 'm gate = "'m list option"

definition gate_default :: "'m gate" where
  "gate_default = Some []"

definition admit :: "'m \<Rightarrow> bool \<Rightarrow> 'm gate \<Rightarrow> 'm list \<times> 'm gate" where
  "admit msg is_restore g =
     (case g of
        None \<Rightarrow> ([msg], None)
      | Some held \<Rightarrow> if is_restore then (msg # held, None) else ([], Some (held @ [msg])))"

text \<open>What a driver handles of a whole sequence of messages.\<close>

fun admit_all :: "('m \<Rightarrow> bool) \<Rightarrow> 'm list \<Rightarrow> 'm gate \<Rightarrow> 'm list \<times> 'm gate" where
  "admit_all is_restore [] g = ([], g)"
| "admit_all is_restore (m # ms) g =
     (let (now, g1) = admit m (is_restore m) g;
          (later, g2) = admit_all is_restore ms g1
      in (now @ later, g2))"

lemma admit_all_append:
  "admit_all R (xs @ ys) g =
     (let (a, g1) = admit_all R xs g; (b, g2) = admit_all R ys g1 in (a @ b, g2))"
  by (induction xs arbitrary: g) (simp_all add: split_def Let_def)

lemma admit_all_open: "admit_all R ms None = (ms, None)"
  by (induction ms) (simp_all add: admit_def)

lemma admit_all_shut:
  "list_all (\<lambda>m. \<not> R m) ms \<Longrightarrow> admit_all R ms (Some held) = ([], Some (held @ ms))"
  by (induction ms arbitrary: held) (simp_all add: admit_def)

text \<open>Nothing is handled before the restore, and the restore is handled first: whatever the
  order in which messages reach the gate, a driver handles the restore, then every message
  that came before it in arrival order, then every later one, and loses none.\<close>

theorem restore_is_handled_first:
  assumes "list_all (\<lambda>m. \<not> is_restore m) before" "is_restore r"
  shows "admit_all is_restore before gate_default = ([], Some before) \<and>
    admit_all is_restore (before @ r # after) gate_default = (r # before @ after, None)"
proof
  show shut: "admit_all is_restore before gate_default = ([], Some before)"
    using admit_all_shut [OF assms(1), of "[]"] by (simp add: gate_default_def)
  show "admit_all is_restore (before @ r # after) gate_default = (r # before @ after, None)"
    using assms(2) shut by (simp add: admit_all_append) (simp add: admit_def admit_all_open)
qed

theorem restore_is_handled_first_witness:
  "admit_all (\<lambda>m. m = (7::nat)) [1, 2, 7, 3] gate_default = ([7, 1, 2, 3], None)"
  using restore_is_handled_first [of "\<lambda>m. m = (7::nat)" "[1, 2]" 7 "[3]"] by simp

end
