(* ===== verification/Main_Check_Driver.thy ===== *)
theory Main_Check_Driver
  imports Main_Check_Facts Until_Restored
begin

text \<open>
  The main check's driver (\<open>main_check/driver.rs\<close>): one task owns the scheduler and handles one
  message at a time. What the driver reads of the world while it handles a message (git, the
  database, fresh ids) is the message's environment; what it does to the world is the list of
  outputs it returns, in order.
\<close>

section \<open>Messages, environment and outputs\<close>

datatype reported_verdict = Pass | ReportFail | NoVerdict

record run_report =
  rep_verdict :: reported_verdict
  rep_run_url :: "string option"
  rep_summary :: string
  rep_tail :: string
  rep_failures :: "failed_test list"
  rep_flaky :: "failed_test list"

definition no_verdict :: "string \<Rightarrow> run_report" where
  "no_verdict summary =
     \<lparr>rep_verdict = NoVerdict, rep_run_url = None, rep_summary = summary, rep_tail = [],
      rep_failures = [], rep_flaky = []\<rparr>"

text \<open>An actor is whoever pressed Close; the driver only passes it on.\<close>

datatype check_msg =
    MsgLanded uuid "sha option"
  | MsgRunLinked uuid run_link
  | MsgEnded uuid run_report
  | MsgClose "uuid option"
  | MsgRestore

datatype fix_thread_trace = Prompted | ArchivedTrace | Deleted | Unprompted

text \<open>
  \<open>env_lineage\<close> is \<open>landing_thread\<close>; \<open>env_unavailable\<close> and \<open>env_git_main\<close> are what
  \<open>unavailable_reason\<close> and \<open>branch_head_sha\<close> answer; \<open>env_trace\<close> is \<open>fix_thread_trace\<close>,
  \<open>env_boundary\<close> whether a restore boundary is set, \<open>env_permits\<close> is \<open>permits_fix_recovery\<close>,
  and \<open>env_unsettled\<close> and \<open>env_records\<close> are the two readings of \<open>load_records\<close>, before and after
  the restored checks settle. \<open>None\<close> is a failed query.
\<close>

record check_env =
  env_lineage :: "uuid \<Rightarrow> uuid"
  env_unavailable :: "string option"
  env_git_main :: "sha option"
  env_next_id :: uuid
  env_fix_id :: uuid
  env_flaky_id :: uuid
  env_trace :: "uuid \<Rightarrow> fix_thread_trace option"
  env_link_persisted :: bool
  env_boundary :: "bool option"
  env_unsettled :: "main_check_record list option"
  env_permits :: "uuid \<Rightarrow> bool option"
  env_abandon_persisted :: bool
  env_records :: "main_check_record list option"

datatype check_event =
    MainCheckStarted uuid sha sha
  | MainCheckRunLinked uuid run_link
  | MainCheckPassed uuid "string option" "failed_test list" "uuid option"
  | MainCheckFailed uuid string string "failed_test list" "string option" uuid
  | MainCheckAbandoned uuid string "string option"
  | MainCheckRedClosed uuid red_close_cause "uuid option"

datatype run_target = Commit sha | Attach sha run_link

datatype check_out =
    Emit check_event
  | SpawnRunner uuid run_target
  | SendEnded uuid run_report
  | MarkLinked uuid
  | OpenRedFix red_check
  | OpenFlakyFix flaky_fix
  | Publish main_check_snapshot
  | Reply "close_refusal + unit"

record check_driver =
  cd_check :: main_check
  cd_unavailable :: "string option"
  cd_run_link :: "run_link option"
  cd_published :: "main_check_snapshot option"
  cd_main :: "sha option"
  cd_until_restored :: "check_msg gate"
  cd_restore_failed :: bool

definition check_driver_new :: check_driver where
  "check_driver_new =
     \<lparr>cd_check = main_check_default, cd_unavailable = None, cd_run_link = None,
      cd_published = None, cd_main = None, cd_until_restored = gate_default,
      cd_restore_failed = False\<rparr>"

text \<open>The stored event as the record recovery reads (\<open>record\<close>).\<close>

fun record_of_event :: "check_event \<Rightarrow> main_check_record" where
  "record_of_event (MainCheckStarted i from to) =
     RStarted \<lparr>check_id = i, from_sha = from, to_sha = to\<rparr>"
| "record_of_event (MainCheckRunLinked i link) = RRunLinked i link"
| "record_of_event (MainCheckPassed i url tests fix) =
     REnded i (case fix of Some t \<Rightarrow> PassedWithFlakyFix url tests t | None \<Rightarrow> Passed)"
| "record_of_event (MainCheckFailed i summary tail failures url t) =
     REnded i (Failed summary tail failures url t)"
| "record_of_event (MainCheckAbandoned i reason url) = REnded i Abandoned"
| "record_of_event (MainCheckRedClosed i cause actor) = RRedClosed i"

section \<open>Handling one message\<close>

definition read_main :: "check_env \<Rightarrow> check_driver \<Rightarrow> sha option \<times> check_driver" where
  "read_main env d =
     (env_git_main env,
      if env_git_main env \<noteq> None then d\<lparr>cd_main := env_git_main env\<rparr> else d)"

definition main_now :: "check_env \<Rightarrow> check_driver \<Rightarrow> sha option \<times> check_driver" where
  "main_now env d =
     (let (read, d) = read_main env d
      in (if read \<noteq> None then read else cd_main d, d))"

definition driver_start :: "check_range \<Rightarrow> check_driver \<Rightarrow> check_out list \<times> check_driver" where
  "driver_start r d =
     (let d = d\<lparr>cd_run_link := None\<rparr>
      in (Emit (MainCheckStarted (check_id r) (from_sha r) (to_sha r)) #
          (case cd_unavailable d of
             Some reason \<Rightarrow> [SendEnded (check_id r) (no_verdict reason)]
           | None \<Rightarrow> [SpawnRunner (check_id r) (Commit (to_sha r))]), d))"

fun carry_out ::
  "check_effect list \<Rightarrow> uuid option \<Rightarrow> check_driver \<Rightarrow> check_out list \<times> check_driver" where
  "carry_out [] actor d = ([], d)"
| "carry_out (e # es) actor d =
     (let (now, d) =
        (case e of
           CloseRed i cause \<Rightarrow> ([Emit (MainCheckRedClosed i cause actor)], d)
         | Start r \<Rightarrow> driver_start r d);
          (later, d) = carry_out es actor d
      in (now @ later, d))"

definition driver_landed ::
  "check_env \<Rightarrow> uuid \<Rightarrow> sha option \<Rightarrow> check_driver \<Rightarrow> check_out list \<times> check_driver" where
  "driver_landed env t pre d =
     (let thread = env_lineage env t;
          d = d\<lparr>cd_unavailable := env_unavailable env, cd_main := None\<rparr>;
          (main, d) = (if env_unavailable env \<noteq> None then (None, d) else read_main env d);
          c = snd (close_flaky_for thread (cd_check d));
          from_fix =
            (case mc_red c of None \<Rightarrow> False | Some r \<Rightarrow> red_fix_thread_id r = thread);
          (effects, c) = check_landed pre from_fix main (env_next_id env) c
      in carry_out effects None (d\<lparr>cd_check := c\<rparr>))"

definition driver_run_linked ::
  "check_env \<Rightarrow> uuid \<Rightarrow> run_link \<Rightarrow> check_driver \<Rightarrow> check_out list \<times> check_driver" where
  "driver_run_linked env cid link d =
     (if (case mc_running (cd_check d) of None \<Rightarrow> True | Some r \<Rightarrow> check_id r \<noteq> cid)
         \<or> cd_run_link d = Some link
      then ([], d)
      else (if env_link_persisted env
            then [Emit (MainCheckRunLinked cid link), MarkLinked cid] else [],
            d\<lparr>cd_run_link := Some link\<rparr>))"

definition flaky_fix_to_open ::
  "check_env \<Rightarrow> failed_test list \<Rightarrow> main_check \<Rightarrow> uuid option \<times> main_check" where
  "flaky_fix_to_open env tests c =
     (if tests = [] then (None, c)
      else (case mc_flaky c of
              None \<Rightarrow> (Some (env_flaky_id env), c)
            | Some open_fix \<Rightarrow>
                (case env_trace env (flaky_fix_thread_id open_fix) of
                   Some Deleted \<Rightarrow> (Some (env_flaky_id env), forget_flaky c)
                 | Some ArchivedTrace \<Rightarrow> (Some (env_flaky_id env), forget_flaky c)
                 | Some Prompted \<Rightarrow> (None, c)
                 | Some Unprompted \<Rightarrow> (None, c)
                 | None \<Rightarrow> (None, c))))"

text \<open>The verdict a report comes to, with the event that records it.\<close>

definition driver_verdict ::
  "check_env \<Rightarrow> uuid \<Rightarrow> run_report \<Rightarrow> main_check \<Rightarrow> (check_event \<times> verdict) \<times> main_check" where
  "driver_verdict env cid rep c =
     (case rep_verdict rep of
        Pass \<Rightarrow>
          (let (fix, c) = flaky_fix_to_open env (rep_flaky rep) c
           in ((MainCheckPassed cid (rep_run_url rep) (rep_flaky rep) fix,
                case fix of
                  Some t \<Rightarrow> PassedWithFlakyFix (rep_run_url rep) (rep_flaky rep) t
                | None \<Rightarrow> Passed), c))
      | ReportFail \<Rightarrow>
          ((MainCheckFailed cid (rep_summary rep) (rep_tail rep) (rep_failures rep)
              (rep_run_url rep) (env_fix_id env),
            Failed (rep_summary rep) (rep_tail rep) (rep_failures rep) (rep_run_url rep)
              (env_fix_id env)), c)
      | NoVerdict \<Rightarrow> ((MainCheckAbandoned cid (rep_summary rep) (rep_run_url rep), Abandoned), c))"

definition driver_ended ::
  "check_env \<Rightarrow> uuid \<Rightarrow> run_report \<Rightarrow> check_driver \<Rightarrow> check_out list \<times> check_driver" where
  "driver_ended env cid rep d =
     (if (case mc_running (cd_check d) of None \<Rightarrow> True | Some r \<Rightarrow> check_id r \<noteq> cid) then ([], d)
      else
        let d = d\<lparr>cd_run_link := None\<rparr>;
            ((event, v), c) = driver_verdict env cid rep (cd_check d);
            (main, d) = main_now env d;
            (effects, c) = check_ended cid v main (env_next_id env) c;
            red = (case mc_red c of
                     None \<Rightarrow> []
                   | Some r \<Rightarrow> if check_id (red_range r) = cid then [OpenRedFix r] else []);
            flaky = (case mc_flaky c of
                       None \<Rightarrow> []
                     | Some f \<Rightarrow> if check_id (flaky_range f) = cid then [OpenFlakyFix f] else []);
            (carried, d) = carry_out effects None (d\<lparr>cd_check := c\<rparr>)
        in (Emit event # red @ flaky @ carried, d))"

definition driver_close ::
  "check_env \<Rightarrow> uuid option \<Rightarrow> check_driver \<Rightarrow> check_out list \<times> check_driver" where
  "driver_close env actor d =
     (if mc_red (cd_check d) = None then ([Reply (Inl NoRed)], d)
      else
        let (main, d) = main_now env d;
            (answer, c) = check_close main (env_next_id env) (cd_check d);
            d = d\<lparr>cd_check := c\<rparr>
        in case answer of
             Inl refusal \<Rightarrow> ([Reply (Inl refusal)], d)
           | Inr effects \<Rightarrow>
               (let (carried, d) = carry_out effects actor d in (carried @ [Reply (Inr ())], d)))"

section \<open>The restore\<close>

definition settle_restored_checks :: "check_env \<Rightarrow> bool \<times> check_out list" where
  "settle_restored_checks env =
     (case env_boundary env of
        None \<Rightarrow> (False, [])
      | Some False \<Rightarrow> (True, [])
      | Some True \<Rightarrow>
          (case env_unsettled env of
             None \<Rightarrow> (False, [])
           | Some rs \<Rightarrow>
               (let rec = check_fold rs in
                case (case rec_reattach rec of
                        Some (r, link) \<Rightarrow> Some (r, Some (run_url link))
                      | None \<Rightarrow> map_option (\<lambda>r. (r, None)) (rec_interrupted rec)) of
                  None \<Rightarrow> (True, [])
                | Some (r, url) \<Rightarrow>
                    (case env_permits env (check_id r) of
                       None \<Rightarrow> (False, [])
                     | Some True \<Rightarrow> (True, [])
                     | Some False \<Rightarrow>
                         if env_abandon_persisted env
                         then (True, [Emit (MainCheckAbandoned (check_id r)
                                 ''Workspace restored from snapshot; check abandoned.'' url)])
                         else (False, [])))))"

definition driver_reattach ::
  "check_range \<Rightarrow> run_link \<Rightarrow> check_driver \<Rightarrow> check_out list \<times> check_driver" where
  "driver_reattach r link d =
     (case cd_unavailable d of
        Some reason \<Rightarrow>
          ([Emit (MainCheckAbandoned (check_id r) reason (Some (run_url link)))],
           d\<lparr>cd_check := snd (take_interrupted (cd_check d))\<rparr>)
      | None \<Rightarrow>
          ([SpawnRunner (check_id r) (Attach (to_sha r) link)], d\<lparr>cd_run_link := Some link\<rparr>))"

definition restore_red_fix_thread :: "check_env \<Rightarrow> main_check \<Rightarrow> check_out list" where
  "restore_red_fix_thread env c =
     (case mc_red c of
        None \<Rightarrow> []
      | Some red \<Rightarrow>
          if env_permits env (check_id (red_range red)) \<noteq> Some True then []
          else if env_trace env (red_fix_thread_id red) = Some Unprompted then [OpenRedFix red]
          else [])"

definition restore_flaky_fix_thread :: "check_env \<Rightarrow> main_check \<Rightarrow> check_out list \<times> main_check" where
  "restore_flaky_fix_thread env c =
     (case mc_flaky c of
        None \<Rightarrow> ([], c)
      | Some f \<Rightarrow>
          if env_permits env (check_id (flaky_range f)) \<noteq> Some True then ([], c)
          else (case env_trace env (flaky_fix_thread_id f) of
                  Some Unprompted \<Rightarrow> ([OpenFlakyFix f], c)
                | Some Prompted \<Rightarrow> ([], c)
                | Some Deleted \<Rightarrow> ([], forget_flaky c)
                | Some ArchivedTrace \<Rightarrow> ([], forget_flaky c)
                | None \<Rightarrow> ([], c)))"

definition engine_restarted :: string where
  "engine_restarted = ''The engine restarted while the check ran.''"

definition driver_heal :: "uuid option \<Rightarrow> main_check \<Rightarrow> check_out list \<times> main_check" where
  "driver_heal fix_landed c =
     (case fix_landed of
        None \<Rightarrow> ([], c)
      | Some cid \<Rightarrow>
          (let (healed, c) = heal_fix_landed c
           in (if healed = Some cid then [Emit (MainCheckRedClosed cid FixLanded None)] else [], c)))"

definition driver_restore :: "check_env \<Rightarrow> check_driver \<Rightarrow> check_out list \<times> check_driver" where
  "driver_restore env d =
     (let d = d\<lparr>cd_unavailable := env_unavailable env\<rparr>;
          (settled, abandoned) = settle_restored_checks env
      in if \<not> settled then (abandoned, d\<lparr>cd_restore_failed := True\<rparr>)
         else case env_records env of
           None \<Rightarrow> (abandoned, d\<lparr>cd_restore_failed := True\<rparr>)
         | Some rs \<Rightarrow>
             (let rec = check_fold rs;
                  d = d\<lparr>cd_restore_failed := False, cd_check := rec_check rec, cd_run_link := None\<rparr>;
                  (attached, d) =
                    (case rec_reattach rec of
                       None \<Rightarrow> ([], d)
                     | Some (r, link) \<Rightarrow> driver_reattach r link d);
                  interrupted =
                    (case rec_interrupted rec of
                       None \<Rightarrow> []
                     | Some r \<Rightarrow> [Emit (MainCheckAbandoned (check_id r) engine_restarted None)]);
                  (healed, c) = driver_heal (rec_fix_landed rec) (cd_check d);
                  red = restore_red_fix_thread env c;
                  (flaky, c) = restore_flaky_fix_thread env c
              in (abandoned @ attached @ interrupted @ healed @ red @ flaky, d\<lparr>cd_check := c\<rparr>)))"

section \<open>The message loop\<close>

definition driver_publish :: "check_driver \<Rightarrow> check_out list \<times> check_driver" where
  "driver_publish d =
     (let s = check_snapshot_of (cd_check d) (cd_unavailable d) (map_option run_url (cd_run_link d))
      in if cd_published d \<noteq> Some s then ([Publish s], d\<lparr>cd_published := Some s\<rparr>) else ([], d))"

fun driver_dispatch ::
  "check_env \<Rightarrow> check_msg \<Rightarrow> check_driver \<Rightarrow> check_out list \<times> check_driver" where
  "driver_dispatch env (MsgLanded t pre) d = driver_landed env t pre d"
| "driver_dispatch env (MsgRunLinked cid link) d = driver_run_linked env cid link d"
| "driver_dispatch env (MsgEnded cid rep) d = driver_ended env cid rep d"
| "driver_dispatch env (MsgClose actor) d = driver_close env actor d"
| "driver_dispatch env MsgRestore d = driver_restore env d"

definition driver_handle ::
  "check_env \<Rightarrow> check_msg \<Rightarrow> check_driver \<Rightarrow> check_out list \<times> check_driver" where
  "driver_handle env m d =
     (let (outs, d) = driver_dispatch env m d; (published, d) = driver_publish d
      in (outs @ published, d))"

definition hold_after_failed_restore ::
  "check_msg \<Rightarrow> check_driver \<Rightarrow> check_out list \<times> check_driver" where
  "hold_after_failed_restore m d =
     (case m of
        MsgClose actor \<Rightarrow> ([Reply (Inl StateUnread)], d)
      | _ \<Rightarrow> ([], d\<lparr>cd_until_restored := snd (admit m False (cd_until_restored d))\<rparr>))"

fun hold_all :: "check_msg list \<Rightarrow> check_driver \<Rightarrow> check_out list \<times> check_driver" where
  "hold_all [] d = ([], d)"
| "hold_all (m # ms) d =
     (let (now, d) = hold_after_failed_restore m d; (later, d) = hold_all ms d in (now @ later, d))"

text \<open>The \<open>k\<close>-th message the gate lets through is handled in the environment \<open>envs k\<close>.\<close>

fun pass_loop ::
  "(nat \<Rightarrow> check_env) \<Rightarrow> nat \<Rightarrow> check_msg list \<Rightarrow> check_driver \<Rightarrow> check_out list \<times> check_driver" where
  "pass_loop envs k [] d = ([], d)"
| "pass_loop envs k (m # ms) d =
     (let (now, d) = driver_handle (envs k) m d;
          (later, d) =
            (if cd_restore_failed d
             then hold_all ms (d\<lparr>cd_until_restored := gate_default\<rparr>)
             else pass_loop envs (Suc k) ms d)
      in (now @ later, d))"

definition pass_gate ::
  "(nat \<Rightarrow> check_env) \<Rightarrow> check_msg \<Rightarrow> check_driver \<Rightarrow> check_out list \<times> check_driver" where
  "pass_gate envs m d =
     (let (admitted, g) = admit m (m = MsgRestore) (cd_until_restored d)
      in pass_loop envs 0 admitted (d\<lparr>cd_until_restored := g\<rparr>))"

definition deliver ::
  "(nat \<Rightarrow> check_env) \<Rightarrow> (nat \<Rightarrow> check_env) \<Rightarrow> check_msg \<Rightarrow> check_driver
     \<Rightarrow> check_out list \<times> check_driver" where
  "deliver retry_envs envs m d =
     (let (retried, d) =
        (if cd_restore_failed d \<and> m \<noteq> MsgRestore then pass_gate retry_envs MsgRestore d
         else ([], d))
      in if cd_restore_failed d
         then (let (held, d) = hold_after_failed_restore m d in (retried @ held, d))
         else (let (outs, d) = pass_gate envs m d in (retried @ outs, d)))"

end
