(* ===== verification/Main_Check_Replay.thy ===== *)
theory Main_Check_Replay
  imports Main_Check_Driver
begin

text \<open>
  The main check keeps no table: after a restart its state is a fold over the events. The
  lemmas here relate a live run of the driver to the fold of the log it wrote, operation by
  operation; the theorem puts them together.
\<close>

section \<open>The log of a live run\<close>

definition emitted :: "check_out list \<Rightarrow> main_check_record list" where
  "emitted outs =
     List.map_filter (\<lambda>out. case out of Emit e \<Rightarrow> Some (record_of_event e) | _ \<Rightarrow> None) outs"

text \<open>A landing is on record as \<open>ChangeApplied\<close> before the driver hears of it.\<close>

definition logged :: "check_env \<Rightarrow> check_msg \<Rightarrow> check_out list \<Rightarrow> main_check_record list" where
  "logged env m outs =
     (case m of MsgLanded t pre \<Rightarrow> [RLanded (Some (env_lineage env t)) pre] | _ \<Rightarrow> []) @ emitted outs"

fun live_run ::
  "(check_env \<times> check_msg) list \<Rightarrow> check_driver \<Rightarrow> check_driver \<times> main_check_record list" where
  "live_run [] d = (d, [])"
| "live_run ((env, m) # run) d =
     (let (outs, d) = driver_handle env m d; (d, log) = live_run run d
      in (d, logged env m outs @ log))"

lemma emitted_simps [check_simps]:
  "emitted [] = []"
  "emitted (Emit e # outs) = record_of_event e # emitted outs"
  "emitted (SpawnRunner i t # outs) = emitted outs"
  "emitted (SendEnded i rep # outs) = emitted outs"
  "emitted (MarkLinked i # outs) = emitted outs"
  "emitted (OpenRedFix red # outs) = emitted outs"
  "emitted (OpenFlakyFix f # outs) = emitted outs"
  "emitted (Publish s # outs) = emitted outs"
  "emitted (Reply a # outs) = emitted outs"
  "emitted (outs @ outs') = emitted outs @ emitted outs'"
  by (simp_all add: emitted_def map_filter_simps) (simp add: List.map_filter_def)

section \<open>A scheduler up to its owed follow-up\<close>

text \<open>
  \<open>mc_dirty\<close> decides only when a check starts, and what started is on record, so the replay
  keeps everything else.
\<close>

definition same_check :: "main_check \<Rightarrow> main_check \<Rightarrow> bool" where
  "same_check c c' \<longleftrightarrow>
     mc_base c = mc_base c' \<and> mc_running c = mc_running c' \<and> mc_red c = mc_red c' \<and>
     mc_passed c = mc_passed c' \<and> mc_flaky c = mc_flaky c'"

lemma same_check_refl [simp]: "same_check c c"
  by (simp add: same_check_def)

lemma same_check_dirty [simp]:
  "same_check (c\<lparr>mc_dirty := b\<rparr>) c' = same_check c c'"
  "same_check c (c'\<lparr>mc_dirty := b\<rparr>) = same_check c c'"
  by (simp_all add: same_check_def)

text \<open>What folding the events of some effects does.\<close>

definition effect_records :: "check_effect list \<Rightarrow> main_check_record list" where
  "effect_records es =
     map (\<lambda>e. case e of CloseRed i cause \<Rightarrow> RRedClosed i | Start r \<Rightarrow> RStarted r) es"

lemma carry_out_driver:
  "cd_check (snd (carry_out es actor d)) = cd_check d \<and>
   emitted (fst (carry_out es actor d)) = effect_records es \<and>
   cd_run_link (snd (carry_out es actor d)) =
     (if \<exists>r. Start r \<in> set es then None else cd_run_link d)"
proof (induction es arbitrary: d)
  case Nil
  then show ?case by (simp add: effect_records_def check_simps)
next
  case (Cons e es)
  then show ?case
    by (cases e) (auto simp: effect_records_def check_simps driver_start_def split_def Let_def
        split: option.splits)
qed

lemmas carry_out_simps [check_simps] =
  carry_out_driver [THEN conjunct1]
  carry_out_driver [THEN conjunct2, THEN conjunct1]
  carry_out_driver [THEN conjunct2, THEN conjunct2]

lemma effect_records_simps [check_simps]:
  "effect_records [] = []"
  "effect_records (CloseRed i cause # es) = RRedClosed i # effect_records es"
  "effect_records (Start r # es) = RStarted r # effect_records es"
  by (simp_all add: effect_records_def)

text \<open>A start, live and replayed.\<close>

lemma replay_start:
  assumes "same_check c c'"
  shows "\<exists>c''. foldl fold_step (c', fl, linked) (effect_records (option_list (fst (check_start main i c)))) =
      (c'', fl, linked) \<and> same_check (snd (check_start main i c)) c''"
  using assms
  by (auto simp: check_start_def option_list_def Let_def check_simps replay_started_def
      same_check_def split: option.splits)

lemma replay_finish:
  "same_check c c' \<Longrightarrow> same_check (snd (check_finish cid v c)) (replay_ended cid v c')"
  by (cases v) (auto simp: replay_ended_def check_finish_def check_pass_def same_check_def Let_def
      split: option.splits)

lemma same_check_close_flaky:
  "same_check c c' \<Longrightarrow> same_check (snd (close_flaky_for t c)) (snd (close_flaky_for t c'))"
  by (auto simp: close_flaky_for_def same_check_def split: option.splits)

definition based :: "sha option \<Rightarrow> main_check \<Rightarrow> main_check" where
  "based pre c = (if mc_base c = None then c\<lparr>mc_base := pre\<rparr> else c)"

lemma based_sel [check_simps]:
  "mc_running (based pre c) = mc_running c" "mc_red (based pre c) = mc_red c"
  by (simp_all add: based_def)

lemma same_check_based: "same_check c c' \<Longrightarrow> same_check (based pre c) (based pre c')"
  by (auto simp: based_def same_check_def)

lemma check_landed_based:
  "check_landed pre from_fix main i c =
     (if mc_running c \<noteq> None then ([], (based pre c)\<lparr>mc_dirty := True\<rparr>)
      else case mc_red c of
        None \<Rightarrow> (option_list (fst (check_start main i (based pre c))),
                 snd (check_start main i (based pre c)))
      | Some red \<Rightarrow>
          if \<not> from_fix then ([], (based pre c)\<lparr>mc_dirty := True\<rparr>)
          else (CloseRed (check_id (red_range red)) FixLanded #
                  option_list (fst (check_start main i ((based pre c)\<lparr>mc_red := None\<rparr>))),
                snd (check_start main i ((based pre c)\<lparr>mc_red := None\<rparr>))))"
  by (cases "mc_red c")
     (simp_all add: check_landed_def based_def [symmetric] check_simps split_def Let_def)

lemma replay_landed_based:
  "replay_landed pre c =
     (if mc_running c \<noteq> None \<or> mc_red c \<noteq> None then (based pre c)\<lparr>mc_dirty := True\<rparr>
      else based pre c)"
  by (simp add: replay_landed_def based_def [symmetric] check_simps Let_def)

lemma replay_landed_live:
  assumes "same_check c c'" "check_ok c"
    and "fl = (case mc_red c of None \<Rightarrow> None
               | Some red \<Rightarrow> if from_fix then Some (check_id (red_range red)) else None)"
  shows "\<exists>c''. foldl fold_step (replay_landed pre c', fl, linked)
        (effect_records (fst (check_landed pre from_fix main i c))) = (c'', None, linked) \<and>
      same_check (snd (check_landed pre from_fix main i c)) c''"
proof -
  note based = same_check_based [OF assms(1), of pre]
  have same: "mc_running c' = mc_running c" "mc_red c' = mc_red c"
    using assms(1) by (simp_all add: same_check_def)
  show ?thesis
  proof (cases "mc_running c")
    case (Some r)
    with assms(2) have "mc_red c = None" by (simp add: check_ok_def)
    with Some same based assms(3) show ?thesis
      by (simp add: check_landed_based replay_landed_based check_simps)
  next
    case idle: None
    show ?thesis
    proof (cases "mc_red c")
      case None
      with idle same assms(3) replay_start [OF based, of None linked main i] show ?thesis
        by (simp add: check_landed_based replay_landed_based)
    next
      case red: (Some red)
      show ?thesis
      proof (cases from_fix)
        case False
        with idle red same based assms(3) show ?thesis
          by (simp add: check_landed_based replay_landed_based check_simps)
      next
        case True
        let ?closed = "(based pre c')\<lparr>mc_dirty := True, mc_red := None\<rparr>"
        have "same_check ((based pre c)\<lparr>mc_red := None\<rparr>) ?closed"
          using based by (simp add: same_check_def)
        from replay_start [OF this, of None linked main i] True idle red same assms(3)
        show ?thesis
          by (simp add: check_landed_based replay_landed_based check_simps replay_red_closed_def)
      qed
    qed
  qed
qed

lemma replay_ended_live:
  assumes "same_check c c'"
  shows "\<exists>c''. foldl fold_step (c', fl, linked)
        (REnded cid v # effect_records (fst (check_ended cid v main i c))) = (c'', fl, linked) \<and>
      same_check (snd (check_ended cid v main i c)) c''"
  using replay_finish [OF assms, of cid v]
    replay_start [OF replay_finish [OF assms, of cid v], of fl linked main i]
  by (simp add: check_ended_def split_def Let_def check_simps)

lemma replay_close_live:
  assumes "same_check c c'" "mc_red c = Some red"
  shows "\<exists>es c''. fst (check_close main i c) = Inr es \<and>
      foldl fold_step (c', None, linked) (effect_records es) = (c'', None, linked) \<and>
      same_check (snd (check_close main i c)) c''"
proof -
  have red: "mc_red c' = Some red" using assms by (simp add: same_check_def)
  have "same_check (c\<lparr>mc_red := None, mc_dirty := False\<rparr>) (c'\<lparr>mc_red := None\<rparr>)"
    using assms(1) by (simp add: same_check_def)
  from this replay_start [OF this, of None linked main i] red assms(2) show ?thesis
    by (simp add: check_close_def split_def Let_def check_simps replay_red_closed_def)
qed

section \<open>The run link\<close>

lemma start_running:
  assumes "mc_running (snd (check_start main i c)) = Some r" "mc_running c = None"
  shows "Start r \<in> set (option_list (fst (check_start main i c))) \<and> check_id r = i"
  using assms by (auto simp: check_start_def option_list_def Let_def split: option.splits if_splits)

lemma landed_running:
  assumes "mc_running (snd (check_landed pre from_fix main i c)) = Some r"
  shows "Start r \<in> set (fst (check_landed pre from_fix main i c)) \<and> check_id r = i \<or>
    mc_running c = Some r \<and> fst (check_landed pre from_fix main i c) = []"
proof (cases "mc_running c")
  case (Some r')
  with assms show ?thesis by (simp add: check_landed_based check_simps)
next
  case None
  then have "mc_running (based pre c) = None" "mc_running ((based pre c)\<lparr>mc_red := None\<rparr>) = None"
    by (simp_all add: check_simps)
  note st = start_running [OF _ this(1)] start_running [OF _ this(2)]
  show ?thesis
    using assms None
    by (cases "mc_red c") (auto simp: check_landed_based check_simps dest: st split: if_splits)
qed

lemma ended_running:
  assumes "mc_running c = Some r0" "check_id r0 = cid"
    and "mc_running (snd (check_ended cid v main i c)) = Some r"
  shows "Start r \<in> set (fst (check_ended cid v main i c)) \<and> check_id r = i"
proof -
  have idle: "mc_running (snd (check_finish cid v c)) = None"
    using assms(1,2) by (cases v) (simp_all add: check_finish_def check_pass_def)
  show ?thesis
  proof (cases "fst (check_finish cid v c)")
    case True
    with start_running [OF _ idle, of main i r] assms(3) show ?thesis
      by (simp add: check_ended_def split_def Let_def)
  next
    case False
    with assms(3) idle show ?thesis by (simp add: check_ended_def split_def Let_def)
  qed
qed

lemma close_running:
  assumes "fst (check_close main i c) = Inr es" "mc_running c = None"
    and "mc_running (snd (check_close main i c)) = Some r"
  shows "Start r \<in> set es \<and> check_id r = i"
proof (cases "mc_red c")
  case None
  with assms(1) show ?thesis by (simp add: check_close_def)
next
  case (Some red)
  have idle: "mc_running (c\<lparr>mc_red := None, mc_dirty := False\<rparr>) = None" using assms(2) by simp
  show ?thesis
    using assms Some start_running [OF _ idle, of main i r]
    by (auto simp: check_close_def split_def Let_def split: if_splits)
qed

section \<open>One message\<close>

definition link_of :: "(uuid \<times> run_link) option \<Rightarrow> check_range \<Rightarrow> run_link option" where
  "link_of linked r =
     (case linked of None \<Rightarrow> None | Some (cid, link) \<Rightarrow> if cid = check_id r then Some link else None)"

text \<open>The driver and the fold of its log, with the check ids drawn so far.\<close>

definition replays :: "uuid set \<Rightarrow> check_driver \<Rightarrow> fold_state \<Rightarrow> bool" where
  "replays used d st \<longleftrightarrow>
     (case st of (c, fl, linked) \<Rightarrow>
        same_check (cd_check d) c \<and> fl = None \<and> check_ok (cd_check d) \<and>
        (\<forall>i l. linked = Some (i, l) \<longrightarrow> i \<in> used) \<and>
        (\<forall>r. mc_running (cd_check d) = Some r \<longrightarrow>
           check_id r \<in> used \<and> cd_run_link d = link_of linked r))"

lemma replays_effects:
  assumes "same_check (cd_check d) c'" "check_ok (cd_check d)"
    and "\<And>i l. linked = Some (i, l) \<Longrightarrow> i \<in> used" "new \<notin> used"
    and "\<And>r. mc_running (cd_check d) = Some r \<Longrightarrow>
      check_id r = new \<and> cd_run_link d = None \<or>
      check_id r \<in> used \<and> cd_run_link d = link_of linked r"
  shows "replays (insert new used) d (c', None, linked)"
  using assms by (fastforce simp: replays_def link_of_def split: option.splits)

lemma main_now_sel [check_simps]:
  "cd_check (snd (main_now env d)) = cd_check d"
  "cd_run_link (snd (main_now env d)) = cd_run_link d"
  by (simp_all add: main_now_def read_main_def Let_def split_def)

lemma publish_sel [check_simps]:
  "cd_check (snd (driver_publish d)) = cd_check d"
  "cd_run_link (snd (driver_publish d)) = cd_run_link d"
  "emitted (fst (driver_publish d)) = []"
  by (simp_all add: driver_publish_def Let_def check_simps)

lemma replays_sel_cong:
  "cd_check d' = cd_check d \<Longrightarrow> cd_run_link d' = cd_run_link d \<Longrightarrow>
     replays used d' st = replays used d st"
  by (simp add: replays_def)

lemma check_ok_close_flaky: "check_ok c \<Longrightarrow> check_ok (snd (close_flaky_for t c))"
  by (auto simp: close_flaky_for_def intro: check_ok_cong split: option.splits)

lemma replays_landed:
  assumes "replays used d st" "env_next_id env \<notin> used"
  shows "replays (insert (env_next_id env) used) (snd (driver_landed env t pre d))
    (foldl fold_step st (logged env (MsgLanded t pre) (fst (driver_landed env t pre d))))"
proof -
  obtain c fl linked where st: "st = (c, fl, linked)" by (metis prod_cases3)
  define thread where "thread = env_lineage env t"
  define f where "f = snd (close_flaky_for thread (cd_check d))"
  define from_fix where
    "from_fix = (case mc_red f of None \<Rightarrow> False | Some r \<Rightarrow> red_fix_thread_id r = thread)"
  define main where "main = (if env_unavailable env \<noteq> None then None else env_git_main env)"
  define d0 where "d0 = snd (if env_unavailable env \<noteq> None
      then (None, d\<lparr>cd_unavailable := env_unavailable env, cd_main := None\<rparr>)
      else read_main env (d\<lparr>cd_unavailable := env_unavailable env, cd_main := None\<rparr>))"
  let ?step = "check_landed pre from_fix main (env_next_id env) f"
  let ?d1 = "d0\<lparr>cd_check := snd ?step\<rparr>"
  have d0: "cd_run_link d0 = cd_run_link d"
    by (simp add: d0_def read_main_def)
  have run: "driver_landed env t pre d = carry_out (fst ?step) None ?d1"
    unfolding driver_landed_def f_def from_fix_def main_def d0_def thread_def
    by (simp add: Let_def split_def read_main_def)
  from assms(1) st have R: "same_check (cd_check d) c" "fl = None" "check_ok (cd_check d)"
    "\<And>i l. linked = Some (i, l) \<Longrightarrow> i \<in> used"
    "\<And>r. mc_running (cd_check d) = Some r \<Longrightarrow>
       check_id r \<in> used \<and> cd_run_link d = link_of linked r"
    by (auto simp: replays_def)
  have ok: "check_ok f" using check_ok_close_flaky [OF R(3)] by (simp add: f_def)
  have same: "same_check f (snd (close_flaky_for thread c))"
    using same_check_close_flaky [OF R(1)] by (simp add: f_def)
  define fl' where "fl' = (case mc_red f of None \<Rightarrow> None
      | Some red \<Rightarrow> if from_fix then Some (check_id (red_range red)) else None)"
  have first: "fold_step st (RLanded (Some thread) pre) =
      (replay_landed pre (snd (close_flaky_for thread c)), fl', linked)"
    using same st R(2)
    by (auto simp: fl'_def from_fix_def same_check_def Let_def split: option.splits)
  from replay_landed_live [OF same ok, of fl' from_fix pre linked main "env_next_id env"]
  obtain c'' where c'': "foldl fold_step (fold_step st (RLanded (Some thread) pre))
        (effect_records (fst ?step)) = (c'', None, linked)" "same_check (snd ?step) c''"
    by (auto simp: fl'_def first)
  have running: "mc_running f = mc_running (cd_check d)"
    by (auto simp: f_def close_flaky_for_def split: option.splits)
  have "replays (insert (env_next_id env) used) (snd (carry_out (fst ?step) None ?d1))
      (c'', None, linked)"
  proof (rule replays_effects)
    fix r assume "mc_running (cd_check (snd (carry_out (fst ?step) None ?d1))) = Some r"
    then have "mc_running (snd ?step) = Some r" by (simp add: check_simps)
    from landed_running [OF this] running R(5) [of r] d0
    show "check_id r = env_next_id env \<and>
        cd_run_link (snd (carry_out (fst ?step) None ?d1)) = None \<or>
      check_id r \<in> used \<and>
        cd_run_link (snd (carry_out (fst ?step) None ?d1)) = link_of linked r"
      by (auto simp: check_simps)
  qed (use c'' R(4) assms(2) check_ok_landed [OF ok] in \<open>simp_all add: check_simps\<close>)
  with c''(1) run show ?thesis
    by (simp add: logged_def check_simps thread_def)
qed

lemma replays_run_linked:
  assumes "replays used d st" "env_link_persisted env"
  shows "replays (insert (env_next_id env) used) (snd (driver_run_linked env cid link d))
    (foldl fold_step st (logged env (MsgRunLinked cid link)
      (fst (driver_run_linked env cid link d))))"
  using assms
  by (auto simp: replays_def driver_run_linked_def logged_def check_simps link_of_def
      split: option.splits prod.splits)

text \<open>The verdict the driver reaches and the one its event reads back as are the same.\<close>

lemma driver_verdict_record:
  assumes "fst (driver_verdict env cid rep c) = (event, v)"
  shows "record_of_event event = REnded cid v"
    and "mc_running (snd (driver_verdict env cid rep c)) = mc_running c"
    and "check_ok c \<Longrightarrow> check_ok (snd (driver_verdict env cid rep c))"
    and "same_check c c' \<Longrightarrow> mc_running c = Some r \<Longrightarrow> check_id r = cid \<Longrightarrow>
      \<exists>c''. replay_ended cid v c' = replay_ended cid v c'' \<and>
            same_check (snd (driver_verdict env cid rep c)) c''"
proof -
  let ?p = "flaky_fix_to_open env (rep_flaky rep) c"
  have p: "snd ?p = c \<or> snd ?p = forget_flaky c \<and> fst ?p \<noteq> None"
    by (auto simp: flaky_fix_to_open_def split: option.splits fix_thread_trace.splits)
  show "record_of_event event = REnded cid v"
    using assms
    by (auto simp: driver_verdict_def split_def Let_def split: reported_verdict.splits)
  show "mc_running (snd (driver_verdict env cid rep c)) = mc_running c"
    using p by (auto simp: driver_verdict_def split_def Let_def forget_flaky_def
        split: reported_verdict.splits)
  show "check_ok (snd (driver_verdict env cid rep c))" if "check_ok c"
    using p that by (auto simp: driver_verdict_def split_def Let_def forget_flaky_def
        intro: check_ok_cong split: reported_verdict.splits)
  assume c': "same_check c c'" "mc_running c = Some r" "check_id r = cid"
  show "\<exists>c''. replay_ended cid v c' = replay_ended cid v c'' \<and>
            same_check (snd (driver_verdict env cid rep c)) c''"
  proof (cases "snd (driver_verdict env cid rep c) = c")
    case True
    with c' show ?thesis by auto
  next
    case False
    with p assms obtain url tests t where v: "v = PassedWithFlakyFix url tests t"
      and c: "snd (driver_verdict env cid rep c) = forget_flaky c"
      by (auto simp: driver_verdict_def split_def Let_def split: reported_verdict.splits)
    have "mc_running c' = Some r" using c'(1,2) by (simp add: same_check_def)
    with c'(3) have "replay_ended cid v c' = replay_ended cid v (forget_flaky c')"
      by (simp add: v replay_ended_def check_finish_def check_pass_def forget_flaky_def)
    moreover have "same_check (forget_flaky c) (forget_flaky c')"
      using c'(1) by (simp add: same_check_def forget_flaky_def)
    ultimately show ?thesis using c by auto
  qed
qed

lemma replays_ended:
  assumes "replays used d st" "env_next_id env \<notin> used"
  shows "replays (insert (env_next_id env) used) (snd (driver_ended env cid rep d))
    (foldl fold_step st (logged env (MsgEnded cid rep) (fst (driver_ended env cid rep d))))"
proof (cases "\<exists>r. mc_running (cd_check d) = Some r \<and> check_id r = cid")
  case False
  then have "driver_ended env cid rep d = ([], d)"
    by (auto simp: driver_ended_def split: option.splits)
  with assms(1) show ?thesis by (auto simp: replays_def logged_def check_simps split: prod.splits)
next
  case True
  then obtain r0 where r0: "mc_running (cd_check d) = Some r0" "check_id r0 = cid" by blast
  obtain c fl linked where st: "st = (c, fl, linked)" by (metis prod_cases3)
  from assms(1) st have R: "same_check (cd_check d) c" "fl = None" "check_ok (cd_check d)"
    "\<And>i l. linked = Some (i, l) \<Longrightarrow> i \<in> used"
    by (auto simp: replays_def)
  obtain event v where ev: "fst (driver_verdict env cid rep (cd_check d)) = (event, v)"
    by fastforce
  define f where "f = snd (driver_verdict env cid rep (cd_check d))"
  define main where "main = fst (main_now env (d\<lparr>cd_run_link := None\<rparr>))"
  define d0 where "d0 = snd (main_now env (d\<lparr>cd_run_link := None\<rparr>))"
  let ?step = "check_ended cid v main (env_next_id env) f"
  let ?out = "carry_out (fst ?step) None (d0\<lparr>cd_check := snd ?step\<rparr>)"
  have d0: "cd_run_link d0 = None" by (simp add: d0_def check_simps)
  have out: "snd (driver_ended env cid rep d) = snd ?out"
    "emitted (fst (driver_ended env cid rep d)) = REnded cid v # effect_records (fst ?step)"
    using r0 ev driver_verdict_record(1) [OF ev]
    by (auto simp: driver_ended_def split_def Let_def f_def main_def d0_def check_simps
        split: option.splits)
  note verdict = driver_verdict_record(2-4) [OF ev]
  obtain c1 where c1: "replay_ended cid v c = replay_ended cid v c1" "same_check f c1"
    using verdict(3) [OF R(1) r0] by (auto simp: f_def)
  from replay_ended_live [OF c1(2), of None linked cid v main "env_next_id env"] obtain c'' where
    c'': "foldl fold_step st (REnded cid v # effect_records (fst ?step)) = (c'', None, linked)"
      "same_check (snd ?step) c''"
    using st R(2) c1(1) by auto
  have ok: "check_ok f" using verdict(2) [OF R(3)] by (simp add: f_def)
  have running: "mc_running f = Some r0" using verdict(1) r0(1) by (simp add: f_def)
  have "replays (insert (env_next_id env) used) (snd ?out) (c'', None, linked)"
  proof (rule replays_effects)
    fix r assume "mc_running (cd_check (snd ?out)) = Some r"
    then have "mc_running (snd ?step) = Some r" by (simp add: check_simps)
    from ended_running [OF running r0(2) this]
    show "check_id r = env_next_id env \<and> cd_run_link (snd ?out) = None \<or>
      check_id r \<in> used \<and> cd_run_link (snd ?out) = link_of linked r"
      by (auto simp: check_simps)
  qed (use c'' R(4) assms(2) check_ok_ended [OF ok] in \<open>simp_all add: check_simps\<close>)
  with c''(1) out show ?thesis by (simp add: logged_def)
qed

lemma replays_close:
  assumes "replays used d st" "env_next_id env \<notin> used"
  shows "replays (insert (env_next_id env) used) (snd (driver_close env actor d))
    (foldl fold_step st (logged env (MsgClose actor) (fst (driver_close env actor d))))"
proof (cases "mc_red (cd_check d)")
  case None
  with assms(1) show ?thesis
    by (auto simp: driver_close_def replays_def logged_def check_simps split: prod.splits)
next
  case (Some red)
  obtain c fl linked where st: "st = (c, fl, linked)" by (metis prod_cases3)
  from assms(1) st have R: "same_check (cd_check d) c" "fl = None" "check_ok (cd_check d)"
    "\<And>i l. linked = Some (i, l) \<Longrightarrow> i \<in> used"
    by (auto simp: replays_def)
  define main where "main = fst (main_now env d)"
  define d0 where "d0 = snd (main_now env d)"
  let ?step = "check_close main (env_next_id env) (cd_check d)"
  from replay_close_live [OF R(1) Some, of main "env_next_id env" linked] obtain es c'' where
    c'': "fst ?step = Inr es" "foldl fold_step st (effect_records es) = (c'', None, linked)"
      "same_check (snd ?step) c''"
    using st R(2) by auto
  let ?out = "carry_out es actor (d0\<lparr>cd_check := snd ?step\<rparr>)"
  have idle: "mc_running (cd_check d) = None" using R(3) Some by (auto simp: check_ok_def)
  have out: "snd (driver_close env actor d) = snd ?out"
    "emitted (fst (driver_close env actor d)) = effect_records es"
    using Some c''(1)
    by (simp_all add: driver_close_def split_def Let_def main_def d0_def check_simps)
  have "replays (insert (env_next_id env) used) (snd ?out) (c'', None, linked)"
  proof (rule replays_effects)
    fix r assume "mc_running (cd_check (snd ?out)) = Some r"
    then have "mc_running (snd ?step) = Some r" by (simp add: check_simps)
    from close_running [OF c''(1) idle this]
    show "check_id r = env_next_id env \<and> cd_run_link (snd ?out) = None \<or>
      check_id r \<in> used \<and> cd_run_link (snd ?out) = link_of linked r"
      by (auto simp: check_simps)
  qed (use c'' R(4) assms(2) check_ok_close [OF R(3)] in \<open>simp_all add: check_simps\<close>)
  with c''(2) out show ?thesis by (simp add: logged_def)
qed

section \<open>Whole runs\<close>

lemma replays_handle:
  assumes "replays used d st" "env_next_id env \<notin> used" "env_link_persisted env" "m \<noteq> MsgRestore"
  shows "replays (insert (env_next_id env) used) (snd (driver_handle env m d))
    (foldl fold_step st (logged env m (fst (driver_handle env m d))))"
proof -
  have "snd (driver_handle env m d) = snd (driver_publish (snd (driver_dispatch env m d)))"
    "logged env m (fst (driver_handle env m d)) = logged env m (fst (driver_dispatch env m d))"
    by (simp_all add: driver_handle_def split_def Let_def logged_def check_simps)
  moreover have "replays (insert (env_next_id env) used) (snd (driver_dispatch env m d))
      (foldl fold_step st (logged env m (fst (driver_dispatch env m d))))"
    using assms by (cases m)
      (simp_all add: replays_landed replays_run_linked replays_ended replays_close)
  ultimately show ?thesis
    by (simp add: replays_sel_cong [OF publish_sel(1) publish_sel(2)])
qed

lemma replays_run:
  "replays used d st \<Longrightarrow> distinct (map (env_next_id \<circ> fst) run) \<Longrightarrow>
   used \<inter> (env_next_id \<circ> fst) ` set run = {} \<Longrightarrow>
   \<forall>(env, m) \<in> set run. env_link_persisted env \<and> m \<noteq> MsgRestore \<Longrightarrow>
     \<exists>used'. replays used' (fst (live_run run d)) (foldl fold_step st (snd (live_run run d)))"
proof (induction run arbitrary: used d st)
  case Nil
  then show ?case by auto
next
  case (Cons em run)
  obtain env m where em: "em = (env, m)" by fastforce
  have next_d: "replays (insert (env_next_id env) used) (snd (driver_handle env m d))
      (foldl fold_step st (logged env m (fst (driver_handle env m d))))"
    using Cons.prems em by (intro replays_handle) auto
  have "insert (env_next_id env) used \<inter> (env_next_id \<circ> fst) ` set run = {}"
    using Cons.prems(2,3) em by auto
  from Cons.IH [OF next_d _ this] Cons.prems(2,4) em show ?case
    by (simp add: split_def Let_def)
qed

lemma replays_new: "replays {} check_driver_new (main_check_default, None, None)"
  by (simp add: replays_def check_driver_new_def) (simp add: main_check_default_def)

end
