(* ===== verification/Main_Check_Properties.thy ===== *)
theory Main_Check_Properties
  imports Main_Check_Replay
begin

text \<open>
  The properties of the main check: what every run of its scheduler keeps, which ranges get
  checked, what a restart reads back, and what a failed restore does with its messages.
\<close>

text \<open>At most one check runs and at most one red is open, and never both. In every state the
  scheduler reaches, a running check excludes a red and a pass, starts at the base the last
  verdict left and covers at least one commit; a red excludes a pass and holds the base at its
  own end. A check starts only when nothing else runs (but for the check this very verdict
  ends) and no red stays open.\<close>

theorem one_check_or_one_red:
  "check_ok (foldl check_apply main_check_default ops) \<and>
    (\<forall>r. Start r \<in> set (check_effects (foldl check_apply main_check_default ops) opn) \<longrightarrow>
       mc_running (foldl check_apply main_check_default (ops @ [opn])) = Some r \<and>
       mc_red (foldl check_apply main_check_default (ops @ [opn])) = None \<and>
       (\<forall>r'. mc_running (foldl check_apply main_check_default ops) = Some r' \<longrightarrow>
          (\<exists>v main i. opn = OpEnded (check_id r') v main i)))"
proof -
  have "check_ok (foldl check_apply main_check_default ops)"
    using check.run_inv [OF check_ok_default, of ops] .
  then show ?thesis using start_effect_runs by simp
qed

theorem one_check_or_one_red_witness:
  "mc_running (check_apply main_check_default (OpLanded (Some ''a'') False (Some ''b'') 1)) =
     Some \<lparr>check_id = 1, from_sha = ''a'', to_sha = ''b''\<rparr>"
proof -
  have "Start \<lparr>check_id = 1, from_sha = ''a'', to_sha = ''b''\<rparr> \<in>
      set (check_effects main_check_default (OpLanded (Some ''a'') False (Some ''b'') 1))"
    by (simp add: check_landed_def check_start_def main_check_default_def option_list_def Let_def)
  then show ?thesis
    using one_check_or_one_red [of "[]" "OpLanded (Some ''a'') False (Some ''b'') 1"] by auto
qed

text \<open>C3. No commit slips between two checks. From a state with a base, the ranges that get a
  verdict over any run of landings, verdicts and Closes tile \<open>main\<close>: each starts exactly where
  the one before it ended, the first at the base, and the base ends where the last one did,
  abandoned checks and stale verdicts notwithstanding.\<close>

theorem verdicts_tile_main:
  assumes "check_ok c" "mc_base c = Some b"
  shows "\<exists>e. mc_base (foldl check_apply c ops) = Some e \<and> tiles b (verdict_ranges c ops) e"
  using assms by (rule verdict_ranges_tile)

definition check_after_landing :: main_check where
  "check_after_landing =
     snd (check_landed (Some ''a'') False (Some ''b'') 1 main_check_default)"

lemma check_after_landing_eval:
  "check_after_landing =
     \<lparr>mc_base = Some ''a'', mc_running = Some \<lparr>check_id = 1, from_sha = ''a'', to_sha = ''b''\<rparr>,
      mc_dirty = False, mc_red = None, mc_passed = None, mc_flaky = None\<rparr>"
  by (simp add: check_after_landing_def check_landed_def check_start_def main_check_default_def
      option_list_def Let_def)

lemma check_after_landing_base: "mc_base check_after_landing = Some ''a''"
  by (simp add: check_after_landing_eval)

lemma check_after_landing_ok: "check_ok check_after_landing"
  by (simp add: check_after_landing_eval check_ok_def)

theorem verdicts_tile_main_witness:
  "\<exists>e. tiles ''a'' (verdict_ranges check_after_landing
     [OpLanded (Some ''b'') False (Some ''c'') 2, OpEnded 1 Passed (Some ''c'') 3,
      OpEnded 1 Passed (Some ''c'') 4, OpEnded 3 Passed (Some ''c'') 5]) e"
  using verdicts_tile_main [OF check_after_landing_ok, of "''a''"
      "[OpLanded (Some ''b'') False (Some ''c'') 2, OpEnded 1 Passed (Some ''c'') 3,
        OpEnded 1 Passed (Some ''c'') 4, OpEnded 3 Passed (Some ''c'') 5]"]
  by (simp only: check_after_landing_base) blast




definition quiet_env :: check_env where
  "quiet_env =
     \<lparr>env_lineage = (\<lambda>t. t), env_unavailable = None, env_git_main = Some ''b'', env_next_id = 1,
      env_fix_id = 2, env_flaky_id = 3, env_trace = (\<lambda>t. None), env_link_persisted = True,
      env_boundary = Some False, env_unsettled = None, env_permits = (\<lambda>i. None),
      env_abandon_persisted = True, env_records = None\<rparr>"


section \<open>A failed restore\<close>

definition restore_fails :: "check_env \<Rightarrow> bool" where
  "restore_fails env \<longleftrightarrow> \<not> fst (settle_restored_checks env) \<or> env_records env = None"

fun is_close :: "check_msg \<Rightarrow> bool" where
  "is_close (MsgClose actor) = True"
| "is_close m = False"

lemma hold_one:
  "cd_until_restored d = Some held \<Longrightarrow>
   cd_until_restored (snd (hold_after_failed_restore m d)) =
     Some (held @ (if is_close m then [] else [m])) \<and>
   cd_restore_failed (snd (hold_after_failed_restore m d)) = cd_restore_failed d \<and>
   cd_check (snd (hold_after_failed_restore m d)) = cd_check d"
  by (cases m) (simp_all add: hold_after_failed_restore_def admit_def)

lemma hold_many:
  "cd_until_restored d = Some held \<Longrightarrow>
   cd_until_restored (snd (hold_all ms d)) = Some (held @ filter (\<lambda>m. \<not> is_close m) ms) \<and>
   cd_restore_failed (snd (hold_all ms d)) = cd_restore_failed d \<and>
   cd_check (snd (hold_all ms d)) = cd_check d"
proof (induction ms arbitrary: d held)
  case (Cons m ms)
  from Cons.IH hold_one [OF Cons.prems, of m] show ?case by (auto simp: split_def Let_def)
qed simp

lemma failed_restore_handle:
  assumes "restore_fails env"
  shows "cd_restore_failed (snd (driver_handle env MsgRestore d)) \<and>
    cd_check (snd (driver_handle env MsgRestore d)) = cd_check d"
proof -
  have "cd_restore_failed (snd (driver_restore env d)) \<and>
      cd_check (snd (driver_restore env d)) = cd_check d"
    using assms by (auto simp: restore_fails_def driver_restore_def split_def Let_def)
  moreover have "cd_restore_failed (snd (driver_publish e)) = cd_restore_failed e" for e
    by (simp add: driver_publish_def Let_def)
  ultimately show ?thesis by (simp add: driver_handle_def split_def Let_def check_simps)
qed

text \<open>A restore that keeps failing loses no message and acts on none. While every retry fails,
  the driver's scheduler stays as it was, and what it holds is exactly the messages that came,
  in arrival order, but for the maintainer's Closes, which are answered at once instead.\<close>

theorem failed_restore_holds_messages:
  assumes "cd_restore_failed d" "cd_until_restored d = Some held"
    and "restore_fails (retry_envs 0)" "m \<noteq> MsgRestore"
  shows "cd_restore_failed (snd (deliver retry_envs envs m d)) \<and>
    cd_check (snd (deliver retry_envs envs m d)) = cd_check d \<and>
    cd_until_restored (snd (deliver retry_envs envs m d)) =
      Some (filter (\<lambda>m. \<not> is_close m) (held @ [m]))"
proof -
  define d1 where "d1 = d\<lparr>cd_until_restored := None\<rparr>"
  define d2 where "d2 = snd (driver_handle (retry_envs 0) MsgRestore d1)"
  define d3 where "d3 = snd (hold_all held (d2\<lparr>cd_until_restored := gate_default\<rparr>))"
  have d2: "cd_restore_failed d2" "cd_check d2 = cd_check d"
    using failed_restore_handle [OF assms(3), of d1] by (simp_all add: d2_def d1_def)
  have d3: "cd_until_restored d3 = Some (filter (\<lambda>m. \<not> is_close m) held)"
    "cd_restore_failed d3" "cd_check d3 = cd_check d"
    using hold_many [of "d2\<lparr>cd_until_restored := gate_default\<rparr>" "[]" held] d2
    by (simp_all add: d3_def gate_default_def)
  have "snd (pass_gate retry_envs MsgRestore d) = d3"
    using assms(2) d2(1)
    by (simp add: pass_gate_def admit_def split_def Let_def d3_def d2_def d1_def)
  then have "snd (deliver retry_envs envs m d) = snd (hold_after_failed_restore m d3)"
    using assms(1,4) d3(2) by (simp add: deliver_def split_def Let_def)
  with hold_one [OF d3(1), of m] d3 show ?thesis by simp
qed

theorem failed_restore_holds_messages_witness:
  "cd_until_restored (snd (deliver (\<lambda>k. quiet_env) (\<lambda>k. quiet_env) (MsgLanded 5 None)
     (check_driver_new\<lparr>cd_restore_failed := True,
        cd_until_restored := Some [MsgLanded 4 None, MsgClose None]\<rparr>))) =
   Some [MsgLanded 4 None, MsgLanded 5 None]"
  using failed_restore_holds_messages [of
      "check_driver_new\<lparr>cd_restore_failed := True,
        cd_until_restored := Some [MsgLanded 4 None, MsgClose None]\<rparr>"
      "[MsgLanded 4 None, MsgClose None]" "\<lambda>k. quiet_env" "MsgLanded 5 None" "\<lambda>k. quiet_env"]
  by (simp add: restore_fails_def quiet_env_def)

end
