(* ===== verification/Queue_Policy.thy ===== *)
theory Queue_Policy
  imports Prelude
begin

text \<open>
  The capacity policy of the Thread Queue and its admission decision
  (\<open>thread_queue/policy.rs\<close>). The counts are \<open>usize\<close> values: they count entries held in
  memory, so they are naturals here and their sums stay below the word size.
\<close>

section \<open>Data\<close>

datatype queue_kind = EventTrigger | Cron | SubThread | CodingAgent

fun kind_as_str :: "queue_kind \<Rightarrow> string" where
  "kind_as_str EventTrigger = ''event-trigger''"
| "kind_as_str Cron = ''cron''"
| "kind_as_str SubThread = ''sub-thread''"
| "kind_as_str CodingAgent = ''coding-agent''"

fun is_trigger_fire :: "queue_kind \<Rightarrow> bool" where
  "is_trigger_fire EventTrigger = True"
| "is_trigger_fire Cron = True"
| "is_trigger_fire SubThread = False"
| "is_trigger_fire CodingAgent = False"

datatype overflow_policy = DropOldest | PauseTrigger

record capacity_policy =
  max_concurrent_total :: nat
  max_concurrent_event_trigger :: nat
  max_concurrent_cron :: nat
  max_concurrent_sub_thread :: nat
  max_concurrent_coding_agent :: nat
  max_concurrent_per_trigger :: nat
  max_queued_per_trigger :: nat
  reserved_background :: nat
  overflow :: overflow_policy
  max_event_trigger_depth :: nat
  max_concurrent_children_per_thread :: nat

definition default_max_concurrent_children_per_thread :: nat where
  "default_max_concurrent_children_per_thread = 10"

definition default_max_event_trigger_depth :: nat where
  "default_max_event_trigger_depth = 5"

definition capacity_policy_default :: capacity_policy where
  "capacity_policy_default =
     \<lparr>max_concurrent_total = 32, max_concurrent_event_trigger = 8, max_concurrent_cron = 8,
      max_concurrent_sub_thread = 16, max_concurrent_coding_agent = 24,
      max_concurrent_per_trigger = 1, max_queued_per_trigger = 25, reserved_background = 8,
      overflow = DropOldest, max_event_trigger_depth = default_max_event_trigger_depth,
      max_concurrent_children_per_thread = default_max_concurrent_children_per_thread\<rparr>"

definition invalid_reason :: "capacity_policy \<Rightarrow> string option" where
  "invalid_reason p =
     (if max_queued_per_trigger p = 0 then Some ''max_queued_per_trigger must be at least 1''
      else if max_event_trigger_depth p = 0 then Some ''max_event_trigger_depth must be at least 1''
      else if max_concurrent_children_per_thread p = 0
        then Some ''max_concurrent_children_per_thread must be at least 1''
      else None)"

record admission_counts =
  background_active :: nat
  user_active_count :: nat
  kind_active :: nat
  trigger_active :: nat
  trigger_queued :: nat
  user_queued_count :: nat

definition total_active :: "admission_counts \<Rightarrow> nat" where
  "total_active c = background_active c + user_active_count c"

datatype admission_decision = Admit | Queue | Overflow | Coalesce

section \<open>Decisions\<close>

fun cap_for_kind :: "capacity_policy \<Rightarrow> queue_kind \<Rightarrow> nat" where
  "cap_for_kind p EventTrigger = max_concurrent_event_trigger p"
| "cap_for_kind p Cron = max_concurrent_cron p"
| "cap_for_kind p SubThread = max_concurrent_sub_thread p"
| "cap_for_kind p CodingAgent = max_concurrent_coding_agent p"

definition effective_reserved_background :: "capacity_policy \<Rightarrow> nat" where
  "effective_reserved_background p = min (reserved_background p) (max_concurrent_total p)"

definition user_can_admit :: "capacity_policy \<Rightarrow> nat \<Rightarrow> bool" where
  "user_can_admit p n \<longleftrightarrow> n < max_concurrent_total p"

definition decide_submit ::
  "capacity_policy \<Rightarrow> admission_counts \<Rightarrow> queue_kind \<Rightarrow> bool \<Rightarrow> admission_decision" where
  "decide_submit p c kind has_trigger =
     (if kind = Cron \<and> (trigger_active c \<ge> 1 \<or> trigger_queued c \<ge> 1) then Coalesce
      else
        let must_queue =
              has_trigger \<and> trigger_queued c > 0
            \<or> total_active c \<ge> max_concurrent_total p
            \<or> kind_active c \<ge> cap_for_kind p kind
            \<or> has_trigger \<and> trigger_active c \<ge> max_concurrent_per_trigger p
            \<or> user_queued_count c > 0 \<and> background_active c \<ge> effective_reserved_background p
        in if \<not> must_queue then Admit
           else if has_trigger \<and> trigger_queued c \<ge> max_queued_per_trigger p then Overflow
           else Queue)"

definition decide_drain ::
  "capacity_policy \<Rightarrow> admission_counts \<Rightarrow> queue_kind \<Rightarrow> bool \<Rightarrow> admission_decision" where
  "decide_drain p c kind has_trigger =
     (let must_wait =
            total_active c \<ge> max_concurrent_total p
          \<or> kind_active c \<ge> cap_for_kind p kind
          \<or> has_trigger \<and> trigger_active c \<ge> max_concurrent_per_trigger p
      in if must_wait then Queue else Admit)"

section \<open>What the decisions promise\<close>

text \<open>The caps an entry must fit under to run.\<close>

definition fits :: "capacity_policy \<Rightarrow> admission_counts \<Rightarrow> queue_kind \<Rightarrow> bool \<Rightarrow> bool" where
  "fits p c kind has_trigger \<longleftrightarrow>
     total_active c < max_concurrent_total p \<and> kind_active c < cap_for_kind p kind \<and>
     (has_trigger \<longrightarrow> trigger_active c < max_concurrent_per_trigger p)"

lemma decide_drain_Admit [queue_simps]: "decide_drain p c k t = Admit \<longleftrightarrow> fits p c k t"
  by (auto simp: decide_drain_def fits_def Let_def)

lemma decide_drain_not_Admit: "decide_drain p c k t \<noteq> Admit \<longleftrightarrow> decide_drain p c k t = Queue"
  by (auto simp: decide_drain_def Let_def)

lemma decide_submit_Admit [queue_simps]:
  "decide_submit p c k t = Admit \<longleftrightarrow>
     \<not> (k = Cron \<and> (trigger_active c \<ge> 1 \<or> trigger_queued c \<ge> 1)) \<and> fits p c k t \<and>
     \<not> (t \<and> trigger_queued c > 0) \<and>
     \<not> (user_queued_count c > 0 \<and> background_active c \<ge> effective_reserved_background p)"
  by (auto simp: decide_submit_def fits_def Let_def)

lemma decide_submit_Coalesce [queue_simps]:
  "decide_submit p c k t = Coalesce \<longleftrightarrow>
     k = Cron \<and> (trigger_active c \<ge> 1 \<or> trigger_queued c \<ge> 1)"
  by (auto simp: decide_submit_def Let_def)

lemma decide_submit_Overflow [queue_simps]:
  "decide_submit p c k t = Overflow \<Longrightarrow> t \<and> max_queued_per_trigger p \<le> trigger_queued c"
  by (auto simp: decide_submit_def Let_def split: if_splits)

lemma decide_submit_Queue:
  "decide_submit p c k t = Queue \<Longrightarrow> t \<Longrightarrow> trigger_queued c < max_queued_per_trigger p"
  by (auto simp: decide_submit_def Let_def split: if_splits)

text \<open>
  The contract of an admission gate on a shared pool: it never admits past the pool's ceiling,
  and it only looks at how full the pool is, so an admission under load would also happen with
  less load. Both gates of the queue keep it: \<open>decide_drain\<close> for background work, \<open>user_can_admit\<close>
  for a person's.
\<close>

locale pool_gate =
  fixes gate :: "nat \<Rightarrow> bool" and ceiling :: nat
  assumes admits_below: "gate n \<Longrightarrow> n < ceiling"
    and less_load: "gate n \<Longrightarrow> m \<le> n \<Longrightarrow> gate m"
begin

text \<open>A loop that admits while the gate is open never lifts the pool above its ceiling.\<close>

lemma admit_while_bounded:
  "\<forall>k < n. gate (start + k) \<Longrightarrow> start + n \<le> max start ceiling"
proof (cases n)
  case (Suc k)
  assume "\<forall>k < n. gate (start + k)"
  with Suc have "gate (start + k)" by simp
  from admits_below [OF this] Suc show ?thesis by simp
qed simp

lemma shut_stays_shut: "\<not> gate n \<Longrightarrow> n \<le> m \<Longrightarrow> \<not> gate m"
  using less_load by blast

end

interpretation user_gate: pool_gate "user_can_admit p" "max_concurrent_total p" for p
  by unfold_locales (auto simp: user_can_admit_def)

interpretation background_gate: pool_gate
  "\<lambda>n. decide_drain p (c\<lparr>background_active := n, user_active_count := 0\<rparr>) k t = Admit"
  "max_concurrent_total p" for p c k t
  by unfold_locales (auto simp: decide_drain_Admit fits_def total_active_def)

text \<open>A new background entry starts at once exactly when it fits under every cap, is not a
  redundant scheduled fire, has none of its own trigger's entries waiting before it, and takes
  no slot from a waiting person beyond the background floor. It overflows only when its
  trigger's backlog is at its limit, and a scheduled fire is coalesced exactly when one of its
  trigger already runs or waits.\<close>

theorem decide_submit_complete:
  "(decide_submit p c k t = Admit \<longleftrightarrow>
      fits p c k t \<and> \<not> (k = Cron \<and> (trigger_active c \<noteq> 0 \<or> trigger_queued c \<noteq> 0)) \<and>
      (t \<longrightarrow> trigger_queued c = 0) \<and>
      (user_queued_count c = 0 \<or> background_active c < effective_reserved_background p)) \<and>
   (decide_submit p c k t = Coalesce \<longleftrightarrow>
      k = Cron \<and> (trigger_active c \<noteq> 0 \<or> trigger_queued c \<noteq> 0)) \<and>
   (decide_submit p c k t = Overflow \<longleftrightarrow>
      decide_submit p c k t \<noteq> Admit \<and> decide_submit p c k t \<noteq> Coalesce \<and>
      t \<and> max_queued_per_trigger p \<le> trigger_queued c) \<and>
   (decide_submit p c k t = Admit \<longrightarrow> decide_drain p c k t = Admit)"
  by (auto simp: decide_submit_def decide_drain_def fits_def Let_def)

theorem decide_submit_complete_witness:
  "decide_drain capacity_policy_default
     \<lparr>background_active = 3, user_active_count = 2, kind_active = 1, trigger_active = 0,
      trigger_queued = 0, user_queued_count = 1\<rparr> EventTrigger True = Admit"
proof -
  have "decide_submit capacity_policy_default
     \<lparr>background_active = 3, user_active_count = 2, kind_active = 1, trigger_active = 0,
      trigger_queued = 0, user_queued_count = 1\<rparr> EventTrigger True = Admit"
    by (simp add: decide_submit_def capacity_policy_default_def effective_reserved_background_def
        total_active_def)
  then show ?thesis using decide_submit_complete by blast
qed

end
