(* ===== verification/Rust_Strings.thy ===== *)
theory Rust_Strings
  imports Prelude
begin

text \<open>
  What the modelled code does with strings. A Rust \<open>String\<close> is UTF-8, so it is the list of its
  bytes; \<open>chars()\<close> splits it before every byte that is not a continuation byte. The formatting
  of numbers and the two non-ASCII characters the messages use are written out.
\<close>

definition is_continuation :: "char \<Rightarrow> bool" where
  "is_continuation c \<longleftrightarrow> 128 \<le> (of_char c :: nat) \<and> (of_char c :: nat) < 192"

function utf8_chars :: "string \<Rightarrow> string list" where
  "utf8_chars [] = []"
| "utf8_chars (c # cs) = (c # takeWhile is_continuation cs) # utf8_chars (dropWhile is_continuation cs)"
  by pat_completeness auto
termination
  by (relation "measure length") (auto simp: le_imp_less_Suc length_dropWhile_le)

definition ellipsis :: string where
  "ellipsis = [CHR 0xE2, CHR 0x80, CHR 0xA6]"

definition left_arrow :: string where
  "left_arrow = [CHR 0xE2, CHR 0x86, CHR 0x90]"

definition digit :: "nat \<Rightarrow> char" where
  "digit n = char_of (48 + n mod 10)"

fun show_nat :: "nat \<Rightarrow> string" where
  "show_nat n = (if n < 10 then [digit n] else show_nat (n div 10) @ [digit n])"

declare show_nat.simps [simp del]

section \<open>Characters\<close>

text \<open>A character as \<open>utf8_chars\<close> cuts it: a first byte and continuation bytes.\<close>

definition is_group :: "string \<Rightarrow> bool" where
  "is_group g \<longleftrightarrow> g \<noteq> [] \<and> list_all is_continuation (tl g)"

lemma utf8_chars_groups: "list_all is_group (utf8_chars s)"
  by (induction s rule: utf8_chars.induct)
     (auto simp: is_group_def list_all_iff dest: set_takeWhileD)

lemma concat_utf8_chars [simp]: "concat (utf8_chars s) = s"
  by (induction s rule: utf8_chars.induct) simp_all

lemma utf8_chars_heads:
  "s \<noteq> [] \<Longrightarrow> \<forall>g \<in> set (tl (utf8_chars s)). \<not> is_continuation (hd g)"
proof (induction s rule: utf8_chars.induct)
  case (2 c cs)
  show ?case
  proof (cases "dropWhile is_continuation cs")
    case Nil
    then show ?thesis by (simp del: dropWhile_eq_Nil_conv)
  next
    case (Cons d ds)
    then have "\<not> is_continuation d" by (metis dropWhile_eq_Cons_conv)
    with Cons 2 show ?thesis by simp
  qed
qed simp

lemma takeWhile_all_append:
  "list_all P xs \<Longrightarrow> ys = [] \<or> \<not> P (hd ys) \<Longrightarrow>
     takeWhile P (xs @ ys) = xs \<and> dropWhile P (xs @ ys) = ys"
  by (induction xs) (cases ys; auto)+

lemma utf8_chars_concat:
  "list_all is_group gs \<Longrightarrow> \<forall>g \<in> set (tl gs). \<not> is_continuation (hd g) \<Longrightarrow>
     utf8_chars (concat gs) = gs"
proof (induction gs)
  case (Cons g gs)
  from Cons.prems(1) obtain c cs where g: "g = c # cs" "list_all is_continuation cs"
    by (cases g) (auto simp: is_group_def)
  have "concat gs = [] \<or> \<not> is_continuation (hd (concat gs))"
    using Cons.prems by (cases gs) (auto simp: is_group_def hd_append)
  from takeWhile_all_append [OF g(2) this] Cons g show ?case
    by (cases gs) (simp_all del: dropWhile_eq_Nil_conv)
qed simp

lemma utf8_chars_Nil_iff [simp]: "utf8_chars s = [] \<longleftrightarrow> s = []"
  by (cases s) simp_all

section \<open>Trimming and ASCII case\<close>

text \<open>\<open>str::trim\<close>: the characters with the Unicode White_Space property go at both ends.\<close>

definition white_space_chars :: "string list" where
  "white_space_chars =
     map (\<lambda>b. [char_of b]) [9::nat, 10, 11, 12, 13, 32] @
     [[CHR 0xC2, CHR 0x85], [CHR 0xC2, CHR 0xA0], [CHR 0xE1, CHR 0x9A, CHR 0x80]] @
     map (\<lambda>b. [CHR 0xE2, CHR 0x80, char_of b]) [128::nat, 129, 130, 131, 132, 133, 134, 135, 136,
       137, 138, 168, 169, 175] @
     [[CHR 0xE2, CHR 0x81, CHR 0x9F], [CHR 0xE3, CHR 0x80, CHR 0x80]]"

definition trim :: "string \<Rightarrow> string" where
  "trim s =
     concat (rev (dropWhile (\<lambda>g. g \<in> set white_space_chars)
       (rev (dropWhile (\<lambda>g. g \<in> set white_space_chars) (utf8_chars s)))))"

text \<open>Trimming twice is trimming once: the characters left are those of the text, and neither end is
  space.\<close>

lemma drop_both_ends_idem:
  fixes P :: "'a \<Rightarrow> bool"
  defines "ends xs \<equiv> rev (dropWhile P (rev (dropWhile P xs)))"
  shows "ends (ends xs) = ends xs"
proof -
  let ?ys = "dropWhile P xs"
  obtain m where m: "ends xs = take m ?ys"
    by (metis assms dropWhile_eq_drop rev_drop rev_rev_ident)
  have "dropWhile P (ends xs) = ends xs"
  proof (cases "ends xs")
    case (Cons z zs)
    then have "\<not> P z" using m hd_dropWhile [of P xs] by (cases ?ys; cases m) auto
    with Cons show ?thesis by simp
  qed simp
  then show ?thesis by (simp add: assms)
qed

lemma trim_trim [simp]: "trim (trim s) = trim s"
proof -
  let ?P = "\<lambda>g. g \<in> set white_space_chars" and ?cs = "utf8_chars s"
  define gs where "gs = rev (dropWhile ?P (rev (dropWhile ?P ?cs)))"
  obtain n m where gs: "gs = take m (drop n ?cs)"
    by (metis gs_def dropWhile_eq_drop rev_drop rev_rev_ident)
  have "set gs \<subseteq> set ?cs" using gs by (metis order_trans set_drop_subset set_take_subset)
  then have groups: "list_all is_group gs" using utf8_chars_groups [of s] by (auto simp: list_all_iff)
  have "tl gs = take (m - 1) (drop n (tl ?cs))"
    by (simp add: gs tl_take tl_drop [symmetric] drop_Suc)
  then have "set (tl gs) \<subseteq> set (tl ?cs)" by (metis order_trans set_drop_subset set_take_subset)
  then have "\<forall>g \<in> set (tl gs). \<not> is_continuation (hd g)"
    using utf8_chars_heads [of s] by (cases "s = []") (auto simp: gs)
  from utf8_chars_concat [OF groups this] drop_both_ends_idem [of ?P ?cs] show ?thesis
    by (simp add: trim_def gs_def [symmetric])
qed

text \<open>A text of ASCII characters above the space is trimmed already. The test is on the bits of the code,
  which evaluate fast: the top bit is clear, and the code is at least 33.\<close>

fun graphic :: "char \<Rightarrow> bool" where
  "graphic (Char b0 b1 b2 b3 b4 b5 b6 b7) \<longleftrightarrow> \<not> b7 \<and> (b6 \<or> b5 \<and> (b0 \<or> b1 \<or> b2 \<or> b3 \<or> b4))"

lemma graphic_iff: "graphic c \<longleftrightarrow> 33 \<le> (of_char c :: nat) \<and> (of_char c :: nat) < 128"
proof (cases c)
  case (Char b0 b1 b2 b3 b4 b5 b6 b7)
  then show ?thesis
    by (cases b7; cases b6; cases b5; cases b4; cases b3; cases b2; cases b1; cases b0)
       (simp_all add: of_char_def)
qed

lemma graphic_code: "graphic c \<Longrightarrow> 33 \<le> (of_char c :: nat) \<and> (of_char c :: nat) < 128"
  by (simp add: graphic_iff)

lemma graphic_not_space: "graphic c \<Longrightarrow> [c] \<notin> set white_space_chars"
  using graphic_code [of c] by (auto simp: white_space_chars_def)

lemma graphic_ascii: "list_all graphic s \<Longrightarrow> utf8_chars s = map (\<lambda>c. [c]) s"
proof (induction s)
  case (Cons c s)
  then have "\<forall>d \<in> set s. \<not> is_continuation d"
    using graphic_code by (force simp: is_continuation_def list_all_iff)
  then have "takeWhile is_continuation s = []" "dropWhile is_continuation s = s"
    by (cases s; simp)+
  with Cons show ?case by simp
qed simp

lemma graphic_trim: "list_all graphic s \<Longrightarrow> trim s = s"
proof -
  assume s: "list_all graphic s"
  have "dropWhile (\<lambda>g. g \<in> set white_space_chars) (map (\<lambda>c. [c]) t) = map (\<lambda>c. [c]) t"
    if "list_all graphic t" for t
    using that graphic_not_space by (cases t) auto
  moreover have "list_all graphic (rev s)" using s by (simp add: list_all_iff)
  ultimately show "trim s = s"
    using s by (simp add: trim_def graphic_ascii rev_map concat_map_singleton)
qed

text \<open>\<open>to_ascii_lowercase\<close>, byte by byte, and \<open>replace\<close> of one ASCII character by another.\<close>

definition to_ascii_lowercase :: "string \<Rightarrow> string" where
  "to_ascii_lowercase s =
     map (\<lambda>c. let n = (of_char c :: nat) in if 65 \<le> n \<and> n \<le> 90 then char_of (n + 32) else c) s"

definition replace_char :: "char \<Rightarrow> char \<Rightarrow> string \<Rightarrow> string" where
  "replace_char a b s = map (\<lambda>c. if c = a then b else c) s"

end
