(* ===== verification/Queue_Request.thy ===== *)
theory Queue_Request
  imports Queue_Policy Rust_Strings
begin

text \<open>
  The serializable description of one background spawn (\<open>thread_queue/request.rs\<close>) and the
  retry deadline the executor checks on it. A \<open>serde_json::Value\<close> and a \<open>MessageOrigin\<close> are only
  carried along, so each is the text it serializes to; a timestamp is in nanoseconds.
\<close>

type_synonym json = string
type_synonym message_origin = string
type_synonym instant = int

datatype actor_mode = Human | Agent | Engine
datatype coding_agent = ClaudeCode | Codex
datatype wake_mode = NoWake | Wake | WakeWhenAllDone

record retry_of =
  retry_thread_id :: uuid
  retry_deadline :: instant

record event_trigger_request =
  et_retry_of :: "retry_of option"
  et_trigger_id :: string
  et_event_type :: string
  et_event_payload :: json
  et_depth :: nat
  et_origin_thread_id :: "uuid option"
  et_source_event_id :: "uuid option"

record cron_request =
  cr_trigger_id :: string
  cr_retry_of :: "retry_of option"

record sub_thread_request =
  st_prompt :: string
  st_child_thread_id :: uuid
  st_depth :: nat
  st_parent_thread_id :: "uuid option"
  st_spawning_event_id :: "uuid option"
  st_wake_mode :: "wake_mode option"
  st_title :: "string option"
  st_model :: "string option"
  st_reasoning_effort :: "string option"
  st_provider :: "string option"
  st_pre_emitted_origin :: "uuid option"
  st_origin :: "message_origin option"

record coding_agent_request =
  ca_prompt :: string
  ca_thread_id :: uuid
  ca_depth :: nat
  ca_image_hashes :: "string list"
  ca_device_id :: "string option"
  ca_parent_thread_id :: "uuid option"
  ca_spawning_event_id :: "uuid option"
  ca_wake_mode :: "wake_mode option"
  ca_repo_id :: "string option"
  ca_title :: "string option"
  ca_app_id :: "string option"
  ca_coding_agent :: coding_agent
  ca_model :: "string option"
  ca_reasoning_effort :: "string option"
  ca_origin :: "message_origin option"

record agent_chat_request =
  ac_message :: string
  ac_thread_id :: uuid
  ac_depth :: nat
  ac_event_id :: "string option"
  ac_image_hashes :: "string list"
  ac_device_id :: "string option"
  ac_model :: "string option"
  ac_reasoning_effort :: "string option"
  ac_provider :: "string option"
  ac_use_coding_agent :: "bool option"
  ac_repo_id :: "string option"
  ac_cc_model :: "string option"
  ac_coding_agent :: "coding_agent option"
  ac_title :: "string option"
  ac_mode :: actor_mode
  ac_origin :: "message_origin option"
  ac_parent_thread_id :: "uuid option"
  ac_spawning_event_id :: "uuid option"
  ac_wake_mode :: "wake_mode option"
  ac_app_id :: "string option"
  ac_integrated :: bool
  ac_spawning_trigger_id :: "string option"

datatype thread_queue_request =
    EventTriggerReq event_trigger_request
  | CronReq cron_request
  | SubThreadReq sub_thread_request
  | CodingAgentReq coding_agent_request
  | AgentChatReq agent_chat_request

definition summary_max_chars :: nat where
  "summary_max_chars = 120"

definition truncate_summary :: "string \<Rightarrow> string" where
  "truncate_summary text =
     (let truncated = concat (take summary_max_chars (utf8_chars text))
      in if length (utf8_chars text) > summary_max_chars then truncated @ ellipsis else truncated)"

fun request_kind :: "thread_queue_request \<Rightarrow> queue_kind" where
  "request_kind (EventTriggerReq r) = EventTrigger"
| "request_kind (CronReq r) = Cron"
| "request_kind (SubThreadReq r) = SubThread"
| "request_kind (CodingAgentReq r) = CodingAgent"
| "request_kind (AgentChatReq r) =
     (if ac_use_coding_agent r = Some True then CodingAgent else SubThread)"

fun request_depth :: "thread_queue_request \<Rightarrow> nat" where
  "request_depth (EventTriggerReq r) = et_depth r"
| "request_depth (SubThreadReq r) = st_depth r"
| "request_depth (CodingAgentReq r) = ca_depth r"
| "request_depth (AgentChatReq r) = ac_depth r"
| "request_depth (CronReq r) = 0"

fun stamp_caller_depth :: "nat \<Rightarrow> thread_queue_request \<Rightarrow> thread_queue_request" where
  "stamp_caller_depth d (SubThreadReq r) = SubThreadReq (r\<lparr>st_depth := d\<rparr>)"
| "stamp_caller_depth d (CodingAgentReq r) = CodingAgentReq (r\<lparr>ca_depth := d\<rparr>)"
| "stamp_caller_depth d (AgentChatReq r) = AgentChatReq (r\<lparr>ac_depth := d\<rparr>)"
| "stamp_caller_depth d (EventTriggerReq r) = EventTriggerReq r"
| "stamp_caller_depth d (CronReq r) = CronReq r"

fun is_attributed :: "thread_queue_request \<Rightarrow> bool" where
  "is_attributed (SubThreadReq r) \<longleftrightarrow> st_origin r \<noteq> None \<or> st_parent_thread_id r \<noteq> None"
| "is_attributed (CodingAgentReq r) \<longleftrightarrow> ca_origin r \<noteq> None \<or> ca_parent_thread_id r \<noteq> None"
| "is_attributed (AgentChatReq r) \<longleftrightarrow> ac_origin r \<noteq> None \<or> ac_parent_thread_id r \<noteq> None"
| "is_attributed (EventTriggerReq r) \<longleftrightarrow> True"
| "is_attributed (CronReq r) \<longleftrightarrow> True"

fun request_trigger_id :: "thread_queue_request \<Rightarrow> string option" where
  "request_trigger_id (EventTriggerReq r) = Some (et_trigger_id r)"
| "request_trigger_id (CronReq r) = Some (cr_trigger_id r)"
| "request_trigger_id _ = None"

fun request_thread_id :: "thread_queue_request \<Rightarrow> uuid option" where
  "request_thread_id (SubThreadReq r) = Some (st_child_thread_id r)"
| "request_thread_id (CodingAgentReq r) = Some (ca_thread_id r)"
| "request_thread_id (AgentChatReq r) = Some (ac_thread_id r)"
| "request_thread_id (EventTriggerReq r) = None"
| "request_thread_id (CronReq r) = None"

definition unwrap_or :: "'a option \<Rightarrow> 'a \<Rightarrow> 'a" where
  "unwrap_or x d = (case x of Some y \<Rightarrow> y | None \<Rightarrow> d)"

fun request_summary :: "string option \<Rightarrow> thread_queue_request \<Rightarrow> string" where
  "request_summary name (EventTriggerReq r) =
     unwrap_or name (et_trigger_id r) @ '' '' @ left_arrow @ '' '' @ et_event_type r"
| "request_summary name (CronReq r) = unwrap_or name (cr_trigger_id r) @ '' (scheduled)''"
| "request_summary name (SubThreadReq r) = truncate_summary (st_prompt r)"
| "request_summary name (CodingAgentReq r) = truncate_summary (ca_prompt r)"
| "request_summary name (AgentChatReq r) = truncate_summary (ac_message r)"

text \<open>The retry of an interrupted fire that a request carries (\<open>drop_retry_if_expired\<close>'s match).\<close>

fun request_retry :: "thread_queue_request \<Rightarrow> (string \<times> retry_of) option" where
  "request_retry (CronReq r) = map_option (\<lambda>t. (cr_trigger_id r, t)) (cr_retry_of r)"
| "request_retry (EventTriggerReq r) = map_option (\<lambda>t. (et_trigger_id r, t)) (et_retry_of r)"
| "request_retry _ = None"

section \<open>What a request answers\<close>

lemma request_trigger_kind: "is_trigger_fire (request_kind r) \<longleftrightarrow> request_trigger_id r \<noteq> None"
  by (cases r) simp_all

lemma stamp_keeps [queue_simps]:
  "request_kind (stamp_caller_depth d r) = request_kind r"
  "request_trigger_id (stamp_caller_depth d r) = request_trigger_id r"
  "request_thread_id (stamp_caller_depth d r) = request_thread_id r"
  "request_summary n (stamp_caller_depth d r) = request_summary n r"
  "is_attributed (stamp_caller_depth d r) = is_attributed r"
  "request_retry (stamp_caller_depth d r) = request_retry r"
  by (cases r; simp)+

lemma request_depth_stamp [queue_simps]:
  "request_depth (stamp_caller_depth d r) =
     (if is_trigger_fire (request_kind r) then request_depth r else d)"
  by (cases r) simp_all

lemma summary_group: "is_group ellipsis" "\<not> is_continuation (hd ellipsis)"
  by (simp_all add: ellipsis_def is_group_def is_continuation_def)

lemma utf8_chars_truncated:
  "utf8_chars (concat (take n (utf8_chars s))) = take n (utf8_chars s)"
proof (rule utf8_chars_concat)
  show "list_all is_group (take n (utf8_chars s))"
    using utf8_chars_groups [of s] by (auto simp: list_all_iff dest: in_set_takeD)
  show "\<forall>g \<in> set (tl (take n (utf8_chars s))). \<not> is_continuation (hd g)"
    using utf8_chars_heads [of s] by (cases "s = []") (auto simp: tl_take dest: in_set_takeD)
qed

lemma tl_append_subset: "set (tl (xs @ ys)) \<subseteq> set (tl xs) \<union> set ys"
  by (cases xs; cases ys) auto

lemma utf8_chars_cut:
  assumes "0 < n"
  shows "utf8_chars (concat (take n (utf8_chars s)) @ ellipsis) = take n (utf8_chars s) @ [ellipsis]"
proof -
  have "utf8_chars (concat (take n (utf8_chars s) @ [ellipsis])) = take n (utf8_chars s) @ [ellipsis]"
  proof (rule utf8_chars_concat)
    show "list_all is_group (take n (utf8_chars s) @ [ellipsis])"
      using utf8_chars_groups [of s] summary_group(1) by (auto simp: list_all_iff dest: in_set_takeD)
    show "\<forall>g \<in> set (tl (take n (utf8_chars s) @ [ellipsis])). \<not> is_continuation (hd g)"
    proof (cases "s = []")
      case False
      have "set (tl (take n (utf8_chars s) @ [ellipsis])) \<subseteq> set (tl (utf8_chars s)) \<union> {ellipsis}"
        using tl_append_subset [of "take n (utf8_chars s)" "[ellipsis]"]
        by (auto simp: tl_take dest: in_set_takeD)
      with False utf8_chars_heads [of s] summary_group(2) show ?thesis by blast
    qed simp
  qed
  then show ?thesis by simp
qed

text \<open>A panel summary never splits a character and never grows: it is the text itself up to 120
  characters, else its first 120 characters and one ellipsis, and summarising a summary again
  changes nothing.\<close>

theorem truncate_summary_spec:
  "utf8_chars (truncate_summary s) =
     (if length (utf8_chars s) \<le> 120 then utf8_chars s
      else take 120 (utf8_chars s) @ [ellipsis]) \<and>
   length (utf8_chars (truncate_summary s)) \<le> 121 \<and>
   truncate_summary (truncate_summary s) = truncate_summary s"
proof -
  have chars: "utf8_chars (truncate_summary s) =
      (if length (utf8_chars s) \<le> 120 then utf8_chars s
       else take 120 (utf8_chars s) @ [ellipsis])"
    using utf8_chars_cut [of 120 s] by (simp add: truncate_summary_def summary_max_chars_def)
  moreover have "truncate_summary (truncate_summary s) = truncate_summary s"
  proof (cases "length (utf8_chars s) \<le> 120")
    case False
    then have "truncate_summary (truncate_summary s) = concat (take 120 (utf8_chars s)) @ ellipsis"
      using chars by (simp add: truncate_summary_def [of "truncate_summary s"] summary_max_chars_def Let_def)
    with False show ?thesis by (simp add: truncate_summary_def summary_max_chars_def)
  qed (simp add: truncate_summary_def summary_max_chars_def)
  ultimately show ?thesis by simp
qed

end
