(* ===== verification/Chain_Depth.thy ===== *)
theory Chain_Depth
  imports Prelude
begin

text \<open>
  The registry that binds a thread's events to the depth of the event-trigger chain its work
  belongs to (\<open>scheduler/user_tasks.rs\<close>): each thread has a list of live bindings, one per
  queue entry. A poisoned lock is \<open>None\<close>; it changes nothing and answers nothing.
\<close>

type_synonym chain_owners = "(uuid \<times> (uuid \<times> nat) list) list"
type_synonym chain_registry = "chain_owners option"

fun replace_owner :: "uuid \<Rightarrow> nat \<Rightarrow> (uuid \<times> nat) list \<Rightarrow> (uuid \<times> nat) list" where
  "replace_owner i d [] = [(i, d)]"
| "replace_owner i d ((j, e) # os) = (if j = i then (j, d) # os else (j, e) # replace_owner i d os)"

definition register_chain_depth :: "uuid \<Rightarrow> uuid \<Rightarrow> nat \<Rightarrow> chain_registry \<Rightarrow> chain_registry" where
  "register_chain_depth t i d reg =
     (if d = 0 then reg
      else map_option
        (\<lambda>m. hm_insert t
          (replace_owner i d (case hm_get m t of None \<Rightarrow> [] | Some os \<Rightarrow> os)) m) reg)"

definition forget_chain_depth :: "uuid \<Rightarrow> uuid \<Rightarrow> chain_registry \<Rightarrow> chain_registry" where
  "forget_chain_depth t i reg =
     map_option
       (\<lambda>m. case hm_get m t of
          None \<Rightarrow> m
        | Some os \<Rightarrow>
            (let os' = filter (\<lambda>(j, d). j \<noteq> i) os
             in if os' = [] then hm_remove t m else hm_insert t os' m)) reg"

definition chain_depth_for_thread :: "uuid \<Rightarrow> chain_registry \<Rightarrow> nat option" where
  "chain_depth_for_thread t reg =
     (case reg of
        None \<Rightarrow> None
      | Some m \<Rightarrow>
          (case hm_get m t of
             None \<Rightarrow> None
           | Some os \<Rightarrow> if os = [] then None else Some (foldr max (map snd os) 0)))"

section \<open>The bindings a registry holds\<close>

text \<open>Abstractly a registry is a map from a thread and an owner to a depth.\<close>

definition binding :: "chain_owners \<Rightarrow> uuid \<Rightarrow> uuid \<Rightarrow> nat option" where
  "binding m t i = (case hm_get m t of None \<Rightarrow> None | Some os \<Rightarrow> map_of os i)"

definition chain_ok :: "chain_owners \<Rightarrow> bool" where
  "chain_ok m \<longleftrightarrow>
     (\<forall>t os. hm_get m t = Some os \<longrightarrow> os \<noteq> [] \<and> distinct (map fst os) \<and> (\<forall>d \<in> snd ` set os. 0 < d))"

lemma map_of_replace_owner: "map_of (replace_owner i d os) = (map_of os)(i \<mapsto> d)"
  by (induction os rule: replace_owner.induct) (auto simp: fun_eq_iff)

lemma fst_replace_owner: "fst ` set (replace_owner i d os) = insert i (fst ` set os)"
  by (induction i d os rule: replace_owner.induct) auto

lemma distinct_replace_owner:
  "distinct (map fst os) \<Longrightarrow> distinct (map fst (replace_owner i d os))"
  by (induction i d os rule: replace_owner.induct) (simp_all add: fst_replace_owner, auto)

lemma snd_replace_owner: "snd ` set (replace_owner i d os) \<subseteq> insert d (snd ` set os)"
  by (induction i d os rule: replace_owner.induct) auto

lemma replace_owner_not_Nil [simp]: "replace_owner i d os \<noteq> []"
  by (induction i d os rule: replace_owner.induct) auto

lemma map_of_filter_owner:
  "map_of (filter (\<lambda>(j, d). j \<noteq> i) os) = (map_of os)(i := None)"
  by (induction os) (auto simp: fun_eq_iff)

lemma chain_ok_register:
  assumes "chain_ok m"
  shows "\<exists>m'. register_chain_depth t i d (Some m) = Some m' \<and> chain_ok m' \<and>
    (\<forall>t' i'. binding m' t' i' = (if d \<noteq> 0 \<and> t' = t \<and> i' = i then Some d else binding m t' i'))"
proof (cases "d = 0")
  case True
  with assms show ?thesis by (simp add: register_chain_depth_def)
next
  case False
  define old where "old = (case hm_get m t of None \<Rightarrow> [] | Some os \<Rightarrow> os)"
  have os: "distinct (map fst old) \<and> (\<forall>d \<in> snd ` set old. 0 < d)"
  proof (cases "hm_get m t")
    case None
    then show ?thesis by (simp add: old_def)
  next
    case (Some os)
    with assms have "distinct (map fst os) \<and> (\<forall>d \<in> snd ` set os. 0 < d)"
      unfolding chain_ok_def by blast
    with Some show ?thesis by (simp add: old_def)
  qed
  have new: "distinct (map fst (replace_owner i d old)) \<and>
      (\<forall>e \<in> snd ` set (replace_owner i d old). 0 < e)"
    using os False snd_replace_owner [of i d old] distinct_replace_owner [of old i d] by blast
  have "chain_ok (hm_insert t (replace_owner i d old) m)"
    using assms new unfolding chain_ok_def by (simp add: update_conv')
  moreover have "binding (hm_insert t (replace_owner i d old) m) t' i' =
      (if t' = t \<and> i' = i then Some d else binding m t' i')" for t' i'
    by (auto simp: binding_def update_conv' map_of_replace_owner old_def split: option.splits)
  ultimately show ?thesis using False by (simp add: register_chain_depth_def old_def)
qed

lemma chain_ok_forget:
  assumes "chain_ok m"
  shows "\<exists>m'. forget_chain_depth t i (Some m) = Some m' \<and> chain_ok m' \<and>
    (\<forall>t' i'. binding m' t' i' = (if t' = t \<and> i' = i then None else binding m t' i'))"
proof (cases "hm_get m t")
  case None
  with assms show ?thesis by (auto simp: forget_chain_depth_def binding_def)
next
  case (Some os)
  let ?os = "filter (\<lambda>(j, d). j \<noteq> i) os"
  have os: "distinct (map fst os)" "\<forall>d \<in> snd ` set os. 0 < d"
    using assms Some by (auto simp: chain_ok_def)
  have empty: "?os = [] \<Longrightarrow> map_of os i' = None" if "i' \<noteq> i" for i'
    using that map_of_filter_owner [of i os] by (metis fun_upd_other map_of.simps(1))
  have "chain_ok (if ?os = [] then hm_remove t m else hm_insert t ?os m)"
    using assms os
    by (auto simp: chain_ok_def update_conv' delete_conv' split: if_splits
        intro!: distinct_map_filterI)
  moreover have "binding (if ?os = [] then hm_remove t m else hm_insert t ?os m) t' i' =
      (if t' = t \<and> i' = i then None else binding m t' i')" for t' i'
    using Some empty
    by (auto simp: binding_def update_conv' delete_conv' map_of_filter_owner
        simp del: filter_empty_conv split: option.splits)
  ultimately show ?thesis using Some
    by (auto simp: forget_chain_depth_def Let_def simp del: filter_empty_conv)
qed

lemma foldr_max_bound: "x \<in> set xs \<Longrightarrow> x \<le> foldr max xs (0::nat)"
  by (induction xs) auto

lemma foldr_max_mem: "xs \<noteq> [] \<Longrightarrow> (\<forall>x \<in> set xs. 0 < x) \<Longrightarrow> foldr max xs (0::nat) \<in> set xs"
  by (induction xs rule: list_nonempty_induct) (auto simp: max_def)

text \<open>A thread's depth is the deepest of its live bindings.\<close>

lemma chain_depth_binding:
  assumes "chain_ok m"
  shows "chain_depth_for_thread t (Some m) = None \<longleftrightarrow> (\<forall>i. binding m t i = None)"
    and "chain_depth_for_thread t (Some m) = Some d \<Longrightarrow>
      (\<exists>i. binding m t i = Some d) \<and> (\<forall>i e. binding m t i = Some e \<longrightarrow> e \<le> d)"
proof -
  show "chain_depth_for_thread t (Some m) = None \<longleftrightarrow> (\<forall>i. binding m t i = None)"
  proof (cases "hm_get m t")
    case (Some os)
    with assms have "os \<noteq> []" by (simp add: chain_ok_def)
    then obtain i d where "map_of os i = Some d" by (cases os) (auto, metis)
    with Some \<open>os \<noteq> []\<close> show ?thesis by (auto simp: chain_depth_for_thread_def binding_def)
  qed (simp add: chain_depth_for_thread_def binding_def)
next
  assume d: "chain_depth_for_thread t (Some m) = Some d"
  then obtain os where os: "hm_get m t = Some os" "os \<noteq> []" "d = foldr max (map snd os) 0"
    by (auto simp: chain_depth_for_thread_def split: option.splits if_splits)
  with assms have ok: "distinct (map fst os)" "\<forall>e \<in> set (map snd os). 0 < e"
    by (auto simp: chain_ok_def)
  have "d \<in> set (map snd os)" using foldr_max_mem [of "map snd os"] os ok(2) by simp
  then obtain i where "(i, d) \<in> set os" by auto
  then have "binding m t i = Some d" using ok(1) os(1) by (simp add: binding_def)
  moreover have "e \<le> d" if "binding m t i = Some e" for i e
  proof -
    have "e \<in> set (map snd os)" using that os(1) by (force simp: binding_def dest: map_of_SomeD)
    then show ?thesis using foldr_max_bound os(3) by simp
  qed
  ultimately show "(\<exists>i. binding m t i = Some d) \<and> (\<forall>i e. binding m t i = Some e \<longrightarrow> e \<le> d)"
    by blast
qed


section \<open>Runs\<close>

datatype chain_op = Register uuid uuid nat | Forget uuid uuid

fun chain_step :: "chain_registry \<Rightarrow> chain_op \<Rightarrow> chain_registry" where
  "chain_step reg (Register t i d) = register_chain_depth t i d reg"
| "chain_step reg (Forget t i) = forget_chain_depth t i reg"

text \<open>The bindings a log of operations leaves live: the last word on each owner counts.\<close>

fun live_step :: "(uuid \<Rightarrow> uuid \<Rightarrow> nat option) \<Rightarrow> chain_op \<Rightarrow> (uuid \<Rightarrow> uuid \<Rightarrow> nat option)" where
  "live_step b (Register t i d) =
     (\<lambda>t' i'. if d \<noteq> 0 \<and> t' = t \<and> i' = i then Some d else b t' i')"
| "live_step b (Forget t i) = (\<lambda>t' i'. if t' = t \<and> i' = i then None else b t' i')"

definition live_bindings :: "chain_op list \<Rightarrow> uuid \<Rightarrow> uuid \<Rightarrow> nat option" where
  "live_bindings ops = foldl live_step (\<lambda>t i. None) ops"

lemma chain_refines:
  "chain_ok m \<Longrightarrow>
     \<exists>m'. foldl chain_step (Some m) ops = Some m' \<and> chain_ok m' \<and>
       binding m' = foldl live_step (binding m) ops"
proof (induction ops arbitrary: m)
  case (Cons opn ops)
  have "\<exists>m'. chain_step (Some m) opn = Some m' \<and> chain_ok m' \<and> binding m' = live_step (binding m) opn"
    using chain_ok_register [OF Cons.prems] chain_ok_forget [OF Cons.prems]
    by (cases opn) (simp_all add: fun_eq_iff)
  then obtain m' where "chain_step (Some m) opn = Some m'" "chain_ok m'"
    "binding m' = live_step (binding m) opn"
    by blast
  with Cons.IH [of m'] show ?case by simp
qed simp

text \<open>C32. A thread's chain depth is the deepest of its live bindings. Whatever entries registered and
  forgot, in whatever order and however they overlapped on one thread, the registry answers no
  depth exactly when no entry bound to the thread is live, and otherwise the largest depth of
  the live ones: one entry's end never clears another's binding, and depth 0 never binds.\<close>

theorem chain_depth_is_the_deepest_live_binding:
  "case chain_depth_for_thread t (foldl chain_step (Some []) ops) of
     None \<Rightarrow> \<forall>i. live_bindings ops t i = None
   | Some d \<Rightarrow> (\<exists>i. live_bindings ops t i = Some d) \<and>
       (\<forall>i. case live_bindings ops t i of None \<Rightarrow> True | Some e \<Rightarrow> e \<le> d)"
proof -
  have "chain_ok []" "binding [] = (\<lambda>t i. None)"
    by (simp_all add: chain_ok_def binding_def fun_eq_iff)
  with chain_refines [of "[]" ops] obtain m where
    m: "foldl chain_step (Some []) ops = Some m" "chain_ok m" "binding m = live_bindings ops"
    by (auto simp: live_bindings_def)
  show ?thesis
  proof (cases "chain_depth_for_thread t (Some m)")
    case None
    with chain_depth_binding(1) [OF m(2), of t] m show ?thesis by simp
  next
    case (Some d)
    with chain_depth_binding(2) [OF m(2) Some] m show ?thesis by (auto split: option.splits)
  qed
qed

end
