(* ===== verification/Queue_State.thy ===== *)
theory Queue_State
  imports Queue_Request Chain_Depth
begin

text \<open>
  The Thread Queue's in-memory state and what it reads of it (\<open>thread_queue/mod.rs\<close>): the queued
  entries, the admitted background slots, the user reservations and waiters, the live counts
  an admission is decided on, and user occupancy as the database tells it.

  A one-shot sender is the token of the submitter that waits on it; sending on it is an output.
  What an operation reads outside the state (the trigger registry, the clock, the database,
  the executor) is its world.
\<close>

section \<open>Data\<close>

text \<open>Nanoseconds; the three constants of the module.\<close>

definition delay_alert_wait :: instant where
  "delay_alert_wait = 5 * 60 * 1000000000"

definition notify_cooldown :: instant where
  "notify_cooldown = 10 * 60 * 1000000000"

definition usize_max :: nat where
  "usize_max = 2 ^ 64 - 1"

record queue_entry =
  qe_id :: uuid
  qe_kind :: queue_kind
  qe_trigger_id :: "string option"
  qe_trigger_name :: "string option"
  qe_thread_id :: "uuid option"
  qe_summary :: string
  qe_request :: thread_queue_request
  qe_queued_at :: instant
  qe_cancel :: "uuid option"
  qe_completion :: "uuid option"

record active_slot =
  sl_kind :: queue_kind
  sl_trigger_id :: "string option"
  sl_completion :: "uuid option"
  sl_chain_thread_id :: "uuid option"
  sl_chain_depth :: nat

record user_reservation =
  ur_thread_id :: uuid
  ur_summary :: string
  ur_admitted_at :: instant
  ur_after_seq :: int
  ur_seen :: bool

record running_thread =
  rt_summary :: string
  rt_revived_at :: instant

record user_waiter =
  uw_entry_id :: uuid
  uw_thread_id :: uuid
  uw_summary :: string
  uw_queued_at :: instant
  uw_wake :: uuid

record queue_state =
  qs_policy :: capacity_policy
  qs_queued :: "queue_entry list"
  qs_active :: "(uuid \<times> active_slot) list"
  qs_reservations :: "(uuid \<times> user_reservation) list"
  qs_user_queued :: "user_waiter list"
  qs_delay_notified :: "(string \<times> instant) list"
  qs_global_notified :: "instant option"

definition queue_new :: "capacity_policy \<Rightarrow> queue_state" where
  "queue_new p =
     \<lparr>qs_policy = p, qs_queued = [], qs_active = [], qs_reservations = [], qs_user_queued = [],
      qs_delay_notified = [], qs_global_notified = None\<rparr>"

section \<open>Counts\<close>

type_synonym running_map = "(uuid \<times> running_thread) list"

definition unseen_reservations :: "queue_state \<Rightarrow> uuid option \<Rightarrow> nat" where
  "unseen_reservations s except =
     length (filter (\<lambda>r. \<not> ur_seen r \<and> Some (ur_thread_id r) \<noteq> except)
       (map snd (qs_reservations s)))"

definition user_active :: "queue_state \<Rightarrow> running_map \<Rightarrow> nat" where
  "user_active s running = length running + unseen_reservations s None"

definition user_active_besides :: "queue_state \<Rightarrow> running_map \<Rightarrow> uuid \<Rightarrow> nat" where
  "user_active_besides s running t =
     length running - (if t \<in> hm_keys running then 1 else 0) + unseen_reservations s (Some t)"

definition counts_for :: "queue_state \<Rightarrow> queue_kind \<Rightarrow> string option \<Rightarrow> nat \<Rightarrow> admission_counts" where
  "counts_for s kind trigger users =
     \<lparr>background_active = length (qs_active s),
      user_active_count = users,
      kind_active = length (filter (\<lambda>a. sl_kind a = kind) (map snd (qs_active s))),
      trigger_active =
        (case trigger of
           None \<Rightarrow> 0
         | Some t \<Rightarrow> length (filter (\<lambda>a. sl_trigger_id a = Some t) (map snd (qs_active s)))),
      trigger_queued =
        (case trigger of
           None \<Rightarrow> 0
         | Some t \<Rightarrow> length (filter (\<lambda>e. qe_trigger_id e = Some t) (qs_queued s))),
      user_queued_count = length (qs_user_queued s)\<rparr>"

text \<open>\<open>Instant::elapsed\<close>, which never goes below zero.\<close>

definition elapsed :: "instant \<Rightarrow> instant \<Rightarrow> instant" where
  "elapsed now t = max 0 (now - t)"

definition capacity_notification_due ::
  "instant \<Rightarrow> nat \<Rightarrow> queue_state \<Rightarrow> (string \<times> string) option \<times> queue_state" where
  "capacity_notification_due now users s =
     (if length (qs_active s) + users < max_concurrent_total (qs_policy s) \<or>
         (case qs_global_notified s of None \<Rightarrow> False | Some t \<Rightarrow> elapsed now t < notify_cooldown)
      then (None, s)
      else (Some (''Lucidos is at capacity'',
              ''All '' @ show_nat (max_concurrent_total (qs_policy s)) @ '' slots are busy; '' @
              show_nat (length (qs_queued s) + length (qs_user_queued s)) @
              '' thread(s) are waiting in the Thread Queue.''),
            s\<lparr>qs_global_notified := Some now\<rparr>))"

definition delay_cooldown_elapsed :: "instant \<Rightarrow> string \<Rightarrow> queue_state \<Rightarrow> bool \<times> queue_state" where
  "delay_cooldown_elapsed now trigger s =
     (let due = (case hm_get (qs_delay_notified s) trigger of
                   None \<Rightarrow> True
                 | Some t \<Rightarrow> elapsed now t \<ge> notify_cooldown)
      in (due,
          if due then s\<lparr>qs_delay_notified := hm_insert trigger now (qs_delay_notified s)\<rparr> else s))"

section \<open>The world of an operation\<close>

record trigger_config =
  tc_name :: string
  tc_paused :: bool

text \<open>
  A running thread as \<open>thread_summaries\<close> has it, one row per thread. \<open>qw_registry\<close> is \<open>None\<close>
  when its lock is poisoned, \<open>qw_running\<close>, \<open>qw_turn_started\<close> and \<open>qw_high_water\<close> when the query
  failed. \<open>qw_prepared\<close> is the event the executor's admission hook emitted for a request, if it
  did.
\<close>

record running_row =
  row_thread_id :: uuid
  row_title :: "string option"
  row_first_message :: "string option"
  row_revived_at :: instant
  row_user_initiated :: bool

record queue_world =
  qw_registry :: "(string \<Rightarrow> trigger_config option) option"
  qw_boot_recovery :: bool
  qw_shutting_down :: bool
  qw_executor :: bool
  qw_prepared :: "thread_queue_request \<Rightarrow> uuid option"
  qw_running :: "running_row list option"
  qw_turn_started :: "(uuid \<Rightarrow> int \<Rightarrow> bool) option"
  qw_high_water :: "uuid \<Rightarrow> int option"
  qw_now :: instant
  qw_clock :: instant

definition trigger_name :: "queue_world \<Rightarrow> string \<Rightarrow> string option" where
  "trigger_name w t =
     (case qw_registry w of
        None \<Rightarrow> None
      | Some configs \<Rightarrow> map_option tc_name (configs t))"

definition trigger_paused :: "queue_world \<Rightarrow> string \<Rightarrow> bool" where
  "trigger_paused w t =
     (case qw_registry w of
        None \<Rightarrow> False
      | Some configs \<Rightarrow> (case configs t of None \<Rightarrow> False | Some c \<Rightarrow> tc_paused c))"

definition trigger_admission_held :: "queue_world \<Rightarrow> queue_kind \<Rightarrow> bool" where
  "trigger_admission_held w kind \<longleftrightarrow>
     is_trigger_fire kind \<and> (qw_boot_recovery w \<or> qw_shutting_down w)"

section \<open>Outputs\<close>

text \<open>
  What an operation does outside the state, in order. \<open>EmitQueued\<close> carries the whole entry and
  whether it is a boot requeue; an emit on the trigger's behalf names its trigger and depth.
\<close>

datatype queue_out =
    EmitQueued queue_entry bool "message_origin option"
  | EmitAdmitted uuid "uuid option" "string option" nat "message_origin option"
  | EmitDropped uuid string "message_origin option"
  | EmitCompleted uuid "string option" nat
  | EmitChanged
  | Notify string string
  | NotifyInterrupted uuid string string "uuid option" string
  | Resolve uuid
  | WakeUser uuid
  | RegisterChain uuid uuid nat
  | ForgetChain uuid uuid
  | Execute uuid thread_queue_request "uuid option" nat
  | PauseTriggerWrite string

section \<open>User occupancy\<close>

definition turn_start_event_types :: "string list" where
  "turn_start_event_types =
     [''MessageReceived'', ''SessionStarted'', ''CodingAgentUserMessageSent'', ''PromptInjected'',
      ''ContinuationStarted'', ''ContinuationRequested'', ''UserQuestionAnswered'',
      ''CodingAgentPermissionResolved'', ''CommandPermissionResolved'',
      ''McpPermissionResolved'', ''CodingAgentPromptSent'']"

text \<open>A thread event by its type; \<open>started_turn\<close> is the flag of \<open>CodingAgentInputRead\<close>.\<close>

definition moves_user_occupancy :: "string \<Rightarrow> bool \<Rightarrow> bool" where
  "moves_user_occupancy event_type started_turn \<longleftrightarrow>
     event_type \<in> set turn_start_event_types \<or>
     event_type = ''CodingAgentInputRead'' \<and> started_turn \<or>
     event_type \<in> set
       [''UserQuestionAsked'', ''CodingAgentPermissionRequest'', ''CommandPermissionRequested'',
        ''McpPermissionRequested'', ''ResponseGenerated'', ''ResponseCanceled'',
        ''ResponseAborted'', ''ResponseFailed'', ''CodingAgentIdled'', ''TriggerCompleted'',
        ''SessionEnded'', ''ChangeApplied'', ''ChangeDiscarded'', ''ThreadArchived'']"

text \<open>\<open>COALESCE(NULLIF(title, ''), NULLIF(first_message, ''), '')\<close>.\<close>

definition row_text :: "running_row \<Rightarrow> string" where
  "row_text r =
     (case row_title r of
        Some (c # cs) \<Rightarrow> c # cs
      | _ \<Rightarrow> (case row_first_message r of Some m \<Rightarrow> m | None \<Rightarrow> []))"

definition mark_seen :: "(uuid \<Rightarrow> user_reservation \<Rightarrow> bool) \<Rightarrow> queue_state \<Rightarrow> queue_state" where
  "mark_seen seen s =
     s\<lparr>qs_reservations :=
         map (\<lambda>(i, r). (i, if seen i r then r\<lparr>ur_seen := True\<rparr> else r)) (qs_reservations s)\<rparr>"

definition read_user_occupancy ::
  "queue_world \<Rightarrow> uuid option \<Rightarrow> queue_state \<Rightarrow> running_map \<times> queue_state" where
  "read_user_occupancy w candidate s =
     (case qw_running w of
        None \<Rightarrow> ([], s)
      | Some rows \<Rightarrow>
          (let admitted = map (ur_thread_id \<circ> snd) (qs_reservations s) @
                          map uw_thread_id (qs_user_queued s) @
                          (case candidate of None \<Rightarrow> [] | Some t \<Rightarrow> [t]);
               running =
                 map (\<lambda>r. (row_thread_id r,
                        \<lparr>rt_summary = truncate_summary (trim (row_text r)),
                         rt_revived_at = row_revived_at r\<rparr>))
                   (filter (\<lambda>r. row_user_initiated r \<or> row_thread_id r \<in> set admitted) rows);
               s = mark_seen (\<lambda>i r. ur_thread_id r \<in> hm_keys running) s
           in (running,
               case qw_turn_started w of
                 None \<Rightarrow> s
               | Some started \<Rightarrow>
                   mark_seen (\<lambda>i r. \<not> ur_seen r \<and> started (ur_thread_id r) (ur_after_seq r)) s)))"

definition thread_high_water :: "queue_world \<Rightarrow> uuid \<Rightarrow> int" where
  "thread_high_water w t = (case qw_high_water w t of None \<Rightarrow> 0 | Some n \<Rightarrow> n)"

definition reserve_user_slot ::
  "queue_world \<Rightarrow> running_map \<Rightarrow> uuid \<Rightarrow> uuid \<Rightarrow> string \<Rightarrow> queue_state \<Rightarrow> queue_state" where
  "reserve_user_slot w running i t summary s =
     (let seen = t \<in> hm_keys running;
          after_seq = (if seen then 0 else thread_high_water w t)
      in s\<lparr>qs_reservations := hm_insert i
             \<lparr>ur_thread_id = t, ur_summary = summary, ur_admitted_at = qw_now w,
              ur_after_seq = after_seq, ur_seen = seen\<rparr> (qs_reservations s)\<rparr>)"

end
