(* ===== verification/Queue_Admission.thy ===== *)
theory Queue_Admission
  imports Queue_State
begin

text \<open>
  How background work enters and leaves the Thread Queue (\<open>thread_queue/mod.rs\<close>, with the
  executor's admission hook from \<open>thread_queue/executor.rs\<close>): submit, overflow, the three-phase
  drain, Run now, drop, completion and the late thread binding. Every function returns its
  outputs in order and the new state; a submit takes the state lock twice, so its two critical
  sections are separate functions.
\<close>

section \<open>Moving an entry\<close>

definition slot_of :: "queue_entry \<Rightarrow> active_slot" where
  "slot_of e =
     \<lparr>sl_kind = qe_kind e, sl_trigger_id = qe_trigger_id e, sl_completion = qe_completion e,
      sl_chain_thread_id = qe_thread_id e, sl_chain_depth = request_depth (qe_request e)\<rparr>"

definition activate :: "queue_entry \<Rightarrow> queue_state \<Rightarrow> queue_state" where
  "activate e s = s\<lparr>qs_active := hm_insert (qe_id e) (slot_of e) (qs_active s)\<rparr>"

definition resolve :: "uuid option \<Rightarrow> queue_out list" where
  "resolve tx = (case tx of None \<Rightarrow> [] | Some i \<Rightarrow> [Resolve i])"

text \<open>\<open>EngineThreadQueueExecutor::prepare\<close>: only a sub-thread whose first message is not out yet.\<close>

definition executor_prepare :: "queue_world \<Rightarrow> thread_queue_request \<Rightarrow> thread_queue_request" where
  "executor_prepare w req =
     (case req of
        SubThreadReq r \<Rightarrow>
          if st_pre_emitted_origin r \<noteq> None then req
          else (case qw_prepared w req of
                  None \<Rightarrow> req
                | Some i \<Rightarrow> SubThreadReq (r\<lparr>st_pre_emitted_origin := Some i\<rparr>))
      | _ \<Rightarrow> req)"

definition prepare_entry :: "queue_world \<Rightarrow> queue_entry \<Rightarrow> queue_entry" where
  "prepare_entry w e =
     (if qw_executor w then e\<lparr>qe_request := executor_prepare w (qe_request e)\<rparr> else e)"

definition register_chain_thread :: "uuid \<Rightarrow> uuid option \<Rightarrow> nat \<Rightarrow> queue_out list" where
  "register_chain_thread i thread depth =
     (case thread of None \<Rightarrow> [] | Some t \<Rightarrow> [RegisterChain t i depth])"

definition spawn_execution :: "queue_world \<Rightarrow> queue_entry \<Rightarrow> queue_out list" where
  "spawn_execution w e =
     (if \<not> qw_executor w then []
      else register_chain_thread (qe_id e) (qe_thread_id e) (request_depth (qe_request e)) @
        [Execute (qe_id e) (qe_request e) (qe_cancel e) (request_depth (qe_request e))])"

definition emit_admitted :: "queue_entry \<Rightarrow> message_origin option \<Rightarrow> queue_out" where
  "emit_admitted e actor =
     EmitAdmitted (qe_id e) (qe_thread_id e) (qe_trigger_id e) (request_depth (qe_request e)) actor"

text \<open>What an admitted entry does once the lock is free.\<close>

definition start_entry ::
  "queue_world \<Rightarrow> queue_entry \<Rightarrow> message_origin option \<Rightarrow> queue_out list" where
  "start_entry w e actor =
     (let e = prepare_entry w e in emit_admitted e actor # spawn_execution w e)"

section \<open>Submit\<close>

record submit_outcome =
  so_entry_id :: uuid
  so_admitted :: bool
  so_position :: nat
  so_coalesced :: bool

definition submit_entry ::
  "queue_world \<Rightarrow> uuid \<Rightarrow> uuid \<Rightarrow> nat \<Rightarrow> thread_queue_request \<Rightarrow> uuid option \<Rightarrow> queue_entry" where
  "submit_entry w i tx caller_depth request cancel =
     (let request = stamp_caller_depth caller_depth request;
          trigger = request_trigger_id request;
          name = (case trigger of None \<Rightarrow> None | Some t \<Rightarrow> trigger_name w t)
      in \<lparr>qe_id = i, qe_kind = request_kind request, qe_trigger_id = trigger,
          qe_trigger_name = name, qe_thread_id = request_thread_id request,
          qe_summary = request_summary name request, qe_request = request,
          qe_queued_at = qw_now w, qe_cancel = cancel, qe_completion = Some tx\<rparr>)"

text \<open>The first critical section: the decision, and the slot when the entry is admitted.\<close>

definition submit_decide ::
  "queue_world \<Rightarrow> queue_entry \<Rightarrow> queue_state \<Rightarrow> (admission_decision \<times> nat) \<times> queue_state" where
  "submit_decide w e s =
     (let (running, s) = read_user_occupancy w None s;
          users = user_active s running;
          counts = counts_for s (qe_kind e) (qe_trigger_id e) users;
          decision =
            (case decide_submit (qs_policy s) counts (qe_kind e) (qe_trigger_id e \<noteq> None) of
               Admit \<Rightarrow> if trigger_admission_held w (qe_kind e) then Queue else Admit
             | d \<Rightarrow> d)
      in ((decision, users), if decision = Admit then activate e s else s))"

definition overflow_label :: "queue_entry \<Rightarrow> string" where
  "overflow_label e = unwrap_or (qe_trigger_name e) (unwrap_or (qe_trigger_id e) [])"

definition handle_persisted_overflow ::
  "queue_entry \<Rightarrow> queue_state \<Rightarrow> queue_out list \<times> queue_state" where
  "handle_persisted_overflow e s =
     (let label = overflow_label e;
          cap = show_nat (max_queued_per_trigger (qs_policy s))
      in case overflow (qs_policy s) of
           DropOldest \<Rightarrow>
             (case position (\<lambda>q. qe_trigger_id q = qe_trigger_id e) (qs_queued s) of
                None \<Rightarrow> ([], s\<lparr>qs_queued := qs_queued s @ [e]\<rparr>)
              | Some i \<Rightarrow>
                  (let old = qs_queued s ! i
                   in (resolve (qe_completion old) @
                       [EmitDropped (qe_id old)
                          (''per-trigger queue cap ('' @ cap @ '') reached, oldest entry dropped'')
                          None,
                        Notify (label @ '' queue overflowed'')
                          (''The queue for trigger \"'' @ label @ ''\" hit its cap of '' @ cap @
                           ''; the oldest waiting fire was dropped: '' @ qe_summary old)],
                       s\<lparr>qs_queued := remove_nth i (qs_queued s) @ [e]\<rparr>)))
         | PauseTrigger \<Rightarrow>
             ([PauseTriggerWrite (unwrap_or (qe_trigger_id e) []),
               Notify (label @ '' paused '' @ [CHR 0xE2, CHR 0x80, CHR 0x94] @ '' queue overflow'')
                 (''Trigger \"'' @ label @ ''\" hit its queue cap of '' @ cap @
                  '' and was paused. Its queued fires wait in the Thread Queue; resume the '' @
                  ''trigger to continue.'')],
              s\<lparr>qs_queued := qs_queued s @ [e]\<rparr>))"

definition handle_overflow ::
  "queue_entry \<Rightarrow> message_origin option \<Rightarrow> queue_state \<Rightarrow> queue_out list \<times> queue_state" where
  "handle_overflow e actor s =
     (let (outs, s) = handle_persisted_overflow e s in (EmitQueued e False actor # outs, s))"

text \<open>What follows the decision, with the second critical section when the entry waits.\<close>

definition submit_carry_out ::
  "queue_world \<Rightarrow> admission_decision \<Rightarrow> nat \<Rightarrow> queue_entry \<Rightarrow> message_origin option \<Rightarrow> queue_state
     \<Rightarrow> submit_outcome \<times> queue_out list \<times> queue_state" where
  "submit_carry_out w decision users e actor s =
     (case decision of
        Admit \<Rightarrow>
          (let e' = prepare_entry w e
           in (\<lparr>so_entry_id = qe_id e, so_admitted = True, so_position = 0, so_coalesced = False\<rparr>,
               EmitQueued e' False actor # emit_admitted e' None # spawn_execution w e', s))
      | Queue \<Rightarrow>
          (let s = s\<lparr>qs_queued := qs_queued s @ [e]\<rparr>;
               (due, s) = capacity_notification_due (qw_clock w) users s
           in (\<lparr>so_entry_id = qe_id e, so_admitted = False, so_position = length (qs_queued s),
                so_coalesced = False\<rparr>,
               EmitQueued e False actor #
                 (case due of None \<Rightarrow> [] | Some (title, message) \<Rightarrow> [Notify title message]), s))
      | Overflow \<Rightarrow>
          (let (outs, s) = handle_overflow e actor s
           in (\<lparr>so_entry_id = qe_id e, so_admitted = False, so_position = 0, so_coalesced = False\<rparr>,
               outs, s))
      | Coalesce \<Rightarrow>
          (\<lparr>so_entry_id = qe_id e, so_admitted = False, so_position = 0, so_coalesced = True\<rparr>,
           resolve (qe_completion e), s))"

definition submit ::
  "queue_world \<Rightarrow> uuid \<Rightarrow> uuid \<Rightarrow> nat \<Rightarrow> thread_queue_request \<Rightarrow> message_origin option
     \<Rightarrow> uuid option \<Rightarrow> queue_state \<Rightarrow> submit_outcome \<times> queue_out list \<times> queue_state" where
  "submit w i tx caller_depth request actor cancel s =
     (let e = submit_entry w i tx caller_depth request cancel;
          ((decision, users), s) = submit_decide w e s
      in submit_carry_out w decision users e actor s)"

text \<open>
  A boot retry is persisted and queued under one lock, and never started. \<open>emitted\<close> says whether
  its \<open>ThreadQueued\<close> could be written; the result is the error, or the new entry's id.
\<close>

definition submit_boot_retry ::
  "queue_world \<Rightarrow> uuid \<Rightarrow> bool \<Rightarrow> thread_queue_request \<Rightarrow> queue_state
     \<Rightarrow> (unit + uuid option) \<times> queue_out list \<times> queue_state" where
  "submit_boot_retry w i emitted request s =
     (let trigger = request_trigger_id request;
          name = (case trigger of None \<Rightarrow> None | Some t \<Rightarrow> trigger_name w t);
          (running, s) = read_user_occupancy w None s;
          counts = counts_for s (request_kind request) trigger (user_active s running);
          decision = decide_submit (qs_policy s) counts (request_kind request) (trigger \<noteq> None)
      in if decision = Coalesce then (Inr None, [], s)
         else
           let e = \<lparr>qe_id = i, qe_kind = request_kind request, qe_trigger_id = trigger,
                    qe_trigger_name = name, qe_thread_id = None,
                    qe_summary = request_summary name request, qe_request = request,
                    qe_queued_at = qw_now w, qe_cancel = None, qe_completion = None\<rparr>
           in if \<not> emitted then (Inl (), [], s)
              else if decision = Overflow
              then (let (outs, s) = handle_persisted_overflow e s
                    in (Inr (Some i), EmitQueued e False None # outs, s))
              else (Inr (Some i), [EmitQueued e False None],
                    s\<lparr>qs_queued := qs_queued s @ [e]\<rparr>))"

section \<open>Drain\<close>

text \<open>
  One pass over the backlog, by index as in the code. \<open>skipped\<close> are the triggers whose later
  entries this pass leaves, \<open>admit\<close> and \<open>drp\<close> the entries it takes out so far.
\<close>

function drain_background_into ::
  "queue_world \<Rightarrow> running_map \<Rightarrow> nat \<Rightarrow> string list \<Rightarrow> nat \<Rightarrow> queue_state \<Rightarrow> queue_entry list
     \<Rightarrow> (queue_entry \<times> string) list
     \<Rightarrow> queue_state \<times> queue_entry list \<times> (queue_entry \<times> string) list" where
  "drain_background_into w running target skipped i s adm drp =
     (if \<not> i < length (qs_queued s) then (s, adm, drp)
      else if length (qs_active s) \<ge> target then (s, adm, drp)
      else
        let e = qs_queued s ! i;
            next = (\<lambda>skip. drain_background_into w running target skip (Suc i) s adm drp);
            try =
              (let counts = counts_for s (qe_kind e) (qe_trigger_id e) (user_active s running)
               in if decide_drain (qs_policy s) counts (qe_kind e) (qe_trigger_id e \<noteq> None) = Admit
                  then drain_background_into w running target skipped i
                         (activate e (s\<lparr>qs_queued := remove_nth i (qs_queued s)\<rparr>))
                         (adm @ [e\<lparr>qe_completion := None\<rparr>]) drp
                  else next (case qe_trigger_id e of None \<Rightarrow> skipped | Some t \<Rightarrow> t # skipped))
        in if trigger_admission_held w (qe_kind e) then next skipped
           else case qe_trigger_id e of
             None \<Rightarrow> try
           | Some t \<Rightarrow>
               if t \<in> set skipped then next skipped
               else (case qw_registry w of
                       None \<Rightarrow> next (t # skipped)
                     | Some configs \<Rightarrow>
                         (case configs t of
                            None \<Rightarrow>
                              drain_background_into w running target skipped i
                                (s\<lparr>qs_queued := remove_nth i (qs_queued s)\<rparr>) adm
                                (drp @ [(e, ''trigger no longer exists'')])
                          | Some c \<Rightarrow> if tc_paused c then next (t # skipped) else try)))"
  by pat_completeness auto
termination
  by (relation "measure (\<lambda>(w, running, target, skipped, i, s, adm, drp). length (qs_queued s) - i)")
     (auto simp: activate_def)

declare drain_background_into.simps [simp del]

function drain_users ::
  "queue_world \<Rightarrow> running_map \<Rightarrow> queue_state \<Rightarrow> uuid list \<times> queue_state" where
  "drain_users w running s =
     (case qs_user_queued s of
        [] \<Rightarrow> ([], s)
      | u # us \<Rightarrow>
          if \<not> user_can_admit (qs_policy s)
                 (length (qs_active s) + user_active_besides s running (uw_thread_id u))
          then ([], s)
          else (let (woke, s) =
                  drain_users w running
                    (reserve_user_slot w running (uw_entry_id u) (uw_thread_id u) (uw_summary u)
                      (s\<lparr>qs_user_queued := us\<rparr>))
                in (uw_wake u # woke, s)))"
  by pat_completeness auto
termination
  by (relation "measure (\<lambda>(w, running, s). length (qs_user_queued s))")
     (auto simp: reserve_user_slot_def Let_def)

declare drain_users.simps [simp del]

definition drain_state ::
  "queue_world \<Rightarrow> queue_state
     \<Rightarrow> (queue_entry list \<times> (queue_entry \<times> string) list \<times> uuid list) \<times> queue_state" where
  "drain_state w s =
     (let (running, s) = read_user_occupancy w None s;
          (s, adm, drp) =
            drain_background_into w running (effective_reserved_background (qs_policy s)) [] 0 s [] [];
          (woke, s) = drain_users w running s;
          (s, adm, drp) = drain_background_into w running usize_max [] 0 s adm drp
      in ((adm, drp, woke), s))"

definition drain :: "queue_world \<Rightarrow> queue_state \<Rightarrow> queue_out list \<times> queue_state" where
  "drain w s =
     (let ((adm, drp, woke), s) = drain_state w s
      in (concat (map (\<lambda>(e, reason). resolve (qe_completion e) @ [EmitDropped (qe_id e) reason None]) drp) @
          map WakeUser woke @ (if woke \<noteq> [] then [EmitChanged] else []) @
          concat (map (\<lambda>e. start_entry w e None) adm), s))"

section \<open>Run now, drop, completion\<close>

definition not_queued :: string where
  "not_queued = ''entry is not queued (already running or gone)''"

definition run_now ::
  "queue_world \<Rightarrow> uuid \<Rightarrow> message_origin option \<Rightarrow> queue_state
     \<Rightarrow> (string + unit) \<times> queue_out list \<times> queue_state" where
  "run_now w i actor s =
     (case position (\<lambda>e. qe_id e = i) (qs_queued s) of
        None \<Rightarrow> (Inl not_queued, [], s)
      | Some k \<Rightarrow>
          (let e = qs_queued s ! k
           in if trigger_admission_held w (qe_kind e)
              then (Inl ''trigger admission is held during engine startup or shutdown'', [], s)
              else (Inr (), start_entry w (e\<lparr>qe_completion := None\<rparr>) actor,
                    activate e (s\<lparr>qs_queued := remove_nth k (qs_queued s)\<rparr>))))"

definition drop_entry ::
  "uuid \<Rightarrow> string \<Rightarrow> message_origin option \<Rightarrow> queue_state
     \<Rightarrow> (string + unit) \<times> queue_out list \<times> queue_state" where
  "drop_entry i reason actor s =
     (case position (\<lambda>e. qe_id e = i) (qs_queued s) of
        None \<Rightarrow> (Inl not_queued, [], s)
      | Some k \<Rightarrow>
          (Inr (), resolve (qe_completion (qs_queued s ! k)) @ [EmitDropped i reason actor],
           s\<lparr>qs_queued := remove_nth k (qs_queued s)\<rparr>))"

definition finish_entry ::
  "queue_world \<Rightarrow> uuid \<Rightarrow> bool \<Rightarrow> queue_state \<Rightarrow> queue_out list \<times> queue_state" where
  "finish_entry w i completed s =
     (case hm_get (qs_active s) i of
        None \<Rightarrow> ([], s)
      | Some slot \<Rightarrow>
          (let (drained, s) = drain w (s\<lparr>qs_active := hm_remove i (qs_active s)\<rparr>)
           in ((case sl_chain_thread_id slot of None \<Rightarrow> [] | Some t \<Rightarrow> [ForgetChain t i]) @
               resolve (sl_completion slot) @
               (if completed then [EmitCompleted i (sl_trigger_id slot) (sl_chain_depth slot)]
                else []) @
               drained, s)))"

definition complete :: "queue_world \<Rightarrow> uuid \<Rightarrow> queue_state \<Rightarrow> queue_out list \<times> queue_state" where
  "complete w i s = finish_entry w i True s"

text \<open>
  How the spawned work ended, as its joiner hears it: it ran, its retry was too old and its row
  dropped, the deadline could not be read, or it panicked.
\<close>

datatype work_outcome = WorkRan | WorkExpired | WorkUnchecked | WorkPanicked

definition join_work ::
  "queue_world \<Rightarrow> uuid \<Rightarrow> work_outcome \<Rightarrow> queue_state \<Rightarrow> queue_out list \<times> queue_state" where
  "join_work w i outcome s =
     (case outcome of
        WorkRan \<Rightarrow> finish_entry w i True s
      | WorkExpired \<Rightarrow> finish_entry w i False s
      | WorkUnchecked \<Rightarrow>
          ([Notify ''An interrupted run could not be retried''
              (''Lucidos could not check the retry deadline. The entry remains in the Thread '' @
               ''Queue for recovery.'')], s)
      | WorkPanicked \<Rightarrow> complete w i s)"

definition record_entry_thread ::
  "uuid \<Rightarrow> uuid \<Rightarrow> queue_state \<Rightarrow> queue_out list \<times> queue_state" where
  "record_entry_thread i t s =
     (case hm_get (qs_active s) i of
        None \<Rightarrow> ([EmitAdmitted i (Some t) None 0 None], s)
      | Some slot \<Rightarrow>
          ([RegisterChain t i (sl_chain_depth slot),
            EmitAdmitted i (Some t) (sl_trigger_id slot) (sl_chain_depth slot) None],
           s\<lparr>qs_active := hm_insert i (slot\<lparr>sl_chain_thread_id := Some t\<rparr>) (qs_active s)\<rparr>))"

definition set_policy ::
  "queue_world \<Rightarrow> bool \<Rightarrow> capacity_policy \<Rightarrow> queue_state
     \<Rightarrow> (unit + unit) \<times> queue_out list \<times> queue_state" where
  "set_policy w emitted p s =
     (if \<not> emitted then (Inl (), [], s)
      else (let (outs, s) = drain w (s\<lparr>qs_policy := p\<rparr>) in (Inr (), outs, s)))"

section \<open>User work\<close>

text \<open>The gate either reserves a slot at once or joins the line; the flag says it waits.\<close>

definition acquire_user_slot ::
  "queue_world \<Rightarrow> uuid \<Rightarrow> uuid \<Rightarrow> uuid \<Rightarrow> string \<Rightarrow> queue_state
     \<Rightarrow> bool \<times> queue_out list \<times> queue_state" where
  "acquire_user_slot w i wake t summary s =
     (let (running, s) = read_user_occupancy w (Some t) s
      in if user_can_admit (qs_policy s) (length (qs_active s) + user_active_besides s running t)
         then (False, [EmitChanged], reserve_user_slot w running i t summary s)
         else (True, [EmitChanged],
               s\<lparr>qs_user_queued := qs_user_queued s @
                   [\<lparr>uw_entry_id = i, uw_thread_id = t, uw_summary = summary,
                     uw_queued_at = qw_now w, uw_wake = wake\<rparr>]\<rparr>))"

definition release_user_slot ::
  "queue_world \<Rightarrow> uuid \<Rightarrow> queue_state \<Rightarrow> queue_out list \<times> queue_state" where
  "release_user_slot w i s =
     (let (removed, s) =
        (if i \<in> hm_keys (qs_reservations s)
         then (True, s\<lparr>qs_reservations := hm_remove i (qs_reservations s)\<rparr>)
         else (let us = filter (\<lambda>u. uw_entry_id u \<noteq> i) (qs_user_queued s)
               in (length us \<noteq> length (qs_user_queued s), s\<lparr>qs_user_queued := us\<rparr>)))
      in if removed then (let (outs, s) = drain w s in (EmitChanged # outs, s)) else ([], s))"

datatype user_entry_status = AdmittedStatus | QueuedStatus

record user_queue_entry =
  ue_id :: uuid
  ue_thread_id :: uuid
  ue_summary :: string
  ue_status :: user_entry_status
  ue_queued_at :: instant
  ue_admitted_at :: "instant option"

definition user_entries :: "queue_world \<Rightarrow> queue_state \<Rightarrow> user_queue_entry list \<times> queue_state" where
  "user_entries w s =
     (let (running, s) = read_user_occupancy w None s
      in (map (\<lambda>(t, r).
              \<lparr>ue_id = t, ue_thread_id = t, ue_summary = rt_summary r, ue_status = AdmittedStatus,
               ue_queued_at = rt_revived_at r, ue_admitted_at = Some (rt_revived_at r)\<rparr>) running @
          map (\<lambda>(i, r).
              \<lparr>ue_id = i, ue_thread_id = ur_thread_id r, ue_summary = ur_summary r,
               ue_status = AdmittedStatus, ue_queued_at = ur_admitted_at r,
               ue_admitted_at = Some (ur_admitted_at r)\<rparr>)
            (filter (\<lambda>(i, r). \<not> ur_seen r) (qs_reservations s)) @
          map (\<lambda>u.
              \<lparr>ue_id = uw_entry_id u, ue_thread_id = uw_thread_id u, ue_summary = uw_summary u,
               ue_status = QueuedStatus, ue_queued_at = uw_queued_at u, ue_admitted_at = None\<rparr>)
            (qs_user_queued s), s))"

text \<open>A committed event on a thread whose aggregate, where known, says whether a user started it.\<close>

definition is_occupancy_hint ::
  "uuid \<Rightarrow> string \<Rightarrow> bool \<Rightarrow> bool \<Rightarrow> bool option \<Rightarrow> queue_state \<Rightarrow> bool" where
  "is_occupancy_hint t event_type started_turn committed user_initiator s =
     (if \<not> committed \<or> \<not> moves_user_occupancy event_type started_turn then False
      else (user_initiator = None \<or> user_initiator = Some True) \<or>
        (\<exists>r \<in> set (map snd (qs_reservations s)). ur_thread_id r = t))"

definition occupancy_moved :: "queue_world \<Rightarrow> queue_state \<Rightarrow> queue_out list \<times> queue_state" where
  "occupancy_moved w s = (let (outs, s) = drain w s in (EmitChanged # outs, s))"

section \<open>Delay notifications\<close>

text \<open>The oldest queued fire of each trigger and how many wait, in the order first seen.\<close>

definition oldest_step ::
  "(string \<times> instant \<times> nat) list \<Rightarrow> queue_entry \<Rightarrow> (string \<times> instant \<times> nat) list" where
  "oldest_step m e =
     (case qe_trigger_id e of
        None \<Rightarrow> m
      | Some t \<Rightarrow>
          (let (at, n) = (case hm_get m t of None \<Rightarrow> (qe_queued_at e, 0) | Some v \<Rightarrow> v)
           in hm_insert t (min at (qe_queued_at e), Suc n) m))"

fun delay_loop ::
  "queue_world \<Rightarrow> (string \<times> instant \<times> nat) list \<Rightarrow> queue_state
     \<Rightarrow> (string \<times> string) list \<times> queue_state" where
  "delay_loop w [] s = ([], s)"
| "delay_loop w ((t, at, n) # rest) s =
     (let waited = max 0 (qw_now w - at)
      in if waited < delay_alert_wait \<or> trigger_paused w t then delay_loop w rest s
         else
           let (due, s) = delay_cooldown_elapsed (qw_clock w) t s
           in if \<not> due then delay_loop w rest s
              else
                let label = unwrap_or (trigger_name w t) t;
                    (later, s) = delay_loop w rest s
                in ((label @ '' is significantly delayed'',
                     ''Trigger \"'' @ label @ ''\"'' @ [CHR 0x27] @
                     ''s oldest fire has waited '' @
                     show_nat (nat (waited div 1000000000) div 60) @
                     '' min in the Thread Queue ('' @ show_nat n @ '' waiting).'') # later, s))"

definition delay_notifications_due ::
  "queue_world \<Rightarrow> queue_state \<Rightarrow> (string \<times> string) list \<times> queue_state" where
  "delay_notifications_due w s = delay_loop w (foldl oldest_step [] (qs_queued s)) s"

text \<open>One turn of the periodic loop of \<open>start_draining\<close>.\<close>

definition drain_tick :: "queue_world \<Rightarrow> queue_state \<Rightarrow> queue_out list \<times> queue_state" where
  "drain_tick w s =
     (let (outs, s) = drain w s;
          (due, s) = delay_notifications_due w s
      in (outs @ map (\<lambda>(title, message). Notify title message) due, s))"

end
