(* ===== verification/Queue_Drain.thy ===== *)
theory Queue_Drain
  imports Queue_Admission "HOL-Library.Multiset" "HOL-Library.Sublist"
begin

text \<open>
  The background pass of the drain. The code walks the backlog by index while it removes from
  it; here the walk is shown equal to a structural scan of the list, and everything else is
  proved of the scan: what it takes, in which order, within which caps, and what it leaves.
\<close>

section \<open>The scan\<close>

datatype fate = Stay "string list" | Gone | Go

definition drain_fate ::
  "queue_world \<Rightarrow> bool \<Rightarrow> string list \<Rightarrow> queue_entry \<Rightarrow> fate" where
  "drain_fate w fit skipped e =
     (if trigger_admission_held w (qe_kind e) then Stay skipped
      else case qe_trigger_id e of
        None \<Rightarrow> if fit then Go else Stay skipped
      | Some t \<Rightarrow>
          if t \<in> set skipped then Stay skipped
          else (case qw_registry w of
                  None \<Rightarrow> Stay (t # skipped)
                | Some configs \<Rightarrow>
                    (case configs t of
                       None \<Rightarrow> Gone
                     | Some c \<Rightarrow>
                         if tc_paused c then Stay (t # skipped)
                         else if fit then Go else Stay (t # skipped))))"

type_synonym active_map = "(uuid \<times> active_slot) list"

text \<open>An entry whose sender moved to its slot.\<close>

definition started :: "queue_entry \<Rightarrow> queue_entry" where
  "started e = e\<lparr>qe_completion := None\<rparr>"

definition no_trigger :: string where
  "no_trigger = ''trigger no longer exists''"

fun drain_scan ::
  "queue_world \<Rightarrow> (active_map \<Rightarrow> queue_entry \<Rightarrow> bool) \<Rightarrow> nat \<Rightarrow> string list \<Rightarrow> active_map
     \<Rightarrow> queue_entry list
     \<Rightarrow> queue_entry list \<times> active_map \<times> queue_entry list \<times> queue_entry list" where
  "drain_scan w fit target skipped act [] = ([], act, [], [])"
| "drain_scan w fit target skipped act (e # es) =
     (if length act \<ge> target then (e # es, act, [], [])
      else case drain_fate w (fit act e) skipped e of
        Stay skip \<Rightarrow>
          (let (q, act, tk, dr) = drain_scan w fit target skip act es in (e # q, act, tk, dr))
      | Gone \<Rightarrow>
          (let (q, act, tk, dr) = drain_scan w fit target skipped act es in (q, act, tk, e # dr))
      | Go \<Rightarrow>
          (let (q, act, tk, dr) =
             drain_scan w fit target skipped (hm_insert (qe_id e) (slot_of e) act) es
           in (q, act, e # tk, dr)))"

text \<open>Which background work fits, as a function of the active slots alone.\<close>

definition kind_count :: "queue_kind \<Rightarrow> active_map \<Rightarrow> nat" where
  "kind_count k act = length (filter (\<lambda>a. sl_kind a = k) (map snd act))"

definition trigger_count :: "string \<Rightarrow> active_map \<Rightarrow> nat" where
  "trigger_count t act = length (filter (\<lambda>a. sl_trigger_id a = Some t) (map snd act))"

definition background_fits ::
  "capacity_policy \<Rightarrow> nat \<Rightarrow> active_map \<Rightarrow> queue_kind \<Rightarrow> string option \<Rightarrow> bool" where
  "background_fits p users act k trigger \<longleftrightarrow>
     length act + users < max_concurrent_total p \<and> kind_count k act < cap_for_kind p k \<and>
     (\<forall>t. trigger = Some t \<longrightarrow> trigger_count t act < max_concurrent_per_trigger p)"

abbreviation entry_fits :: "capacity_policy \<Rightarrow> nat \<Rightarrow> active_map \<Rightarrow> queue_entry \<Rightarrow> bool" where
  "entry_fits p users act e \<equiv> background_fits p users act (qe_kind e) (qe_trigger_id e)"

lemma decide_drain_counts [queue_simps]:
  "decide_drain p (counts_for s k trigger users) k (trigger \<noteq> None) = Admit \<longleftrightarrow>
     background_fits p users (qs_active s) k trigger"
  by (cases trigger)
     (auto simp: decide_drain_Admit fits_def counts_for_def background_fits_def kind_count_def
        trigger_count_def total_active_def)

lemma user_active_frame [queue_simps]:
  "user_active (s\<lparr>qs_queued := q\<rparr>) running = user_active s running"
  "user_active (s\<lparr>qs_active := a\<rparr>) running = user_active s running"
  by (simp_all add: user_active_def unseen_reservations_def)

text \<open>One step of the walk.\<close>

lemma drain_background_step:
  assumes "i < length (qs_queued s)" "qs_queued s ! i = e"
  shows "drain_background_into w running target skipped i s adm drp =
    (if length (qs_active s) \<ge> target then (s, adm, drp)
     else case drain_fate w (entry_fits (qs_policy s) (user_active s running) (qs_active s) e) skipped e of
       Stay skip \<Rightarrow> drain_background_into w running target skip (Suc i) s adm drp
     | Gone \<Rightarrow>
         drain_background_into w running target skipped i
           (s\<lparr>qs_queued := remove_nth i (qs_queued s)\<rparr>) adm (drp @ [(e, no_trigger)])
     | Go \<Rightarrow>
         drain_background_into w running target skipped i
           (activate e (s\<lparr>qs_queued := remove_nth i (qs_queued s)\<rparr>)) (adm @ [started e]) drp)"
proof -
  note unfold = drain_background_into.simps [of w running target skipped i s adm drp]
  show ?thesis
  proof (cases "qe_trigger_id e")
    case None
    with assms show ?thesis
      by (subst unfold) (simp add: Let_def drain_fate_def decide_drain_counts [of _ _ _ None, simplified]
          started_def)
  next
    case (Some t)
    with assms show ?thesis
      by (subst unfold) (simp add: Let_def drain_fate_def decide_drain_counts [of _ _ _ "Some t", simplified]
          started_def no_trigger_def split: option.splits)
  qed
qed

lemma drain_background_scan:
  "qs_queued s = kept @ es \<Longrightarrow>
   drain_background_into w running target skipped (length kept) s adm drp =
     (let (q, act, tk, dr) =
        drain_scan w (entry_fits (qs_policy s) (user_active s running)) target skipped
          (qs_active s) es
      in (s\<lparr>qs_queued := kept @ q, qs_active := act\<rparr>, adm @ map started tk,
          drp @ map (\<lambda>e. (e, no_trigger)) dr))"
proof (induction es arbitrary: s kept skipped adm drp)
  case Nil
  then show ?case by (subst drain_background_into.simps) simp
next
  case (Cons e es)
  let ?fit = "entry_fits (qs_policy s) (user_active s running)"
  have nth: "length kept < length (qs_queued s)" "qs_queued s ! length kept = e"
    and rem: "remove_nth (length kept) (qs_queued s) = kept @ es"
    using Cons.prems by simp_all
  note step = drain_background_step [OF nth, of w running target skipped adm drp]
  show ?case
  proof (cases "target \<le> length (qs_active s)")
    case True
    with step Cons.prems show ?thesis by simp
  next
    case below: False
    show ?thesis
    proof (cases "drain_fate w (?fit (qs_active s) e) skipped e")
      case (Stay skip)
      with below step Cons.IH [of s "kept @ [e]" skip adm drp] Cons.prems show ?thesis
        by (simp add: split_def Let_def)
    next
      case Gone
      with below step rem
        Cons.IH [of "s\<lparr>qs_queued := kept @ es\<rparr>" kept skipped adm "drp @ [(e, no_trigger)]"]
      show ?thesis by (simp add: split_def Let_def user_active_frame)
    next
      case Go
      with below step rem
        Cons.IH [of "activate e (s\<lparr>qs_queued := kept @ es\<rparr>)" kept skipped "adm @ [started e]" drp]
      show ?thesis by (simp add: split_def Let_def user_active_frame activate_def)
    qed
  qed
qed

section \<open>What a scan takes and leaves\<close>

lemma scan_conserves:
  "drain_scan w fit target skipped act es = (q, act', tk, dr) \<Longrightarrow>
     mset es = mset q + mset tk + mset dr"
  by (induction es arbitrary: skipped act q act' tk dr)
     (fastforce split: if_splits fate.splits prod.splits)+

lemma scan_subseq:
  "drain_scan w fit target skipped act es = (q, act', tk, dr) \<Longrightarrow> subseq q es"
  by (induction es arbitrary: skipped act q act' tk dr)
     (fastforce split: if_splits fate.splits prod.splits)+

lemma scan_taken_subseq:
  "drain_scan w fit target skipped act es = (q, act', tk, dr) \<Longrightarrow> subseq tk es"
  by (induction es arbitrary: skipped act q act' tk dr)
     (fastforce split: if_splits fate.splits prod.splits)+

abbreviation of_trigger :: "string \<Rightarrow> queue_entry list \<Rightarrow> queue_entry list" where
  "of_trigger t \<equiv> filter (\<lambda>e. qe_trigger_id e = Some t)"

text \<open>A trigger's entries the scan may not touch stay, all of them.\<close>

definition waits_in :: "queue_world \<Rightarrow> string list \<Rightarrow> string \<Rightarrow> bool" where
  "waits_in w skipped t \<longleftrightarrow>
     t \<in> set skipped \<or> qw_registry w = None \<or>
     (\<exists>configs c. qw_registry w = Some configs \<and> configs t = Some c \<and> tc_paused c)"

lemma fate_keeps_waits:
  "waits_in w skipped t \<Longrightarrow> drain_fate w f skipped e = Stay skip \<Longrightarrow> waits_in w skip t"
  by (auto simp: waits_in_def drain_fate_def split: if_splits option.splits)

lemma fate_of_waiting:
  "waits_in w skipped t \<Longrightarrow> qe_trigger_id e = Some t \<Longrightarrow> \<exists>skip. drain_fate w f skipped e = Stay skip"
  by (auto simp: waits_in_def drain_fate_def split: option.splits)

lemma scan_waiting:
  "drain_scan w fit target skipped act es = (q, act', tk, dr) \<Longrightarrow> waits_in w skipped t \<Longrightarrow>
     of_trigger t q = of_trigger t es \<and> of_trigger t tk = [] \<and> of_trigger t dr = []"
proof (induction es arbitrary: skipped act q act' tk dr)
  case (Cons e es)
  show ?case
  proof (cases "target \<le> length act")
    case False
    show ?thesis
    proof (cases "drain_fate w (fit act e) skipped e")
      case (Stay skip)
      with False Cons.prems Cons.IH [of skip act] fate_keeps_waits [of w skipped t] show ?thesis
        by (auto split: prod.splits)
    next
      case Gone
      with False Cons.prems Cons.IH [of skipped act] fate_of_waiting [of w skipped t e "fit act e"]
      show ?thesis by (auto split: prod.splits)
    next
      case Go
      with False Cons.prems Cons.IH [of skipped "hm_insert (qe_id e) (slot_of e) act"]
        fate_of_waiting [of w skipped t e "fit act e"]
      show ?thesis by (auto split: prod.splits)
    qed
  qed (use Cons.prems in auto)
qed simp

text \<open>
  An entry is well-formed when its kind and trigger are its request's, so it has a trigger
  exactly when it is a trigger's fire.
\<close>

definition entry_ok :: "queue_entry \<Rightarrow> bool" where
  "entry_ok e \<longleftrightarrow>
     qe_kind e = request_kind (qe_request e) \<and>
     qe_trigger_id e = request_trigger_id (qe_request e)"

lemma entry_ok_kind: "entry_ok e \<Longrightarrow> is_trigger_fire (qe_kind e) \<longleftrightarrow> qe_trigger_id e \<noteq> None"
  by (simp add: entry_ok_def request_trigger_kind)

definition fires_held :: "queue_world \<Rightarrow> bool" where
  "fires_held w \<longleftrightarrow> qw_boot_recovery w \<or> qw_shutting_down w"

lemma held_fate:
  "fires_held w \<Longrightarrow> entry_ok e \<Longrightarrow> qe_trigger_id e = Some t \<Longrightarrow>
     drain_fate w f skipped e = Stay skipped"
  using entry_ok_kind [of e]
  by (simp add: drain_fate_def trigger_admission_held_def fires_held_def)

lemma scan_held:
  "drain_scan w fit target skipped act es = (q, act', tk, dr) \<Longrightarrow> fires_held w \<Longrightarrow>
   list_all entry_ok es \<Longrightarrow>
     of_trigger t q = of_trigger t es \<and> of_trigger t tk = [] \<and> of_trigger t dr = []"
proof (induction es arbitrary: skipped act q act' tk dr)
  case (Cons e es)
  show ?case
  proof (cases "target \<le> length act")
    case False
    then show ?thesis
      using Cons.prems held_fate [of w e t "fit act e" skipped]
        Cons.IH [of _ act] Cons.IH [of skipped "hm_insert (qe_id e) (slot_of e) act"]
      by (cases "drain_fate w (fit act e) skipped e") (auto split: prod.splits)
  qed (use Cons.prems in auto)
qed simp

text \<open>What is started has a live trigger or none; what is dropped had its trigger deleted.\<close>

definition live_trigger :: "queue_world \<Rightarrow> string \<Rightarrow> bool" where
  "live_trigger w t \<longleftrightarrow>
     (\<exists>configs c. qw_registry w = Some configs \<and> configs t = Some c \<and> \<not> tc_paused c)"

definition deleted_trigger :: "queue_world \<Rightarrow> string \<Rightarrow> bool" where
  "deleted_trigger w t \<longleftrightarrow> (\<exists>configs. qw_registry w = Some configs \<and> configs t = None)"

lemma fate_Go:
  "drain_fate w f skipped e = Go \<Longrightarrow>
     f \<and> \<not> trigger_admission_held w (qe_kind e) \<and>
     (\<forall>t. qe_trigger_id e = Some t \<longrightarrow> live_trigger w t)"
  by (auto simp: drain_fate_def live_trigger_def split: if_splits option.splits)

lemma fate_Gone:
  "drain_fate w f skipped e = Gone \<Longrightarrow>
     \<exists>t. qe_trigger_id e = Some t \<and> deleted_trigger w t \<and> \<not> trigger_admission_held w (qe_kind e)"
  by (auto simp: drain_fate_def deleted_trigger_def split: if_splits option.splits)

lemma scan_taken:
  "drain_scan w fit target skipped act es = (q, act', tk, dr) \<Longrightarrow> e \<in> set tk \<Longrightarrow>
     \<not> trigger_admission_held w (qe_kind e) \<and>
     (\<forall>t. qe_trigger_id e = Some t \<longrightarrow> live_trigger w t)"
  by (induction es arbitrary: skipped act q act' tk dr)
     (auto split: if_splits fate.splits prod.splits dest!: fate_Go)

lemma scan_dropped:
  "drain_scan w fit target skipped act es = (q, act', tk, dr) \<Longrightarrow> e \<in> set dr \<Longrightarrow>
     \<exists>t. qe_trigger_id e = Some t \<and> deleted_trigger w t"
  by (induction es arbitrary: skipped act q act' tk dr)
     (auto split: if_splits fate.splits prod.splits dest!: fate_Gone)

lemma live_not_deleted: "live_trigger w t \<Longrightarrow> \<not> deleted_trigger w t"
  by (auto simp: live_trigger_def deleted_trigger_def)

text \<open>
  Strict per-trigger order: what a scan takes out of a trigger's line is its front, whole, and
  goes one way: started, or dropped when the trigger is gone.
\<close>

lemma scan_fifo:
  "drain_scan w fit target skipped act es = (q, act', tk, dr) \<Longrightarrow> list_all entry_ok es \<Longrightarrow>
     \<exists>n. of_trigger t q = drop n (of_trigger t es) \<and>
       of_trigger t tk @ of_trigger t dr = take n (of_trigger t es)"
proof (induction es arbitrary: skipped act q act' tk dr)
  case Nil
  then show ?case by simp
next
  case (Cons e es)
  have zero: ?case if "of_trigger t q = of_trigger t (e # es) \<and> of_trigger t tk = [] \<and> of_trigger t dr = []"
    using that by (intro exI [of _ 0]) simp
  show ?case
  proof (cases "fires_held w \<or> waits_in w skipped t \<or> target \<le> length act")
    case True
    then show ?thesis
      using scan_held [OF Cons.prems(1) _ Cons.prems(2)] scan_waiting [OF Cons.prems(1)] Cons.prems(1)
      by (intro zero) auto
  next
    case free: False
    show ?thesis
    proof (cases "drain_fate w (fit act e) skipped e")
      case (Stay skip)
      from free Stay Cons.prems(1) obtain q' where
        sc: "drain_scan w fit target skip act es = (q', act', tk, dr)" and q: "q = e # q'"
        by (auto split: prod.splits)
      show ?thesis
      proof (cases "qe_trigger_id e = Some t")
        case True
        with free Stay have "waits_in w skip t"
          by (auto simp: drain_fate_def waits_in_def trigger_admission_held_def fires_held_def
              split: if_splits option.splits)
        with scan_waiting [OF sc] q show ?thesis by (intro zero) simp
      next
        case False
        with Cons.IH [OF sc] Cons.prems(2) q show ?thesis by simp
      qed
    next
      case Gone
      from free Gone Cons.prems(1) obtain dr' where
        sc: "drain_scan w fit target skipped act es = (q, act', tk, dr')" and dr: "dr = e # dr'"
        by (auto split: prod.splits)
      from Cons.IH [OF sc] Cons.prems(2) obtain n where
        n: "of_trigger t q = drop n (of_trigger t es)"
           "of_trigger t tk @ of_trigger t dr' = take n (of_trigger t es)"
        by auto
      show ?thesis
      proof (cases "qe_trigger_id e = Some t")
        case True
        with fate_Gone [OF Gone] have "deleted_trigger w t" by auto
        then have "of_trigger t tk = []"
          using scan_taken [OF sc] live_not_deleted by (auto simp: filter_empty_conv)
        with n dr True show ?thesis by (intro exI [of _ "Suc n"]) simp
      qed (use n dr in auto)
    next
      case Go
      from free Go Cons.prems(1) obtain tk' where
        sc: "drain_scan w fit target skipped (hm_insert (qe_id e) (slot_of e) act) es =
          (q, act', tk', dr)" and tk: "tk = e # tk'"
        by (auto split: prod.splits)
      from Cons.IH [OF sc] Cons.prems(2) obtain n where
        n: "of_trigger t q = drop n (of_trigger t es)"
           "of_trigger t tk' @ of_trigger t dr = take n (of_trigger t es)"
        by auto
      show ?thesis
      proof (cases "qe_trigger_id e = Some t")
        case True
        with n tk show ?thesis by (intro exI [of _ "Suc n"]) simp
      qed (use n tk in auto)
    qed
  qed
qed

end
