(* ===== verification/Queue_Caps.thy ===== *)
theory Queue_Caps
  imports Queue_Drain
begin

text \<open>
  The caps a drain keeps and the work it does: what a scan starts fits, what it leaves at the
  front of a line does not, and a person waits only while the pool is full.
\<close>

section \<open>Slots only accumulate\<close>

definition fresh_ids :: "active_map \<Rightarrow> queue_entry list \<Rightarrow> bool" where
  "fresh_ids act es \<longleftrightarrow> distinct (map qe_id es) \<and> qe_id ` set es \<inter> hm_keys act = {}"

lemma fresh_ids_Cons:
  "fresh_ids act (e # es) \<longleftrightarrow>
     qe_id e \<notin> hm_keys act \<and> qe_id e \<notin> qe_id ` set es \<and> fresh_ids act es"
  by (auto simp: fresh_ids_def)

lemma fresh_ids_insert:
  "fresh_ids act (e # es) \<Longrightarrow> fresh_ids (act @ [(qe_id e, slot)]) es"
  by (auto simp: fresh_ids_def hm_keys_def)

lemma scan_active:
  "drain_scan w fit target skipped act es = (q, act', tk, dr) \<Longrightarrow> fresh_ids act es \<Longrightarrow>
     act' = act @ map (\<lambda>e. (qe_id e, slot_of e)) tk"
proof (induction es arbitrary: skipped act q act' tk dr)
  case (Cons e es)
  have ins: "hm_insert (qe_id e) (slot_of e) act = act @ [(qe_id e, slot_of e)]"
    using Cons.prems(2) by (simp add: hm_insert_fresh fresh_ids_Cons)
  have fresh: "fresh_ids act es" using Cons.prems(2) by (simp add: fresh_ids_Cons)
  show ?case
  proof (cases "target \<le> length act")
    case False
    show ?thesis
    proof (cases "drain_fate w (fit act e) skipped e")
      case (Stay skip)
      with False Cons.prems(1) Cons.IH [OF _ fresh, of skip] show ?thesis by (auto split: prod.splits)
    next
      case Gone
      with False Cons.prems(1) Cons.IH [OF _ fresh, of skipped] show ?thesis
        by (auto split: prod.splits)
    next
      case Go
      with False Cons.prems(1) ins
        Cons.IH [OF _ fresh_ids_insert [OF Cons.prems(2)], of skipped "slot_of e"]
      show ?thesis by (auto split: prod.splits)
    qed
  qed (use Cons.prems(1) in simp)
qed simp

lemma count_append [queue_simps]:
  "kind_count k (act @ act') = kind_count k act + kind_count k act'"
  "trigger_count t (act @ act') = trigger_count t act + trigger_count t act'"
  by (simp_all add: kind_count_def trigger_count_def)

lemma count_single [queue_simps]:
  "kind_count k [(i, slot_of e)] = (if qe_kind e = k then 1 else 0)"
  "trigger_count t [(i, slot_of e)] = (if qe_trigger_id e = Some t then 1 else 0)"
  by (simp_all add: kind_count_def trigger_count_def slot_of_def)

lemma fits_fewer: "background_fits p users (act @ act') k t \<Longrightarrow> background_fits p users act k t"
  by (force simp: background_fits_def queue_simps)

section \<open>Caps\<close>

text \<open>No slot count lies above what it was, or above its cap.\<close>

definition within_caps :: "capacity_policy \<Rightarrow> nat \<Rightarrow> active_map \<Rightarrow> active_map \<Rightarrow> bool" where
  "within_caps p users act act' \<longleftrightarrow>
     length act' + users \<le> max (length act + users) (max_concurrent_total p) \<and>
     (\<forall>k. kind_count k act' \<le> max (kind_count k act) (cap_for_kind p k)) \<and>
     (\<forall>t. trigger_count t act' \<le> max (trigger_count t act) (max_concurrent_per_trigger p))"

lemma within_caps_refl [simp]: "within_caps p users act act"
  by (simp add: within_caps_def)

lemma within_caps_one:
  assumes "entry_fits p users act e"
  shows "within_caps p users act (act @ [(i, slot_of e)])"
  using assms by (auto simp: within_caps_def background_fits_def queue_simps)

lemma within_caps_trans:
  assumes "within_caps p users act act1" "within_caps p users act1 act2"
  shows "within_caps p users act act2"
proof -
  have "length act2 + users \<le> max (length act + users) (max_concurrent_total p)"
    using assms by (auto simp: within_caps_def)
  moreover have "kind_count k act2 \<le> max (kind_count k act) (cap_for_kind p k)" for k
    using assms unfolding within_caps_def by (meson max.bounded_iff max.cobounded2 order_trans le_max_iff_disj)
  moreover have "trigger_count t act2 \<le> max (trigger_count t act) (max_concurrent_per_trigger p)" for t
    using assms unfolding within_caps_def by (meson max.bounded_iff max.cobounded2 order_trans le_max_iff_disj)
  ultimately show ?thesis by (simp add: within_caps_def)
qed

lemma scan_within_caps:
  "drain_scan w (entry_fits p users) target skipped act es = (q, act', tk, dr) \<Longrightarrow>
   fresh_ids act es \<Longrightarrow> within_caps p users act act'"
proof (induction es arbitrary: skipped act q act' tk dr)
  case (Cons e es)
  have fresh: "fresh_ids act es" using Cons.prems(2) by (simp add: fresh_ids_Cons)
  show ?case
  proof (cases "target \<le> length act")
    case False
    show ?thesis
    proof (cases "drain_fate w (entry_fits p users act e) skipped e")
      case (Stay skip)
      with False Cons.prems(1) Cons.IH [OF _ fresh, of skip] show ?thesis by (auto split: prod.splits)
    next
      case Gone
      with False Cons.prems(1) Cons.IH [OF _ fresh, of skipped] show ?thesis
        by (auto split: prod.splits)
    next
      case Go
      have ins: "hm_insert (qe_id e) (slot_of e) act = act @ [(qe_id e, slot_of e)]"
        using Cons.prems(2) by (simp add: hm_insert_fresh fresh_ids_Cons)
      from Go False Cons.prems(1) obtain tk' where
        sc: "drain_scan w (entry_fits p users) target skipped (act @ [(qe_id e, slot_of e)]) es =
          (q, act', tk', dr)"
        by (auto simp: ins split: prod.splits)
      from fate_Go [OF Go] have "entry_fits p users act e" by simp
      from within_caps_trans [OF within_caps_one [OF this]
          Cons.IH [OF sc fresh_ids_insert [OF Cons.prems(2)]]]
      show ?thesis .
    qed
  qed (use Cons.prems(1) in simp)
qed simp

lemma scan_within_target:
  "drain_scan w fit target skipped act es = (q, act', tk, dr) \<Longrightarrow> fresh_ids act es \<Longrightarrow>
     length act' \<le> max (length act) target"
proof (induction es arbitrary: skipped act q act' tk dr)
  case (Cons e es)
  have fresh: "fresh_ids act es" using Cons.prems(2) by (simp add: fresh_ids_Cons)
  have ins: "hm_insert (qe_id e) (slot_of e) act = act @ [(qe_id e, slot_of e)]"
    using Cons.prems(2) by (simp add: hm_insert_fresh fresh_ids_Cons)
  show ?case
    using Cons.prems(1) Cons.IH [OF _ fresh] ins
      Cons.IH [OF _ fresh_ids_insert [OF Cons.prems(2), of "slot_of e"], of skipped]
    by (auto split: if_splits fate.splits prod.splits)
qed simp

section \<open>No startable work is left\<close>

text \<open>
  An entry at the front of its trigger's line (or with no trigger) whose start nothing but a
  cap could stop.
\<close>

definition line_head :: "queue_entry list \<Rightarrow> queue_entry \<Rightarrow> bool" where
  "line_head q e \<longleftrightarrow>
     (\<exists>q1 q2. q = q1 @ e # q2 \<and>
        (\<forall>t. qe_trigger_id e = Some t \<longrightarrow> (\<forall>x \<in> set q1. qe_trigger_id x \<noteq> Some t)))"

definition startable :: "queue_world \<Rightarrow> queue_entry \<Rightarrow> bool" where
  "startable w e \<longleftrightarrow>
     \<not> trigger_admission_held w (qe_kind e) \<and>
     (\<forall>t. qe_trigger_id e = Some t \<longrightarrow> live_trigger w t)"

lemma startable_Stay:
  assumes "startable w e" "drain_fate w f skipped e = Stay skip"
    and "\<forall>t. qe_trigger_id e = Some t \<longrightarrow> t \<notin> set skipped"
  shows "\<not> f"
  using assms by (auto simp: startable_def drain_fate_def live_trigger_def split: option.splits if_splits)

lemma fate_Stay_skip:
  "drain_fate w f skipped e = Stay skip \<Longrightarrow>
     skip = skipped \<or> (\<exists>t. qe_trigger_id e = Some t \<and> skip = t # skipped)"
  by (auto simp: drain_fate_def split: option.splits if_splits)

lemma scan_work_conserving:
  assumes "startable w e"
  shows "drain_scan w (entry_fits p users) target skipped act es = (q, act', tk, dr) \<Longrightarrow>
    fresh_ids act es \<Longrightarrow> length act' < target \<Longrightarrow> q = q1 @ e # q2 \<Longrightarrow>
    \<forall>t. qe_trigger_id e = Some t \<longrightarrow>
      t \<notin> set skipped \<and> (\<forall>x \<in> set q1. qe_trigger_id x \<noteq> Some t) \<Longrightarrow>
    \<not> entry_fits p users act' e"
proof (induction es arbitrary: skipped act q act' tk dr q1)
  case Nil
  then show ?case by simp
next
  case (Cons x es)
  have fresh: "fresh_ids act es" using Cons.prems(2) by (simp add: fresh_ids_Cons)
  have below: "\<not> target \<le> length act" using Cons.prems(1,3) by auto
  show ?case
  proof (cases "drain_fate w (entry_fits p users act x) skipped x")
    case (Stay skip)
    with below Cons.prems(1) obtain q' where
      sc: "drain_scan w (entry_fits p users) target skip act es = (q', act', tk, dr)"
      and q: "q = x # q'"
      by (auto split: prod.splits)
    show ?thesis
    proof (cases q1)
      case Nil
      with q Cons.prems(4) have "x = e" by simp
      with startable_Stay [OF assms Stay [simplified \<open>x = e\<close>]] Cons.prems(5)
      have "\<not> entry_fits p users act e" by auto
      with scan_active [OF sc fresh] show ?thesis using fits_fewer by auto
    next
      case (Cons y q1')
      with q Cons.prems(4) have "q' = q1' @ e # q2" "y = x" by auto
      moreover have "\<forall>t. qe_trigger_id e = Some t \<longrightarrow>
          t \<notin> set skip \<and> (\<forall>x \<in> set q1'. qe_trigger_id x \<noteq> Some t)"
        using Cons.prems(5) fate_Stay_skip [OF Stay] \<open>q1 = y # q1'\<close> \<open>y = x\<close> by auto
      ultimately show ?thesis using Cons.IH [OF sc fresh Cons.prems(3)] by blast
    qed
  next
    case Gone
    with below Cons.prems(1) obtain dr' where
      "drain_scan w (entry_fits p users) target skipped act es = (q, act', tk, dr')"
      by (auto split: prod.splits)
    from Cons.IH [OF this fresh Cons.prems(3-5)] show ?thesis .
  next
    case Go
    have ins: "hm_insert (qe_id x) (slot_of x) act = act @ [(qe_id x, slot_of x)]"
      using Cons.prems(2) by (simp add: hm_insert_fresh fresh_ids_Cons)
    from Go below Cons.prems(1) obtain tk' where
      "drain_scan w (entry_fits p users) target skipped (act @ [(qe_id x, slot_of x)]) es =
        (q, act', tk', dr)"
      by (auto simp: ins split: prod.splits)
    from Cons.IH [OF this fresh_ids_insert [OF Cons.prems(2)] Cons.prems(3-5)] show ?thesis .
  qed
qed

lemma scan_leaves_nothing_startable:
  assumes "drain_scan w (entry_fits p users) target [] act es = (q, act', tk, dr)"
    and "fresh_ids act es" "length act' < target" "line_head q e" "startable w e"
  shows "\<not> entry_fits p users act' e"
  using assms(4) scan_work_conserving [OF assms(5,1-3)] by (auto simp: line_head_def)

section \<open>Users\<close>

text \<open>The threads that hold a user slot: a running one, or one an unseen reservation is for.\<close>

definition user_threads :: "queue_state \<Rightarrow> running_map \<Rightarrow> uuid set" where
  "user_threads s running =
     hm_keys running \<union> {ur_thread_id r | r. r \<in> snd ` set (qs_reservations s) \<and> \<not> ur_seen r}"

lemma finite_user_threads [simp]: "finite (user_threads s running)"
  by (simp add: user_threads_def hm_keys_def)

lemma unseen_card:
  "card {ur_thread_id r | r. r \<in> snd ` set (qs_reservations s) \<and> \<not> ur_seen r \<and>
      Some (ur_thread_id r) \<noteq> except} \<le> unseen_reservations s except"
proof -
  let ?rs = "filter (\<lambda>r. \<not> ur_seen r \<and> Some (ur_thread_id r) \<noteq> except) (map snd (qs_reservations s))"
  have "{ur_thread_id r | r. r \<in> snd ` set (qs_reservations s) \<and> \<not> ur_seen r \<and>
      Some (ur_thread_id r) \<noteq> except} = ur_thread_id ` set ?rs"
    by auto
  then show ?thesis
    using card_image_le [of "set ?rs" ur_thread_id] card_length [of ?rs]
    by (simp add: unseen_reservations_def)
qed

lemma user_threads_le: "card (user_threads s running) \<le> user_active s running"
proof -
  have "card (hm_keys running) \<le> length running"
    unfolding hm_keys_def using card_image_le [of "set running" fst] card_length [of running] by simp
  moreover have "card {ur_thread_id r | r. r \<in> snd ` set (qs_reservations s) \<and> \<not> ur_seen r}
      \<le> unseen_reservations s None"
    using unseen_card [of s None] by simp
  ultimately show ?thesis
    using card_Un_le [of "hm_keys running"
        "{ur_thread_id r | r. r \<in> snd ` set (qs_reservations s) \<and> \<not> ur_seen r}"]
    by (simp add: user_threads_def user_active_def)
qed

text \<open>What a thread's own share leaves of the user slots.\<close>

lemma user_threads_besides:
  assumes "hm_ok running"
  shows "card (user_threads s running - {t}) \<le> user_active_besides s running t"
proof -
  let ?R = "{ur_thread_id r | r. r \<in> snd ` set (qs_reservations s) \<and> \<not> ur_seen r}"
  let ?R' = "{ur_thread_id r | r. r \<in> snd ` set (qs_reservations s) \<and> \<not> ur_seen r \<and>
      Some (ur_thread_id r) \<noteq> Some t}"
  have keys: "card (hm_keys running) = length running"
    using assms unfolding hm_ok_def hm_keys_def by (metis distinct_card length_map set_map)
  have "user_threads s running - {t} = (hm_keys running - {t}) \<union> ?R'"
    by (auto simp: user_threads_def)
  then have "card (user_threads s running - {t}) \<le> card (hm_keys running - {t}) + card ?R'"
    by (simp add: card_Un_le)
  moreover have "card (hm_keys running - {t}) =
      length running - (if t \<in> hm_keys running then 1 else 0)"
    using keys by (simp add: card_Diff_singleton hm_keys_def)
  ultimately show ?thesis
    using unseen_card [of s "Some t"] by (simp add: user_active_besides_def)
qed

lemma user_threads_reserve:
  assumes "hm_ok (qs_reservations s)" "i \<notin> hm_keys (qs_reservations s)"
  shows "user_threads (reserve_user_slot w running i t summary s) running =
    user_threads s running \<union> {t}"
proof -
  have "hm_insert i v (qs_reservations s) = qs_reservations s @ [(i, v)]" for v
    using assms(2) by (rule hm_insert_fresh)
  then show ?thesis
    by (auto simp: user_threads_def reserve_user_slot_def Let_def)
      (rule exI [of _ "\<lparr>ur_thread_id = t, ur_summary = summary, ur_admitted_at = qw_now w,
         ur_after_seq = thread_high_water w t, ur_seen = False\<rparr>"], simp)
qed

text \<open>An admission of a user's work fills the pool at most to its ceiling, thread by thread.\<close>

lemma user_admission_bound:
  assumes "hm_ok running" "hm_ok (qs_reservations s)" "i \<notin> hm_keys (qs_reservations s)"
    and "user_can_admit (qs_policy s) (length (qs_active s) + user_active_besides s running t)"
  shows "length (qs_active s) +
      card (user_threads (reserve_user_slot w running i t summary s) running)
    \<le> max_concurrent_total (qs_policy s)"
proof -
  have "user_threads s running \<union> {t} = insert t (user_threads s running - {t})" by auto
  moreover have "card (insert t (user_threads s running - {t})) =
      Suc (card (user_threads s running - {t}))"
    by (rule card_insert_disjoint) simp_all
  ultimately have "card (user_threads s running \<union> {t}) \<le> Suc (card (user_threads s running - {t}))"
    by simp
  with user_threads_besides [OF assms(1), of s t] assms(4) show ?thesis
    by (simp add: user_threads_reserve [OF assms(2,3)] user_can_admit_def)
qed

lemma reserve_frame [queue_simps]:
  "qs_policy (reserve_user_slot w running i t summary s) = qs_policy s"
  "qs_queued (reserve_user_slot w running i t summary s) = qs_queued s"
  "qs_active (reserve_user_slot w running i t summary s) = qs_active s"
  "qs_user_queued (reserve_user_slot w running i t summary s) = qs_user_queued s"
  "hm_keys (qs_reservations (reserve_user_slot w running i t summary s)) =
     insert i (hm_keys (qs_reservations s))"
  "hm_ok (qs_reservations s) \<Longrightarrow> hm_ok (qs_reservations (reserve_user_slot w running i t summary s))"
  by (simp_all add: reserve_user_slot_def Let_def)

text \<open>The line of users, its ids distinct from each other and from the reservations'.\<close>

definition users_ok :: "queue_state \<Rightarrow> bool" where
  "users_ok s \<longleftrightarrow>
     hm_ok (qs_reservations s) \<and> distinct (map uw_entry_id (qs_user_queued s)) \<and>
     uw_entry_id ` set (qs_user_queued s) \<inter> hm_keys (qs_reservations s) = {}"

lemma drain_users_spec:
  assumes "users_ok s" "hm_ok running" "drain_users w running s = (woke, s')"
  shows "qs_policy s' = qs_policy s \<and> qs_queued s' = qs_queued s \<and> qs_active s' = qs_active s \<and>
    users_ok s' \<and>
    (\<exists>n. woke = map uw_wake (take n (qs_user_queued s)) \<and>
         qs_user_queued s' = drop n (qs_user_queued s) \<and>
         hm_keys (qs_reservations s') =
           hm_keys (qs_reservations s) \<union> uw_entry_id ` set (take n (qs_user_queued s))) \<and>
    length (qs_active s') + card (user_threads s' running) \<le>
      max (length (qs_active s) + card (user_threads s running)) (max_concurrent_total (qs_policy s)) \<and>
    (\<forall>u us. qs_user_queued s' = u # us \<longrightarrow>
       \<not> user_can_admit (qs_policy s')
          (length (qs_active s') + user_active_besides s' running (uw_thread_id u)))"
  using assms
proof (induction w running s arbitrary: woke s' rule: drain_users.induct)
  case (1 w running s)
  note prems = "1.prems"
  show ?case
  proof (cases "qs_user_queued s")
    case Nil
    with prems show ?thesis by (subst (asm) drain_users.simps) auto
  next
    case (Cons u us)
    show ?thesis
    proof (cases "user_can_admit (qs_policy s)
        (length (qs_active s) + user_active_besides s running (uw_thread_id u))")
      case False
      with Cons prems show ?thesis
        by (subst (asm) drain_users.simps) (auto intro!: exI [of _ 0])
    next
      case True
      let ?s = "reserve_user_slot w running (uw_entry_id u) (uw_thread_id u) (uw_summary u)
        (s\<lparr>qs_user_queued := us\<rparr>)"
      obtain woke' where rec: "drain_users w running ?s = (woke', s')" and woke: "woke = uw_wake u # woke'"
        using prems(3) Cons True by (subst (asm) drain_users.simps) (auto split: prod.splits)
      have fresh: "uw_entry_id u \<notin> hm_keys (qs_reservations s)" and ok: "users_ok ?s"
        using prems(1) Cons by (auto simp: users_ok_def queue_simps)
      have threads: "user_threads (s\<lparr>qs_user_queued := us\<rparr>) running = user_threads s running"
        and besides: "user_active_besides (s\<lparr>qs_user_queued := us\<rparr>) running t =
          user_active_besides s running t" for t
        by (simp_all add: user_threads_def user_active_besides_def unseen_reservations_def)
      have bound: "length (qs_active ?s) + card (user_threads ?s running) \<le>
          max_concurrent_total (qs_policy s)"
        using user_admission_bound [of running "s\<lparr>qs_user_queued := us\<rparr>" "uw_entry_id u"
            "uw_thread_id u" w "uw_summary u"] prems(1,2) fresh True besides
        by (simp add: users_ok_def queue_simps)
      have "\<not> \<not> user_can_admit (qs_policy s)
          (length (qs_active s) + user_active_besides s running (uw_thread_id u))"
        using True by simp
      note IH = "1.IH" [OF Cons this ok prems(2) rec]
      from IH obtain n where n: "woke' = map uw_wake (take n us)" "qs_user_queued s' = drop n us"
        "hm_keys (qs_reservations s') = insert (uw_entry_id u) (hm_keys (qs_reservations s)) \<union>
           uw_entry_id ` set (take n us)"
        by (auto simp: queue_simps)
      have "\<exists>n. woke = map uw_wake (take n (qs_user_queued s)) \<and>
           qs_user_queued s' = drop n (qs_user_queued s) \<and>
           hm_keys (qs_reservations s') =
             hm_keys (qs_reservations s) \<union> uw_entry_id ` set (take n (qs_user_queued s))"
        using n woke Cons by (intro exI [of _ "Suc n"]) auto
      moreover have "qs_active s' = qs_active s" "qs_policy s' = qs_policy s"
        using IH by (simp_all add: queue_simps)
      ultimately show ?thesis using IH bound by (auto simp: queue_simps)
    qed
  qed
qed

text \<open>The same, fact by fact.\<close>

lemma drain_users_frame:
  assumes "users_ok s" "hm_ok running" "drain_users w running s = (woke, s')"
  shows "qs_policy s' = qs_policy s" "qs_queued s' = qs_queued s" "qs_active s' = qs_active s"
    "users_ok s'"
  using drain_users_spec [OF assms] by blast+

lemma drain_users_line:
  assumes "users_ok s" "hm_ok running" "drain_users w running s = (woke, s')"
  shows "\<exists>n. woke = map uw_wake (take n (qs_user_queued s)) \<and>
    qs_user_queued s' = drop n (qs_user_queued s)"
  using drain_users_spec [OF assms] by blast

lemma drain_users_bound:
  assumes "users_ok s" "hm_ok running" "drain_users w running s = (woke, s')"
  shows "length (qs_active s) + card (user_threads s' running) \<le>
    max (length (qs_active s) + card (user_threads s running)) (max_concurrent_total (qs_policy s))"
proof -
  have "length (qs_active s') + card (user_threads s' running) \<le>
      max (length (qs_active s) + card (user_threads s running)) (max_concurrent_total (qs_policy s))"
    using drain_users_spec [OF assms] by blast
  then show ?thesis by (simp only: drain_users_frame(3) [OF assms])
qed

lemma drain_users_shut:
  assumes "users_ok s" "hm_ok running" "drain_users w running s = (woke, s')"
    and "qs_user_queued s' = u # us"
  shows "\<not> user_can_admit (qs_policy s)
    (length (qs_active s) + user_active_besides s' running (uw_thread_id u))"
proof -
  have "\<not> user_can_admit (qs_policy s')
      (length (qs_active s') + user_active_besides s' running (uw_thread_id u))"
    using drain_users_spec [OF assms(1-3)] assms(4) by blast
  then show ?thesis by (simp only: drain_users_frame(1,3) [OF assms(1-3)] not_False_eq_True)
qed

end
