(* ===== verification/Queue_Runs.thy ===== *)
theory Queue_Runs
  imports Queue_Caps
begin

text \<open>
  The Thread Queue as a whole: its invariant, what every operation keeps of it, and the three
  phases of a drain taken apart, so that the properties need only the lemmas of the scan.
\<close>

section \<open>The invariant\<close>

definition queue_ok :: "queue_state \<Rightarrow> bool" where
  "queue_ok s \<longleftrightarrow>
     fresh_ids (qs_active s) (qs_queued s) \<and> hm_ok (qs_active s) \<and>
     list_all entry_ok (qs_queued s) \<and> users_ok s"

text \<open>\<open>thread_summaries\<close> has one row per thread.\<close>

definition world_ok :: "queue_world \<Rightarrow> bool" where
  "world_ok w \<longleftrightarrow>
     (case qw_running w of None \<Rightarrow> True | Some rows \<Rightarrow> distinct (map row_thread_id rows))"

lemma queue_ok_new [simp]: "queue_ok (queue_new p)"
  by (simp add: queue_ok_def queue_new_def fresh_ids_def users_ok_def)

lemma mark_seen_frame [queue_simps]:
  "qs_policy (mark_seen f s) = qs_policy s" "qs_queued (mark_seen f s) = qs_queued s"
  "qs_active (mark_seen f s) = qs_active s" "qs_user_queued (mark_seen f s) = qs_user_queued s"
  "hm_keys (qs_reservations (mark_seen f s)) = hm_keys (qs_reservations s)"
  "hm_ok (qs_reservations (mark_seen f s)) = hm_ok (qs_reservations s)"
  by (simp_all add: mark_seen_def hm_keys_def hm_ok_def image_image split_def comp_def)

lemma read_frame:
  assumes "read_user_occupancy w candidate s = (running, s')"
  shows "qs_policy s' = qs_policy s" "qs_queued s' = qs_queued s" "qs_active s' = qs_active s"
    "qs_user_queued s' = qs_user_queued s"
    "hm_keys (qs_reservations s') = hm_keys (qs_reservations s)"
    "hm_ok (qs_reservations s') = hm_ok (qs_reservations s)"
  using assms
  by (auto simp: read_user_occupancy_def Let_def queue_simps split: option.splits)

lemma read_running_ok:
  assumes "read_user_occupancy w candidate s = (running, s')" "world_ok w"
  shows "hm_ok running"
proof (cases "qw_running w")
  case None
  with assms(1) show ?thesis by (simp add: read_user_occupancy_def)
next
  case (Some rows)
  with assms(2) have "distinct (map row_thread_id (filter P rows))" for P
    by (intro distinct_map_filterI) (simp add: world_ok_def)
  with assms(1) Some show ?thesis
    by (auto simp: read_user_occupancy_def Let_def hm_ok_def comp_def)
qed

lemma queue_ok_read:
  "queue_ok s \<Longrightarrow> read_user_occupancy w candidate s = (running, s') \<Longrightarrow> queue_ok s'"
  using read_frame [of w candidate s running s'] by (simp add: queue_ok_def users_ok_def)

section \<open>A drain in three phases\<close>

lemma drain_background_from_start:
  "drain_background_into w running target [] 0 s adm drp =
     (case drain_scan w (entry_fits (qs_policy s) (user_active s running)) target []
        (qs_active s) (qs_queued s) of
        (q, act, tk, dr) \<Rightarrow> (s\<lparr>qs_queued := q, qs_active := act\<rparr>, adm @ map started tk,
          drp @ map (\<lambda>e. (e, no_trigger)) dr))"
  using drain_background_scan [of s "[]" "qs_queued s" w running target "[]" adm drp] by simp

lemma drain_phases:
  assumes "drain_state w s = ((adm, drp, woke), s')"
  obtains running s0 q1 a1 tk1 dr1 s2 q2 a2 tk2 dr2 where
    "read_user_occupancy w None s = (running, s0)"
    "drain_scan w (entry_fits (qs_policy s0) (user_active s0 running))
       (effective_reserved_background (qs_policy s0)) [] (qs_active s0) (qs_queued s0) =
       (q1, a1, tk1, dr1)"
    "drain_users w running (s0\<lparr>qs_queued := q1, qs_active := a1\<rparr>) = (woke, s2)"
    "drain_scan w (entry_fits (qs_policy s2) (user_active s2 running)) usize_max []
       (qs_active s2) (qs_queued s2) = (q2, a2, tk2, dr2)"
    "s' = s2\<lparr>qs_queued := q2, qs_active := a2\<rparr>"
    "adm = map started (tk1 @ tk2)" "drp = map (\<lambda>e. (e, no_trigger)) (dr1 @ dr2)"
proof -
  obtain running s0 where r: "read_user_occupancy w None s = (running, s0)"
    by (rule prod.exhaust)
  obtain q1 a1 tk1 dr1 where sc1: "drain_scan w (entry_fits (qs_policy s0) (user_active s0 running))
       (effective_reserved_background (qs_policy s0)) [] (qs_active s0) (qs_queued s0) =
       (q1, a1, tk1, dr1)"
    by (rule prod_cases4)
  obtain woke' s2 where u:
    "drain_users w running (s0\<lparr>qs_queued := q1, qs_active := a1\<rparr>) = (woke', s2)"
    by (rule prod.exhaust)
  obtain q2 a2 tk2 dr2 where sc2: "drain_scan w (entry_fits (qs_policy s2) (user_active s2 running))
       usize_max [] (qs_active s2) (qs_queued s2) = (q2, a2, tk2, dr2)"
    by (rule prod_cases4)
  have "drain_state w s =
      ((map started (tk1 @ tk2), map (\<lambda>e. (e, no_trigger)) (dr1 @ dr2), woke'),
       s2\<lparr>qs_queued := q2, qs_active := a2\<rparr>)"
    unfolding drain_state_def Let_def r prod.case drain_background_from_start sc1 u sc2
    by simp
  with assms have "s' = s2\<lparr>qs_queued := q2, qs_active := a2\<rparr>" "woke' = woke"
    "adm = map started (tk1 @ tk2)" "drp = map (\<lambda>e. (e, no_trigger)) (dr1 @ dr2)"
    by simp_all
  with that r sc1 u sc2 show ?thesis by blast
qed

lemma fresh_after_scan:
  assumes "drain_scan w fit target [] act es = (q, act', tk, dr)" "fresh_ids act es" "hm_ok act"
  shows "fresh_ids act' q \<and> hm_ok act'"
proof -
  have m: "mset es = mset q + mset tk + mset dr" using scan_conserves [OF assms(1)] .
  have "mset (map qe_id es) = mset (map qe_id (q @ tk @ dr))"
    using m by (simp add: add.assoc)
  then have "distinct (map qe_id (q @ tk @ dr))"
    using assms(2) mset_eq_imp_distinct_iff unfolding fresh_ids_def by blast
  moreover have "set q \<union> set tk \<subseteq> set es"
    using m by (metis Un_iff set_mset_mset set_mset_union subsetI)
  ultimately show ?thesis
    using assms(2,3) scan_active [OF assms(1,2)]
    by (auto simp: fresh_ids_def hm_ok_def hm_keys_def comp_def)
qed

lemma scan_list_all:
  "drain_scan w fit target [] act es = (q, act', tk, dr) \<Longrightarrow> list_all P es \<Longrightarrow> list_all P q"
  using scan_conserves [of w fit target "[]" act es q act' tk dr]
  by (metis Un_iff list_all_iff set_mset_mset set_mset_union)

text \<open>Everything the three phases do, in one place.\<close>

lemma drain_facts:
  assumes "queue_ok s" "world_ok w" "drain_state w s = ((adm, drp, woke), s')"
  obtains running s0 tk1 dr1 s1 s2 tk2 dr2 where
    "read_user_occupancy w None s = (running, s0)" "queue_ok s0" "hm_ok running"
    "drain_scan w (entry_fits (qs_policy s) (user_active s0 running))
       (effective_reserved_background (qs_policy s)) [] (qs_active s) (qs_queued s) =
       (qs_queued s1, qs_active s1, tk1, dr1)"
    "s1 = s0\<lparr>qs_queued := qs_queued s1, qs_active := qs_active s1\<rparr>"
    "drain_users w running s1 = (woke, s2)" "queue_ok s1" "queue_ok s2"
    "drain_scan w (entry_fits (qs_policy s) (user_active s2 running)) usize_max []
       (qs_active s1) (qs_queued s1) = (qs_queued s', qs_active s', tk2, dr2)"
    "s' = s2\<lparr>qs_queued := qs_queued s', qs_active := qs_active s'\<rparr>" "queue_ok s'"
    "adm = map started (tk1 @ tk2)" "drp = map (\<lambda>e. (e, no_trigger)) (dr1 @ dr2)"
    "qs_queued s2 = qs_queued s1" "qs_active s2 = qs_active s1" "qs_policy s2 = qs_policy s"
    "qs_policy s' = qs_policy s"
proof -
  obtain running s0 q1 a1 tk1 dr1 s2 q2 a2 tk2 dr2 where
    r: "read_user_occupancy w None s = (running, s0)" and
    sc1: "drain_scan w (entry_fits (qs_policy s0) (user_active s0 running))
       (effective_reserved_background (qs_policy s0)) [] (qs_active s0) (qs_queued s0) =
       (q1, a1, tk1, dr1)" and
    u: "drain_users w running (s0\<lparr>qs_queued := q1, qs_active := a1\<rparr>) = (woke, s2)" and
    sc2: "drain_scan w (entry_fits (qs_policy s2) (user_active s2 running)) usize_max []
       (qs_active s2) (qs_queued s2) = (q2, a2, tk2, dr2)" and
    out: "s' = s2\<lparr>qs_queued := q2, qs_active := a2\<rparr>"
      "adm = map started (tk1 @ tk2)" "drp = map (\<lambda>e. (e, no_trigger)) (dr1 @ dr2)"
    by (rule drain_phases [OF assms(3)])
  define s1 where "s1 = s0\<lparr>qs_queued := q1, qs_active := a1\<rparr>"
  have ok0: "queue_ok s0" using queue_ok_read [OF assms(1) r] .
  have hm: "hm_ok running" using read_running_ok [OF r assms(2)] .
  note frame = read_frame(1-3) [OF r]
  have ok1: "queue_ok s1"
    using fresh_after_scan [OF sc1] scan_list_all [OF sc1, of entry_ok] ok0
    by (auto simp: queue_ok_def s1_def users_ok_def)
  have spec: "qs_policy s2 = qs_policy s1" "qs_queued s2 = qs_queued s1"
      "qs_active s2 = qs_active s1" "users_ok s2"
    using drain_users_spec [of s1 running w woke s2] ok1 hm u
    by (auto simp: queue_ok_def s1_def)
  have ok2: "queue_ok s2" using ok1 spec by (simp add: queue_ok_def)
  have ok': "queue_ok s'"
    using fresh_after_scan [OF sc2] scan_list_all [OF sc2, of entry_ok] ok2 out(1)
    by (auto simp: queue_ok_def users_ok_def)
  show ?thesis
  proof (rule that [OF r ok0 hm, of s1 tk1 dr1 s2 tk2 dr2])
    show "drain_scan w (entry_fits (qs_policy s) (user_active s0 running))
       (effective_reserved_background (qs_policy s)) [] (qs_active s) (qs_queued s) =
       (qs_queued s1, qs_active s1, tk1, dr1)"
      using sc1 frame by (simp add: s1_def)
    show "drain_scan w (entry_fits (qs_policy s) (user_active s2 running)) usize_max []
       (qs_active s1) (qs_queued s1) = (qs_queued s', qs_active s', tk2, dr2)"
      using sc2 spec frame out(1) by (simp add: s1_def)
  qed (use u ok1 ok2 ok' out spec frame in \<open>simp_all add: s1_def\<close>)
qed

lemma queue_ok_drain:
  assumes "queue_ok s" "world_ok w"
  shows "queue_ok (snd (drain w s))"
proof -
  obtain x s' where "drain_state w s = (x, s')" by (rule prod.exhaust)
  moreover obtain adm drp woke where "x = (adm, drp, woke)" by (rule prod_cases3)
  ultimately have d: "drain_state w s = ((adm, drp, woke), s')" by simp
  have "queue_ok s'" by (rule drain_facts [OF assms d])
  with d show ?thesis by (simp add: drain_def)
qed

end
