(* ===== verification/Queue_Drain_Properties.thy ===== *)
theory Queue_Drain_Properties
  imports Queue_Runs
begin

text \<open>
  The properties of a drain: it keeps every line in order and loses nothing, it never lifts the
  pool over a cap, it leaves no work that could start, and background work reclaims its floor
  before people do while people go before the rest.
\<close>

lemma started_sel [simp]:
  "qe_trigger_id (started e) = qe_trigger_id e" "qe_kind (started e) = qe_kind e"
  "qe_id (started e) = qe_id e"
  by (simp_all add: started_def)

lemma of_trigger_started: "of_trigger t (map started es) = map started (of_trigger t es)"
  by (simp add: filter_map comp_def)

lemma two_fronts:
  assumes "q1 = drop n1 q" "x1 @ y1 = take n1 q" "q2 = drop n2 q1" "x2 @ y2 = take n2 q1"
    and "x1 @ x2 = [] \<or> y1 @ y2 = []"
  shows "\<exists>n. q2 = drop n q \<and> (x1 @ x2) @ (y1 @ y2) = take n q"
proof -
  have "take (n1 + n2) q = take n1 q @ take n2 q1"
    by (metis assms(1) take_add)
  moreover have "q2 = drop (n1 + n2) q"
    using assms(1,3) by (simp add: add.commute)
  ultimately show ?thesis using assms(2,4,5) by (intro exI [of _ "n1 + n2"]) auto
qed

text \<open>C1. A drain keeps each trigger's fires in order and loses none. Whatever is held, paused,
  deleted, full or unreadable, what it takes out of a trigger's line is the front of that line,
  in order, either all started or (when the trigger is gone) all dropped, and the rest stays
  in order. Every entry ends up queued, started or dropped; only entries of deleted triggers are
  dropped, nothing held or paused is started, and people are woken in arrival order.\<close>

theorem drain_keeps_lines:
  assumes "queue_ok s" "world_ok w" "drain_state w s = ((adm, drp, woke), s')"
  shows "(\<forall>t. \<exists>n. of_trigger t (qs_queued s') = drop n (of_trigger t (qs_queued s)) \<and>
        of_trigger t adm @ of_trigger t (map (started \<circ> fst) drp) =
          map started (take n (of_trigger t (qs_queued s)))) \<and>
    mset (map started (qs_queued s)) =
      mset (map started (qs_queued s')) + mset adm + mset (map (started \<circ> fst) drp) \<and>
    subseq (qs_queued s') (qs_queued s) \<and>
    (\<forall>e \<in> set adm. startable w e) \<and>
    (\<forall>d \<in> set drp. \<exists>t. qe_trigger_id (fst d) = Some t \<and> deleted_trigger w t) \<and>
    (\<exists>n. woke = map uw_wake (take n (qs_user_queued s)) \<and>
       qs_user_queued s' = drop n (qs_user_queued s))"
proof (rule drain_facts [OF assms])
  fix running s0 tk1 dr1 s1 s2 tk2 dr2
  assume r: "read_user_occupancy w None s = (running, s0)"
    and hm: "hm_ok running"
    and sc1: "drain_scan w (entry_fits (qs_policy s) (user_active s0 running))
       (effective_reserved_background (qs_policy s)) [] (qs_active s) (qs_queued s) =
       (qs_queued s1, qs_active s1, tk1, dr1)"
    and s1: "s1 = s0\<lparr>qs_queued := qs_queued s1, qs_active := qs_active s1\<rparr>"
    and u: "drain_users w running s1 = (woke, s2)" and ok1: "queue_ok s1"
    and sc2: "drain_scan w (entry_fits (qs_policy s) (user_active s2 running)) usize_max []
       (qs_active s1) (qs_queued s1) = (qs_queued s', qs_active s', tk2, dr2)"
    and s': "s' = s2\<lparr>qs_queued := qs_queued s', qs_active := qs_active s'\<rparr>"
    and out: "adm = map started (tk1 @ tk2)" "drp = map (\<lambda>e. (e, no_trigger)) (dr1 @ dr2)"
  have ok: "list_all entry_ok (qs_queued s)" "list_all entry_ok (qs_queued s1)"
    using assms(1) ok1 by (simp_all add: queue_ok_def)
  have taken: "startable w e" if "e \<in> set (tk1 @ tk2)" for e
    using that scan_taken [OF sc1] scan_taken [OF sc2] by (auto simp: startable_def)
  have dropped: "\<exists>t. qe_trigger_id e = Some t \<and> deleted_trigger w t" if "e \<in> set (dr1 @ dr2)" for e
    using that scan_dropped [OF sc1] scan_dropped [OF sc2] by auto
  have line: "\<exists>n. of_trigger t (qs_queued s') = drop n (of_trigger t (qs_queued s)) \<and>
      of_trigger t (tk1 @ tk2) @ of_trigger t (dr1 @ dr2) = take n (of_trigger t (qs_queued s))" for t
  proof -
    have one_way: "of_trigger t tk1 @ of_trigger t tk2 = [] \<or> of_trigger t dr1 @ of_trigger t dr2 = []"
    proof (cases "deleted_trigger w t")
      case True
      then show ?thesis using taken live_not_deleted by (fastforce simp: filter_empty_conv startable_def)
    next
      case False
      then show ?thesis using dropped by (fastforce simp: filter_empty_conv)
    qed
    obtain n1 where n1: "of_trigger t (qs_queued s1) = drop n1 (of_trigger t (qs_queued s))"
      "of_trigger t tk1 @ of_trigger t dr1 = take n1 (of_trigger t (qs_queued s))"
      using scan_fifo [OF sc1 ok(1)] by blast
    obtain n2 where n2: "of_trigger t (qs_queued s') = drop n2 (of_trigger t (qs_queued s1))"
      "of_trigger t tk2 @ of_trigger t dr2 = take n2 (of_trigger t (qs_queued s1))"
      using scan_fifo [OF sc2 ok(2)] by blast
    from two_fronts [OF n1 n2 one_way] show ?thesis by simp
  qed
  have drp_map: "map (started \<circ> fst) drp = map started (dr1 @ dr2)"
    by (simp add: out(2) comp_def)
  have "mset (qs_queued s) = mset (qs_queued s') + mset (tk1 @ tk2) + mset (dr1 @ dr2)"
    using scan_conserves [OF sc1] scan_conserves [OF sc2] by simp
  then have "mset (map started (qs_queued s)) =
      mset (map started (qs_queued s')) + mset adm + mset (map (started \<circ> fst) drp)"
    unfolding drp_map out(1) mset_map by (simp only: image_mset_union)
  moreover have "\<exists>n. of_trigger t (qs_queued s') = drop n (of_trigger t (qs_queued s)) \<and>
      of_trigger t adm @ of_trigger t (map (started \<circ> fst) drp) =
        map started (take n (of_trigger t (qs_queued s)))" for t
    using line [of t] unfolding drp_map out(1) of_trigger_started
    by (metis map_append)
  moreover have "subseq (qs_queued s') (qs_queued s)"
    using scan_subseq [OF sc1] scan_subseq [OF sc2] by (rule subseq_order.order_trans [rotated])
  moreover have "startable w e" if "e \<in> set adm" for e
    using that taken by (auto simp: out(1) startable_def) blast+
  moreover have "\<exists>t. qe_trigger_id (fst d) = Some t \<and> deleted_trigger w t" if "d \<in> set drp" for d
    using that dropped by (auto simp: out(2))
  moreover have "\<exists>n. woke = map uw_wake (take n (qs_user_queued s)) \<and>
      qs_user_queued s' = drop n (qs_user_queued s)"
  proof -
    have "qs_user_queued s1 = qs_user_queued s" by (subst s1) (simp add: read_frame(4) [OF r])
    moreover have "qs_user_queued s' = qs_user_queued s2" by (subst s') simp
    moreover have "users_ok s1" using ok1 by (simp add: queue_ok_def)
    ultimately show ?thesis using drain_users_line [OF _ hm u] by simp
  qed
  ultimately show ?thesis by blast
qed

text \<open>A small queue to evaluate: two fires of one trigger, nothing running.\<close>

definition demo_fire :: "uuid \<Rightarrow> queue_entry" where
  "demo_fire i =
     \<lparr>qe_id = i, qe_kind = Cron, qe_trigger_id = Some ''daily'', qe_trigger_name = None,
      qe_thread_id = None, qe_summary = ''daily (scheduled)'',
      qe_request = CronReq \<lparr>cr_trigger_id = ''daily'', cr_retry_of = None\<rparr>,
      qe_queued_at = 0, qe_cancel = None, qe_completion = Some i\<rparr>"

definition demo_world :: queue_world where
  "demo_world =
     \<lparr>qw_registry = Some (\<lambda>t. if t = ''daily'' then Some \<lparr>tc_name = ''Daily'', tc_paused = False\<rparr>
                            else None),
      qw_boot_recovery = False, qw_shutting_down = False, qw_executor = True,
      qw_prepared = (\<lambda>r. None), qw_running = Some [], qw_turn_started = Some (\<lambda>t n. False),
      qw_high_water = (\<lambda>t. Some 0), qw_now = 0, qw_clock = 0\<rparr>"

definition demo_queue :: queue_state where
  "demo_queue = (queue_new capacity_policy_default)\<lparr>qs_queued := [demo_fire 1, demo_fire 2]\<rparr>"

lemma demo_ok: "queue_ok demo_queue" "world_ok demo_world"
  by (simp_all add: queue_ok_def demo_queue_def queue_new_def fresh_ids_def users_ok_def
      demo_fire_def entry_ok_def world_ok_def demo_world_def hm_keys_def)

definition demo_drained :: queue_state where
  "demo_drained = demo_queue\<lparr>qs_queued := [demo_fire 2], qs_active := [(1, slot_of (demo_fire 1))]\<rparr>"

lemma demo_read: "read_user_occupancy demo_world None demo_queue = ([], demo_queue)"
  by (simp add: read_user_occupancy_def demo_world_def mark_seen_def demo_queue_def queue_new_def
      Let_def)

lemma demo_drain:
  "drain_state demo_world demo_queue = (([started (demo_fire 1)], [], []), demo_drained)"
proof -
  have sel: "qs_queued demo_queue = [demo_fire 1, demo_fire 2]" "qs_active demo_queue = []"
    "qs_policy demo_queue = capacity_policy_default" "qs_user_queued demo_queue = []"
    "qs_reservations demo_queue = []"
    by (simp_all add: demo_queue_def queue_new_def)
  have users: "user_active demo_queue [] = 0"
    by (simp add: user_active_def unseen_reservations_def sel)
  have fate: "drain_fate demo_world f [] (demo_fire i) = (if f then Go else Stay [''daily''])" for f i
    by (simp add: drain_fate_def demo_fire_def demo_world_def trigger_admission_held_def)
  have fits: "entry_fits capacity_policy_default 0 [] (demo_fire i)"
    "\<not> entry_fits capacity_policy_default 0 [(1, slot_of (demo_fire 1))] (demo_fire i)" for i
    by (auto simp: background_fits_def capacity_policy_default_def kind_count_def trigger_count_def
        demo_fire_def slot_of_def)
  have first: "drain_scan demo_world (entry_fits capacity_policy_default 0) 8 [] []
      [demo_fire 1, demo_fire 2] =
      ([demo_fire 2], [(1, slot_of (demo_fire 1))], [demo_fire 1], [])"
    using fits by (simp add: fate) (simp add: demo_fire_def)
  have second: "drain_scan demo_world (entry_fits capacity_policy_default 0) usize_max []
      [(1, slot_of (demo_fire 1))] [demo_fire 2] =
      ([demo_fire 2], [(1, slot_of (demo_fire 1))], [], [])"
    using fits by (simp add: fate usize_max_def)
  have users2: "drain_users demo_world [] (demo_queue\<lparr>qs_queued := q, qs_active := a\<rparr>) =
      ([], demo_queue\<lparr>qs_queued := q, qs_active := a\<rparr>)" for q a
    by (simp add: drain_users.simps [of demo_world] sel)
  have floor: "effective_reserved_background capacity_policy_default = 8"
    by (simp add: effective_reserved_background_def capacity_policy_default_def)
  show ?thesis
    by (simp add: drain_state_def demo_read drain_background_from_start sel users first users2
        second floor queue_simps demo_drained_def del: drain_scan.simps One_nat_def)
qed

theorem drain_keeps_lines_witness:
  "\<exists>n. of_trigger ''daily'' (qs_queued demo_drained) =
     drop n (of_trigger ''daily'' [demo_fire 1, demo_fire 2])"
proof -
  have "qs_queued demo_queue = [demo_fire 1, demo_fire 2]" by (simp add: demo_queue_def)
  with drain_keeps_lines [OF demo_ok demo_drain] show ?thesis by metis
qed

section \<open>Caps\<close>

lemma user_threads_frame [queue_simps]:
  "user_threads (s\<lparr>qs_queued := q\<rparr>) running = user_threads s running"
  "user_threads (s\<lparr>qs_active := a\<rparr>) running = user_threads s running"
  by (simp_all add: user_threads_def)

lemma besides_frame [queue_simps]:
  "user_active_besides (s\<lparr>qs_queued := q\<rparr>) running t = user_active_besides s running t"
  "user_active_besides (s\<lparr>qs_active := a\<rparr>) running t = user_active_besides s running t"
  by (simp_all add: user_active_besides_def unseen_reservations_def)

lemma within_caps_pool:
  assumes "within_caps p users act act'" "c \<le> users" "length act \<le> length act'"
  shows "length act' + c \<le> max (length act + c) (max_concurrent_total p)"
  using assms by (auto simp: within_caps_def)

lemma max_chain: "(a::nat) \<le> max b m \<Longrightarrow> c \<le> max a m \<Longrightarrow> c \<le> max b m"
  by simp

lemma within_caps_users:
  assumes "within_caps p users act act'" "within_caps p users' act' act''"
  shows "kind_count k act'' \<le> max (kind_count k act) (cap_for_kind p k)"
    and "trigger_count t act'' \<le> max (trigger_count t act) (max_concurrent_per_trigger p)"
proof -
  have "kind_count k act' \<le> max (kind_count k act) (cap_for_kind p k)"
    "kind_count k act'' \<le> max (kind_count k act') (cap_for_kind p k)"
    using assms unfolding within_caps_def by blast+
  then show "kind_count k act'' \<le> max (kind_count k act) (cap_for_kind p k)" by (rule max_chain)
  have "trigger_count t act' \<le> max (trigger_count t act) (max_concurrent_per_trigger p)"
    "trigger_count t act'' \<le> max (trigger_count t act') (max_concurrent_per_trigger p)"
    using assms unfolding within_caps_def by blast+
  then show "trigger_count t act'' \<le> max (trigger_count t act) (max_concurrent_per_trigger p)"
    by (rule max_chain)
qed

text \<open>C2. A drain never overfills the pool. With user occupancy as the drain read it, the running
  background work and the threads of people together end no higher than they were, or than
  \<open>max_concurrent_total\<close>; each kind ends no higher than it was or than its cap, and each
  trigger than the per-trigger cap.\<close>

theorem drain_within_caps:
  assumes "queue_ok s" "world_ok w" "drain_state w s = ((adm, drp, woke), s')"
    and "read_user_occupancy w None s = (running, s0)"
  shows "length (qs_active s') + card (user_threads s' running) \<le>
      max (length (qs_active s) + card (user_threads s0 running)) (max_concurrent_total (qs_policy s)) \<and>
    (\<forall>k. kind_count k (qs_active s') \<le>
       max (kind_count k (qs_active s)) (cap_for_kind (qs_policy s) k)) \<and>
    (\<forall>t. trigger_count t (qs_active s') \<le>
       max (trigger_count t (qs_active s)) (max_concurrent_per_trigger (qs_policy s)))"
proof (rule drain_facts [OF assms(1-3)])
  fix running' s0' tk1 dr1 s1 s2 tk2 dr2
  assume r: "read_user_occupancy w None s = (running', s0')" and hm': "hm_ok running'"
    and sc1: "drain_scan w (entry_fits (qs_policy s) (user_active s0' running'))
       (effective_reserved_background (qs_policy s)) [] (qs_active s) (qs_queued s) =
       (qs_queued s1, qs_active s1, tk1, dr1)"
    and s1: "s1 = s0'\<lparr>qs_queued := qs_queued s1, qs_active := qs_active s1\<rparr>"
    and u': "drain_users w running' s1 = (woke, s2)" and ok1: "queue_ok s1"
    and sc2: "drain_scan w (entry_fits (qs_policy s) (user_active s2 running')) usize_max []
       (qs_active s1) (qs_queued s1) = (qs_queued s', qs_active s', tk2, dr2)"
    and s': "s' = s2\<lparr>qs_queued := qs_queued s', qs_active := qs_active s'\<rparr>"
    and eq: "qs_active s2 = qs_active s1" "qs_policy s2 = qs_policy s"
  have same: "running' = running" "s0' = s0" using r assms(4) by simp_all
  note hm = hm' [unfolded same]
  note u = u' [unfolded same]
  have fresh: "fresh_ids (qs_active s) (qs_queued s)" "fresh_ids (qs_active s1) (qs_queued s1)"
    using assms(1) ok1 by (simp_all add: queue_ok_def)
  have caps1: "within_caps (qs_policy s) (user_active s0 running) (qs_active s) (qs_active s1)"
    using scan_within_caps [OF sc1 fresh(1)] same by simp
  have caps2: "within_caps (qs_policy s) (user_active s2 running) (qs_active s1) (qs_active s')"
    using scan_within_caps [OF sc2 fresh(2)] same by simp
  have len: "length (qs_active s) \<le> length (qs_active s1)"
      "length (qs_active s1) \<le> length (qs_active s')"
    using scan_active [OF sc1 fresh(1)] scan_active [OF sc2 fresh(2)] by simp_all
  have t1: "user_threads s1 running = user_threads s0 running"
    by (subst s1) (simp add: queue_simps same)
  have t2: "user_threads s' running = user_threads s2 running"
    by (subst s') (simp add: queue_simps)
  have uok: "users_ok s1" using ok1 by (simp add: queue_ok_def)
  have policy: "qs_policy s1 = qs_policy s" using drain_users_frame(1) [OF uok hm u] eq(2) by simp
  have users: "length (qs_active s1) + card (user_threads s2 running) \<le>
      max (length (qs_active s1) + card (user_threads s0 running)) (max_concurrent_total (qs_policy s))"
    using drain_users_bound [OF uok hm u] by (simp only: t1 policy)
  have p1: "length (qs_active s1) + card (user_threads s0 running) \<le>
      max (length (qs_active s) + card (user_threads s0 running)) (max_concurrent_total (qs_policy s))"
    using within_caps_pool [OF caps1 user_threads_le len(1)] .
  have p2: "length (qs_active s') + card (user_threads s2 running) \<le>
      max (length (qs_active s1) + card (user_threads s2 running)) (max_concurrent_total (qs_policy s))"
    using within_caps_pool [OF caps2 user_threads_le len(2)] .
  have "length (qs_active s') + card (user_threads s' running) \<le>
      max (length (qs_active s) + card (user_threads s0 running)) (max_concurrent_total (qs_policy s))"
    unfolding t2 by (rule max_chain [OF max_chain [OF p1 users] p2])
  then show ?thesis using within_caps_users [OF caps1 caps2] by blast
qed

theorem drain_within_caps_witness: "trigger_count ''daily'' (qs_active demo_drained) \<le> 1"
proof -
  have "max (trigger_count ''daily'' (qs_active demo_queue))
      (max_concurrent_per_trigger (qs_policy demo_queue)) = 1"
    by (simp add: demo_queue_def queue_new_def capacity_policy_default_def trigger_count_def)
  with drain_within_caps [OF demo_ok demo_drain demo_read] show ?thesis by metis
qed

section \<open>Work conservation and priority\<close>



text \<open>The state a drain's first phase leaves, with the occupancy the whole drain works on.\<close>

definition drain_reclaimed :: "queue_world \<Rightarrow> queue_state \<Rightarrow> running_map \<times> queue_state \<times> queue_state" where
  "drain_reclaimed w s =
     (let (running, s0) = read_user_occupancy w None s;
          (s1, adm, drp) =
            drain_background_into w running (effective_reserved_background (qs_policy s0)) [] 0 s0 [] []
      in (running, s0, s1))"

text \<open>Background work reclaims its floor before people. Whenever a drain wakes anyone, at that
  moment background work held its reserved floor already, or nothing that waited in it could
  have started; and the people it wakes are admitted on that very state, before the rest of the
  background backlog.\<close>

theorem people_wait_for_the_floor_only:
  assumes "queue_ok s" "world_ok w" "drain_state w s = ((adm, drp, woke), s')"
    and "drain_reclaimed w s = (running, s0, s1)" "woke \<noteq> []"
  shows "woke = fst (drain_users w running s1) \<and> prefix (qs_active s1) (qs_active s') \<and>
    (effective_reserved_background (qs_policy s) \<le> length (qs_active s1) \<or>
     (\<forall>e. line_head (qs_queued s1) e \<longrightarrow> startable w e \<longrightarrow>
        \<not> entry_fits (qs_policy s) (user_active s0 running) (qs_active s1) e))"
proof (rule drain_facts [OF assms(1-3)])
  fix running' s0' tk1 dr1 s1' s2 tk2 dr2
  assume r: "read_user_occupancy w None s = (running', s0')" and ok0: "queue_ok s0'"
    and sc1: "drain_scan w (entry_fits (qs_policy s) (user_active s0' running'))
       (effective_reserved_background (qs_policy s)) [] (qs_active s) (qs_queued s) =
       (qs_queued s1', qs_active s1', tk1, dr1)"
    and s1': "s1' = s0'\<lparr>qs_queued := qs_queued s1', qs_active := qs_active s1'\<rparr>"
    and u: "drain_users w running' s1' = (woke, s2)" and ok1: "queue_ok s1'"
    and sc2: "drain_scan w (entry_fits (qs_policy s) (user_active s2 running')) usize_max []
       (qs_active s1') (qs_queued s1') = (qs_queued s', qs_active s', tk2, dr2)"
  have fresh: "fresh_ids (qs_active s) (qs_queued s)" "fresh_ids (qs_active s1') (qs_queued s1')"
    using assms(1) ok1 by (simp_all add: queue_ok_def)
  have "drain_reclaimed w s = (running', s0', s0'\<lparr>qs_queued := qs_queued s1', qs_active := qs_active s1'\<rparr>)"
    using r sc1 read_frame(1-3) [OF r] by (simp add: drain_reclaimed_def drain_background_from_start)
  with assms(4) s1' have same: "running' = running" "s0' = s0" "s1' = s1" by simp_all
  have "\<not> entry_fits (qs_policy s) (user_active s0 running) (qs_active s1) e"
    if "length (qs_active s1) < effective_reserved_background (qs_policy s)"
      "line_head (qs_queued s1) e" "startable w e" for e
    using scan_leaves_nothing_startable [OF sc1 fresh(1)] that same by blast
  moreover have "prefix (qs_active s1) (qs_active s')"
    using scan_active [OF sc2 fresh(2)] same by simp
  ultimately show ?thesis using u same by (auto simp: not_le)
qed

definition demo_waiting :: queue_state where
  "demo_waiting = (queue_new capacity_policy_default)\<lparr>qs_user_queued :=
     [\<lparr>uw_entry_id = 5, uw_thread_id = 6, uw_summary = ''hello'', uw_queued_at = 0, uw_wake = 7\<rparr>]\<rparr>"

theorem people_wait_for_the_floor_only_witness:
  "\<exists>running s0 s1. drain_reclaimed demo_world demo_waiting = (running, s0, s1) \<and>
     fst (drain_users demo_world running s1) = [7]"
proof -
  have ok: "queue_ok demo_waiting"
    by (simp add: demo_waiting_def queue_ok_def queue_new_def fresh_ids_def users_ok_def hm_keys_def)
  have r: "read_user_occupancy demo_world None demo_waiting = ([], demo_waiting)"
    by (simp add: read_user_occupancy_def demo_world_def mark_seen_def demo_waiting_def queue_new_def
        Let_def)
  have floor: "drain_reclaimed demo_world demo_waiting = ([], demo_waiting, demo_waiting)"
    by (simp add: drain_reclaimed_def r drain_background_from_start)
       (simp add: demo_waiting_def queue_new_def)
  have users: "drain_users demo_world [] demo_waiting = ([7], snd (drain_users demo_world [] demo_waiting))"
    by (simp add: demo_waiting_def queue_new_def drain_users.simps [of demo_world] user_can_admit_def
        user_active_besides_def unseen_reservations_def capacity_policy_default_def split_def
        reserve_user_slot_def Let_def)
  obtain adm drp woke s' where d: "drain_state demo_world demo_waiting = ((adm, drp, woke), s')"
  proof -
    obtain x s' where "drain_state demo_world demo_waiting = (x, s')" by (rule prod.exhaust)
    moreover obtain adm drp woke where "x = (adm, drp, woke)" by (rule prod_cases3)
    ultimately show ?thesis using that by simp
  qed
  have same: "demo_waiting\<lparr>qs_queued := [], qs_active := []\<rparr> = demo_waiting"
    "qs_queued demo_waiting = []" "qs_active demo_waiting = []"
    by (simp_all add: demo_waiting_def queue_new_def)
  have "woke = fst (drain_users demo_world [] demo_waiting)"
    using d by (simp add: drain_state_def r drain_background_from_start same split_def Let_def)
  then have "woke = [7]" using users by (metis fst_conv)
  with people_wait_for_the_floor_only [OF ok demo_ok(2) d floor] floor show ?thesis by auto
qed

end
