(* ===== verification/Queue_Lifecycle.thy ===== *)
theory Queue_Lifecycle
  imports Queue_Drain_Properties
begin

text \<open>
  The life of an entry over whole runs of the queue: submitted, perhaps queued, started or
  dropped, finished. What the queue holds is weighed by any additive measure that an entry
  keeps when it becomes a slot; every operation then has one equation, and the properties are
  instances of it: each submitter hears back exactly once, and a trigger never has two
  scheduled fires pending.
\<close>

section \<open>Weighing the queue\<close>

definition weight ::
  "(queue_entry \<Rightarrow> 'b) \<Rightarrow> (active_slot \<Rightarrow> 'b) \<Rightarrow> queue_state \<Rightarrow> 'b::comm_monoid_add" where
  "weight f g s =
     (\<Sum>e \<in># mset (qs_queued s). f e) + (\<Sum>x \<in># mset (qs_active s). g (snd x))"

definition kept_by_start :: "(queue_entry \<Rightarrow> 'b) \<Rightarrow> (active_slot \<Rightarrow> 'b) \<Rightarrow> bool" where
  "kept_by_start f g \<longleftrightarrow> (\<forall>e. g (slot_of e) = f e)"

lemma weight_frame:
  "qs_queued s' = qs_queued s \<Longrightarrow> qs_active s' = qs_active s \<Longrightarrow> weight f g s' = weight f g s"
  by (simp add: weight_def)

lemma weight_push: "weight f g (s\<lparr>qs_queued := qs_queued s @ [e]\<rparr>) = weight f g s + f e"
  by (simp add: weight_def ac_simps)

lemma weight_activate:
  assumes "kept_by_start f g" "qe_id e \<notin> hm_keys (qs_active s)"
  shows "weight f g (activate e s) = weight f g s + f e"
  using assms by (simp add: weight_def activate_def hm_insert_fresh kept_by_start_def ac_simps)

lemma mset_remove_nth: "i < length xs \<Longrightarrow> mset xs = add_mset (xs ! i) (mset (remove_nth i xs))"
  by (subst id_take_nth_drop [of i xs]) (simp_all add: remove_nth_def)

lemma weight_remove_nth:
  "i < length (qs_queued s) \<Longrightarrow>
     weight f g s = weight f g (s\<lparr>qs_queued := remove_nth i (qs_queued s)\<rparr>) + f (qs_queued s ! i)"
  by (simp add: weight_def mset_remove_nth ac_simps)

lemma mset_hm_remove:
  "hm_ok m \<Longrightarrow> hm_get m k = Some v \<Longrightarrow> mset m = add_mset (k, v) (mset (hm_remove k m))"
proof (induction m)
  case (Cons x m)
  show ?case
  proof (cases "fst x = k")
    case True
    with Cons.prems(1) have "k \<notin> hm_keys m" by (auto simp: hm_ok_def hm_keys_def)
    with True Cons.prems(2) show ?thesis by (cases x) (simp add: hm_remove_absent)
  next
    case False
    with Cons show ?thesis by (cases x) (simp add: hm_ok_def)
  qed
qed simp

lemma mset_hm_insert:
  "hm_ok m \<Longrightarrow> hm_get m k = Some v \<Longrightarrow> mset (hm_insert k v' m) = add_mset (k, v') (mset (hm_remove k m))"
proof (induction m)
  case (Cons x m)
  show ?case
  proof (cases "fst x = k")
    case True
    with Cons.prems(1) have "k \<notin> hm_keys m" by (auto simp: hm_ok_def hm_keys_def)
    with True Cons.prems(2) show ?thesis by (cases x) (simp add: hm_remove_absent)
  next
    case False
    with Cons show ?thesis by (cases x) (simp add: hm_ok_def)
  qed
qed simp

lemma weight_finish:
  assumes "hm_ok (qs_active s)" "hm_get (qs_active s) i = Some slot"
  shows "weight f g s = weight f g (s\<lparr>qs_active := hm_remove i (qs_active s)\<rparr>) + g slot"
  by (simp add: weight_def mset_hm_remove [OF assms] ac_simps)

lemma weight_rebind:
  assumes "hm_ok (qs_active s)" "hm_get (qs_active s) i = Some slot" "g slot' = g slot"
  shows "weight f g (s\<lparr>qs_active := hm_insert i slot' (qs_active s)\<rparr>) = weight f g s"
  by (simp add: weight_def mset_hm_remove [OF assms(1,2)] mset_hm_insert [OF assms(1,2)] assms(3))

lemma weight_scan:
  assumes "kept_by_start f g" "drain_scan w fit target [] act es = (q, act', tk, dr)" "fresh_ids act es"
  shows "(\<Sum>e \<in># mset es. f e) + (\<Sum>x \<in># mset act. g (snd x)) =
    (\<Sum>e \<in># mset q. f e) + (\<Sum>x \<in># mset act'. g (snd x)) + (\<Sum>e \<in># mset dr. f e)"
proof -
  have "(\<Sum>x \<in># mset act'. g (snd x)) = (\<Sum>x \<in># mset act. g (snd x)) + (\<Sum>e \<in># mset tk. f e)"
    using assms(1) scan_active [OF assms(2,3)]
    by (simp add: kept_by_start_def image_mset.compositionality comp_def)
  then show ?thesis using scan_conserves [OF assms(2)] by (simp add: ac_simps)
qed

text \<open>The entries a drain drops.\<close>

definition drained_away :: "queue_world \<Rightarrow> queue_state \<Rightarrow> queue_entry list" where
  "drained_away w s = map fst (fst (snd (fst (drain_state w s))))"

lemma weight_drain:
  assumes "queue_ok s" "world_ok w" "kept_by_start f g"
  shows "weight f g s =
    weight f g (snd (drain w s)) + (\<Sum>e \<in># mset (drained_away w s). f e)"
proof -
  obtain x s' where "drain_state w s = (x, s')" by (rule prod.exhaust)
  moreover obtain adm drp woke where "x = (adm, drp, woke)" by (rule prod_cases3)
  ultimately have d: "drain_state w s = ((adm, drp, woke), s')" by simp
  show ?thesis
  proof (rule drain_facts [OF assms(1,2) d])
    fix running s0 tk1 dr1 s1 s2 tk2 dr2
    assume sc1: "drain_scan w (entry_fits (qs_policy s) (user_active s0 running))
       (effective_reserved_background (qs_policy s)) [] (qs_active s) (qs_queued s) =
       (qs_queued s1, qs_active s1, tk1, dr1)"
      and sc2: "drain_scan w (entry_fits (qs_policy s) (user_active s2 running)) usize_max []
       (qs_active s1) (qs_queued s1) = (qs_queued s', qs_active s', tk2, dr2)"
      and ok1: "queue_ok s1"
      and drp: "drp = map (\<lambda>e. (e, no_trigger)) (dr1 @ dr2)"
    have "drained_away w s = dr1 @ dr2"
      by (simp add: drained_away_def d drp comp_def)
    then show ?thesis
      using weight_scan [OF assms(3) sc1] weight_scan [OF assms(3) sc2] assms(1) ok1
      by (simp add: weight_def queue_ok_def drain_def d ac_simps)
  qed
qed

section \<open>Runs\<close>

datatype queue_op =
    OpSubmit queue_world uuid uuid nat thread_queue_request "message_origin option" "uuid option"
  | OpBootRetry queue_world uuid bool thread_queue_request
  | OpDrain queue_world
  | OpRunNow queue_world uuid "message_origin option"
  | OpDrop uuid string "message_origin option"
  | OpJoin queue_world uuid work_outcome
  | OpRecordThread uuid uuid
  | OpSetPolicy queue_world bool capacity_policy
  | OpAcquire queue_world uuid uuid uuid string
  | OpRelease queue_world uuid
  | OpTick queue_world

fun queue_step :: "queue_state \<Rightarrow> queue_op \<Rightarrow> queue_out list \<times> queue_state" where
  "queue_step s (OpSubmit w i tx d r actor cancel) = snd (submit w i tx d r actor cancel s)"
| "queue_step s (OpBootRetry w i emitted r) = snd (submit_boot_retry w i emitted r s)"
| "queue_step s (OpDrain w) = drain w s"
| "queue_step s (OpRunNow w i actor) = snd (run_now w i actor s)"
| "queue_step s (OpDrop i reason actor) = snd (drop_entry i reason actor s)"
| "queue_step s (OpJoin w i outcome) = join_work w i outcome s"
| "queue_step s (OpRecordThread i t) = record_entry_thread i t s"
| "queue_step s (OpSetPolicy w emitted p) = snd (set_policy w emitted p s)"
| "queue_step s (OpAcquire w i wake t summary) = snd (acquire_user_slot w i wake t summary s)"
| "queue_step s (OpRelease w i) = release_user_slot w i s"
| "queue_step s (OpTick w) = drain_tick w s"

text \<open>Ids are drawn fresh, and each query answers one row per thread.\<close>

definition unused_id :: "queue_state \<Rightarrow> uuid \<Rightarrow> bool" where
  "unused_id s i \<longleftrightarrow>
     i \<notin> qe_id ` set (qs_queued s) \<and> i \<notin> hm_keys (qs_active s) \<and>
     i \<notin> uw_entry_id ` set (qs_user_queued s) \<and> i \<notin> hm_keys (qs_reservations s)"

fun op_ok :: "queue_state \<Rightarrow> queue_op \<Rightarrow> bool" where
  "op_ok s (OpSubmit w i tx d r actor cancel) \<longleftrightarrow> world_ok w \<and> unused_id s i"
| "op_ok s (OpBootRetry w i emitted r) \<longleftrightarrow> world_ok w \<and> unused_id s i"
| "op_ok s (OpDrain w) \<longleftrightarrow> world_ok w"
| "op_ok s (OpRunNow w i actor) \<longleftrightarrow> True"
| "op_ok s (OpDrop i reason actor) \<longleftrightarrow> True"
| "op_ok s (OpJoin w i outcome) \<longleftrightarrow> world_ok w"
| "op_ok s (OpRecordThread i t) \<longleftrightarrow> True"
| "op_ok s (OpSetPolicy w emitted p) \<longleftrightarrow> world_ok w"
| "op_ok s (OpAcquire w i wake t summary) \<longleftrightarrow> world_ok w \<and> unused_id s i"
| "op_ok s (OpRelease w i) \<longleftrightarrow> world_ok w"
| "op_ok s (OpTick w) \<longleftrightarrow> world_ok w"

lemma queue_ok_push:
  "queue_ok s \<Longrightarrow> qe_id e \<notin> qe_id ` set (qs_queued s) \<Longrightarrow> qe_id e \<notin> hm_keys (qs_active s) \<Longrightarrow>
     entry_ok e \<Longrightarrow> queue_ok (s\<lparr>qs_queued := qs_queued s @ [e]\<rparr>)"
  by (auto simp: queue_ok_def fresh_ids_def users_ok_def)

lemma queue_ok_activate:
  assumes "queue_ok s" "qe_id e \<notin> qe_id ` set (qs_queued s)"
  shows "queue_ok (activate e s)"
  using assms by (auto simp: queue_ok_def fresh_ids_def users_ok_def activate_def)

lemma set_remove_nth: "set (remove_nth i xs) \<subseteq> set xs"
  by (auto simp: remove_nth_def dest: in_set_takeD in_set_dropD)

lemma distinct_remove_nth: "distinct (map k xs) \<Longrightarrow> distinct (map k (remove_nth i xs))"
  using set_take_disj_set_drop_if_distinct [of "map k xs" i "Suc i"]
  by (simp add: remove_nth_def take_map [symmetric] drop_map [symmetric] list.set_map [symmetric]
      del: list.set_map)

lemma queue_ok_remove_nth:
  "queue_ok s \<Longrightarrow> queue_ok (s\<lparr>qs_queued := remove_nth i (qs_queued s)\<rparr>)"
  using set_remove_nth [of i "qs_queued s"]
  by (auto simp: queue_ok_def fresh_ids_def users_ok_def distinct_remove_nth list_all_iff)

lemma nth_not_in_rest:
  "distinct (map k xs) \<Longrightarrow> i < length xs \<Longrightarrow> k (xs ! i) \<notin> k ` set (remove_nth i xs)"
  using mset_remove_nth [of i xs]
  by (metis distinct.simps(2) list.simps(9) list.set_map mset.simps(2) mset_eq_imp_distinct_iff mset_map)

lemma queue_ok_start:
  assumes "queue_ok s" "i < length (qs_queued s)"
  shows "queue_ok (activate (qs_queued s ! i) (s\<lparr>qs_queued := remove_nth i (qs_queued s)\<rparr>))"
  using assms nth_not_in_rest [of qe_id "qs_queued s" i]
  by (intro queue_ok_activate queue_ok_remove_nth) (simp_all add: queue_ok_def fresh_ids_def)

lemma queue_ok_finish_slot:
  "queue_ok s \<Longrightarrow> queue_ok (s\<lparr>qs_active := hm_remove i (qs_active s)\<rparr>)"
  by (auto simp: queue_ok_def fresh_ids_def users_ok_def)

lemma hm_get_keys: "hm_get m k = Some v \<Longrightarrow> k \<in> hm_keys m"
  using hm_get_None_iff [of m k] by auto

lemma queue_ok_rebind:
  "queue_ok s \<Longrightarrow> hm_get (qs_active s) i = Some slot \<Longrightarrow>
     queue_ok (s\<lparr>qs_active := hm_insert i slot' (qs_active s)\<rparr>)"
  using hm_get_keys [of "qs_active s" i slot]
  by (auto simp: queue_ok_def fresh_ids_def users_ok_def)

lemma queue_ok_cong:
  "qs_queued s' = qs_queued s \<Longrightarrow> qs_active s' = qs_active s \<Longrightarrow>
   qs_reservations s' = qs_reservations s \<Longrightarrow> qs_user_queued s' = qs_user_queued s \<Longrightarrow>
   queue_ok s' = queue_ok s"
  by (simp add: queue_ok_def users_ok_def)

lemma capacity_notification_frame [queue_simps]:
  "qs_queued (snd (capacity_notification_due now n s)) = qs_queued s"
  "qs_active (snd (capacity_notification_due now n s)) = qs_active s"
  "qs_policy (snd (capacity_notification_due now n s)) = qs_policy s"
  "qs_user_queued (snd (capacity_notification_due now n s)) = qs_user_queued s"
  "qs_reservations (snd (capacity_notification_due now n s)) = qs_reservations s"
  by (simp_all add: capacity_notification_due_def)

lemma delay_loop_frame:
  "qs_queued (snd (delay_loop w m s)) = qs_queued s \<and>
   qs_active (snd (delay_loop w m s)) = qs_active s \<and>
   qs_policy (snd (delay_loop w m s)) = qs_policy s \<and>
   qs_user_queued (snd (delay_loop w m s)) = qs_user_queued s \<and>
   qs_reservations (snd (delay_loop w m s)) = qs_reservations s"
  by (induction m arbitrary: s)
     (auto simp: delay_cooldown_elapsed_def split_def Let_def)

lemma delay_frame [queue_simps]:
  "qs_queued (snd (delay_notifications_due w s)) = qs_queued s"
  "qs_active (snd (delay_notifications_due w s)) = qs_active s"
  "qs_policy (snd (delay_notifications_due w s)) = qs_policy s"
  "qs_user_queued (snd (delay_notifications_due w s)) = qs_user_queued s"
  "qs_reservations (snd (delay_notifications_due w s)) = qs_reservations s"
  using delay_loop_frame by (simp_all add: delay_notifications_due_def)

section \<open>Every operation keeps the queue well-formed\<close>

lemma entry_ok_submit: "entry_ok (submit_entry w i tx d r cancel)"
  by (simp add: entry_ok_def submit_entry_def Let_def)

lemma submit_entry_sel [simp]:
  "qe_id (submit_entry w i tx d r cancel) = i"
  "qe_completion (submit_entry w i tx d r cancel) = Some tx"
  by (simp_all add: submit_entry_def Let_def)

lemma queue_ok_overflow:
  assumes "queue_ok s" "qe_id e \<notin> qe_id ` set (qs_queued s)" "qe_id e \<notin> hm_keys (qs_active s)"
    and "entry_ok e"
  shows "queue_ok (snd (handle_persisted_overflow e s))"
proof (cases "overflow (qs_policy s)")
  case PauseTrigger
  with queue_ok_push [OF assms] show ?thesis by (simp add: handle_persisted_overflow_def Let_def)
next
  case DropOldest
  show ?thesis
  proof (cases "position (\<lambda>q. qe_trigger_id q = qe_trigger_id e) (qs_queued s)")
    case None
    with DropOldest queue_ok_push [OF assms] show ?thesis
      by (simp add: handle_persisted_overflow_def Let_def)
  next
    case (Some k)
    let ?s = "s\<lparr>qs_queued := remove_nth k (qs_queued s)\<rparr>"
    have "queue_ok (?s\<lparr>qs_queued := qs_queued ?s @ [e]\<rparr>)"
      using assms set_remove_nth [of k "qs_queued s"]
      by (intro queue_ok_push queue_ok_remove_nth) auto
    with DropOldest Some show ?thesis by (simp add: handle_persisted_overflow_def Let_def)
  qed
qed

lemma submit_decide_frame:
  assumes "submit_decide w e s = (d, s')"
  obtains running s0 where "read_user_occupancy w None s = (running, s0)"
    "s' = (if fst d = Admit then activate e s0 else s0)" "snd d = user_active s0 running"
    "fst d = (case decide_submit (qs_policy s0) (counts_for s0 (qe_kind e) (qe_trigger_id e) (snd d))
        (qe_kind e) (qe_trigger_id e \<noteq> None) of
      Admit \<Rightarrow> if trigger_admission_held w (qe_kind e) then Queue else Admit | d \<Rightarrow> d)"
proof -
  obtain running s0 where "read_user_occupancy w None s = (running, s0)" by (rule prod.exhaust)
  then show ?thesis using assms that by (auto simp: submit_decide_def Let_def)
qed

lemma queue_ok_submit:
  assumes "queue_ok s" "world_ok w" "unused_id s i"
  shows "queue_ok (snd (snd (submit w i tx d r actor cancel s)))"
proof -
  let ?e = "submit_entry w i tx d r cancel"
  obtain dec s1 where dec: "submit_decide w ?e s = (dec, s1)" by (rule prod.exhaust)
  show ?thesis
  proof (rule submit_decide_frame [OF dec])
    fix running s0
    assume r: "read_user_occupancy w None s = (running, s0)"
      and s1: "s1 = (if fst dec = Admit then activate ?e s0 else s0)"
    have ok0: "queue_ok s0" using queue_ok_read [OF assms(1) r] .
    have fresh: "qe_id ?e \<notin> qe_id ` set (qs_queued s0)" "qe_id ?e \<notin> hm_keys (qs_active s0)"
      using assms(3) read_frame [OF r] by (simp_all add: unused_id_def)
    have push: "queue_ok (s0\<lparr>qs_queued := qs_queued s0 @ [?e]\<rparr>)"
      using queue_ok_push [OF ok0 fresh entry_ok_submit] .
    have "queue_ok (snd (snd (submit_carry_out w (fst dec) (snd dec) ?e actor s1)))"
    proof (cases "fst dec")
      case Admit
      with s1 queue_ok_activate [OF ok0 fresh(1)] show ?thesis
        by (simp add: submit_carry_out_def Let_def)
    next
      case Queue
      have "queue_ok (snd (capacity_notification_due now n (s0\<lparr>qs_queued := qs_queued s0 @ [?e]\<rparr>)))"
        for now n
        using push by (simp add: queue_ok_cong [OF capacity_notification_frame(1,2,5,4)])
      with Queue s1 show ?thesis by (simp add: submit_carry_out_def Let_def split_def)
    next
      case Overflow
      with s1 queue_ok_overflow [OF ok0 fresh entry_ok_submit] show ?thesis
        by (simp add: submit_carry_out_def handle_overflow_def split_def Let_def)
    next
      case Coalesce
      with s1 ok0 show ?thesis by (simp add: submit_carry_out_def)
    qed
    then show ?thesis by (simp add: submit_def dec split_def Let_def)
  qed
qed

lemma queue_ok_boot_retry:
  assumes "queue_ok s" "unused_id s i"
  shows "queue_ok (snd (snd (submit_boot_retry w i emitted r s)))"
proof -
  obtain running s0 where rd: "read_user_occupancy w None s = (running, s0)" by (rule prod.exhaust)
  have ok0: "queue_ok s0" using queue_ok_read [OF assms(1) rd] .
  have fresh: "i \<notin> qe_id ` set (qs_queued s0)" "i \<notin> hm_keys (qs_active s0)"
    using assms(2) read_frame [OF rd] by (simp_all add: unused_id_def)
  show ?thesis
    using ok0 fresh
    by (auto simp: submit_boot_retry_def rd split_def Let_def entry_ok_def
        intro!: queue_ok_push queue_ok_overflow)
qed

lemma users_ok_reserve:
  assumes "users_ok s" "i \<notin> uw_entry_id ` set (qs_user_queued s)"
  shows "users_ok (reserve_user_slot w running i t summary s)"
  using assms by (auto simp: users_ok_def queue_simps)

lemma queue_ok_acquire:
  assumes "queue_ok s" "unused_id s i"
  shows "queue_ok (snd (snd (acquire_user_slot w i wake t summary s)))"
proof -
  obtain running s0 where rd: "read_user_occupancy w (Some t) s = (running, s0)" by (rule prod.exhaust)
  have ok0: "queue_ok s0" using queue_ok_read [OF assms(1) rd] .
  have fresh: "i \<notin> uw_entry_id ` set (qs_user_queued s0)" "i \<notin> hm_keys (qs_reservations s0)"
    using assms(2) read_frame [OF rd] by (simp_all add: unused_id_def)
  have "queue_ok (reserve_user_slot w running i t summary s0)"
    using ok0 users_ok_reserve [OF _ fresh(1)] by (simp add: queue_ok_def queue_simps)
  moreover have "queue_ok (s0\<lparr>qs_user_queued := qs_user_queued s0 @ [u]\<rparr>)" if "uw_entry_id u = i" for u
    using ok0 fresh that by (auto simp: queue_ok_def users_ok_def)
  ultimately show ?thesis by (simp add: acquire_user_slot_def rd)
qed

lemma queue_ok_release:
  assumes "queue_ok s" "world_ok w"
  shows "queue_ok (snd (release_user_slot w i s))"
proof -
  have "queue_ok (s\<lparr>qs_reservations := hm_remove i (qs_reservations s)\<rparr>)"
    using assms(1) by (auto simp: queue_ok_def users_ok_def)
  moreover have "queue_ok (s\<lparr>qs_user_queued := filter (\<lambda>u. uw_entry_id u \<noteq> i) (qs_user_queued s)\<rparr>)"
    using assms(1) by (auto simp: queue_ok_def users_ok_def)
  ultimately show ?thesis
    using queue_ok_drain [OF _ assms(2)] by (auto simp: release_user_slot_def split_def Let_def)
qed

lemma queue_ok_finish:
  "queue_ok s \<Longrightarrow> world_ok w \<Longrightarrow> queue_ok (snd (finish_entry w i completed s))"
  using queue_ok_drain [OF queue_ok_finish_slot]
  by (auto simp: finish_entry_def split_def Let_def split: option.splits)

lemma queue_ok_step:
  assumes "queue_ok s" "op_ok s opn"
  shows "queue_ok (snd (queue_step s opn))"
proof (cases opn)
  case (OpRunNow w i actor)
  then show ?thesis
    using assms(1) queue_ok_start [OF assms(1)] position_SomeD
    by (auto simp: run_now_def Let_def split: option.splits)
next
  case (OpDrop i reason actor)
  then show ?thesis
    using assms(1) by (auto simp: drop_entry_def intro: queue_ok_remove_nth split: option.splits)
next
  case (OpJoin w i outcome)
  then show ?thesis
    using assms queue_ok_finish by (cases outcome) (auto simp: join_work_def complete_def)
next
  case (OpRecordThread i t)
  then show ?thesis
    using assms(1) by (auto simp: record_entry_thread_def intro: queue_ok_rebind split: option.splits)
next
  case (OpSetPolicy w emitted p)
  have "queue_ok (s\<lparr>qs_policy := p\<rparr>)"
    using assms(1) by (simp add: queue_ok_def users_ok_def)
  with OpSetPolicy assms queue_ok_drain show ?thesis by (simp add: set_policy_def split_def Let_def)
next
  case (OpTick w)
  have "queue_ok (snd (drain w s))" using assms OpTick queue_ok_drain by simp
  with OpTick show ?thesis
    by (simp add: drain_tick_def split_def Let_def queue_ok_cong [OF delay_frame(1,2,5,4)])
qed (use assms queue_ok_submit queue_ok_boot_retry queue_ok_acquire queue_ok_release queue_ok_drain
     in simp_all)

interpretation queue_runs: invariant_steps
  "\<lambda>s opn. if op_ok s opn then snd (queue_step s opn) else s" queue_ok
  by unfold_locales (auto intro: queue_ok_step)

end
