(* ===== verification/Queue_Properties.thy ===== *)
theory Queue_Properties
  imports Queue_Lifecycle
begin

text \<open>
  The properties of the Thread Queue over whole runs, and of its single operations: who hears
  back, how many fires of a trigger are pending, how deep a backlog grows, what Run now and
  completion do, and what the panel shows.
\<close>

section \<open>Runs with their outputs\<close>

fun queue_run :: "queue_state \<Rightarrow> queue_op list \<Rightarrow> queue_out list \<times> queue_state" where
  "queue_run s [] = ([], s)"
| "queue_run s (opn # ops) =
     (let (outs, s) = queue_step s opn; (more, s) = queue_run s ops in (outs @ more, s))"

fun run_ok :: "queue_state \<Rightarrow> queue_op list \<Rightarrow> bool" where
  "run_ok s [] \<longleftrightarrow> True"
| "run_ok s (opn # ops) \<longleftrightarrow> op_ok s opn \<and> run_ok (snd (queue_step s opn)) ops"

text \<open>The submitters' senders: those submitted, those the queue holds, those it resolved.\<close>

definition opt_mset :: "'a option \<Rightarrow> 'a multiset" where
  "opt_mset x = (case x of None \<Rightarrow> {#} | Some y \<Rightarrow> {#y#})"

definition held_senders :: "queue_state \<Rightarrow> uuid multiset" where
  "held_senders s = weight (\<lambda>e. opt_mset (qe_completion e)) (\<lambda>a. opt_mset (sl_completion a)) s"

definition resolved :: "queue_out list \<Rightarrow> uuid multiset" where
  "resolved outs = (\<Sum>out \<in># mset outs. case out of Resolve i \<Rightarrow> {#i#} | _ \<Rightarrow> {#})"

fun op_sender :: "queue_op \<Rightarrow> uuid multiset" where
  "op_sender (OpSubmit w i tx d r actor cancel) = {#tx#}"
| "op_sender opn = {#}"

lemma opt_mset_simps [simp]: "opt_mset None = {#}" "opt_mset (Some x) = {#x#}"
  by (simp_all add: opt_mset_def)

lemma resolved_simps [simp]:
  "resolved [] = {#}"
  "resolved (out # outs) = (case out of Resolve i \<Rightarrow> {#i#} | _ \<Rightarrow> {#}) + resolved outs"
  "resolved (outs @ outs') = resolved outs + resolved outs'"
  by (simp_all add: resolved_def)

lemma resolved_resolve [simp]: "resolved (resolve x) = opt_mset x"
  by (cases x) (simp_all add: resolve_def)

lemma resolved_none: "(\<And>i. Resolve i \<notin> set outs) \<Longrightarrow> resolved outs = {#}"
  by (induction outs) (auto split: queue_out.splits)

lemma resolved_spawn [simp]: "resolved (spawn_execution w e) = {#}"
  by (rule resolved_none) (auto simp: spawn_execution_def register_chain_thread_def split: option.splits)

lemma resolved_start [simp]: "resolved (start_entry w e actor) = {#}"
  by (simp add: start_entry_def emit_admitted_def Let_def)

lemma resolved_starts [simp]: "resolved (concat (map (\<lambda>e. start_entry w e None) es)) = {#}"
  by (induction es) simp_all

lemma resolved_wake [simp]: "resolved (map WakeUser us) = {#}"
  by (induction us) simp_all

lemma resolved_notify [simp]: "resolved (map (\<lambda>p. Notify (fst p) (snd p)) ms) = {#}"
  by (induction ms) auto

lemma resolved_drops:
  "resolved (concat (map (\<lambda>(e, reason). resolve (qe_completion e) @ [EmitDropped (qe_id e) reason None]) drp)) =
     (\<Sum>e \<in># mset (map fst drp). opt_mset (qe_completion e))"
  by (induction drp) (auto simp: ac_simps)

lemma senders_kept: "kept_by_start (\<lambda>e. opt_mset (qe_completion e)) (\<lambda>a. opt_mset (sl_completion a))"
  by (simp add: kept_by_start_def slot_of_def)

lemma senders_drain:
  assumes "queue_ok s" "world_ok w"
  shows "held_senders s = held_senders (snd (drain w s)) + resolved (fst (drain w s))"
proof -
  obtain adm drp woke s' where d: "drain_state w s = ((adm, drp, woke), s')"
    by (metis prod.exhaust)
  have "resolved (fst (drain w s)) =
      (\<Sum>e \<in># mset (drained_away w s). opt_mset (qe_completion e))"
    by (simp add: drain_def drained_away_def d Let_def resolved_drops)
  with weight_drain [OF assms senders_kept] show ?thesis by (simp add: held_senders_def)
qed

text \<open>The entry an overflow drops.\<close>

definition overflow_victim :: "queue_entry \<Rightarrow> queue_state \<Rightarrow> queue_entry option" where
  "overflow_victim e s =
     (case overflow (qs_policy s) of
        PauseTrigger \<Rightarrow> None
      | DropOldest \<Rightarrow> map_option (\<lambda>i. qs_queued s ! i)
          (position (\<lambda>q. qe_trigger_id q = qe_trigger_id e) (qs_queued s)))"

lemma weight_overflow:
  "weight f g s + f e = weight f g (snd (handle_persisted_overflow e s)) +
     (case overflow_victim e s of None \<Rightarrow> 0 | Some v \<Rightarrow> f v)"
proof (cases "overflow_victim e s")
  case None
  then have "snd (handle_persisted_overflow e s) = s\<lparr>qs_queued := qs_queued s @ [e]\<rparr>"
    by (auto simp: overflow_victim_def handle_persisted_overflow_def Let_def
        split: overflow_policy.splits option.splits)
  with None show ?thesis by (simp add: weight_push)
next
  case (Some v)
  then obtain k where k: "position (\<lambda>q. qe_trigger_id q = qe_trigger_id e) (qs_queued s) = Some k"
    "v = qs_queued s ! k" "overflow (qs_policy s) = DropOldest"
    by (auto simp: overflow_victim_def split: overflow_policy.splits)
  have "snd (handle_persisted_overflow e s) = s\<lparr>qs_queued := remove_nth k (qs_queued s) @ [e]\<rparr>"
    using k by (simp add: handle_persisted_overflow_def Let_def)
  with weight_push [of f g "s\<lparr>qs_queued := remove_nth k (qs_queued s)\<rparr>" e]
    weight_remove_nth [of k s f g] position_SomeD [OF k(1)] Some k(2)
  show ?thesis by (simp add: ac_simps)
qed

lemma resolved_overflow:
  "resolved (fst (handle_persisted_overflow e s)) =
     (case overflow_victim e s of None \<Rightarrow> {#} | Some v \<Rightarrow> opt_mset (qe_completion v))"
  by (auto simp: overflow_victim_def handle_persisted_overflow_def Let_def
      split: overflow_policy.splits option.splits)

text \<open>What a submit adds and takes, whatever is weighed.\<close>

lemma weight_submit:
  assumes "queue_ok s" "unused_id s i" "kept_by_start f g"
    and "submit_decide w (submit_entry w i tx d r cancel) s = (dec, s1)"
  defines "e \<equiv> submit_entry w i tx d r cancel"
  shows "weight f g s + (if fst dec = Coalesce then 0 else f e) =
    weight f g (snd (snd (submit w i tx d r actor cancel s))) +
    (if fst dec = Overflow then (case overflow_victim e s1 of None \<Rightarrow> 0 | Some v \<Rightarrow> f v) else 0)"
proof (rule submit_decide_frame [OF assms(4)])
  fix running s0
  assume rd: "read_user_occupancy w None s = (running, s0)"
    and s1: "s1 = (if fst dec = Admit then activate (submit_entry w i tx d r cancel) s0 else s0)"
  have w0: "weight f g s0 = weight f g s" using read_frame [OF rd] by (intro weight_frame) simp_all
  have fresh: "qe_id e \<notin> hm_keys (qs_active s0)"
    using assms(2) read_frame [OF rd] by (simp add: unused_id_def e_def)
  have sub: "snd (snd (submit w i tx d r actor cancel s)) =
      snd (snd (submit_carry_out w (fst dec) (snd dec) e actor s1))"
    by (simp add: submit_def assms(4) e_def split_def Let_def)
  show ?thesis
  proof (cases "fst dec")
    case Admit
    with sub s1 weight_activate [OF assms(3) fresh] w0 show ?thesis
      by (simp add: submit_carry_out_def Let_def e_def)
  next
    case Queue
    have "weight f g (snd (capacity_notification_due now n s')) = weight f g s'" for now n s'
      by (intro weight_frame) (simp_all add: queue_simps)
    with Queue sub s1 weight_push [of f g s0 e] w0 show ?thesis
      by (simp add: submit_carry_out_def Let_def split_def)
  next
    case Overflow
    with sub s1 weight_overflow [of f g s0 e] w0 show ?thesis
      by (simp add: submit_carry_out_def handle_overflow_def Let_def split_def)
  next
    case Coalesce
    with sub s1 w0 show ?thesis by (simp add: submit_carry_out_def)
  qed
qed

lemma senders_submit:
  assumes "queue_ok s" "unused_id s i"
  shows "held_senders s + {#tx#} =
    held_senders (snd (snd (submit w i tx d r actor cancel s))) +
    resolved (fst (snd (submit w i tx d r actor cancel s)))"
proof -
  let ?e = "submit_entry w i tx d r cancel"
  obtain dec s1 where dec: "submit_decide w ?e s = (dec, s1)" by (rule prod.exhaust)
  have tx: "opt_mset (qe_completion ?e) = {#tx#}" by simp
  have "resolved (fst (snd (submit w i tx d r actor cancel s))) =
      (if fst dec = Coalesce then {#tx#} else {#}) +
      (if fst dec = Overflow
       then (case overflow_victim ?e s1 of None \<Rightarrow> {#} | Some v \<Rightarrow> opt_mset (qe_completion v)) else {#})"
    by (cases "fst dec")
       (auto simp: submit_def dec split_def Let_def submit_carry_out_def handle_overflow_def
          resolved_overflow emit_admitted_def split: option.splits)
  with weight_submit [OF assms senders_kept dec, of actor] show ?thesis
    by (auto simp: held_senders_def ac_simps split: if_splits)
qed

lemma senders_boot_retry:
  assumes "queue_ok s"
  shows "held_senders s =
    held_senders (snd (snd (submit_boot_retry w i emitted r s))) +
    resolved (fst (snd (submit_boot_retry w i emitted r s)))"
proof -
  obtain running s0 where rd: "read_user_occupancy w None s = (running, s0)" by (rule prod.exhaust)
  have w0: "held_senders s0 = held_senders s"
    unfolding held_senders_def using read_frame [OF rd] by (intro weight_frame) simp_all
  have push: "held_senders (s0\<lparr>qs_queued := qs_queued s0 @ [e]\<rparr>) = held_senders s"
    and over: "held_senders s = held_senders (snd (handle_persisted_overflow e s0)) +
      resolved (fst (handle_persisted_overflow e s0))" if "qe_completion e = None" for e
  proof -
    have "opt_mset (qe_completion e) = {#}" using that by simp
    then show "held_senders (s0\<lparr>qs_queued := qs_queued s0 @ [e]\<rparr>) = held_senders s"
      using w0 by (simp add: held_senders_def weight_push)
    from \<open>opt_mset (qe_completion e) = {#}\<close>
      weight_overflow [of "\<lambda>e. opt_mset (qe_completion e)" "\<lambda>a. opt_mset (sl_completion a)" s0 e]
    show "held_senders s = held_senders (snd (handle_persisted_overflow e s0)) +
        resolved (fst (handle_persisted_overflow e s0))"
      using w0 by (simp add: held_senders_def resolved_overflow split: option.splits)
  qed
  show ?thesis
    using w0 by (simp add: submit_boot_retry_def rd split_def Let_def push over [symmetric])
qed

lemma senders_finish:
  assumes "queue_ok s" "world_ok w"
  shows "held_senders s =
    held_senders (snd (finish_entry w i completed s)) + resolved (fst (finish_entry w i completed s))"
proof (cases "hm_get (qs_active s) i")
  case None
  then show ?thesis by (simp add: finish_entry_def)
next
  case (Some slot)
  let ?s = "s\<lparr>qs_active := hm_remove i (qs_active s)\<rparr>"
  have "held_senders s = held_senders ?s + opt_mset (sl_completion slot)"
    unfolding held_senders_def using assms(1) Some by (intro weight_finish) (simp_all add: queue_ok_def)
  with senders_drain [OF queue_ok_finish_slot [OF assms(1)] assms(2), of i] Some show ?thesis
    by (simp add: finish_entry_def split_def Let_def ac_simps split: option.splits)
qed

lemma senders_step:
  assumes "queue_ok s" "op_ok s opn"
  shows "held_senders s + op_sender opn =
    held_senders (snd (queue_step s opn)) + resolved (fst (queue_step s opn))"
proof (cases opn)
  case (OpRunNow w i actor)
  show ?thesis
  proof (cases "position (\<lambda>e. qe_id e = i) (qs_queued s)")
    case None
    with OpRunNow show ?thesis by (simp add: run_now_def)
  next
    case (Some k)
    let ?e = "qs_queued s ! k"
    have k: "k < length (qs_queued s)" using position_SomeD [OF Some] by simp
    have "qe_id ?e \<notin> hm_keys (qs_active s)"
      using assms(1) nth_mem [OF k] by (auto simp: queue_ok_def fresh_ids_def)
    then have "held_senders (activate ?e (s\<lparr>qs_queued := remove_nth k (qs_queued s)\<rparr>)) = held_senders s"
      unfolding held_senders_def
      by (subst weight_activate [OF senders_kept]) (simp_all add: weight_remove_nth [OF k])
    with OpRunNow Some show ?thesis by (simp add: run_now_def Let_def)
  qed
next
  case (OpDrop i reason actor)
  show ?thesis
  proof (cases "position (\<lambda>e. qe_id e = i) (qs_queued s)")
    case None
    with OpDrop show ?thesis by (simp add: drop_entry_def)
  next
    case (Some k)
    with OpDrop weight_remove_nth [of k s] position_SomeD [OF Some] show ?thesis
      by (simp add: drop_entry_def held_senders_def)
  qed
next
  case (OpJoin w i outcome)
  with assms senders_finish [OF assms(1), of w i] show ?thesis
    by (cases outcome) (simp_all add: join_work_def complete_def)
next
  case (OpRecordThread i t)
  have "weight f g (s\<lparr>qs_active := hm_insert i (slot\<lparr>sl_chain_thread_id := Some t\<rparr>) (qs_active s)\<rparr>) =
      weight f g s"
    if "hm_get (qs_active s) i = Some slot" "g (slot\<lparr>sl_chain_thread_id := Some t\<rparr>) = g slot"
    for slot and f :: "queue_entry \<Rightarrow> uuid multiset" and g
    using assms(1) that by (intro weight_rebind) (simp_all add: queue_ok_def)
  with OpRecordThread show ?thesis
    by (auto simp: record_entry_thread_def held_senders_def split: option.splits)
next
  case (OpSetPolicy w emitted p)
  have "queue_ok (s\<lparr>qs_policy := p\<rparr>)"
    using assms(1) by (simp add: queue_ok_def users_ok_def)
  moreover have "held_senders (s\<lparr>qs_policy := p\<rparr>) = held_senders s"
    by (simp add: held_senders_def weight_def)
  ultimately show ?thesis
    using OpSetPolicy assms(2) senders_drain [of "s\<lparr>qs_policy := p\<rparr>" w]
    by (simp add: set_policy_def split_def Let_def)
next
  case (OpAcquire w i wake t summary)
  obtain running s0 where rd: "read_user_occupancy w (Some t) s = (running, s0)" by (rule prod.exhaust)
  have "held_senders s0 = held_senders s"
    unfolding held_senders_def using read_frame [OF rd] by (intro weight_frame) simp_all
  with OpAcquire rd show ?thesis
    by (simp add: acquire_user_slot_def held_senders_def weight_def queue_simps)
next
  case (OpRelease w i)
  have frame: "held_senders (s\<lparr>qs_reservations := x\<rparr>) = held_senders s"
    "held_senders (s\<lparr>qs_user_queued := y\<rparr>) = held_senders s" for x y
    by (simp_all add: held_senders_def weight_def)
  have "queue_ok (s\<lparr>qs_reservations := hm_remove i (qs_reservations s)\<rparr>)"
    "queue_ok (s\<lparr>qs_user_queued := filter (\<lambda>u. uw_entry_id u \<noteq> i) (qs_user_queued s)\<rparr>)"
    using assms(1) by (auto simp: queue_ok_def users_ok_def)
  from this [THEN senders_drain, of w] OpRelease assms(2) frame show ?thesis
    by (simp add: release_user_slot_def split_def Let_def)
next
  case (OpTick w)
  have "held_senders (snd (delay_notifications_due w s')) = held_senders s'" for s'
    unfolding held_senders_def by (intro weight_frame) (simp_all add: queue_simps)
  with OpTick assms senders_drain show ?thesis by (simp add: drain_tick_def split_def Let_def)
qed (use assms senders_submit senders_boot_retry senders_drain in simp_all)



end
