(* ===== verification/Queue_Contracts.thy ===== *)
theory Queue_Contracts
  imports Queue_Properties
begin

text \<open>
  What the Thread Queue promises its callers: one pending scheduled fire per trigger, starts
  within the caps and in order, a bounded backlog per trigger, Run now, completion, the panel's
  list, and what happens when two submits overlap.
\<close>

section \<open>Scheduled fires\<close>

text \<open>The scheduled fires of a trigger that wait or run.\<close>

definition scheduled_fires :: "string \<Rightarrow> queue_state \<Rightarrow> nat" where
  "scheduled_fires t s =
     length (filter (\<lambda>e. qe_kind e = Cron \<and> qe_trigger_id e = Some t) (qs_queued s)) +
     length (filter (\<lambda>a. sl_kind a = Cron \<and> sl_trigger_id a = Some t) (map snd (qs_active s)))"

abbreviation fire_of :: "string \<Rightarrow> queue_entry \<Rightarrow> nat" where
  "fire_of t e \<equiv> if qe_kind e = Cron \<and> qe_trigger_id e = Some t then 1 else 0"

abbreviation slot_fire_of :: "string \<Rightarrow> active_slot \<Rightarrow> nat" where
  "slot_fire_of t a \<equiv> if sl_kind a = Cron \<and> sl_trigger_id a = Some t then 1 else 0"

lemma length_filter_sum: "length (filter P xs) = (\<Sum>x \<in># mset xs. if P x then 1 else 0)"
  by (induction xs) auto

lemma scheduled_fires_weight: "scheduled_fires t s = weight (fire_of t) (slot_fire_of t) s"
  by (simp add: scheduled_fires_def weight_def length_filter_sum image_mset.compositionality comp_def)

lemma fire_kept: "kept_by_start (fire_of t) (slot_fire_of t)"
  by (simp add: kept_by_start_def slot_of_def)

lemma fires_frame:
  "qs_queued s' = qs_queued s \<Longrightarrow> qs_active s' = qs_active s \<Longrightarrow> scheduled_fires t s' = scheduled_fires t s"
  by (simp add: scheduled_fires_def)

lemma fires_drain:
  "queue_ok s \<Longrightarrow> world_ok w \<Longrightarrow> scheduled_fires t (snd (drain w s)) \<le> scheduled_fires t s"
  unfolding scheduled_fires_weight by (simp only: weight_drain [of s w, OF _ _ fire_kept] le_add1)

lemma fires_overflow:
  "scheduled_fires t (snd (handle_persisted_overflow e s)) \<le> scheduled_fires t s + fire_of t e"
  using weight_overflow [of "fire_of t" "slot_fire_of t" s e] by (simp add: scheduled_fires_weight)

lemma fires_of_new:
  assumes "decide_submit p (counts_for s k (Some t) n) Cron has \<noteq> Coalesce"
  shows "scheduled_fires t s = 0"
proof -
  have "length (filter (\<lambda>a. sl_trigger_id a = Some t) (map snd (qs_active s))) = 0"
    "length (filter (\<lambda>e. qe_trigger_id e = Some t) (qs_queued s)) = 0"
    using assms by (simp_all only: decide_submit_Coalesce counts_for_def admission_counts.simps
        option.simps not_le One_nat_def less_one de_Morgan_conj de_Morgan_disj) simp_all
  then show ?thesis by (auto simp: scheduled_fires_def filter_empty_conv)
qed

lemma fires_submit:
  assumes "queue_ok s" "unused_id s i" "scheduled_fires t s \<le> 1"
  shows "scheduled_fires t (snd (snd (submit w i tx d r actor cancel s))) \<le> 1"
proof -
  let ?e = "submit_entry w i tx d r cancel"
  obtain dec s1 where dec: "submit_decide w ?e s = (dec, s1)" by (rule prod.exhaust)
  have le: "scheduled_fires t (snd (snd (submit w i tx d r actor cancel s))) \<le>
      scheduled_fires t s + (if fst dec = Coalesce then 0 else fire_of t ?e)"
    unfolding scheduled_fires_weight
    using weight_submit [OF assms(1,2) fire_kept dec, of t actor]
    by (auto split: if_splits)
  show ?thesis
  proof (cases "fst dec \<noteq> Coalesce \<and> fire_of t ?e \<noteq> 0")
    case True
    have "scheduled_fires t s = 0"
    proof (rule submit_decide_frame [OF dec])
      fix running s0
      assume rd: "read_user_occupancy w None s = (running, s0)"
        and d: "fst dec = (case decide_submit (qs_policy s0)
            (counts_for s0 (qe_kind ?e) (qe_trigger_id ?e) (snd dec)) (qe_kind ?e)
            (qe_trigger_id ?e \<noteq> None) of
          Admit \<Rightarrow> if trigger_admission_held w (qe_kind ?e) then Queue else Admit | d \<Rightarrow> d)"
      have "scheduled_fires t s0 = 0"
        using True d fires_of_new [of "qs_policy s0" s0 Cron t "snd dec" True]
        by (auto split: if_splits admission_decision.splits)
      then show ?thesis using read_frame [OF rd] fires_frame [of s0 s t] by simp
    qed
    with le show ?thesis by (simp split: if_splits)
  next
    case False
    with le assms(3) show ?thesis by (auto split: if_splits)
  qed
qed

lemma fires_boot_retry:
  assumes "scheduled_fires t s \<le> 1"
  shows "scheduled_fires t (snd (snd (submit_boot_retry w i emitted r s))) \<le> 1"
proof -
  obtain running s0 where rd: "read_user_occupancy w None s = (running, s0)" by (rule prod.exhaust)
  have s0: "scheduled_fires t s0 \<le> 1" "scheduled_fires t s0 = scheduled_fires t s"
    using assms read_frame [OF rd] fires_frame [of s0 s t] by simp_all
  let ?dec = "decide_submit (qs_policy s0) (counts_for s0 (request_kind r) (request_trigger_id r)
    (user_active s0 running)) (request_kind r) (request_trigger_id r \<noteq> None)"
  have new: "scheduled_fires t (s0\<lparr>qs_queued := qs_queued s0 @ [e]\<rparr>) \<le> 1 \<and>
      scheduled_fires t (snd (handle_persisted_overflow e s0)) \<le> 1"
    if "qe_kind e = request_kind r" "qe_trigger_id e = request_trigger_id r" "?dec \<noteq> Coalesce" for e
  proof (cases "request_kind r = Cron \<and> request_trigger_id r = Some t")
    case True
    with that fires_of_new [of "qs_policy s0" s0 Cron t] have "scheduled_fires t s0 = 0" by simp
    then show ?thesis
      using fires_overflow [of t e s0] by (auto simp: scheduled_fires_def)
  next
    case False
    with s0(1) that fires_overflow [of t e s0] show ?thesis by (auto simp: scheduled_fires_def)
  qed
  show ?thesis
    using s0(1) new by (auto simp: submit_boot_retry_def rd split_def Let_def)
qed

lemma fires_step:
  assumes "queue_ok s" "op_ok s opn" "scheduled_fires t s \<le> 1"
  shows "scheduled_fires t (snd (queue_step s opn)) \<le> 1"
proof (cases opn)
  case (OpRunNow w i actor)
  show ?thesis
  proof (cases "position (\<lambda>e. qe_id e = i) (qs_queued s)")
    case (Some k)
    let ?e = "qs_queued s ! k"
    have k: "k < length (qs_queued s)" using position_SomeD [OF Some] by simp
    have "qe_id ?e \<notin> hm_keys (qs_active s)"
      using assms(1) nth_mem [OF k] by (auto simp: queue_ok_def fresh_ids_def)
    then have "scheduled_fires t (activate ?e (s\<lparr>qs_queued := remove_nth k (qs_queued s)\<rparr>)) =
        scheduled_fires t s"
      unfolding scheduled_fires_weight
      by (subst weight_activate [OF fire_kept]) (simp_all add: weight_remove_nth [OF k])
    with OpRunNow Some assms(3) show ?thesis by (simp add: run_now_def Let_def)
  qed (use OpRunNow assms(3) in \<open>simp add: run_now_def\<close>)
next
  case (OpDrop i reason actor)
  show ?thesis
  proof (cases "position (\<lambda>e. qe_id e = i) (qs_queued s)")
    case (Some k)
    have "scheduled_fires t (s\<lparr>qs_queued := remove_nth k (qs_queued s)\<rparr>) \<le> scheduled_fires t s"
      unfolding scheduled_fires_weight
      using weight_remove_nth [of k s "fire_of t" "slot_fire_of t"] position_SomeD [OF Some] by simp
    with OpDrop Some assms(3) show ?thesis by (simp add: drop_entry_def)
  qed (use OpDrop assms(3) in \<open>simp add: drop_entry_def\<close>)
next
  case (OpJoin w i outcome)
  have "scheduled_fires t (snd (finish_entry w i completed s)) \<le> 1" for completed
  proof (cases "hm_get (qs_active s) i")
    case (Some slot)
    have "scheduled_fires t (s\<lparr>qs_active := hm_remove i (qs_active s)\<rparr>) \<le> scheduled_fires t s"
      unfolding scheduled_fires_weight
      using weight_finish [of s i slot "fire_of t" "slot_fire_of t"] Some assms(1)
      by (simp add: queue_ok_def)
    with fires_drain [OF queue_ok_finish_slot [OF assms(1)], of w t i] Some assms OpJoin show ?thesis
      by (simp add: finish_entry_def split_def Let_def)
  qed (use assms(3) in \<open>simp add: finish_entry_def\<close>)
  with OpJoin assms(3) show ?thesis by (cases outcome) (simp_all add: join_work_def complete_def)
next
  case (OpRecordThread i u)
  have "scheduled_fires t (s\<lparr>qs_active :=
      hm_insert i (slot\<lparr>sl_chain_thread_id := Some u\<rparr>) (qs_active s)\<rparr>) = scheduled_fires t s"
    if "hm_get (qs_active s) i = Some slot" for slot
    unfolding scheduled_fires_weight
    using assms(1) that by (intro weight_rebind) (simp_all add: queue_ok_def)
  with OpRecordThread assms(3) show ?thesis
    by (auto simp: record_entry_thread_def split: option.splits)
next
  case (OpSetPolicy w emitted p)
  have "queue_ok (s\<lparr>qs_policy := p\<rparr>)" using assms(1) by (simp add: queue_ok_def users_ok_def)
  from fires_drain [OF this, of w t] OpSetPolicy assms fires_frame [of "s\<lparr>qs_policy := p\<rparr>" s t]
  show ?thesis by (simp add: set_policy_def split_def Let_def)
next
  case (OpAcquire w i wake u summary)
  obtain running s0 where rd: "read_user_occupancy w (Some u) s = (running, s0)" by (rule prod.exhaust)
  with OpAcquire assms(3) read_frame [OF rd] show ?thesis
    by (simp add: acquire_user_slot_def scheduled_fires_def queue_simps)
next
  case (OpRelease w i)
  have "queue_ok (s\<lparr>qs_reservations := hm_remove i (qs_reservations s)\<rparr>)"
    "queue_ok (s\<lparr>qs_user_queued := filter (\<lambda>u. uw_entry_id u \<noteq> i) (qs_user_queued s)\<rparr>)"
    using assms(1) by (auto simp: queue_ok_def users_ok_def)
  from this [THEN fires_drain, of w t] OpRelease assms(2,3) show ?thesis
    by (simp add: release_user_slot_def split_def Let_def scheduled_fires_def)
next
  case (OpTick w)
  have "scheduled_fires t (snd (delay_notifications_due w s')) = scheduled_fires t s'" for s'
    by (intro fires_frame) (simp_all add: queue_simps)
  with OpTick assms fires_drain [of s w t] show ?thesis
    by (simp add: drain_tick_def split_def Let_def)
next
  case (OpDrain w)
  with assms fires_drain [of s w t] show ?thesis by simp
qed (use assms fires_submit fires_boot_retry in simp_all)

text \<open>An invariant the operations keep holds after every run.\<close>

lemma queue_run_invariant:
  assumes "\<And>s opn. queue_ok s \<Longrightarrow> op_ok s opn \<Longrightarrow> I s \<Longrightarrow> I (snd (queue_step s opn))"
    and "run_ok s ops" "queue_ok s" "I s"
  shows "I (snd (queue_run s ops)) \<and> queue_ok (snd (queue_run s ops))"
  using assms(2-4)
proof (induction ops arbitrary: s)
  case (Cons opn ops)
  with assms(1) [of s opn] queue_ok_step [of s opn]
  have "I (snd (queue_run (snd (queue_step s opn)) ops)) \<and>
      queue_ok (snd (queue_run (snd (queue_step s opn)) ops))"
    by simp
  then show ?case by (simp add: split_def Let_def)
qed simp

text \<open>C11. A trigger never has two scheduled fires pending. Over any run of whole operations from
  an empty queue, at most one cron entry of a trigger waits or runs: a fire that comes while one
  is pending is coalesced, and neither a boot retry, Run now, an overflow, a policy change nor
  a drain brings a second one in.\<close>

theorem one_scheduled_fire_per_trigger:
  assumes "run_ok (queue_new p) ops" "queue_run (queue_new p) ops = (outs, s)"
  shows "scheduled_fires t s \<le> 1"
proof -
  have "scheduled_fires t (queue_new p) \<le> 1" by (simp add: scheduled_fires_def queue_new_def)
  with queue_run_invariant [where I = "\<lambda>s. scheduled_fires t s \<le> 1", OF fires_step assms(1) queue_ok_new]
    assms(2)
  show ?thesis by simp
qed

definition demo_cron :: thread_queue_request where
  "demo_cron = CronReq \<lparr>cr_trigger_id = ''daily'', cr_retry_of = None\<rparr>"

theorem one_scheduled_fire_per_trigger_witness:
  "scheduled_fires ''daily'' (snd (queue_run (queue_new capacity_policy_default)
     [OpSubmit demo_world 1 11 0 demo_cron None None,
      OpSubmit demo_world 2 12 0 demo_cron None None])) \<le> 1"
proof -
  let ?ops = "[OpSubmit demo_world 1 11 0 demo_cron None None,
      OpSubmit demo_world 2 12 0 demo_cron None None]"
  have "run_ok (queue_new capacity_policy_default) ?ops"
    using demo_ok(2) by code_simp
  from one_scheduled_fire_per_trigger [OF this, of _ _ "''daily''"] show ?thesis
    by (metis prod.collapse)
qed

end
