(* ===== verification/Queue_Operations.thy ===== *)
theory Queue_Operations
  imports Queue_Contracts
begin

text \<open>
  The Thread Queue's single operations: when a submit starts its entry, how far a trigger's
  backlog grows, what Run now, drop and completion do, and that the panel lists exactly the
  work that holds a slot or waits. The last section overlaps two submits.
\<close>

section \<open>Submit\<close>

definition waits_for :: "string option \<Rightarrow> queue_state \<Rightarrow> bool" where
  "waits_for trigger s \<longleftrightarrow> trigger \<noteq> None \<and> trigger \<in> qe_trigger_id ` set (qs_queued s)"

definition runs_for :: "string option \<Rightarrow> queue_state \<Rightarrow> bool" where
  "runs_for trigger s \<longleftrightarrow> trigger \<noteq> None \<and> trigger \<in> (sl_trigger_id \<circ> snd) ` set (qs_active s)"

lemma counts_waits [queue_simps]:
  "0 < trigger_queued (counts_for s k t n) \<longleftrightarrow> waits_for t s"
  "0 < trigger_active (counts_for s k t n) \<longleftrightarrow> runs_for t s"
  by (cases t; force simp: counts_for_def waits_for_def runs_for_def filter_empty_conv)+

lemma entry_fits_counts [queue_simps]:
  "fits p (counts_for s k t n) k (t \<noteq> None) \<longleftrightarrow> background_fits p n (qs_active s) k t"
  using decide_drain_counts [of p s k t n] by (simp add: decide_drain_Admit)

lemma submit_parts:
  assumes "submit w i tx d r actor cancel s = (out, outs, s')"
    and "read_user_occupancy w None s = (running, s0)"
  defines "e \<equiv> submit_entry w i tx d r cancel"
  obtains dec where
    "so_admitted out \<longleftrightarrow> dec = Admit" "so_coalesced out \<longleftrightarrow> dec = Coalesce" "so_entry_id out = i"
    "dec = (case decide_submit (qs_policy s)
        (counts_for s0 (qe_kind e) (qe_trigger_id e) (user_active s0 running)) (qe_kind e)
        (qe_trigger_id e \<noteq> None) of
      Admit \<Rightarrow> if trigger_admission_held w (qe_kind e) then Queue else Admit | d \<Rightarrow> d)"
    "dec = Admit \<Longrightarrow> s' = activate e s0"
    "dec = Queue \<Longrightarrow> qs_active s' = qs_active s \<and> qs_queued s' = qs_queued s @ [e]"
    "dec = Queue \<Longrightarrow> so_position out = length (qs_queued s')"
    "dec = Overflow \<Longrightarrow> s' = snd (handle_persisted_overflow e s0) \<and>
       outs = EmitQueued e False actor # fst (handle_persisted_overflow e s0)"
    "dec = Coalesce \<Longrightarrow> s' = s0"
proof -
  obtain dec s1 where sd: "submit_decide w e s = (dec, s1)" by (rule prod.exhaust)
  show ?thesis
  proof (rule submit_decide_frame [OF sd])
    fix running' s0'
    assume rd: "read_user_occupancy w None s = (running', s0')"
      and s1: "s1 = (if fst dec = Admit then activate e s0' else s0')"
      and users: "snd dec = user_active s0' running'"
      and fd: "fst dec = (case decide_submit (qs_policy s0')
            (counts_for s0' (qe_kind e) (qe_trigger_id e) (snd dec)) (qe_kind e)
            (qe_trigger_id e \<noteq> None) of
          Admit \<Rightarrow> if trigger_admission_held w (qe_kind e) then Queue else Admit | d \<Rightarrow> d)"
    have same: "running' = running" "s0' = s0" using assms(2) rd by simp_all
    note frame = read_frame [OF assms(2)]
    have out: "(out, outs, s') = submit_carry_out w (fst dec) (snd dec) e actor s1"
      using assms(1) sd by (simp add: submit_def e_def split_def Let_def)
    show ?thesis
    proof (rule that [of "fst dec"])
      show "so_admitted out \<longleftrightarrow> fst dec = Admit" "so_coalesced out \<longleftrightarrow> fst dec = Coalesce"
        "so_entry_id out = i"
        using out by (auto simp: submit_carry_out_def split_def Let_def e_def
            split: admission_decision.splits)
      show "fst dec = (case decide_submit (qs_policy s)
        (counts_for s0 (qe_kind e) (qe_trigger_id e) (user_active s0 running)) (qe_kind e)
        (qe_trigger_id e \<noteq> None) of
          Admit \<Rightarrow> if trigger_admission_held w (qe_kind e) then Queue else Admit | d \<Rightarrow> d)"
        using fd users same frame(1) by simp
    qed (use out s1 same frame in
        \<open>simp_all add: submit_carry_out_def handle_overflow_def split_def Let_def queue_simps\<close>)
  qed
qed

text \<open>C16. A submitted entry starts at once exactly when it may: it fits under the global, kind and
  trigger caps with the people at work counted in, it is no redundant scheduled fire, no entry
  of its trigger waits before it, it takes no slot a waiting person is owed beyond the
  background floor, and fires are not held for boot or shutdown. Then its slot is the only
  change; a redundant fire changes nothing; any other entry joins the end of the line with that
  position, unless its trigger's backlog is full.\<close>

theorem submit_starts_exactly_when_it_may:
  assumes "submit w i tx d r actor cancel s = (out, outs, s')" "queue_ok s" "unused_id s i"
    and "read_user_occupancy w None s = (running, s0)"
    and "e = submit_entry w i tx d r cancel" "t = qe_trigger_id e"
  shows "(so_admitted out \<longleftrightarrow>
      entry_fits (qs_policy s) (user_active s0 running) (qs_active s) e \<and>
      \<not> (qe_kind e = Cron \<and> runs_for t s) \<and> \<not> waits_for t s \<and>
      (qs_user_queued s = [] \<or> length (qs_active s) < effective_reserved_background (qs_policy s)) \<and>
      \<not> trigger_admission_held w (qe_kind e)) \<and>
    (so_coalesced out \<longleftrightarrow> qe_kind e = Cron \<and> (runs_for t s \<or> waits_for t s)) \<and>
    (if so_admitted out then qs_active s' = qs_active s @ [(i, slot_of e)] \<and> qs_queued s' = qs_queued s
     else qs_active s' = qs_active s \<and>
       (if so_coalesced out then qs_queued s' = qs_queued s
        else qs_queued s' = qs_queued s @ [e] \<and> so_position out = length (qs_queued s) + 1 \<or>
          (\<exists>t'. t = Some t' \<and>
            max_queued_per_trigger (qs_policy s) \<le> length (filter (\<lambda>q. qe_trigger_id q = t) (qs_queued s)))))"
proof (rule submit_parts [OF assms(1,4)])
  fix dec
  note frame = read_frame [OF assms(4)]
  let ?c = "counts_for s0 (qe_kind e) t (user_active s0 running)"
  let ?dec = "decide_submit (qs_policy s) ?c (qe_kind e) (t \<noteq> None)"
  let ?e = "submit_entry w i tx d r cancel"
  assume out: "so_admitted out \<longleftrightarrow> dec = Admit" "so_coalesced out \<longleftrightarrow> dec = Coalesce"
    and "dec = (case decide_submit (qs_policy s)
        (counts_for s0 (qe_kind ?e) (qe_trigger_id ?e) (user_active s0 running)) (qe_kind ?e)
        (qe_trigger_id ?e \<noteq> None) of
      Admit \<Rightarrow> if trigger_admission_held w (qe_kind ?e) then Queue else Admit | d \<Rightarrow> d)"
    and admit: "dec = Admit \<Longrightarrow> s' = activate ?e s0"
    and queue: "dec = Queue \<Longrightarrow> qs_active s' = qs_active s \<and> qs_queued s' = qs_queued s @ [?e]"
      "dec = Queue \<Longrightarrow> so_position out = length (qs_queued s')"
    and over: "dec = Overflow \<Longrightarrow> s' = snd (handle_persisted_overflow ?e s0) \<and>
       outs = EmitQueued ?e False actor # fst (handle_persisted_overflow ?e s0)"
    and coal: "dec = Coalesce \<Longrightarrow> s' = s0"
  then have dec: "dec = (case ?dec of
      Admit \<Rightarrow> if trigger_admission_held w (qe_kind e) then Queue else Admit | d \<Rightarrow> d)"
    by (simp add: assms(5,6))
  have same: "waits_for t s0 = waits_for t s" "runs_for t s0 = runs_for t s"
    using frame by (simp_all add: waits_for_def runs_for_def)
  have a: "?dec = Admit \<longleftrightarrow>
      entry_fits (qs_policy s) (user_active s0 running) (qs_active s) e \<and>
      \<not> (qe_kind e = Cron \<and> runs_for t s) \<and> \<not> waits_for t s \<and>
      (qs_user_queued s = [] \<or> length (qs_active s) < effective_reserved_background (qs_policy s))"
  proof -
    have count: "user_queued_count ?c = length (qs_user_queued s)"
      "background_active ?c = length (qs_active s)"
      using frame by (simp_all add: counts_for_def)
    have one: "trigger_active ?c \<ge> 1 \<longleftrightarrow> runs_for t s" "trigger_queued ?c \<ge> 1 \<longleftrightarrow> waits_for t s"
      "trigger_queued ?c > 0 \<longleftrightarrow> waits_for t s"
      using same counts_waits [of s0 "qe_kind e" t "user_active s0 running"]
      by (simp_all only: One_nat_def Suc_le_eq)
    have "fits (qs_policy s) ?c (qe_kind e) (t \<noteq> None) \<longleftrightarrow>
        entry_fits (qs_policy s) (user_active s0 running) (qs_active s) e"
      using entry_fits_counts [of "qs_policy s" s0 "qe_kind e" t "user_active s0 running"] frame
        assms(6) by simp
    then show ?thesis
      unfolding decide_submit_Admit one count by (auto simp: waits_for_def)
  qed
  have c: "?dec = Coalesce \<longleftrightarrow> qe_kind e = Cron \<and> (runs_for t s \<or> waits_for t s)"
    using same counts_waits [of s0 "qe_kind e" t "user_active s0 running"]
    by (simp add: decide_submit_Coalesce Suc_le_eq)
  have act: "qs_active (activate ?e s0) = qs_active s @ [(i, slot_of e)]"
    using assms(3,5) frame by (simp add: activate_def hm_insert_fresh unused_id_def)
  have o: "\<exists>t'. t = Some t' \<and>
      max_queued_per_trigger (qs_policy s) \<le> length (filter (\<lambda>q. qe_trigger_id q = t) (qs_queued s))"
    if "dec = Overflow"
  proof -
    have "?dec = Overflow" using that dec by (auto split: admission_decision.splits if_splits)
    from decide_submit_Overflow [OF this] frame show ?thesis by (auto simp: counts_for_def)
  qed
  have "qs_active (snd (handle_persisted_overflow x y)) = qs_active y" for x y
    by (simp add: handle_persisted_overflow_def Let_def split: overflow_policy.split option.split)
  then show ?thesis
    using out dec a c act admit queue over coal o frame assms(5)
    by (cases dec) (auto split: admission_decision.splits if_splits simp: activate_def)
qed

theorem submit_starts_exactly_when_it_may_witness:
  "\<exists>out outs s'. submit demo_world 1 11 0 demo_cron None None (queue_new capacity_policy_default) =
     (out, outs, s') \<and> so_admitted out"
proof -
  let ?s = "queue_new capacity_policy_default" and ?e = "submit_entry demo_world 1 11 0 demo_cron None"
  obtain out outs s' where sub: "submit demo_world 1 11 0 demo_cron None None ?s = (out, outs, s')"
    by (rule prod_cases3)
  have "read_user_occupancy demo_world None ?s = ([], ?s)" "unused_id ?s 1" by code_simp+
  from submit_starts_exactly_when_it_may [OF sub queue_ok_new this(2,1) refl refl]
  have "so_admitted out \<longleftrightarrow>
      entry_fits (qs_policy ?s) (user_active ?s []) (qs_active ?s) ?e \<and>
      \<not> (qe_kind ?e = Cron \<and> runs_for (qe_trigger_id ?e) ?s) \<and> \<not> waits_for (qe_trigger_id ?e) ?s \<and>
      (qs_user_queued ?s = [] \<or> length (qs_active ?s) < effective_reserved_background (qs_policy ?s)) \<and>
      \<not> trigger_admission_held demo_world (qe_kind ?e)"
    by (rule conjunct1)
  also have "\<dots>"
    by (simp add: submit_entry_def demo_cron_def demo_world_def queue_new_def runs_for_def
        waits_for_def background_fits_def kind_count_def trigger_count_def user_active_def
        unseen_reservations_def capacity_policy_default_def trigger_admission_held_def Let_def
        )
  finally show ?thesis using sub by blast
qed

section \<open>Backlogs\<close>

definition backlog :: "string option \<Rightarrow> queue_state \<Rightarrow> nat" where
  "backlog t s = length (filter (\<lambda>q. qe_trigger_id q = t) (qs_queued s))"

lemma backlog_cong: "qs_queued s' = qs_queued s \<Longrightarrow> backlog t s' = backlog t s"
  by (simp add: backlog_def)

lemma backlog_push:
  "qs_queued s' = qs_queued s @ [e] \<Longrightarrow>
     backlog t s' = backlog t s + (if qe_trigger_id e = t then 1 else 0)"
  by (simp add: backlog_def)

lemma backlog_remove_nth:
  "k < length (qs_queued s) \<Longrightarrow>
     backlog t s = backlog t (s\<lparr>qs_queued := remove_nth k (qs_queued s)\<rparr>) +
       (if qe_trigger_id (qs_queued s ! k) = t then 1 else 0)"
  using mset_remove_nth [of k "qs_queued s"] by (simp add: backlog_def length_filter_sum)

lemma backlog_overflow:
  "backlog t (snd (handle_persisted_overflow e s)) =
     backlog t s + (if qe_trigger_id e = t \<and>
         (overflow (qs_policy s) = PauseTrigger \<or> backlog t s = 0) then 1 else 0)"
proof (cases "position (\<lambda>q. qe_trigger_id q = qe_trigger_id e) (qs_queued s)")
  case None
  then have "backlog (qe_trigger_id e) s = 0"
    by (simp add: backlog_def position_None_iff filter_empty_conv)
  with None show ?thesis
    by (cases "overflow (qs_policy s)")
       (auto simp: handle_persisted_overflow_def Let_def backlog_def)
next
  case (Some k)
  note k = position_SomeD [OF Some]
  have "backlog (qe_trigger_id e) s \<noteq> 0" using backlog_remove_nth [of k s] k by simp
  with Some backlog_remove_nth [of k s t] k show ?thesis
    by (cases "overflow (qs_policy s)")
       (auto simp: handle_persisted_overflow_def Let_def backlog_push [where e = e] backlog_def)
qed

text \<open>C21. A trigger's backlog is bounded. A whole submit never lifts the backlog of any trigger
  above its limit, except under the pause policy, where the one entry that comes too many waits
  as well, and the trigger is paused with it. Under the drop policy the entry that makes room is
  the trigger's oldest, its submitter is told, and the line keeps its order.\<close>

theorem backlogs_stay_bounded:
  assumes "submit w i tx d r actor cancel s = (out, outs, s')"
    and "0 < max_queued_per_trigger (qs_policy s)"
  shows "backlog (Some t) s' \<le> max (backlog (Some t) s) (max_queued_per_trigger (qs_policy s)) \<or>
    overflow (qs_policy s) = PauseTrigger \<and> backlog (Some t) s' = backlog (Some t) s + 1 \<and>
    PauseTriggerWrite t \<in> set outs"
proof -
  obtain running s0 where rd: "read_user_occupancy w None s = (running, s0)" by (rule prod.exhaust)
  note frame = read_frame [OF rd]
  let ?e = "submit_entry w i tx d r cancel"
  show ?thesis
  proof (rule submit_parts [OF assms(1) rd])
    fix dec
    let ?dec = "decide_submit (qs_policy s)
        (counts_for s0 (qe_kind ?e) (qe_trigger_id ?e) (user_active s0 running)) (qe_kind ?e)
        (qe_trigger_id ?e \<noteq> None)"
    assume dec: "dec = (case ?dec of
      Admit \<Rightarrow> if trigger_admission_held w (qe_kind ?e) then Queue else Admit | d \<Rightarrow> d)"
      and admit: "dec = Admit \<Longrightarrow> s' = activate ?e s0"
      and queue: "dec = Queue \<Longrightarrow> qs_active s' = qs_active s \<and> qs_queued s' = qs_queued s @ [?e]"
      and over: "dec = Overflow \<Longrightarrow> s' = snd (handle_persisted_overflow ?e s0) \<and>
         outs = EmitQueued ?e False actor # fst (handle_persisted_overflow ?e s0)"
      and coal: "dec = Coalesce \<Longrightarrow> s' = s0"
    have s0: "backlog (Some t) s0 = backlog (Some t) s" using frame by (intro backlog_cong) simp
    show ?thesis
    proof (cases dec)
      case Queue
      have "backlog (Some t) s < max_queued_per_trigger (qs_policy s)"
        if t: "qe_trigger_id ?e = Some t"
      proof -
        have "?dec = Admit \<or> ?dec = Queue"
          using Queue dec by (cases ?dec) simp_all
        moreover have "trigger_queued c < max_queued_per_trigger (qs_policy s)"
          if "decide_submit (qs_policy s) c k has = Admit \<or> decide_submit (qs_policy s) c k has = Queue"
            has for c k has
          using that decide_submit_Queue [of "qs_policy s" c k has] assms(2)
          unfolding decide_submit_Admit by auto
        moreover have "qe_trigger_id ?e \<noteq> None" using t by simp
        ultimately have "trigger_queued (counts_for s0 (qe_kind ?e) (qe_trigger_id ?e)
            (user_active s0 running)) < max_queued_per_trigger (qs_policy s)"
          by blast
        with t frame show ?thesis by (simp add: counts_for_def backlog_def)
      qed
      with queue [OF Queue] show ?thesis by (auto simp: backlog_push [where e = ?e])
    next
      case Overflow
      have "PauseTriggerWrite t \<in> set outs"
        if "overflow (qs_policy s) = PauseTrigger" "qe_trigger_id ?e = Some t"
        using over [OF Overflow] that frame
        by (auto simp: handle_persisted_overflow_def Let_def unwrap_or_def)
      with over [OF Overflow] backlog_overflow [of "Some t" ?e s0] s0 assms(2) frame show ?thesis
        by auto
    qed (use admit coal s0 in \<open>simp_all add: activate_def backlog_def\<close>)
  qed
qed

theorem backlogs_stay_bounded_witness:
  "\<exists>out outs s'. submit demo_world 1 11 0 demo_cron None None (queue_new capacity_policy_default) =
     (out, outs, s') \<and> backlog (Some ''daily'') s' \<le> 25"
proof -
  obtain out outs s' where sub:
    "submit demo_world 1 11 0 demo_cron None None (queue_new capacity_policy_default) = (out, outs, s')"
    by (rule prod_cases3)
  have p: "qs_policy (queue_new capacity_policy_default) = capacity_policy_default"
    "max_queued_per_trigger capacity_policy_default = 25" "overflow capacity_policy_default = DropOldest"
    "backlog (Some ''daily'') (queue_new capacity_policy_default) = 0"
    by (simp_all add: queue_new_def capacity_policy_default_def backlog_def)
  with backlogs_stay_bounded [OF sub, of "''daily''"] sub show ?thesis by (simp add: p)
qed


section \<open>Run now and drop\<close>

lemma remove_nth_by_id:
  "distinct (map k xs) \<Longrightarrow> n < length xs \<Longrightarrow>
     remove_nth n xs = filter (\<lambda>x. k x \<noteq> k (xs ! n)) xs"
proof (induction xs arbitrary: n)
  case (Cons x xs)
  show ?case
  proof (cases n)
    case 0
    have "filter (\<lambda>y. k y \<noteq> k x) xs = xs" using Cons.prems(1)
      by (metis (mono_tags, lifting) distinct.simps(2) filter_True imageI list.set_map list.simps(9))
    with 0 show ?thesis by (simp add: remove_nth_def)
  next
    case (Suc m)
    with Cons.prems have "xs ! m \<in> set xs" "k x \<notin> k ` set xs" by simp_all
    then have "k x \<noteq> k (xs ! m)" by (metis imageI)
    with Cons Suc show ?thesis by (simp add: remove_nth_def)
  qed
qed simp

lemma line_position:
  assumes "queue_ok s" "position (\<lambda>e. qe_id e = i) (qs_queued s) = Some k"
  shows "qs_queued s ! k \<in> set (qs_queued s)" "qe_id (qs_queued s ! k) = i"
    "remove_nth k (qs_queued s) = filter (\<lambda>e. qe_id e \<noteq> i) (qs_queued s)"
  using assms position_SomeD [OF assms(2)] remove_nth_by_id [of qe_id "qs_queued s" k]
  by (auto simp: queue_ok_def fresh_ids_def)

lemma same_id:
  "queue_ok s \<Longrightarrow> e \<in> set (qs_queued s) \<Longrightarrow> e' \<in> set (qs_queued s) \<Longrightarrow> qe_id e = qe_id e' \<Longrightarrow> e = e'"
  by (auto simp: queue_ok_def fresh_ids_def distinct_map dest: inj_onD)

text \<open>Run now takes the waiting entry it names, whatever its place, its trigger's pause and
  every cap, and starts it in a slot of its own while the rest of the line keeps its order;
  only the boot and shutdown hold refuses it, or an entry that no longer waits. A refused call
  changes nothing and starts nothing.\<close>

theorem run_now_starts_what_it_names:
  assumes "queue_ok s" "run_now w i actor s = (result, outs, s')"
  shows "(result = Inr () \<longleftrightarrow>
      (\<exists>e \<in> set (qs_queued s). qe_id e = i \<and> \<not> trigger_admission_held w (qe_kind e))) \<and>
    (if result = Inr ()
     then \<exists>e \<in> set (qs_queued s). qe_id e = i \<and> outs = start_entry w (started e) actor \<and>
       s' = s\<lparr>qs_queued := filter (\<lambda>e. qe_id e \<noteq> i) (qs_queued s),
              qs_active := qs_active s @ [(i, slot_of e)]\<rparr>
     else outs = [] \<and> s' = s)"
proof (cases "position (\<lambda>e. qe_id e = i) (qs_queued s)")
  case None
  then have "\<forall>e \<in> set (qs_queued s). qe_id e \<noteq> i" by (simp add: position_None_iff)
  with None assms(2) show ?thesis by (auto simp: run_now_def)
next
  case (Some k)
  let ?e = "qs_queued s ! k"
  note k = line_position [OF assms(1) Some]
  have only: "e = ?e" if "e \<in> set (qs_queued s)" "qe_id e = i" for e
    using same_id [OF assms(1) that(1) k(1)] that k(2) by simp
  have fresh: "i \<notin> hm_keys (qs_active s)"
    using assms(1) k(1,2) by (auto simp: queue_ok_def fresh_ids_def)
  show ?thesis
  proof (cases "trigger_admission_held w (qe_kind ?e)")
    case True
    with Some assms(2) only show ?thesis by (auto simp: run_now_def)
  next
    case False
    have "activate ?e (s\<lparr>qs_queued := remove_nth k (qs_queued s)\<rparr>) =
        s\<lparr>qs_queued := filter (\<lambda>e. qe_id e \<noteq> i) (qs_queued s),
          qs_active := qs_active s @ [(i, slot_of ?e)]\<rparr>"
      using k fresh by (simp add: activate_def hm_insert_fresh)
    with False Some assms(2) k(1,2) show ?thesis
      by (auto simp: run_now_def started_def Let_def intro!: bexI [of _ ?e])
  qed
qed

theorem run_now_starts_what_it_names_witness:
  "\<exists>result outs s'. run_now demo_world 2 None demo_queue = (result, outs, s') \<and> result = Inr ()"
proof -
  obtain result outs s' where run: "run_now demo_world 2 None demo_queue = (result, outs, s')"
    by (rule prod_cases3)
  have "\<exists>e \<in> set (qs_queued demo_queue). qe_id e = 2 \<and> \<not> trigger_admission_held demo_world (qe_kind e)"
    by (simp add: demo_queue_def demo_fire_def trigger_admission_held_def demo_world_def)
  with run_now_starts_what_it_names [OF demo_ok(1) run] run show ?thesis by blast
qed

section \<open>Completion\<close>

lemma drain_active_ids:
  assumes "queue_ok s" "world_ok w"
  shows "hm_keys (qs_active (snd (drain w s))) \<subseteq> hm_keys (qs_active s) \<union> qe_id ` set (qs_queued s)"
proof -
  obtain x s' where "drain_state w s = (x, s')" by (rule prod.exhaust)
  moreover obtain adm drp woke where "x = (adm, drp, woke)" by (rule prod_cases3)
  ultimately have d: "drain_state w s = ((adm, drp, woke), s')" by simp
  have ids: "hm_keys act' \<subseteq> hm_keys act \<union> qe_id ` set es \<and> set q \<subseteq> set es"
    if "drain_scan w fit target [] act es = (q, act', tk, dr)" "fresh_ids act es" for fit target act es q act' tk dr
    using scan_active [OF that] scan_conserves [OF that(1)]
    by (auto simp: hm_keys_def image_iff dest!: arg_cong [where f = set_mset])
  show ?thesis
  proof (rule drain_facts [OF assms d])
    fix running s0 tk1 dr1 s1 s2 tk2 dr2
    assume sc1: "drain_scan w (entry_fits (qs_policy s) (user_active s0 running))
       (effective_reserved_background (qs_policy s)) [] (qs_active s) (qs_queued s) =
       (qs_queued s1, qs_active s1, tk1, dr1)" and ok1: "queue_ok s1"
      and sc2: "drain_scan w (entry_fits (qs_policy s) (user_active s2 running)) usize_max []
       (qs_active s1) (qs_queued s1) = (qs_queued s', qs_active s', tk2, dr2)"
    have "hm_keys (qs_active s1) \<subseteq> hm_keys (qs_active s) \<union> qe_id ` set (qs_queued s)"
      "set (qs_queued s1) \<subseteq> set (qs_queued s)"
      "hm_keys (qs_active s') \<subseteq> hm_keys (qs_active s1) \<union> qe_id ` set (qs_queued s1)"
      using ids [OF sc1] ids [OF sc2] assms(1) ok1 by (simp_all add: queue_ok_def)
    then have "hm_keys (qs_active s') \<subseteq> hm_keys (qs_active s) \<union> qe_id ` set (qs_queued s)"
      by (meson Un_least Un_upper2 image_mono order_trans subset_trans)
    with d show ?thesis by (simp add: drain_def)
  qed
qed

text \<open>The completions an output list records of one entry.\<close>

definition completions :: "uuid \<Rightarrow> queue_out list \<Rightarrow> nat" where
  "completions i outs =
     length (filter (\<lambda>out. case out of EmitCompleted j t d \<Rightarrow> j = i | _ \<Rightarrow> False) outs)"

lemma completions_append [simp]: "completions i (xs @ ys) = completions i xs + completions i ys"
  by (simp add: completions_def)

lemma completions_none: "(\<And>j t d. EmitCompleted j t d \<notin> set outs) \<Longrightarrow> completions i outs = 0"
  by (auto simp: completions_def filter_empty_conv split: queue_out.splits)

lemma completions_drain [simp]: "completions i (fst (drain w s)) = 0"
  by (rule completions_none)
     (auto simp: drain_def resolve_def start_entry_def emit_admitted_def spawn_execution_def
        register_chain_thread_def Let_def split: prod.splits option.splits if_splits)

text \<open>C31. A slot is released once. When work ends, however it ends short of an unreadable deadline,
  its slot is gone, its completion is recorded exactly once (and not at all for a retry that was
  dropped as too old), and a second report of the same entry changes nothing and sends nothing.
  An unreadable deadline keeps the slot for recovery.\<close>

theorem a_slot_is_released_once:
  assumes "queue_ok s" "world_ok w" "join_work w i outcome s = (outs, s')"
  shows "if outcome = WorkUnchecked then s' = s
    else i \<notin> hm_keys (qs_active s') \<and> finish_entry w' i again s' = ([], s') \<and>
      completions i outs = (if i \<in> hm_keys (qs_active s) \<and> outcome \<noteq> WorkExpired then 1 else 0)"
proof -
  have finish: "i \<notin> hm_keys (qs_active (snd (finish_entry w i completed s))) \<and>
      completions i (fst (finish_entry w i completed s)) =
        (if i \<in> hm_keys (qs_active s) \<and> completed then 1 else 0)" for completed
  proof (cases "hm_get (qs_active s) i")
    case None
    then have "finish_entry w i completed s = ([], s)" by (simp add: finish_entry_def)
    moreover have "i \<notin> hm_keys (qs_active s)" using None hm_get_None_iff by metis
    ultimately show ?thesis by (simp add: completions_def)
  next
    case (Some slot)
    let ?s = "s\<lparr>qs_active := hm_remove i (qs_active s)\<rparr>"
    have here: "i \<in> hm_keys (qs_active s)" using Some by (rule hm_get_keys)
    then have "i \<notin> qe_id ` set (qs_queued s)" using assms(1) by (auto simp: queue_ok_def fresh_ids_def)
    with drain_active_ids [OF queue_ok_finish_slot [OF assms(1)] assms(2), of i]
    have "i \<notin> hm_keys (qs_active (snd (drain w ?s)))" by auto
    moreover have "completions i (case sl_chain_thread_id slot of None \<Rightarrow> [] | Some t \<Rightarrow> [ForgetChain t i]) = 0"
      "completions i (resolve (sl_completion slot)) = 0"
      by (auto intro!: completions_none simp: resolve_def split: option.splits)
    moreover have "completions i (if completed then
        [EmitCompleted i (sl_trigger_id slot) (sl_chain_depth slot)] else []) = (if completed then 1 else 0)"
      by (simp add: completions_def)
    ultimately show ?thesis using Some here by (simp add: finish_entry_def split_def Let_def)
  qed
  have gone: "i \<notin> hm_keys (qs_active s') \<Longrightarrow> finish_entry w' i again s' = ([], s')"
    by (simp add: finish_entry_def hm_get_None_iff [symmetric])
  have ended: "i \<notin> hm_keys (qs_active s') \<and> completions i outs =
      (if i \<in> hm_keys (qs_active s) \<and> completed then 1 else 0)"
    if "finish_entry w i completed s = (outs, s')" for completed
    using finish [of completed] that by simp
  show ?thesis
  proof (cases outcome)
    case WorkExpired
    with ended [of False] gone assms(3) show ?thesis by (simp add: join_work_def)
  qed (use ended [of True] gone assms(3) in \<open>simp_all add: join_work_def complete_def\<close>)
qed

theorem a_slot_is_released_once_witness:
  "\<exists>outs s'. join_work demo_world 1 WorkRan demo_drained = (outs, s') \<and> 1 \<notin> hm_keys (qs_active s')"
proof -
  obtain outs s' where j: "join_work demo_world 1 WorkRan demo_drained = (outs, s')"
    by (rule prod.exhaust)
  have "queue_ok demo_drained" using queue_ok_drain [OF demo_ok] demo_drain by (simp add: drain_def)
  from a_slot_is_released_once [OF this demo_ok(2) j, of demo_world True] j show ?thesis by simp
qed


section \<open>The panel\<close>

text \<open>The panel shows every person's work once, whatever its source. Its admitted rows are as
  many as the slots admission counts for people: the running threads and the reservations no
  turn has used yet. Its queued rows are the waiting people, in the order they will be admitted.\<close>

theorem panel_shows_what_admission_counts:
  "length (filter (\<lambda>e. ue_status e = AdmittedStatus) (fst (user_entries w s))) =
     user_active (snd (user_entries w s)) (fst (read_user_occupancy w None s)) \<and>
   map ue_id (filter (\<lambda>e. ue_status e = QueuedStatus) (fst (user_entries w s))) =
     map uw_entry_id (qs_user_queued s) \<and>
   qs_queued (snd (user_entries w s)) = qs_queued s \<and> qs_active (snd (user_entries w s)) = qs_active s"
proof -
  obtain running s0 where rd: "read_user_occupancy w None s = (running, s0)" by (rule prod.exhaust)
  show ?thesis
    using read_frame [OF rd]
    by (simp add: user_entries_def rd user_active_def unseen_reservations_def split_def
        filter_map comp_def)
qed

section \<open>Overlapping submits\<close>

text \<open>
  A submit decides under the state lock, frees it to write the queued event, and takes it again
  to join the line. Two submits that both decide before either joins do not see each other.
\<close>

definition overlapped_submits ::
  "queue_world \<Rightarrow> queue_entry \<Rightarrow> queue_entry \<Rightarrow> queue_state \<Rightarrow> queue_state" where
  "overlapped_submits w e1 e2 s =
     (let ((d1, n1), s) = submit_decide w e1 s;
          ((d2, n2), s) = submit_decide w e2 s;
          (o1, outs1, s) = submit_carry_out w d1 n1 e1 None s;
          (o2, outs2, s) = submit_carry_out w d2 n2 e2 None s
      in s)"

definition full_queue :: queue_state where
  "full_queue = queue_new (capacity_policy_default\<lparr>max_concurrent_cron := 0, max_queued_per_trigger := 1\<rparr>)"

text \<open>Overlapping submits escape both promises a whole submit keeps. With no slot free for
  scheduled work, two overlapped fires of one trigger both wait, so two scheduled fires of it
  are pending and its backlog stands above its limit, where one after the other would have
  left one pending fire.\<close>

theorem overlapping_submits_are_not_coalesced:
  "scheduled_fires ''daily'' (overlapped_submits demo_world
       (submit_entry demo_world 1 11 0 demo_cron None)
       (submit_entry demo_world 2 12 0 demo_cron None) full_queue) = 2 \<and>
   max_queued_per_trigger (qs_policy full_queue) <
     backlog (Some ''daily'') (overlapped_submits demo_world
       (submit_entry demo_world 1 11 0 demo_cron None)
       (submit_entry demo_world 2 12 0 demo_cron None) full_queue) \<and>
   scheduled_fires ''daily'' (snd (snd (submit demo_world 2 12 0 demo_cron None None
       (snd (snd (submit demo_world 1 11 0 demo_cron None None full_queue)))))) = 1"
  by code_simp

end
