(* ===== verification/Queue_Delay.thy ===== *)
theory Queue_Delay
  imports Queue_Operations
begin

text \<open>
  The "significantly delayed" notification of the drain loop: which triggers it reports, and
  that it reports none of them twice within the cooldown.
\<close>

section \<open>The oldest fires\<close>

text \<open>The fires of a trigger that wait, and since when the oldest does.\<close>

definition waiting_since :: "string \<Rightarrow> queue_entry list \<Rightarrow> instant option" where
  "waiting_since t es =
     (let times = map qe_queued_at (filter (\<lambda>e. qe_trigger_id e = Some t) es)
      in if times = [] then None else Some (fold min (tl times) (hd times)))"

lemma waiting_since_snoc:
  "waiting_since t (es @ [e]) =
     (if qe_trigger_id e = Some t
      then Some (case waiting_since t es of None \<Rightarrow> qe_queued_at e | Some at \<Rightarrow> min at (qe_queued_at e))
      else waiting_since t es)"
  by (cases "filter (\<lambda>e. qe_trigger_id e = Some t) es")
     (simp_all add: waiting_since_def Let_def min.commute)

lemma oldest_map:
  "hm_ok (foldl oldest_step [] es) \<and>
   map_option fst (hm_get (foldl oldest_step [] es) t) = waiting_since t es"
proof (induction es rule: rev_induct)
  case (snoc e es)
  show ?case
  proof (cases "qe_trigger_id e")
    case (Some u)
    with snoc show ?thesis
      by (cases "hm_get (foldl oldest_step [] es) u")
         (auto simp: oldest_step_def waiting_since_snoc update_conv' split_def Let_def
            split: option.splits)
  qed (use snoc in \<open>simp add: oldest_step_def waiting_since_snoc\<close>)
qed (simp add: waiting_since_def)

section \<open>Alerts\<close>

text \<open>A trigger is alerted when its oldest fire has waited long enough, nothing paused it, and the
  last alert is far enough back.\<close>

definition delayed_now :: "queue_world \<Rightarrow> queue_state \<Rightarrow> string \<Rightarrow> bool" where
  "delayed_now w s t \<longleftrightarrow>
     (case waiting_since t (qs_queued s) of
        None \<Rightarrow> False
      | Some at \<Rightarrow> delay_alert_wait \<le> qw_now w - at) \<and> \<not> trigger_paused w t \<and>
     (case hm_get (qs_delay_notified s) t of
        None \<Rightarrow> True | Some prev \<Rightarrow> notify_cooldown \<le> elapsed (qw_clock w) prev)"

abbreviation row_due :: "queue_world \<Rightarrow> queue_state \<Rightarrow> string \<times> instant \<times> nat \<Rightarrow> bool" where
  "row_due w s r \<equiv> delay_alert_wait \<le> qw_now w - fst (snd r) \<and> \<not> trigger_paused w (fst r) \<and>
     (case hm_get (qs_delay_notified s) (fst r) of
        None \<Rightarrow> True | Some prev \<Rightarrow> notify_cooldown \<le> elapsed (qw_clock w) prev)"

lemma alert_wait_pos: "0 < delay_alert_wait"
  by (simp add: delay_alert_wait_def)

lemma delay_loop_spec:
  "hm_ok m \<Longrightarrow>
     length (fst (delay_loop w m s)) = length (filter (row_due w s) m) \<and>
     (\<forall>t. hm_get (qs_delay_notified (snd (delay_loop w m s))) t =
       (if \<exists>r \<in> set m. fst r = t \<and> row_due w s r then Some (qw_clock w)
        else hm_get (qs_delay_notified s) t))"
proof (induction m arbitrary: s)
  case (Cons r m)
  obtain t at n where r: "r = (t, at, n)" by (rule prod_cases3)
  have m: "hm_ok m" "t \<notin> fst ` set m" using Cons.prems r by (auto simp: hm_ok_def)
  show ?case
  proof (cases "row_due w s r")
    case True
    let ?s = "s\<lparr>qs_delay_notified := hm_insert t (qw_clock w) (qs_delay_notified s)\<rparr>"
    have same: "row_due w ?s q = row_due w s q" if "q \<in> set m" for q
      using that m(2) by (auto simp: update_conv' image_iff split: option.splits)
    have step: "delay_loop w (r # m) s =
        (let (later, s') = delay_loop w m ?s in
         ((let label = unwrap_or (trigger_name w t) t in
           (label @ '' is significantly delayed'',
            ''Trigger \"'' @ label @ ''\"'' @ [CHR 0x27] @ ''s oldest fire has waited '' @
            show_nat (nat (max 0 (qw_now w - at) div 1000000000) div 60) @
            '' min in the Thread Queue ('' @ show_nat n @ '' waiting).'')) # later, s'))"
      using True alert_wait_pos
      by (auto simp: r delay_cooldown_elapsed_def Let_def split_def split: option.splits)
    have "filter (row_due w ?s) m = filter (row_due w s) m" using same by (intro filter_cong) auto
    moreover have "(\<exists>q \<in> set m. fst q = t' \<and> row_due w ?s q) = (\<exists>q \<in> set m. fst q = t' \<and> row_due w s q)" for t'
      using same by blast
    ultimately show ?thesis
      using Cons.IH [OF m(1), of ?s] True r m(2) unfolding step
      by (auto simp: split_def Let_def update_conv')
  next
    case False
    have "delay_loop w (r # m) s = delay_loop w m s"
      using False alert_wait_pos
      by (auto simp: r delay_cooldown_elapsed_def Let_def split_def max_def split: option.splits)
    with Cons.IH [OF m(1), of s] False show ?thesis by auto
  qed
qed simp

lemma hm_row:
  assumes "hm_ok m" "hm_get m t = Some x"
  shows "(\<exists>r \<in> set m. fst r = t \<and> P r) \<longleftrightarrow> P (t, x)"
proof
  assume "\<exists>r \<in> set m. fst r = t \<and> P r"
  then obtain y where "(t, y) \<in> set m" "P (t, y)" by auto
  with assms show "P (t, x)" by (simp add: hm_ok_def)
next
  assume "P (t, x)"
  with map_of_SomeD [OF assms(2)] show "\<exists>r \<in> set m. fst r = t \<and> P r" by force
qed

lemma delayed_row:
  "delayed_now w s t \<longleftrightarrow>
     (\<exists>r \<in> set (foldl oldest_step [] (qs_queued s)). fst r = t \<and> row_due w s r)"
proof -
  let ?m = "foldl oldest_step [] (qs_queued s)"
  have ok: "hm_ok ?m" and get: "map_option fst (hm_get ?m t) = waiting_since t (qs_queued s)"
    using oldest_map by blast+
  show ?thesis
  proof (cases "hm_get ?m t")
    case None
    then have "t \<notin> fst ` set ?m" by (simp add: map_of_eq_None_iff)
    with None get show ?thesis by (auto simp: delayed_now_def)
  next
    case (Some x)
    have "waiting_since t (qs_queued s) = Some (fst x)" using get Some by simp
    then have "delayed_now w s t \<longleftrightarrow> row_due w s (t, x)" by (simp add: delayed_now_def)
    also have "\<dots> \<longleftrightarrow> (\<exists>r \<in> set ?m. fst r = t \<and> row_due w s r)"
      by (rule hm_row [OF ok Some, symmetric])
    finally show ?thesis .
  qed
qed

text \<open>A delay is reported once per trigger and cooldown. One turn of the drain loop sends one
  notification for each trigger whose oldest fire has waited five minutes, that is not paused,
  and that was not reported in the last ten; it stamps those triggers and no other, so that
  within ten minutes no later turn reports any of them again, whatever the queue holds then.\<close>

theorem delays_are_reported_once:
  assumes "delay_notifications_due w s = (due, s')" "qw_clock w' < qw_clock w + notify_cooldown"
    and "qs_delay_notified s2 = qs_delay_notified s'"
  shows "length due = card {t. delayed_now w s t} \<and>
    (\<forall>t. hm_get (qs_delay_notified s') t =
       (if delayed_now w s t then Some (qw_clock w) else hm_get (qs_delay_notified s) t)) \<and>
    (\<forall>t. \<not> (delayed_now w s t \<and> delayed_now w' s2 t))"
proof -
  let ?m = "foldl oldest_step [] (qs_queued s)"
  have ok: "hm_ok ?m" using oldest_map by blast
  have due: "due = fst (delay_loop w ?m s)" "s' = snd (delay_loop w ?m s)"
    using assms(1) by (simp_all add: delay_notifications_due_def)
  note spec = delay_loop_spec [OF ok, of w s]
  have rows: "{t. delayed_now w s t} = set (map fst (filter (row_due w s) ?m))"
    unfolding delayed_row by force
  have "distinct (map fst (filter (row_due w s) ?m))"
    using ok unfolding hm_ok_def by (rule distinct_map_filterI)
  from distinct_card [OF this]
  have card: "card {t. delayed_now w s t} = length (filter (row_due w s) ?m)"
    unfolding rows length_map .
  have stamp: "hm_get (qs_delay_notified s') t =
      (if delayed_now w s t then Some (qw_clock w) else hm_get (qs_delay_notified s) t)" for t
    unfolding delayed_row due(2) using spec by blast
  have "\<not> delayed_now w' s2 t" if "delayed_now w s t" for t
  proof -
    have "elapsed (qw_clock w') (qw_clock w) < notify_cooldown"
      using assms(2) by (simp add: elapsed_def notify_cooldown_def)
    moreover have "hm_get (qs_delay_notified s2) t = Some (qw_clock w)"
      using stamp [of t] that assms(3) by simp
    ultimately show ?thesis by (simp add: delayed_now_def del: map_of_eq_None_iff)
  qed
  moreover have "length due = card {t. delayed_now w s t}" using card spec due(1) by simp
  ultimately show ?thesis using stamp by blast
qed

definition late_world :: queue_world where
  "late_world = demo_world\<lparr>qw_now := delay_alert_wait, qw_clock := 7\<rparr>"

theorem delays_are_reported_once_witness:
  "\<exists>due s'. delay_notifications_due late_world demo_queue = (due, s') \<and> \<not> delayed_now late_world s' ''daily''"
proof -
  obtain due s' where d: "delay_notifications_due late_world demo_queue = (due, s')"
    by (rule prod.exhaust)
  have "qw_clock late_world < qw_clock late_world + notify_cooldown" by (simp add: notify_cooldown_def)
  from delays_are_reported_once [OF d this refl]
  have "\<not> (delayed_now late_world demo_queue ''daily'' \<and> delayed_now late_world s' ''daily'')" by blast
  moreover have "delayed_now late_world demo_queue ''daily''" by code_simp
  ultimately show ?thesis using d by blast
qed

end
