(* ===== verification/Queue_Recovery.thy ===== *)
theory Queue_Recovery
  imports Queue_Contracts
begin

text \<open>
  What the queue does with its persisted rows at boot (\<open>recover_persisted_entries\<close>, with
  \<open>drop_interrupted_entry\<close> and the executor's \<open>drop_retry_if_expired\<close>): which rows go back in the
  line, which are dropped, and which are handed to thread recovery.
\<close>

section \<open>Rows and the database\<close>

text \<open>\<open>rr_request\<close> is \<open>None\<close> for a request that no longer parses.\<close>

record recovery_row =
  rr_id :: uuid
  rr_trigger_id :: "string option"
  rr_trigger_name :: "string option"
  rr_thread_id :: "uuid option"
  rr_summary :: string
  rr_request :: "thread_queue_request option"
  rr_status :: string
  rr_queued_at :: instant
  rr_requeued :: bool
  rr_archived :: bool

text \<open>A query that fails answers \<open>None\<close>, an emit that fails \<open>False\<close>.\<close>

record recovery_world =
  rw_now :: instant
  rw_registry :: "string \<Rightarrow> trigger_config option"
  rw_thread_exists :: "uuid \<Rightarrow> bool option"
  rw_deadline_passed :: "instant \<Rightarrow> bool option"
  rw_notice_exists :: "uuid \<Rightarrow> string \<Rightarrow> bool option"
  rw_stored_name :: "uuid \<Rightarrow> string option option"
  rw_notice_sent :: "uuid \<Rightarrow> bool"
  rw_drop_emitted :: "uuid \<Rightarrow> bool"
  rw_requeue_emitted :: "uuid \<Rightarrow> bool"

section \<open>Interrupted rows\<close>

definition drop_interrupted_entry ::
  "recovery_world \<Rightarrow> uuid \<Rightarrow> string \<Rightarrow> uuid option \<Rightarrow> string \<Rightarrow> string \<Rightarrow> (unit + unit) \<times> queue_out list" where
  "drop_interrupted_entry rw i trigger cut_thread reason message =
     (let drop_row = (\<lambda>outs. if rw_drop_emitted rw i then (Inr (), outs @ [EmitDropped i reason None])
                             else (Inl (), outs))
      in case rw_notice_exists rw i reason of
           None \<Rightarrow> (Inl (), [])
         | Some True \<Rightarrow> drop_row []
         | Some False \<Rightarrow>
             (let name = (case rw_registry rw trigger of
                            Some c \<Rightarrow> Some (tc_name c)
                          | None \<Rightarrow> (case rw_stored_name rw i of
                                      None \<Rightarrow> None
                                    | Some stored \<Rightarrow> Some (unwrap_or stored ''Trigger'')))
              in case name of
                   None \<Rightarrow> (Inl (), [])
                 | Some name \<Rightarrow>
                     if rw_notice_sent rw i
                     then drop_row [NotifyInterrupted i trigger (name @ '': run interrupted'') cut_thread message]
                     else (Inl (), [])))"

definition drop_retry_if_expired ::
  "recovery_world \<Rightarrow> uuid \<Rightarrow> thread_queue_request \<Rightarrow> (unit + bool) \<times> queue_out list" where
  "drop_retry_if_expired rw i request =
     (case request_retry request of
        None \<Rightarrow> (Inr False, [])
      | Some (trigger, retry) \<Rightarrow>
          (case rw_deadline_passed rw (retry_deadline retry) of
             None \<Rightarrow> (Inl (), [])
           | Some False \<Rightarrow> (Inr False, [])
           | Some True \<Rightarrow>
               (let (result, outs) =
                  drop_interrupted_entry rw i trigger (Some (retry_thread_id retry))
                    ''retry-deadline-passed''
                    (''The retry of an interrupted run was too old to start. Open the run to see '' @
                     ''how far it got.'')
                in (case result of Inl u \<Rightarrow> Inl u | Inr u \<Rightarrow> Inr True, outs))))"

definition thread_materialized :: "recovery_world \<Rightarrow> recovery_row \<Rightarrow> bool" where
  "thread_materialized rw r =
     (case rr_thread_id r of
        None \<Rightarrow> False
      | Some t \<Rightarrow> (case rw_thread_exists rw t of None \<Rightarrow> False | Some exists \<Rightarrow> exists))"

section \<open>One row\<close>

definition recovered_entry ::
  "recovery_world \<Rightarrow> recovery_row \<Rightarrow> thread_queue_request \<Rightarrow> bool \<Rightarrow> queue_entry" where
  "recovered_entry rw r request requeue =
     \<lparr>qe_id = rr_id r, qe_kind = request_kind request, qe_trigger_id = rr_trigger_id r,
      qe_trigger_name = rr_trigger_name r, qe_thread_id = rr_thread_id r,
      qe_summary = rr_summary r, qe_request = request,
      qe_queued_at = (if requeue then rw_now rw else rr_queued_at r),
      qe_cancel = None, qe_completion = None\<rparr>"

text \<open>
  The body of the loop: its outputs, the cron triggers seen, the line. \<open>Left\<close> rows stay as they
  are in the database, for a later boot.
\<close>

definition recover_admitted ::
  "recovery_world \<Rightarrow> recovery_row \<Rightarrow> thread_queue_request \<Rightarrow> queue_out list \<times> bool" where
  "recover_admitted rw r request =
     (if thread_materialized rw r then ([EmitCompleted (rr_id r) (rr_trigger_id r) 0], False)
      else
        let (expired, outs) = drop_retry_if_expired rw (rr_id r) request
        in case expired of
             Inl u \<Rightarrow> (outs, False)
           | Inr True \<Rightarrow> (outs, False)
           | Inr False \<Rightarrow>
               (case rr_trigger_id r of
                  Some t \<Rightarrow>
                    if rr_requeued r
                    then (outs @ snd (drop_interrupted_entry rw (rr_id r) t None ''requeue-cut-again''
                            (''An engine restart interrupted this run twice. Lucidos will not run '' @
                             ''it again until its next fire.'')), False)
                    else (outs, True)
                | None \<Rightarrow> (outs, True)))"

definition recover_row ::
  "recovery_world \<Rightarrow> recovery_row \<Rightarrow> string list \<Rightarrow> queue_entry list
     \<Rightarrow> queue_out list \<times> string list \<times> queue_entry list" where
  "recover_row rw r seen line =
     (if rr_archived r then ([EmitDropped (rr_id r) ''snapshot-restored'' None], seen, line)
      else case rr_request r of
        None \<Rightarrow> ([EmitDropped (rr_id r) ''unparseable request after restart'' None], seen, line)
      | Some request \<Rightarrow>
          if request_kind request = Cron \<and> (\<exists>t \<in> set seen. rr_trigger_id r = Some t)
          then ([EmitDropped (rr_id r)
                   (''coalesced on recovery '' @ [CHR 0xE2, CHR 0x80, CHR 0x94] @
                    '' duplicate scheduled fire'') None], seen, line)
          else
            let (outs, go, requeue) =
                  (if rr_status r = ''queued'' then ([], True, False)
                   else let (outs, go) = recover_admitted rw r request in (outs, go, True));
                e = recovered_entry rw r request requeue
            in if \<not> go then (outs, seen, line)
               else if requeue \<and> \<not> rw_requeue_emitted rw (rr_id r) then (outs, seen, line)
               else (outs @ (if requeue then [EmitQueued e True None] else []),
                     (case rr_trigger_id r of
                        Some t \<Rightarrow> if request_kind request = Cron then t # seen else seen
                      | None \<Rightarrow> seen),
                     line @ [e]))"

fun recover_rows ::
  "recovery_world \<Rightarrow> recovery_row list \<Rightarrow> string list \<Rightarrow> queue_entry list
     \<Rightarrow> queue_out list \<times> string list \<times> queue_entry list" where
  "recover_rows rw [] seen line = ([], seen, line)"
| "recover_rows rw (r # rs) seen line =
     (let (outs, seen, line) = recover_row rw r seen line;
          (more, seen, line) = recover_rows rw rs seen line
      in (outs @ more, seen, line))"

definition recover_persisted_entries ::
  "recovery_world \<Rightarrow> recovery_row list option \<Rightarrow> queue_state \<Rightarrow> queue_out list \<times> queue_state" where
  "recover_persisted_entries rw rows s =
     (case rows of
        None \<Rightarrow> ([], s)
      | Some rs \<Rightarrow>
          (let (outs, seen, line) = recover_rows rw rs [] (qs_queued s)
           in (outs, s\<lparr>qs_queued := line\<rparr>)))"


section \<open>The line a boot rebuilds\<close>

text \<open>A row still owes a run: it waited, or its run left no thread and may be started once more.\<close>

definition owed :: "recovery_world \<Rightarrow> recovery_row \<Rightarrow> bool" where
  "owed rw r \<longleftrightarrow> \<not> rr_archived r \<and>
     (case rr_request r of
        None \<Rightarrow> False
      | Some request \<Rightarrow>
          rr_status r = ''queued'' \<or>
          \<not> thread_materialized rw r \<and> fst (drop_retry_if_expired rw (rr_id r) request) = Inr False \<and>
          \<not> (rr_trigger_id r \<noteq> None \<and> rr_requeued r) \<and> rw_requeue_emitted rw (rr_id r))"

definition cron_of :: "recovery_row \<Rightarrow> string option" where
  "cron_of r =
     (case rr_request r of
        None \<Rightarrow> None
      | Some request \<Rightarrow> if request_kind request = Cron then rr_trigger_id r else None)"

text \<open>The first row of each cron trigger, and every other row.\<close>

fun first_fires :: "string list \<Rightarrow> recovery_row list \<Rightarrow> recovery_row list" where
  "first_fires seen [] = []"
| "first_fires seen (r # rs) =
     (case cron_of r of
        None \<Rightarrow> r # first_fires seen rs
      | Some t \<Rightarrow> if t \<in> set seen then first_fires seen rs else r # first_fires (t # seen) rs)"

definition restored :: "recovery_world \<Rightarrow> recovery_row \<Rightarrow> queue_entry" where
  "restored rw r = recovered_entry rw r (the (rr_request r)) (rr_status r \<noteq> ''queued'')"

lemma recover_admitted_go:
  "snd (recover_admitted rw r request) \<longleftrightarrow>
     \<not> thread_materialized rw r \<and> fst (drop_retry_if_expired rw (rr_id r) request) = Inr False \<and>
     \<not> (rr_trigger_id r \<noteq> None \<and> rr_requeued r)"
  by (cases "drop_retry_if_expired rw (rr_id r) request")
     (auto simp: recover_admitted_def split: sum.splits bool.splits option.splits)

lemma recover_row_line:
  "snd (recover_row rw r seen line) =
     (if owed rw r \<and> \<not> (\<exists>t \<in> set seen. cron_of r = Some t)
      then ((case cron_of r of None \<Rightarrow> seen | Some t \<Rightarrow> t # seen), line @ [restored rw r])
      else (seen, line))"
  by (auto simp: recover_row_def owed_def cron_of_def restored_def recover_admitted_go split_def Let_def
      split: option.splits)

lemma recover_rows_line:
  "snd (snd (recover_rows rw rs seen line)) =
     line @ map (restored rw) (first_fires seen (filter (owed rw) rs))"
proof (induction rs arbitrary: seen line)
  case (Cons r rs)
  obtain outs seen' line' where row: "recover_row rw r seen line = (outs, seen', line')"
    by (rule prod_cases3)
  with recover_row_line [of rw r seen line] Cons.IH [of seen' line'] show ?case
    by (auto simp: split_def Let_def split: option.splits if_splits)
qed simp

text \<open>C26. A boot rebuilds the line from exactly the rows that still owe a run, in their order. A row
  comes back if it is not archived, its request parses, and it waited before the restart, or
  was running but left no thread, was no trigger fire restarted once already, is no retry past
  its deadline, and its new start could be recorded; of the scheduled fires of one trigger only
  the first of these comes back. A row that waited keeps the time it has waited since; nothing
  runs yet, and no other state changes.\<close>

theorem boot_rebuilds_the_line:
  "snd (recover_persisted_entries rw (Some rows) s) =
     s\<lparr>qs_queued := qs_queued s @ map (restored rw) (first_fires [] (filter (owed rw) rows))\<rparr>"
  using recover_rows_line [of rw rows "[]" "qs_queued s"]
  by (simp add: recover_persisted_entries_def split_def Let_def)

section \<open>Scheduled fires after a restart\<close>

lemma cron_restored:
  "owed rw r \<Longrightarrow> qe_kind (restored rw r) = Cron \<and> qe_trigger_id (restored rw r) = Some t \<longleftrightarrow>
     cron_of r = Some t"
  by (auto simp: restored_def recovered_entry_def cron_of_def owed_def split: option.splits)

lemma first_fires_set: "set (first_fires seen rs) \<subseteq> set rs"
  by (induction seen rs rule: first_fires.induct) (auto split: option.splits if_splits)

lemma count_first_fires:
  "length (filter (\<lambda>r. cron_of r = Some t) (first_fires seen rs)) =
     (if t \<notin> set seen \<and> (\<exists>r \<in> set rs. cron_of r = Some t) then 1 else 0)"
  by (induction seen rs rule: first_fires.induct) (auto split: option.splits)

text \<open>A restart leaves at most one scheduled fire of a trigger, and never loses the last one: a
  trigger has a fire in the rebuilt line exactly when one of its rows still owes a run. A fire
  that was handed to its thread, dropped or left for a later boot does not take the place of
  one that owes its run.\<close>

theorem boot_keeps_one_scheduled_fire:
  "scheduled_fires t (snd (recover_persisted_entries rw (Some rows) (queue_new p))) =
     (if \<exists>r \<in> set rows. owed rw r \<and> cron_of r = Some t then 1 else 0)"
proof -
  let ?rs = "first_fires [] (filter (owed rw) rows)"
  have "filter (\<lambda>r. qe_kind (restored rw r) = Cron \<and> qe_trigger_id (restored rw r) = Some t) ?rs =
      filter (\<lambda>r. cron_of r = Some t) ?rs"
    using first_fires_set [of "[]" "filter (owed rw) rows"] cron_restored
    by (intro filter_cong) auto
  then show ?thesis
    using count_first_fires [of t "[]" "filter (owed rw) rows"]
    by (auto simp: boot_rebuilds_the_line scheduled_fires_def queue_new_def filter_map comp_def)
qed


section \<open>No row is left behind\<close>

text \<open>The database answers every query and takes every event of this boot.\<close>

definition database_up :: "recovery_world \<Rightarrow> bool" where
  "database_up rw \<longleftrightarrow>
     (\<forall>x. rw_deadline_passed rw x \<noteq> None) \<and> (\<forall>i reason. rw_notice_exists rw i reason \<noteq> None) \<and>
     (\<forall>i. rw_stored_name rw i \<noteq> None) \<and>
     (\<forall>i. rw_notice_sent rw i \<and> rw_drop_emitted rw i \<and> rw_requeue_emitted rw i)"

definition cleared :: "recovery_row \<Rightarrow> queue_out list \<Rightarrow> bool" where
  "cleared r outs \<longleftrightarrow>
     (\<exists>reason. EmitDropped (rr_id r) reason None \<in> set outs) \<or>
     EmitCompleted (rr_id r) (rr_trigger_id r) 0 \<in> set outs"

lemma drop_interrupted_cleared:
  assumes "database_up rw"
  shows "fst (drop_interrupted_entry rw i t c reason message) = Inr () \<and>
    EmitDropped i reason None \<in> set (snd (drop_interrupted_entry rw i t c reason message))"
proof -
  obtain known stored where "rw_notice_exists rw i reason = Some known" "rw_stored_name rw i = Some stored"
    "rw_notice_sent rw i" "rw_drop_emitted rw i"
    using assms unfolding database_up_def by (metis not_None_eq)
  then show ?thesis
    by (cases known) (auto simp: drop_interrupted_entry_def Let_def split: option.splits)
qed

lemma drop_retry_cleared:
  assumes "database_up rw"
  shows "fst (drop_retry_if_expired rw i request) = Inr False \<or>
    fst (drop_retry_if_expired rw i request) = Inr True \<and>
    EmitDropped i ''retry-deadline-passed'' None \<in> set (snd (drop_retry_if_expired rw i request))"
proof (cases "request_retry request")
  case (Some x)
  obtain trigger retry where x: "x = (trigger, retry)" by (cases x)
  let ?drop = "drop_interrupted_entry rw i trigger (Some (retry_thread_id retry)) ''retry-deadline-passed''
    (''The retry of an interrupted run was too old to start. Open the run to see '' @
     ''how far it got.'')"
  obtain passed where "rw_deadline_passed rw (retry_deadline retry) = Some passed"
    using assms unfolding database_up_def by (metis not_None_eq)
  moreover have "fst ?drop = Inr () \<and> EmitDropped i ''retry-deadline-passed'' None \<in> set (snd ?drop)"
    using drop_interrupted_cleared [OF assms] by blast
  ultimately show ?thesis
    by (cases ?drop; cases passed) (simp_all add: drop_retry_if_expired_def Some x)
qed (simp add: drop_retry_if_expired_def)

lemma recover_admitted_cleared:
  assumes "database_up rw"
  shows "snd (recover_admitted rw r request) \<or> cleared r (fst (recover_admitted rw r request))"
proof (cases "thread_materialized rw r")
  case True
  then show ?thesis by (simp add: recover_admitted_def cleared_def)
next
  case False
  obtain res outs where d: "drop_retry_if_expired rw (rr_id r) request = (res, outs)" by (rule prod.exhaust)
  have "EmitDropped (rr_id r) reason None \<in>
      set (snd (drop_interrupted_entry rw (rr_id r) t None reason message))" for t reason message
    using drop_interrupted_cleared [OF assms] by blast
  then have dropped: "cleared r (outs @ snd (drop_interrupted_entry rw (rr_id r) t None reason message))"
    for t reason message
    by (auto simp: cleared_def)
  from drop_retry_cleared [OF assms, of "rr_id r" request] d consider
    "res = Inr False" | "res = Inr True" "cleared r outs"
    by (auto simp: cleared_def)
  then show ?thesis
    using False d dropped by cases (auto simp: recover_admitted_def split: option.splits)
qed

lemma recover_row_cleared:
  assumes "database_up rw" "recover_row rw r seen line = (outs, seen', line')"
  shows "(\<exists>e. line' = line @ [e] \<and> qe_id e = rr_id r) \<or> line' = line \<and> cleared r outs"
proof -
  have "rw_requeue_emitted rw (rr_id r)" using assms(1) by (simp add: database_up_def)
  with assms(2) recover_admitted_cleared [OF assms(1), of r] show ?thesis
    by (auto simp: recover_row_def recovered_entry_def cleared_def split_def Let_def
        split: option.splits if_splits)
qed

lemma recover_rows_cleared:
  "database_up rw \<Longrightarrow> recover_rows rw rs seen line = (outs, seen', line') \<Longrightarrow>
     set line \<subseteq> set line' \<and>
     (\<forall>r \<in> set rs. rr_id r \<in> qe_id ` set line' \<or> cleared r outs)"
proof (induction rs arbitrary: seen line outs)
  case (Cons r rs)
  obtain outs1 seen1 line1 where row: "recover_row rw r seen line = (outs1, seen1, line1)"
    by (rule prod_cases3)
  obtain outs2 where rest: "recover_rows rw rs seen1 line1 = (outs2, seen', line')"
    and outs: "outs = outs1 @ outs2"
    using Cons.prems(2) row by (auto split: prod.splits)
  have line: "set line1 \<subseteq> set line'" "set line \<subseteq> set line1"
    using Cons.IH [OF Cons.prems(1) rest] recover_row_cleared [OF Cons.prems(1) row] by auto
  have "rr_id r \<in> qe_id ` set line1 \<or> cleared r outs1"
    using recover_row_cleared [OF Cons.prems(1) row] by auto
  with line outs have "rr_id r \<in> qe_id ` set line' \<or> cleared r outs" by (auto simp: cleared_def)
  moreover have "\<forall>q \<in> set rs. rr_id q \<in> qe_id ` set line' \<or> cleared q outs"
    using Cons.IH [OF Cons.prems(1) rest] outs by (auto simp: cleared_def)
  ultimately show ?case using line by simp
qed simp

text \<open>C30. With the database up, a boot settles every persisted row: it is in the rebuilt line, or
  its drop was recorded, or its completion was recorded and its thread owns the work. A row is
  left as it is only when a query or an emit fails, and then nothing of it runs in this boot.\<close>

theorem boot_settles_every_row:
  assumes "database_up rw" "recover_persisted_entries rw (Some rows) s = (outs, s')" "r \<in> set rows"
  shows "rr_id r \<in> qe_id ` set (qs_queued s') \<or> cleared r outs"
proof -
  obtain outs' seen line where rec: "recover_rows rw rows [] (qs_queued s) = (outs', seen, line)"
    by (rule prod_cases3)
  with assms(2) have "outs' = outs" "qs_queued s' = line" by (auto simp: recover_persisted_entries_def)
  with recover_rows_cleared [OF assms(1) rec] assms(3) show ?thesis by auto
qed

definition demo_row :: "uuid \<Rightarrow> string \<Rightarrow> recovery_row" where
  "demo_row i status =
     \<lparr>rr_id = i, rr_trigger_id = Some ''daily'', rr_trigger_name = None, rr_thread_id = None,
      rr_summary = ''daily (scheduled)'', rr_request = Some demo_cron, rr_status = status,
      rr_queued_at = 0, rr_requeued = True, rr_archived = False\<rparr>"

definition demo_recovery :: recovery_world where
  "demo_recovery =
     \<lparr>rw_now = 9, rw_registry = (\<lambda>t. None), rw_thread_exists = (\<lambda>t. Some False),
      rw_deadline_passed = (\<lambda>d. Some False), rw_notice_exists = (\<lambda>i reason. Some False),
      rw_stored_name = (\<lambda>i. Some None), rw_notice_sent = (\<lambda>i. True), rw_drop_emitted = (\<lambda>i. True),
      rw_requeue_emitted = (\<lambda>i. True)\<rparr>"

theorem boot_settles_every_row_witness:
  "\<exists>outs s'. recover_persisted_entries demo_recovery (Some [demo_row 1 ''admitted'', demo_row 2 ''queued''])
     (queue_new capacity_policy_default) = (outs, s') \<and>
   (1 \<in> qe_id ` set (qs_queued s') \<or> cleared (demo_row 1 ''admitted'') outs)"
proof -
  let ?rows = "[demo_row 1 ''admitted'', demo_row 2 ''queued'']"
  obtain outs s' where rec: "recover_persisted_entries demo_recovery (Some ?rows)
      (queue_new capacity_policy_default) = (outs, s')"
    by (rule prod.exhaust)
  have "database_up demo_recovery" by (simp add: database_up_def demo_recovery_def)
  from boot_settles_every_row [OF this rec, of "demo_row 1 ''admitted''"] rec show ?thesis
    by (simp add: demo_row_def)
qed

end
