(* ===== verification/Thread_Status.thy ===== *)
theory Thread_Status
  imports Prelude Rust_Strings
begin

text \<open>
  The vocabulary of a thread's state (\<open>engine/thread_lifecycle.rs\<close>, with \<open>UnproposedReason\<close> of
  \<open>engine/thread_events/cause.rs\<close>): its type, section, status and change state, with the texts
  they are stored and sent as, and the parsers that read them back.
\<close>

section \<open>Types\<close>

datatype thread_type = Chat | CodingAgent

datatype archive_state = Archived | Inbox

datatype sidebar_section = Saved | Current | ArchiveSection

datatype thread_status = Idle | Running | Waiting | WaitingForUserAnswer | Paused | Failed

datatype event_class = Metadata | Start | Activity | Terminal | ActionRequired

datatype action =
    DiscardDraft | Discard | Apply | SetAside | ApplyWhenSettled | ArchiveAction | Save | Unsave

datatype change_state_kind = NoWork | UnproposedKind | ProposedKind

datatype unproposed_reason =
    PlanMissing | PlanAwaitingApproval | OutsideBound | HardeningMissing | TurnIncomplete
  | AwaitingLanding | IntegratedIntoParent | CarriedBySuccessor

datatype coding_agent_change_state =
    NoChangeState
  | Unproposed (unproposed_why: "unproposed_reason option")
  | Proposed (proposed_requires_restart: bool)

datatype change_work = NoChangeWork | ProposedWork | HeldWork

section \<open>Stored texts\<close>

definition coding_agent_source :: string where
  "coding_agent_source = ''claude_code''"

definition thread_type_from_source :: "string \<Rightarrow> thread_type" where
  "thread_type_from_source source = (if source = coding_agent_source then CodingAgent else Chat)"

fun archive_state_as_str :: "archive_state \<Rightarrow> string" where
  "archive_state_as_str Archived = ''archived''"
| "archive_state_as_str Inbox = ''inbox''"

definition archive_state_parse :: "string \<Rightarrow> archive_state" where
  "archive_state_parse s = (if s = ''inbox'' then Inbox else Archived)"

definition all_statuses :: "thread_status list" where
  "all_statuses = [Idle, Running, Waiting, WaitingForUserAnswer, Paused, Failed]"

fun status_as_str :: "thread_status \<Rightarrow> string" where
  "status_as_str Idle = ''idle''"
| "status_as_str Running = ''running''"
| "status_as_str Waiting = ''waiting''"
| "status_as_str WaitingForUserAnswer = ''waiting_for_user_answer''"
| "status_as_str Paused = ''paused''"
| "status_as_str Failed = ''failed''"

definition status_normalized :: "string \<Rightarrow> string" where
  "status_normalized s = replace_char (CHR ''-'') (CHR ''_'') (to_ascii_lowercase (trim s))"

definition status_try_parse :: "string \<Rightarrow> thread_status option" where
  "status_try_parse s = List.find (\<lambda>st. status_as_str st = status_normalized s) all_statuses"

definition status_parse :: "string \<Rightarrow> thread_status" where
  "status_parse s = (case status_try_parse s of None \<Rightarrow> Idle | Some st \<Rightarrow> st)"

fun status_sql_literal :: "thread_status \<Rightarrow> string" where
  "status_sql_literal Idle = [CHR 0x27] @ ''idle'' @ [CHR 0x27]"
| "status_sql_literal Running = [CHR 0x27] @ ''running'' @ [CHR 0x27]"
| "status_sql_literal Waiting = [CHR 0x27] @ ''waiting'' @ [CHR 0x27]"
| "status_sql_literal WaitingForUserAnswer = [CHR 0x27] @ ''waiting_for_user_answer'' @ [CHR 0x27]"
| "status_sql_literal Paused = [CHR 0x27] @ ''paused'' @ [CHR 0x27]"
| "status_sql_literal Failed = [CHR 0x27] @ ''failed'' @ [CHR 0x27]"

definition all_change_state_kinds :: "change_state_kind list" where
  "all_change_state_kinds = [NoWork, UnproposedKind, ProposedKind]"

fun change_state_kind_as_str :: "change_state_kind \<Rightarrow> string" where
  "change_state_kind_as_str NoWork = ''none''"
| "change_state_kind_as_str UnproposedKind = ''unproposed''"
| "change_state_kind_as_str ProposedKind = ''proposed''"

definition change_state_kind_parse :: "string \<Rightarrow> change_state_kind option" where
  "change_state_kind_parse value =
     List.find (\<lambda>k. change_state_kind_as_str k = value) all_change_state_kinds"

definition all_unproposed_reasons :: "unproposed_reason list" where
  "all_unproposed_reasons =
     [PlanMissing, PlanAwaitingApproval, OutsideBound, HardeningMissing, TurnIncomplete,
      AwaitingLanding, IntegratedIntoParent, CarriedBySuccessor]"

fun unproposed_reason_as_str :: "unproposed_reason \<Rightarrow> string" where
  "unproposed_reason_as_str PlanMissing = ''plan_missing''"
| "unproposed_reason_as_str PlanAwaitingApproval = ''plan_awaiting_approval''"
| "unproposed_reason_as_str OutsideBound = ''outside_bound''"
| "unproposed_reason_as_str HardeningMissing = ''hardening_missing''"
| "unproposed_reason_as_str TurnIncomplete = ''turn_incomplete''"
| "unproposed_reason_as_str AwaitingLanding = ''awaiting_landing''"
| "unproposed_reason_as_str IntegratedIntoParent = ''integrated_into_parent''"
| "unproposed_reason_as_str CarriedBySuccessor = ''carried_by_successor''"

definition unproposed_reason_parse :: "string \<Rightarrow> unproposed_reason option" where
  "unproposed_reason_parse value =
     List.find (\<lambda>r. unproposed_reason_as_str r = value) all_unproposed_reasons"

section \<open>The change state of a row\<close>

fun change_kind :: "coding_agent_change_state \<Rightarrow> change_state_kind" where
  "change_kind NoChangeState = NoWork"
| "change_kind (Unproposed r) = UnproposedKind"
| "change_kind (Proposed b) = ProposedKind"

definition is_proposed :: "coding_agent_change_state \<Rightarrow> bool" where
  "is_proposed c \<longleftrightarrow> change_kind c = ProposedKind"

definition change_from_columns :: "string \<Rightarrow> string option \<Rightarrow> bool \<Rightarrow> coding_agent_change_state" where
  "change_from_columns kind reason requires_restart =
     (case change_state_kind_parse kind of
        Some NoWork \<Rightarrow> NoChangeState
      | Some ProposedKind \<Rightarrow> Proposed requires_restart
      | Some UnproposedKind \<Rightarrow>
          Unproposed (case reason of None \<Rightarrow> None | Some r \<Rightarrow> unproposed_reason_parse r)
      | None \<Rightarrow> Unproposed None)"

fun change_work_of :: "change_state_kind \<Rightarrow> bool \<Rightarrow> change_work" where
  "change_work_of ProposedKind holds_live_wait = ProposedWork"
| "change_work_of UnproposedKind holds_live_wait = (if holds_live_wait then HeldWork else NoChangeWork)"
| "change_work_of NoWork holds_live_wait = NoChangeWork"

section \<open>Round trips\<close>

text \<open>
  The contract of a stored vocabulary: distinct texts, all of them listed, so the search that
  parses one is a left inverse of the texts and answers nothing else.
\<close>

locale vocabulary =
  fixes as_str :: "'a \<Rightarrow> string" and every :: "'a list"
  assumes listed: "x \<in> set every" and texts_differ: "as_str x = as_str y \<Longrightarrow> x = y"
begin

lemma find_text: "List.find (\<lambda>x. as_str x = u) every = Some x \<longleftrightarrow> u = as_str x"
proof
  assume "List.find (\<lambda>x. as_str x = u) every = Some x"
  then show "u = as_str x" by (auto simp: find_Some_iff)
next
  assume u: "u = as_str x"
  show "List.find (\<lambda>x. as_str x = u) every = Some x"
  proof (cases "List.find (\<lambda>x. as_str x = u) every")
    case None
    with listed [of x] u show ?thesis by (auto simp: find_None_iff)
  next
    case (Some y)
    then have "as_str y = as_str x" using u by (auto simp: find_Some_iff)
    with Some texts_differ show ?thesis by blast
  qed
qed

lemma find_none: "List.find (\<lambda>x. as_str x = u) every = None \<longleftrightarrow> u \<notin> range as_str"
  using listed by (auto simp: find_None_iff)

lemma parse_as_str: "List.find (\<lambda>y. as_str y = as_str x) every = Some x"
  by (simp add: find_text)

end

interpretation statuses: vocabulary status_as_str all_statuses
proof
  show "x \<in> set all_statuses" for x by (cases x) (simp_all add: all_statuses_def)
  show "status_as_str x = status_as_str y \<Longrightarrow> x = y" for x y by (cases x; cases y) simp_all
qed

interpretation kinds: vocabulary change_state_kind_as_str all_change_state_kinds
proof
  show "x \<in> set all_change_state_kinds" for x by (cases x) (simp_all add: all_change_state_kinds_def)
  show "change_state_kind_as_str x = change_state_kind_as_str y \<Longrightarrow> x = y" for x y
    by (cases x; cases y) simp_all
qed

interpretation reasons: vocabulary unproposed_reason_as_str all_unproposed_reasons
proof
  show "x \<in> set all_unproposed_reasons" for x by (cases x) (simp_all add: all_unproposed_reasons_def)
  show "unproposed_reason_as_str x = unproposed_reason_as_str y \<Longrightarrow> x = y" for x y
    by (cases x; cases y) simp_all
qed

text \<open>A text of small letters and separators is its own normal form, up to the separators.\<close>

definition plain :: "char \<Rightarrow> bool" where
  "plain c \<longleftrightarrow> (let n = (of_char c :: nat) in 97 \<le> n \<and> n \<le> 122 \<or> n = 95 \<or> n = 45)"

lemma plain_graphic: "plain c \<Longrightarrow> graphic c"
  by (auto simp: plain_def graphic_iff Let_def)

lemma plain_trim: "list_all plain s \<Longrightarrow> trim s = s"
  by (rule graphic_trim) (auto simp: list_all_iff plain_graphic)

lemma plain_lower: "list_all plain s \<Longrightarrow> to_ascii_lowercase s = s"
  by (induction s) (auto simp: to_ascii_lowercase_def plain_def Let_def)

lemma normalized_texts [lifecycle_simps]:
  "status_normalized (status_as_str st) = status_as_str st"
  "status_normalized (replace_char (CHR ''_'') (CHR ''-'') (status_as_str st)) = status_as_str st"
proof -
  have "list_all plain (status_as_str st)"
    "list_all plain (replace_char (CHR ''_'') (CHR ''-'') (status_as_str st))"
    by (cases st; simp add: plain_def replace_char_def)+
  then show "status_normalized (status_as_str st) = status_as_str st"
    "status_normalized (replace_char (CHR ''_'') (CHR ''-'') (status_as_str st)) = status_as_str st"
    by (simp_all add: status_normalized_def plain_trim plain_lower)
       (cases st; simp add: replace_char_def)+
qed

lemma state_texts_idle: "status_parse (status_as_str st) = st"
  by (simp only: status_parse_def status_try_parse_def lifecycle_simps statuses.parse_as_str option.case)

text \<open>The texts of a thread's state read back. A status is read from its stored text, in either
  spelling and whatever its letter case and surrounding space, and from no other text: the
  strict parser answers nothing then, the column's parser answers idle. A change state read from
  the columns it was written to is itself, and an unreadable kind never hides the branch's work.\<close>

theorem state_texts_round_trip:
  "(status_try_parse s = Some st \<longleftrightarrow> status_normalized s = status_as_str st) \<and>
   status_try_parse (status_as_str st) = Some st \<and>
   status_try_parse (replace_char (CHR ''_'') (CHR ''-'') (status_as_str st)) = Some st \<and>
   (status_parse s = st \<longleftrightarrow> status_normalized s = status_as_str st \<or>
      st = Idle \<and> status_normalized s \<notin> range status_as_str) \<and>
   archive_state_parse (archive_state_as_str a) = a \<and>
   change_from_columns (change_state_kind_as_str (change_kind c))
     (case c of Unproposed r \<Rightarrow> map_option unproposed_reason_as_str r | _ \<Rightarrow> None)
     (case c of Proposed b \<Rightarrow> b | _ \<Rightarrow> False) = c \<and>
   (change_kind (change_from_columns kind reason restart) = NoWork \<longleftrightarrow>
      kind = change_state_kind_as_str NoWork)"
proof -
  have strict: "status_try_parse u = Some v \<longleftrightarrow> status_normalized u = status_as_str v" for u v
    by (simp add: status_try_parse_def statuses.find_text)
  have none: "status_try_parse u = None \<longleftrightarrow> status_normalized u \<notin> range status_as_str" for u
    by (simp add: status_try_parse_def statuses.find_none)
  have lenient: "status_parse s = st \<longleftrightarrow> status_normalized s = status_as_str st \<or>
      st = Idle \<and> status_normalized s \<notin> range status_as_str"
    using strict [of s] none [of s] by (cases "status_try_parse s") (auto simp: status_parse_def)
  have columns: "change_from_columns (change_state_kind_as_str (change_kind c))
     (case c of Unproposed r \<Rightarrow> map_option unproposed_reason_as_str r | _ \<Rightarrow> None)
     (case c of Proposed b \<Rightarrow> b | _ \<Rightarrow> False) = c"
  proof -
    have "change_state_kind_parse (change_state_kind_as_str k) = Some k" for k
      by (simp only: change_state_kind_parse_def kinds.parse_as_str)
    moreover have "unproposed_reason_parse (unproposed_reason_as_str r) = Some r" for r
      by (simp only: unproposed_reason_parse_def reasons.parse_as_str)
    ultimately show ?thesis
      by (cases c; cases "unproposed_why c")
         (simp_all only: change_from_columns_def change_kind.simps option.simps
            change_state_kind.simps coding_agent_change_state.simps coding_agent_change_state.sel)
  qed
  have kind: "change_kind (change_from_columns kind reason restart) = NoWork \<longleftrightarrow>
      kind = change_state_kind_as_str NoWork"
  proof -
    have "change_kind (change_from_columns kind reason restart) = NoWork \<longleftrightarrow>
        change_state_kind_parse kind = Some NoWork"
      by (auto simp: change_from_columns_def split: option.splits change_state_kind.splits)
    then show ?thesis by (simp only: change_state_kind_parse_def kinds.find_text)
  qed
  have "archive_state_parse (archive_state_as_str a) = a"
    by (cases a) (simp_all add: archive_state_parse_def)
  with strict lenient columns kind show ?thesis by (simp add: lifecycle_simps)
qed

end
