(* ===== verification/Thread_Events.thy ===== *)
theory Thread_Events
  imports Thread_Status
begin

text \<open>
  How an event moves a thread (\<open>engine/thread_lifecycle.rs\<close>): its class, the section its row
  moves to, and its effect on status and change flags. Each \<open>match\<close> of the code is a table of
  its arms in the order of the source, neighbouring arms with one result joined; the first arm
  that names the event decides.
\<close>

section \<open>Classes\<close>

definition class_arms :: "(string list \<times> event_class) list" where
  "class_arms =
    [([''ThreadTitleGenerated'', ''ThreadTitleRenamed'', ''ThreadSaved'', ''ThreadUnsaved'',
       ''TriggerRunInterrupted'', ''ThreadArchiveRequested'', ''ThreadUnarchived'',
       ''ThreadTriageProposed'', ''ThreadReadRequested'', ''ThreadReadNotRequested'',
       ''ThreadReplySeen'', ''ParentWakeRequested'', ''ParentWakeNotRequested'',
       ''ApplyNowStarted'', ''ApplyNowEnded'', ''QueuedMessageRemoved'', ''MessageHeld'',
       ''HeldMessageReleased'', ''CodingAgentInputRead'', ''CodingAgentInputDiscarded'',
       ''ChildReportTaken'', ''ThreadStarted'', ''ThreadDiscarded'', ''HomeThreadCreated'',
       ''ImageUploaded''],
       Metadata),
     ([''MessageReceived'', ''TriggerStarted'', ''CodingAgentUserMessageSent'', ''PromptInjected''],
       Start),
     ([''SessionStarted'', ''ContinuationStarted'', ''CodingAgentSettingsChanged'',
       ''ChatSettingsChanged'', ''CodingAgentCompacted'', ''SuccessorThreadSpawned'',
       ''SessionHandedOff'', ''HandoffCheckpointReached'', ''SuccessorOfferDeclined'',
       ''SuccessorRequested'', ''VoiceSessionStarted'', ''VoiceSessionEnded'',
       ''SpokenReplyGenerated'', ''SpokenMessageReceived'', ''SideQuestionAsked'',
       ''SideQuestionAnswered'', ''SideQuestionFailed'', ''SideQuestionDismissed''],
       Metadata),
     ([''WorkDelegated'', ''MergeConflictDetected'', ''MissingHardeningDetected''],
       Start),
     ([''TextStreamed'', ''ThoughtStreamed'', ''MemoryRecalled''],
       Activity),
     ([''ContextCaptured'', ''ModelCallFailed''],
       Metadata),
     ([''ToolCalled'', ''ToolResult'', ''TodoListWritten''],
       Activity),
     ([''BackgroundBashStarted'', ''BackgroundBashCompleted'', ''OwnerApprovalRequested'',
       ''OwnerApprovalSpent'', ''CommandCheckpointed'', ''CommandCheckpointReverted'',
       ''WidgetShown'', ''WidgetPinned'', ''WidgetUnpinned'', ''InlineWidgetSized'',
       ''ThreadMcpServerEnabled'', ''ThreadMcpServerDisabled'', ''HomeBoardArranged''],
       Metadata),
     ([''CodingAgentTextStreamed'', ''CodingAgentThoughtStreamed'', ''CodingAgentToolCalled'',
       ''CodingAgentToolResult'', ''CodingAgentPromptSent'', ''CredentialRequested'',
       ''McpConsentRequested'', ''PluginInstallRequested'', ''PluginUninstallRequested'',
       ''EmailConfirmRequested'', ''OAuthAuthorizationRequested''],
       Activity),
     ([''FormRequestResolved''],
       Metadata),
     ([''ResponseGenerated'', ''ResponseCanceled'', ''ResponseAborted'', ''SessionEnded'',
       ''ThreadArchived'', ''TriggerCompleted'', ''ChangeApplied'', ''ChangeDiscarded'',
       ''ChangeReverted'', ''ChangeApplyFailed''],
       Terminal),
     ([''ResponseFailed'', ''CodingAgentIdled'', ''ChangeProposed'', ''UserQuestionAsked'',
       ''CodingAgentPermissionRequest'', ''CommandPermissionRequested'',
       ''McpPermissionRequested''],
       ActionRequired),
     ([''ContinuationRequested''],
       Start),
     ([''UserQuestionAnswered'', ''CodingAgentPermissionResolved'', ''CommandPermissionResolved'',
       ''McpPermissionResolved''],
       Activity),
     ([''WorktreeCleaned'', ''ChangeHardened'', ''ChangeSummarized'', ''ChangeSetAside'',
       ''ChangeBroughtBack'', ''ChangeWithdrawn'', ''ProposalWithheld'', ''ChangeQueued'',
       ''ChangeUnqueued'', ''MergeResolutionStarted'', ''MergeResolutionCleared''],
       Metadata),
     ([''ChildThreadCompleted''],
       Start),
     ([''ChildThreadStopped'', ''ChildReportFiled'', ''ChildThreadDetached'',
       ''ContextDismissed'', ''ContextKeptOpen'', ''WorkingUnderstandingWritten'',
       ''ImageDescribed'', ''ConversationSummarized''],
       Metadata),
     ([''EventWaitStarted'', ''EventWaitDelivered'', ''EventWaitExpired'', ''EventWaitCanceled''],
       Activity),
     ([''CacheKeepAliveStatusChanged'', ''CacheKeepAliveTurnedOff'', ''CacheKeepAliveTurnedOn'',
       ''WakeExpected''],
       Metadata)]"

fun first_arm :: "(string list \<times> 'b) list \<Rightarrow> string \<Rightarrow> 'b option" where
  "first_arm [] event_type = None"
| "first_arm ((names, result) # arms) event_type =
     (if event_type \<in> set names then Some result else first_arm arms event_type)"

definition classify_event :: "string \<Rightarrow> event_class option" where
  "classify_event event_type = first_arm class_arms event_type"

definition all_persisted_event_types :: "string list" where
  "all_persisted_event_types =
    [''MessageReceived'', ''QueuedMessageRemoved'', ''MessageHeld'', ''HeldMessageReleased'',
     ''TextStreamed'', ''ThoughtStreamed'', ''ContextCaptured'', ''ModelCallFailed'',
     ''MemoryRecalled'', ''ToolCalled'', ''ToolResult'', ''TodoListWritten'',
     ''WorkingUnderstandingWritten'', ''ResponseGenerated'', ''ResponseCanceled'',
     ''ResponseAborted'', ''ResponseFailed'', ''SessionStarted'', ''ContinuationStarted'',
     ''SessionEnded'', ''CodingAgentTextStreamed'', ''CodingAgentThoughtStreamed'',
     ''CodingAgentToolCalled'', ''CodingAgentToolResult'', ''CodingAgentUserMessageSent'',
     ''CodingAgentPromptSent'', ''CodingAgentInputRead'', ''CodingAgentInputDiscarded'',
     ''ChildReportTaken'', ''CodingAgentIdled'', ''ContinuationRequested'',
     ''MissingHardeningDetected'', ''ThreadTitleGenerated'', ''ThreadTitleRenamed'',
     ''ThreadSaved'', ''ThreadUnsaved'', ''ThreadArchived'', ''ThreadArchiveRequested'',
     ''ThreadUnarchived'', ''ThreadReadRequested'', ''ThreadReadNotRequested'',
     ''ParentWakeRequested'', ''ParentWakeNotRequested'', ''ApplyNowStarted'', ''ApplyNowEnded'',
     ''ThreadReplySeen'', ''ThreadTriageProposed'', ''ThreadStarted'', ''ThreadDiscarded'',
     ''HomeThreadCreated'', ''ImageUploaded'', ''TriggerStarted'', ''TriggerRunInterrupted'',
     ''TriggerCompleted'', ''ChangeProposed'', ''ChangeApplied'', ''ChangeDiscarded'',
     ''ChangeReverted'', ''ChangeSetAside'', ''ChangeBroughtBack'', ''ChangeWithdrawn'',
     ''ProposalWithheld'', ''ChangeQueued'', ''ChangeUnqueued'', ''ChangeApplyFailed'',
     ''ChangeHardened'', ''ChangeSummarized'', ''MergeConflictDetected'',
     ''MergeResolutionStarted'', ''MergeResolutionCleared'', ''PromptInjected'',
     ''CredentialRequested'', ''PluginInstallRequested'', ''PluginUninstallRequested'',
     ''EmailConfirmRequested'', ''OAuthAuthorizationRequested'', ''FormRequestResolved'',
     ''McpConsentRequested'', ''CodingAgentSettingsChanged'', ''ChatSettingsChanged'',
     ''CodingAgentCompacted'', ''SuccessorThreadSpawned'', ''SessionHandedOff'',
     ''HandoffCheckpointReached'', ''SuccessorOfferDeclined'', ''SuccessorRequested'',
     ''UserQuestionAsked'', ''UserQuestionAnswered'', ''CodingAgentPermissionRequest'',
     ''CodingAgentPermissionResolved'', ''CommandPermissionRequested'',
     ''CommandPermissionResolved'', ''McpPermissionRequested'', ''McpPermissionResolved'',
     ''WorktreeCleaned'', ''ChildThreadCompleted'', ''ChildReportFiled'', ''ChildThreadStopped'',
     ''ChildThreadDetached'', ''ContextDismissed'', ''ContextKeptOpen'',
     ''BackgroundBashStarted'', ''BackgroundBashCompleted'', ''OwnerApprovalRequested'',
     ''OwnerApprovalSpent'', ''ImageDescribed'', ''ConversationSummarized'',
     ''CommandCheckpointed'', ''CommandCheckpointReverted'', ''EventWaitStarted'',
     ''EventWaitDelivered'', ''EventWaitExpired'', ''EventWaitCanceled'',
     ''CacheKeepAliveStatusChanged'', ''CacheKeepAliveTurnedOff'', ''CacheKeepAliveTurnedOn'',
     ''WakeExpected'', ''VoiceSessionStarted'', ''VoiceSessionEnded'', ''SpokenReplyGenerated'',
     ''SpokenMessageReceived'', ''WorkDelegated'', ''SideQuestionAsked'',
     ''SideQuestionAnswered'', ''SideQuestionFailed'', ''SideQuestionDismissed'', ''WidgetShown'',
     ''WidgetPinned'', ''WidgetUnpinned'', ''InlineWidgetSized'', ''ThreadMcpServerEnabled'',
     ''ThreadMcpServerDisabled'', ''HomeBoardArranged'']"

section \<open>Sections\<close>

definition chat_legal_sections :: "archive_state list" where
  "chat_legal_sections = [Archived, Inbox]"

definition cc_legal_sections :: "archive_state list" where
  "cc_legal_sections = [Archived, Inbox]"

fun is_section_legal :: "thread_type \<Rightarrow> archive_state \<Rightarrow> bool" where
  "is_section_legal Chat section \<longleftrightarrow> section \<in> set chat_legal_sections"
| "is_section_legal CodingAgent section \<longleftrightarrow> section \<in> set cc_legal_sections"

record lifecycle_violation =
  lv_event_type :: string
  lv_thread_type :: thread_type
  lv_current_section :: archive_state
  lv_reason :: string

record transition_result =
  tr_new_section :: "archive_state option"

definition waiting_for_user_answer_events :: "string list" where
  "waiting_for_user_answer_events =
    [''UserQuestionAsked'', ''CodingAgentPermissionRequest'', ''CommandPermissionRequested'',
     ''McpPermissionRequested'']"

text \<open>What an arm says, for a chat thread and for a coding-agent thread.\<close>

datatype section_effect = Stay | Move archive_state | Illegal string

definition section_arms :: "(string list \<times> section_effect \<times> section_effect) list" where
  "section_arms =
    [([''ResponseGenerated''],
       Move Inbox, Stay),
     ([''CodingAgentIdled''],
       Illegal ''CodingAgentIdled is CC-only'', Move Inbox),
     ([''ChangeApplied'', ''ChangeDiscarded''],
       Stay, Stay),
     ([''ThreadArchived''],
       Move Archived, Move Archived),
     ([''ThreadSaved'', ''ThreadUnarchived''],
       Move Inbox, Move Inbox),
     ([''SessionStarted'', ''SessionEnded'', ''CodingAgentTextStreamed'',
       ''CodingAgentThoughtStreamed'', ''CodingAgentToolCalled'', ''CodingAgentToolResult'',
       ''CodingAgentUserMessageSent'', ''CodingAgentPromptSent'', ''CodingAgentInputRead'',
       ''CodingAgentInputDiscarded'', ''ChildReportTaken'', ''MissingHardeningDetected'',
       ''CodingAgentSettingsChanged'', ''CodingAgentCompacted'', ''SuccessorThreadSpawned'',
       ''SessionHandedOff'', ''HandoffCheckpointReached'', ''SuccessorOfferDeclined'',
       ''SuccessorRequested'', ''ContinuationRequested''],
       Illegal ''coding-agent-specific event on Chat thread'', Stay),
     ([''ResponseAborted'', ''ResponseFailed'', ''ResponseCanceled'', ''TriggerRunInterrupted''],
       Move Inbox, Move Inbox),
     ([''ChangeProposed''],
       Illegal ''ChangeProposed is coding-agent-only'', Move Inbox),
     ([''ChangeBroughtBack''],
       Illegal ''ChangeBroughtBack is coding-agent-only'', Move Inbox),
     ([''ChangeWithdrawn''],
       Illegal ''ChangeWithdrawn is coding-agent-only'', Move Inbox),
     ([''ProposalWithheld''],
       Illegal ''ProposalWithheld is coding-agent-only'', Stay),
     ([''ChangeQueued'', ''ChangeUnqueued''],
       Illegal ''the landing lane is coding-agent-only'', Stay),
     ([''UserQuestionAsked''],
       Move Inbox, Move Inbox),
     ([''UserQuestionAnswered''],
       Stay, Stay),
     ([''CodingAgentPermissionRequest''],
       Illegal ''CodingAgentPermissionRequest is CC-only'', Move Inbox),
     ([''CodingAgentPermissionResolved''],
       Illegal ''CodingAgentPermissionResolved is CC-only'', Stay),
     ([''CommandPermissionRequested''],
       Move Inbox, Illegal ''CommandPermissionRequested is chat-only''),
     ([''CommandPermissionResolved''],
       Stay, Illegal ''CommandPermissionResolved is chat-only''),
     ([''McpPermissionRequested''],
       Move Inbox, Illegal ''McpPermissionRequested is chat-only''),
     ([''McpPermissionResolved''],
       Stay, Illegal ''McpPermissionResolved is chat-only''),
     ([''ChatSettingsChanged''],
       Stay, Illegal ''ChatSettingsChanged is chat-only''),
     ([''MessageReceived'', ''QueuedMessageRemoved'', ''MessageHeld'', ''HeldMessageReleased'',
       ''TextStreamed'', ''ThoughtStreamed'', ''ContextCaptured'', ''ModelCallFailed'',
       ''MemoryRecalled'', ''ToolCalled'', ''ToolResult'', ''TodoListWritten'',
       ''WorkingUnderstandingWritten'', ''ContinuationStarted'', ''ThreadTitleGenerated'',
       ''ThreadTitleRenamed'', ''ThreadUnsaved'', ''ThreadArchiveRequested'',
       ''ThreadReadRequested'', ''ThreadReadNotRequested'', ''ParentWakeRequested'',
       ''ParentWakeNotRequested'', ''ApplyNowStarted'', ''ApplyNowEnded'', ''ThreadReplySeen'',
       ''ThreadTriageProposed'', ''TriggerStarted'', ''TriggerCompleted'', ''ChangeReverted'',
       ''ChangeSetAside'', ''ChangeApplyFailed'', ''ChangeHardened'', ''ChangeSummarized'',
       ''MergeConflictDetected'', ''MergeResolutionStarted'', ''MergeResolutionCleared'',
       ''PromptInjected'', ''CredentialRequested'', ''PluginInstallRequested'',
       ''PluginUninstallRequested'', ''EmailConfirmRequested'', ''OAuthAuthorizationRequested'',
       ''FormRequestResolved'', ''McpConsentRequested'', ''ThreadStarted'', ''ThreadDiscarded'',
       ''HomeThreadCreated'', ''ImageUploaded'', ''WorktreeCleaned'', ''ChildThreadCompleted'',
       ''ChildThreadStopped'', ''ChildReportFiled'', ''ChildThreadDetached'',
       ''ContextDismissed'', ''ContextKeptOpen'', ''BackgroundBashStarted'',
       ''BackgroundBashCompleted'', ''OwnerApprovalRequested'', ''OwnerApprovalSpent'',
       ''ImageDescribed'', ''ConversationSummarized'', ''CommandCheckpointed'',
       ''CommandCheckpointReverted'', ''EventWaitStarted'', ''EventWaitDelivered'',
       ''EventWaitExpired'', ''EventWaitCanceled'', ''CacheKeepAliveStatusChanged'',
       ''CacheKeepAliveTurnedOff'', ''CacheKeepAliveTurnedOn'', ''WakeExpected'',
       ''VoiceSessionStarted'', ''VoiceSessionEnded'', ''SpokenReplyGenerated'',
       ''SpokenMessageReceived'', ''WorkDelegated'', ''SideQuestionAsked'',
       ''SideQuestionAnswered'', ''SideQuestionFailed'', ''SideQuestionDismissed'',
       ''WidgetShown'', ''WidgetPinned'', ''WidgetUnpinned'', ''InlineWidgetSized'',
       ''ThreadMcpServerEnabled'', ''ThreadMcpServerDisabled'', ''HomeBoardArranged''],
       Stay, Stay)]"

definition section_move :: "string \<Rightarrow> thread_type \<Rightarrow> section_effect" where
  "section_move event_type thread_type =
     (case first_arm section_arms event_type of
        None \<Rightarrow> Illegal ''Unknown event type''
      | Some (chat, coding_agent) \<Rightarrow> if thread_type = Chat then chat else coding_agent)"

definition resolve_transition ::
  "string \<Rightarrow> thread_type \<Rightarrow> archive_state \<Rightarrow> bool \<Rightarrow> lifecycle_violation + transition_result" where
  "resolve_transition event_type thread_type current_section is_unattended =
     (case section_move event_type thread_type of
        Illegal reason \<Rightarrow>
          Inl \<lparr>lv_event_type = event_type, lv_thread_type = thread_type,
               lv_current_section = current_section, lv_reason = reason\<rparr>
      | move \<Rightarrow>
          (let new_section = (case move of Move section \<Rightarrow> Some section | _ \<Rightarrow> None)
           in if is_unattended \<and> thread_type \<noteq> CodingAgent \<and> new_section = Some Inbox \<and>
                 event_type \<notin> set waiting_for_user_answer_events \<and>
                 event_type \<noteq> ''ThreadUnarchived'' \<and> event_type \<noteq> ''TriggerRunInterrupted''
              then Inr \<lparr>tr_new_section = Some Archived\<rparr>
              else Inr \<lparr>tr_new_section = new_section\<rparr>))"

definition is_retention_legal :: "archive_state \<Rightarrow> bool \<Rightarrow> bool" where
  "is_retention_legal archive_state is_saved \<longleftrightarrow> \<not> is_saved \<or> archive_state = Inbox"

definition display_section ::
  "archive_state \<Rightarrow> thread_status \<Rightarrow> bool \<Rightarrow> bool \<Rightarrow> bool \<Rightarrow> bool \<Rightarrow> sidebar_section" where
  "display_section stored status is_saved has_active_children has_pending_changes
     has_attention_descendants =
     (if is_saved then Saved
      else
        let demands_surface =
              status = Running \<or> has_active_children \<or> has_pending_changes \<or>
              has_attention_descendants
        in if stored = Archived \<and> \<not> demands_surface then ArchiveSection else Current)"

section \<open>Status\<close>

datatype status_rule = SetStatus thread_status | NoChange

datatype cc_flag_rule = ClearAll | SetChanges | FromPayload | KeepFlags

definition status_transitions :: "(string \<times> status_rule \<times> cc_flag_rule) list" where
  "status_transitions =
    [(''MessageReceived'', SetStatus Running, KeepFlags),
     (''TriggerStarted'', SetStatus Running, KeepFlags),
     (''CodingAgentUserMessageSent'', SetStatus Running, KeepFlags),
     (''PromptInjected'', SetStatus Running, KeepFlags),
     (''CodingAgentPromptSent'', SetStatus Running, KeepFlags),
     (''CodingAgentInputRead'', SetStatus Running, KeepFlags),
     (''ContinuationRequested'', SetStatus Running, KeepFlags),
     (''ResponseGenerated'', SetStatus Idle, KeepFlags),
     (''ResponseCanceled'', SetStatus Idle, KeepFlags),
     (''SessionEnded'', SetStatus Idle, KeepFlags),
     (''ResponseAborted'', SetStatus Failed, KeepFlags),
     (''ResponseFailed'', SetStatus Failed, KeepFlags),
     (''TriggerCompleted'', SetStatus Idle, KeepFlags),
     (''CodingAgentIdled'', SetStatus Idle, FromPayload),
     (''ChangeProposed'', NoChange, SetChanges),
     (''ChangeApplied'', SetStatus Idle, ClearAll),
     (''ChangeDiscarded'', SetStatus Idle, ClearAll),
     (''UserQuestionAsked'', SetStatus WaitingForUserAnswer, KeepFlags),
     (''UserQuestionAnswered'', SetStatus Running, KeepFlags),
     (''CodingAgentPermissionRequest'', SetStatus WaitingForUserAnswer, KeepFlags),
     (''CodingAgentPermissionResolved'', SetStatus Running, KeepFlags),
     (''CommandPermissionRequested'', SetStatus WaitingForUserAnswer, KeepFlags),
     (''CommandPermissionResolved'', SetStatus Running, KeepFlags),
     (''McpPermissionRequested'', SetStatus WaitingForUserAnswer, KeepFlags),
     (''McpPermissionResolved'', SetStatus Running, KeepFlags),
     (''ThreadArchived'', SetStatus Idle, ClearAll),
     (''TextStreamed'', SetStatus Running, KeepFlags),
     (''ThoughtStreamed'', SetStatus Running, KeepFlags),
     (''MemoryRecalled'', SetStatus Running, KeepFlags),
     (''ToolCalled'', SetStatus Running, KeepFlags),
     (''ToolResult'', SetStatus Running, KeepFlags),
     (''CodingAgentTextStreamed'', SetStatus Running, KeepFlags),
     (''CodingAgentThoughtStreamed'', SetStatus Running, KeepFlags),
     (''CodingAgentToolCalled'', SetStatus Running, KeepFlags),
     (''CodingAgentToolResult'', SetStatus Running, KeepFlags)]"

definition last_activity_events :: "string list" where
  "last_activity_events =
    [''MessageReceived'', ''TriggerStarted'', ''ResponseGenerated'', ''ResponseAborted'',
     ''CodingAgentIdled'', ''ChangeApplied'', ''ChangeDiscarded'', ''CodingAgentUserMessageSent'',
     ''PromptInjected'', ''TriggerCompleted'', ''UserQuestionAsked'', ''UserQuestionAnswered'',
     ''CodingAgentPermissionRequest'', ''CodingAgentPermissionResolved'',
     ''CommandPermissionRequested'', ''CommandPermissionResolved'', ''McpPermissionRequested'',
     ''McpPermissionResolved'', ''ContinuationRequested'', ''ToolCalled'', ''ToolResult'',
     ''TextStreamed'', ''ThoughtStreamed'', ''MemoryRecalled'', ''CodingAgentTextStreamed'',
     ''CodingAgentThoughtStreamed'', ''CodingAgentToolCalled'', ''CodingAgentToolResult'',
     ''VoiceSessionStarted'', ''SpokenMessageReceived'', ''SpokenReplyGenerated'']"

definition message_count_events :: "string list" where
  "message_count_events =
    [''MessageReceived'', ''TriggerStarted'', ''CodingAgentUserMessageSent'', ''PromptInjected'']"

definition status_rule_of :: "string \<Rightarrow> status_rule" where
  "status_rule_of event_type =
     (case map_of status_transitions event_type of None \<Rightarrow> NoChange | Some (rule, flags) \<Rightarrow> rule)"

definition cc_flag_rule_of :: "string \<Rightarrow> cc_flag_rule" where
  "cc_flag_rule_of event_type =
     (case map_of status_transitions event_type of None \<Rightarrow> KeepFlags | Some (rule, flags) \<Rightarrow> flags)"

end
