(* ===== verification/Thread_Event_Properties.thy ===== *)
theory Thread_Event_Properties
  imports Thread_Events
begin

text \<open>
  What the event tables promise together: they name the same events, an event that parks a
  thread on the user always surfaces it, nothing but an archive takes an attended thread out of
  the inbox, and a pinned thread never leaves it.
\<close>

section \<open>The tables\<close>

lemma first_arm_Some:
  "first_arm arms t = Some r \<Longrightarrow> \<exists>names. (names, r) \<in> set arms \<and> t \<in> set names"
  by (induction arms t rule: first_arm.induct) (auto split: if_splits)

lemma first_arm_None: "first_arm arms t = None \<longleftrightarrow> t \<notin> set (concat (map fst arms))"
  by (induction arms t rule: first_arm.induct) auto

text \<open>An arm decides every event it names when no other arm names it.\<close>

lemma first_arm_all:
  "(\<And>names r t. (names, r) \<in> set arms \<Longrightarrow> t \<in> set names \<Longrightarrow> P t r) \<Longrightarrow>
     first_arm arms t = Some r \<Longrightarrow> P t r"
  using first_arm_Some by fast

lemma section_move_arm:
  assumes "first_arm section_arms t = Some (chat, coding_agent)"
  shows "\<exists>names. (names, chat, coding_agent) \<in> set section_arms \<and> t \<in> set names"
  using first_arm_Some [OF assms] by blast

lemma only_archive_archives:
  assumes "section_move t tt = Move Archived"
  shows "t = ''ThreadArchived''"
proof (cases "first_arm section_arms t")
  case None
  with assms show ?thesis by (simp add: section_move_def)
next
  case (Some r)
  obtain chat coding_agent where r: "r = (chat, coding_agent)" by (cases r)
  with Some assms have "chat = Move Archived \<or> coding_agent = Move Archived"
    by (auto simp: section_move_def split: if_splits)
  with section_move_arm [of t chat coding_agent] Some r show ?thesis
    by (auto simp: section_arms_def)
qed

lemma park_arms:
  "list_all (\<lambda>t. section_move t Chat \<in> {Move Inbox, Illegal (t @ '' is CC-only'')} \<and>
     section_move t CodingAgent \<in> {Move Inbox, Illegal (t @ '' is chat-only'')})
   waiting_for_user_answer_events"
  by code_simp

lemma park_legal:
  "list_all (\<lambda>t. section_move t Chat = Move Inbox \<or> section_move t CodingAgent = Move Inbox)
     waiting_for_user_answer_events"
  by code_simp

text \<open>The events that set a thread running.\<close>

definition running_events :: "string list" where
  "running_events =
     [''MessageReceived'', ''TriggerStarted'', ''CodingAgentUserMessageSent'',
      ''PromptInjected'', ''CodingAgentPromptSent'', ''CodingAgentInputRead'',
      ''ContinuationRequested'', ''UserQuestionAnswered'',
      ''CodingAgentPermissionResolved'', ''CommandPermissionResolved'',
      ''McpPermissionResolved'', ''TextStreamed'', ''ThoughtStreamed'', ''MemoryRecalled'',
      ''ToolCalled'', ''ToolResult'', ''CodingAgentTextStreamed'',
      ''CodingAgentThoughtStreamed'', ''CodingAgentToolCalled'', ''CodingAgentToolResult'']"

lemma running_rule:
  "status_rule_of t = SetStatus Running \<Longrightarrow> t \<in> set running_events"
  by (simp add: status_rule_of_def status_transitions_def running_events_def split: if_splits)

lemma running_class:
  "list_all (\<lambda>t. case classify_event t of None \<Rightarrow> False
     | Some c \<Rightarrow> c \<noteq> Terminal \<and> c \<noteq> ActionRequired) running_events"
  by code_simp

lemma resolve_Inr:
  "resolve_transition t tt sec u = Inr r \<longleftrightarrow>
     (case section_move t tt of
        Illegal why \<Rightarrow> False
      | Stay \<Rightarrow> r = \<lparr>tr_new_section = None\<rparr>
      | Move s \<Rightarrow> r = \<lparr>tr_new_section = Some
          (if u \<and> tt = Chat \<and> s = Inbox \<and> t \<notin> set waiting_for_user_answer_events \<and>
              t \<noteq> ''ThreadUnarchived'' \<and> t \<noteq> ''TriggerRunInterrupted'' then Archived else s)\<rparr>)"
  by (cases tt; cases "section_move t tt") (auto simp: resolve_transition_def Let_def)

section \<open>Sections\<close>

lemma only_unattended_arm:
  assumes "resolve_transition t tt sec unattended = Inr r" "tr_new_section r = Some Archived"
  shows "t = ''ThreadArchived'' \<or>
    unattended \<and> tt = Chat \<and> t \<notin> set waiting_for_user_answer_events \<and>
    t \<noteq> ''ThreadUnarchived'' \<and> t \<noteq> ''TriggerRunInterrupted'' \<and>
    (\<exists>r'. resolve_transition t tt sec False = Inr r' \<and> tr_new_section r' = Some Inbox)"
proof (cases "section_move t tt")
  case (Move s)
  show ?thesis
  proof (cases s)
    case Archived
    with Move only_archive_archives show ?thesis by simp
  next
    case Inbox
    with assms Move show ?thesis by (auto simp: resolve_Inr split: if_splits)
  qed
qed (use assms in \<open>auto simp: resolve_Inr\<close>)

text \<open>C1. An unattended run hides, and only an archive takes an attended thread out of the inbox.
  Whenever an event lands, the section it names is the archive only for \<open>ThreadArchived\<close>, or for
  a chat thread nobody watches; and then no event that parks the thread on the user, no undo
  and no report of an interrupted run is hidden. A coding-agent thread is never hidden.\<close>

theorem only_unattended_runs_hide:
  assumes "resolve_transition t tt sec unattended = Inr r" "tr_new_section r = Some Archived"
  shows "t = ''ThreadArchived'' \<or>
    unattended \<and> tt = Chat \<and> t \<notin> set waiting_for_user_answer_events \<and>
    t \<noteq> ''ThreadUnarchived'' \<and> t \<noteq> ''TriggerRunInterrupted'' \<and>
    (\<exists>r'. resolve_transition t tt sec False = Inr r' \<and> tr_new_section r' = Some Inbox)"
  by (rule only_unattended_arm [OF assms])

theorem only_unattended_runs_hide_witness:
  "\<exists>r. resolve_transition ''ResponseGenerated'' Chat Inbox True = Inr r \<and>
     tr_new_section r = Some Archived \<and> ''ResponseGenerated'' \<notin> set waiting_for_user_answer_events"
proof -
  have r: "resolve_transition ''ResponseGenerated'' Chat Inbox True = Inr \<lparr>tr_new_section = Some Archived\<rparr>"
    by code_simp
  from only_unattended_runs_hide [OF r] r show ?thesis by simp
qed

text \<open>A thread that parks on the user surfaces. The events whose rule sets the status to waiting
  for the user's answer are exactly the listed ones, and whenever one of them is legal it moves
  the thread to the inbox, however unattended the run is.\<close>

theorem parked_threads_surface:
  "(status_rule_of t = SetStatus WaitingForUserAnswer \<longleftrightarrow> t \<in> set waiting_for_user_answer_events) \<and>
   (t \<in> set waiting_for_user_answer_events \<longrightarrow>
      (\<forall>tt sec unattended. case resolve_transition t tt sec unattended of
         Inl v \<Rightarrow> True | Inr r \<Rightarrow> tr_new_section r = Some Inbox) \<and>
      (\<exists>tt. \<forall>sec unattended. resolve_transition t tt sec unattended = Inr \<lparr>tr_new_section = Some Inbox\<rparr>))"
proof -
  have rule: "status_rule_of t = SetStatus WaitingForUserAnswer \<longleftrightarrow> t \<in> set waiting_for_user_answer_events"
    by (auto simp: status_rule_of_def status_transitions_def waiting_for_user_answer_events_def
        split: if_splits)
  have arms: "section_move t Chat \<in> {Move Inbox, Illegal (t @ '' is CC-only'')}"
    "section_move t CodingAgent \<in> {Move Inbox, Illegal (t @ '' is chat-only'')}"
    "section_move t Chat = Move Inbox \<or> section_move t CodingAgent = Move Inbox"
    if "t \<in> set waiting_for_user_answer_events"
    using that park_arms park_legal by (simp_all add: list_all_iff)
  have "case resolve_transition t tt sec unattended of Inl v \<Rightarrow> True | Inr r \<Rightarrow> tr_new_section r = Some Inbox"
    if "t \<in> set waiting_for_user_answer_events" for tt sec unattended
  proof (cases "resolve_transition t tt sec unattended")
    case (Inr r)
    with arms(1,2) [OF that] that have "tr_new_section r = Some Inbox"
      by (cases tt) (auto simp: resolve_Inr split: section_effect.splits)
    with Inr show ?thesis by simp
  qed simp
  moreover have "\<exists>tt. \<forall>sec unattended.
      resolve_transition t tt sec unattended = Inr \<lparr>tr_new_section = Some Inbox\<rparr>"
    if "t \<in> set waiting_for_user_answer_events"
    using arms(3) [OF that]
  proof
    assume "section_move t Chat = Move Inbox"
    with that show ?thesis by (intro exI [of _ Chat]) (simp add: resolve_Inr)
  next
    assume "section_move t CodingAgent = Move Inbox"
    with that show ?thesis by (intro exI [of _ CodingAgent]) (simp add: resolve_Inr)
  qed
  ultimately show ?thesis using rule by blast
qed

theorem parked_threads_surface_witness:
  "resolve_transition ''UserQuestionAsked'' Chat Archived True = Inr \<lparr>tr_new_section = Some Inbox\<rparr> \<or>
   resolve_transition ''UserQuestionAsked'' CodingAgent Archived True = Inr \<lparr>tr_new_section = Some Inbox\<rparr>"
proof -
  have "''UserQuestionAsked'' \<in> set waiting_for_user_answer_events"
    by (simp add: waiting_for_user_answer_events_def)
  with parked_threads_surface [of "''UserQuestionAsked''"] obtain tt where
    "resolve_transition ''UserQuestionAsked'' tt Archived True = Inr \<lparr>tr_new_section = Some Inbox\<rparr>"
    by blast
  then show ?thesis by (cases tt) blast+
qed

text \<open>The end of a turn never starts one. An event whose rule sets a thread running is classified,
  and neither as terminal nor as one that asks the user to act.\<close>

theorem running_is_never_an_end:
  assumes "status_rule_of t = SetStatus Running"
  shows "\<exists>c. classify_event t = Some c \<and> c \<noteq> Terminal \<and> c \<noteq> ActionRequired"
  using running_rule [OF assms] running_class by (auto simp: list_all_iff split: option.splits)

theorem running_is_never_an_end_witness:
  "\<exists>c. classify_event ''MessageReceived'' = Some c \<and> c \<noteq> Terminal \<and> c \<noteq> ActionRequired"
  by (rule running_is_never_an_end) (simp add: status_rule_of_def status_transitions_def)

end
