(* ===== verification/Thread_Rows.thy ===== *)
theory Thread_Rows
  imports Thread_Event_Properties
begin

text \<open>
  The pin and the section of a thread's row as the event bus projects them
  (\<open>event_bus_projection_thread.rs\<close>): the write of the pin and the section by the event's own arm,
  the verdict whether anybody watches the run, and the section transition after it. An event
  that the lifecycle refuses rolls the whole projection back.
\<close>

section \<open>Projecting one event\<close>

record thread_row =
  row_section :: archive_state
  row_saved :: bool
  row_composing :: bool

text \<open>What the projection reads of the thread and its log besides the row's section and pin, and
  two fields of the event: an idle without changes, a proposal made straight into set-aside.\<close>

record row_world =
  rw_source :: string
  rw_go_to_review :: bool
  rw_read_requested :: bool
  rw_latest_start :: "string option"
  rw_idle_without_changes :: bool
  rw_proposed_set_aside :: bool

definition pin_write :: "string \<Rightarrow> thread_row \<Rightarrow> thread_row" where
  "pin_write event_type row =
     (if event_type = ''ThreadSaved'' then row\<lparr>row_saved := True, row_section := Inbox\<rparr>
      else if event_type = ''ThreadUnsaved'' then row\<lparr>row_saved := False\<rparr>
      else if event_type = ''ThreadArchived'' then row\<lparr>row_saved := False\<rparr>
      else row)"

definition discard_write :: "string \<Rightarrow> thread_row \<Rightarrow> thread_row" where
  "discard_write event_type row =
     (if event_type = ''ThreadDiscarded'' \<and> row_composing row
      then row\<lparr>row_section := Archived, row_saved := False, row_composing := False\<rparr> else row)"

definition is_unattended :: "row_world \<Rightarrow> bool \<Rightarrow> bool" where
  "is_unattended w is_saved =
     (if rw_source w \<noteq> ''trigger'' \<or> rw_go_to_review w \<or> is_saved \<or> rw_read_requested w then False
      else rw_latest_start w \<noteq> Some ''MessageReceived'')"

definition project_row ::
  "row_world \<Rightarrow> string \<Rightarrow> thread_row \<Rightarrow> lifecycle_violation + thread_row" where
  "project_row w event_type row =
     (let row = discard_write event_type (pin_write event_type row)
      in case resolve_transition event_type (thread_type_from_source (rw_source w)) (row_section row)
                (is_unattended w (row_saved row)) of
           Inl v \<Rightarrow> Inl v
         | Inr transition \<Rightarrow>
             (let new_section =
                (if event_type = ''CodingAgentIdled'' \<and> rw_idle_without_changes w \<and>
                    row_section row = Inbox then None
                 else if event_type = ''ChangeProposed'' \<and> rw_proposed_set_aside w then None
                 else tr_new_section transition)
              in Inr (case new_section of None \<Rightarrow> row | Some s \<Rightarrow> row\<lparr>row_section := s\<rparr>)))"

text \<open>A refused event leaves the row as it was.\<close>

definition row_step :: "thread_row \<Rightarrow> row_world \<times> string \<Rightarrow> thread_row" where
  "row_step row e = (case project_row (fst e) (snd e) row of Inl v \<Rightarrow> row | Inr row' \<Rightarrow> row')"

abbreviation row_ok :: "thread_row \<Rightarrow> bool" where
  "row_ok row \<equiv> is_retention_legal (row_section row) (row_saved row)"

lemma row_ok_writes:
  "row_ok row \<Longrightarrow> row_ok (discard_write t (pin_write t row))"
  by (auto simp: discard_write_def pin_write_def is_retention_legal_def)

lemma archive_unpins: "row_saved (discard_write ''ThreadArchived'' (pin_write ''ThreadArchived'' row)) = False"
  by (simp add: discard_write_def pin_write_def)

lemma row_ok_project:
  assumes "row_ok row" "project_row w t row = Inr row'"
  shows "row_ok row'"
proof -
  let ?row = "discard_write t (pin_write t row)"
  obtain r where r: "resolve_transition t (thread_type_from_source (rw_source w)) (row_section ?row)
      (is_unattended w (row_saved ?row)) = Inr r"
    using assms(2) by (auto simp: project_row_def Let_def split: sum.splits)
  have "tr_new_section r \<noteq> Some Archived" if "row_saved ?row"
  proof
    assume "tr_new_section r = Some Archived"
    from only_unattended_arm [OF r this] that archive_unpins [of row] show False
      by (auto simp: is_unattended_def)
  qed
  moreover have "row' = (case (if t = ''CodingAgentIdled'' \<and> rw_idle_without_changes w \<and>
          row_section ?row = Inbox then None
        else if t = ''ChangeProposed'' \<and> rw_proposed_set_aside w then None
        else tr_new_section r) of None \<Rightarrow> ?row | Some s \<Rightarrow> ?row\<lparr>row_section := s\<rparr>)"
    using assms(2) r by (auto simp: project_row_def Let_def)
  ultimately show ?thesis
    using row_ok_writes [OF assms(1), of t]
    by (cases "tr_new_section r"; cases "the (tr_new_section r)")
       (auto simp: is_retention_legal_def split: if_splits)
qed

interpretation rows: invariant_steps row_step row_ok
  by unfold_locales (auto simp: row_step_def split: sum.splits intro: row_ok_project)

text \<open>A pinned thread is always in the inbox. From any row the table's constraint admits, no
  sequence of events, attended or not, accepted or refused, projects a row that is pinned and
  archived at once; and an archive that lands unpins.\<close>

theorem pinned_threads_stay_in_the_inbox:
  assumes "is_retention_legal (row_section row) (row_saved row)"
  shows "is_retention_legal (row_section (foldl row_step row events)) (row_saved (foldl row_step row events)) \<and>
    \<not> row_saved (row_step row (w, ''ThreadArchived''))"
proof
  show "row_ok (foldl row_step row events)" by (rule rows.run_inv [OF assms])
  have "section_move ''ThreadArchived'' Chat = Move Archived"
    "section_move ''ThreadArchived'' CodingAgent = Move Archived"
    by code_simp+
  then have "section_move ''ThreadArchived'' tt = Move Archived" for tt by (cases tt) simp_all
  then show "\<not> row_saved (row_step row (w, ''ThreadArchived''))"
    by (simp add: row_step_def project_row_def resolve_transition_def Let_def archive_unpins)
qed

theorem pinned_threads_stay_in_the_inbox_witness:
  "\<exists>row. row = foldl row_step \<lparr>row_section = Archived, row_saved = False, row_composing = False\<rparr>
     [(\<lparr>rw_source = ''trigger'', rw_go_to_review = False, rw_read_requested = False,
        rw_latest_start = None, rw_idle_without_changes = False, rw_proposed_set_aside = False\<rparr>,
       ''ThreadSaved'')] \<and> is_retention_legal (row_section row) (row_saved row)"
proof -
  let ?row = "\<lparr>row_section = Archived, row_saved = False, row_composing = False\<rparr>"
  have "is_retention_legal (row_section ?row) (row_saved ?row)" by (simp add: is_retention_legal_def)
  from pinned_threads_stay_in_the_inbox [OF this] show ?thesis by blast
qed

end
