(* ===== verification/Thread_Gates.thy ===== *)
theory Thread_Gates
  imports Thread_Events
begin

text \<open>
  What a thread may do in its state (\<open>engine/thread_lifecycle.rs\<close>) and what a whole family may
  (\<open>api/threads/family.rs\<close>): the clauses that block an archive or delete, the attention rule,
  the actions offered, the refusals of the event bus, and the family gate both verbs ask.
\<close>

section \<open>Blockers\<close>

datatype blocking_clause = RunningClause | QuestionClause | PendingChangeClause | HeldProposalClause

text \<open>Declaration order is priority, as the derived \<open>Ord\<close> has it.\<close>

fun clause_rank :: "blocking_clause \<Rightarrow> nat" where
  "clause_rank RunningClause = 0"
| "clause_rank QuestionClause = 1"
| "clause_rank PendingChangeClause = 2"
| "clause_rank HeldProposalClause = 3"

lemma clause_rank_inject [simp]: "clause_rank x = clause_rank y \<longleftrightarrow> x = y"
  by (cases x; cases y) simp_all

instantiation blocking_clause :: linorder
begin

definition less_eq_blocking_clause :: "blocking_clause \<Rightarrow> blocking_clause \<Rightarrow> bool" where
  "less_eq_blocking_clause x y \<longleftrightarrow> clause_rank x \<le> clause_rank y"

definition less_blocking_clause :: "blocking_clause \<Rightarrow> blocking_clause \<Rightarrow> bool" where
  "less_blocking_clause x y \<longleftrightarrow> clause_rank x < clause_rank y"

instance
  by standard (auto simp: less_eq_blocking_clause_def less_blocking_clause_def)

end

fun own_blocker_as_str :: "blocking_clause \<Rightarrow> string" where
  "own_blocker_as_str RunningClause = ''running''"
| "own_blocker_as_str QuestionClause = ''question''"
| "own_blocker_as_str PendingChangeClause = ''pending_change''"
| "own_blocker_as_str HeldProposalClause = ''held_proposal''"

definition own_blocker ::
  "thread_type \<Rightarrow> thread_status \<Rightarrow> archive_state \<Rightarrow> change_work \<Rightarrow> bool \<Rightarrow> blocking_clause option" where
  "own_blocker thread_type status archive_state change is_external_repo =
     (case status of
        Running \<Rightarrow> Some RunningClause
      | WaitingForUserAnswer \<Rightarrow> Some QuestionClause
      | _ \<Rightarrow>
          if archive_state = Archived \<or> thread_type \<noteq> CodingAgent \<or> is_external_repo then None
          else (case change of
                  NoChangeWork \<Rightarrow> None
                | ProposedWork \<Rightarrow> Some PendingChangeClause
                | HeldWork \<Rightarrow> Some HeldProposalClause))"

definition is_blocking ::
  "thread_type \<Rightarrow> thread_status \<Rightarrow> archive_state \<Rightarrow> bool \<Rightarrow> bool \<Rightarrow> bool" where
  "is_blocking thread_type status archive_state has_pending_changes is_external_repo \<longleftrightarrow>
     own_blocker thread_type status archive_state
       (if has_pending_changes then ProposedWork else NoChangeWork) is_external_repo \<noteq> None"

datatype blocker =
    NoBlocker | HomeBlocker | RunningBlocker | QuestionBlocker | PendingChangeBlocker
  | HeldProposalBlocker | DescendantRunning | DescendantQuestion | DescendantPendingChange
  | DescendantHeldProposal

fun blocker_as_str :: "blocker \<Rightarrow> string" where
  "blocker_as_str NoBlocker = ''none''"
| "blocker_as_str HomeBlocker = ''home''"
| "blocker_as_str RunningBlocker = ''running''"
| "blocker_as_str QuestionBlocker = ''question''"
| "blocker_as_str PendingChangeBlocker = ''pending_change''"
| "blocker_as_str HeldProposalBlocker = ''held_proposal''"
| "blocker_as_str DescendantRunning = ''descendant_running''"
| "blocker_as_str DescendantQuestion = ''descendant_question''"
| "blocker_as_str DescendantPendingChange = ''descendant_pending_change''"
| "blocker_as_str DescendantHeldProposal = ''descendant_held_proposal''"

definition action_blocker ::
  "blocking_clause option \<Rightarrow> bool \<Rightarrow> blocking_clause option \<Rightarrow> blocker" where
  "action_blocker own is_home descendant =
     (if is_home then HomeBlocker
      else case (own, descendant) of
        (Some RunningClause, _) \<Rightarrow> RunningBlocker
      | (Some QuestionClause, _) \<Rightarrow> QuestionBlocker
      | (Some PendingChangeClause, _) \<Rightarrow> PendingChangeBlocker
      | (Some HeldProposalClause, _) \<Rightarrow> HeldProposalBlocker
      | (None, Some RunningClause) \<Rightarrow> DescendantRunning
      | (None, Some QuestionClause) \<Rightarrow> DescendantQuestion
      | (None, Some PendingChangeClause) \<Rightarrow> DescendantPendingChange
      | (None, Some HeldProposalClause) \<Rightarrow> DescendantHeldProposal
      | (None, None) \<Rightarrow> NoBlocker)"

section \<open>Refusals of the event bus\<close>

definition check_archive_allowed ::
  "thread_type \<Rightarrow> archive_state \<Rightarrow> thread_status \<Rightarrow> bool \<Rightarrow> lifecycle_violation + unit" where
  "check_archive_allowed thread_type current_section status is_home =
     (if is_home \<or> status = WaitingForUserAnswer
      then Inl \<lparr>lv_event_type = ''ThreadArchived'', lv_thread_type = thread_type,
                lv_current_section = current_section,
                lv_reason = (if is_home then ''the home thread is never archived''
                  else ''the thread is waiting on the user; answer or stop it first'')\<rparr>
      else Inr ())"

definition check_title_generated_allowed ::
  "thread_type \<Rightarrow> archive_state \<Rightarrow> bool \<Rightarrow> lifecycle_violation + unit" where
  "check_title_generated_allowed thread_type current_section is_home =
     (if \<not> is_home then Inr ()
      else Inl \<lparr>lv_event_type = ''ThreadTitleGenerated'', lv_thread_type = thread_type,
                lv_current_section = current_section,
                lv_reason = ''the home thread is named only by the user''\<rparr>)"

section \<open>Attention and actions\<close>

definition is_attention_needing ::
  "thread_type \<Rightarrow> thread_status \<Rightarrow> archive_state \<Rightarrow> bool \<Rightarrow> bool \<Rightarrow> bool \<Rightarrow> bool" where
  "is_attention_needing thread_type status archive_state has_pending_changes is_external_repo
     is_stopped_child \<longleftrightarrow>
     (if status = WaitingForUserAnswer then True
      else if archive_state = Archived then False
      else if has_pending_changes \<and> thread_type = CodingAgent \<and> \<not> is_external_repo then True
      else is_stopped_child)"

definition available_thread_actions ::
  "thread_type \<Rightarrow> thread_status \<Rightarrow> archive_state \<Rightarrow> bool \<Rightarrow> bool \<Rightarrow> bool \<Rightarrow> bool \<Rightarrow> bool \<Rightarrow> action list" where
  "available_thread_actions thread_type status stored_section has_pending_changes
     descendants_block_archive has_live_event_waits has_unsent_draft is_saved =
     (let live = status = Running \<or> status = WaitingForUserAnswer;
          coding_agent_pending = has_pending_changes \<and> thread_type = CodingAgent;
          watching = has_live_event_waits \<and> status \<noteq> WaitingForUserAnswer \<and> status \<noteq> Failed
      in (if has_unsent_draft then [DiscardDraft] else []) @
         (if \<not> live
          then if coding_agent_pending
               then if \<not> has_live_event_waits then [Discard, Apply, SetAside] else []
               else if stored_section = Inbox \<and> \<not> descendants_block_archive then [ArchiveAction]
               else []
          else []) @
         (if thread_type = CodingAgent \<and> (status = Running \<or> status = Paused \<or> watching)
          then [ApplyWhenSettled] else []) @
         (if is_saved then [Unsave] else [Save]))"

section \<open>The family gate\<close>

record family_row =
  fr_thread_id :: uuid
  fr_is_coding_agent :: bool
  fr_status :: string
  fr_archive_state :: string
  fr_change_state :: change_state_kind
  fr_is_external_repo :: bool
  fr_holds_live_wait :: bool
  fr_is_saved :: bool
  fr_is_home :: bool

definition row_is_proposed :: "family_row \<Rightarrow> bool" where
  "row_is_proposed r \<longleftrightarrow> fr_change_state r = ProposedKind"

definition row_thread_type :: "family_row \<Rightarrow> thread_type" where
  "row_thread_type r = (if fr_is_coding_agent r then CodingAgent else Chat)"

definition row_status :: "family_row \<Rightarrow> thread_status" where
  "row_status r = status_parse (fr_status r)"

definition row_archive_state :: "family_row \<Rightarrow> archive_state" where
  "row_archive_state r = archive_state_parse (fr_archive_state r)"

definition row_own_blocker :: "family_row \<Rightarrow> archive_state \<Rightarrow> blocking_clause option" where
  "row_own_blocker r archive_state =
     own_blocker (row_thread_type r) (row_status r) archive_state
       (change_work_of (fr_change_state r) (fr_holds_live_wait r)) (fr_is_external_repo r)"

datatype family_verb = ArchiveVerb | DeleteVerb

fun parent_blocked_reason :: "family_verb \<Rightarrow> string" where
  "parent_blocked_reason ArchiveVerb = ''parent_not_archivable''"
| "parent_blocked_reason DeleteVerb = ''parent_not_deletable''"

text \<open>
  A refusal: its HTTP status, its reason slug, its blocker slug, the parent's status text and
  whether it holds a proposed change, the members it names.
\<close>

datatype family_decision =
    Proceed
  | Reject (reject_status: nat) (reject_reason: string) (reject_blocker: "string option")
      (reject_parent: "(string \<times> bool) option") (reject_members: "(uuid \<times> string \<times> bool) list")

text \<open>\<open>sort_by_key\<close> is stable, as \<open>sort_key\<close> is.\<close>

definition family_blockers :: "family_row list \<Rightarrow> uuid \<Rightarrow> (family_row \<times> blocking_clause) list" where
  "family_blockers family t =
     sort_key snd
       (List.map_filter (\<lambda>r. map_option (\<lambda>b. (r, b)) (row_own_blocker r (row_archive_state r)))
         (filter (\<lambda>r. fr_thread_id r \<noteq> t) family))"

definition classify_family :: "family_row list \<Rightarrow> uuid \<Rightarrow> family_verb \<Rightarrow> family_decision" where
  "classify_family family t verb =
     (case List.find (\<lambda>r. fr_thread_id r = t) family of
        None \<Rightarrow> Reject 404 ''thread_not_found'' None None []
      | Some parent \<Rightarrow>
          (let blockers = family_blockers family t;
               blocker =
                 action_blocker (row_own_blocker parent Inbox) (\<exists>r \<in> set family. fr_is_home r)
                   (case map snd blockers of [] \<Rightarrow> None | b # bs \<Rightarrow> Some (fold min bs b));
               blocked = (fr_status parent, row_is_proposed parent);
               reject = (\<lambda>reason parent members.
                 Reject 409 reason (Some (blocker_as_str blocker)) parent members)
           in case blocker of
                NoBlocker \<Rightarrow> Proceed
              | HomeBlocker \<Rightarrow> reject ''home_thread'' None []
              | RunningBlocker \<Rightarrow> reject (parent_blocked_reason verb) (Some blocked) []
              | QuestionBlocker \<Rightarrow> reject (parent_blocked_reason verb) (Some blocked) []
              | PendingChangeBlocker \<Rightarrow> reject ''parent_has_pending_changes'' None []
              | HeldProposalBlocker \<Rightarrow> reject ''parent_holds_held_proposal'' None []
              | _ \<Rightarrow> reject ''descendants_blocking'' None
                      (map (\<lambda>(r, b). (fr_thread_id r, fr_status r, row_is_proposed r)) blockers)))"

definition every_member :: "family_row list \<Rightarrow> uuid list" where
  "every_member family = map fr_thread_id family"

definition not_yet_archived :: "family_row list \<Rightarrow> uuid list" where
  "not_yet_archived family = map fr_thread_id (filter (\<lambda>r. row_archive_state r \<noteq> Archived) family)"

definition external_repo_pending :: "family_row list \<Rightarrow> uuid list" where
  "external_repo_pending family =
     map fr_thread_id
       (filter (\<lambda>r. row_archive_state r \<noteq> Archived \<and> fr_is_coding_agent r \<and>
          fr_is_external_repo r \<and> row_is_proposed r) family)"

definition coding_agent_members :: "family_row list \<Rightarrow> uuid list" where
  "coding_agent_members family = map fr_thread_id (filter fr_is_coding_agent family)"

end
