(* ===== verification/Thread_Gate_Properties.thy ===== *)
theory Thread_Gate_Properties
  imports Thread_Gates "HOL-Library.Sublist"
begin

text \<open>
  What the gates promise: a family the gate lets through strands no work and is never refused by
  the event bus, a refusal names a member that holds its blocker, the attention rule and the
  blocking rule agree up to running work, and the actions offered are ones the server allows.
\<close>

section \<open>The family gate\<close>

lemma own_blocker_None:
  "own_blocker tt st a c ext = None \<longleftrightarrow>
     st \<noteq> Running \<and> st \<noteq> WaitingForUserAnswer \<and>
     (a = Archived \<or> tt = Chat \<or> ext \<or> c = NoChangeWork)"
  by (cases st; cases tt; cases c) (auto simp: own_blocker_def)

lemma action_blocker_None:
  "action_blocker own is_home d = NoBlocker \<longleftrightarrow> \<not> is_home \<and> own = None \<and> d = None"
  by (cases own; cases d; cases "the own"; cases "the d") (auto simp: action_blocker_def)

lemma find_member:
  "List.find P xs = Some x \<Longrightarrow> x \<in> set xs \<and> P x"
  by (auto simp: find_Some_iff in_set_conv_nth)

lemma set_map_filter: "set (List.map_filter f xs) = {y. \<exists>x \<in> set xs. f x = Some y}"
  by (induction xs) (auto simp: List.map_filter_simps split: option.splits)

lemma family_blockers_set:
  "set (family_blockers family t) =
     {(r, b). r \<in> set family \<and> fr_thread_id r \<noteq> t \<and> row_own_blocker r (row_archive_state r) = Some b}"
  by (auto simp: family_blockers_def set_map_filter)

lemma fold_min_set:
  "(case xs of [] \<Rightarrow> None | b # bs \<Rightarrow> Some (fold min bs b)) = (if xs = [] then None else Some (Min (set xs)))"
  by (cases xs) (simp_all add: Min.set_eq_fold [symmetric])

lemma classify_Proceed:
  "classify_family family t verb = Proceed \<longleftrightarrow>
     (\<exists>parent. List.find (\<lambda>r. fr_thread_id r = t) family = Some parent \<and>
        row_own_blocker parent Inbox = None) \<and>
     (\<forall>r \<in> set family. \<not> fr_is_home r \<and>
        (fr_thread_id r \<noteq> t \<longrightarrow> row_own_blocker r (row_archive_state r) = None))"
proof (cases "List.find (\<lambda>r. fr_thread_id r = t) family")
  case (Some parent)
  let ?d = "case map snd (family_blockers family t) of [] \<Rightarrow> None | b # bs \<Rightarrow> Some (fold min bs b)"
  have d: "?d = None \<longleftrightarrow>
      (\<forall>r \<in> set family. fr_thread_id r \<noteq> t \<longrightarrow> row_own_blocker r (row_archive_state r) = None)"
  proof -
    have "?d = None \<longleftrightarrow> set (family_blockers family t) = {}" by (cases "family_blockers family t") simp_all
    also have "\<dots> \<longleftrightarrow>
        (\<forall>r \<in> set family. fr_thread_id r \<noteq> t \<longrightarrow> row_own_blocker r (row_archive_state r) = None)"
      unfolding family_blockers_set by fastforce
    finally show ?thesis .
  qed
  have "classify_family family t verb = Proceed \<longleftrightarrow>
      action_blocker (row_own_blocker parent Inbox) (\<exists>r \<in> set family. fr_is_home r) ?d = NoBlocker"
    using Some by (simp add: classify_family_def Let_def split: blocker.split)
  with Some d show ?thesis by (auto simp: action_blocker_None)
qed (simp add: classify_family_def)

text \<open>C34. What the gate lets through strands nothing. When a family may be archived or deleted, none
  of its members is running or waits on the user, none is the home thread, and any coding-agent
  work no user has decided on sits in another repository or in a sub-thread already archived;
  so the event bus refuses none of the archives the cascade then emits.\<close>

theorem cleared_families_strand_nothing:
  assumes "classify_family family t verb = Proceed" "distinct (map fr_thread_id family)"
    and "r \<in> set family"
  shows "row_status r \<noteq> Running \<and>
    (row_thread_type r = CodingAgent \<and> change_work_of (fr_change_state r) (fr_holds_live_wait r) \<noteq> NoChangeWork \<longrightarrow>
       fr_is_external_repo r \<or> fr_thread_id r \<noteq> t \<and> row_archive_state r = Archived) \<and>
    check_archive_allowed (row_thread_type r) (row_archive_state r) (row_status r) (fr_is_home r) = Inr ()"
proof -
  obtain parent where parent: "List.find (\<lambda>r. fr_thread_id r = t) family = Some parent"
    "row_own_blocker parent Inbox = None"
    and all: "\<forall>r \<in> set family. \<not> fr_is_home r \<and>
        (fr_thread_id r \<noteq> t \<longrightarrow> row_own_blocker r (row_archive_state r) = None)"
    using assms(1) unfolding classify_Proceed by blast
  have own: "row_own_blocker r (if fr_thread_id r = t then Inbox else row_archive_state r) = None"
  proof (cases "fr_thread_id r = t")
    case True
    with find_member [OF parent(1)] assms(2,3) have "r = parent"
      by (auto simp: distinct_map dest: inj_onD)
    with True parent(2) show ?thesis by simp
  qed (use all assms(3) in simp)
  then show ?thesis
    using all assms(3)
    by (auto simp: row_own_blocker_def own_blocker_None check_archive_allowed_def split: if_splits)
qed

definition demo_family :: "family_row list" where
  "demo_family =
     [\<lparr>fr_thread_id = 1, fr_is_coding_agent = False, fr_status = ''idle'', fr_archive_state = ''inbox'',
       fr_change_state = NoWork, fr_is_external_repo = False, fr_holds_live_wait = False,
       fr_is_saved = False, fr_is_home = False\<rparr>,
      \<lparr>fr_thread_id = 2, fr_is_coding_agent = True, fr_status = ''idle'', fr_archive_state = ''archived'',
       fr_change_state = ProposedKind, fr_is_external_repo = False, fr_holds_live_wait = False,
       fr_is_saved = False, fr_is_home = False\<rparr>]"

lemma idle_text [simp]: "status_parse ''idle'' = Idle"
  using state_texts_idle [of Idle] by simp

theorem cleared_families_strand_nothing_witness:
  "\<exists>r \<in> set demo_family. fr_thread_id r = 2 \<and> row_status r \<noteq> Running"
proof -
  have "classify_family demo_family 1 ArchiveVerb = Proceed"
    unfolding classify_Proceed
    by (simp add: demo_family_def row_own_blocker_def own_blocker_None row_status_def
        row_archive_state_def archive_state_parse_def row_thread_type_def)
  moreover have "distinct (map fr_thread_id demo_family)" by (simp add: demo_family_def)
  moreover have "demo_family ! 1 \<in> set demo_family" by (simp add: demo_family_def)
  ultimately have "row_status (demo_family ! 1) \<noteq> Running"
    by (rule cleared_families_strand_nothing [THEN conjunct1])
  then show ?thesis by (auto simp: demo_family_def)
qed

text \<open>The descendant blocker that a clause of a descendant shows as.\<close>

fun descendant_blocker :: "blocking_clause \<Rightarrow> blocker" where
  "descendant_blocker RunningClause = DescendantRunning"
| "descendant_blocker QuestionClause = DescendantQuestion"
| "descendant_blocker PendingChangeClause = DescendantPendingChange"
| "descendant_blocker HeldProposalClause = DescendantHeldProposal"

lemma action_blocker_descendant:
  "action_blocker None False (Some b) = descendant_blocker b"
  by (cases b) (simp_all add: action_blocker_def)

lemma descendant_blocker_kind:
  "action_blocker own is_home d = descendant_blocker b \<longleftrightarrow> own = None \<and> \<not> is_home \<and> d = Some b"
  by (cases own; cases d; cases b; cases "the own"; cases "the d") (auto simp: action_blocker_def)

lemma first_is_least:
  assumes "family_blockers family t = (r, b) # rest"
  shows "Min (set (map snd (family_blockers family t))) = b"
proof -
  have "sorted (map snd (family_blockers family t))"
    unfolding family_blockers_def by (rule sorted_sort_key)
  with assms show ?thesis by (intro Min_eqI) auto
qed

text \<open>The reason the menu shows and the member the refusal names agree. A family is refused for a
  descendant with a given blocker exactly when its parent is free to go and that blocker is the
  strongest any descendant holds; the refusal lists every blocking descendant, and the first it
  lists holds the blocker it names.\<close>

theorem refusal_names_a_holder:
  assumes "List.find (\<lambda>r. fr_thread_id r = t) family = Some parent"
    and "row_own_blocker parent Inbox = None" "\<not> (\<exists>r \<in> set family. fr_is_home r)"
    and "classify_family family t verb = Reject code reason (Some slug) blocked members"
  shows "code = 409 \<and> reason = ''descendants_blocking'' \<and>
    (\<exists>r b. hd members = (fr_thread_id r, fr_status r, row_is_proposed r) \<and> r \<in> set family \<and>
       fr_thread_id r \<noteq> t \<and> row_own_blocker r (row_archive_state r) = Some b \<and>
       slug = blocker_as_str (descendant_blocker b) \<and>
       (\<forall>q \<in> set family. fr_thread_id q \<noteq> t \<longrightarrow>
          (case row_own_blocker q (row_archive_state q) of None \<Rightarrow> True | Some c \<Rightarrow> b \<le> c)) \<and>
       fst ` set members =
         {fr_thread_id q | q. q \<in> set family \<and> fr_thread_id q \<noteq> t \<and>
            row_own_blocker q (row_archive_state q) \<noteq> None})"
proof -
  let ?bs = "family_blockers family t"
  have "classify_family family t verb \<noteq> Proceed" using assms(4) by simp
  then have "?bs \<noteq> []"
    using assms(1-3) family_blockers_set [of family t] unfolding classify_Proceed by fastforce
  then obtain r b rest where bs: "?bs = (r, b) # rest" by (metis list.exhaust prod.exhaust)
  have least: "(case map snd ?bs of [] \<Rightarrow> None | b # bs \<Rightarrow> Some (fold min bs b)) = Some b"
    unfolding fold_min_set first_is_least [OF bs] using bs by simp
  have res: "classify_family family t verb = Reject 409 ''descendants_blocking''
      (Some (blocker_as_str (descendant_blocker b))) None
      (map (\<lambda>(r, b). (fr_thread_id r, fr_status r, row_is_proposed r)) ?bs)"
    using assms(1-3) least
    by (cases b) (simp_all add: classify_family_def Let_def action_blocker_descendant)
  then have out: "code = 409" "reason = ''descendants_blocking''"
    "slug = blocker_as_str (descendant_blocker b)"
    "members = map (\<lambda>(r, b). (fr_thread_id r, fr_status r, row_is_proposed r)) ?bs"
    using assms(4) by simp_all
  have r: "(r, b) \<in> set ?bs" using bs by simp
  have min: "\<forall>q \<in> set family. fr_thread_id q \<noteq> t \<longrightarrow>
      (case row_own_blocker q (row_archive_state q) of None \<Rightarrow> True | Some c \<Rightarrow> b \<le> c)"
  proof (intro ballI impI)
    fix q assume q: "q \<in> set family" "fr_thread_id q \<noteq> t"
    have "b \<le> c" if "row_own_blocker q (row_archive_state q) = Some c" for c
    proof -
      have "(q, c) \<in> set ?bs" using q that by (simp add: family_blockers_set)
      then have "c \<in> set (map snd ?bs)" by force
      from Min_le [OF finite_set this] first_is_least [OF bs] show ?thesis by simp
    qed
    then show "case row_own_blocker q (row_archive_state q) of None \<Rightarrow> True | Some c \<Rightarrow> b \<le> c"
      by (simp split: option.split)
  qed
  have "fst ` set members = fr_thread_id ` fst ` set ?bs"
    by (simp add: out(4) image_image split_def)
  also have "\<dots> = {fr_thread_id q | q. q \<in> set family \<and> fr_thread_id q \<noteq> t \<and>
            row_own_blocker q (row_archive_state q) \<noteq> None}"
    unfolding family_blockers_set by (force simp: image_iff)
  finally have all: "fst ` set members = {fr_thread_id q | q. q \<in> set family \<and> fr_thread_id q \<noteq> t \<and>
            row_own_blocker q (row_archive_state q) \<noteq> None}" .
  have "hd members = (fr_thread_id r, fr_status r, row_is_proposed r)" using out(4) bs by simp
  with out(1-3) r min all show ?thesis by (auto simp: family_blockers_set)
qed

definition blocked_family :: "family_row list" where
  "blocked_family = map (\<lambda>r. r\<lparr>fr_archive_state := ''inbox''\<rparr>) demo_family"

theorem refusal_names_a_holder_witness:
  "\<exists>members. classify_family blocked_family 1 DeleteVerb =
     Reject 409 ''descendants_blocking'' (Some ''descendant_pending_change'') None members \<and>
     members \<noteq> []"
proof -
  obtain parent where parent: "List.find (\<lambda>r. fr_thread_id r = 1) blocked_family = Some parent"
    "row_own_blocker parent Inbox = None" "\<not> (\<exists>r \<in> set blocked_family. fr_is_home r)"
    by (auto simp: blocked_family_def demo_family_def row_own_blocker_def own_blocker_None
        row_thread_type_def row_status_def)
  have own: "row_own_blocker (blocked_family ! 1) Inbox = Some PendingChangeClause"
    by (simp add: blocked_family_def demo_family_def row_own_blocker_def row_thread_type_def
        row_status_def own_blocker_def)
  have bs: "family_blockers blocked_family 1 = [(blocked_family ! 1, PendingChangeClause)]"
    using own by (simp add: family_blockers_def blocked_family_def demo_family_def List.map_filter_simps
        row_archive_state_def archive_state_parse_def)
  have res: "classify_family blocked_family 1 DeleteVerb =
     Reject 409 ''descendants_blocking'' (Some ''descendant_pending_change'') None
       (map (\<lambda>(r, b). (fr_thread_id r, fr_status r, row_is_proposed r)) (family_blockers blocked_family 1))"
    using parent bs by (simp add: classify_family_def Let_def action_blocker_def)
  from refusal_names_a_holder [OF parent res] res bs show ?thesis by simp
qed

section \<open>Attention, blocking and actions\<close>

text \<open>The two predicates over descendants agree up to running work. A thread blocks its ancestors'
  archive exactly when it needs the user, a stopped child's claim left out, or runs; the clause
  the menu names exists exactly when it blocks; and a display in the archive section hides no
  running thread, no pin, no pending change and no descendant's claim.\<close>

theorem blocking_is_attention_or_running:
  "(is_blocking tt st a pending ext \<longleftrightarrow> is_attention_needing tt st a pending ext False \<or> st = Running) \<and>
   (is_attention_needing tt st a pending ext stopped \<longleftrightarrow>
      is_attention_needing tt st a pending ext False \<or>
      stopped \<and> a = Inbox \<and> st \<noteq> WaitingForUserAnswer) \<and>
   (display_section a st saved children pending attention = ArchiveSection \<longleftrightarrow>
      a = Archived \<and> \<not> saved \<and> st \<noteq> Running \<and> \<not> children \<and> \<not> pending \<and> \<not> attention)"
  by (cases a; cases tt; cases st)
     (auto simp: is_blocking_def own_blocker_def is_attention_needing_def display_section_def)

text \<open>The actions offered are ones the thread can take, in one order. Apply, discard and set
  aside are offered together, exactly for a settled coding-agent thread with a pending change
  that watches nothing; archive only for a settled inbox thread with no such change, which then
  neither blocks nor is refused by the bus; a standing apply exactly while a coding-agent thread
  settles; one retention toggle always. No action appears twice.\<close>

theorem actions_are_takeable:
  "acts = available_thread_actions tt st sec pending desc waits draft saved \<Longrightarrow>
   (Apply \<in> set acts \<longleftrightarrow> tt = CodingAgent \<and> pending \<and> \<not> waits \<and> st \<notin> {Running, WaitingForUserAnswer}) \<and>
   (Discard \<in> set acts \<longleftrightarrow> Apply \<in> set acts) \<and> (SetAside \<in> set acts \<longleftrightarrow> Apply \<in> set acts) \<and>
   (ArchiveAction \<in> set acts \<longleftrightarrow> sec = Inbox \<and> \<not> desc \<and> \<not> is_blocking tt st sec pending False \<and>
      check_archive_allowed tt sec st False = Inr ()) \<and>
   (ApplyWhenSettled \<in> set acts \<longleftrightarrow> tt = CodingAgent \<and>
      (st \<in> {Running, Paused} \<or> waits \<and> st \<notin> {WaitingForUserAnswer, Failed})) \<and>
   (Save \<in> set acts \<longleftrightarrow> \<not> saved) \<and> (Unsave \<in> set acts \<longleftrightarrow> saved) \<and>
   subseq acts [DiscardDraft, Discard, Apply, SetAside, ArchiveAction, ApplyWhenSettled, Unsave, Save]"
  by (cases sec; cases tt; cases st; cases pending; cases desc; cases waits; cases draft; cases saved)
     (simp_all add: available_thread_actions_def is_blocking_def own_blocker_def
        check_archive_allowed_def)

theorem actions_are_takeable_witness:
  "ApplyWhenSettled \<in> set (available_thread_actions CodingAgent Paused Inbox True False False False False)"
  using actions_are_takeable [OF refl, of CodingAgent Paused Inbox True False False False False] by simp

text \<open>The documented order of the actions leaves one out. The comment lists draft discard,
  discard, apply, set aside, archive and the retention toggle; a paused coding-agent thread with
  a pending change is offered a standing apply between set aside and the toggle.\<close>

theorem documented_order_omits_standing_apply:
  "available_thread_actions CodingAgent Paused Inbox True False False False False =
     [Discard, Apply, SetAside, ApplyWhenSettled, Save] \<and>
   \<not> subseq (available_thread_actions CodingAgent Paused Inbox True False False False False)
       [DiscardDraft, Discard, Apply, SetAside, ArchiveAction, Unsave, Save]"
  by (simp add: available_thread_actions_def)

end
