(* ===== verification/Event_Names.thy ===== *)
theory Event_Names
  imports Thread_Events
begin

text \<open>
  The tables of event names that decide who may watch or emit what: the names a row is written
  for and the reserved names of system frames (\<open>event_bus_system_event.rs\<close>), the reserved and retired
  names of thread events (\<open>thread_events/event_impl.rs\<close>), and the families the subscription gate
  drops (\<open>core/event_subscription/mod.rs\<close>). Then the inclusions between them, which the code leaves to
  its tests.
\<close>

section \<open>The tables\<close>

definition persisted_type_names :: "string list" where
  "persisted_type_names =
    [''NotificationCreated'', ''PreferencesChanged'', ''ReleaseNoticeResolved'',
     ''ArtifactImported'', ''ArtifactCreated'', ''ArtifactUpdated'', ''ArtifactDeleted'',
     ''AppDeleted'', ''AppOpened'', ''DashboardTileAdded'', ''DashboardTileRemoved'',
     ''DashboardArranged'', ''KnowhowRead'', ''RepositoryImported'', ''TriggerCreated'',
     ''TriggerUpdated'', ''TriggerDeleted'', ''TriggerEnabled'', ''TriggerDisabled'',
     ''TriggerExecuted'', ''TriggerGroupCreated'', ''TriggerGroupRenamed'',
     ''TriggerGroupReordered'', ''TriggerGroupDeleted'', ''TriggerCompleted'',
     ''TriggerSlotsSkipped'', ''LanguageSet'', ''TimezoneSet'', ''ChangeDiscarded'',
     ''PluginInstalled'', ''PluginLocalChangesMerged'', ''PluginUninstalled'',
     ''PluginInstallCanceled'', ''PluginUninstallCanceled'', ''PluginMarketplaceRegistered'',
     ''PluginMarketplaceRemoved'', ''PinnedAppPinned'', ''PinnedAppUnpinned'',
     ''DeviceRegistered'', ''DeviceRenamed'', ''DevicePushChanged'', ''DeviceDeleted'',
     ''DeviceHandedOver'', ''RepositoryAdded'', ''RepositoryRemoved'', ''CredentialCreated'',
     ''CredentialUpdated'', ''CredentialDeleted'', ''CredentialRevealed'',
     ''EnvironmentVariableSet'', ''EnvironmentVariableDeleted'', ''ModelCreated'',
     ''ModelUpdated'', ''ModelDeleted'', ''WebhookCreated'', ''WebhookUpdated'',
     ''WebhookDeleted'', ''WebhookIngressDegraded'', ''WebhookIngressRecovered'',
     ''WebhookDeliveriesSleptThrough'', ''WebhookDeliveriesRefused'',
     ''WebhookDeliveriesRecovered'', ''McpServerRegistered'', ''McpServerUpdated'',
     ''McpServerDisabledToolsChanged'', ''McpServerRemoved'', ''McpServerStopped'',
     ''McpLaunchApproved'', ''PermissionGrantsChanged'', ''OAuthAccountConnected'',
     ''OAuthAccountDeleted'', ''ClaudeGatewaySignedIn'', ''ClaudeGatewaySignedOut'',
     ''ClaudeGatewaySignInStarted'', ''ClaudeGatewaySignInCanceled'',
     ''ClaudeGatewaySignInFailed'', ''ClaudeGatewayManagedSettingsChanged'',
     ''DataFileWritten'', ''DataFileDeleted'', ''DataFileEdited'', ''ApplyAllBatchStarted'',
     ''ApplyAllBatchCompleted'', ''StandingApplyArmed'', ''StandingApplyFired'',
     ''StandingApplyDropped'', ''LaneBatchStarted'', ''LaneBatchLanded'', ''LaneBatchFailed'',
     ''MainPushFailed'', ''MainFollowRefused'', ''MainCheckStarted'', ''MainCheckRunLinked'',
     ''MainCheckPassed'', ''MainCheckFailed'', ''MainCheckAbandoned'', ''MainCheckRedClosed'',
     ''EngineSupervisorRespawned'', ''EmailSent'', ''ProxyModulesReloaded'',
     ''HandshakeScriptApproved'', ''HandshakeScriptScopeBound'',
     ''HandshakeScriptInjectsBound'', ''CredentialScopeInferred'', ''ThreadQueued'',
     ''ThreadQueueAdmitted'', ''ThreadQueueDropped'', ''ThreadQueueCompleted'',
     ''CapacityPolicyChanged'', ''SnapshotRestoreRequested'', ''WorkspaceRestored'',
     ''SnapshotCreated'', ''SnapshotCaptureFailed'', ''SnapshotChecked'',
     ''SnapshotKeepChanged'', ''SnapshotDeleted'', ''BackupCompleted'', ''BackupFailed'',
     ''BackupKeyRevealed'', ''BackupRecipientSet'', ''ProxyConfigRejected'',
     ''ModelNotServedObserved'', ''ThreadsDeleted'', ''MemoryCorrected'',
     ''RecommendedCleanupStarted'', ''RecommendedCleanupCompleted'',
     ''RecommendedCleanupFailed'', ''TreeBackfillCompleted'', ''TreeBackfillReset'',
     ''TreeBackfillStarted'', ''TreeBackfillCapReached'', ''TreeBackfillCapRaised'',
     ''TreeBackfillEnded'']"

definition reserved_system_names :: "string list" where
  "reserved_system_names =
    [''NotificationCreated'', ''NotificationRead'', ''NotificationsAllRead'',
     ''PreferencesChanged'', ''ReleaseNoticeResolved'', ''MemoryRebuildProgress'',
     ''EmbeddingModelStatusChanged'', ''TreeBackfillProgressed'', ''TreeBackfillCompleted'',
     ''TreeBackfillReset'', ''TreeBackfillStarted'', ''TreeBackfillCapReached'',
     ''TreeBackfillCapRaised'', ''TreeBackfillEnded'', ''ChangesUpdated'',
     ''SnapshotProgress'', ''SnapshotRestoreRequested'', ''WorkspaceRestored'',
     ''SnapshotCreated'', ''SnapshotCaptureFailed'', ''SnapshotChecked'',
     ''SnapshotKeepChanged'', ''SnapshotDeleted'', ''BackupProgress'', ''BackupCompleted'',
     ''BackupFailed'', ''BackupKeyRevealed'', ''BackupRecipientSet'', ''ProxyConfigRejected'',
     ''ModelNotServedObserved'', ''ThreadsDeleted'', ''RecoveryProgress'', ''MemoryCorrected'',
     ''Toast'', ''ArtifactImported'', ''TriggerCreated'', ''TriggerUpdated'',
     ''TriggerDeleted'', ''TriggerEnabled'', ''TriggerDisabled'', ''TriggerExecuted'',
     ''TriggerGroupCreated'', ''TriggerGroupRenamed'', ''TriggerGroupReordered'',
     ''TriggerGroupDeleted'', ''AppCreated'', ''AppUpdated'', ''AppDeleted'', ''AppOpened'',
     ''DashboardTileAdded'', ''DashboardTileRemoved'', ''DashboardArranged'', ''KnowhowRead'',
     ''AppUiRefreshRequested'', ''FrontendUpdateDeferred'', ''FrontendUpdateStranded'',
     ''ServedFrontendAdvanced'', ''FrontendPreviewStarted'', ''FrontendPreviewStopped'',
     ''EngineBuildStateChanged'', ''FrontendRefreshStateChanged'', ''DomainEvent'',
     ''ArtifactCreated'', ''ArtifactUpdated'', ''ArtifactDeleted'', ''LanguageSet'',
     ''TimezoneSet'', ''RepositoryImported'', ''TriggerCompleted'', ''TriggerSlotsSkipped'',
     ''ChangeDiscarded'', ''DeviceVisible'', ''DeviceHidden'', ''PresenceCheck'',
     ''NativePushRequested'', ''NativePushDismissRequested'', ''PluginInstalled'',
     ''PluginLocalChangesMerged'', ''PluginUninstalled'', ''PluginInstallCanceled'',
     ''PluginUninstallCanceled'', ''PluginMarketplaceRegistered'',
     ''PluginMarketplaceRemoved'', ''PluginCatalogScanStarted'', ''PluginCatalogScanned'',
     ''ThreadComposeChanged'', ''PinnedAppPinned'', ''PinnedAppUnpinned'',
     ''DeviceRegistered'', ''DeviceRenamed'', ''DevicePushChanged'', ''DeviceDeleted'',
     ''DeviceHandedOver'', ''RepositoryAdded'', ''RepositoryRemoved'', ''CredentialCreated'',
     ''CredentialUpdated'', ''CredentialDeleted'', ''CredentialRevealed'',
     ''EnvironmentVariableSet'', ''EnvironmentVariableDeleted'', ''ModelCreated'',
     ''ModelUpdated'', ''ModelDeleted'', ''WebhookCreated'', ''WebhookUpdated'',
     ''WebhookDeleted'', ''WebhookIngressDegraded'', ''WebhookIngressRecovered'',
     ''WebhookDeliveriesSleptThrough'', ''WebhookDeliveriesRefused'',
     ''WebhookDeliveriesRecovered'', ''McpServerRegistered'', ''McpServerUpdated'',
     ''McpServerDisabledToolsChanged'', ''McpServerRemoved'', ''McpServerStopped'',
     ''McpLaunchApproved'', ''PermissionGrantsChanged'', ''OAuthAccountConnected'',
     ''OAuthAccountDeleted'', ''ClaudeGatewaySignedIn'', ''ClaudeGatewaySignedOut'',
     ''ClaudeGatewaySignInStarted'', ''ClaudeGatewaySignInCanceled'',
     ''ClaudeGatewaySignInFailed'', ''ClaudeGatewayManagedSettingsChanged'',
     ''DataFileWritten'', ''DataFileDeleted'', ''DataFileEdited'', ''ApplyAllBatchStarted'',
     ''ApplyAllBatchCompleted'', ''StandingApplyArmed'', ''StandingApplyFired'',
     ''StandingApplyDropped'', ''LaneBatchStarted'', ''LaneBatchLanded'', ''LaneBatchFailed'',
     ''MainPushFailed'', ''MainFollowRefused'', ''MainCheckStarted'', ''MainCheckRunLinked'',
     ''MainCheckPassed'', ''MainCheckFailed'', ''MainCheckAbandoned'', ''MainCheckRedClosed'',
     ''EngineSupervisorRespawned'', ''EmailSent'', ''ProxyModulesReloaded'',
     ''HandshakeScriptApproved'', ''HandshakeScriptScopeBound'',
     ''HandshakeScriptInjectsBound'', ''CredentialScopeInferred'', ''ThreadQueued'',
     ''ThreadQueueAdmitted'', ''ThreadQueueDropped'', ''ThreadQueueCompleted'',
     ''ThreadQueueChanged'', ''CapacityPolicyChanged'', ''RecommendedCleanupStarted'',
     ''RecommendedCleanupProgress'', ''RecommendedCleanupCompleted'',
     ''RecommendedCleanupFailed'', ''ThreadEvent'']"

definition reserved_thread_names :: "string list" where
  "reserved_thread_names =
    [''MessageReceived'', ''QueuedMessageRemoved'', ''MessageHeld'', ''HeldMessageReleased'',
     ''TextStreamed'', ''ThoughtStreamed'', ''ContextCaptured'', ''ModelCallFailed'',
     ''MemoryRecalled'', ''ToolCalled'', ''ToolResult'', ''TodoListWritten'',
     ''WorkingUnderstandingWritten'', ''BackgroundBashStarted'', ''BackgroundBashCompleted'',
     ''ResponseGenerated'', ''ResponseCanceled'', ''ResponseAborted'', ''ResponseFailed'',
     ''ContinuationStarted'', ''SessionStarted'', ''SessionEnded'',
     ''CodingAgentTextStreamed'', ''CodingAgentThoughtStreamed'', ''CodingAgentToolCalled'',
     ''CodingAgentToolResult'', ''CodingAgentUserMessageSent'', ''CodingAgentPromptSent'',
     ''CodingAgentInputRead'', ''CodingAgentInputDiscarded'', ''ChildReportTaken'',
     ''MissingHardeningDetected'', ''CodingAgentIdled'', ''ContinuationRequested'',
     ''ThreadTitleGenerated'', ''ThreadTitleRenamed'', ''ThreadSaved'', ''ThreadUnsaved'',
     ''ThreadArchived'', ''ThreadArchiveRequested'', ''ThreadUnarchived'',
     ''ThreadReadRequested'', ''ThreadReadNotRequested'', ''ParentWakeRequested'',
     ''ParentWakeNotRequested'', ''ThreadReplySeen'', ''ThreadTriageProposed'',
     ''ThreadStarted'', ''ThreadDiscarded'', ''HomeThreadCreated'', ''ImageUploaded'',
     ''TriggerStarted'', ''TriggerRunInterrupted'', ''TriggerCompleted'', ''ChangeProposed'',
     ''ChangeApplied'', ''ChangeDiscarded'', ''ChangeReverted'', ''ChangeSetAside'',
     ''ChangeBroughtBack'', ''ChangeWithdrawn'', ''ProposalWithheld'', ''ChangeQueued'',
     ''ChangeUnqueued'', ''ChangeApplyFailed'', ''ApplyNowStarted'', ''ApplyNowEnded'',
     ''MergeConflictDetected'', ''MergeResolutionStarted'', ''MergeResolutionCleared'',
     ''ChangeHardened'', ''ChangeSummarized'', ''CodingAgentSettingsChanged'',
     ''ChatSettingsChanged'', ''CodingAgentCompacted'', ''SuccessorThreadSpawned'',
     ''SessionHandedOff'', ''HandoffCheckpointReached'', ''SuccessorOfferDeclined'',
     ''SuccessorRequested'', ''PromptInjected'', ''CredentialRequested'',
     ''PluginInstallRequested'', ''PluginUninstallRequested'', ''EmailConfirmRequested'',
     ''OAuthAuthorizationRequested'', ''FormRequestResolved'', ''McpConsentRequested'',
     ''UserQuestionAsked'', ''UserQuestionAnswered'', ''OwnerApprovalRequested'',
     ''OwnerApprovalSpent'', ''CodingAgentPermissionRequest'',
     ''CodingAgentPermissionResolved'', ''CommandPermissionRequested'',
     ''CommandPermissionResolved'', ''McpPermissionRequested'', ''McpPermissionResolved'',
     ''CommandCheckpointed'', ''CommandCheckpointReverted'', ''WorktreeCleaned'',
     ''ChildThreadCompleted'', ''ChildReportFiled'', ''ChildThreadStopped'',
     ''ChildThreadDetached'', ''ContextDismissed'', ''ContextKeptOpen'', ''ImageDescribed'',
     ''ConversationSummarized'', ''EventWaitStarted'', ''EventWaitDelivered'',
     ''EventWaitExpired'', ''EventWaitCanceled'', ''CacheKeepAliveStatusChanged'',
     ''CacheKeepAliveTurnedOff'', ''CacheKeepAliveTurnedOn'', ''WakeExpected'',
     ''CumulativeTextUpdated'', ''LlmCallRetried'', ''PreambleCompleted'',
     ''PushNotificationRequested'', ''AppUiRefreshRequested'', ''AppUiCaptureRequested'',
     ''NavigationRequested'', ''CodingAgentThreadSpawned'', ''CodingAgentDiffChanged'',
     ''ChildrenCountChanged'', ''VoiceSessionStarted'', ''VoiceSessionEnded'',
     ''SpokenMessageReceived'', ''WorkDelegated'', ''SpokenReplyGenerated'',
     ''SideQuestionAsked'', ''SideQuestionAnswered'', ''SideQuestionFailed'',
     ''SideQuestionDismissed'', ''WidgetShown'', ''WidgetPinned'', ''WidgetUnpinned'',
     ''InlineWidgetSized'', ''ThreadMcpServerEnabled'', ''ThreadMcpServerDisabled'',
     ''HomeBoardArranged'']"

definition legacy_type_name_aliases :: "string list" where
  "legacy_type_name_aliases =
    [''CCSettingsChanged'', ''CaptureAppUI'', ''CcThreadSpawned'', ''ClaudeCodeIdled'',
     ''ClaudeCodePromptSent'', ''ClaudeCodeTextStreamed'', ''ClaudeCodeThoughtStreamed'',
     ''ClaudeCodeToolCalled'', ''ClaudeCodeToolResult'', ''ClaudeCodeUserMessageSent'',
     ''ContinueSignal'', ''CredentialPromptRequested'', ''CredentialRequest'',
     ''EmailConfirmRequest'', ''MemorySearched'', ''PluginInstallRequest'',
     ''PluginUninstallRequest'', ''PreambleCompleting'', ''PushNotificationRequest'',
     ''RefreshAppUI'', ''Retrying'', ''SessionRecovered'', ''SessionResumed'',
     ''TextStreaming'', ''Thinking'', ''UserPromptInjected'', ''WidgetHidden'',
     ''WidgetRestored'']"

definition side_question_event_types :: "string list" where
  "side_question_event_types =
    [''SideQuestionAsked'', ''SideQuestionAnswered'', ''SideQuestionFailed'',
     ''SideQuestionDismissed'']"

definition per_token_streaming_event_types :: "string list" where
  "per_token_streaming_event_types =
    [''TextStreamed'', ''ThoughtStreamed'', ''CodingAgentTextStreamed'',
     ''CodingAgentThoughtStreamed'']"

definition event_wait_event_types :: "string list" where
  "event_wait_event_types =
    [''EventWaitStarted'', ''EventWaitDelivered'', ''EventWaitExpired'',
     ''EventWaitCanceled'']"

definition transport_type_names :: "string list" where
  "transport_type_names =
    [''DomainEvent'', ''ThreadEvent'']"

definition is_persisted_type_name :: "string \<Rightarrow> bool" where
  "is_persisted_type_name name \<longleftrightarrow> name \<in> set persisted_type_names"

definition is_reserved_system_name :: "string \<Rightarrow> bool" where
  "is_reserved_system_name name \<longleftrightarrow> name \<in> set reserved_system_names"

definition is_reserved_thread_name :: "string \<Rightarrow> bool" where
  "is_reserved_thread_name name \<longleftrightarrow>
     name \<in> set reserved_thread_names \<or> name \<in> set legacy_type_name_aliases"

text \<open>The one frame the event stream writes itself (\<open>api/history.rs\<close>).\<close>

definition route_frames :: "string list" where
  "route_frames = [''Lagged'']"

section \<open>Inclusions\<close>

text \<open>To compare two long tables, sort both: then one is a sublist of the other.\<close>

text \<open>Any total order does: bit by bit, the lowest bit first.\<close>

fun char_less :: "char \<Rightarrow> char \<Rightarrow> bool" where
  "char_less (Char a0 a1 a2 a3 a4 a5 a6 a7) (Char b0 b1 b2 b3 b4 b5 b6 b7) =
     (if a0 \<noteq> b0 then b0 else if a1 \<noteq> b1 then b1 else if a2 \<noteq> b2 then b2 else if a3 \<noteq> b3 then b3
      else if a4 \<noteq> b4 then b4 else if a5 \<noteq> b5 then b5 else a6 \<noteq> b6 \<and> b6)"

fun name_less :: "string \<Rightarrow> string \<Rightarrow> bool" where
  "name_less [] ys \<longleftrightarrow> True"
| "name_less (x # xs) [] \<longleftrightarrow> False"
| "name_less (x # xs) (y # ys) \<longleftrightarrow> (if x = y then name_less xs ys else char_less x y)"

fun merge_names :: "string list \<Rightarrow> string list \<Rightarrow> string list" where
  "merge_names [] ys = ys"
| "merge_names xs [] = xs"
| "merge_names (x # xs) (y # ys) =
     (if name_less x y then x # merge_names xs (y # ys) else y # merge_names (x # xs) ys)"

fun merge_pairs :: "string list list \<Rightarrow> string list list" where
  "merge_pairs (xs # ys # zss) = merge_names xs ys # merge_pairs zss"
| "merge_pairs xss = xss"

lemma length_merge_pairs [termination_simp]: "length (merge_pairs xss) \<le> length xss"
  by (induction xss rule: merge_pairs.induct) auto

function merge_all :: "string list list \<Rightarrow> string list" where
  "merge_all [] = []"
| "merge_all [xs] = xs"
| "merge_all (xs # ys # zss) = merge_all (merge_pairs (xs # ys # zss))"
  by pat_completeness auto
termination
  by (relation "measure length") (auto simp: le_imp_less_Suc length_merge_pairs)

definition sort_names :: "string list \<Rightarrow> string list" where
  "sort_names xs = merge_all (map (\<lambda>x. [x]) xs)"

fun names_within :: "string list \<Rightarrow> string list \<Rightarrow> bool" where
  "names_within [] ys \<longleftrightarrow> True"
| "names_within (x # xs) [] \<longleftrightarrow> False"
| "names_within (x # xs) (y # ys) \<longleftrightarrow> (if x = y then names_within xs ys else names_within (x # xs) ys)"

lemma set_merge_names [simp]: "set (merge_names xs ys) = set xs \<union> set ys"
  by (induction xs ys rule: merge_names.induct) auto

lemma set_merge_pairs: "\<Union> (set ` set (merge_pairs xss)) = \<Union> (set ` set xss)"
  by (induction xss rule: merge_pairs.induct) auto

lemma set_merge_all: "set (merge_all xss) = \<Union> (set ` set xss)"
proof (induction xss rule: merge_all.induct)
  case (3 xs ys zss)
  then show ?case using set_merge_pairs [of "xs # ys # zss"] by simp
qed auto

lemma names_within_subset: "names_within xs ys \<Longrightarrow> set xs \<subseteq> set ys"
  by (induction xs ys rule: names_within.induct) (auto split: if_splits)

lemma subset_by_sorting: "names_within (sort_names xs) (sort_names ys) \<Longrightarrow> set xs \<subseteq> set ys"
  using names_within_subset [of "sort_names xs" "sort_names ys"]
  by (simp add: sort_names_def set_merge_all image_image)

lemma persisted_are_reserved: "set persisted_type_names \<subseteq> set reserved_system_names"
  by (rule subset_by_sorting) code_simp

lemma classified_are_reserved: "set (concat (map fst class_arms)) \<subseteq> set reserved_thread_names"
  by (rule subset_by_sorting) code_simp

lemma families_are_reserved:
  "set (side_question_event_types @ per_token_streaming_event_types @ event_wait_event_types)
     \<subseteq> set reserved_thread_names"
  by (rule subset_by_sorting) code_simp

lemma transport_are_reserved: "set transport_type_names \<subseteq> set reserved_system_names"
  by (rule subset_by_sorting) code_simp

lemma first_arm_listed: "first_arm arms x = Some y \<Longrightarrow> x \<in> set (concat (map fst arms))"
  by (induction arms x rule: first_arm.induct) (auto split: if_splits)

lemma classified_reserved: "classify_event name = Some c \<Longrightarrow> name \<in> set reserved_thread_names"
  using classified_are_reserved first_arm_listed by (fastforce simp: classify_event_def)

end
