(* ===== verification/Known_Names.thy ===== *)
theory Known_Names
  imports Event_Names Rust_Strings
begin

text \<open>
  The names a subscription can match and the rule that tells a misspelled engine name from a
  workspace's own (\<open>core/event_subscription/known_names.rs\<close>). The case of a character is the
  standard library's, over all of Unicode: \<open>is_uppercase\<close> and \<open>is_lowercase\<close> are parameters, which take
  a character as its bytes. A ratio of two lengths is compared with 0.45 and 0.30 as the fraction it
  is: rounding to a double is monotone, and two lengths below \<open>2 ^ 49\<close> that do not make exactly 9/20 or
  3/10 make a fraction further from it than half a unit in the last place.

  The edit distance that ranks event names (\<open>levenshtein\<close> in
  \<open>core/event_subscription/known_names.rs\<close>): the two-row table over the characters of the two
  names, and that it computes the least number of insertions, deletions and substitutions that
  turn one into the other.
\<close>

section \<open>The table\<close>

text \<open>One cell: \<open>prev\<close> is the row above, \<open>cur\<close> the row being filled.\<close>

definition lev_cell :: "'c \<Rightarrow> 'c list \<Rightarrow> nat list \<Rightarrow> nat \<Rightarrow> nat list \<Rightarrow> nat list" where
  "lev_cell ca bs prev j cur =
     (let substitution = prev ! j + of_bool (ca \<noteq> bs ! j)
      in cur[Suc j := min (min substitution (prev ! Suc j + 1)) (cur ! j + 1)])"

definition lev_row :: "'c \<Rightarrow> 'c list \<Rightarrow> nat \<Rightarrow> nat list \<times> nat list \<Rightarrow> nat list \<times> nat list" where
  "lev_row ca bs i rows =
     (case rows of (prev, cur) \<Rightarrow> (fold (lev_cell ca bs prev) [0..<length bs] (cur[0 := Suc i]), prev))"

fun lev_rows :: "nat \<Rightarrow> 'c list \<Rightarrow> 'c list \<Rightarrow> nat list \<times> nat list \<Rightarrow> nat list \<times> nat list" where
  "lev_rows i [] bs rows = rows"
| "lev_rows i (ca # cs) bs rows = lev_rows (Suc i) cs bs (lev_row ca bs i rows)"

definition lev_chars :: "'c list \<Rightarrow> 'c list \<Rightarrow> nat" where
  "lev_chars a b = fst (lev_rows 0 a b ([0..<Suc (length b)], replicate (Suc (length b)) 0)) ! length b"

definition levenshtein :: "string \<Rightarrow> string \<Rightarrow> nat" where
  "levenshtein a b = lev_chars (utf8_chars a) (utf8_chars b)"

section \<open>Edits\<close>

text \<open>\<open>b\<close> comes from \<open>a\<close> by \<open>n\<close> insertions, deletions and substitutions.\<close>

inductive edits :: "nat \<Rightarrow> 'c list \<Rightarrow> 'c list \<Rightarrow> bool" where
  Done: "edits 0 [] []"
| Keep: "edits n a b \<Longrightarrow> edits n (x # a) (x # b)"
| Substitute: "edits n a b \<Longrightarrow> edits (Suc n) (x # a) (y # b)"
| Delete: "edits n a b \<Longrightarrow> edits (Suc n) (x # a) b"
| Insert: "edits n a b \<Longrightarrow> edits (Suc n) a (y # b)"

lemma edits_append: "edits n a b \<Longrightarrow> edits m c d \<Longrightarrow> edits (n + m) (a @ c) (b @ d)"
  by (induction rule: edits.induct) (auto intro: edits.intros)

lemma edits_rev: "edits n a b \<Longrightarrow> edits n (rev a) (rev b)"
proof (induction rule: edits.induct)
  case (Keep n a b x)
  from edits_append [OF Keep.IH, of 0 "[x]" "[x]"] show ?case by (simp add: edits.intros)
next
  case (Substitute n a b x y)
  from edits_append [OF Substitute.IH, of 1 "[x]" "[y]"] show ?case by (simp add: edits.intros)
next
  case (Delete n a b x)
  from edits_append [OF Delete.IH, of 1 "[x]" "[]"] show ?case by (simp add: edits.intros)
next
  case (Insert n a b y)
  from edits_append [OF Insert.IH, of 1 "[]" "[y]"] show ?case by (simp add: edits.intros)
qed (simp add: edits.Done)

text \<open>The least number of edits, from the ends of the two lists.\<close>

fun edit :: "'c list \<Rightarrow> 'c list \<Rightarrow> nat" where
  "edit [] b = length b"
| "edit a [] = length a"
| "edit (x # a) (y # b) =
     min (min (edit a b + of_bool (x \<noteq> y)) (edit a (y # b) + 1)) (edit (x # a) b + 1)"

lemma edit_Nil2 [simp]: "edit a [] = length a"
  by (cases a) simp_all

lemma edits_all_deleted: "edits (length l) l []"
  by (induction l) (auto intro: edits.intros)

lemma edits_all_inserted: "edits (length l) [] l"
  by (induction l) (auto intro: edits.intros)

lemma edit_is_reached: "edits (edit a b) a b"
proof (induction a b rule: edit.induct)
  case (3 x a y b)
  then show ?case
    by (cases "x = y") (auto simp: min_def intro: edits.intros)
qed (use edits_all_inserted edits_all_deleted [of "_ # _"] in simp_all)

lemma edit_is_least: "edits n a b \<Longrightarrow> edit a b \<le> n"
proof (induction rule: edits.induct)
  case (Delete n a b x)
  then show ?case by (cases b) auto
next
  case (Insert n a b y)
  then show ?case by (cases a) auto
qed auto

lemma edit_rev: "edit (rev a) (rev b) = edit a b"
proof (rule antisym)
  show "edit (rev a) (rev b) \<le> edit a b" by (rule edit_is_least [OF edits_rev [OF edit_is_reached]])
  show "edit a b \<le> edit (rev a) (rev b)"
    using edit_is_least [OF edits_rev [OF edit_is_reached [of "rev a" "rev b"]]] by simp
qed

section \<open>The table computes the distance\<close>

definition edit_row :: "'c list \<Rightarrow> 'c list \<Rightarrow> nat list" where
  "edit_row p bs = map (\<lambda>j. edit (rev p) (rev (take j bs))) [0..<Suc (length bs)]"

lemma edit_row_nth: "j \<le> length bs \<Longrightarrow> edit_row p bs ! j = edit (rev p) (rev (take j bs))"
  unfolding edit_row_def by (subst nth_map) (simp_all del: upt_Suc)

lemma length_edit_row [simp]: "length (edit_row p bs) = Suc (length bs)"
  by (simp add: edit_row_def del: upt_Suc)

lemma lev_cells:
  assumes "k \<le> length bs" "length cur = Suc (length bs)"
  shows "length (fold (lev_cell ca bs (edit_row p bs)) [0..<k] (cur[0 := Suc (length p)])) = Suc (length bs) \<and>
    (\<forall>j \<le> k. fold (lev_cell ca bs (edit_row p bs)) [0..<k] (cur[0 := Suc (length p)]) ! j =
       edit (rev (p @ [ca])) (rev (take j bs)))"
  using assms(1)
proof (induction k)
  case 0
  with assms(2) show ?case by simp
next
  case (Suc k)
  let ?cur = "fold (lev_cell ca bs (edit_row p bs)) [0..<k] (cur[0 := Suc (length p)])"
  have len: "length ?cur = Suc (length bs)"
    and cells: "\<And>j. j \<le> k \<Longrightarrow> ?cur ! j = edit (rev (p @ [ca])) (rev (take j bs))"
    using Suc by simp_all
  have step: "fold (lev_cell ca bs (edit_row p bs)) [0..<Suc k] (cur[0 := Suc (length p)]) =
      ?cur[Suc k := edit (rev (p @ [ca])) (rev (take (Suc k) bs))]"
    using cells [of k] Suc.prems
    by (simp add: lev_cell_def Let_def edit_row_nth take_Suc_conv_app_nth)
  show ?case
    unfolding step using len cells Suc.prems by (auto simp: nth_list_update le_Suc_eq)
qed

lemma lev_row_step:
  assumes "length cur = Suc (length bs)"
  shows "lev_row ca bs (length p) (edit_row p bs, cur) = (edit_row (p @ [ca]) bs, edit_row p bs)"
proof -
  note lev_cells [OF order_refl assms, of ca p]
  then have "fold (lev_cell ca bs (edit_row p bs)) [0..<length bs] (cur[0 := Suc (length p)]) =
      edit_row (p @ [ca]) bs"
    by (intro nth_equalityI) (simp_all add: edit_row_nth less_Suc_eq_le)
  then show ?thesis by (simp add: lev_row_def)
qed

lemma lev_rows_edit:
  "length cur = Suc (length bs) \<Longrightarrow>
     fst (lev_rows (length p) cs bs (edit_row p bs, cur)) = edit_row (p @ cs) bs"
proof (induction cs arbitrary: p cur)
  case (Cons c cs)
  from Cons.IH [of "edit_row p bs" "p @ [c]"] show ?case by (simp add: lev_row_step [OF Cons.prems])
qed simp

lemma lev_chars_edit: "lev_chars a b = edit a b"
proof -
  have "[0..<Suc (length b)] = edit_row [] b"
    by (intro nth_equalityI) (auto simp: edit_row_nth nth_append simp del: upt_Suc)
  then show ?thesis
    using lev_rows_edit [of "replicate (Suc (length b)) 0" b "[]" a]
    by (simp add: lev_chars_def edit_row_nth edit_rev del: upt_Suc)
qed

text \<open>C37. The two-row table computes the edit distance. For any two names it is a number of insertions,
  deletions and substitutions of characters that turns one into the other, and the least such
  number; so it is zero only for equal names and the same both ways.\<close>

theorem levenshtein_is_the_least_number_of_edits:
  "edits (levenshtein a b) (utf8_chars a) (utf8_chars b) \<and>
   (\<forall>n. edits n (utf8_chars a) (utf8_chars b) \<longrightarrow> levenshtein a b \<le> n) \<and>
   (levenshtein a b = 0 \<longleftrightarrow> a = b) \<and> levenshtein a b = levenshtein b a"
proof -
  have sym: "edits n y x" if "edits n x y" for n and x y :: "string list"
    using that by (induction rule: edits.induct) (auto intro: edits.intros)
  have "edit x y \<le> edit y x" for x y :: "string list"
    by (rule edit_is_least [OF sym [OF edit_is_reached]])
  then have "edit x y = edit y x" for x y :: "string list" by (simp add: order_antisym)
  moreover have "x = y" if "edits n x y" "n = 0" for n and x y :: "string list"
    using that by (induction rule: edits.induct) auto
  moreover have "edits 0 x x" for x :: "string list"
    by (induction x) (auto intro: edits.intros)
  then have "edit x x = 0" for x :: "string list" using edit_is_least [of 0 x x] by simp
  moreover have "utf8_chars a = utf8_chars b \<longleftrightarrow> a = b" by (metis concat_utf8_chars)
  ultimately have zero: "edit (utf8_chars a) (utf8_chars b) = 0 \<longleftrightarrow> a = b"
    and swap: "edit (utf8_chars a) (utf8_chars b) = edit (utf8_chars b) (utf8_chars a)"
    using edit_is_reached [of "utf8_chars a" "utf8_chars b"] by auto
  show ?thesis
    unfolding levenshtein_def lev_chars_edit
    using edit_is_reached edit_is_least zero swap by blast
qed

theorem levenshtein_is_the_least_number_of_edits_witness:
  "levenshtein ''Idle'' ''Idled'' = 1 \<and>
   edits 1 (utf8_chars ''Idle'') (utf8_chars ''Idled'')"
proof -
  have one: "levenshtein ''Idle'' ''Idled'' = 1" by code_simp
  from levenshtein_is_the_least_number_of_edits [of "''Idle''" "''Idled''"]
  show ?thesis unfolding one by blast
qed

section \<open>The corpus\<close>

datatype subscription_surface = WaitSurface | TriggerSurface

definition on_surface :: "subscription_surface \<Rightarrow> string \<Rightarrow> bool" where
  "on_surface surface name \<longleftrightarrow>
     name \<notin> set per_token_streaming_event_types \<and> name \<notin> set side_question_event_types \<and>
     (surface = TriggerSurface \<or> name \<notin> set event_wait_event_types)"

text \<open>The code sorts the names and drops repeats; only membership is ever asked.\<close>

definition subscribable_event_type_names :: "subscription_surface \<Rightarrow> string list" where
  "subscribable_event_type_names surface =
     remdups (filter (on_surface surface)
       (filter (\<lambda>name. classify_event name \<noteq> None) all_persisted_event_types @ persisted_type_names))"

section \<open>Words of a name\<close>

type_synonym char_test = "string \<Rightarrow> bool"

text \<open>\<open>current\<close> is the word being read. Its last character and the next one decide where a word starts.\<close>

fun pascal_loop :: "char_test \<Rightarrow> char_test \<Rightarrow> string list \<Rightarrow> string list \<Rightarrow> string list list" where
  "pascal_loop upper lower [] current = (if current = [] then [] else [current])"
| "pascal_loop upper lower (c # cs) current =
     (let starts_word = (upper c \<and> current \<noteq> [] \<and>
            (\<not> upper (List.last current) \<or> (case cs of [] \<Rightarrow> False | n # _ \<Rightarrow> lower n)))
      in if starts_word then current # pascal_loop upper lower cs [c]
         else pascal_loop upper lower cs (current @ [c]))"

definition pascal_tokens :: "char_test \<Rightarrow> char_test \<Rightarrow> string \<Rightarrow> string list" where
  "pascal_tokens upper lower name = map concat (pascal_loop upper lower (utf8_chars name) [])"

definition subject :: "string list \<Rightarrow> string option" where
  "subject tokens = (if 2 \<le> length tokens then Some (concat (butlast tokens)) else None)"

text \<open>The ratio of the edit distance to the longer name is at most \<open>percent\<close> hundredths.\<close>

definition within_ratio :: "nat \<Rightarrow> string \<Rightarrow> string \<Rightarrow> bool" where
  "within_ratio percent a b \<longleftrightarrow>
     (let longest = max (length (utf8_chars a)) (length (utf8_chars b))
      in longest = 0 \<or> 100 * levenshtein a b \<le> percent * longest)"

definition near_known :: "char_test \<Rightarrow> char_test \<Rightarrow> string \<Rightarrow> string \<Rightarrow> bool" where
  "near_known upper lower name known \<longleftrightarrow>
     (let tokens = pascal_tokens upper lower name; known_tokens = pascal_tokens upper lower known
      in subject tokens \<noteq> None \<and> subject known_tokens = subject tokens \<and> within_ratio 45 name known \<or>
         tokens \<noteq> [] \<and> known_tokens \<noteq> [] \<and> hd known_tokens = hd tokens \<and> within_ratio 30 name known)"

definition is_near_miss :: "char_test \<Rightarrow> char_test \<Rightarrow> string \<Rightarrow> bool" where
  "is_near_miss upper lower name \<longleftrightarrow>
     list_ex (near_known upper lower name) (subscribable_event_type_names WaitSurface)"

section \<open>Facts\<close>

lemma pascal_loop_concat: "concat (pascal_loop upper lower cs current) = current @ cs"
  by (induction upper lower cs current rule: pascal_loop.induct) (auto simp: Let_def)

lemma pascal_loop_nonempty: "[] \<notin> set (pascal_loop upper lower cs current)"
  by (induction upper lower cs current rule: pascal_loop.induct) (auto simp: Let_def)

lemma pascal_loop_first:
  "current \<noteq> [] \<Longrightarrow> pascal_loop upper lower cs current \<noteq> [] \<and>
     hd (hd (pascal_loop upper lower cs current)) = hd current"
  by (induction upper lower cs current rule: pascal_loop.induct) (auto simp: Let_def)

lemma pascal_loop_heads: "\<forall>t \<in> set (tl (pascal_loop upper lower cs current)). upper (hd t)"
proof (induction upper lower cs current rule: pascal_loop.induct)
  case (2 upper lower c cs current)
  have "\<forall>t \<in> set (pascal_loop upper lower cs [c]). upper (hd t)" if "upper c"
    "\<forall>t \<in> set (tl (pascal_loop upper lower cs [c])). upper (hd t)"
    using pascal_loop_first [of "[c]" upper lower cs] that by (cases "pascal_loop upper lower cs [c]") auto
  with "2.IH"(1) [OF refl] "2.IH"(2) [OF refl] show ?case by (simp add: Let_def)
qed simp

text \<open>The words of a name make it up. They are none of them empty, in order they spell the name, and
  every word but the first starts with a capital.\<close>

theorem pascal_tokens_spell_the_name:
  "concat (pascal_tokens upper lower name) = name \<and> [] \<notin> set (pascal_tokens upper lower name) \<and>
   (\<exists>ws. pascal_tokens upper lower name = map concat ws \<and> list_all (\<lambda>w. upper (hd w)) (tl ws))"
proof -
  let ?ws = "pascal_loop upper lower (utf8_chars name) []"
  have "[] \<notin> set (utf8_chars name)" using utf8_chars_groups [of name] by (auto simp: list_all_iff is_group_def)
  then have "[] \<notin> \<Union> (set ` set ?ws)"
    using pascal_loop_concat [of upper lower "utf8_chars name" "[]"] by (metis append_Nil set_concat)
  then have "concat w \<noteq> []" if "w \<in> set ?ws" for w
    using that pascal_loop_nonempty [of upper lower "utf8_chars name" "[]"] by (cases w) auto
  moreover have "concat (map concat ?ws) = name"
  proof -
    have "concat (map concat ws) = concat (concat ws)" for ws :: "string list list"
      by (induction ws) simp_all
    then show ?thesis by (simp add: pascal_loop_concat)
  qed
  ultimately have "[] \<notin> set (map concat ?ws)" "concat (map concat ?ws) = name" by fastforce+
  with pascal_loop_heads [of upper lower "utf8_chars name" "[]"] show ?thesis
    unfolding pascal_tokens_def list_all_iff by blast
qed

end
