(* ===== verification/Json.thy ===== *)
theory Json
  imports Complex_Main Rust_Strings "HOL-Library.Word" "HOL-Library.List_Lexorder" "HOL-Library.Char_ord"
begin

text \<open>
  JSON values as \<open>serde_json\<close> holds them. A number is an unsigned or a negative 64-bit integer or a
  finite double, and two numbers are equal only in the same representation. An object is a
  \<open>BTreeMap\<close>, the entries in ascending byte order of their keys. A finite double is the rational
  it denotes; \<open>as_f64\<close> rounds an integer to 53 significant bits, ties to even.
\<close>

section \<open>Values\<close>

datatype json_number = PosInt "64 word" | NegInt "64 word" | Float rat

datatype json =
    JNull
  | JBool bool
  | JNumber json_number
  | JString string
  | JArray "json list"
  | JObject "(string \<times> json) list"

fun json_ok :: "json \<Rightarrow> bool" where
  "json_ok (JArray vs) \<longleftrightarrow> list_all json_ok vs"
| "json_ok (JObject fs) \<longleftrightarrow> sorted_wrt (<) (map fst fs) \<and> list_all (\<lambda>(k, v). json_ok v) fs"
| "json_ok _ \<longleftrightarrow> True"

fun as_object :: "json \<Rightarrow> (string \<times> json) list option" where
  "as_object (JObject fs) = Some fs"
| "as_object _ = None"

fun as_array :: "json \<Rightarrow> json list option" where
  "as_array (JArray vs) = Some vs"
| "as_array _ = None"

fun as_str :: "json \<Rightarrow> string option" where
  "as_str (JString s) = Some s"
| "as_str _ = None"

definition json_get :: "json \<Rightarrow> string \<Rightarrow> json option" where
  "json_get v key = (case as_object v of None \<Rightarrow> None | Some fs \<Rightarrow> map_of fs key)"

section \<open>Numbers as doubles\<close>

fun bit_count :: "nat \<Rightarrow> nat" where
  "bit_count n = (if n = 0 then 0 else Suc (bit_count (n div 2)))"

declare bit_count.simps [simp del]

definition round_half_even :: "nat \<Rightarrow> nat \<Rightarrow> nat" where
  "round_half_even n d =
     (let q = n div d; r = n mod d
      in if d < 2 * r \<or> d = 2 * r \<and> odd q then Suc q else q)"

definition double_of_nat :: "nat \<Rightarrow> nat" where
  "double_of_nat n = (let unit = 2 ^ (bit_count n - 53) in round_half_even n unit * unit)"

fun as_f64 :: "json \<Rightarrow> rat option" where
  "as_f64 (JNumber (PosInt w)) = Some (of_nat (double_of_nat (unat w)))"
| "as_f64 (JNumber (NegInt w)) = Some (- of_nat (double_of_nat (nat (- sint w))))"
| "as_f64 (JNumber (Float r)) = Some r"
| "as_f64 _ = None"

section \<open>Facts\<close>

lemma json_ok_distinct: "json_ok (JObject fs) \<Longrightarrow> distinct (map fst fs)"
  by (simp add: strict_sorted_iff)

lemma json_ok_entry: "json_ok (JObject fs) \<Longrightarrow> (k, v) \<in> set fs \<Longrightarrow> json_ok v"
  by (auto simp: list_all_iff)

lemma json_get_entry: "json_ok (JObject fs) \<Longrightarrow> (k, v) \<in> set fs \<Longrightarrow> json_get (JObject fs) k = Some v"
  using json_ok_distinct [of fs] by (simp add: json_get_def)

lemma json_get_ok: "json_ok v \<Longrightarrow> json_get v k = Some u \<Longrightarrow> json_ok u"
  by (cases v) (auto simp: json_get_def list_all_iff dest!: map_of_SomeD)

lemma size_entry [termination_simp]: "(k, v) \<in> set fs \<Longrightarrow> size v < Suc (size_list (size_prod (\<lambda>_. 0) size) fs)"
  by (induction fs) auto

lemma size_element [termination_simp]: "v \<in> set vs \<Longrightarrow> size v < Suc (size_list size vs)"
  by (induction vs) auto

lemma json_get_smaller: "json_get v k = Some u \<Longrightarrow> size u < size v"
  by (cases v) (auto simp: json_get_def dest!: map_of_SomeD size_entry)

text \<open>An integer of at most 53 bits is itself; a larger one may not be.\<close>

lemma bit_count_le: "n < 2 ^ k \<Longrightarrow> bit_count n \<le> k"
proof (induction k arbitrary: n)
  case 0
  then show ?case by (simp add: bit_count.simps)
next
  case (Suc k)
  have "n div 2 < 2 ^ k" using Suc.prems by auto
  from Suc.IH [OF this] show ?case by (subst bit_count.simps) simp
qed

lemma double_of_small: "n < 2 ^ 53 \<Longrightarrow> double_of_nat n = n"
  using bit_count_le [of n 53] by (simp add: double_of_nat_def round_half_even_def)

end
