(* ===== verification/Event_Condition.thy ===== *)
theory Event_Condition
  imports Json
begin

text \<open>
  The conditions of event subscriptions (\<open>core/event_subscription/condition.rs\<close>): the evaluator, the
  validator a write surface runs, the field paths a condition names, and the suggestions for a
  path that resolves to nothing. The regular expression engine is a third-party crate:
  \<open>Regex::new\<close> is a parameter, which gives for a pattern the text of its error or the search.
\<close>

type_synonym regex_new = "string \<Rightarrow> string + (string \<Rightarrow> bool)"

section \<open>Paths\<close>

definition or_key :: string where
  "or_key = ''$or''"

definition max_or_depth :: nat where
  "max_or_depth = 8"

definition starts_with_dollar :: "string \<Rightarrow> bool" where
  "starts_with_dollar key \<longleftrightarrow> (case key of [] \<Rightarrow> False | c # _ \<Rightarrow> c = CHR ''$'')"

text \<open>\<open>str::split_once\<close> and \<open>str::rsplit_once\<close> at a dot.\<close>

fun split_once_dot :: "string \<Rightarrow> (string \<times> string) option" where
  "split_once_dot [] = None"
| "split_once_dot (c # cs) =
     (if c = CHR ''.'' then Some ([], cs)
      else map_option (\<lambda>(h, t). (c # h, t)) (split_once_dot cs))"

definition last_segment :: "string \<Rightarrow> string" where
  "last_segment path = rev (takeWhile (\<lambda>c. c \<noteq> CHR ''.'') (rev path))"

lemma split_once_dot_Some:
  "split_once_dot s = Some (h, t) \<longleftrightarrow> s = h @ CHR ''.'' # t \<and> CHR ''.'' \<notin> set h"
proof (induction s arbitrary: h)
  case (Cons c cs)
  then show ?case by (cases h) auto
qed simp

lemma split_once_dot_None: "split_once_dot s = None \<longleftrightarrow> CHR ''.'' \<notin> set s"
  by (induction s) auto

lemma split_once_dot_shorter [termination_simp]:
  "split_once_dot s = Some (h, t) \<Longrightarrow> length t < length s"
  by (auto simp: split_once_dot_Some)

function resolve :: "json \<Rightarrow> string \<Rightarrow> json option" where
  "resolve current rest =
     (case json_get current rest of
        Some found \<Rightarrow> Some found
      | None \<Rightarrow>
          (case split_once_dot rest of
             None \<Rightarrow> None
           | Some (head, tail) \<Rightarrow>
               (case json_get current head of None \<Rightarrow> None | Some child \<Rightarrow> resolve child tail)))"
  by pat_completeness auto
termination
  by (relation "measure (\<lambda>(_, rest). length rest)") (auto dest: split_once_dot_shorter)

declare resolve.simps [simp del]

definition resolves :: "json \<Rightarrow> string \<Rightarrow> bool" where
  "resolves payload path \<longleftrightarrow> resolve payload path \<noteq> None"

definition resolved :: "json \<Rightarrow> string \<Rightarrow> json" where
  "resolved payload key = (case resolve payload key of None \<Rightarrow> JNull | Some v \<Rightarrow> v)"

section \<open>Operators\<close>

definition json_compare :: "json \<Rightarrow> json \<Rightarrow> (rat \<Rightarrow> rat \<Rightarrow> bool) \<Rightarrow> bool" where
  "json_compare a b cmp =
     (case (as_f64 a, as_f64 b) of (Some a, Some b) \<Rightarrow> cmp a b | _ \<Rightarrow> False)"

definition in_list :: "json \<Rightarrow> json \<Rightarrow> bool" where
  "in_list expected actual = (case as_array expected of Some vs \<Rightarrow> actual \<in> set vs | None \<Rightarrow> False)"

definition matches_regex :: "regex_new \<Rightarrow> json \<Rightarrow> json \<Rightarrow> bool" where
  "matches_regex regex pat actual =
     (case (as_str pat, as_str actual) of
        (Some pat, Some actual) \<Rightarrow> (case regex pat of Inr is_match \<Rightarrow> is_match actual | Inl _ \<Rightarrow> False)
      | _ \<Rightarrow> False)"

definition evaluate_operator :: "regex_new \<Rightarrow> string \<Rightarrow> json \<Rightarrow> json \<Rightarrow> bool" where
  "evaluate_operator regex operator expected actual =
     (if operator = ''$eq'' then actual = expected
      else if operator = ''$ne'' then actual \<noteq> expected
      else if operator = ''$lt'' then json_compare actual expected (<)
      else if operator = ''$lte'' then json_compare actual expected (\<le>)
      else if operator = ''$gt'' then json_compare actual expected (\<lambda>a b. b < a)
      else if operator = ''$gte'' then json_compare actual expected (\<lambda>a b. b \<le> a)
      else if operator = ''$in'' then in_list expected actual
      else if operator = ''$nin'' then as_array expected \<noteq> None \<and> \<not> in_list expected actual
      else if operator = ''$regex'' then matches_regex regex expected actual
      else False)"

definition evaluate_op :: "regex_new \<Rightarrow> json \<Rightarrow> json \<Rightarrow> bool" where
  "evaluate_op regex opn actual =
     (case as_object opn of
        Some ops \<Rightarrow> list_all (\<lambda>(operator, expected). evaluate_operator regex operator expected actual) ops
      | None \<Rightarrow> actual = opn)"

section \<open>Conditions\<close>

function evaluate_condition :: "regex_new \<Rightarrow> json \<Rightarrow> json \<Rightarrow> nat \<Rightarrow> bool" where
  "evaluate_condition regex cond payload depth =
     (case as_object cond of
        None \<Rightarrow> False
      | Some fields \<Rightarrow>
          list_all (\<lambda>(key, opn).
            if key = or_key then
              (if max_or_depth \<le> depth then False
               else case as_array opn of
                      Some branches \<Rightarrow> list_ex (\<lambda>b. evaluate_condition regex b payload (Suc depth)) branches
                    | None \<Rightarrow> False)
            else if starts_with_dollar key then False
            else evaluate_op regex opn (resolved payload key)) fields)"
  by pat_completeness auto
termination
  by (relation "measure (\<lambda>(_, _, _, depth). max_or_depth - depth)") auto

declare evaluate_condition.simps [simp del]

definition evaluate :: "regex_new \<Rightarrow> json option \<Rightarrow> json \<Rightarrow> bool" where
  "evaluate regex cond payload =
     (case cond of None \<Rightarrow> True | Some c \<Rightarrow> evaluate_condition regex c payload 0)"

definition or_branches :: "json \<Rightarrow> json list" where
  "or_branches opn = (case as_array opn of Some branches \<Rightarrow> branches | None \<Rightarrow> [])"

lemma or_branch_smaller:
  "as_object cond = Some fields \<Longrightarrow> (key, opn) \<in> set fields \<Longrightarrow> b \<in> set (or_branches opn) \<Longrightarrow>
     size b < size cond"
  by (cases cond; cases opn) (force simp: or_branches_def dest: size_entry size_element)+

text \<open>\<open>out\<close> holds the paths collected so far.\<close>

function collect_field_paths :: "json \<Rightarrow> nat \<Rightarrow> string list \<Rightarrow> string list" where
  "collect_field_paths cond depth out =
     (case as_object cond of
        None \<Rightarrow> out
      | Some fields \<Rightarrow>
          fold (\<lambda>(key, opn) out.
            if key = or_key then
              (if max_or_depth \<le> depth then out
               else fold (\<lambda>b out. collect_field_paths b (Suc depth) out) (or_branches opn) out)
            else if starts_with_dollar key then out
            else if key \<in> set out then out else out @ [key]) fields out)"
  by pat_completeness auto
termination
  by (relation "measure (\<lambda>(_, depth, _). max_or_depth - depth)") auto

declare collect_field_paths.simps [simp del]

definition field_paths :: "json \<Rightarrow> string list" where
  "field_paths cond = collect_field_paths cond 0 []"

section \<open>Validation\<close>

definition condition_operators :: "string list" where
  "condition_operators =
     [''$eq'', ''$ne'', ''$lt'', ''$lte'', ''$gt'', ''$gte'', ''$in'', ''$nin'', ''$regex'']"

fun join :: "string \<Rightarrow> string list \<Rightarrow> string" where
  "join sep [] = []"
| "join sep [x] = x"
| "join sep (x # y # zs) = x @ sep @ join sep (y # zs)"

definition tick :: "string \<Rightarrow> string" where
  "tick s = CHR 0x27 # s @ [CHR 0x27]"

definition back_tick :: "string \<Rightarrow> string" where
  "back_tick s = CHR 0x60 # s @ [CHR 0x60]"

fun is_number :: "json \<Rightarrow> bool" where
  "is_number (JNumber _) \<longleftrightarrow> True"
| "is_number _ \<longleftrightarrow> False"

text \<open>One operator of a field; nothing is the absence of an error.\<close>

definition validate_operator :: "regex_new \<Rightarrow> string \<Rightarrow> string \<times> json \<Rightarrow> string option" where
  "validate_operator regex field e =
     (case e of (operator, expected) \<Rightarrow>
      if \<not> starts_with_dollar operator then
        Some (tick field @ '' is followed by an object naming '' @ tick operator @
          '', which is not an operator. To match a nested field, name the whole path: '' @
          tick (field @ ''.'' @ operator) @ ''.'')
      else if operator \<in> {''$eq'', ''$ne''} then None
      else if operator \<in> {''$lt'', ''$lte'', ''$gt'', ''$gte''} \<and> \<not> is_number expected then
        Some (tick field @ '' '' @ operator @ '' compares numbers'')
      else if operator \<in> {''$in'', ''$nin''} \<and> as_array expected = None then
        Some (tick field @ '' '' @ operator @ '' takes an array of values'')
      else if operator \<in> {''$lt'', ''$lte'', ''$gt'', ''$gte'', ''$in'', ''$nin''} then None
      else if operator = ''$regex'' then
        (case as_str expected of
           None \<Rightarrow> Some (tick field @ '' $regex takes a pattern string'')
         | Some pat \<Rightarrow>
             (case regex pat of
                Inl e \<Rightarrow> Some (tick field @ '' $regex is not a valid pattern: '' @ e)
              | Inr _ \<Rightarrow> None))
      else Some (tick operator @ '' is not an operator. Use one of: '' @
             join '', '' condition_operators @ ''.''))"

text \<open>The first error of a sequence of checks.\<close>

fun first_error :: "('a \<Rightarrow> 'e option) \<Rightarrow> 'a list \<Rightarrow> 'e option" where
  "first_error f [] = None"
| "first_error f (x # xs) = (case f x of Some e \<Rightarrow> Some e | None \<Rightarrow> first_error f xs)"

lemma first_error_None: "first_error f xs = None \<longleftrightarrow> (\<forall>x \<in> set xs. f x = None)"
  by (induction xs) (auto split: option.splits)

lemma first_error_cong [fundef_cong]:
  "xs = ys \<Longrightarrow> (\<And>x. x \<in> set ys \<Longrightarrow> f x = g x) \<Longrightarrow> first_error f xs = first_error g ys"
  by (induction ys arbitrary: xs) (auto split: option.splits)

definition validate_op :: "regex_new \<Rightarrow> string \<Rightarrow> json \<Rightarrow> string option" where
  "validate_op regex field opn =
     (case as_object opn of
        None \<Rightarrow> None
      | Some ops \<Rightarrow> first_error (validate_operator regex field) ops)"

function validate_condition :: "regex_new \<Rightarrow> json \<Rightarrow> nat \<Rightarrow> string option" where
  "validate_condition regex cond depth =
     (case as_object cond of
        None \<Rightarrow> Some ''a condition must be a JSON object mapping field paths to values or operators''
      | Some fields \<Rightarrow>
          first_error (\<lambda>(key, opn).
            if key = or_key then
              (if max_or_depth \<le> depth
               then Some (back_tick or_key @ '' may nest at most '' @ show_nat max_or_depth @ '' deep'')
               else case as_array opn of
                      None \<Rightarrow> Some (back_tick or_key @ '' takes an array of conditions'')
                    | Some [] \<Rightarrow> Some (back_tick or_key @
                        '' takes at least one condition; an empty list can never match'')
                    | Some (b # branches) \<Rightarrow>
                        first_error (\<lambda>b. validate_condition regex b (Suc depth)) (b # branches))
            else if starts_with_dollar key then
              Some (tick key @ '' is not a combinator. '' @ back_tick or_key @
                '' is the only one, and every other '' @ back_tick ''$'' @
                ''-prefixed name is reserved for a future one.'')
            else validate_op regex key opn) fields)"
  by pat_completeness auto
termination
  by (relation "measure (\<lambda>(_, _, depth). max_or_depth - depth)") auto

declare validate_condition.simps [simp del]

definition validate :: "regex_new \<Rightarrow> json \<Rightarrow> string option" where
  "validate regex cond = validate_condition regex cond 0"

section \<open>Suggestions\<close>

definition max_suggestion_depth :: nat where
  "max_suggestion_depth = 8"

definition max_suggestion_nodes :: nat where
  "max_suggestion_nodes = 2000"

definition max_suggestions :: nat where
  "max_suggestions = 3"

type_synonym search_node = "string \<times> json \<times> nat"

definition child_path :: "string \<Rightarrow> string \<Rightarrow> string" where
  "child_path prefix key = (if prefix = [] then key else prefix @ ''.'' @ key)"

text \<open>The inner loop: the entries of one object. It returns the answer early on the left, or else
  the count of visited entries, the paths found and the queue with the children pushed.\<close>

fun scan_fields :: "string \<Rightarrow> string \<Rightarrow> string \<Rightarrow> nat \<Rightarrow> (string \<times> json) list \<Rightarrow>
    nat \<times> string list \<times> search_node list \<Rightarrow> string list + nat \<times> string list \<times> search_node list" where
  "scan_fields leaf path prefix depth [] acc = Inr acc"
| "scan_fields leaf path prefix depth ((key, v) # fields) (visited, found, queue) =
     (let visited = Suc visited;
          full = child_path prefix key;
          hit = (key = leaf \<and> full \<noteq> path);
          found' = (if hit then found @ [full] else found);
          queue' = (if as_object v \<noteq> None \<and> Suc depth < max_suggestion_depth
                    then queue @ [(full, v, Suc depth)] else queue)
      in if max_suggestion_nodes < visited then Inl found
         else if hit \<and> length found' = max_suggestions then Inl found'
         else scan_fields leaf path prefix depth fields (visited, found', queue'))"

definition queue_size :: "search_node list \<Rightarrow> nat" where
  "queue_size queue = sum_list (map (\<lambda>(_, v, _). size v) queue)"

lemma queue_size_simps [simp]:
  "queue_size [] = 0"
  "queue_size ((p, v, d) # queue) = size v + queue_size queue"
  "queue_size (queue @ queue') = queue_size queue + queue_size queue'"
  by (simp_all add: queue_size_def)

lemma scan_fields_size:
  "scan_fields leaf path prefix depth fields (visited, found, queue) = Inr (visited', found', queue') \<Longrightarrow>
     queue_size queue' \<le> queue_size queue + size_list (size_prod (\<lambda>_. 0) size) fields"
  by (induction fields arbitrary: visited found queue)
     (fastforce simp: Let_def split: if_splits)+

function search_paths :: "string \<Rightarrow> string \<Rightarrow> nat \<times> string list \<times> search_node list \<Rightarrow> string list" where
  "search_paths leaf path (visited, found, []) = found"
| "search_paths leaf path (visited, found, (prefix, v, depth) # queue) =
     (case as_object v of
        None \<Rightarrow> search_paths leaf path (visited, found, queue)
      | Some fields \<Rightarrow>
          (case scan_fields leaf path prefix depth fields (visited, found, queue) of
             Inl answer \<Rightarrow> answer
           | Inr acc \<Rightarrow> search_paths leaf path acc))"
  by pat_completeness auto
termination
proof (relation "measures [\<lambda>(_, _, _, _, queue). queue_size queue, \<lambda>(_, _, _, _, queue). length queue]")
  fix leaf path prefix :: string and visited depth found queue fields acc v
  assume "as_object v = Some fields" "scan_fields leaf path prefix depth fields (visited, found, queue) = Inr acc"
  then show "((leaf, path, acc), leaf, path, visited, found, (prefix, v, depth) # queue) \<in>
      measures [\<lambda>(_, _, _, _, queue). queue_size queue, \<lambda>(_, _, _, _, queue). length queue]"
    by (cases v; cases acc) (auto dest!: scan_fields_size)
qed auto

definition same_leaf_paths :: "json \<Rightarrow> string \<Rightarrow> string list" where
  "same_leaf_paths payload path = search_paths (last_segment path) path (0, [], [([], payload, 0)])"

end
