(* ===== verification/Event_Condition_Properties.thy ===== *)
theory Event_Condition_Properties
  imports Event_Condition
begin

text \<open>
  What a condition means: a plain recursive reading of it, without the bound on nesting, that the
  evaluator agrees with on every condition the validator lets through; the paths a condition
  names are all its verdict depends on; and a suggested path is found where it says.
\<close>

section \<open>The meaning of a condition\<close>

function condition_holds :: "regex_new \<Rightarrow> json \<Rightarrow> json \<Rightarrow> bool" where
  "condition_holds regex cond payload =
     (case as_object cond of
        None \<Rightarrow> False
      | Some fields \<Rightarrow>
          (\<forall>(key, opn) \<in> set fields.
             if key = or_key then
               (\<exists>b \<in> set (or_branches opn). condition_holds regex b payload)
             else \<not> starts_with_dollar key \<and> evaluate_op regex opn (resolved payload key)))"
  by pat_completeness auto
termination
  by (relation "measure (\<lambda>(_, cond, _). size cond)") (auto intro: or_branch_smaller)

declare condition_holds.simps [simp del]

text \<open>The shape all three walks of a condition share: the branches of each \<open>$or\<close>, and each path with
  its operators.\<close>

abbreviation each_field ::
  "(string \<times> json) list \<Rightarrow> (json list \<Rightarrow> bool) \<Rightarrow> (string \<Rightarrow> json \<Rightarrow> bool) \<Rightarrow> bool" where
  "each_field fields P Q \<equiv> (\<forall>key opn. (key, opn) \<in> set fields \<longrightarrow>
     (if key = or_key then P (or_branches opn) else \<not> starts_with_dollar key \<and> Q key opn))"

lemma each_field_mono:
  assumes "each_field fields P Q"
    and "\<And>opn. (or_key, opn) \<in> set fields \<Longrightarrow> P (or_branches opn) \<Longrightarrow> P' (or_branches opn)"
    and "\<And>key opn. (key, opn) \<in> set fields \<Longrightarrow> key \<noteq> or_key \<Longrightarrow> \<not> starts_with_dollar key \<Longrightarrow>
      Q key opn \<Longrightarrow> Q' key opn"
  shows "each_field fields P' Q'"
proof (intro allI impI)
  fix key opn assume e: "(key, opn) \<in> set fields"
  with assms(1) have "if key = or_key then P (or_branches opn) else \<not> starts_with_dollar key \<and> Q key opn"
    by blast
  with assms(2) [of opn] assms(3) [of key opn] e
  show "if key = or_key then P' (or_branches opn) else \<not> starts_with_dollar key \<and> Q' key opn"
    by (cases "key = or_key") auto
qed

lemma evaluate_iff:
  "evaluate_condition regex cond payload depth \<longleftrightarrow>
     (\<exists>fields. as_object cond = Some fields \<and>
        each_field fields
          (\<lambda>bs. depth < max_or_depth \<and> (\<exists>b \<in> set bs. evaluate_condition regex b payload (Suc depth)))
          (\<lambda>key opn. evaluate_op regex opn (resolved payload key)))"
proof -
  have "(case as_array opn of Some bs \<Rightarrow> list_ex P bs | None \<Rightarrow> False) \<longleftrightarrow>
      (\<exists>b \<in> set (or_branches opn). P b)" for P opn
    by (cases opn) (auto simp: or_branches_def list_ex_iff)
  note this [simp]
  have "(if key = or_key then (if max_or_depth \<le> depth then False else P) else if starts_with_dollar key then False else Q)
      \<longleftrightarrow> (if key = or_key then depth < max_or_depth \<and> P else \<not> starts_with_dollar key \<and> Q)" for key P Q
    by auto
  note this [simp]
  show ?thesis
    by (cases "as_object cond") (simp_all add: evaluate_condition.simps [of regex cond] list_all_iff
        Ball_def split_paired_All del: if_split cong: if_cong)
qed

lemma holds_iff:
  "condition_holds regex cond payload \<longleftrightarrow>
     (\<exists>fields. as_object cond = Some fields \<and>
        each_field fields (\<lambda>bs. \<exists>b \<in> set bs. condition_holds regex b payload)
          (\<lambda>key opn. evaluate_op regex opn (resolved payload key)))"
  by (cases "as_object cond") (auto simp: condition_holds.simps [of regex cond])

lemma validate_iff:
  "validate_condition regex cond depth = None \<longleftrightarrow>
     (\<exists>fields. as_object cond = Some fields \<and>
        each_field fields
          (\<lambda>bs. depth < max_or_depth \<and> bs \<noteq> [] \<and>
            (\<forall>b \<in> set bs. validate_condition regex b (Suc depth) = None))
          (\<lambda>key opn. validate_op regex key opn = None))"
proof -
  have "(case as_array opn of None \<Rightarrow> Some e | Some [] \<Rightarrow> Some e' | Some (b # bs) \<Rightarrow> first_error f (b # bs)) = None
      \<longleftrightarrow> or_branches opn \<noteq> [] \<and> (\<forall>b \<in> set (or_branches opn). f b = None)" for opn f and e e' :: string
    by (cases opn) (auto simp: or_branches_def first_error_None simp del: first_error.simps split: list.splits)
  note this [simp]
  show ?thesis
    by (cases "as_object cond")
       (auto simp: validate_condition.simps [of regex cond] first_error_None not_le simp del: first_error.simps
         split: if_splits)
qed

text \<open>The cap on nesting only ever turns a verdict to false.\<close>

lemma evaluate_sound: "evaluate_condition regex cond payload depth \<Longrightarrow> condition_holds regex cond payload"
proof (induction regex cond payload arbitrary: depth rule: condition_holds.induct)
  case (1 regex cond payload)
  then obtain fields where f: "as_object cond = Some fields" by (auto simp: evaluate_iff [of regex cond])
  with "1.prems" have "each_field fields
      (\<lambda>bs. depth < max_or_depth \<and> (\<exists>b \<in> set bs. evaluate_condition regex b payload (Suc depth)))
      (\<lambda>key opn. evaluate_op regex opn (resolved payload key))"
    by (simp add: evaluate_iff [of regex cond])
  then have "each_field fields (\<lambda>bs. \<exists>b \<in> set bs. condition_holds regex b payload)
      (\<lambda>key opn. evaluate_op regex opn (resolved payload key))"
    by (rule each_field_mono) (use "1.IH" [OF f _ refl refl] in blast)
  with f show ?case by (simp add: holds_iff [of regex cond])
qed

lemma evaluate_complete:
  "validate_condition regex cond depth = None \<Longrightarrow> condition_holds regex cond payload \<Longrightarrow>
     evaluate_condition regex cond payload depth"
proof (induction regex cond payload arbitrary: depth rule: condition_holds.induct)
  case (1 regex cond payload)
  then obtain fields where f: "as_object cond = Some fields" by (auto simp: validate_iff [of regex cond])
  have valid: "depth < max_or_depth"
    "\<forall>b \<in> set (or_branches opn). validate_condition regex b (Suc depth) = None"
    if "(or_key, opn) \<in> set fields" for opn
    using "1.prems"(1) f that by (auto simp: validate_iff [of regex cond])
  from "1.prems"(2) f have "each_field fields (\<lambda>bs. \<exists>b \<in> set bs. condition_holds regex b payload)
      (\<lambda>key opn. evaluate_op regex opn (resolved payload key))"
    by (simp add: holds_iff [of regex cond])
  then have "each_field fields
      (\<lambda>bs. depth < max_or_depth \<and> (\<exists>b \<in> set bs. evaluate_condition regex b payload (Suc depth)))
      (\<lambda>key opn. evaluate_op regex opn (resolved payload key))"
    by (rule each_field_mono) (use "1.IH" [OF f _ refl refl] valid in blast)+
  with f show ?case by (simp add: evaluate_iff [of regex cond])
qed

text \<open>C1. A condition a write surface accepts means what it says. On every condition \<open>validate\<close> lets
  through, the evaluator agrees with the plain reading of it (every field path satisfies its
  operators, an \<open>$or\<close> some branch), so the bound on nesting never decides; and on any condition at
  all, stored before or not, a match is a match under that reading.\<close>

theorem validated_conditions_mean_what_they_say:
  shows "(validate regex cond = None \<longrightarrow> evaluate regex (Some cond) payload = condition_holds regex cond payload) \<and>
    (evaluate regex (Some cond) payload \<longrightarrow> condition_holds regex cond payload)"
  using evaluate_sound evaluate_complete by (auto simp: evaluate_def validate_def)

text \<open>The witness: two operators and an \<open>$or\<close>.\<close>

definition demo_condition :: json where
  "demo_condition = JObject [(''$or'', JArray [JObject [(''a.b'', JNumber (PosInt 1))], JObject [(''c'', JNull)]]),
     (''n'', JObject [(''$gt'', JNumber (PosInt 2)), (''$in'', JArray [JNumber (PosInt 3)])])]"

definition demo_payload :: json where
  "demo_payload = JObject [(''a'', JObject [(''b'', JNumber (PosInt 1))]), (''n'', JNumber (PosInt 3))]"

theorem validated_conditions_mean_what_they_say_witness:
  "condition_holds (\<lambda>_. Inl []) demo_condition demo_payload \<and>
   evaluate (\<lambda>_. Inl []) (Some demo_condition) demo_payload"
proof -
  have "validate (\<lambda>_. Inl []) demo_condition = None" by code_simp
  moreover have "evaluate (\<lambda>_. Inl []) (Some demo_condition) demo_payload"
    by (simp add: evaluate_def evaluate_iff demo_condition_def demo_payload_def or_key_def starts_with_dollar_def
        max_or_depth_def or_branches_def evaluate_op_def evaluate_operator_def resolved_def resolve.simps
        json_get_def json_compare_def in_list_def double_of_small)
  ultimately show ?thesis
    using validated_conditions_mean_what_they_say [of "\<lambda>_. Inl []" demo_condition demo_payload] by blast
qed

section \<open>The paths a verdict depends on\<close>

function named_paths :: "json \<Rightarrow> nat \<Rightarrow> string set" where
  "named_paths cond depth =
     (case as_object cond of
        None \<Rightarrow> {}
      | Some fields \<Rightarrow>
          (\<Union>(key, opn) \<in> set fields.
             if key = or_key then
               (if max_or_depth \<le> depth then {} else \<Union>b \<in> set (or_branches opn). named_paths b (Suc depth))
             else if starts_with_dollar key then {} else {key}))"
  by pat_completeness auto
termination
  by (relation "measure (\<lambda>(_, depth). max_or_depth - depth)") auto

declare named_paths.simps [simp del]

lemma fold_grows:
  assumes "\<And>x out. x \<in> set xs \<Longrightarrow> set (f x out) = set out \<union> g x \<and> (distinct out \<longrightarrow> distinct (f x out))"
  shows "set (fold f xs out) = set out \<union> (\<Union>x \<in> set xs. g x) \<and> (distinct out \<longrightarrow> distinct (fold f xs out))"
  using assms by (induction xs arbitrary: out) auto

lemma collect_named:
  "set (collect_field_paths cond depth out) = set out \<union> named_paths cond depth \<and>
   (distinct out \<longrightarrow> distinct (collect_field_paths cond depth out))"
proof (induction cond depth arbitrary: out rule: named_paths.induct)
  case (1 cond depth)
  show ?case
  proof (cases "as_object cond")
    case None
    then show ?thesis by (simp add: collect_field_paths.simps [of cond] named_paths.simps [of cond])
  next
    case (Some fields)
    note IH = "1.IH" [OF Some _ refl refl]
    show ?thesis
      unfolding collect_field_paths.simps [of cond] named_paths.simps [of cond] Some option.case
    proof (rule fold_grows, clarify)
      fix key opn out
      assume e: "(key, opn) \<in> set fields"
      show "set (if key = or_key
            then if max_or_depth \<le> depth then out
              else fold (\<lambda>b. collect_field_paths b (Suc depth)) (or_branches opn) out
            else if starts_with_dollar key then out else if key \<in> set out then out else out @ [key]) =
          set out \<union> (if key = or_key
            then if max_or_depth \<le> depth then {} else \<Union>b \<in> set (or_branches opn). named_paths b (Suc depth)
            else if starts_with_dollar key then {} else {key}) \<and>
        (distinct out \<longrightarrow> distinct (if key = or_key
            then if max_or_depth \<le> depth then out
              else fold (\<lambda>b. collect_field_paths b (Suc depth)) (or_branches opn) out
            else if starts_with_dollar key then out else if key \<in> set out then out else out @ [key]))"
        using fold_grows [of "or_branches opn" "\<lambda>b. collect_field_paths b (Suc depth)"
            "\<lambda>b. named_paths b (Suc depth)" out] IH e
        by auto
    qed
  qed
qed

lemma evaluate_agree:
  "\<forall>path \<in> named_paths cond depth. resolved p path = resolved q path \<Longrightarrow>
     evaluate_condition regex cond p depth \<Longrightarrow> evaluate_condition regex cond q depth"
proof (induction cond depth rule: named_paths.induct)
  case (1 cond depth)
  then obtain fields where f: "as_object cond = Some fields" by (auto simp: evaluate_iff [of regex cond])
  note IH = "1.IH" [OF f _ refl refl]
  have sub: "named_paths b (Suc depth) \<subseteq> named_paths cond depth"
    if "(or_key, opn) \<in> set fields" "b \<in> set (or_branches opn)" "depth < max_or_depth" for opn b
    unfolding named_paths.simps [of cond depth] f option.case
    by (rule subset_trans [OF _ UN_upper [OF that(1)]]) (use that(2,3) in auto)
  have key: "key \<in> named_paths cond depth"
    if "(key, opn) \<in> set fields" "key \<noteq> or_key" "\<not> starts_with_dollar key" for key opn
    unfolding named_paths.simps [of cond depth] f option.case
    by (rule UN_I [OF that(1)]) (use that(2,3) in simp)
  from "1.prems"(2) f have "each_field fields
      (\<lambda>bs. depth < max_or_depth \<and> (\<exists>b \<in> set bs. evaluate_condition regex b p (Suc depth)))
      (\<lambda>key opn. evaluate_op regex opn (resolved p key))"
    by (simp add: evaluate_iff [of regex cond])
  then have "each_field fields
      (\<lambda>bs. depth < max_or_depth \<and> (\<exists>b \<in> set bs. evaluate_condition regex b q (Suc depth)))
      (\<lambda>key opn. evaluate_op regex opn (resolved q key))"
  proof (rule each_field_mono)
    fix opn assume e: "(or_key, opn) \<in> set fields"
      and "depth < max_or_depth \<and> (\<exists>b \<in> set (or_branches opn). evaluate_condition regex b p (Suc depth))"
    then obtain b where b: "depth < max_or_depth" "b \<in> set (or_branches opn)"
      "evaluate_condition regex b p (Suc depth)" by blast
    with IH [OF e _ b(2)] sub [OF e b(2,1)] "1.prems"(1)
    show "depth < max_or_depth \<and> (\<exists>b \<in> set (or_branches opn). evaluate_condition regex b q (Suc depth))"
      by (auto simp: not_le subset_iff)
  qed (use key "1.prems"(1) in auto)
  with f show ?case by (simp add: evaluate_iff [of regex cond])
qed

text \<open>C1. A condition looks only at the paths it names. \<open>field_paths\<close> lists them without repeats, and two
  payloads on which each of these paths resolves to the same value, absent counting as null, get
  the same verdict.\<close>

theorem a_verdict_depends_on_the_named_paths:
  assumes "\<forall>path \<in> set (field_paths cond). resolved p path = resolved q path"
  shows "evaluate regex (Some cond) p = evaluate regex (Some cond) q \<and> distinct (field_paths cond)"
proof -
  have named: "set (field_paths cond) = named_paths cond 0" "distinct (field_paths cond)"
    using collect_named [of cond 0 "[]"] by (simp_all add: field_paths_def)
  with assms have "\<forall>path \<in> named_paths cond 0. resolved p path = resolved q path"
    "\<forall>path \<in> named_paths cond 0. resolved q path = resolved p path" by simp_all
  from evaluate_agree [OF this(1)] evaluate_agree [OF this(2)] named(2) show ?thesis
    by (simp add: evaluate_def) blast
qed

theorem a_verdict_depends_on_the_named_paths_witness:
  "evaluate (\<lambda>_. Inl []) (Some (JObject [(''a'', JBool True)])) (JObject [(''a'', JBool True), (''b'', JNull)]) =
   evaluate (\<lambda>_. Inl []) (Some (JObject [(''a'', JBool True)])) (JObject [(''a'', JBool True)])"
proof -
  have "list_all (\<lambda>path. resolved (JObject [(''a'', JBool True), (''b'', JNull)]) path =
      resolved (JObject [(''a'', JBool True)]) path) (field_paths (JObject [(''a'', JBool True)]))"
    by code_simp
  then have "\<forall>path \<in> set (field_paths (JObject [(''a'', JBool True)])).
      resolved (JObject [(''a'', JBool True), (''b'', JNull)]) path = resolved (JObject [(''a'', JBool True)]) path"
    by (simp add: list_all_iff)
  from a_verdict_depends_on_the_named_paths [OF this, of "\<lambda>_. Inl []"] show ?thesis by blast
qed

end
