(* ===== verification/Event_Suggestions.thy ===== *)
theory Event_Suggestions
  imports Event_Condition_Properties
begin

text \<open>
  Field paths read back. Where no key of the payload is empty or holds a dot, a path names the
  value its segments walk to, and the suggestions for a path that resolves to nothing are a few
  other paths to the same last segment, each found where it says, the shallowest first. Where a key
  does hold a dot the walk splits it, and a suggested path may resolve to nothing.
\<close>

section \<open>Paths as walks\<close>

definition plain_key :: "string \<Rightarrow> bool" where
  "plain_key k \<longleftrightarrow> k \<noteq> [] \<and> CHR ''.'' \<notin> set k"

fun plain_keys :: "json \<Rightarrow> bool" where
  "plain_keys (JArray vs) \<longleftrightarrow> list_all plain_keys vs"
| "plain_keys (JObject fs) \<longleftrightarrow> list_all (\<lambda>(k, v). plain_key k \<and> plain_keys v) fs"
| "plain_keys _ \<longleftrightarrow> True"

fun walk :: "json \<Rightarrow> string list \<Rightarrow> json option" where
  "walk v [] = Some v"
| "walk v (k # ks) = (case json_get v k of None \<Rightarrow> None | Some u \<Rightarrow> walk u ks)"

lemma walk_append: "walk v (ks @ ls) = (case walk v ks of None \<Rightarrow> None | Some u \<Rightarrow> walk u ls)"
  by (induction ks arbitrary: v) (auto split: option.splits)

lemma json_get_plain:
  "plain_keys v \<Longrightarrow> json_get v k = Some u \<Longrightarrow> plain_key k \<and> plain_keys u"
  by (cases v) (auto simp: json_get_def list_all_iff dest!: map_of_SomeD)

lemma walk_plain: "plain_keys v \<Longrightarrow> walk v ks = Some u \<Longrightarrow> list_all plain_key ks \<and> plain_keys u"
  by (induction ks arbitrary: v) (auto split: option.splits dest: json_get_plain)

lemma walk_ok: "json_ok v \<Longrightarrow> walk v ks = Some u \<Longrightarrow> json_ok u"
  by (induction ks arbitrary: v) (auto split: option.splits dest: json_get_ok)

lemma join_Cons: "ks \<noteq> [] \<Longrightarrow> join sep (k # ks) = k @ sep @ join sep ks"
  by (cases ks) simp_all

lemma join_snoc: "ks \<noteq> [] \<Longrightarrow> join sep (ks @ [k]) = join sep ks @ sep @ k"
proof (induction ks)
  case (Cons l ks)
  then show ?case by (cases ks) (simp_all add: join_Cons)
qed simp

lemma resolve_walk:
  "plain_keys v \<Longrightarrow> list_all plain_key ks \<Longrightarrow> ks \<noteq> [] \<Longrightarrow> resolve v (join ''.'' ks) = walk v ks"
proof (induction ks arbitrary: v)
  case (Cons k ks)
  show ?case
  proof (cases "ks = []")
    case True
    with Cons.prems(2) have "split_once_dot k = None" by (simp add: split_once_dot_None plain_key_def)
    with True show ?thesis by (simp add: resolve.simps [of v] split: option.splits)
  next
    case False
    have "split_once_dot (k @ CHR ''.'' # join ''.'' ks) = Some (k, join ''.'' ks)"
      using Cons.prems(2) by (simp add: split_once_dot_Some plain_key_def)
    moreover have "json_get v (k @ CHR ''.'' # join ''.'' ks) = None"
      using json_get_plain [OF Cons.prems(1), of "k @ CHR ''.'' # join ''.'' ks"]
      by (cases "json_get v (k @ CHR ''.'' # join ''.'' ks)") (auto simp: plain_key_def)
    ultimately show ?thesis
      using Cons.IH Cons.prems False json_get_plain [OF Cons.prems(1), of k]
      by (simp add: join_Cons resolve.simps [of v "k @ CHR ''.'' # join ''.'' ks"] split: option.splits)
  qed
qed simp

lemma takeWhile_until: "c \<notin> set xs \<Longrightarrow> takeWhile (\<lambda>x. x \<noteq> c) (xs @ c # ys) = xs"
  "c \<notin> set xs \<Longrightarrow> takeWhile (\<lambda>x. x \<noteq> c) xs = xs"
  by (induction xs) auto

lemma last_segment_snoc: "CHR ''.'' \<notin> set k \<Longrightarrow> last_segment (p @ CHR ''.'' # k) = k"
  by (simp add: last_segment_def takeWhile_until)

lemma last_segment_plain: "CHR ''.'' \<notin> set k \<Longrightarrow> last_segment k = k"
  by (simp add: last_segment_def takeWhile_until)

lemma join_last: "list_all plain_key (ks @ [k]) \<Longrightarrow> last_segment (join ''.'' (ks @ [k])) = k"
  by (cases "ks = []") (simp_all add: last_segment_plain last_segment_snoc plain_key_def join_snoc)

lemma child_join: "list_all plain_key ks \<Longrightarrow> child_path (join ''.'' ks) k = join ''.'' (ks @ [k])"
proof (cases ks)
  case (Cons l ls)
  assume "list_all plain_key ks"
  with Cons have "join ''.'' ks \<noteq> []" by (cases ls) (simp_all add: plain_key_def)
  with Cons join_snoc [of ks "''.''" k] show ?thesis by (simp add: child_path_def)
qed (simp add: child_path_def)

section \<open>The breadth-first search\<close>

text \<open>What the queue holds and what is found: prefixes of walks through the payload, and walks to the
  last segment asked for. The number of segments orders the search.\<close>

definition node_ok :: "json \<Rightarrow> search_node \<Rightarrow> bool" where
  "node_ok payload n = (case n of (prefix, v, depth) \<Rightarrow>
     \<exists>ks. walk payload ks = Some v \<and> prefix = join ''.'' ks \<and> depth = length ks)"

definition found_ok :: "json \<Rightarrow> string \<Rightarrow> string \<Rightarrow> nat \<Rightarrow> string \<Rightarrow> bool" where
  "found_ok payload leaf path depth s \<longleftrightarrow> s \<noteq> path \<and>
     (\<exists>ks u. walk payload (ks @ [leaf]) = Some u \<and> s = join ''.'' (ks @ [leaf]) \<and> length ks = depth)"

definition levels :: "json \<Rightarrow> string \<Rightarrow> string \<Rightarrow> nat \<Rightarrow> string list \<Rightarrow> bool" where
  "levels payload leaf path depth found \<longleftrightarrow> length found \<le> max_suggestions \<and>
     (\<exists>ds. sorted ds \<and> list_all2 (found_ok payload leaf path) ds found \<and> list_all (\<lambda>d. d \<le> depth) ds)"

definition frontier_ok :: "json \<Rightarrow> nat \<Rightarrow> search_node list \<Rightarrow> bool" where
  "frontier_ok payload depth queue \<longleftrightarrow> list_all (node_ok payload) queue \<and>
     sorted (map (\<lambda>(_, _, d). d) queue) \<and> list_all (\<lambda>(_, _, d). depth \<le> d \<and> d \<le> Suc depth) queue"

lemma levels_Nil [simp]: "levels payload leaf path depth []"
  by (auto simp: levels_def)

lemma levels_mono: "levels payload leaf path depth found \<Longrightarrow> depth \<le> depth' \<Longrightarrow> levels payload leaf path depth' found"
  unfolding levels_def by (metis (mono_tags, lifting) list.pred_mono_strong order_trans)

lemma levels_snoc:
  assumes "levels payload leaf path depth found" "found_ok payload leaf path depth s"
    and "length found < max_suggestions"
  shows "levels payload leaf path depth (found @ [s])"
proof -
  obtain ds where "sorted ds" "list_all2 (found_ok payload leaf path) ds found" "list_all (\<lambda>d. d \<le> depth) ds"
    using assms(1) by (auto simp: levels_def)
  then have "sorted (ds @ [depth]) \<and> list_all2 (found_ok payload leaf path) (ds @ [depth]) (found @ [s]) \<and>
      list_all (\<lambda>d. d \<le> depth) (ds @ [depth])"
    using assms(2) by (auto simp: sorted_append list_all_iff intro: list_all2_appendI)
  with assms(1,3) show ?thesis unfolding levels_def by (metis Suc_leI length_append_singleton)
qed

lemma frontier_ok_push:
  "frontier_ok payload depth queue \<Longrightarrow> node_ok payload (p, v, Suc depth) \<Longrightarrow> frontier_ok payload depth (queue @ [(p, v, Suc depth)])"
  by (auto simp: frontier_ok_def sorted_append list_all_iff)

lemma scan_fields_ok:
  assumes "json_ok payload" "plain_keys payload" "walk payload ks = Some (JObject all)"
    and "set fields \<subseteq> set all" "levels payload leaf path (length ks) found" "frontier_ok payload (length ks) queue"
    and "length found < max_suggestions"
  shows "(case scan_fields leaf path (join ''.'' ks) (length ks) fields (visited, found, queue) of
      Inl answer \<Rightarrow> levels payload leaf path (length ks) answer
    | Inr (visited', found', queue') \<Rightarrow> levels payload leaf path (length ks) found' \<and>
        frontier_ok payload (length ks) queue' \<and> length found' < max_suggestions)"
  using assms(4-7)
proof (induction fields arbitrary: visited found queue)
  case (Cons e fields)
  obtain key v where e: "e = (key, v)" by (cases e)
  have get: "json_get (JObject all) key = Some v"
    using json_get_entry [OF walk_ok [OF assms(1,3)]] Cons.prems(1) e by auto
  then have w: "walk payload (ks @ [key]) = Some v" by (simp add: walk_append assms(3))
  have full: "child_path (join ''.'' ks) key = join ''.'' (ks @ [key])"
    using walk_plain [OF assms(2,3)] by (intro child_join) blast
  have node: "node_ok payload (join ''.'' (ks @ [key]), v, Suc (length ks))"
    unfolding node_ok_def using w by (auto intro!: exI [of _ "ks @ [key]"])
  have hit: "found_ok payload leaf path (length ks) (join ''.'' (ks @ [key]))"
    if "key = leaf" "join ''.'' (ks @ [key]) \<noteq> path"
    using that w by (auto simp: found_ok_def)
  define found' where "found' = (if key = leaf \<and> join ''.'' (ks @ [key]) \<noteq> path then found @ [join ''.'' (ks @ [key])] else found)"
  define queue' where "queue' = (if as_object v \<noteq> None \<and> Suc (length ks) < max_suggestion_depth
    then queue @ [(join ''.'' (ks @ [key]), v, Suc (length ks))] else queue)"
  have f': "levels payload leaf path (length ks) found'"
    using levels_snoc [OF Cons.prems(2) hit Cons.prems(4)] Cons.prems(2) by (auto simp: found'_def)
  have q': "frontier_ok payload (length ks) queue'"
    using frontier_ok_push [OF Cons.prems(3) node] Cons.prems(3) by (simp add: queue'_def)
  have len: "length found' \<le> max_suggestions" using f' by (simp add: levels_def)
  have step: "scan_fields leaf path (join ''.'' ks) (length ks) (e # fields) (visited, found, queue) =
      (if max_suggestion_nodes < Suc visited then Inl found
       else if (key = leaf \<and> join ''.'' (ks @ [key]) \<noteq> path) \<and> length found' = max_suggestions then Inl found'
       else scan_fields leaf path (join ''.'' ks) (length ks) fields (Suc visited, found', queue'))"
    by (simp only: e scan_fields.simps Let_def full found'_def queue'_def)
  have "length found' < max_suggestions"
    if "\<not> ((key = leaf \<and> join ''.'' (ks @ [key]) \<noteq> path) \<and> length found' = max_suggestions)"
    using that len Cons.prems(4) by (auto simp: found'_def)
  with Cons.IH [OF _ f' q'] Cons.prems(1,2) f' show ?case by (simp add: step)
qed simp

lemma search_paths_ok:
  assumes "json_ok payload" "plain_keys payload"
  shows "levels payload leaf path depth found \<Longrightarrow> frontier_ok payload depth queue \<Longrightarrow> length found < max_suggestions \<Longrightarrow>
     \<exists>depth'. levels payload leaf path depth' (search_paths leaf path (visited, found, queue))"
proof (induction leaf path "(visited, found, queue)" arbitrary: visited found queue depth rule: search_paths.induct)
  case (1 leaf path visited found)
  then show ?case by auto
next
  case (2 leaf path visited found prefix v d queue)
  have d: "depth \<le> d" and q: "frontier_ok payload d queue"
    using "2.prems"(2) by (auto simp: frontier_ok_def list_all_iff)
  have f: "levels payload leaf path d found" by (rule levels_mono [OF "2.prems"(1) d])
  show ?case
  proof (cases "as_object v")
    case None
    with "2.hyps"(1) [OF None f q "2.prems"(3)] show ?thesis by simp
  next
    case (Some fields)
    then have v: "v = JObject fields" by (cases v) simp_all
    obtain ks where ks: "walk payload ks = Some (JObject fields)" "prefix = join ''.'' ks" "d = length ks"
      using "2.prems"(2) v by (auto simp: frontier_ok_def node_ok_def)
    note scan = scan_fields_ok [OF assms ks(1) subset_refl f [unfolded ks(3)] q [unfolded ks(3)] "2.prems"(3), where visited = visited]
    show ?thesis
    proof (cases "scan_fields leaf path prefix d fields (visited, found, queue)")
      case (Inl answer)
      with scan Some ks show ?thesis by auto
    next
      case (Inr acc)
      obtain visited' found' queue' where acc: "acc = (visited', found', queue')" by (cases acc)
      have "levels payload leaf path d found'" "frontier_ok payload d queue'" "length found' < max_suggestions"
        using scan Inr ks(2,3) acc by auto
      from "2.hyps"(2) [OF Some Inr [unfolded acc] this] Some Inr acc show ?thesis by simp
    qed
  qed
qed

text \<open>A suggested path is found where it says. For a payload whose keys are not empty and hold no
  dot, at most three paths are suggested; each of them resolves, is not the path asked about and
  ends in the same segment; and they come with the shallowest first.\<close>

theorem suggestions_resolve:
  assumes "json_ok payload" "plain_keys payload"
  shows "length (same_leaf_paths payload path) \<le> 3 \<and>
    (\<forall>s \<in> set (same_leaf_paths payload path).
       resolves payload s \<and> s \<noteq> path \<and> last_segment s = last_segment path) \<and>
    sorted (map (\<lambda>s. count_list s (CHR ''.'')) (same_leaf_paths payload path))"
proof -
  let ?leaf = "last_segment path"
  have "frontier_ok payload 0 [([], payload, 0)]"
    by (auto simp: frontier_ok_def node_ok_def intro: exI [of _ "[]"])
  then obtain depth where "levels payload ?leaf path depth (same_leaf_paths payload path)"
    using search_paths_ok [OF assms levels_Nil, of 0 "[([], payload, 0)]" ?leaf path 0]
    by (auto simp: same_leaf_paths_def max_suggestions_def)
  then obtain ds where ds: "sorted ds" "list_all2 (found_ok payload ?leaf path) ds (same_leaf_paths payload path)"
    "length (same_leaf_paths payload path) \<le> max_suggestions"
    by (auto simp: levels_def)
  have dots: "count_list (join ''.'' (ks @ [k])) (CHR ''.'') = length ks"
    if "list_all plain_key (ks @ [k])" for ks k
    using that
  proof (induction ks)
    case (Cons l ks)
    then show ?case by (cases ks) (simp_all add: join_Cons plain_key_def count_notin)
  qed (simp add: plain_key_def count_notin)
  have one: "resolves payload s \<and> s \<noteq> path \<and> last_segment s = ?leaf \<and> count_list s (CHR ''.'') = d"
    if "found_ok payload ?leaf path d s" for d s
  proof -
    from that obtain ks u where s: "walk payload (ks @ [?leaf]) = Some u" "s = join ''.'' (ks @ [?leaf])"
      "length ks = d" "s \<noteq> path" by (auto simp: found_ok_def)
    have plain: "list_all plain_key (ks @ [?leaf])" using walk_plain [OF assms(2) s(1)] by blast
    with s resolve_walk [OF assms(2) plain] join_last [OF plain] dots [OF plain] show ?thesis
      by (simp add: resolves_def)
  qed
  have "map (\<lambda>s. count_list s (CHR ''.'')) (same_leaf_paths payload path) = ds"
    using ds(2) one by (induction rule: list_all2_induct) auto
  moreover have "\<exists>d. found_ok payload ?leaf path d s" if "s \<in> set (same_leaf_paths payload path)" for s
    using ds(2) that by (induction rule: list_all2_induct) auto
  ultimately show ?thesis using ds(1,3) one by (auto simp: max_suggestions_def)
qed

theorem suggestions_resolve_witness:
  "resolves (JObject [(''manifest'', JObject [(''id'', JNull)])]) ''manifest.id'' \<and>
   same_leaf_paths (JObject [(''manifest'', JObject [(''id'', JNull)])]) ''id'' = [''manifest.id'']"
proof -
  let ?p = "JObject [(''manifest'', JObject [(''id'', JNull)])]"
  have s: "same_leaf_paths ?p ''id'' = [''manifest.id'']" by code_simp
  have "json_ok ?p" "plain_keys ?p" by (simp_all add: plain_key_def)
  from suggestions_resolve [OF this, of "''id''"] s show ?thesis by simp
qed

text \<open>A key that holds a dot breaks a suggestion, and so does an empty key: the path offered names
  nothing.\<close>

lemma dotted_key_suggestion:
  "same_leaf_paths (JObject [(''a.b'', JObject [(''id'', JNull)])]) ''id'' = [''a.b.id'']"
  "\<not> resolves (JObject [(''a.b'', JObject [(''id'', JNull)])]) ''a.b.id''"
  by code_simp+

text \<open>The validator refuses an empty \<open>$or\<close> because it can never match, but not an empty \<open>$in\<close>.\<close>

lemma empty_in_list_passes:
  "validate regex (JObject [(''status'', JObject [(''$in'', JArray [])])]) = None"
  "\<not> evaluate regex (Some (JObject [(''status'', JObject [(''$in'', JArray [])])])) payload"
  by (simp_all add: validate_def validate_iff evaluate_def evaluate_iff validate_op_def validate_operator_def
      evaluate_op_def evaluate_operator_def in_list_def or_key_def starts_with_dollar_def)

end
