(* ===== verification/Event_Subscription.thy ===== *)
theory Event_Subscription
  imports Known_Names Event_Suggestions
begin

text \<open>
  Event subscriptions (\<open>core/event_subscription/mod.rs\<close>): the one matcher of triggers and event waits,
  the payload a condition is matched against, and the check every write surface runs over a list
  of subscriptions. The text of a thread's id (the uuid crate), the event store's answers (has
  this name ever been emitted, its recent matchable payloads) and the regular expression engine
  are parameters. A refusal is its constructor; the sentences around it are left out.
\<close>

section \<open>Subscriptions\<close>

record event_subscription =
  es_event_type :: string
  es_condition :: "json option"

definition subscription_matches :: "regex_new \<Rightarrow> event_subscription \<Rightarrow> string \<Rightarrow> json \<Rightarrow> bool" where
  "subscription_matches regex sub event_type payload \<longleftrightarrow>
     es_event_type sub = event_type \<and> evaluate regex (es_condition sub) payload"

definition any_matches :: "regex_new \<Rightarrow> event_subscription list \<Rightarrow> string \<Rightarrow> json \<Rightarrow> bool" where
  "any_matches regex subs event_type payload \<longleftrightarrow>
     list_ex (\<lambda>sub. subscription_matches regex sub event_type payload) subs"

definition normalize_list :: "event_subscription list \<Rightarrow> event_subscription list" where
  "normalize_list subs =
     List.map_filter (\<lambda>sub. let trimmed = trim (es_event_type sub)
       in if trimmed = [] then None
          else Some \<lparr>es_event_type = trimmed, es_condition = es_condition sub\<rparr>) subs"

definition from_object_entry :: "(string \<times> json) list \<Rightarrow> event_subscription option" where
  "from_object_entry obj =
     (case map_of obj ''event_type'' of
        None \<Rightarrow> None
      | Some v \<Rightarrow>
          (case as_str v of
             None \<Rightarrow> None
           | Some s \<Rightarrow>
               (let event_type = trim s
                in if event_type = [] then None
                   else Some \<lparr>es_event_type = event_type,
                     es_condition = (case map_of obj ''condition'' of
                       None \<Rightarrow> None | Some c \<Rightarrow> if c = JNull then None else Some c)\<rparr>)))"

section \<open>The matchable payload\<close>

definition thread_id_key :: string where
  "thread_id_key = ''thread_id''"

text \<open>\<open>BTreeMap::entry(k).or_insert(v)\<close>.\<close>

definition insert_if_absent :: "string \<Rightarrow> json \<Rightarrow> (string \<times> json) list \<Rightarrow> (string \<times> json) list" where
  "insert_if_absent k v fs =
     (if map_of fs k \<noteq> None then fs
      else takeWhile (\<lambda>e. fst e < k) fs @ (k, v) # dropWhile (\<lambda>e. fst e < k) fs)"

definition unwrap_adjacent_tag :: "string \<Rightarrow> json \<Rightarrow> json" where
  "unwrap_adjacent_tag event_type payload =
     (if \<not> is_persisted_type_name event_type then payload
      else case as_object payload of
        None \<Rightarrow> payload
      | Some obj \<Rightarrow>
          if Option.bind (map_of obj ''type'') as_str \<noteq> Some event_type then payload
          else if \<not> list_all (\<lambda>k. k = ''type'' \<or> k = ''data'') (map fst obj) then payload
          else (case map_of obj ''data'' of
                  Some (JObject entries) \<Rightarrow> JObject entries
                | None \<Rightarrow> JObject []
                | Some _ \<Rightarrow> payload))"

definition matchable_payload :: "(uuid \<Rightarrow> string) \<Rightarrow> string \<Rightarrow> json \<Rightarrow> uuid option \<Rightarrow> json" where
  "matchable_payload uuid_text event_type payload thread_id =
     (let payload = unwrap_adjacent_tag event_type payload
      in case thread_id of
           None \<Rightarrow> payload
         | Some t \<Rightarrow>
             (case as_object payload of
                None \<Rightarrow> payload
              | Some obj \<Rightarrow> JObject (insert_if_absent thread_id_key (JString (uuid_text t)) obj)))"

section \<open>The names a subscription may carry\<close>

datatype subscription_verdict = KnownThreadEvent | KnownSystemEvent | UnknownName

datatype refusal =
    EmptyEventType
  | PerTokenStreaming string
  | SideQuestion string
  | WaitsOnItself string
  | TransportName string
  | TransientFrame string "string option"
  | RetiredName string
  | NearMiss string
  | BadCondition string string

definition transient_terminal_hint :: "string \<Rightarrow> string option" where
  "transient_terminal_hint name =
     (if name = ''SnapshotProgress'' then Some ''SnapshotCreated, SnapshotCaptureFailed or SnapshotChecked''
      else if name = ''BackupProgress'' then Some ''BackupCompleted or BackupFailed''
      else if name = ''RecommendedCleanupProgress''
        then Some ''RecommendedCleanupCompleted or RecommendedCleanupFailed''
      else if name = ''TreeBackfillProgressed'' then Some ''TreeBackfillCompleted or TreeBackfillEnded''
      else None)"

definition validate_subscribable_event_type ::
  "string \<Rightarrow> subscription_surface \<Rightarrow> refusal + subscription_verdict" where
  "validate_subscribable_event_type event_type surface =
     (let name = trim event_type
      in if name = [] then Inl EmptyEventType
         else if name \<in> set per_token_streaming_event_types then Inl (PerTokenStreaming name)
         else if name \<in> set side_question_event_types then Inl (SideQuestion name)
         else if surface = WaitSurface \<and> name \<in> set event_wait_event_types then Inl (WaitsOnItself name)
         else if classify_event name \<noteq> None then Inr KnownThreadEvent
         else if is_persisted_type_name name then Inr KnownSystemEvent
         else if name \<in> set transport_type_names then Inl (TransportName name)
         else if is_reserved_system_name name then Inl (TransientFrame name (transient_terminal_hint name))
         else if name \<in> set legacy_type_name_aliases then Inl (RetiredName name)
         else Inr UnknownName)"

text \<open>\<open>refuse_near_miss\<close>; nothing is the absence of an error.\<close>

definition refuse_near_miss :: "char_test \<Rightarrow> char_test \<Rightarrow> string \<Rightarrow> refusal option" where
  "refuse_near_miss upper lower event_type =
     (let name = trim event_type in if is_near_miss upper lower name then Some (NearMiss name) else None)"

datatype emit_refusal = EmitEmpty | ReservedForSystem string | RouteFrame string | ReservedForThreads string

definition validate_emittable_event_type :: "string \<Rightarrow> emit_refusal option" where
  "validate_emittable_event_type event_type =
     (if event_type = [] then Some EmitEmpty
      else if is_reserved_system_name event_type then Some (ReservedForSystem event_type)
      else if event_type \<in> set route_frames then Some (RouteFrame event_type)
      else if is_reserved_thread_name event_type then Some (ReservedForThreads event_type)
      else None)"

section \<open>The check at the write surfaces\<close>

definition max_path_warnings :: nat where
  "max_path_warnings = 3"

text \<open>A warning is a path that resolves in none of the sampled payloads with what to say instead, or
  the count of such paths left out, or a name nobody here has emitted.\<close>

datatype subscription_warning =
    UnresolvedPath string string nat "string list"
  | FurtherPaths string nat
  | NeverEmitted string

definition unresolved_paths :: "json \<Rightarrow> json list \<Rightarrow> string list" where
  "unresolved_paths cond samples =
     filter (\<lambda>path. \<not> list_ex (\<lambda>s. resolves s path) samples) (field_paths cond)"

definition elsewhere :: "json list \<Rightarrow> string \<Rightarrow> string list" where
  "elsewhere samples path =
     (case List.find (\<lambda>paths. paths \<noteq> []) (map (\<lambda>s. same_leaf_paths s path) samples) of
        Some paths \<Rightarrow> paths | None \<Rightarrow> [])"

definition uncorroborated_path_warnings :: "json list \<Rightarrow> string \<Rightarrow> json option \<Rightarrow> subscription_warning list" where
  "uncorroborated_path_warnings samples event_type cond =
     (case cond of
        None \<Rightarrow> []
      | Some c \<Rightarrow>
          if field_paths c = [] \<or> samples = [] then []
          else
            (let unresolved = unresolved_paths c samples
             in map (\<lambda>path. UnresolvedPath event_type path (length samples) (elsewhere samples path))
                  (take max_path_warnings unresolved) @
                (if max_path_warnings < length unresolved
                 then [FurtherPaths event_type (length unresolved - max_path_warnings)] else [])))"

text \<open>The loop over the list, with the warnings so far.\<close>

fun check_subscriptions_loop ::
  "regex_new \<Rightarrow> char_test \<Rightarrow> char_test \<Rightarrow> (string \<Rightarrow> bool) \<Rightarrow> (string \<Rightarrow> json list) \<Rightarrow> subscription_surface \<Rightarrow>
     event_subscription list \<Rightarrow> subscription_warning list \<Rightarrow> refusal + subscription_warning list" where
  "check_subscriptions_loop regex upper lower emitted samples surface [] warnings = Inr warnings"
| "check_subscriptions_loop regex upper lower emitted samples surface (sub # subs) warnings =
     (let name = trim (es_event_type sub)
      in case validate_subscribable_event_type name surface of
           Inl r \<Rightarrow> Inl r
         | Inr verdict \<Rightarrow>
             (case Option.bind (es_condition sub) (validate regex) of
                Some e \<Rightarrow> Inl (BadCondition name e)
              | None \<Rightarrow>
                  if verdict = UnknownName \<and> \<not> emitted name then
                    (case refuse_near_miss upper lower name of
                       Some r \<Rightarrow> Inl r
                     | None \<Rightarrow> check_subscriptions_loop regex upper lower emitted samples surface subs
                         (warnings @ [NeverEmitted name]))
                  else check_subscriptions_loop regex upper lower emitted samples surface subs
                    (warnings @ uncorroborated_path_warnings (samples name) name (es_condition sub))))"

definition check_subscriptions ::
  "regex_new \<Rightarrow> char_test \<Rightarrow> char_test \<Rightarrow> (string \<Rightarrow> bool) \<Rightarrow> (string \<Rightarrow> json list) \<Rightarrow> event_subscription list \<Rightarrow>
     subscription_surface \<Rightarrow> refusal + subscription_warning list" where
  "check_subscriptions regex upper lower emitted samples subs surface =
     check_subscriptions_loop regex upper lower emitted samples surface subs []"

end
