(* ===== verification/Event_Subscription_Properties.thy ===== *)
theory Event_Subscription_Properties
  imports Event_Subscription Thread_Event_Properties
begin

text \<open>
  What the write surfaces promise of a subscription: the two surfaces accept nested sets of names, the
  names the catalog lists always validate, whatever a workspace may emit it may watch, a list that
  passes the check is one the dispatchers read as it is written, and a condition on the thread scopes
  an event to its thread.
\<close>

section \<open>Names\<close>

text \<open>The two surfaces are nested. A trigger may watch whatever a thread may wait for, with the same
  verdict; and the only names that a trigger may watch and a thread may not wait for are the
  event-wait family, which are thread events.\<close>

theorem surfaces_are_nested:
  "validate_subscribable_event_type n WaitSurface =
     (if trim n \<in> set event_wait_event_types
      then Inl (WaitsOnItself (trim n)) else validate_subscribable_event_type n TriggerSurface) \<and>
   list_all (\<lambda>n. validate_subscribable_event_type n TriggerSurface = Inr KnownThreadEvent)
     event_wait_event_types"
proof
  show "list_all (\<lambda>n. validate_subscribable_event_type n TriggerSurface = Inr KnownThreadEvent)
      event_wait_event_types"
    by code_simp
  have "list_all (\<lambda>n. n \<noteq> [] \<and> n \<notin> set per_token_streaming_event_types \<and> n \<notin> set side_question_event_types)
      event_wait_event_types"
    by code_simp
  then show "validate_subscribable_event_type n WaitSurface =
     (if trim n \<in> set event_wait_event_types
      then Inl (WaitsOnItself (trim n)) else validate_subscribable_event_type n TriggerSurface)"
    by (auto simp: validate_subscribable_event_type_def Let_def list_all_iff)
qed

lemma names_are_graphic: "list_all (\<lambda>n. n \<noteq> [] \<and> list_all graphic n) (all_persisted_event_types @ persisted_type_names)"
  by code_simp

text \<open>A name read off the catalog always validates. Every name listed for a surface is accepted
  there, and as an engine event.\<close>

theorem listed_names_always_validate:
  "list_all (\<lambda>n. validate_subscribable_event_type n surface \<in> {Inr KnownThreadEvent, Inr KnownSystemEvent})
     (subscribable_event_type_names surface)"
proof -
  have "validate_subscribable_event_type n surface \<in> {Inr KnownThreadEvent, Inr KnownSystemEvent}"
    if "n \<in> set (subscribable_event_type_names surface)" for n
  proof -
    have "n \<in> set (all_persisted_event_types @ persisted_type_names)"
      and known: "classify_event n \<noteq> None \<or> is_persisted_type_name n" and on: "on_surface surface n"
      using that by (auto simp: subscribable_event_type_names_def is_persisted_type_name_def)
    then have "n \<noteq> []" "trim n = n" using names_are_graphic graphic_trim by (auto simp: list_all_iff)
    with known on show ?thesis
      by (cases surface) (auto simp: validate_subscribable_event_type_def Let_def on_surface_def)
  qed
  then show ?thesis by (simp add: list_all_iff)
qed

text \<open>What a workspace may emit it may watch. A name the emit gate lets through, without space
  around it, is accepted at both surfaces as a workspace's own, so no event of a workspace is
  out of reach of its triggers and waits.\<close>

theorem emitted_names_can_be_watched:
  assumes "validate_emittable_event_type n = None" "trim n = n"
  shows "validate_subscribable_event_type n surface = Inr UnknownName"
proof -
  have n: "n \<noteq> []" "\<not> is_reserved_system_name n" "n \<notin> set reserved_thread_names"
    "n \<notin> set legacy_type_name_aliases"
    using assms(1) by (auto simp: validate_emittable_event_type_def is_reserved_thread_name_def split: if_splits)
  moreover have "classify_event n = None" using n(3) classified_reserved by (cases "classify_event n") auto
  moreover have "\<not> is_persisted_type_name n" "n \<notin> set transport_type_names"
    using n(2) persisted_are_reserved transport_are_reserved
    by (auto simp: is_persisted_type_name_def is_reserved_system_name_def)
  ultimately show ?thesis
    using families_are_reserved assms(2)
    by (auto simp: validate_subscribable_event_type_def Let_def)
qed

theorem emitted_names_can_be_watched_witness:
  "validate_subscribable_event_type ''OrderPlaced'' WaitSurface = Inr UnknownName"
proof (rule emitted_names_can_be_watched)
  show "validate_emittable_event_type ''OrderPlaced'' = None" by code_simp
  have "list_all graphic ''OrderPlaced''" by code_simp
  then show "trim ''OrderPlaced'' = ''OrderPlaced''" by (rule graphic_trim)
qed

section \<open>The check\<close>

definition acceptable ::
  "regex_new \<Rightarrow> char_test \<Rightarrow> char_test \<Rightarrow> (string \<Rightarrow> bool) \<Rightarrow> subscription_surface \<Rightarrow> event_subscription \<Rightarrow> bool" where
  "acceptable regex upper lower emitted surface sub \<longleftrightarrow>
     (let name = trim (es_event_type sub); verdict = validate_subscribable_event_type name surface
      in (verdict = Inr KnownThreadEvent \<or> verdict = Inr KnownSystemEvent \<or>
          verdict = Inr UnknownName \<and> (emitted name \<or> \<not> is_near_miss upper lower name)) \<and>
         Option.bind (es_condition sub) (validate regex) = None)"

lemma check_loop_iff:
  "(\<exists>w. check_subscriptions_loop regex upper lower emitted samples surface subs warnings = Inr w) \<longleftrightarrow>
     list_all (acceptable regex upper lower emitted surface) subs"
proof (induction subs arbitrary: warnings)
  case (Cons sub subs)
  let ?n = "trim (es_event_type sub)"
  show ?case
  proof (cases "validate_subscribable_event_type ?n surface")
    case (Inr v)
    then show ?thesis
      using Cons.IH
      by (cases v; cases "Option.bind (es_condition sub) (validate regex)")
         (auto simp: acceptable_def Let_def refuse_near_miss_def split: option.splits)
  qed (simp add: acceptable_def Let_def)
qed simp

lemma length_path_warnings: "length (uncorroborated_path_warnings samples name cond) \<le> Suc max_path_warnings"
  by (auto simp: uncorroborated_path_warnings_def Let_def split: option.split)

lemma check_loop_length:
  "check_subscriptions_loop regex upper lower emitted samples surface subs warnings = Inr w \<Longrightarrow>
     length w \<le> length warnings + Suc max_path_warnings * length subs"
proof (induction subs arbitrary: warnings)
  case (Cons sub subs)
  obtain ws where "length ws \<le> Suc max_path_warnings"
    "check_subscriptions_loop regex upper lower emitted samples surface subs (warnings @ ws) = Inr w"
    using Cons.prems length_path_warnings [of "samples (trim (es_event_type sub))"
      "trim (es_event_type sub)" "es_condition sub"] that [of "[NeverEmitted (trim (es_event_type sub))]"]
      that [of "uncorroborated_path_warnings (samples (trim (es_event_type sub)))
        (trim (es_event_type sub)) (es_condition sub)"]
    by (auto simp: Let_def max_path_warnings_def split: sum.splits option.splits if_splits)
  with Cons.IH [of "warnings @ ws"] show ?case by simp
qed simp

text \<open>C36. A list is accepted whole or not at all, and then means what it says. The check succeeds exactly
  when every entry has a name its surface accepts (an engine event, or a name this workspace has
  emitted or that no engine name resembles) and a valid condition; each entry then matches the events of
  its type on whose payload its condition holds under the plain reading; and there are at most
  four warnings for each entry.\<close>

theorem accepted_lists_mean_what_they_say:
  "((\<exists>w. check_subscriptions regex upper lower emitted samples subs surface = Inr w) \<longleftrightarrow>
      list_all (acceptable regex upper lower emitted surface) subs) \<and>
   (\<forall>w. check_subscriptions regex upper lower emitted samples subs surface = Inr w \<longrightarrow>
      length w \<le> 4 * length subs \<and>
      (\<forall>event_type payload. any_matches regex subs event_type payload \<longleftrightarrow>
         (\<exists>sub \<in> set subs. es_event_type sub = event_type \<and>
            (case es_condition sub of None \<Rightarrow> True | Some c \<Rightarrow> condition_holds regex c payload))))"
proof -
  have "subscription_matches regex sub event_type payload \<longleftrightarrow> es_event_type sub = event_type \<and>
      (case es_condition sub of None \<Rightarrow> True | Some c \<Rightarrow> condition_holds regex c payload)"
    if "acceptable regex upper lower emitted surface sub" for sub event_type payload
    using that evaluate_sound [of regex] evaluate_complete [of regex _ 0]
    by (cases "es_condition sub")
       (auto simp: subscription_matches_def evaluate_def acceptable_def Let_def validate_def)
  then show ?thesis
    using check_loop_iff [of regex upper lower emitted samples surface subs "[]"]
      check_loop_length [of regex upper lower emitted samples surface subs "[]"]
    by (auto simp: check_subscriptions_def any_matches_def list_ex_iff list_all_iff max_path_warnings_def)
qed

theorem accepted_lists_mean_what_they_say_witness:
  "any_matches (\<lambda>_. Inl []) [\<lparr>es_event_type = ''EventWaitStarted'', es_condition = None\<rparr>] ''EventWaitStarted'' JNull"
proof -
  let ?subs = "[\<lparr>es_event_type = ''EventWaitStarted'', es_condition = None\<rparr>]"
  have "check_subscriptions (\<lambda>_. Inl []) (\<lambda>_. False) (\<lambda>_. False) (\<lambda>_. False) (\<lambda>_. []) ?subs TriggerSurface = Inr []"
    by code_simp
  from accepted_lists_mean_what_they_say [THEN conjunct2, rule_format, OF this] show ?thesis by simp
qed

section \<open>The matchable payload\<close>

lemma map_of_insert_if_absent:
  assumes "map_of fs k = None"
  shows "map_of (insert_if_absent k v fs) = (map_of fs)(k \<mapsto> v)"
proof -
  have "k \<notin> fst ` set xs \<Longrightarrow> map_of (xs @ (k, v) # ys) = (map_of (xs @ ys))(k \<mapsto> v)" for xs ys
    by (induction xs) (auto simp: fun_eq_iff)
  moreover have "k \<notin> fst ` set (takeWhile (\<lambda>e. fst e < k) fs)"
    by (auto dest: set_takeWhileD)
  ultimately have "map_of (takeWhile (\<lambda>e. fst e < k) fs @ (k, v) # dropWhile (\<lambda>e. fst e < k) fs) =
      (map_of (takeWhile (\<lambda>e. fst e < k) fs @ dropWhile (\<lambda>e. fst e < k) fs))(k \<mapsto> v)"
    by blast
  with assms show ?thesis unfolding insert_if_absent_def takeWhile_dropWhile_id by simp
qed

lemma insert_if_absent_sorted:
  assumes "sorted_wrt (<) (map fst fs)" "map_of fs k = None"
  shows "sorted_wrt (<) (map fst (insert_if_absent k v fs))"
proof -
  have "sorted_wrt (<) (map fst fs) \<Longrightarrow> k \<notin> fst ` set fs \<Longrightarrow>
      sorted_wrt (<) (map fst (takeWhile (\<lambda>e. fst e < k) fs @ (k, v) # dropWhile (\<lambda>e. fst e < k) fs))"
  proof (induction fs)
    case (Cons e fs)
    show ?case
    proof (cases "fst e < k")
      case True
      with Cons show ?thesis by (auto dest: set_takeWhileD set_dropWhileD)
    next
      case False
      with Cons.prems have "k < fst e" by auto
      with Cons.prems(1) False show ?thesis by auto
    qed
  qed simp
  with assms show ?thesis by (simp add: insert_if_absent_def map_of_eq_None_iff)
qed

text \<open>A condition on the thread scopes an event to its thread. For an event that declares no thread id
  of its own, the matchable payload gains exactly that entry, so a condition that names a thread
  holds on the events of that thread and of no other; every other field reads as before.\<close>

theorem a_thread_condition_scopes_to_its_thread:
  assumes "inj uuid_text" "json_ok payload" "unwrap_adjacent_tag event_type payload = payload"
    and "as_object payload = Some obj" "map_of obj thread_id_key = None"
    and "seen = matchable_payload uuid_text event_type payload (Some t)"
  shows "(evaluate regex (Some (JObject [(thread_id_key, JString (uuid_text t'))])) seen \<longleftrightarrow> t' = t) \<and>
    json_ok seen \<and> (\<forall>k. json_get seen k = (if k = thread_id_key then Some (JString (uuid_text t)) else json_get payload k))"
proof -
  have p: "payload = JObject obj" using assms(4) by (cases payload) simp_all
  have seen: "seen = JObject (insert_if_absent thread_id_key (JString (uuid_text t)) obj)"
    using assms(3-6) by (simp add: matchable_payload_def)
  have get: "json_get seen k = (if k = thread_id_key then Some (JString (uuid_text t)) else json_get payload k)" for k
    by (simp add: seen p json_get_def map_of_insert_if_absent [OF assms(5)])
  have "set (insert_if_absent thread_id_key (JString (uuid_text t)) obj) \<subseteq>
      insert (thread_id_key, JString (uuid_text t)) (set obj)"
    by (auto simp: insert_if_absent_def dest: set_takeWhileD set_dropWhileD)
  then have "json_ok seen"
    using assms(2,5) p insert_if_absent_sorted [of obj thread_id_key]
    by (fastforce simp: seen list_all_iff subset_iff)
  moreover have "resolved seen thread_id_key = JString (uuid_text t)"
    by (simp add: resolved_def resolve.simps [of seen] get)
  then have "evaluate regex (Some (JObject [(thread_id_key, JString (uuid_text t'))])) seen \<longleftrightarrow> t' = t"
    using injD [OF assms(1)]
    by (auto simp: evaluate_def evaluate_iff evaluate_op_def thread_id_key_def or_key_def starts_with_dollar_def)
  ultimately show ?thesis using get by blast
qed

theorem a_thread_condition_scopes_to_its_thread_witness:
  "evaluate (\<lambda>_. Inl []) (Some (JObject [(thread_id_key, JString ''xxx'')]))
     (matchable_payload (\<lambda>n. replicate n (CHR ''x'')) ''ToolCalled'' (JObject [(''name'', JString ''bash'')]) (Some 3))"
proof -
  have "inj (\<lambda>n. replicate n (CHR ''x''))" by (rule injI) (simp add: replicate_eq_replicate)
  moreover have "unwrap_adjacent_tag ''ToolCalled'' (JObject [(''name'', JString ''bash'')]) =
      JObject [(''name'', JString ''bash'')]" by code_simp
  ultimately show ?thesis
    using a_thread_condition_scopes_to_its_thread [of "\<lambda>n. replicate n (CHR ''x'')"
        "JObject [(''name'', JString ''bash'')]" "''ToolCalled''" _ _ 3 "\<lambda>_. Inl []" 3]
    by (simp add: thread_id_key_def numeral_3_eq_3)
qed

end
