(* ===== verification/Apply_Claims.thy ===== *)
theory Apply_Claims
  imports Prelude
begin

text \<open>
  One apply at a time per change (\<open>change_ops/apply_claim.rs\<close>): the table of held changes, the claim
  with its generation, the hand-off of a wedged holder to a continuation, and the landing lane's wait
  for a release. An \<open>Arc<AtomicBool>\<close> is the address of a flag, and \<open>flags\<close> is the set of flags that
  are set. The generation counter is an unsigned 64-bit one that goes up by one per claim, so it
  does not wrap and is a natural number. The status of a stored
  change (\<open>core/changes.rs\<close>) comes first; the Apply All driver and the landing lane's read it.
\<close>

section \<open>The status of a change\<close>

datatype change_status = ChPending | ChSetAside | ChApplied | ChDiscarded | ChReverted | ChWithdrawn

section \<open>Claims\<close>

record holder =
  generation :: nat
  handed_off_flag :: "uuid option"
  lane_waiting :: bool

record apply_claims =
  held :: "(uuid \<times> holder) list"
  next_generation :: nat
  release_callback :: bool

record apply_claim =
  claimed_change :: uuid
  claim_generation :: nat

definition apply_claims_default :: apply_claims where
  "apply_claims_default = \<lparr>held = [], next_generation = 0, release_callback = False\<rparr>"

definition handed_off :: "uuid set \<Rightarrow> holder \<Rightarrow> bool" where
  "handed_off flags h = (case handed_off_flag h of None \<Rightarrow> False | Some f \<Rightarrow> f \<in> flags)"

definition grant :: "uuid \<Rightarrow> bool \<Rightarrow> apply_claims \<Rightarrow> apply_claim option \<times> apply_claims" where
  "grant c waiting cs =
     (let g = next_generation cs
      in (Some \<lparr>claimed_change = c, claim_generation = g\<rparr>,
          cs\<lparr>next_generation := Suc g,
             held := hm_insert c \<lparr>generation = g, handed_off_flag = None, lane_waiting = waiting\<rparr> (held cs)\<rparr>))"

definition claim :: "uuid set \<Rightarrow> uuid \<Rightarrow> bool \<Rightarrow> apply_claims \<Rightarrow> apply_claim option \<times> apply_claims" where
  "claim flags c for_lane cs =
     (case hm_get (held cs) c of
        Some h \<Rightarrow>
          if \<not> handed_off flags h
          then (None, cs\<lparr>held := hm_insert c (h\<lparr>lane_waiting := lane_waiting h \<or> for_lane\<rparr>) (held cs)\<rparr>)
          else grant c (lane_waiting h \<and> \<not> for_lane) cs
      | None \<Rightarrow> grant c False cs)"

definition try_claim :: "uuid set \<Rightarrow> uuid \<Rightarrow> apply_claims \<Rightarrow> apply_claim option \<times> apply_claims" where
  "try_claim flags c cs = claim flags c False cs"

definition try_claim_for_lane :: "uuid set \<Rightarrow> uuid \<Rightarrow> apply_claims \<Rightarrow> apply_claim option \<times> apply_claims" where
  "try_claim_for_lane flags c cs = claim flags c True cs"

definition is_held :: "uuid set \<Rightarrow> uuid \<Rightarrow> apply_claims \<Rightarrow> bool" where
  "is_held flags c cs = (case hm_get (held cs) c of None \<Rightarrow> False | Some h \<Rightarrow> \<not> handed_off flags h)"

definition on_lane_wait_release :: "apply_claims \<Rightarrow> apply_claims" where
  "on_lane_wait_release cs = cs\<lparr>release_callback := True\<rparr>"

definition is_current :: "apply_claim \<Rightarrow> apply_claims \<Rightarrow> bool" where
  "is_current k cs =
     (case hm_get (held cs) (claimed_change k) of None \<Rightarrow> False | Some h \<Rightarrow> generation h = claim_generation k)"

definition carried_by_session :: "apply_claim \<Rightarrow> uuid \<Rightarrow> apply_claims \<Rightarrow> apply_claims" where
  "carried_by_session k flag cs =
     (case hm_get (held cs) (claimed_change k) of
        Some h \<Rightarrow>
          if generation h = claim_generation k
          then cs\<lparr>held := hm_insert (claimed_change k) (h\<lparr>handed_off_flag := Some flag\<rparr>) (held cs)\<rparr>
          else cs
      | None \<Rightarrow> cs)"

text \<open>Dropping a claim: the change whose release the lane is told, if any.\<close>

definition drop_claim :: "apply_claim \<Rightarrow> apply_claims \<Rightarrow> uuid option \<times> apply_claims" where
  "drop_claim k cs =
     (case hm_get (held cs) (claimed_change k) of
        Some h \<Rightarrow>
          if generation h = claim_generation k
          then (if lane_waiting h \<and> release_callback cs then Some (claimed_change k) else None,
                cs\<lparr>held := hm_remove (claimed_change k) (held cs)\<rparr>)
          else (None, cs)
      | None \<Rightarrow> (None, cs))"

text \<open>\<open>claim_pending_change\<close>: the second read, under the claim, is an error or the change's row if it
  has one, and whether it is pending. The claim is dropped unless the row is pending.\<close>

definition claim_pending_change ::
  "uuid set \<Rightarrow> uuid \<Rightarrow> 'e + bool option \<Rightarrow> apply_claims \<Rightarrow>
     ('e + apply_claim option) \<times> uuid option \<times> apply_claims" where
  "claim_pending_change flags c read cs =
     (case try_claim flags c cs of
        (None, cs) \<Rightarrow> (Inr None, None, cs)
      | (Some k, cs) \<Rightarrow>
          (case read of
             Inl e \<Rightarrow> (Inl e, drop_claim k cs)
           | Inr (Some True) \<Rightarrow> (Inr (Some k), None, cs)
           | Inr _ \<Rightarrow> (Inr None, drop_claim k cs)))"

section \<open>Runs\<close>

text \<open>The claims that exist are values of the program: each is dropped once. What a run shows is the
  releases the lane is told of and the changes the lane is granted.\<close>

datatype claim_op =
    Claim uuid
  | ClaimForLane uuid
  | ClaimPending uuid "string + bool option"
  | Carry apply_claim uuid
  | HandOff uuid
  | DropClaim apply_claim
  | SetCallback

datatype claim_event = Released uuid | LaneGranted uuid

record claim_state =
  st_flags :: "uuid set"
  st_claims :: apply_claims
  st_live :: "apply_claim list"

definition claim_start :: claim_state where
  "claim_start = \<lparr>st_flags = {}, st_claims = apply_claims_default, st_live = []\<rparr>"

definition keep :: "apply_claim option \<Rightarrow> apply_claim list \<Rightarrow> apply_claim list" where
  "keep k live = (case k of None \<Rightarrow> live | Some k \<Rightarrow> live @ [k])"

fun claim_step :: "claim_state \<Rightarrow> claim_op \<Rightarrow> claim_event list \<times> claim_state" where
  "claim_step s (Claim c) =
     (let (k, cs) = try_claim (st_flags s) c (st_claims s)
      in ([], s\<lparr>st_claims := cs, st_live := keep k (st_live s)\<rparr>))"
| "claim_step s (ClaimForLane c) =
     (let (k, cs) = try_claim_for_lane (st_flags s) c (st_claims s)
      in (if k = None then [] else [LaneGranted c], s\<lparr>st_claims := cs, st_live := keep k (st_live s)\<rparr>))"
| "claim_step s (ClaimPending c read) =
     (let (answer, released, cs) = claim_pending_change (st_flags s) c read (st_claims s)
      in (case released of None \<Rightarrow> [] | Some c \<Rightarrow> [Released c],
          s\<lparr>st_claims := cs,
            st_live := keep (case answer of Inl _ \<Rightarrow> None | Inr k \<Rightarrow> k) (st_live s)\<rparr>))"
| "claim_step s (Carry k flag) =
     ([], if k \<in> set (st_live s) then s\<lparr>st_claims := carried_by_session k flag (st_claims s)\<rparr> else s)"
| "claim_step s (HandOff flag) = ([], s\<lparr>st_flags := insert flag (st_flags s)\<rparr>)"
| "claim_step s (DropClaim k) =
     (if k \<in> set (st_live s)
      then (let (released, cs) = drop_claim k (st_claims s)
            in (case released of None \<Rightarrow> [] | Some c \<Rightarrow> [Released c],
                s\<lparr>st_claims := cs, st_live := remove1 k (st_live s)\<rparr>))
      else ([], s))"
| "claim_step s SetCallback = ([], s\<lparr>st_claims := on_lane_wait_release (st_claims s)\<rparr>)"

fun claim_run :: "claim_state \<Rightarrow> claim_op list \<Rightarrow> claim_event list \<times> claim_state" where
  "claim_run s [] = ([], s)"
| "claim_run s (opn # ops) =
     (let (es, s) = claim_step s opn; (more, s) = claim_run s ops in (es @ more, s))"

section \<open>One holder per change\<close>

lemmas claim_ops = claim_def try_claim_def try_claim_for_lane_def grant_def drop_claim_def carried_by_session_def
  on_lane_wait_release_def claim_pending_change_def keep_def Let_def

text \<open>Every held change has a live claim of its holder's generation, and generations are never reused.\<close>

definition claims_inv :: "apply_claims \<Rightarrow> apply_claim list \<Rightarrow> bool" where
  "claims_inv cs live \<longleftrightarrow>
     hm_ok (held cs) \<and> distinct (map claim_generation live) \<and>
     (\<forall>k \<in> set live. claim_generation k < next_generation cs) \<and>
     (\<forall>c h. hm_get (held cs) c = Some h \<longrightarrow>
        \<lparr>claimed_change = c, claim_generation = generation h\<rparr> \<in> set live)"

abbreviation claims_ok :: "claim_state \<Rightarrow> bool" where
  "claims_ok s \<equiv> claims_inv (st_claims s) (st_live s)"

lemma map_of_hm_insert [simp]: "map_of (hm_insert k v m) = (map_of m)(k \<mapsto> v)"
  by (simp add: update_conv')

lemma map_of_hm_remove [simp]: "map_of (hm_remove k m) = (map_of m)(k := None)"
  by (simp add: delete_conv')

lemma claims_inv_live:
  "claims_inv cs live \<Longrightarrow> k \<in> set live \<Longrightarrow> k' \<in> set live \<Longrightarrow> claim_generation k = claim_generation k' \<Longrightarrow> k = k'"
  by (auto simp: claims_inv_def distinct_map inj_on_def)

lemma claims_inv_grant:
  "claims_inv cs live \<Longrightarrow> claims_inv (snd (grant c w cs)) (keep (fst (grant c w cs)) live)"
  by (auto simp: claims_inv_def grant_def keep_def Let_def less_Suc_eq)

lemma claims_inv_update:
  "claims_inv cs live \<Longrightarrow> hm_get (held cs) c = Some h \<Longrightarrow> generation h' = generation h \<Longrightarrow>
     claims_inv (cs\<lparr>held := hm_insert c h' (held cs)\<rparr>) live"
  by (auto simp: claims_inv_def)

lemma claims_inv_claim:
  assumes "claims_inv cs live"
  shows "claims_inv (snd (claim flags c l cs)) (keep (fst (claim flags c l cs)) live)"
proof (cases "hm_get (held cs) c")
  case None
  then show ?thesis using claims_inv_grant [OF assms] by (simp add: claim_def)
next
  case (Some h)
  show ?thesis
  proof (cases "handed_off flags h")
    case True
    then show ?thesis using claims_inv_grant [OF assms] Some by (simp add: claim_def)
  next
    case False
    then show ?thesis using claims_inv_update [OF assms Some] Some by (simp add: claim_def keep_def)
  qed
qed

lemma claims_inv_carry:
  assumes "claims_inv cs live"
  shows "claims_inv (carried_by_session k flag cs) live"
proof (cases "hm_get (held cs) (claimed_change k)")
  case (Some h)
  then show ?thesis using claims_inv_update [OF assms Some] assms by (simp add: carried_by_session_def)
qed (simp add: carried_by_session_def assms)

lemma claims_inv_drop:
  assumes "claims_inv cs live" "k \<in> set live"
  shows "claims_inv (snd (drop_claim k cs)) (remove1 k live)"
proof -
  have d: "distinct live" using assms(1) by (simp add: claims_inv_def distinct_map)
  have "distinct (map claim_generation (remove1 k live))"
    using assms(1) d by (auto simp: claims_inv_def distinct_map inj_on_def)
  moreover have "\<lparr>claimed_change = c, claim_generation = generation h\<rparr> \<noteq> k"
    if "hm_get (held (snd (drop_claim k cs))) c = Some h" for c h
    using that by (auto simp: drop_claim_def split: option.splits if_splits)
  moreover have "hm_get (held cs) c = Some h"
    if "hm_get (held (snd (drop_claim k cs))) c = Some h" for c h
    using that by (auto simp: drop_claim_def split: option.splits if_splits)
  moreover have "hm_ok (held (snd (drop_claim k cs)))" "next_generation (snd (drop_claim k cs)) = next_generation cs"
    using assms(1) by (auto simp: drop_claim_def claims_inv_def split: option.split)
  ultimately show ?thesis using assms(1) d by (auto simp: claims_inv_def)
qed

lemma claims_ok_start: "claims_ok claim_start"
  by (simp add: claims_inv_def claim_start_def apply_claims_default_def)

lemma claims_inv_pending:
  assumes "claims_inv cs live" "claim_pending_change flags c read cs = (answer, released, cs')"
  shows "claims_inv cs' (keep (case answer of Inl _ \<Rightarrow> None | Inr k \<Rightarrow> k) live)"
proof (cases "try_claim flags c cs")
  case (Pair got cs1)
  have ok: "claims_inv cs1 (keep got live)"
    using claims_inv_claim [OF assms(1), of flags c False] Pair by (simp add: try_claim_def)
  show ?thesis
  proof (cases got)
    case None
    with Pair assms(2) ok show ?thesis by (auto simp: claim_pending_change_def keep_def)
  next
    case (Some k)
    then have "distinct (map claim_generation (live @ [k]))" using ok by (simp add: claims_inv_def keep_def)
    then have "remove1 k (live @ [k]) = live" by (auto simp: remove1_append image_iff)
    with claims_inv_drop [of cs1 "live @ [k]" k] ok Some
    have "claims_inv (snd (drop_claim k cs1)) live" by (simp add: keep_def)
    with Pair Some assms(2) ok show ?thesis
      by (auto simp: claim_pending_change_def keep_def split: sum.splits option.splits bool.splits prod.splits)
  qed
qed

lemma claims_ok_step: "claims_ok s \<Longrightarrow> claims_ok (snd (claim_step s opn))"
proof (cases opn)
  case (ClaimPending c read)
  assume "claims_ok s"
  with claims_inv_pending [of "st_claims s" "st_live s" "st_flags s" c read] ClaimPending show ?thesis
    by (cases "claim_pending_change (st_flags s) c read (st_claims s)") simp
next
  case SetCallback
  assume "claims_ok s"
  with SetCallback show ?thesis by (simp add: on_lane_wait_release_def claims_inv_def)
qed (simp_all add: split_def Let_def try_claim_def try_claim_for_lane_def
    claims_inv_claim claims_inv_carry claims_inv_drop)

interpretation claims: invariant_steps "\<lambda>s opn. snd (claim_step s opn)" claims_ok
  by unfold_locales (rule claims_ok_step)

lemma claim_run_state: "snd (claim_run s ops) = foldl (\<lambda>s opn. snd (claim_step s opn)) s ops"
  by (induction ops arbitrary: s) (simp_all add: split_def Let_def)

lemma claim_run_ok: "claim_run claim_start ops = (es, s) \<Longrightarrow> claims_ok s"
  using claim_run_state [of claim_start ops] claims.run_inv [OF claims_ok_start, of ops] by simp

text \<open>C29. One apply per change. Whatever is claimed, carried, handed off and dropped in whatever order: of
  the claims that exist, at most one is current for a change; a change whose holder has not handed
  it off is refused to everyone; a claim that is granted is current, and makes every other claim
  of the change stale; dropping a stale claim changes nothing; and when no claim exists nothing is held.\<close>

theorem one_apply_per_change:
  assumes "claim_run claim_start ops = (es, s)"
  shows "(\<forall>k \<in> set (st_live s). \<forall>k' \<in> set (st_live s). claimed_change k = claimed_change k' \<and>
      is_current k (st_claims s) \<and> is_current k' (st_claims s) \<longrightarrow> k = k') \<and>
    (\<forall>c l. is_held (st_flags s) c (st_claims s) \<longrightarrow> fst (claim (st_flags s) c l (st_claims s)) = None) \<and>
    (\<forall>c l k cs. claim (st_flags s) c l (st_claims s) = (Some k, cs) \<longrightarrow> is_current k cs \<and>
      (\<forall>k' \<in> set (st_live s). claimed_change k' = c \<longrightarrow> \<not> is_current k' cs)) \<and>
    (\<forall>k. \<not> is_current k (st_claims s) \<longrightarrow> drop_claim k (st_claims s) = (None, st_claims s)) \<and>
    (st_live s = [] \<longrightarrow> held (st_claims s) = [])"
proof (intro conjI allI ballI impI)
  have ok: "claims_ok s" by (rule claim_run_ok [OF assms])
  show "k = k'" if "k \<in> set (st_live s)" "k' \<in> set (st_live s)"
    "claimed_change k = claimed_change k' \<and> is_current k (st_claims s) \<and> is_current k' (st_claims s)" for k k'
    using that claims_inv_live [OF ok, of k k'] by (auto simp: is_current_def split: option.splits)
  show "fst (claim (st_flags s) c l (st_claims s)) = None" if "is_held (st_flags s) c (st_claims s)" for c l
    using that by (auto simp: is_held_def claim_def split: option.splits)
  show "drop_claim k (st_claims s) = (None, st_claims s)" if "\<not> is_current k (st_claims s)" for k
    using that by (auto simp: is_current_def drop_claim_def split: option.splits)
  show "held (st_claims s) = []" if "st_live s = []"
    using ok that by (cases "held (st_claims s)") (auto simp: claims_inv_def split: if_splits)
  fix c l k cs assume k: "claim (st_flags s) c l (st_claims s) = (Some k, cs)"
  then show "is_current k cs"
    by (auto simp: claim_def grant_def is_current_def Let_def split: option.splits if_splits)
  fix k' assume k': "k' \<in> set (st_live s)" "claimed_change k' = c"
  then have "claim_generation k' < next_generation (st_claims s)" using ok by (simp add: claims_inv_def)
  with k k'(2) show "\<not> is_current k' cs"
    by (auto simp: claim_def grant_def is_current_def Let_def split: option.splits if_splits)
qed

theorem one_apply_per_change_witness:
  "\<exists>es s. claim_run claim_start [Claim 1, Carry \<lparr>claimed_change = 1, claim_generation = 0\<rparr> 9, HandOff 9, Claim 1]
     = (es, s) \<and> drop_claim \<lparr>claimed_change = 1, claim_generation = 0\<rparr> (st_claims s) = (None, st_claims s)"
proof -
  let ?ops = "[Claim 1, Carry \<lparr>claimed_change = 1, claim_generation = 0\<rparr> 9, HandOff 9, Claim 1]"
  obtain es s where run: "claim_run claim_start ?ops = (es, s)" by (cases "claim_run claim_start ?ops")
  then have "\<not> is_current \<lparr>claimed_change = 1, claim_generation = 0\<rparr> (st_claims s)"
    by (auto simp: claim_start_def apply_claims_default_def claim_ops handed_off_def is_current_def)
  with one_apply_per_change [OF run] run show ?thesis by blast
qed

section \<open>The lane is told\<close>

definition lane_waits :: "claim_state \<Rightarrow> uuid \<Rightarrow> bool" where
  "lane_waits s c \<longleftrightarrow> release_callback (st_claims s) \<and>
     (\<exists>h. hm_get (held (st_claims s)) c = Some h \<and> lane_waiting h)"

lemma lane_waits_step:
  assumes "lane_waits s c"
  shows "Released c \<in> set (fst (claim_step s opn)) \<or> LaneGranted c \<in> set (fst (claim_step s opn)) \<or>
    lane_waits (snd (claim_step s opn)) c"
  using assms
  by (cases opn) (auto simp: lane_waits_def claim_ops split: option.splits if_splits sum.splits bool.splits prod.splits)

lemma lane_waits_run:
  "lane_waits s c \<Longrightarrow> claim_run s ops = (es, s') \<Longrightarrow>
     Released c \<in> set es \<or> LaneGranted c \<in> set es \<or> lane_waits s' c"
proof (induction ops arbitrary: s es)
  case (Cons opn ops)
  then show ?case
    using lane_waits_step [OF Cons.prems(1), of opn]
    by (cases "claim_step s opn"; cases "claim_run (snd (claim_step s opn)) ops") fastforce
qed simp

text \<open>C33. The lane is told of the release it waits for. Once the callback is set, when the lane is refused a
  change, then from there on, whatever else happens to the claim, either the lane has been told that
  the change was let go, or it was granted the change itself, or the change is still held and marked
  for it; so when every claim is gone it has been told or granted.\<close>

theorem the_lane_is_told_of_a_release:
  assumes "claim_run claim_start ops = (es, s)" "release_callback (st_claims s)"
    and "fst (try_claim_for_lane (st_flags s) c (st_claims s)) = None"
    and "claim_run s (ClaimForLane c # later) = (es', s')"
  shows "Released c \<in> set es' \<or> LaneGranted c \<in> set es' \<or>
      (\<exists>h. hm_get (held (st_claims s')) c = Some h \<and> lane_waiting h) \<and> st_live s' \<noteq> []"
proof -
  have "lane_waits (snd (claim_step s (ClaimForLane c))) c"
    using assms(2,3) by (auto simp: lane_waits_def claim_ops split: option.splits if_splits)
  moreover obtain es1 where "claim_run (snd (claim_step s (ClaimForLane c))) later = (es1, s')" "set es1 \<subseteq> set es'"
    using assms(4) by (cases "claim_step s (ClaimForLane c)";
      cases "claim_run (snd (claim_step s (ClaimForLane c))) later") auto
  moreover have "claim_run claim_start (ops @ ClaimForLane c # later) = (es @ es', s')"
  proof -
    have "claim_run t (xs @ ys) = (let (e, t) = claim_run t xs; (e', t) = claim_run t ys in (e @ e', t))" for t xs ys
      by (induction xs arbitrary: t) (simp_all add: split_def Let_def)
    with assms(1,4) show ?thesis by (simp del: claim_run.simps)
  qed
  then have "st_live s' = [] \<Longrightarrow> held (st_claims s') = []"
    using one_apply_per_change by blast
  ultimately show ?thesis using lane_waits_run [of _ c later es1 s'] by (fastforce simp: lane_waits_def)
qed

theorem the_lane_is_told_of_a_release_witness:
  "\<exists>es' s'. claim_run (snd (claim_run claim_start [SetCallback, Claim 1]))
     [ClaimForLane 1, DropClaim \<lparr>claimed_change = 1, claim_generation = 0\<rparr>] = (es', s') \<and> Released 1 \<in> set es'"
proof -
  let ?before = "[SetCallback, Claim 1]"
    and ?k = "\<lparr>claimed_change = 1, claim_generation = 0\<rparr> :: apply_claim"
  obtain es s where run: "claim_run claim_start ?before = (es, s)" by (cases "claim_run claim_start ?before")
  obtain es' s' where run': "claim_run s [ClaimForLane 1, DropClaim ?k] = (es', s')"
    by (cases "claim_run s [ClaimForLane 1, DropClaim ?k]")
  have s: "s = \<lparr>st_flags = {}, st_claims = \<lparr>held = [(1, \<lparr>generation = 0, handed_off_flag = None, lane_waiting = False\<rparr>)],
      next_generation = 1, release_callback = True\<rparr>, st_live = [?k]\<rparr>"
    using run by (simp add: claim_start_def apply_claims_default_def claim_ops)
  then have "release_callback (st_claims s)" "fst (try_claim_for_lane (st_flags s) 1 (st_claims s)) = None"
    by (simp_all add: claim_ops handed_off_def)
  from the_lane_is_told_of_a_release [OF run this run'] have
    "Released 1 \<in> set es' \<or> LaneGranted 1 \<in> set es' \<or> st_live s' \<noteq> []" by blast
  moreover have "LaneGranted 1 \<notin> set es'" "st_live s' = []"
    using run' by (auto simp: s claim_ops handed_off_def)
  ultimately show ?thesis using run run' by auto
qed

end
