(* ===== verification/Shell_Quotes.thy ===== *)
theory Shell_Quotes
  imports Rust_Strings "HOL-Library.Sublist"
begin

text \<open>
  The command guard's reading of shell quoting (\<open>engine/command_guard.rs\<close>): the quoting state of a byte
  walk, the close of a bracket, and the bodies of the command and process substitutions in a command.

  A command is the list of its UTF-8 bytes and an index is a byte offset, as in the code. Slicing a
  \<open>&str\<close> inside a character would panic; every walk here moves from one character boundary to the
  next, so it never does. A quoting state is threaded through the walk and returned updated.
\<close>

named_theorems shell_simps \<open>the command guard's walks over a command line\<close>

abbreviation squote :: char where "squote \<equiv> CHR 0x27"
abbreviation dquote :: char where "dquote \<equiv> CHR 0x22"
abbreviation backslash :: char where "backslash \<equiv> CHR 0x5C"
abbreviation backtick :: char where "backtick \<equiv> CHR 0x60"

section \<open>Reading bytes\<close>

text \<open>The tests on a byte, on its bits: what evaluation uses.\<close>

lemma is_continuation_bits [code]:
  "is_continuation (Char b0 b1 b2 b3 b4 b5 b6 b7) \<longleftrightarrow> b7 \<and> \<not> b6"
  by (cases b7; cases b6; cases b5; cases b4; cases b3; cases b2; cases b1; cases b0)
     (simp_all add: is_continuation_def of_char_def)

lemma white_space_chars_bytes [code]:
  "white_space_chars =
     [[CHR 0x09], [CHR 0x0A], [CHR 0x0B], [CHR 0x0C], [CHR 0x0D], [CHR 0x20],
      [CHR 0xC2, CHR 0x85], [CHR 0xC2, CHR 0xA0], [CHR 0xE1, CHR 0x9A, CHR 0x80]] @
     map (\<lambda>c. [CHR 0xE2, CHR 0x80, c])
       [CHR 0x80, CHR 0x81, CHR 0x82, CHR 0x83, CHR 0x84, CHR 0x85, CHR 0x86, CHR 0x87, CHR 0x88,
        CHR 0x89, CHR 0x8A, CHR 0xA8, CHR 0xA9, CHR 0xAF] @
     [[CHR 0xE2, CHR 0x81, CHR 0x9F], [CHR 0xE3, CHR 0x80, CHR 0x80]]"
  by (simp add: white_space_chars_def char_of_def bit_0)

text \<open>\<open>b.get(i)\<close>, \<open>&s[from..to]\<close>, and \<open>s[start..].find(c)\<close> for one ASCII character, as an index into \<open>s\<close>.\<close>

definition byte_at :: "string \<Rightarrow> nat \<Rightarrow> char option" where
  "byte_at s i = (if i < length s then Some (s ! i) else None)"

definition slice :: "string \<Rightarrow> nat \<Rightarrow> nat \<Rightarrow> string" where
  "slice s from to = take (to - from) (drop from s)"

definition find_char :: "string \<Rightarrow> nat \<Rightarrow> char \<Rightarrow> nat" where
  "find_char s start c =
     (case position (\<lambda>d. d = c) (drop start s) of None \<Rightarrow> length s | Some off \<Rightarrow> start + off)"

text \<open>The byte length of the character at \<open>at\<close>: its first byte and the continuation bytes after it.\<close>

definition char_len_at :: "string \<Rightarrow> nat \<Rightarrow> nat" where
  "char_len_at s at =
     (if at < length s then Suc (length (takeWhile is_continuation (drop (Suc at) s))) else 1)"

lemma char_len_at_pos [simp]: "0 < char_len_at s at"
  by (simp add: char_len_at_def)

lemma byte_at_append [simp]: "byte_at (p @ t) (length p + i) = byte_at t i"
  by (simp add: byte_at_def nth_append)

lemma char_len_at_append [simp]: "char_len_at (p @ t) (length p + i) = char_len_at t i"
  by (simp add: char_len_at_def)

lemma slice_append [simp]: "slice (p @ t) (length p + i) (length p + j) = slice t i j"
  by (simp add: slice_def)

lemma find_char_append [simp]: "find_char (p @ t) (length p + i) c = length p + find_char t i c"
  by (simp add: find_char_def split: option.splits)

lemma find_char_bounds: "start \<le> length s \<Longrightarrow> start \<le> find_char s start c \<and> find_char s start c \<le> length s"
  using position_SomeD [of "\<lambda>d. d = c" "drop start s"] by (auto simp: find_char_def split: option.splits)

section \<open>The quoting state\<close>

record quote_state =
  in_single :: bool
  in_double :: bool
  in_ansi_c :: bool

text \<open>\<open>QuoteState::default()\<close>.\<close>

definition unquoted :: quote_state where
  "unquoted = \<lparr>in_single = False, in_double = False, in_ansi_c = False\<rparr>"

definition backslash_escapes :: "quote_state \<Rightarrow> bool" where
  "backslash_escapes q \<longleftrightarrow> \<not> in_single q"

definition suppresses_expansion :: "quote_state \<Rightarrow> bool" where
  "suppresses_expansion q \<longleftrightarrow> in_single q \<or> in_ansi_c q"

definition quoted :: "quote_state \<Rightarrow> bool" where
  "quoted q \<longleftrightarrow> in_single q \<or> in_double q \<or> in_ansi_c q"

text \<open>\<open>close_on\<close> and \<open>consume\<close>: the bytes a quote takes, 0 for ordinary content.\<close>

definition close_on ::
    "quote_state \<Rightarrow> char \<Rightarrow> char \<Rightarrow> (quote_state \<Rightarrow> quote_state) \<Rightarrow> quote_state \<times> nat" where
  "close_on q c closer leave = (if c = closer then (leave q, 1) else (q, 0))"

definition consume :: "quote_state \<Rightarrow> string \<Rightarrow> nat \<Rightarrow> quote_state \<times> nat" where
  "consume q s i =
     (let c = s ! i in
      if in_single q then close_on q c squote (\<lambda>q. q\<lparr>in_single := False\<rparr>)
      else if in_ansi_c q then close_on q c squote (\<lambda>q. q\<lparr>in_ansi_c := False\<rparr>)
      else if in_double q then close_on q c dquote (\<lambda>q. q\<lparr>in_double := False\<rparr>)
      else if c = CHR ''$'' \<and> byte_at s (i + 1) = Some squote then (q\<lparr>in_ansi_c := True\<rparr>, 2)
      else if c = squote then (q\<lparr>in_single := True\<rparr>, 1)
      else if c = dquote then (q\<lparr>in_double := True\<rparr>, 1)
      else (q, 0))"

text \<open>\<open>advance\<close>: \<open>Some next\<close> when the byte at \<open>i\<close> is quoting syntax, an escape, or content of a run the
  caller skips; \<open>None\<close> when it is live syntax the caller owns.\<close>

definition advance ::
    "quote_state \<Rightarrow> string \<Rightarrow> nat \<Rightarrow> (quote_state \<Rightarrow> bool) \<Rightarrow> quote_state \<times> nat option" where
  "advance q s i skip =
     (if backslash_escapes q \<and> s ! i = backslash then (q, Some (i + 1 + char_len_at s (i + 1)))
      else case consume q s i of
             (q', n) \<Rightarrow>
               if n = 0 then (q', if skip q' then Some (i + char_len_at s i) else None)
               else (q', Some (i + n)))"

definition step :: "quote_state \<Rightarrow> string \<Rightarrow> nat \<Rightarrow> quote_state \<times> nat option" where
  "step q s i = advance q s i suppresses_expansion"

definition step_all_quotes :: "quote_state \<Rightarrow> string \<Rightarrow> nat \<Rightarrow> quote_state \<times> nat option" where
  "step_all_quotes q s i = advance q s i quoted"

lemma advance_progress: "advance q s i skip = (q', Some next) \<Longrightarrow> i < next"
  by (auto simp: advance_def consume_def close_on_def Let_def split: if_splits prod.splits)

lemma step_progress [simp]: "step q s i = (q', Some next) \<Longrightarrow> i < next"
  by (simp add: step_def advance_progress)

lemma step_all_quotes_progress [simp]: "step_all_quotes q s i = (q', Some next) \<Longrightarrow> i < next"
  by (simp add: step_all_quotes_def advance_progress)

text \<open>A step reads only what is at and after its index, so a walk over \<open>p @ t\<close> past \<open>p\<close> is the walk over
  \<open>t\<close>.\<close>

lemma consume_append: "i < length t \<Longrightarrow> consume q (p @ t) (length p + i) = consume q t i"
  using byte_at_append [of p t "i + 1"]
  by (simp add: consume_def nth_append Let_def del: byte_at_append)

lemma advance_append:
  "i < length t \<Longrightarrow> advance q (p @ t) (length p + i) skip =
     (case advance q t i skip of (q', next) \<Rightarrow> (q', map_option (\<lambda>n. length p + n) next))"
  using char_len_at_append [of p t "i + 1"] char_len_at_append [of p t i]
  by (auto simp: advance_def consume_append nth_append split: prod.splits simp del: char_len_at_append)

lemma step_append:
  "i < length t \<Longrightarrow> step q (p @ t) (length p + i) =
     (case step q t i of (q', next) \<Rightarrow> (q', map_option (\<lambda>n. length p + n) next))"
  by (simp add: step_def advance_append)

lemma step_all_quotes_append:
  "i < length t \<Longrightarrow> step_all_quotes q (p @ t) (length p + i) =
     (case step_all_quotes q t i of (q', next) \<Rightarrow> (q', map_option (\<lambda>n. length p + n) next))"
  by (simp add: step_all_quotes_def advance_append)

section \<open>The close of a bracket\<close>

text \<open>The loop of \<open>matching_close\<close>, with its \<open>depth\<close>, quoting state and index. A closer never meets depth
  0, where \<open>depth -= 1\<close> would underflow: the loop returns when it reaches it.\<close>

function close_from ::
    "string \<Rightarrow> char \<Rightarrow> char \<Rightarrow> nat \<Rightarrow> quote_state \<Rightarrow> nat \<Rightarrow> nat" where
  "close_from s opener closer depth q i =
     (if i < length s then
        (case step_all_quotes q s i of
           (q', Some next) \<Rightarrow> close_from s opener closer depth q' next
         | (q', None) \<Rightarrow>
             (if s ! i = opener then
                close_from s opener closer (depth + 1) q' (i + char_len_at s i)
              else if s ! i = closer then
                (if depth - 1 = 0 then i
                 else close_from s opener closer (depth - 1) q' (i + char_len_at s i))
              else close_from s opener closer depth q' (i + char_len_at s i)))
      else length s)"
  by pat_completeness auto
termination
  by (relation "measure (\<lambda>(s, _, _, _, _, i). length s - i)")
     (auto dest!: step_all_quotes_progress [OF sym] intro!: diff_less_mono2)

declare close_from.simps [simp del]

definition matching_close :: "string \<Rightarrow> nat \<Rightarrow> char \<Rightarrow> char \<Rightarrow> nat" where
  "matching_close s start opener closer = close_from s opener closer 1 unquoted start"

definition matching_close_paren :: "string \<Rightarrow> nat \<Rightarrow> nat" where
  "matching_close_paren s start = matching_close s start CHR ''('' CHR '')''"

lemma close_from_bounds:
  "close_from s opener closer depth q i \<le> length s \<and>
     min i (length s) \<le> close_from s opener closer depth q i"
proof (induction s opener closer depth q i rule: close_from.induct)
  case (1 s opener closer depth q i)
  show ?case
  proof (cases "i < length s")
    case True
    obtain q' live where st: "step_all_quotes q s i = (q', live)" by fastforce
    show ?thesis
    proof (cases live)
      case None
      let ?j = "i + char_len_at s i"
      have j: "i \<le> ?j" by simp
      from 1(1) [OF True st [symmetric] None] 1(2) [OF True st [symmetric] None]
        1(3) [OF True st [symmetric] None] j
      show ?thesis
        using True by (subst (1 2) close_from.simps) (auto simp: st None split: if_splits)
    next
      case (Some n)
      from 1(4) [OF True st [symmetric] Some] step_all_quotes_progress [of q s i q' n]
      show ?thesis using True by (subst (1 2) close_from.simps) (auto simp: st Some)
    qed
  qed (simp add: close_from.simps)
qed

text \<open>\<open>expansion_end\<close>: the end of a \<open>${\<dots>}\<close>, \<open>$[\<dots>]\<close> or \<open>((\<dots>))\<close> that opens at \<open>i\<close>.\<close>

definition expansion_end :: "string \<Rightarrow> nat \<Rightarrow> nat option" where
  "expansion_end command i =
     (let rest = drop i command in
      if prefix ''${'' rest then Some (matching_close command (i + 2) CHR ''{'' CHR ''}'')
      else if prefix ''$['' rest then Some (matching_close command (i + 2) CHR ''['' CHR '']'')
      else if prefix ''(('' rest then Some (matching_close_paren command (i + 1))
      else None)"

section \<open>The bodies of substitutions\<close>

function bodies_from :: "string \<Rightarrow> quote_state \<Rightarrow> nat \<Rightarrow> string list" where
  "bodies_from s q i =
     (if i < length s then
        (case step q s i of
           (q', Some next) \<Rightarrow> bodies_from s q' next
         | (q', None) \<Rightarrow>
             (if s ! i = backtick then
                (let start = i + 1; stop = find_char s start backtick in
                 slice s start stop # bodies_from s q' (min (stop + 1) (length s)))
              else if s ! i \<in> set ''$<>'' \<and> byte_at s (i + 1) = Some CHR ''('' then
                (let start = i + 2; stop = matching_close_paren s start in
                 slice s start stop # bodies_from s q' (min (stop + 1) (length s)))
              else bodies_from s q' (i + char_len_at s i)))
      else [])"
  by pat_completeness auto
termination
proof (relation "measure (\<lambda>(s, _, i). length s - i)", goal_cases)
  case (2 s q i q' x2 start stop)
  then show ?case using find_char_bounds [of start s backtick] by (auto simp: min_def)
next
  case (3 s q i q' x2 start stop)
  then have "start \<le> length s" by (auto simp: byte_at_def split: if_splits)
  with 3 have "start \<le> stop"
    using close_from_bounds [of s "CHR ''(''" "CHR '')''" 1 unquoted start]
    by (simp add: matching_close_paren_def matching_close_def)
  with 3 show ?case by (auto simp: min_def)
qed (auto dest!: step_progress [OF sym] intro!: diff_less_mono2)

declare bodies_from.simps [simp del]

definition substitution_bodies :: "string \<Rightarrow> string list" where
  "substitution_bodies s = bodies_from s unquoted 0"

end
