(* ===== verification/Shell_Words.thy ===== *)
theory Shell_Words
  imports Shell_Quotes "HOL-Library.Multiset"
begin

text \<open>
  How the command guard finds the word a command segment runs (\<open>engine/command_guard.rs\<close>): the split at
  whitespace, assignments, redirects and prefixes before the head, the decorations around it, and
  every head the danger scans read behind a wrapper's own options.

  Every set of characters the code tests here is ASCII, so the byte tests agree with the tests on
  \<open>char\<close>. \<open>danger_head_candidates\<close> keeps the worklist, the marks and the result of the code's loop.
\<close>

section \<open>Rust string operations\<close>

text \<open>\<open>split_whitespace\<close>: the runs between characters with the White_Space property.\<close>

fun split_groups :: "string \<Rightarrow> string list \<Rightarrow> string list" where
  "split_groups acc [] = (if acc = [] then [] else [acc])"
| "split_groups acc (g # gs) =
     (if g \<in> set white_space_chars
      then (if acc = [] then split_groups [] gs else acc # split_groups [] gs)
      else split_groups (acc @ g) gs)"

definition split_whitespace :: "string \<Rightarrow> string list" where
  "split_whitespace s = split_groups [] (utf8_chars s)"

definition split_once :: "char \<Rightarrow> string \<Rightarrow> (string \<times> string) option" where
  "split_once c s =
     (if c \<in> set s then Some (takeWhile (\<lambda>d. d \<noteq> c) s, tl (dropWhile (\<lambda>d. d \<noteq> c) s)) else None)"

definition strip_prefix :: "string \<Rightarrow> string \<Rightarrow> string option" where
  "strip_prefix p s = (if prefix p s then Some (drop (length p) s) else None)"

definition trim_start_matches :: "char set \<Rightarrow> string \<Rightarrow> string" where
  "trim_start_matches cs s = dropWhile (\<lambda>c. c \<in> cs) s"

definition trim_end_matches :: "char set \<Rightarrow> string \<Rightarrow> string" where
  "trim_end_matches cs s = rev (dropWhile (\<lambda>c. c \<in> cs) (rev s))"

definition trim_matches :: "char set \<Rightarrow> string \<Rightarrow> string" where
  "trim_matches cs s = trim_end_matches cs (trim_start_matches cs s)"

abbreviation quote_chars :: "char set" where
  "quote_chars \<equiv> {dquote, squote}"

definition is_ascii_digit :: "char \<Rightarrow> bool" where
  "is_ascii_digit c \<longleftrightarrow> 48 \<le> (of_char c :: nat) \<and> (of_char c :: nat) \<le> 57"

definition is_ascii_alphabetic :: "char \<Rightarrow> bool" where
  "is_ascii_alphabetic c \<longleftrightarrow>
     (let n = (of_char c :: nat) in 65 \<le> n \<and> n \<le> 90 \<or> 97 \<le> n \<and> n \<le> 122)"

definition is_ascii_alphanumeric :: "char \<Rightarrow> bool" where
  "is_ascii_alphanumeric c \<longleftrightarrow> is_ascii_alphabetic c \<or> is_ascii_digit c"

lemma is_ascii_digit_bits [code]:
  "is_ascii_digit (Char b0 b1 b2 b3 b4 b5 b6 b7) \<longleftrightarrow>
     \<not> b7 \<and> \<not> b6 \<and> b5 \<and> b4 \<and> (b3 \<longrightarrow> \<not> b2 \<and> \<not> b1)"
  by (cases b7; cases b6; cases b5; cases b4; cases b3; cases b2; cases b1; cases b0)
     (simp_all add: is_ascii_digit_def of_char_def)

lemma is_ascii_alphabetic_bits [code]:
  "is_ascii_alphabetic (Char b0 b1 b2 b3 b4 b5 b6 b7) \<longleftrightarrow>
     \<not> b7 \<and> b6 \<and> (b4 \<or> b3 \<or> b2 \<or> b1 \<or> b0) \<and> \<not> (b4 \<and> b3 \<and> (b2 \<or> b1 \<and> b0))"
  by (cases b7; cases b6; cases b5; cases b4; cases b3; cases b2; cases b1; cases b0)
     (simp_all add: is_ascii_alphabetic_def of_char_def)

section \<open>Words before the head\<close>

definition is_env_var_name :: "string \<Rightarrow> bool" where
  "is_env_var_name name =
     (case name of
        [] \<Rightarrow> False
      | c # cs \<Rightarrow>
          (is_ascii_alphabetic c \<or> c = CHR ''_'') \<and>
          list_all (\<lambda>c. is_ascii_alphanumeric c \<or> c = CHR ''_'') cs)"

text \<open>\<open>name.strip_suffix('+').unwrap_or(name)\<close>.\<close>

definition without_plus :: "string \<Rightarrow> string" where
  "without_plus name = (if name \<noteq> [] \<and> last name = CHR ''+'' then butlast name else name)"

definition is_assignment_word :: "string \<Rightarrow> bool" where
  "is_assignment_word tok =
     (case split_once CHR ''='' tok of
        None \<Rightarrow> False
      | Some (name, _) \<Rightarrow> is_env_var_name (without_plus name))"

definition lucidos_cli_env_names :: "string list" where
  "lucidos_cli_env_names = [''LUCIDOS_API_BASE_URL'', ''LUCIDOS_WORKSPACE'', ''LUCIDOS_API_PORT'']"

definition code_injecting_env_names :: "string list" where
  "code_injecting_env_names =
     [''LD_'', ''DYLD_'', ''BASH_ENV'', ''ENV='', ''PATH='', ''SHELLOPTS'', ''BASHOPTS'', ''PS4'', ''IFS='',
      ''PYTHONSTARTUP'', ''PYTHONPATH'', ''PERL5OPT'', ''PERL5LIB'', ''RUBYOPT'', ''NODE_OPTIONS'',
      ''GIT_SSH'', ''GIT_EXTERNAL_DIFF'', ''GIT_PAGER'', ''GIT_EDITOR'', ''GIT_CONFIG'', ''HOME='',
      ''XDG_CONFIG_HOME='', ''GIT_DIR='', ''GIT_COMMON_DIR='', ''CURL_HOME='', ''WGETRC='',
      ''SYSTEM_WGETRC='', ''GIT_EXEC_PATH='', ''RIPGREP_CONFIG_PATH='', ''LESSOPEN='', ''LESSCLOSE='',
      ''ACKRC='', ''ACK_OPTIONS='', ''ACK_PAGER'', ''PAGER='', ''GH_CONFIG_DIR='', ''GH_PAGER='',
      ''GH_BROWSER='', ''LESSKEY'', ''LESS='']"

definition is_code_injecting_env_name :: "string \<Rightarrow> bool" where
  "is_code_injecting_env_name name =
     (if name = [] \<or> prefix ''-'' name then False
      else name \<in> set lucidos_cli_env_names \<or>
           list_ex (\<lambda>p. if last p = CHR ''='' then name = butlast p else prefix p name)
             code_injecting_env_names)"

definition is_code_injecting_assignment :: "string \<Rightarrow> bool" where
  "is_code_injecting_assignment tok =
     (case split_once CHR ''='' tok of
        None \<Rightarrow> False
      | Some (name, _) \<Rightarrow> is_code_injecting_env_name (without_plus name))"

definition preamble_has_code_injecting_env :: "string list \<Rightarrow> nat \<Rightarrow> bool" where
  "preamble_has_code_injecting_env toks head_at =
     list_ex is_code_injecting_assignment (take head_at toks)"

text \<open>\<open>assignment_token_span\<close>: one character of a token, one token, and the loop over the tokens. The
  local enum \<open>Quote\<close> is \<open>span_quote\<close>.\<close>

datatype span_quote = NoQuote | SingleQuote | DoubleQuote

fun span_char :: "span_quote \<times> bool \<Rightarrow> char \<Rightarrow> span_quote \<times> bool" where
  "span_char (quote, escaped) c =
     (if escaped then (quote, False)
      else if quote = SingleQuote \<and> c = squote \<or> quote = DoubleQuote \<and> c = dquote then (NoQuote, False)
      else if quote = SingleQuote then (quote, False)
      else if c = backslash then (quote, True)
      else if quote = NoQuote \<and> c = squote then (SingleQuote, False)
      else if quote = NoQuote \<and> c = dquote then (DoubleQuote, False)
      else (quote, False))"

fun span_from :: "span_quote \<Rightarrow> nat \<Rightarrow> string list \<Rightarrow> nat" where
  "span_from quote n [] = 1"
| "span_from quote n (tok # toks) =
     (case foldl span_char (quote, False) tok of
        (quote', escaped) \<Rightarrow>
          if quote' = NoQuote \<and> \<not> escaped then n + 1 else span_from quote' (n + 1) toks)"

definition assignment_token_span :: "string list \<Rightarrow> nat" where
  "assignment_token_span toks = span_from NoQuote 0 toks"

lemma span_from_bounds: "1 \<le> span_from q n toks \<and> span_from q n toks \<le> max 1 (n + length toks)"
  by (induction q n toks rule: span_from.induct) (auto split: prod.splits)

lemma assignment_token_span_pos [simp]: "0 < assignment_token_span toks"
  using span_from_bounds [of NoQuote 0 toks] by (simp add: assignment_token_span_def)

lemma assignment_token_span_le: "toks \<noteq> [] \<Longrightarrow> assignment_token_span toks \<le> length toks"
  using span_from_bounds [of NoQuote 0 toks]
  by (cases toks) (auto simp: assignment_token_span_def simp del: span_from.simps)

definition benign_prefix_words :: "string list" where
  "benign_prefix_words =
     [''sudo'', ''env'', ''command'', ''time'', ''nice'', ''builtin'', ''exec'', [backslash]]"

definition is_benign_prefix :: "string \<Rightarrow> bool" where
  "is_benign_prefix tok \<longleftrightarrow> tok \<in> set benign_prefix_words \<or> is_assignment_word tok"

definition redirect_token_needs_target :: "string \<Rightarrow> bool option" where
  "redirect_token_needs_target tok =
     (let rest = dropWhile (\<lambda>c. is_ascii_digit c \<or> c = CHR ''&'') tok in
      case strip_prefix ''>>'' rest of
        Some after \<Rightarrow> Some (after = [])
      | None \<Rightarrow>
          (case strip_prefix ''>'' rest of
             Some after \<Rightarrow> Some (after = [])
           | None \<Rightarrow> map_option (\<lambda>after. after = []) (strip_prefix ''<'' rest)))"

text \<open>\<open>command_head_index\<close>: the loop with its index \<open>i\<close>.\<close>

function head_from :: "string list \<Rightarrow> nat \<Rightarrow> nat" where
  "head_from toks i =
     (if i < length toks then
        (let tok = toks ! i in
         if is_assignment_word tok then head_from toks (i + assignment_token_span (drop i toks))
         else if is_benign_prefix tok then head_from toks (i + 1)
         else (case redirect_token_needs_target tok of
                 Some needs_target \<Rightarrow> head_from toks (i + (if needs_target then 2 else 1))
               | None \<Rightarrow> i))
      else i)"
  by pat_completeness auto
termination
  by (relation "measure (\<lambda>(toks, i). length toks - i)") (auto intro!: diff_less_mono2)

declare head_from.simps [simp del]

definition command_head_index :: "string list \<Rightarrow> nat" where
  "command_head_index toks = head_from toks 0"

section \<open>The head word\<close>

definition normalized_head :: "string \<Rightarrow> string" where
  "normalized_head head =
     (let stripped = trim_start_matches {CHR ''('', CHR ''{'', backslash} head;
          stripped' =
            (case strip_prefix ''$'' stripped of
               Some rest \<Rightarrow> if prefix [squote] rest \<or> prefix [dquote] rest then rest else stripped
             | None \<Rightarrow> stripped);
          bare = trim_matches quote_chars stripped'
      in rev (takeWhile (\<lambda>c. c \<noteq> CHR ''/'') (rev bare)))"

definition is_flag_token :: "string \<Rightarrow> bool" where
  "is_flag_token tok \<longleftrightarrow> prefix ''-'' tok \<and> length tok > 1"

function next_non_flag_from :: "string list \<Rightarrow> nat \<Rightarrow> nat" where
  "next_non_flag_from toks i =
     (if i < length toks \<and> is_flag_token (toks ! i) then next_non_flag_from toks (i + 1) else i)"
  by pat_completeness auto
termination
  by (relation "measure (\<lambda>(toks, i). length toks - i)") auto

declare next_non_flag_from.simps [simp del]

lemma next_non_flag_from_ge [simp]: "i \<le> next_non_flag_from toks i"
proof (induction toks i rule: next_non_flag_from.induct)
  case (1 toks i)
  then show ?case by (subst next_non_flag_from.simps) force
qed

definition exec_wrapper_heads :: "string list" where
  "exec_wrapper_heads =
     [''arch'', ''nohup'', ''setsid'', ''caffeinate'', ''ionice'', ''stdbuf'', ''unbuffer'', ''eatmydata'',
      ''doas'', ''pkexec'', ''fakeroot'', ''unshare'', ''nsenter'', ''proot'', ''systemd-run'', ''strace'',
      ''ltrace'', ''dtruss'', ''watch'', ''parallel'', ''xargs'', ''busybox'', ''toybox'', ''gstdbuf'',
      ''gnice'', ''gxargs'', ''gionice'']"

definition exec_wrapper_heads_with_operand :: "string list" where
  "exec_wrapper_heads_with_operand =
     [''timeout'', ''gtimeout'', ''chroot'', ''setarch'', ''taskset'', ''chrt'', ''su'', ''runuser'',
      ''script'', ''flock'']"

section \<open>Every head a segment could run\<close>

definition compound_openers :: "string list" where
  "compound_openers =
     [''{'', ''('', ''!'', ''if'', ''then'', ''else'', ''elif'', ''do'', ''while'', ''until'', ''eval'']"

function resolve_head_at :: "string list \<Rightarrow> nat \<Rightarrow> nat" where
  "resolve_head_at toks from =
     (let stop = from + command_head_index (drop from toks) in
      if stop < length toks \<and> toks ! stop \<in> set compound_openers
      then resolve_head_at toks (stop + 1)
      else stop)"
  by pat_completeness auto
termination
  by (relation "measure (\<lambda>(toks, from). length toks - from)") auto

declare resolve_head_at.simps [simp del]

text \<open>One turn of the loop: the starts it pushes for the head at \<open>at\<close>, the last pushed first.\<close>

definition pushed_starts :: "string list \<Rightarrow> nat \<Rightarrow> nat list" where
  "pushed_starts toks at =
     (let head = toks ! at; base = normalized_head head in
      if is_flag_token head then [at + 2, at + 1]
      else if base \<in> set exec_wrapper_heads_with_operand then
        (let operand = next_non_flag_from toks (at + 1)
         in [next_non_flag_from toks (operand + 1), operand])
      else if base \<in> set exec_wrapper_heads then [next_non_flag_from toks (at + 1)]
      else [])"

lemma fresh_mark_fewer:
  "at < length seen \<Longrightarrow> \<not> seen ! at \<Longrightarrow> count_list (seen[at := True]) False < count_list seen False"
  by (induction seen arbitrary: at) (auto split: nat.splits)

text \<open>The loop, with \<open>seen\<close>, the stack \<open>pending\<close> (its top first) and \<open>candidates\<close>. \<open>seen\<close> has one mark per
  token, so \<open>at < length seen\<close> always holds where the code indexes it.\<close>

function candidates_loop ::
    "string list \<Rightarrow> bool list \<Rightarrow> nat list \<Rightarrow> (string \<times> string list) list
     \<Rightarrow> (string \<times> string list) list" where
  "candidates_loop toks seen [] candidates = candidates"
| "candidates_loop toks seen (start # pending) candidates =
     (if start > length toks then candidates_loop toks seen pending candidates
      else
        (let at = resolve_head_at toks start in
         if \<not> at < length toks then candidates_loop toks seen pending candidates
         else if at < length seen \<and> \<not> seen ! at then
           candidates_loop toks (seen[at := True]) (pushed_starts toks at @ pending)
             (candidates @ [(normalized_head (toks ! at), drop (at + 1) toks)])
         else candidates_loop toks seen pending candidates))"
  by pat_completeness auto

termination
  by (relation "measures [\<lambda>(_, seen, _, _). count_list seen False, \<lambda>(_, _, pending, _). length pending]")
     (auto simp: fresh_mark_fewer)

definition danger_head_candidates :: "string list \<Rightarrow> (string \<times> string list) list" where
  "danger_head_candidates toks = candidates_loop toks (replicate (length toks) False) [0] []"

text \<open>The specification: the positions a segment's head can be read at. A flag-shaped head is read with
  and without a value, an operand wrapper's operand and the word past it are both read, and a plain
  wrapper runs the first word that is no flag.\<close>

inductive head_at :: "string list \<Rightarrow> nat \<Rightarrow> bool" for toks where
  first: "resolve_head_at toks 0 = at \<Longrightarrow> at < length toks \<Longrightarrow> head_at toks at"
| flag_without_value:
    "head_at toks at \<Longrightarrow> is_flag_token (toks ! at) \<Longrightarrow>
     resolve_head_at toks (at + 1) = at' \<Longrightarrow> at' < length toks \<Longrightarrow> head_at toks at'"
| flag_with_value:
    "head_at toks at \<Longrightarrow> is_flag_token (toks ! at) \<Longrightarrow>
     resolve_head_at toks (at + 2) = at' \<Longrightarrow> at' < length toks \<Longrightarrow> head_at toks at'"
| operand:
    "head_at toks at \<Longrightarrow> \<not> is_flag_token (toks ! at) \<Longrightarrow>
     normalized_head (toks ! at) \<in> set exec_wrapper_heads_with_operand \<Longrightarrow>
     resolve_head_at toks (next_non_flag_from toks (at + 1)) = at' \<Longrightarrow> at' < length toks \<Longrightarrow>
     head_at toks at'"
| past_operand:
    "head_at toks at \<Longrightarrow> \<not> is_flag_token (toks ! at) \<Longrightarrow>
     normalized_head (toks ! at) \<in> set exec_wrapper_heads_with_operand \<Longrightarrow>
     resolve_head_at toks (next_non_flag_from toks (next_non_flag_from toks (at + 1) + 1)) = at' \<Longrightarrow>
     at' < length toks \<Longrightarrow> head_at toks at'"
| wrapped:
    "head_at toks at \<Longrightarrow> \<not> is_flag_token (toks ! at) \<Longrightarrow>
     normalized_head (toks ! at) \<in> set exec_wrapper_heads \<Longrightarrow>
     resolve_head_at toks (next_non_flag_from toks (at + 1)) = at' \<Longrightarrow> at' < length toks \<Longrightarrow>
     head_at toks at'"

text \<open>The two tables of wrappers share no name, so the order of the code's tests decides nothing.\<close>

lemma wrapper_tables_disjoint:
  "h \<in> set exec_wrapper_heads_with_operand \<Longrightarrow> h \<notin> set exec_wrapper_heads"
  by (auto simp: exec_wrapper_heads_def exec_wrapper_heads_with_operand_def)

definition reading :: "string list \<Rightarrow> nat \<Rightarrow> string \<times> string list" where
  "reading toks at = (normalized_head (toks ! at), drop (at + 1) toks)"

text \<open>The starts pushed for a head, once resolved, are exactly the heads the rules read from it.\<close>

definition resolves_to :: "string list \<Rightarrow> nat \<Rightarrow> nat \<Rightarrow> bool" where
  "resolves_to toks start at \<longleftrightarrow>
     resolve_head_at toks start = at \<and> at < length toks"

lemma resolve_head_at_ge: "from \<le> resolve_head_at toks from"
proof (induction toks "from" rule: resolve_head_at.induct)
  case (1 toks "from")
  then show ?case by (subst resolve_head_at.simps) (force simp: Let_def)
qed

lemma pushed_starts_head_at:
  "head_at toks at \<Longrightarrow> start \<in> set (pushed_starts toks at) \<Longrightarrow> resolves_to toks start at' \<Longrightarrow>
     head_at toks at'"
  by (auto simp: pushed_starts_def Let_def resolves_to_def split: if_splits
      intro: head_at.intros [simplified])

text \<open>The invariant of the loop: every mark is a head of the specification, its reading is a candidate,
  and what its head pushes is resolved and marked already or still pending.\<close>

definition covered :: "string list \<Rightarrow> bool list \<Rightarrow> nat list \<Rightarrow> nat \<Rightarrow> bool" where
  "covered toks seen pending start \<longleftrightarrow>
     start \<in> set pending \<or> (\<forall>at. resolves_to toks start at \<longrightarrow> seen ! at)"

definition loop_ok ::
    "string list \<Rightarrow> bool list \<Rightarrow> nat list \<Rightarrow> (string \<times> string list) list \<Rightarrow> bool" where
  "loop_ok toks seen pending candidates \<longleftrightarrow>
     length seen = length toks \<and>
     mset candidates = image_mset (reading toks) (mset_set {at. at < length toks \<and> seen ! at}) \<and>
     (\<forall>at. at < length toks \<and> seen ! at \<longrightarrow> head_at toks at) \<and>
     (\<forall>start at. start \<in> set pending \<and> resolves_to toks start at \<longrightarrow> head_at toks at) \<and>
     covered toks seen pending 0 \<and>
     (\<forall>at start. at < length toks \<and> seen ! at \<and> start \<in> set (pushed_starts toks at) \<longrightarrow>
        covered toks seen pending start)"

lemma loop_ok_start: "loop_ok toks (replicate (length toks) False) [0] []"
proof -
  have none: "{at. at < length toks \<and> replicate (length toks) False ! at} = {}" by auto
  show ?thesis unfolding loop_ok_def none
    by (auto simp: loop_ok_def covered_def resolves_to_def intro: head_at.first)
qed

lemma covered_mono:
  "covered toks seen (start # pending) s \<Longrightarrow> length seen = length toks \<Longrightarrow>
     (\<And>at. resolves_to toks start at \<Longrightarrow> seen' ! at) \<Longrightarrow> (\<And>at. at < length toks \<Longrightarrow> seen ! at \<Longrightarrow> seen' ! at) \<Longrightarrow>
     covered toks seen' (pushed @ pending) s"
  by (auto simp: covered_def resolves_to_def)

lemma loop_ok_skip:
  assumes ok: "loop_ok toks seen (start # pending) candidates"
    and skip: "\<And>at. resolves_to toks start at \<Longrightarrow> seen ! at"
  shows "loop_ok toks seen pending candidates"
  using ok covered_mono [of toks seen start pending _ seen "[]"] skip
  unfolding loop_ok_def by (auto simp: Ball_def)

lemma loop_ok_take:
  assumes ok: "loop_ok toks seen (start # pending) candidates"
    and at: "resolves_to toks start at" "\<not> seen ! at"
  shows "loop_ok toks (seen[at := True]) (pushed_starts toks at @ pending)
           (candidates @ [reading toks at])"
proof -
  let ?seen = "seen[at := True]" and ?pending = "pushed_starts toks at @ pending"
  have len: "length seen = length toks" and lt: "at < length toks" and head: "head_at toks at"
    using ok at by (auto simp: loop_ok_def resolves_to_def)
  have marks: "{i. i < length toks \<and> ?seen ! i} = insert at {i. i < length toks \<and> seen ! i}"
    using lt len by (auto simp: nth_list_update)
  have cov: "covered toks ?seen ?pending s" if "covered toks seen (start # pending) s" for s
    using covered_mono [OF that len, of ?seen "pushed_starts toks at"] at lt len
    by (auto simp: resolves_to_def nth_list_update)
  have new: "covered toks ?seen ?pending s" if "s \<in> set (pushed_starts toks at)" for s
    using that by (simp add: covered_def)
  show ?thesis
    using ok head cov new lt len at(2) pushed_starts_head_at [OF head]
    unfolding loop_ok_def marks by (auto simp: nth_list_update)
qed

lemma candidates_loop_ok:
  "loop_ok toks seen pending candidates \<Longrightarrow>
     \<exists>seen'. loop_ok toks seen' [] (candidates_loop toks seen pending candidates)"
proof (induction toks seen pending candidates rule: candidates_loop.induct)
  case (2 toks seen start pending candidates)
  let ?at = "resolve_head_at toks start"
  have len: "length seen = length toks" using "2.prems" by (simp add: loop_ok_def)
  show ?case
  proof (cases "start \<le> length toks \<and> ?at < length toks \<and> \<not> seen ! ?at")
    case True
    then have "loop_ok toks (seen[?at := True]) (pushed_starts toks ?at @ pending)
                 (candidates @ [reading toks ?at])"
      by (intro loop_ok_take [OF "2.prems"]) (auto simp: resolves_to_def)
    with 2 True len show ?thesis by (auto simp: reading_def Let_def)
  next
    case False
    then have "loop_ok toks seen pending candidates"
      using resolve_head_at_ge [of start toks]
      by (intro loop_ok_skip [OF "2.prems"]) (auto simp: resolves_to_def)
    with 2 False len show ?thesis by (auto simp: Let_def)
  qed
qed auto

lemma candidates_are_the_heads:
  "mset (danger_head_candidates toks) = image_mset (reading toks) (mset_set {at. head_at toks at})"
proof -
  obtain seen where ok: "loop_ok toks seen [] (danger_head_candidates toks)"
    using candidates_loop_ok [OF loop_ok_start] by (auto simp: danger_head_candidates_def)
  have pushed: "at' < length toks \<and> seen ! at'"
    if "at < length toks \<and> seen ! at" "start \<in> set (pushed_starts toks at)"
      "resolve_head_at toks start = at'" "at' < length toks" for at start at'
    using ok that by (auto simp: loop_ok_def covered_def resolves_to_def)
  have "at < length toks \<and> seen ! at" if "head_at toks at" for at
    using that
  proof (induction rule: head_at.induct)
    case (first at)
    then show ?case using ok by (auto simp: loop_ok_def covered_def resolves_to_def)
  next
    case (flag_without_value at at')
    then show ?case by - (rule pushed [of at "at + 1"], auto simp: pushed_starts_def)
  next
    case (flag_with_value at at')
    then show ?case by - (rule pushed [of at "at + 2"], auto simp: pushed_starts_def)
  next
    case (operand at at')
    then show ?case
      by - (rule pushed [of at "next_non_flag_from toks (at + 1)"], auto simp: pushed_starts_def Let_def)
  next
    case (past_operand at at')
    then show ?case
      by - (rule pushed [of at "next_non_flag_from toks (next_non_flag_from toks (at + 1) + 1)"],
            auto simp: pushed_starts_def Let_def)
  next
    case (wrapped at at')
    then have "next_non_flag_from toks (at + 1) \<in> set (pushed_starts toks at)"
      using wrapper_tables_disjoint [of "normalized_head (toks ! at)"]
      by (simp add: pushed_starts_def Let_def)
    from pushed [OF wrapped(6) this wrapped(4,5)] show ?case .
  qed
  then have "{at. head_at toks at} = {at. at < length toks \<and> seen ! at}"
    using ok unfolding loop_ok_def by blast
  moreover have "mset (danger_head_candidates toks) =
      image_mset (reading toks) (mset_set {at. at < length toks \<and> seen ! at})"
    using ok unfolding loop_ok_def by blast
  ultimately show ?thesis by simp
qed

end
