(* ===== verification/Shell_Unwrap.thy ===== *)
theory Shell_Unwrap
  imports Shell_Words
begin

text \<open>
  How the command guard takes a shell wrapper off a command (\<open>engine/command_guard.rs\<close>):
  \<open>unwrap_shell_command\<close> finds the shell behind prefixes and exec wrappers, its \<open>-c\<close> flag, and the
  script operand, from which it decodes one layer of quoting. \<open>shell_single_quote\<close> is the quoting the
  engine writes itself (\<open>engine/agent_session/prompts.rs\<close>, \<open>engine/git_ops/worktree.rs\<close>).

  Borrowed and owned text (\<open>Cow\<close>) are the same value here. An index past the end stands for the slice
  being empty, as in the code, whose loops test the index first.
\<close>

section \<open>The shell and its flag\<close>

definition guard_shells :: "string list" where
  "guard_shells = [''sh'', ''bash'', ''zsh'', ''dash'', ''ksh'', ''ash'']"

function arch_args_from :: "string list \<Rightarrow> nat \<Rightarrow> bool" where
  "arch_args_from args i =
     (if i < length args then
        (case redirect_token_needs_target (args ! i) of
           Some needs_target \<Rightarrow>
             arch_args_from args (next_non_flag_from args (i + (if needs_target then 1 else 0) + 1))
         | None \<Rightarrow> True)
      else False)"
  by pat_completeness auto
termination
proof (relation "measure (\<lambda>(args, i). length args - i)", goal_cases)
  case (2 args i needs_target)
  have "i < next_non_flag_from args (i + (if needs_target then 1 else 0) + 1)"
    by (rule less_le_trans [OF _ next_non_flag_from_ge]) simp
  with 2 show ?case by (simp add: diff_less_mono2)
qed simp

declare arch_args_from.simps [simp del]

definition arch_runs_a_command :: "string list \<Rightarrow> bool" where
  "arch_runs_a_command args = arch_args_from args (next_non_flag_from args 0)"

text \<open>\<open>shell_token_index\<close>: the loop with its index \<open>at\<close>.\<close>

function shell_token_from :: "string list \<Rightarrow> nat \<Rightarrow> nat option" where
  "shell_token_from toks start =
     (if start > length toks then None
      else
        (let at = start + command_head_index (drop start toks) in
         if \<not> at < length toks then None
         else
           (let base = normalized_head (toks ! at) in
            if base \<in> set guard_shells then
              (if preamble_has_code_injecting_env toks at then None else Some at)
            else
              (case (if base \<in> set exec_wrapper_heads_with_operand then
                       Some (next_non_flag_from toks (next_non_flag_from toks (at + 1) + 1))
                     else if base \<in> set exec_wrapper_heads then Some (next_non_flag_from toks (at + 1))
                     else None) of
                 None \<Rightarrow> None
               | Some after \<Rightarrow> if after \<le> at then None else shell_token_from toks after))))"
  by pat_completeness auto
termination
  by (relation "measure (\<lambda>(toks, start). Suc (length toks) - start)") auto

declare shell_token_from.simps [simp del]

definition shell_token_index :: "string list \<Rightarrow> nat option" where
  "shell_token_index toks = shell_token_from toks 0"

definition is_shell_c_flag :: "string \<Rightarrow> bool" where
  "is_shell_c_flag tok =
     (case strip_prefix ''-'' tok of
        Some letters \<Rightarrow>
          2 \<le> length tok \<and> \<not> prefix ''--'' tok \<and> CHR ''c'' \<in> set letters \<and> list_all is_ascii_alphabetic letters
      | None \<Rightarrow> False)"

section \<open>The script operand\<close>

text \<open>\<open>push_char_at\<close>: the character at \<open>at\<close> and its length. Past the end nothing is pushed.\<close>

definition char_at :: "string \<Rightarrow> nat \<Rightarrow> string" where
  "char_at s at = slice s at (at + char_len_at s at)"

definition opens_ansi_c_run :: "string \<Rightarrow> nat \<Rightarrow> bool" where
  "opens_ansi_c_run s i \<longleftrightarrow> byte_at s i = Some CHR ''$'' \<and> byte_at s (i + 1) = Some squote"

definition opens_substitution :: "string \<Rightarrow> nat \<Rightarrow> bool" where
  "opens_substitution s i \<longleftrightarrow>
     s ! i = backtick \<or> s ! i \<in> set ''$<>'' \<and> byte_at s (i + 1) = Some CHR ''(''"

text \<open>\<open>u8::is_ascii_whitespace\<close>: space, tab, newline, form feed and carriage return.\<close>

definition is_ascii_whitespace :: "char \<Rightarrow> bool" where
  "is_ascii_whitespace c \<longleftrightarrow> c \<in> {CHR '' '', CHR 0x09, CHR 0x0A, CHR 0x0C, CHR 0x0D}"

definition ends_shell_word :: "char \<Rightarrow> bool" where
  "ends_shell_word c \<longleftrightarrow> is_ascii_whitespace c \<or> c \<in> set '';|&<>()''"

text \<open>\<open>(b as char).is_digit(radix)\<close> and the value of a digit, for the radices 8 and 16.\<close>

definition digit_value :: "nat \<Rightarrow> char \<Rightarrow> nat option" where
  "digit_value radix c =
     (let n = (of_char c :: nat);
          v = if 48 \<le> n \<and> n \<le> 57 then Some (n - 48)
              else if 97 \<le> n \<and> n \<le> 122 then Some (n - 87)
              else if 65 \<le> n \<and> n \<le> 90 then Some (n - 55)
              else None
      in case v of Some d \<Rightarrow> if d < radix then Some d else None | None \<Rightarrow> None)"

text \<open>The UTF-8 bytes of a code point below 0x110000, and \<open>char::from_u32\<close> with the replacement
  character U+FFFD for what is no \<open>char\<close>.\<close>

definition encode_utf8 :: "nat \<Rightarrow> string" where
  "encode_utf8 n =
     (if n < 128 then [char_of n]
      else if n < 2048 then [char_of (192 + n div 64), char_of (128 + n mod 64)]
      else if n < 65536 then
        [char_of (224 + n div 4096), char_of (128 + n div 64 mod 64), char_of (128 + n mod 64)]
      else
        [char_of (240 + n div 262144), char_of (128 + n div 4096 mod 64),
         char_of (128 + n div 64 mod 64), char_of (128 + n mod 64)])"

definition char_of_code :: "nat \<Rightarrow> string" where
  "char_of_code n =
     (if n < 55296 \<or> 57344 \<le> n \<and> n < 1114112 then encode_utf8 n else encode_utf8 65533)"

text \<open>\<open>radix_escape\<close>. At most eight hexadecimal digits are read, so \<open>u32::from_str_radix\<close> never fails.\<close>

definition radix_escape :: "string \<Rightarrow> nat \<Rightarrow> nat \<Rightarrow> nat \<Rightarrow> string \<Rightarrow> string \<times> nat" where
  "radix_escape s at radix longest pre =
     (let digits = takeWhile (\<lambda>c. digit_value radix c \<noteq> None) (slice s at (min (at + longest) (length s)))
      in if digits = [] then (backslash # pre, at)
         else (char_of_code (foldl (\<lambda>v c. v * radix + the (digit_value radix c)) 0 digits),
               at + length digits))"

definition decode_ansi_c_escape :: "string \<Rightarrow> nat \<Rightarrow> string \<times> nat" where
  "decode_ansi_c_escape s at =
     (let c = s ! at in
      if c = CHR ''a'' then ([CHR 0x07], at + 1)
      else if c = CHR ''b'' then ([CHR 0x08], at + 1)
      else if c = CHR ''e'' \<or> c = CHR ''E'' then ([CHR 0x1B], at + 1)
      else if c = CHR ''f'' then ([CHR 0x0C], at + 1)
      else if c = CHR ''n'' then ([CHR 0x0A], at + 1)
      else if c = CHR ''r'' then ([CHR 0x0D], at + 1)
      else if c = CHR ''t'' then ([CHR 0x09], at + 1)
      else if c = CHR ''v'' then ([CHR 0x0B], at + 1)
      else if c \<in> {backslash, squote, dquote, CHR ''?''} then ([c], at + 1)
      else if c = CHR ''x'' then radix_escape s (at + 1) 16 2 ''x''
      else if c = CHR ''u'' then radix_escape s (at + 1) 16 4 ''u''
      else if c = CHR ''U'' then radix_escape s (at + 1) 16 8 ''U''
      else if c \<in> set ''01234567'' then radix_escape s at 8 3 ''''
      else (backslash # char_at s at, at + char_len_at s at))"

lemma radix_escape_ge: "snd (radix_escape s at radix longest pre) \<ge> at"
  by (simp add: radix_escape_def Let_def)

lemma decode_ansi_c_escape_ge: "snd (decode_ansi_c_escape s at) \<ge> at"
  using radix_escape_ge [of at s 8 3 "[]"]
    Suc_leD [OF radix_escape_ge [of "Suc at" s 16 2 "''x''"]]
    Suc_leD [OF radix_escape_ge [of "Suc at" s 16 4 "''u''"]]
    Suc_leD [OF radix_escape_ge [of "Suc at" s 16 8 "''U''"]]
  by (simp add: decode_ansi_c_escape_def Let_def)

text \<open>\<open>push_ansi_c_run\<close>: the loop from \<open>i\<close>, with the word built so far.\<close>

function ansi_c_from :: "string \<Rightarrow> string \<Rightarrow> nat \<Rightarrow> string \<times> nat" where
  "ansi_c_from s word i =
     (if i < length s then
        (if s ! i = squote then (word, i + 1)
         else if s ! i = backslash \<and> i + 1 < length s then
           (let decoded = decode_ansi_c_escape s (i + 1)
            in ansi_c_from s (word @ fst decoded) (snd decoded))
         else ansi_c_from s (word @ char_at s i) (i + char_len_at s i))
      else (word, i))"
  by pat_completeness auto
termination
proof (relation "measure (\<lambda>(s, _, i). length s - i)", goal_cases)
  case (2 s word i decoded)
  then show ?case using decode_ansi_c_escape_ge [of "i + 1" s] by (simp add: diff_less_mono2)
qed (auto intro: diff_less_mono2)

declare ansi_c_from.simps [simp del]

definition push_ansi_c_run :: "string \<Rightarrow> string \<Rightarrow> nat \<Rightarrow> string \<times> nat" where
  "push_ansi_c_run word s opener = ansi_c_from s word (opener + 1)"

text \<open>The inner loop over a double-quoted run; it stops at the closing quote or the end.\<close>

function double_quoted_from :: "string \<Rightarrow> string \<Rightarrow> nat \<Rightarrow> string \<times> nat" where
  "double_quoted_from s word i =
     (if i < length s \<and> s ! i \<noteq> dquote then
        (if s ! i = backslash \<and> i + 1 < length s \<and> s ! (i + 1) \<in> {dquote, backslash, CHR ''$'', backtick}
         then double_quoted_from s (word @ [s ! (i + 1)]) (i + 2)
         else double_quoted_from s (word @ char_at s i) (i + char_len_at s i))
      else (word, i))"
  by pat_completeness auto
termination
  by (relation "measure (\<lambda>(s, _, i). length s - i)") (auto intro: diff_less_mono2)

declare double_quoted_from.simps [simp del]

lemma double_quoted_from_ge: "i \<le> snd (double_quoted_from s word i)"
proof (induction s word i rule: double_quoted_from.induct)
  case (1 s word i)
  show ?case
  proof (cases "i < length s \<and> s ! i \<noteq> dquote")
    case True
    show ?thesis
    proof (cases "s ! i = backslash \<and> i + 1 < length s \<and>
        s ! (i + 1) \<in> {dquote, backslash, CHR ''$'', backtick}")
      case escape: True
      then have "double_quoted_from s word i = double_quoted_from s (word @ [s ! (i + 1)]) (i + 2)"
        using True by (subst double_quoted_from.simps) auto
      with 1(1) [OF True escape] show ?thesis by simp
    next
      case plain: False
      then have "double_quoted_from s word i =
          double_quoted_from s (word @ char_at s i) (i + char_len_at s i)"
        using True by (subst double_quoted_from.simps) auto
      with 1(2) [OF True plain] show ?thesis by simp
    qed
  qed (simp add: double_quoted_from.simps)
qed

lemma ansi_c_from_ge: "i \<le> snd (ansi_c_from s word i)"
proof (induction s word i rule: ansi_c_from.induct)
  case (1 s word i)
  note 1 [THEN order.trans [rotated], intro]
  show ?case
    using decode_ansi_c_escape_ge [of "i + 1" s] by (subst ansi_c_from.simps) (auto simp: Let_def)
qed

text \<open>\<open>split_shell_script_operand\<close>: the loop that joins the quoted and unquoted runs of one word, then
  the test that the operand opens with a quote. The result is the script and the tail after it.\<close>

function operand_from :: "string \<Rightarrow> string \<Rightarrow> nat \<Rightarrow> string \<times> nat" where
  "operand_from s word i =
     (if i < length s then
        (let c = s ! i in
         if c = squote then
           (let start = i + 1; stop = find_char s start squote
            in operand_from s (word @ slice s start stop) (min (stop + 1) (length s)))
         else if c = dquote then
           (let inner = double_quoted_from s word (i + 1)
            in operand_from s (fst inner) (min (snd inner + 1) (length s)))
         else if opens_ansi_c_run s i then
           (let inner = push_ansi_c_run word s (i + 1)
            in operand_from s (fst inner) (snd inner))
         else if c = backslash then
           (if i + 1 < length s
            then operand_from s (word @ char_at s (i + 1)) (i + 1 + char_len_at s (i + 1))
            else operand_from s word (i + 1))
         else if opens_substitution s i then (word, i)
         else if ends_shell_word c then (word, i)
         else operand_from s (word @ char_at s i) (i + char_len_at s i))
      else (word, i))"
  by pat_completeness auto
termination
proof (relation "measure (\<lambda>(s, _, i). length s - i)", goal_cases)
  case (2 s word i c start stop)
  then show ?case using find_char_bounds [of start s squote] by (auto simp: min_def)
next
  case (3 s word i c inner)
  then show ?case using double_quoted_from_ge [of "i + 1" s word] by (auto simp: min_def)
next
  case (4 s word i c inner)
  then show ?case
    using ansi_c_from_ge [of "i + 2" s word]
    by (simp add: push_ansi_c_run_def split_def diff_less_mono2)
qed (auto intro!: diff_less_mono2)

declare operand_from.simps [simp del]

definition split_shell_script_operand :: "string \<Rightarrow> string \<times> string" where
  "split_shell_script_operand s =
     (if s \<noteq> [] \<and> (s ! 0 = squote \<or> s ! 0 = dquote \<or> opens_ansi_c_run s 0) then
        (case operand_from s [] 0 of (word, i) \<Rightarrow> (word, drop i s))
      else (s, []))"

definition has_command_substitution :: "string \<Rightarrow> bool" where
  "has_command_substitution s =
     (if sublist ''<<'' s then list_ex (\<lambda>opener. sublist opener s) [''$('', [backtick], ''<('', ''>('']
      else substitution_bodies s \<noteq> [])"

definition tail_runs_more_commands :: "string \<Rightarrow> bool" where
  "tail_runs_more_commands tail \<longleftrightarrow>
     CHR '';'' \<in> set tail \<or> CHR ''|'' \<in> set tail \<or> CHR ''&'' \<in> set tail \<or> CHR 0x0A \<in> set tail \<or>
     CHR ''>'' \<in> set tail \<or> CHR ''<'' \<in> set tail \<or> has_command_substitution tail"

section \<open>The unwrap\<close>

text \<open>\<open>str::trim_start\<close>.\<close>

definition trim_start :: "string \<Rightarrow> string" where
  "trim_start s = concat (dropWhile (\<lambda>g. g \<in> set white_space_chars) (utf8_chars s))"

text \<open>The loop over the whitespace-delimited tokens of \<open>trimmed\<close>, with the index \<open>i\<close> and the number of
  tokens read.\<close>

function unwrap_from :: "string \<Rightarrow> string \<Rightarrow> nat \<Rightarrow> nat \<Rightarrow> nat \<Rightarrow> string" where
  "unwrap_from command trimmed shell_at i tok_index =
     (let start = i + length (takeWhile is_ascii_whitespace (drop i trimmed));
          stop = start + length (takeWhile (\<lambda>c. \<not> is_ascii_whitespace c) (drop start trimmed))
      in if start = stop then command
         else if tok_index \<le> shell_at then unwrap_from command trimmed shell_at stop (tok_index + 1)
         else if is_shell_c_flag (slice trimmed start stop) then
           (case split_shell_script_operand (trim (drop stop trimmed)) of
              (script, tail) \<Rightarrow> if tail_runs_more_commands tail then command else script)
         else unwrap_from command trimmed shell_at stop (tok_index + 1))"
  by pat_completeness auto
termination
proof (relation "measure (\<lambda>(_, trimmed, _, i, _). length trimmed - i)", goal_cases)
  case (2 command trimmed shell_at i tok_index start stop)
  then have "i < stop" "i < length trimmed" by (cases "i < length trimmed"; simp)+
  then show ?case by (simp add: diff_less_mono2)
next
  case (3 command trimmed shell_at i tok_index start stop)
  then have "i < stop" "i < length trimmed" by (cases "i < length trimmed"; simp)+
  then show ?case by (simp add: diff_less_mono2)
qed simp

declare unwrap_from.simps [simp del]

definition unwrap_shell_command :: "string \<Rightarrow> string" where
  "unwrap_shell_command command =
     (let trimmed = trim_start command in
      case shell_token_index (split_whitespace trimmed) of
        None \<Rightarrow> command
      | Some shell_at \<Rightarrow> unwrap_from command trimmed shell_at 0 0)"

section \<open>The quoting the engine writes\<close>

text \<open>The two functions named \<open>shell_single_quote\<close>: a quote inside the text closes the run, and is
  written escaped in the prompts and double-quoted in the worktree hooks.\<close>

definition shell_single_quote :: "string \<Rightarrow> string" where
  "shell_single_quote t =
     [squote] @ concat (map (\<lambda>c. if c = squote then [squote, backslash, squote, squote] else [c]) t) @
     [squote]"

definition worktree_single_quote :: "string \<Rightarrow> string" where
  "worktree_single_quote t =
     [squote] @
     concat (map (\<lambda>c. if c = squote then [squote, dquote, squote, dquote, squote] else [c]) t) @
     [squote]"

end
