(* ===== verification/Command_Floor.thy ===== *)
theory Command_Floor
  imports Shell_Unwrap
begin

text \<open>
  The catastrophic floor of the command guard (\<open>catastrophic_reason\<close> and what it calls in
  \<open>engine/command_guard.rs\<close>): the split into segments, the fork bomb, the raw disk write, the recursive
  \<open>rm\<close> or \<open>chmod\<close> of the root, and the descent into substitutions. Its verdict is a refusal no grant
  lifts, so it is a reason or nothing.

  The patterns are the regular expressions of the source, written out as the leftmost-first greedy
  matches the \<open>regex\<close> crate documents. Two of their classes are Unicode tables of that crate, \<open>\d\<close> and
  \<open>\w\<close>: they are the parameters \<open>decimal_digit\<close> and \<open>word_char\<close> of \<open>unicode\<close>, tests on one character.
  \<open>\s\<close> is White_Space, as in \<open>Rust_Strings\<close>. \<open>workspace_floor::reason\<close> reads the machine (the registered
  workspaces, the current directory, links), so its verdict is the parameter \<open>floor\<close>.
\<close>

record unicode =
  decimal_digit :: "string \<Rightarrow> bool"
  word_char :: "string \<Rightarrow> bool"

abbreviation space_char :: "string \<Rightarrow> bool" where
  "space_char g \<equiv> g \<in> set white_space_chars"

section \<open>Segments\<close>

text \<open>\<open>FD_DUP\<close>, \<open>\d*>&\d+\<close>: what is left after a match at the front, and \<open>replace_all\<close> with a space.\<close>

definition match_fd_dup :: "unicode \<Rightarrow> string list \<Rightarrow> string list option" where
  "match_fd_dup u gs =
     (case dropWhile (decimal_digit u) gs of
        g # h # rest \<Rightarrow>
          if g = ''>'' \<and> h = ''&'' \<and> rest \<noteq> [] \<and> decimal_digit u (hd rest)
          then Some (dropWhile (decimal_digit u) rest) else None
      | _ \<Rightarrow> None)"

lemma match_fd_dup_shorter: "match_fd_dup u gs = Some rest \<Longrightarrow> length rest < length gs"
proof -
  assume "match_fd_dup u gs = Some rest"
  then obtain g h t where gs: "dropWhile (decimal_digit u) gs = g # h # t"
    and rest: "rest = dropWhile (decimal_digit u) t"
    by (auto simp: match_fd_dup_def split: list.splits if_splits)
  have "length (dropWhile (decimal_digit u) gs) \<le> length gs" by (rule length_dropWhile_le)
  moreover have "length rest \<le> length t" unfolding rest by (rule length_dropWhile_le)
  ultimately show ?thesis using gs by simp
qed

function strip_fd_dups :: "unicode \<Rightarrow> string list \<Rightarrow> string" where
  "strip_fd_dups u [] = []"
| "strip_fd_dups u (g # gs) =
     (case match_fd_dup u (g # gs) of
        Some rest \<Rightarrow> '' '' @ strip_fd_dups u rest
      | None \<Rightarrow> g @ strip_fd_dups u gs)"
  by pat_completeness auto
termination
  by (relation "measure (\<lambda>(_, gs). length gs)") (auto dest: match_fd_dup_shorter)

text \<open>\<open>str::replace\<close> of two ASCII characters by \<open>> \<close> and a space.\<close>

fun replace_noclobber :: "char \<Rightarrow> string \<Rightarrow> string" where
  "replace_noclobber b (c # d # s) =
     (if c = CHR ''>'' \<and> d = b then ''> '' @ replace_noclobber b s
      else c # replace_noclobber b (d # s))"
| "replace_noclobber b s = s"

definition segmentable :: "unicode \<Rightarrow> string \<Rightarrow> string" where
  "segmentable u command =
     replace_noclobber CHR ''!'' (replace_noclobber CHR ''|'' (strip_fd_dups u (utf8_chars command)))"

text \<open>\<open>SEGMENT_SEP\<close>, \<open>&&|\|\||;|\||&|\n\<close>: the separator at the front, if one matches there.\<close>

fun match_separator :: "string \<Rightarrow> string option" where
  "match_separator (c # d # s) =
     (if c = CHR ''&'' \<and> d = CHR ''&'' then Some ''&&''
      else if c = CHR ''|'' \<and> d = CHR ''|'' then Some ''||''
      else if c \<in> set '';|&'' \<or> c = CHR 0x0A then Some [c] else None)"
| "match_separator [c] = (if c \<in> set '';|&'' \<or> c = CHR 0x0A then Some [c] else None)"
| "match_separator [] = None"

lemma match_separator_drop:
  "match_separator s = Some sep \<Longrightarrow> s = sep @ drop (length sep) s \<and> sep \<noteq> []"
  by (induction s rule: match_separator.induct) (auto split: if_splits)

function split_segments :: "string \<Rightarrow> string \<Rightarrow> string list" where
  "split_segments acc [] = [acc]"
| "split_segments acc (c # s) =
     (case match_separator (c # s) of
        Some sep \<Rightarrow> acc # split_segments [] (drop (length sep) (c # s))
      | None \<Rightarrow> split_segments (acc @ [c]) s)"
  by pat_completeness auto
termination
  by (relation "measure (\<lambda>(_, s). length s)") (auto dest: match_separator_drop)

function find_separators :: "string \<Rightarrow> string list" where
  "find_separators [] = []"
| "find_separators (c # s) =
     (case match_separator (c # s) of
        Some sep \<Rightarrow> sep # find_separators (drop (length sep) (c # s))
      | None \<Rightarrow> find_separators s)"
  by pat_completeness auto
termination
  by (relation "measure length") (auto dest: match_separator_drop)

definition command_segments :: "unicode \<Rightarrow> string \<Rightarrow> string list" where
  "command_segments u command = split_segments [] (segmentable u command)"

definition segment_separators :: "unicode \<Rightarrow> string \<Rightarrow> string list" where
  "segment_separators u command = find_separators (segmentable u command)"

section \<open>Matches of a pattern\<close>

text \<open>\<open>captures_iter\<close> of a pattern that matches no empty text: the matcher reads the character before and
  the characters from a position on, and returns what it captures and the characters after the match,
  where the search goes on. A matcher that takes nothing would be no match.\<close>

type_synonym 'a matcher = "string option \<Rightarrow> string list \<Rightarrow> ('a \<times> string list) option"

function captures :: "'a matcher \<Rightarrow> string option \<Rightarrow> string list \<Rightarrow> 'a list" where
  "captures m prev [] = []"
| "captures m prev (g # gs) =
     (case m prev (g # gs) of
        Some (capture, rest) \<Rightarrow>
          if length rest \<le> length gs
          then capture # captures m (Some ((g # gs) ! (length gs - length rest))) rest
          else captures m (Some g) gs
      | None \<Rightarrow> captures m (Some g) gs)"
  by pat_completeness auto
termination
  by (relation "measure (\<lambda>(_, _, gs). length gs)") auto

text \<open>The ASCII literal \<open>lit\<close> at the front, and what follows it.\<close>

fun after_literal :: "string \<Rightarrow> string list \<Rightarrow> string list option" where
  "after_literal [] gs = Some gs"
| "after_literal (c # cs) (g # gs) = (if g = [c] then after_literal cs gs else None)"
| "after_literal (c # cs) [] = None"

text \<open>\<open>\b\<close> between the character before and the characters from here on.\<close>

definition word_boundary :: "unicode \<Rightarrow> string option \<Rightarrow> string list \<Rightarrow> bool" where
  "word_boundary u prev gs \<longleftrightarrow>
     (prev \<noteq> None \<and> word_char u (the prev)) \<noteq> (gs \<noteq> [] \<and> word_char u (hd gs))"

section \<open>Fork bombs\<close>

text \<open>\<open>DEF\<close>, \<open>([A-Za-z_:][A-Za-z0-9_]*)\s*\(\s*\)\s*\{\<close>: the name, and what follows the opening brace.\<close>

definition name_start :: "string \<Rightarrow> bool" where
  "name_start g \<longleftrightarrow> length g = 1 \<and> (is_ascii_alphabetic (hd g) \<or> g = ''_'' \<or> g = '':'')"

definition name_char :: "string \<Rightarrow> bool" where
  "name_char g \<longleftrightarrow> length g = 1 \<and> (is_ascii_alphanumeric (hd g) \<or> g = ''_'')"

definition after_spaced :: "string \<Rightarrow> string list \<Rightarrow> string list option" where
  "after_spaced lit gs = after_literal lit (dropWhile space_char gs)"

definition match_def :: "(string \<times> string list) matcher" where
  "match_def prev gs =
     (case gs of
        [] \<Rightarrow> None
      | g # rest \<Rightarrow>
          if name_start g then
            map_option (\<lambda>body. ((g @ concat (takeWhile name_char rest), body), body))
              (Option.bind
                (Option.bind (after_spaced ''('' (dropWhile name_char rest)) (after_spaced '')''))
                (after_spaced ''{''))
          else None)"

text \<open>The body runs to the next closing brace; it bombs when it pipes the name into itself and
  backgrounds it.\<close>

definition bomb_body :: "string \<times> string list \<Rightarrow> bool" where
  "bomb_body m =
     (case m of
        (name, rest) \<Rightarrow>
          let body = takeWhile (\<lambda>g. g \<noteq> ''}'') rest;
              compact = concat (filter (\<lambda>g. \<not> space_char g) body)
          in sublist (name @ ''|'' @ name) compact \<and> CHR ''&'' \<in> set compact)"

definition is_fork_bomb :: "string \<Rightarrow> bool" where
  "is_fork_bomb command = list_ex bomb_body (captures match_def None (utf8_chars command))"

section \<open>Raw disk writes\<close>

definition disk_prefixes :: "string list" where
  "disk_prefixes =
     [''sd'', ''hd'', ''vd'', ''xvd'', ''nvme'', ''mmcblk'', ''disk'', ''rdisk'', ''loop'', ''mapper'', ''dm-'',
      ''md'']"

definition is_disk_device :: "string \<Rightarrow> bool" where
  "is_disk_device raw =
     (case strip_prefix ''/dev/'' (trim_matches quote_chars raw) of
        None \<Rightarrow> False
      | Some dev \<Rightarrow> list_ex (\<lambda>pre. prefix pre dev) disk_prefixes)"

text \<open>A run of at least one character of a class, after a literal: \<open>lit[class]+\<close>.\<close>

definition literal_run :: "string \<Rightarrow> (string \<Rightarrow> bool) \<Rightarrow> string list \<Rightarrow> (string \<times> string list) option" where
  "literal_run lit cls gs =
     (case after_literal lit gs of
        None \<Rightarrow> None
      | Some rest \<Rightarrow>
          if takeWhile cls rest = [] then None
          else Some (concat (takeWhile cls rest), dropWhile cls rest))"

text \<open>\<open>DEV_PATH\<close>, \<open>/dev/[A-Za-z0-9/_-]+\<close>.\<close>

definition match_dev_path :: "string matcher" where
  "match_dev_path prev gs =
     map_option (\<lambda>(run, rest). (''/dev/'' @ run, rest))
       (literal_run ''/dev/''
         (\<lambda>g. length g = 1 \<and> (is_ascii_alphanumeric (hd g) \<or> hd g \<in> set ''/_-'')) gs)"

definition mentions_disk_device :: "string \<Rightarrow> bool" where
  "mentions_disk_device command =
     list_ex is_disk_device (captures match_dev_path None (utf8_chars command))"

text \<open>\<open>MKFS\<close>, \<open>\bmkfs(\.[A-Za-z0-9]+)?\b\<close>: whether it matches at the front. The suffix may give back
  characters to end at a boundary.\<close>

definition mkfs_here :: "unicode \<Rightarrow> string option \<Rightarrow> string list \<Rightarrow> bool" where
  "mkfs_here u prev gs =
     (word_boundary u prev gs \<and>
      (case after_literal ''mkfs'' gs of
         None \<Rightarrow> False
       | Some rest \<Rightarrow>
           word_boundary u (Some ''s'') rest \<or>
           (case after_literal ''.'' rest of
              None \<Rightarrow> False
            | Some ext \<Rightarrow>
                list_ex (\<lambda>n. word_boundary u (Some (ext ! (n - 1))) (drop n ext))
                  [1..<Suc (length (takeWhile (\<lambda>g. length g = 1 \<and> is_ascii_alphanumeric (hd g)) ext))])))"

fun mkfs_in :: "unicode \<Rightarrow> string option \<Rightarrow> string list \<Rightarrow> bool" where
  "mkfs_in u prev [] = False"
| "mkfs_in u prev (g # gs) = (mkfs_here u prev (g # gs) \<or> mkfs_in u (Some g) gs)"

text \<open>\<open>OF\<close>, \<open>\bof=(\S+)\<close>.\<close>

definition match_of :: "unicode \<Rightarrow> string matcher" where
  "match_of u prev gs =
     (if word_boundary u prev gs then literal_run ''of='' (\<lambda>g. \<not> space_char g) gs else None)"

text \<open>\<open>REDIRECT_DEV\<close>, \<open>>>?\s*['"]?(/dev/[^\s'"|&;]+)\<close>: every choice in it is decided by the next character.\<close>

definition match_redirect_dev :: "string matcher" where
  "match_redirect_dev prev gs =
     (case after_literal ''>'' gs of
        None \<Rightarrow> None
      | Some one \<Rightarrow>
          let operator = (case after_literal ''>'' one of Some two \<Rightarrow> two | None \<Rightarrow> one);
              spaced = dropWhile space_char operator;
              path = (if spaced \<noteq> [] \<and> hd spaced \<in> {[dquote], [squote]} then tl spaced else spaced)
          in map_option (\<lambda>(run, rest). (''/dev/'' @ run, rest))
               (literal_run ''/dev/''
                 (\<lambda>g. \<not> space_char g \<and> g \<notin> set (map (\<lambda>c. [c]) [squote, dquote, CHR ''|'', CHR ''&'', CHR '';''])) path))"

definition formats_or_overwrites_disk :: "unicode \<Rightarrow> string \<Rightarrow> bool" where
  "formats_or_overwrites_disk u command =
     (let gs = utf8_chars command in
      if mkfs_in u None gs \<and> mentions_disk_device command then True
      else if list_ex is_disk_device (captures (match_of u) None gs) then True
      else list_ex is_disk_device (captures match_redirect_dev None gs))"

section \<open>Recursive removal of the root\<close>

definition is_recursive_flag :: "string \<Rightarrow> bool" where
  "is_recursive_flag arg =
     (if arg = ''--recursive'' then True
      else if prefix ''--'' arg then False
      else case strip_prefix ''-'' arg of
             Some cluster \<Rightarrow> CHR ''r'' \<in> set cluster \<or> CHR ''R'' \<in> set cluster
           | None \<Rightarrow> False)"

definition root_spellings :: "string list" where
  "root_spellings =
     [''/'', ''/*'', ''//'', ''/.'', ''/./'', ''~'', ''~/'', ''~/*'', ''$HOME'', ''${HOME}'', ''$HOME/'',
      ''${HOME}/'', ''$HOME/*'', ''${HOME}/*'']"

definition is_catastrophic_target :: "string \<Rightarrow> bool" where
  "is_catastrophic_target tok =
     (let bare = trim_matches quote_chars tok;
          t = (if CHR ''{'' \<in> set bare then trim_end_matches {CHR '';'', CHR '')'', backslash} bare
               else trim_end_matches {CHR '';'', CHR '')'', CHR ''}'', backslash} bare)
      in t \<in> set root_spellings)"

text \<open>The reasons, one for each of the messages of the source; the last is \<open>workspace_floor::REASON\<close>.\<close>

datatype catastrophe =
  ForkBomb | RawDisk | RootDeletion | RootPermissions | WorkspaceDestruction

definition rm_or_chmod_reason :: "string \<times> string list \<Rightarrow> catastrophe option" where
  "rm_or_chmod_reason candidate =
     (case candidate of
        (base, args) \<Rightarrow>
          (case (if base = ''rm'' then Some RootDeletion
                 else if base = ''chmod'' then Some RootPermissions else None) of
             None \<Rightarrow> None
           | Some reason \<Rightarrow>
               if list_ex is_recursive_flag args \<and> list_ex is_catastrophic_target args
               then Some reason else None))"

fun find_map :: "('a \<Rightarrow> 'b option) \<Rightarrow> 'a list \<Rightarrow> 'b option" where
  "find_map f [] = None"
| "find_map f (x # xs) = (case f x of Some y \<Rightarrow> Some y | None \<Rightarrow> find_map f xs)"

definition catastrophic_rm_or_chmod :: "string \<Rightarrow> catastrophe option" where
  "catastrophic_rm_or_chmod segment =
     find_map rm_or_chmod_reason (danger_head_candidates (split_whitespace segment))"

section \<open>The verdict\<close>

definition max_substitution_depth :: nat where
  "max_substitution_depth = 8"

definition or_else :: "'a option \<Rightarrow> 'a option \<Rightarrow> 'a option" where
  "or_else a b = (case a of Some x \<Rightarrow> Some x | None \<Rightarrow> b)"

text \<open>The scans of one level, then each substitution body one level deeper. The first reason wins.\<close>

definition segment_reason :: "(string \<Rightarrow> catastrophe option) \<Rightarrow> string \<Rightarrow> catastrophe option" where
  "segment_reason floor segment =
     (let inner = unwrap_shell_command segment
      in or_else (catastrophic_rm_or_chmod inner) (floor inner))"

definition level_reason ::
    "unicode \<Rightarrow> (string \<Rightarrow> catastrophe option) \<Rightarrow> string \<Rightarrow> catastrophe option" where
  "level_reason u floor command =
     (if is_fork_bomb command then Some ForkBomb
      else if formats_or_overwrites_disk u command then Some RawDisk
      else or_else (find_map (segment_reason floor) (command_segments u command)) (floor command))"

function catastrophic_reason_at ::
    "unicode \<Rightarrow> (string \<Rightarrow> catastrophe option) \<Rightarrow> string \<Rightarrow> nat \<Rightarrow> catastrophe option" where
  "catastrophic_reason_at u floor command depth =
     or_else (level_reason u floor command)
       (if depth < max_substitution_depth
        then find_map (\<lambda>body. catastrophic_reason_at u floor body (depth + 1)) (substitution_bodies command)
        else None)"
  by pat_completeness auto
termination
  by (relation "measure (\<lambda>(_, _, _, depth). max_substitution_depth - depth)") auto

declare catastrophic_reason_at.simps [simp del]

definition catastrophic_reason ::
    "unicode \<Rightarrow> (string \<Rightarrow> catastrophe option) \<Rightarrow> string \<Rightarrow> catastrophe option" where
  "catastrophic_reason u floor command = catastrophic_reason_at u floor command 0"

definition catastrophic_reason_for_command ::
    "unicode \<Rightarrow> (string \<Rightarrow> catastrophe option) \<Rightarrow> string \<Rightarrow> catastrophe option" where
  "catastrophic_reason_for_command u floor command =
     catastrophic_reason u floor (unwrap_shell_command command)"

section \<open>Whose rights a command takes\<close>

definition max_shell_layers :: nat where
  "max_shell_layers = 4"

text \<open>\<open>shell_layers\<close>: the loop with the room left in \<open>layers\<close> and the innermost script so far.\<close>

fun layers_from :: "nat \<Rightarrow> string \<Rightarrow> string list" where
  "layers_from 0 current = []"
| "layers_from (Suc room) current =
     (let inner = unwrap_shell_command current
      in if inner = current then [] else inner # layers_from room inner)"

definition shell_layers :: "string \<Rightarrow> string list" where
  "shell_layers command = layers_from max_shell_layers command"

definition privilege_words :: "string list" where
  "privilege_words = [''sudo'', ''doas'', ''su'']"

function skip_assignments :: "string list \<Rightarrow> nat \<Rightarrow> nat" where
  "skip_assignments toks at =
     (if at < length toks \<and> is_assignment_word (toks ! at)
      then skip_assignments toks (at + assignment_token_span (drop at toks))
      else at)"
  by pat_completeness auto
termination
  by (relation "measure (\<lambda>(toks, at). length toks - at)") (auto intro!: diff_less_mono2)

declare skip_assignments.simps [simp del]

definition segment_escalates :: "string \<Rightarrow> bool" where
  "segment_escalates segment =
     (let toks = split_whitespace segment; at = skip_assignments toks 0
      in at < length toks \<and> normalized_head (toks ! at) \<in> set privilege_words)"

definition command_escalates_privilege :: "unicode \<Rightarrow> string \<Rightarrow> bool" where
  "command_escalates_privilege u command =
     list_ex (\<lambda>layer. list_ex segment_escalates (command_segments u layer))
       (command # shell_layers command)"

end
