(* ===== verification/Shell_Quote_Lemmas.thy ===== *)
theory Shell_Quote_Lemmas
  imports Shell_Unwrap
begin

text \<open>
  What the byte walks of the guard do on a command made of parts: a walk past a prefix is the walk over
  the rest, plain text moves nothing, a closed substitution in plain text is read whole, and a quoted
  script is decoded to the text that was quoted.
\<close>

section \<open>A walk past a prefix\<close>

lemma close_from_append:
  "close_from (p @ t) opener closer depth q (length p + i) = length p + close_from t opener closer depth q i"
proof (induction t opener closer depth q i rule: close_from.induct)
  case (1 t opener closer depth q i)
  show ?case
  proof (cases "i < length t")
    case True
    obtain q' live where st: "step_all_quotes q t i = (q', live)" by fastforce
    have st': "step_all_quotes q (p @ t) (length p + i) = (q', map_option (\<lambda>n. length p + n) live)"
      by (simp add: step_all_quotes_append True st)
    show ?thesis
    proof (cases live)
      case None
      note ih = 1(1-3) [OF True st [symmetric] None, unfolded add.assoc [symmetric]]
      show ?thesis
        using True st st' None ih
        by (subst (1 2) close_from.simps) (simp add: nth_append add.assoc [symmetric])
    next
      case (Some n)
      show ?thesis
        using True st st' Some 1(4) [OF True st [symmetric] Some]
        by (subst (1 2) close_from.simps) simp
    qed
  qed (simp add: close_from.simps)
qed

lemma matching_close_paren_append:
  "matching_close_paren (p @ t) (length p + i) = length p + matching_close_paren t i"
  by (simp add: matching_close_paren_def matching_close_def close_from_append)

lemma bodies_from_append: "bodies_from (p @ t) q (length p + i) = bodies_from t q i"
proof (induction t q i rule: bodies_from.induct)
  case (1 t q i)
  show ?case
  proof (cases "i < length t")
    case True
    obtain q' live where st: "step q t i = (q', live)" by fastforce
    have st': "step q (p @ t) (length p + i) = (q', map_option (\<lambda>n. length p + n) live)"
      by (simp add: step_append True st)
    have cap: "min (Suc (length p + k)) (length p + length t) = length p + min (Suc k) (length t)" for k
      by (simp add: min_def)
    show ?thesis
    proof (cases live)
      case None
      note ih = 1(1-3) [OF True st [symmetric] None]
      show ?thesis
        using True st st' None ih byte_at_append [of p t "i + 1"] find_char_append [of p t "i + 1"]
          slice_append [of p t "i + 1"] slice_append [of p t "i + 2"]
          matching_close_paren_append [of p t "i + 2"]
        by (subst (1 2) bodies_from.simps)
           (simp add: nth_append Let_def cap add.assoc [symmetric]
             del: byte_at_append find_char_append slice_append)
    next
      case (Some n)
      show ?thesis
        using True st st' Some 1(4) [OF True st [symmetric] Some]
        by (subst (1 2) bodies_from.simps) simp
    qed
  qed (simp add: bodies_from.simps)
qed

text \<open>What comes after the closing parenthesis does not move it.\<close>

definition starts_character :: "string \<Rightarrow> bool" where
  "starts_character s \<longleftrightarrow> s = [] \<or> \<not> is_continuation (hd s)"

lemma char_len_at_before:
  assumes "i \<le> length s" and c: "\<not> is_continuation c" and rest: "starts_character rest"
  shows "char_len_at (s @ c # rest) i = char_len_at (s @ [c]) i"
proof (cases "i = length s")
  case True
  with rest show ?thesis by (cases rest) (auto simp: char_len_at_def starts_character_def)
next
  case False
  with assms(1) have "Suc i \<le> length s" by simp
  then show ?thesis
    using c takeWhile_append2 [of "drop (Suc i) s" is_continuation]
    by (cases "\<forall>x \<in> set (drop (Suc i) s). is_continuation x")
       (auto simp: char_len_at_def takeWhile_append1)
qed

lemma step_all_quotes_before:
  assumes i: "i < length s" and c: "\<not> is_continuation c" "starts_character rest"
  shows "step_all_quotes q (s @ c # rest) i = step_all_quotes q (s @ [c]) i"
proof -
  have eqs: "consume q (s @ c # rest) i = consume q (s @ [c]) i"
    "(s @ c # rest) ! i = (s @ [c]) ! i"
    "char_len_at (s @ c # rest) i = char_len_at (s @ [c]) i"
    "char_len_at (s @ c # rest) (i + 1) = char_len_at (s @ [c]) (i + 1)"
    using i by (auto intro!: char_len_at_before c simp: consume_def byte_at_def nth_append Let_def)
  show ?thesis unfolding step_all_quotes_def advance_def eqs ..
qed

lemma step_all_quotes_at_paren:
  "step_all_quotes q (s @ CHR '')'' # rest) (length s) =
     (if quoted q then (q, Some (length s + char_len_at (s @ CHR '')'' # rest) (length s))) else (q, None))"
  by (auto simp: step_all_quotes_def advance_def consume_def close_on_def quoted_def nth_append Let_def)

lemma not_continuation_paren [simp]: "\<not> is_continuation CHR '')''"
  by (simp add: is_continuation_def)

lemma close_from_extend:
  assumes rest: "starts_character rest"
  shows "close_from (s @ [CHR '')'']) opener CHR '')'' depth q i = length s \<Longrightarrow> i \<le> length s \<Longrightarrow>
     close_from (s @ CHR '')'' # rest) opener CHR '')'' depth q i = length s"
proof (induction "s @ [CHR '')'']" opener "CHR '')''" depth q i rule: close_from.induct)
  case (1 opener depth q i)
  let ?t = "s @ [CHR '')'']" and ?u = "s @ CHR '')'' # rest"
  note ihs = 1(1-4) and closed = 1(5)
  have lt: "i < length ?t" "i < length ?u" using 1(6) by simp_all
  have nth: "?t ! i = ?u ! i" using 1(6) by (simp add: nth_append)
  have len: "char_len_at ?u i = char_len_at ?t i" by (rule char_len_at_before) (use 1(6) rest in auto)
  have st: "step_all_quotes q ?u i = step_all_quotes q ?t i"
  proof (cases "i < length s")
    case False
    with 1(6) have "i = length s" by simp
    with len show ?thesis
      using step_all_quotes_at_paren [of q s rest] step_all_quotes_at_paren [of q s "[]"] by simp
  qed (rule step_all_quotes_before, use rest in auto)
  have bound: "j \<le> length s" if "close_from ?t opener CHR '')'' d r j = length s" for d r j
    using close_from_bounds [of ?t opener "CHR '')''" d r j] that by (simp add: min_def split: if_splits)
  obtain q' live where live: "step_all_quotes q ?t i = (q', live)" by fastforce
  show ?case
  proof (cases live)
    case None
    let ?j = "i + char_len_at ?t i"
    have ih: "close_from ?u opener CHR '')'' d q' ?j = length s"
      if "close_from ?t opener CHR '')'' d q' ?j = length s"
        "?t ! i = opener \<and> d = depth + 1 \<or>
         ?t ! i \<noteq> opener \<and> ?t ! i = CHR '')'' \<and> depth - 1 \<noteq> 0 \<and> d = depth - 1 \<or>
         ?t ! i \<noteq> opener \<and> ?t ! i \<noteq> CHR '')'' \<and> d = depth" for d
      using that(2) ihs(1-3) [OF lt(1) live [symmetric] None] that(1) bound [OF that(1)] by blast
    have unroll: "close_from ?t opener CHR '')'' depth q i =
        (if ?t ! i = opener then close_from ?t opener CHR '')'' (depth + 1) q' ?j
         else if ?t ! i = CHR '')'' then
           (if depth - 1 = 0 then i else close_from ?t opener CHR '')'' (depth - 1) q' ?j)
         else close_from ?t opener CHR '')'' depth q' ?j)"
      using lt(1) by (subst close_from.simps) (simp add: live None)
    have "close_from ?u opener CHR '')'' depth q i =
        (if ?t ! i = opener then close_from ?u opener CHR '')'' (depth + 1) q' ?j
         else if ?t ! i = CHR '')'' then
           (if depth - 1 = 0 then i else close_from ?u opener CHR '')'' (depth - 1) q' ?j)
         else close_from ?u opener CHR '')'' depth q' ?j)"
      using lt(2) by (subst close_from.simps) (simp add: st live None nth len)
    then show ?thesis
      using closed ih [of "depth + 1"] ih [of "depth - 1"] ih [of depth]
      unfolding unroll by (auto split: if_splits)
  next
    case (Some n)
    have "close_from ?t opener CHR '')'' depth q' n = length s"
      using 1(5) lt by (subst (asm) close_from.simps) (simp add: live Some)
    from 1(4) [OF lt(1) live [symmetric] Some this bound [OF this]] show ?thesis
      using lt by (subst close_from.simps) (simp add: st live Some)
  qed
qed

text \<open>A body that its closing parenthesis closes, whatever quotes and parentheses it holds.\<close>

definition closed_body :: "string \<Rightarrow> bool" where
  "closed_body body \<longleftrightarrow> matching_close_paren (body @ '')'') 0 = length body"

lemma matching_close_paren_closed:
  "closed_body body \<Longrightarrow> starts_character rest \<Longrightarrow>
     matching_close_paren (p @ body @ '')'' @ rest) (length p) = length p + length body"
  using matching_close_paren_append [of p "body @ '')'' @ rest" 0]
    close_from_extend [of rest body "CHR ''(''" 1 unquoted 0]
  by (simp add: closed_body_def matching_close_paren_def matching_close_def)

section \<open>Plain text\<close>

text \<open>Text in which no quote, escape, backtick or substitution sign appears, and a walk that may be
  inside double quotes, where substitutions still expand.\<close>

definition plain_text :: "string \<Rightarrow> bool" where
  "plain_text p \<longleftrightarrow> list_all (\<lambda>c. c \<notin> {squote, dquote, backslash, backtick, CHR ''$'', CHR ''<'', CHR ''>''}) p"

definition expanding :: "quote_state \<Rightarrow> bool" where
  "expanding q \<longleftrightarrow> \<not> in_single q \<and> \<not> in_ansi_c q"

lemma bodies_from_live:
  "i < length s \<Longrightarrow> step q s i = (q, None) \<Longrightarrow> s ! i \<notin> {backtick, CHR ''$'', CHR ''<'', CHR ''>''} \<Longrightarrow>
     bodies_from s q i = bodies_from s q (i + char_len_at s i)"
  by (subst bodies_from.simps) simp

lemma bodies_from_step:
  "i < length s \<Longrightarrow> step q s i = (q', Some n) \<Longrightarrow> bodies_from s q i = bodies_from s q' n"
  by (subst bodies_from.simps) simp

lemma bodies_from_plain:
  "plain_text p \<Longrightarrow> starts_character t \<Longrightarrow> expanding q \<Longrightarrow>
     bodies_from (p @ t) q 0 = bodies_from t q 0"
proof (induction "length p" arbitrary: p rule: less_induct)
  case less
  show ?case
  proof (cases p)
    case (Cons c cs)
    let ?n = "char_len_at (p @ t) 0"
    have n: "?n = Suc (length (takeWhile is_continuation cs))"
      using Cons less.prems(2) by (cases t; cases "\<forall>x \<in> set cs. is_continuation x")
        (auto simp: char_len_at_def starts_character_def takeWhile_append1 takeWhile_append2
          takeWhile_eq_all_conv [THEN iffD2])
    then have le: "?n \<le> length p" using Cons by (simp add: length_takeWhile_le)
    have "step q (p @ t) 0 = (q, None)"
      using less.prems Cons
      by (auto simp: step_def advance_def consume_def close_on_def expanding_def plain_text_def
          suppresses_expansion_def Let_def)
    then have "bodies_from (p @ t) q 0 = bodies_from (p @ t) q ?n"
      using bodies_from_live [of 0 "p @ t" q] Cons less.prems(1) by (simp add: plain_text_def)
    also have "\<dots> = bodies_from (take ?n p @ drop ?n p @ t) q (length (take ?n p) + 0)"
      using le by (simp add: min_absorb2 flip: append_assoc)
    also have "\<dots> = bodies_from (drop ?n p @ t) q 0" by (rule bodies_from_append)
    also have "\<dots> = bodies_from t q 0"
      using less.prems n Cons by (intro less.hyps) (auto simp: plain_text_def list_all_iff dest: in_set_dropD)
    finally show ?thesis .
  qed simp
qed

section \<open>The bodies found\<close>

abbreviation double_quoted :: quote_state where
  "double_quoted \<equiv> unquoted\<lparr>in_double := True\<rparr>"

lemma step_on_dquote [simp]:
  "step unquoted (dquote # t) 0 = (double_quoted, Some 1)"
  "step double_quoted (dquote # t) 0 = (unquoted, Some 1)"
  by (simp_all add: step_def advance_def consume_def close_on_def unquoted_def Let_def)

text \<open>Text before a substitution that leaves it live: plain text, or plain text, an opening double quote
  and plain text.\<close>

inductive live_after :: "string \<Rightarrow> quote_state \<Rightarrow> bool" where
  plain: "plain_text p \<Longrightarrow> live_after p unquoted"
| in_quotes: "plain_text p \<Longrightarrow> plain_text r \<Longrightarrow> live_after (p @ dquote # r) double_quoted"

lemma bodies_after_live:
  assumes "live_after p q" and t: "starts_character t"
  shows "substitution_bodies (p @ t) = bodies_from t q 0"
  using assms(1)
proof cases
  case plain
  then show ?thesis using t by (simp add: substitution_bodies_def bodies_from_plain expanding_def unquoted_def)
next
  case (in_quotes a r)
  have "bodies_from (a @ dquote # r @ t) unquoted 0 = bodies_from (dquote # r @ t) unquoted 0"
    using in_quotes by (intro bodies_from_plain)
      (auto simp: starts_character_def is_continuation_def expanding_def unquoted_def)
  also have "\<dots> = bodies_from ([dquote] @ (r @ t)) double_quoted (length [dquote] + 0)"
    by (subst bodies_from_step) auto
  also have "\<dots> = bodies_from (r @ t) double_quoted 0" by (rule bodies_from_append)
  also have "\<dots> = bodies_from t double_quoted 0"
    using in_quotes t by (intro bodies_from_plain) (auto simp: expanding_def unquoted_def)
  finally show ?thesis using in_quotes by (simp add: substitution_bodies_def)
qed

text \<open>The three openers, and what a live one yields.\<close>

lemma bodies_at_opener:
  assumes c: "c \<in> set ''$<>''" and closed: "closed_body body" "starts_character rest"
    and q: "q = unquoted \<or> q = double_quoted"
  shows "bodies_from (c # ''('' @ body @ '')'' @ rest) q 0 = body # bodies_from rest q 0"
proof -
  let ?s = "c # ''('' @ body @ '')'' @ rest"
  have st: "step q ?s 0 = (q, None)"
    using q
  proof
    assume "q = unquoted"
    then show ?thesis using c by (simp add: step_def advance_def consume_def unquoted_def byte_at_def
        suppresses_expansion_def Let_def) blast
  next
    assume "q = double_quoted"
    then show ?thesis using c by (simp add: step_def advance_def consume_def close_on_def unquoted_def
        suppresses_expansion_def Let_def) blast
  qed
  have stop: "matching_close_paren ?s (Suc (Suc 0)) = Suc (Suc (length body))"
    using matching_close_paren_closed [OF closed, of "[c, CHR ''('']"]
    by simp
  have live: "?s ! 0 \<in> set ''$<>''" "?s ! 0 \<noteq> backtick" "byte_at ?s (0 + 1) = Some CHR ''(''"
    using c by (auto simp: byte_at_def)
  have eq: "?s = (c # ''('' @ body @ '')'') @ rest" by simp
  have "bodies_from ?s q 0 = body # bodies_from ?s q (length (c # ''('' @ body @ '')'') + 0)"
    using st stop live
    by (subst bodies_from.simps) (simp add: slice_def Let_def numeral_2_eq_2 del: list.set)
  also have "bodies_from ?s q (length (c # ''('' @ body @ '')'') + 0) = bodies_from rest q 0"
    unfolding eq by (rule bodies_from_append)
  finally show ?thesis .
qed

lemma live_substitution_found:
  assumes "live_after p q" "c \<in> set ''$<>''" "closed_body body" "starts_character rest"
  shows "body \<in> set (substitution_bodies (p @ c # ''('' @ body @ '')'' @ rest))"
proof -
  have "q = unquoted \<or> q = double_quoted" using assms(1) by cases auto
  moreover have "starts_character (c # ''('' @ body @ '')'' @ rest)"
    using assms(2) by (auto simp: starts_character_def is_continuation_def)
  ultimately show ?thesis
    using bodies_after_live [OF assms(1)] bodies_at_opener [OF assms(2-4)] by simp
qed

text \<open>A single-quoted run hides what it holds, and nothing else.\<close>

abbreviation single_quoted :: quote_state where
  "single_quoted \<equiv> unquoted\<lparr>in_single := True\<rparr>"

lemma bodies_from_single_quoted:
  "squote \<notin> set r \<Longrightarrow> bodies_from (r @ squote # t) single_quoted 0 = bodies_from t unquoted 0"
proof (induction "length r" arbitrary: r rule: less_induct)
  case less
  show ?case
  proof (cases r)
    case Nil
    have "bodies_from (squote # t) single_quoted 0 = bodies_from ([squote] @ t) unquoted (length [squote] + 0)"
      by (subst bodies_from_step)
         (auto simp: step_def advance_def consume_def close_on_def backslash_escapes_def unquoted_def Let_def)
    also have "\<dots> = bodies_from t unquoted 0" by (rule bodies_from_append)
    finally show ?thesis using Nil by simp
  next
    case (Cons c cs)
    let ?s = "r @ squote # t" and ?n = "char_len_at (r @ squote # t) 0"
    have n: "?n = Suc (length (takeWhile is_continuation cs))"
      using Cons by (cases "\<forall>x \<in> set cs. is_continuation x")
        (auto simp: char_len_at_def takeWhile_append1 takeWhile_append2 is_continuation_def
          takeWhile_eq_all_conv [THEN iffD2])
    then have le: "?n \<le> length r" using Cons by (simp add: length_takeWhile_le)
    have "step single_quoted ?s 0 = (single_quoted, Some ?n)"
      using less.prems Cons
      by (auto simp: step_def advance_def consume_def close_on_def backslash_escapes_def
          suppresses_expansion_def Let_def)
    then have "bodies_from ?s single_quoted 0 = bodies_from ?s single_quoted ?n"
      using Cons by (intro bodies_from_step) auto
    also have "\<dots> = bodies_from (take ?n r @ drop ?n r @ squote # t) single_quoted (length (take ?n r) + 0)"
      using le by (simp add: min_absorb2 flip: append_assoc)
    also have "\<dots> = bodies_from (drop ?n r @ squote # t) single_quoted 0" by (rule bodies_from_append)
    also have "\<dots> = bodies_from t unquoted 0"
      using less.prems n Cons by (intro less.hyps) (auto dest: in_set_dropD)
    finally show ?thesis .
  qed
qed

lemma single_quotes_hide:
  assumes "plain_text p" "squote \<notin> set r"
  shows "substitution_bodies (p @ squote # r @ squote # t) = substitution_bodies t"
proof -
  have "substitution_bodies (p @ squote # r @ squote # t) = bodies_from (squote # r @ squote # t) unquoted 0"
    using assms(1) by (intro bodies_after_live live_after.plain)
      (auto simp: starts_character_def is_continuation_def)
  also have "\<dots> = bodies_from ([squote] @ r @ squote # t) single_quoted (length [squote] + 0)"
    by (subst bodies_from_step)
       (auto simp: step_def advance_def consume_def close_on_def unquoted_def byte_at_def Let_def)
  also have "\<dots> = bodies_from (r @ squote # t) single_quoted 0" by (rule bodies_from_append)
  also have "\<dots> = substitution_bodies t"
    using assms(2) by (simp add: bodies_from_single_quoted substitution_bodies_def)
  finally show ?thesis .
qed

section \<open>Quoting and decoding\<close>

text \<open>A way of writing a quote inside a single-quoted word: the run is closed, \<open>escape\<close> stands for the
  quote, and a new run opens. The decoder must read \<open>escape\<close> as one quote.\<close>

lemma position_first: "c \<notin> set u \<Longrightarrow> position (\<lambda>d. d = c) (u @ c # z) = Some (length u)"
  by (induction u) auto

lemma split_at_char:
  obtains u r where "t = u @ r" "c \<notin> set u" "r = [] \<or> (\<exists>v. r = c # v)"
  using split_list_first [of c t] by (cases "c \<in> set t") auto

locale single_quoting =
  fixes escape :: string
  assumes escape_read:
    "operand_from (p @ escape @ squote # v) word (length p) =
     operand_from (p @ escape @ squote # v) (word @ [squote]) (length p + length escape)"
begin

definition inner :: "string \<Rightarrow> string" where
  "inner t = concat (map (\<lambda>c. if c = squote then squote # escape @ [squote] else [c]) t)"

lemma inner_plain: "squote \<notin> set u \<Longrightarrow> inner (u @ v) = u @ inner v"
  by (induction u) (auto simp: inner_def)

lemma inner_quote: "inner (squote # v) = squote # escape @ squote # inner v"
  by (simp add: inner_def)

lemma decode_run:
  "operand_from (p @ squote # inner t @ [squote]) word (length p) =
     (word @ t, length (p @ squote # inner t @ [squote]))"
proof (induction "length t" arbitrary: t p word rule: less_induct)
  case less
  obtain u r where t: "t = u @ r" and u: "squote \<notin> set u" and r: "r = [] \<or> (\<exists>v. r = squote # v)"
    by (rule split_at_char)
  have run: "operand_from (p @ squote # u @ squote # z) word (length p) =
      operand_from (p @ squote # u @ squote # z) (word @ u) (length (p @ squote # u @ [squote]))" for z
  proof -
    have "find_char (p @ squote # u @ squote # z) (length p + 1) squote = length p + 1 + length u"
      by (simp add: find_char_def position_first [OF u])
    then show ?thesis by (subst operand_from.simps) (simp add: nth_append Let_def slice_def)
  qed
  from r show ?case
  proof
    assume "r = []"
    then have "inner t = u" using inner_plain [OF u, of "[]"] t by (simp add: inner_def)
    with run [of "[]"] t \<open>r = []\<close> show ?thesis by (subst (asm) (2) operand_from.simps) simp
  next
    assume "\<exists>v. r = squote # v"
    then obtain v where v: "t = u @ squote # v" using t by blast
    let ?p = "p @ squote # u @ [squote]" and ?z = "inner v @ [squote]"
    let ?s = "p @ squote # inner t @ [squote]"
    have s: "?s = p @ squote # u @ squote # escape @ squote # ?z" "?s = ?p @ escape @ squote # ?z"
      "?s = (?p @ escape) @ squote # ?z"
      using inner_plain [OF u, of "squote # v"] by (simp_all add: v inner_quote)
    have "operand_from ?s word (length p) = operand_from ?s (word @ u) (length ?p)"
      unfolding s(1) by (rule run)
    also have "\<dots> = operand_from ?s (word @ u @ [squote]) (length (?p @ escape))"
      unfolding s(2) using escape_read [of ?p ?z "word @ u"] by (simp add: add.assoc)
    also have "\<dots> = ((word @ u @ [squote]) @ v, length ?s)"
      unfolding s(3) by (rule less) (simp add: v)
    finally show ?thesis by (simp add: v)
  qed
qed

end

text \<open>Both ways the engine writes a quote are read so.\<close>

lemma byte_after [simp]: "byte_at (p @ t) (Suc (length p + i)) = byte_at t (Suc i)"
  using byte_at_append [of p t "Suc i"] by (simp del: byte_at_append)

lemma char_at_quote:
  "char_at (p @ c # squote # d # t) (Suc (length p)) = [squote]"
  "char_len_at (p @ c # squote # d # t) (Suc (length p)) = 1" if "\<not> is_continuation d"
  using that by (auto simp: char_at_def char_len_at_def slice_def)

lemma ascii_quotes_start [simp]: "\<not> is_continuation squote" "\<not> is_continuation dquote"
  by (simp_all add: is_continuation_def)

interpretation prompt_quoting: single_quoting "[backslash, squote]"
proof
  fix p v word
  have "\<not> opens_ansi_c_run (p @ [backslash, squote] @ squote # v) (length p)"
    by (simp add: opens_ansi_c_run_def byte_at_def nth_append)
  then show "operand_from (p @ [backslash, squote] @ squote # v) word (length p) =
      operand_from (p @ [backslash, squote] @ squote # v) (word @ [squote])
        (length p + length [backslash, squote])"
    by (subst operand_from.simps) (simp add: nth_append Let_def char_at_quote)
qed

interpretation worktree_quoting: single_quoting "[dquote, squote, dquote]"
proof
  fix p v word
  let ?s = "p @ [dquote, squote, dquote] @ squote # v"
  have run: "double_quoted_from ?s word (length p + 1) = (word @ [squote], length p + 2)"
    by (subst double_quoted_from.simps, simp add: nth_append char_at_quote,
        subst double_quoted_from.simps, simp add: nth_append)
  show "operand_from ?s word (length p) =
      operand_from ?s (word @ [squote]) (length p + length [dquote, squote, dquote])"
    by (subst operand_from.simps) (use run in \<open>simp add: nth_append Let_def\<close>)
qed

lemma shell_single_quote_inner: "shell_single_quote t = squote # prompt_quoting.inner t @ [squote]"
  by (simp add: shell_single_quote_def prompt_quoting.inner_def cong: if_cong)

lemma worktree_single_quote_inner: "worktree_single_quote t = squote # worktree_quoting.inner t @ [squote]"
  by (simp add: worktree_single_quote_def worktree_quoting.inner_def cong: if_cong)

lemma operand_of_quoted:
  "split_shell_script_operand (shell_single_quote t) = (t, [])"
  "split_shell_script_operand (worktree_single_quote t) = (t, [])"
  using prompt_quoting.decode_run [of "[]" t "[]"] worktree_quoting.decode_run [of "[]" t "[]"]
  by (simp_all add: split_shell_script_operand_def shell_single_quote_inner worktree_single_quote_inner)

section \<open>The wrapped command line\<close>

lemma utf8_chars_append:
  "starts_character t \<Longrightarrow> utf8_chars (s @ t) = utf8_chars s @ utf8_chars t"
proof (induction s rule: utf8_chars.induct)
  case (2 c cs)
  have "takeWhile is_continuation (cs @ t) = takeWhile is_continuation cs \<and>
        dropWhile is_continuation (cs @ t) = dropWhile is_continuation cs @ t"
    using 2(2)
    by (cases t; cases "\<forall>x \<in> set cs. is_continuation x")
       (auto simp: starts_character_def takeWhile_append dropWhile_append dropWhile_eq_Nil_conv
         intro: takeWhile_eq_all_conv [THEN iffD2, symmetric])
  with 2 show ?case by simp
qed simp

lemma graphic_group_not_space: "graphic c \<Longrightarrow> c # cs \<notin> set white_space_chars"
  using graphic_code [of c] by (auto simp: white_space_chars_def)

lemma graphic_not_continuation: "graphic c \<Longrightarrow> \<not> is_continuation c"
  using graphic_code [of c] by (simp add: is_continuation_def)

lemma blank_is_space: "'' '' \<in> set white_space_chars"
  by (simp add: white_space_chars_def char_of_def bit_0)

lemma trim_start_graphic: "graphic c \<Longrightarrow> trim_start (c # s) = c # s"
  using graphic_group_not_space by (simp add: trim_start_def)

lemma trim_graphic_ends:
  assumes "graphic c" "graphic d"
  shows "trim ('' '' @ c # m @ [d]) = c # m @ [d]"
proof -
  let ?P = "\<lambda>g. g \<in> set white_space_chars" and ?q = "c # m @ [d]"
  have "utf8_chars ((c # m) @ [d]) = utf8_chars (c # m) @ utf8_chars [d]"
    using graphic_not_continuation [OF assms(2)]
    by (intro utf8_chars_append) (simp add: starts_character_def)
  then have "dropWhile ?P (rev (utf8_chars ?q)) = rev (utf8_chars ?q)"
    using graphic_group_not_space [OF assms(2)] by simp
  moreover have "dropWhile ?P (utf8_chars ?q) = utf8_chars ?q"
    using graphic_group_not_space [OF assms(1)] by simp
  moreover have "utf8_chars ('' '' @ ?q) = utf8_chars '' '' @ utf8_chars ?q"
    using graphic_not_continuation [OF assms(1)] by (intro utf8_chars_append) (simp add: starts_character_def)
  moreover have "utf8_chars '' '' = ['' '']" by simp
  ultimately show ?thesis using blank_is_space
    by (simp only: trim_def dropWhile.simps append.simps if_True rev_rev_ident concat_utf8_chars)
qed

text \<open>The words before a quoted script: the shell and its flag, ASCII and apart.\<close>

lemma split_groups_word:
  "list_all graphic w \<Longrightarrow> split_groups acc (map (\<lambda>c. [c]) w @ gs) = split_groups (acc @ w) gs"
  by (induction w arbitrary: acc) (simp_all add: graphic_group_not_space)

lemma utf8_chars_word:
  "list_all graphic w \<Longrightarrow> starts_character t \<Longrightarrow> utf8_chars (w @ t) = map (\<lambda>c. [c]) w @ utf8_chars t"
  by (simp add: utf8_chars_append graphic_ascii)

lemma split_whitespace_word:
  assumes "list_all graphic w" "w \<noteq> []" "starts_character t"
  shows "split_whitespace (w @ '' '' @ t) = w # split_groups [] (utf8_chars t)"
proof -
  have "utf8_chars ('' '' @ t) = '' '' # utf8_chars t"
    using utf8_chars_append [OF assms(3), of "'' ''"] by simp
  moreover have "starts_character ('' '' @ t)" by (simp add: starts_character_def is_continuation_def)
  ultimately show ?thesis
    using assms blank_is_space split_groups_word [of w "[]"] by (simp add: split_whitespace_def utf8_chars_word)
qed

lemma shell_word_facts:
  assumes "shell \<in> set guard_shells"
  shows "list_all graphic shell" "shell \<noteq> []" "\<not> is_assignment_word shell" "\<not> is_benign_prefix shell"
    "redirect_token_needs_target shell = None" "normalized_head shell = shell"
    "list_all (\<lambda>c. \<not> is_ascii_whitespace c) shell"
  using assms
  by (auto simp: guard_shells_def is_assignment_word_def split_once_def is_benign_prefix_def
      benign_prefix_words_def redirect_token_needs_target_def strip_prefix_def is_ascii_digit_def
      normalized_head_def trim_start_matches_def trim_matches_def trim_end_matches_def
      is_ascii_whitespace_def Let_def)

lemma shell_c_flag_facts:
  assumes "is_shell_c_flag flag"
  shows "list_all graphic flag" "flag \<noteq> []" "list_all (\<lambda>c. \<not> is_ascii_whitespace c) flag"
proof -
  obtain letters where flag: "flag = CHR ''-'' # letters" "list_all is_ascii_alphabetic letters"
    using assms by (auto simp: is_shell_c_flag_def strip_prefix_def prefix_def split: if_splits)
  have "graphic c \<and> \<not> is_ascii_whitespace c" if "is_ascii_alphabetic c" for c
    using that by (auto simp: graphic_iff is_ascii_alphabetic_def is_ascii_whitespace_def Let_def)
  with flag show "list_all graphic flag" "flag \<noteq> []" "list_all (\<lambda>c. \<not> is_ascii_whitespace c) flag"
    by (auto simp: list_all_iff is_ascii_whitespace_def)
qed

lemma shell_word_found:
  assumes "shell \<in> set guard_shells"
  shows "shell_token_index (shell # toks) = Some 0"
proof -
  note shell_word_facts [OF assms, simp]
  have "command_head_index (shell # toks) = 0"
    by (simp add: command_head_index_def head_from.simps)
  then show ?thesis
    using assms
    by (simp add: shell_token_index_def shell_token_from.simps [of _ 0] preamble_has_code_injecting_env_def)
qed

lemma no_tail_runs_nothing: "\<not> tail_runs_more_commands []"
  by (simp add: tail_runs_more_commands_def has_command_substitution_def substitution_bodies_def
      bodies_from.simps)

lemma takeWhile_word: "list_all P w \<Longrightarrow> \<not> P c \<Longrightarrow> takeWhile P (w @ c # t) = w"
  by (induction w) auto

lemma unwrap_wrapped:
  assumes shell: "shell \<in> set guard_shells" and flag: "is_shell_c_flag flag"
    and operand: "split_shell_script_operand (c # m @ [d]) = (script, [])" and ends: "graphic c" "graphic d"
  shows "unwrap_shell_command (shell @ '' '' @ flag @ '' '' @ c # m @ [d]) = script"
proof -
  let ?q = "c # m @ [d]"
  let ?s = "shell @ '' '' @ flag @ '' '' @ ?q"
  note sh = shell_word_facts [OF shell] and fl = shell_c_flag_facts [OF flag]
  have trimmed: "trim_start ?s = ?s"
    using sh(1,2) trim_start_graphic by (cases shell) auto
  have "starts_character (flag @ '' '' @ ?q)"
    using fl(1,2) graphic_not_continuation by (cases flag) (auto simp: starts_character_def)
  from split_whitespace_word [OF sh(1,2) this] shell_word_found [OF shell]
  have index: "shell_token_index (split_whitespace ?s) = Some 0" by simp
  have space: "is_ascii_whitespace CHR '' ''" by (simp add: is_ascii_whitespace_def)
  have word1: "takeWhile is_ascii_whitespace ?s = []"
      "takeWhile (\<lambda>c. \<not> is_ascii_whitespace c) ?s = shell"
    using sh(2,7) space takeWhile_word [OF sh(7), of "CHR '' ''"] by (cases shell; simp)+
  have word2: "takeWhile is_ascii_whitespace ('' '' @ flag @ '' '' @ ?q) = '' ''"
      "takeWhile (\<lambda>c. \<not> is_ascii_whitespace c) (flag @ '' '' @ ?q) = flag"
    using fl(2,3) space takeWhile_word [OF fl(3), of "CHR '' ''"] by (cases flag; simp)+
  have "unwrap_from ?s ?s 0 0 0 = unwrap_from ?s ?s 0 (length shell) 1"
    using sh(2) word1 by (subst unwrap_from.simps) (simp add: Let_def)
  also have "\<dots> = script"
    using word2 fl(2) flag trim_graphic_ends [OF ends, of m] operand no_tail_runs_nothing
    by (subst unwrap_from.simps) (simp add: Let_def slice_def)
  finally show ?thesis unfolding unwrap_shell_command_def Let_def trimmed index by simp
qed

end
