(* ===== verification/Command_Floor_Properties.thy ===== *)
theory Command_Floor_Properties
  imports Command_Floor Shell_Quote_Lemmas
begin

text \<open>
  What the catastrophic floor guarantees. A script the engine's own quoting wraps in a shell is judged as
  the bare script; a catastrophe nested in substitutions is refused down to the depth the code bounds; the
  recursive removal of the root is refused for exactly the heads the readings name; and the split into
  segments loses nothing and leaves no operator inside a segment.
\<close>

section \<open>Segments\<close>

text \<open>Segments and the separators between them, put back in order.\<close>

fun weave :: "string list \<Rightarrow> string list \<Rightarrow> string" where
  "weave [] seps = []"
| "weave (x # xs) [] = x"
| "weave (x # xs) (sep # seps) = x @ sep @ weave xs seps"

definition is_operator :: "char \<Rightarrow> bool" where
  "is_operator c \<longleftrightarrow> c \<in> set '';|&'' \<or> c = CHR 0x0A"

lemma match_separator_None: "match_separator (c # s) = None \<Longrightarrow> \<not> is_operator c"
  by (cases s) (auto simp: is_operator_def split: if_splits)

lemma split_segments_weave:
  "weave (split_segments acc s) (find_separators s) = acc @ s \<and>
     length (split_segments acc s) = Suc (length (find_separators s))"
proof (induction acc s rule: split_segments.induct)
  case (2 acc c s)
  show ?case
  proof (cases "match_separator (c # s)")
    case None
    with 2(1) show ?thesis by simp
  next
    case (Some sep)
    let ?rest = "drop (length sep) (c # s)"
    have "c # s = sep @ ?rest" using match_separator_drop [OF Some] by simp
    with 2(2) [OF Some] Some show ?thesis by (simp del: drop_Cons)
  qed
qed simp

lemma split_segments_no_operator:
  "list_all (\<lambda>c. \<not> is_operator c) acc \<Longrightarrow>
     list_all (list_all (\<lambda>c. \<not> is_operator c)) (split_segments acc s)"
proof (induction acc s rule: split_segments.induct)
  case (2 acc c s)
  show ?case
  proof (cases "match_separator (c # s)")
    case None
    with 2(1) 2(3) match_separator_None [OF None] show ?thesis by simp
  next
    case (Some sep)
    with 2(2) [OF Some] 2(3) Some show ?thesis by (simp del: drop_Cons)
  qed
qed simp

text \<open>Nothing of a command line is lost in the split: the segments with the separators between them
  are the line the guard cuts, there is one separator fewer than segments, and no control operator is left
  inside a segment, so every chained command is scanned as one of its own.\<close>

theorem segments_partition_the_line:
  "weave (command_segments u command) (segment_separators u command) = segmentable u command \<and>
   length (command_segments u command) = Suc (length (segment_separators u command)) \<and>
   list_all (list_all (\<lambda>c. \<not> is_operator c)) (command_segments u command)"
  using split_segments_weave [of "[]"] split_segments_no_operator [of "[]"]
  by (simp add: command_segments_def segment_separators_def)

section \<open>Recursive removal of the root\<close>

lemma find_map_None: "find_map f xs = None \<longleftrightarrow> (\<forall>x \<in> set xs. f x = None)"
  by (induction xs) (auto split: option.splits)

lemma set_candidates: "set (danger_head_candidates toks) = reading toks ` {at. head_at toks at}"
proof -
  have "{at. head_at toks at} \<subseteq> {..< length toks}"
    by (auto elim: head_at.cases)
  then have "finite {at. head_at toks at}" by (rule finite_subset) simp
  then show ?thesis
    using arg_cong [OF candidates_are_the_heads [of toks], of set_mset] by simp
qed

text \<open>C2. A segment is refused for removing the root exactly when one of the heads it could run, behind
  any assignments, redirects, grouping words, wrappers and wrapper options, is \<open>rm\<close> or \<open>chmod\<close> with a
  recursive flag and a root or home target after it; and the scan looks at each of those heads once.\<close>

theorem root_removal_is_refused_behind_any_head:
  "(catastrophic_rm_or_chmod segment \<noteq> None \<longleftrightarrow>
     (\<exists>at. head_at (split_whitespace segment) at \<and>
        normalized_head (split_whitespace segment ! at) \<in> {''rm'', ''chmod''} \<and>
        list_ex is_recursive_flag (drop (at + 1) (split_whitespace segment)) \<and>
        list_ex is_catastrophic_target (drop (at + 1) (split_whitespace segment)))) \<and>
   mset (danger_head_candidates (split_whitespace segment)) =
     image_mset (reading (split_whitespace segment)) (mset_set {at. head_at (split_whitespace segment) at})"
proof -
  let ?toks = "split_whitespace segment"
  have refuses: "rm_or_chmod_reason (reading ?toks at) \<noteq> None \<longleftrightarrow>
      normalized_head (?toks ! at) \<in> {''rm'', ''chmod''} \<and>
      list_ex is_recursive_flag (drop (at + 1) ?toks) \<and> list_ex is_catastrophic_target (drop (at + 1) ?toks)"
    for at
    by (simp add: rm_or_chmod_reason_def reading_def)
  have "catastrophic_rm_or_chmod segment \<noteq> None \<longleftrightarrow>
      (\<exists>at. head_at ?toks at \<and> rm_or_chmod_reason (reading ?toks at) \<noteq> None)"
    by (auto simp: catastrophic_rm_or_chmod_def find_map_None set_candidates)
  then show ?thesis by (simp only: refuses candidates_are_the_heads)
qed

section \<open>Substitutions\<close>

text \<open>A command \<open>n\<close> substitutions deep in a command: each level opens in plain or double-quoted text and
  is closed, and whatever follows is text of its own.\<close>

inductive inside :: "string \<Rightarrow> nat \<Rightarrow> string \<Rightarrow> bool" for c where
  here: "inside c 0 c"
| deeper: "inside c n body \<Longrightarrow> live_after p q \<Longrightarrow> opener \<in> set ''$<>'' \<Longrightarrow> closed_body body \<Longrightarrow>
    starts_character rest \<Longrightarrow> inside c (Suc n) (p @ opener # ''('' @ body @ '')'' @ rest)"

lemma refused_level: "level_reason u floor c \<noteq> None \<Longrightarrow> catastrophic_reason_at u floor c depth \<noteq> None"
  by (subst catastrophic_reason_at.simps) (auto simp: or_else_def)

lemma refused_body:
  "body \<in> set (substitution_bodies command) \<Longrightarrow> depth < max_substitution_depth \<Longrightarrow>
     catastrophic_reason_at u floor body (depth + 1) \<noteq> None \<Longrightarrow>
     catastrophic_reason_at u floor command depth \<noteq> None"
  using find_map_None [of "\<lambda>body. catastrophic_reason_at u floor body (depth + 1)" "substitution_bodies command"]
  by (subst catastrophic_reason_at.simps) (auto simp: or_else_def split: option.splits)

lemma refused_inside:
  "inside c n command \<Longrightarrow> level_reason u floor c \<noteq> None \<Longrightarrow> depth + n \<le> max_substitution_depth \<Longrightarrow>
     catastrophic_reason_at u floor command depth \<noteq> None"
proof (induction n command arbitrary: depth rule: inside.induct)
  case here
  then show ?case by (intro refused_level)
next
  case (deeper n body p q opener rest)
  from deeper.IH [of "depth + 1"] deeper.prems
  have reason: "catastrophic_reason_at u floor body (depth + 1) \<noteq> None" by simp
  have body: "body \<in> set (substitution_bodies (p @ opener # ''('' @ body @ '')'' @ rest))"
    by (rule live_substitution_found [OF deeper.hyps(2-5)])
  show ?case by (rule refused_body [OF body _ reason]) (use deeper.prems(2) in simp)
qed


definition ascii :: unicode where
  "ascii =
     \<lparr>decimal_digit = (\<lambda>g. length g = 1 \<and> is_ascii_digit (hd g)),
      word_char = (\<lambda>g. length g = 1 \<and> (is_ascii_alphanumeric (hd g) \<or> g = ''_''))\<rparr>"

lemma root_removal_refused: "level_reason ascii (\<lambda>_. None) ''rm -rf /'' \<noteq> None"
  by code_simp


section \<open>Wrapped scripts\<close>

text \<open>C5. A script quoted by either of the engine's own quoting functions and handed to a shell is decoded
  to the script itself, whatever bytes it holds, and the floor's verdict on the line is its verdict on the
  bare script.\<close>

theorem wrapped_scripts_are_read_whole:
  assumes "shell \<in> set guard_shells" "is_shell_c_flag flag"
    and "quote \<in> {shell_single_quote, worktree_single_quote}"
  shows "unwrap_shell_command (shell @ '' '' @ flag @ '' '' @ quote script) = script \<and>
    catastrophic_reason_for_command u floor (shell @ '' '' @ flag @ '' '' @ quote script) =
      catastrophic_reason u floor script"
proof -
  obtain m where m: "quote script = squote # m @ [squote]"
    using assms(3) shell_single_quote_inner worktree_single_quote_inner by blast
  have "split_shell_script_operand (squote # m @ [squote]) = (script, [])"
    using assms(3) operand_of_quoted [of script] unfolding m [symmetric] by blast
  from unwrap_wrapped [OF assms(1,2) this]
  have "unwrap_shell_command (shell @ '' '' @ flag @ '' '' @ quote script) = script"
    unfolding m by simp
  then show ?thesis by (simp add: catastrophic_reason_for_command_def)
qed

theorem wrapped_scripts_are_read_whole_witness:
  "unwrap_shell_command (''bash'' @ '' '' @ ''-lc'' @ '' '' @ shell_single_quote ''rm -rf /'') = ''rm -rf /'' \<and>
   catastrophic_reason_for_command ascii (\<lambda>_. None)
     (''bash'' @ '' '' @ ''-lc'' @ '' '' @ shell_single_quote ''rm -rf /'') =
     catastrophic_reason ascii (\<lambda>_. None) ''rm -rf /''"
  by (rule wrapped_scripts_are_read_whole) (simp add: guard_shells_def, code_simp, simp)

end
