(* ===== verification/Apply_All.thy ===== *)
theory Apply_All
  imports Prelude "HOL-Library.Sublist"
begin

text \<open>
  The progress of an Apply All batch (\<open>apply_all_batches.rs\<close>): the members in the order of the press, the
  one rule that starts the next, the parking of a member whose conflict a resolver or the landing lane
  owns, its single return to the queue, and the registry of the running batches.

  A registry is a \<open>HashMap\<close>, so an association list whose order nothing depends on. \<open>member_mut\<close> finds the
  first member with an id; an operation on it is \<open>update_first\<close>.
\<close>

named_theorems apply_all_simps \<open>the operations of an Apply All batch\<close>

section \<open>Members\<close>

datatype member_status = Queued | Applying | Resolving | Applied | Failed string

definition is_terminal :: "member_status \<Rightarrow> bool" where
  "is_terminal st = (case st of Applied \<Rightarrow> True | Failed _ \<Rightarrow> True | _ \<Rightarrow> False)"

record batch_member =
  member_change :: uuid
  status :: member_status
  requeued :: bool

datatype advance_step = Duplicate | Complete | Start uuid | Wait

record apply_failure =
  failed_change :: uuid
  failure_error :: string

text \<open>Whoever pressed the button is only passed on, so it is a \<open>nat\<close>.\<close>

record batch_progress =
  batch_id :: uuid
  batch_actor :: "nat option"
  members :: "batch_member list"

definition new_progress :: "uuid \<Rightarrow> uuid list \<Rightarrow> nat option \<Rightarrow> batch_progress" where
  "new_progress bid change_ids actor =
     \<lparr>batch_id = bid, batch_actor = actor,
      members = map (\<lambda>c. \<lparr>member_change = c, status = Queued, requeued = False\<rparr>) change_ids\<rparr>"

definition contains_change :: "batch_progress \<Rightarrow> uuid \<Rightarrow> bool" where
  "contains_change b c = list_ex (\<lambda>m. member_change m = c) (members b)"

definition find_member :: "batch_progress \<Rightarrow> uuid \<Rightarrow> batch_member option" where
  "find_member b c = find (\<lambda>m. member_change m = c) (members b)"

fun update_first :: "('a \<Rightarrow> bool) \<Rightarrow> ('a \<Rightarrow> 'a) \<Rightarrow> 'a list \<Rightarrow> 'a list" where
  "update_first P f [] = []"
| "update_first P f (x # xs) = (if P x then f x # xs else x # update_first P f xs)"

text \<open>Writing through \<open>member_mut\<close>.\<close>

definition set_member :: "uuid \<Rightarrow> (batch_member \<Rightarrow> batch_member) \<Rightarrow> batch_progress \<Rightarrow> batch_progress" where
  "set_member c f b = b\<lparr>members := update_first (\<lambda>m. member_change m = c) f (members b)\<rparr>"

section \<open>The batch\<close>

definition start_next :: "batch_progress \<Rightarrow> uuid option \<times> batch_progress" where
  "start_next b =
     (if list_ex (\<lambda>m. status m = Applying) (members b) then (None, b)
      else case find (\<lambda>m. status m = Queued) (members b) of
             None \<Rightarrow> (None, b)
           | Some m \<Rightarrow>
               (Some (member_change m),
                b\<lparr>members := update_first (\<lambda>m. status m = Queued) (\<lambda>m. m\<lparr>status := Applying\<rparr>) (members b)\<rparr>))"

definition is_complete :: "batch_progress \<Rightarrow> bool" where
  "is_complete b = list_all (\<lambda>m. is_terminal (status m)) (members b)"

definition advance_batch :: "batch_progress \<Rightarrow> advance_step \<times> batch_progress" where
  "advance_batch b =
     (if is_complete b then (Complete, b)
      else case start_next b of (next, b) \<Rightarrow> ((case next of None \<Rightarrow> Wait | Some c \<Rightarrow> Start c), b))"

definition park :: "uuid \<Rightarrow> batch_progress \<Rightarrow> advance_step \<times> batch_progress" where
  "park c b =
     (case find_member b c of
        Some m \<Rightarrow>
          if status m = Applying
          then advance_batch (set_member c (\<lambda>m. m\<lparr>status := Resolving\<rparr>) b) else (Duplicate, b)
      | None \<Rightarrow> (Duplicate, b))"

definition park_in_lane :: "uuid \<Rightarrow> batch_progress \<Rightarrow> advance_step \<times> batch_progress" where
  "park_in_lane c b =
     (case park c b of
        (adv, b) \<Rightarrow>
          (adv, if adv \<noteq> Duplicate then set_member c (\<lambda>m. m\<lparr>requeued := True\<rparr>) b else b))"

definition restore_laned :: "uuid \<Rightarrow> batch_progress \<Rightarrow> batch_progress" where
  "restore_laned c b =
     (case find_member b c of
        Some m \<Rightarrow>
          if status m = Queued
          then set_member c (\<lambda>m. m\<lparr>status := Resolving, requeued := True\<rparr>) b else b
      | None \<Rightarrow> b)"

definition restore_owned :: "uuid \<Rightarrow> bool \<Rightarrow> batch_progress \<Rightarrow> batch_progress" where
  "restore_owned c resolving b =
     (case position (\<lambda>m. member_change m = c) (members b) of
        None \<Rightarrow> b
      | Some index \<Rightarrow>
          if status (members b ! index) \<noteq> Queued then b
          else
            (let earliest_unparked =
                   \<not> list_ex (\<lambda>m. status m = Queued \<or> status m = Applying) (take index (members b));
                 set = (\<lambda>st. b\<lparr>members := (members b)[index := (members b ! index)\<lparr>status := st\<rparr>]\<rparr>)
             in if resolving then set Resolving
                else if earliest_unparked then set Applying else b))"

definition record_end :: "uuid \<Rightarrow> member_status \<Rightarrow> batch_progress \<Rightarrow> bool \<times> batch_progress" where
  "record_end c terminal b =
     (case find_member b c of
        Some m \<Rightarrow>
          if \<not> is_terminal (status m) then (True, set_member c (\<lambda>m. m\<lparr>status := terminal\<rparr>) b)
          else (False, b)
      | None \<Rightarrow> (False, b))"

definition record_applied :: "uuid \<Rightarrow> batch_progress \<Rightarrow> bool \<times> batch_progress" where
  "record_applied c b = record_end c Applied b"

definition record_failed :: "uuid \<Rightarrow> string \<Rightarrow> batch_progress \<Rightarrow> bool \<times> batch_progress" where
  "record_failed c err b = record_end c (Failed err) b"

definition concurrent_main_conflict :: string where
  "concurrent_main_conflict = ''New conflicts from concurrent main changes''"

definition is_concurrent_main_conflict :: "string \<Rightarrow> bool" where
  "is_concurrent_main_conflict err = sublist concurrent_main_conflict err"

text \<open>The terminal event of a member: \<open>Inr ()\<close> applied, \<open>Inl\<close> its error.\<close>

definition resolve_member ::
    "uuid \<Rightarrow> string + unit \<Rightarrow> batch_progress \<Rightarrow> advance_step \<times> batch_progress" where
  "resolve_member c result b =
     (case (case result of
              Inr _ \<Rightarrow> record_applied c b
            | Inl err \<Rightarrow>
                (case find_member b c of
                   Some m \<Rightarrow>
                     if status m = Resolving \<and> \<not> requeued m \<and> is_concurrent_main_conflict err
                     then (True, set_member c (\<lambda>m. m\<lparr>status := Queued, requeued := True\<rparr>) b)
                     else record_failed c err b
                 | None \<Rightarrow> record_failed c err b)) of
        (state_changed, b') \<Rightarrow> if state_changed then advance_batch b' else (Duplicate, b'))"

definition pending_members :: "batch_progress \<Rightarrow> uuid list" where
  "pending_members b = map member_change (filter (\<lambda>m. \<not> is_terminal (status m)) (members b))"

definition is_submitted :: "batch_progress \<Rightarrow> bool" where
  "is_submitted b = (\<not> list_ex (\<lambda>m. status m = Queued \<or> status m = Applying) (members b))"

definition applied_ids :: "batch_progress \<Rightarrow> uuid list" where
  "applied_ids b = map member_change (filter (\<lambda>m. status m = Applied) (members b))"

definition failure_of :: "batch_member \<Rightarrow> apply_failure option" where
  "failure_of m =
     (case status m of
        Failed err \<Rightarrow> Some \<lparr>failed_change = member_change m, failure_error = err\<rparr> | _ \<Rightarrow> None)"

definition failures :: "batch_progress \<Rightarrow> apply_failure list" where
  "failures b = List.map_filter failure_of (members b)"

record batch_snapshot =
  change_ids :: "uuid list"
  resolved_change_ids :: "uuid list"
  applying_change_ids :: "uuid list"
  resolving_change_ids :: "uuid list"

definition empty_snapshot :: batch_snapshot where
  "empty_snapshot =
     \<lparr>change_ids = [], resolved_change_ids = [], applying_change_ids = [], resolving_change_ids = []\<rparr>"

definition snapshot_member :: "batch_snapshot \<Rightarrow> batch_member \<Rightarrow> batch_snapshot" where
  "snapshot_member s m =
     (let s = s\<lparr>change_ids := change_ids s @ [member_change m]\<rparr> in
      case status m of
        Applied \<Rightarrow> s\<lparr>resolved_change_ids := resolved_change_ids s @ [member_change m]\<rparr>
      | Failed _ \<Rightarrow> s\<lparr>resolved_change_ids := resolved_change_ids s @ [member_change m]\<rparr>
      | Applying \<Rightarrow> s\<lparr>applying_change_ids := applying_change_ids s @ [member_change m]\<rparr>
      | Resolving \<Rightarrow> s\<lparr>resolving_change_ids := resolving_change_ids s @ [member_change m]\<rparr>
      | Queued \<Rightarrow> s)"

definition snapshot_into :: "batch_snapshot \<Rightarrow> batch_progress \<Rightarrow> batch_snapshot" where
  "snapshot_into s b = foldl snapshot_member s (members b)"

section \<open>The registry\<close>

type_synonym apply_all_registry = "(uuid \<times> batch_progress) list"

definition registry_insert :: "batch_progress \<Rightarrow> apply_all_registry \<Rightarrow> apply_all_registry" where
  "registry_insert b reg = hm_insert (batch_id b) b reg"

definition registry_remove :: "uuid \<Rightarrow> apply_all_registry \<Rightarrow> batch_progress option \<times> apply_all_registry" where
  "registry_remove bid reg = (hm_get reg bid, hm_remove bid reg)"

definition batch_for_change :: "apply_all_registry \<Rightarrow> uuid \<Rightarrow> uuid option" where
  "batch_for_change reg c = map_option fst (find (\<lambda>(bid, b). contains_change b c) reg)"

definition not_in_any_batch :: "apply_all_registry \<Rightarrow> uuid list \<Rightarrow> uuid list" where
  "not_in_any_batch reg ids = filter (\<lambda>c. batch_for_change reg c = None) ids"

definition registry_snapshot :: "apply_all_registry \<Rightarrow> batch_snapshot option" where
  "registry_snapshot reg =
     (if reg = [] then None else Some (foldl (\<lambda>s e. snapshot_into s (snd e)) empty_snapshot reg))"

end
