(* ===== verification/Apply_All_Driver.thy ===== *)
theory Apply_All_Driver
  imports Apply_All Apply_Claims
begin

text \<open>
  The driver of Apply All (\<open>apply_all_driver.rs\<close>): a press, the messages that advance a batch, the
  cancel, and the recovery at boot.

  Each handler runs under the registry lock, so it is a function of the registry that returns the new one
  and its effects in order. What a handler reads from the database or from another subsystem (the stored
  change, the lane's events, a session's state, the verdict of \<open>apply_change\<close>) is a field of
  \<open>apply_env\<close>; a read that can fail is a sum. A failed durable write of the batch row is logged and
  changes nothing else, so it is an effect without an answer, as in the code.
\<close>

section \<open>What the driver reads\<close>

record change_row =
  change_id :: uuid
  change_thread :: "uuid option"
  branch_name :: string
  file_count :: int
  change_state :: change_status

definition is_pending :: "change_row \<Rightarrow> bool" where
  "is_pending r = (change_state r = ChPending)"

definition is_empty_pending_change :: "change_row \<Rightarrow> bool" where
  "is_empty_pending_change r = (is_pending r \<and> file_count r = 0)"

definition drop_empty_changes :: "change_row list \<Rightarrow> change_row list" where
  "drop_empty_changes rs = filter (\<lambda>r. \<not> is_empty_pending_change r) rs"

definition drop_applying_changes :: "change_row list \<Rightarrow> uuid list \<Rightarrow> change_row list" where
  "drop_applying_changes rs applying = filter (\<lambda>r. change_id r \<notin> set applying) rs"

datatype apply_status = StApplied | StNoop | StHardening | StConflict | StQueued

record apply_env =
  change_by_id :: "uuid \<Rightarrow> string + change_row option"
  unsettled_threads :: "uuid list \<Rightarrow> string + uuid list"
  apply_change :: "uuid \<Rightarrow> string + apply_status"
  lane_held :: "uuid list \<Rightarrow> string + uuid list"
  agent_running :: "uuid \<Rightarrow> bool"
  resume_queued :: "uuid \<Rightarrow> bool"
  pairing_open :: "uuid \<Rightarrow> uuid \<Rightarrow> bool option"
  cancel_lane_members :: "uuid list \<Rightarrow> uuid list"
  list_pending :: "string + change_row list"
  apply_ready :: "change_row list \<Rightarrow> string + change_row list"
  sweep_arms :: "uuid list \<Rightarrow> nat"

datatype drive_msg =
  MsgApplied uuid | MsgFailed uuid string | MsgParked uuid | MsgLaned uuid

fun msg_change :: "drive_msg \<Rightarrow> uuid" where
  "msg_change (MsgApplied c) = c"
| "msg_change (MsgFailed c err) = c"
| "msg_change (MsgParked c) = c"
| "msg_change (MsgLaned c) = c"

datatype drive_effect =
  BatchStarted uuid "uuid list" "nat option"
| PersistBatch uuid "uuid list" "nat option"
| OpenLanePress uuid
| SubmitLanePress uuid
| SpawnMember uuid "nat option"
| BatchCompleted uuid "uuid list" "apply_failure list"
| RemoveBatchRow uuid
| InterruptAgent uuid
| CancelLane "uuid list"
| ChangesUpdated

section \<open>One member's apply\<close>

definition withdrawn_member_reason :: string where
  "withdrawn_member_reason = ''Change was set aside, discarded or removed before the batch finished''"

definition member_thread_unsettled :: string where
  "member_thread_unsettled =
     ''Its thread was working again when its turn in the batch '' @
     ''came. Apply it once the thread settles.''"

definition member_settle_unknown :: string where
  "member_settle_unknown =
     ''Lucidos could not check whether its thread had settled, so '' @
     ''it was not applied. Apply it again.''"

definition member_empty :: string where
  "member_empty = ''It has no file changes left.''"

definition batch_member_skip_reason :: "change_row \<Rightarrow> bool \<Rightarrow> string option" where
  "batch_member_skip_reason r thread_unsettled =
     (if \<not> is_pending r then None
      else if thread_unsettled then Some member_thread_unsettled
      else if is_empty_pending_change r then Some member_empty
      else None)"

definition batch_member_refusal :: "apply_env \<Rightarrow> uuid \<Rightarrow> string option" where
  "batch_member_refusal env c =
     (case change_by_id env c of
        Inr (Some r) \<Rightarrow>
          (case unsettled_threads env (case change_thread r of None \<Rightarrow> [] | Some t \<Rightarrow> [t]) of
             Inr ids \<Rightarrow>
               batch_member_skip_reason r
                 (case change_thread r of None \<Rightarrow> False | Some t \<Rightarrow> t \<in> set ids)
           | Inl e \<Rightarrow> Some member_settle_unknown)
      | _ \<Rightarrow> None)"

text \<open>The messages \<open>apply_batch_member\<close> sends for the result of \<open>apply_change\<close>, and the whole background
  task of a member. What \<open>apply_change\<close> itself reports arrives as messages of its own.\<close>

definition member_reports :: "uuid \<Rightarrow> string + apply_status \<Rightarrow> drive_msg list" where
  "member_reports c result =
     (case result of
        Inr StNoop \<Rightarrow> [MsgApplied c]
      | Inr StConflict \<Rightarrow> [MsgParked c]
      | Inr _ \<Rightarrow> []
      | Inl e \<Rightarrow> [MsgFailed c e])"

definition spawn_batch_member :: "apply_env \<Rightarrow> uuid \<Rightarrow> drive_msg list" where
  "spawn_batch_member env c =
     (case batch_member_refusal env c of
        Some reason \<Rightarrow> [MsgFailed c reason]
      | None \<Rightarrow> member_reports c (apply_change env c))"

section \<open>A press\<close>

definition start_apply_all_batch ::
    "uuid \<Rightarrow> uuid list \<Rightarrow> nat option \<Rightarrow> apply_all_registry
     \<Rightarrow> (uuid \<times> uuid list) option \<times> apply_all_registry \<times> drive_effect list" where
  "start_apply_all_batch fresh ids actor reg =
     (let ids = not_in_any_batch reg ids in
      if ids = [] then (None, reg, [])
      else
        (let progress = snd (start_next (new_progress fresh ids actor))
         in (Some (fresh, ids), registry_insert progress reg,
             [BatchStarted fresh ids actor, PersistBatch fresh ids actor, OpenLanePress fresh])))"

text \<open>\<open>drop_changes_already_applying\<close>: the claims are those of \<open>Apply_Claims\<close>. The dropped ids come out of
  a \<open>HashSet\<close>, so they are listed once each, in no particular order.\<close>

definition drop_changes_already_applying ::
    "apply_env \<Rightarrow> uuid set \<Rightarrow> apply_claims \<Rightarrow> change_row list \<Rightarrow> string + change_row list \<times> uuid list" where
  "drop_changes_already_applying env flags claims rs =
     (let ids = map change_id rs in
      case lane_held env ids of
        Inl e \<Rightarrow> Inl e
      | Inr in_lane \<Rightarrow>
          (let applying = remdups (in_lane @ filter (\<lambda>c. is_held flags c claims) ids);
               kept = drop_applying_changes rs applying
           in Inr (kept, filter (\<lambda>c. c \<notin> change_id ` set kept) applying)))"

datatype apply_all_outcome =
  Started uuid nat nat string "string + apply_status"
| NothingToApply nat nat nat nat

text \<open>\<open>run_apply_all\<close>. The press applies its first member itself; the reports of that apply are messages
  for the driver. The first member is one of the pending changes, so the lookup succeeds.\<close>

definition run_apply_all ::
    "apply_env \<Rightarrow> uuid set \<Rightarrow> apply_claims \<Rightarrow> uuid \<Rightarrow> nat option \<Rightarrow> bool \<Rightarrow> apply_all_registry
     \<Rightarrow> (string + apply_all_outcome) \<times> apply_all_registry \<times> drive_effect list \<times> drive_msg list" where
  "run_apply_all env flags claims fresh actor keep_going reg =
     (case list_pending env of
        Inl e \<Rightarrow> (Inl e, reg, [], [])
      | Inr all_pending \<Rightarrow>
     (case apply_ready env all_pending of
        Inl e \<Rightarrow> (Inl e, reg, [], [])
      | Inr ready \<Rightarrow>
     (case drop_changes_already_applying env flags claims ready of
        Inl e \<Rightarrow> (Inl e, reg, [], [])
      | Inr (ready', already_applying) \<Rightarrow>
          (let not_ready = length all_pending - length ready;
               pending = drop_empty_changes ready';
               ids = map change_id pending;
               armed = (if keep_going then sweep_arms env (ids @ already_applying) else 0)
           in case start_apply_all_batch fresh ids actor reg of
                (None, reg, es) \<Rightarrow>
                  (Inr (NothingToApply (length all_pending) not_ready (length already_applying) armed),
                   reg, es, [])
              | (Some (bid, started), reg, es) \<Rightarrow>
                  (case find (\<lambda>r. change_id r = hd started) pending of
                     None \<Rightarrow> (Inl ''a batch member is one of the pending changes'', reg, es, [])
                   | Some first \<Rightarrow>
                       (let result = apply_change env (change_id first)
                        in (Inr (Started bid (length started) armed (branch_name first) result), reg, es,
                            member_reports (change_id first) result)))))))"

section \<open>Advancing\<close>

definition batch_step :: "drive_msg \<Rightarrow> batch_progress \<Rightarrow> advance_step \<times> batch_progress" where
  "batch_step msg b =
     (case msg of
        MsgApplied c \<Rightarrow> resolve_member c (Inr ()) b
      | MsgFailed c err \<Rightarrow> resolve_member c (Inl err) b
      | MsgParked c \<Rightarrow> park c b
      | MsgLaned c \<Rightarrow> park_in_lane c b)"

definition advance_apply_all_batch ::
    "drive_msg \<Rightarrow> apply_all_registry \<Rightarrow> apply_all_registry \<times> drive_effect list" where
  "advance_apply_all_batch msg reg =
     (case batch_for_change reg (msg_change msg) of
        None \<Rightarrow> (reg, [])
      | Some bid \<Rightarrow>
     (case hm_get reg bid of
        None \<Rightarrow> (reg, [])
      | Some b \<Rightarrow>
          (case batch_step msg b of
             (adv, b') \<Rightarrow>
               (let reg' = hm_insert bid b' reg;
                    submit = (if is_submitted b' then [SubmitLanePress bid] else [])
                in case adv of
                     Duplicate \<Rightarrow> (reg', [])
                   | Wait \<Rightarrow> (reg', submit @ [ChangesUpdated])
                   | Complete \<Rightarrow>
                       (hm_remove bid reg',
                        submit @ [BatchCompleted bid (applied_ids b') (failures b'), RemoveBatchRow bid,
                                  ChangesUpdated])
                   | Start c \<Rightarrow>
                       (reg', submit @ [SpawnMember c (batch_actor b'), ChangesUpdated])))))"

section \<open>Cancel\<close>

definition cancel_batch :: "batch_progress \<Rightarrow> batch_progress" where
  "cancel_batch b =
     foldl (\<lambda>b c. snd (record_failed c ''Apply All canceled'' b)) b (pending_members b)"

definition interrupts :: "apply_env \<Rightarrow> uuid list \<Rightarrow> drive_effect list" where
  "interrupts env ids =
     concat (map (\<lambda>c. case change_by_id env c of
                        Inr (Some r) \<Rightarrow>
                          (case change_thread r of
                             Some t \<Rightarrow> if agent_running env t then [InterruptAgent t] else []
                           | None \<Rightarrow> [])
                      | _ \<Rightarrow> []) ids)"

definition cancel_apply_all_batches ::
    "apply_env \<Rightarrow> apply_all_registry \<Rightarrow> nat \<times> apply_all_registry \<times> drive_effect list" where
  "cancel_apply_all_batches env reg =
     (let pendings = map (\<lambda>(bid, b). pending_members b) reg;
          finals = map (\<lambda>(bid, b). cancel_batch b) reg
      in if finals = [] then (0, [], [])
         else
           (let in_lane = cancel_lane_members env (concat pendings)
            in (length finals, [],
                CancelLane (concat pendings) # map (\<lambda>b. SubmitLanePress (batch_id b)) finals @
                interrupts env (filter (\<lambda>c. c \<notin> set in_lane) (concat pendings)) @
                concat (map (\<lambda>b. [BatchCompleted (batch_id b) (applied_ids b) (failures b),
                                  RemoveBatchRow (batch_id b)]) finals) @
                [ChangesUpdated])))"

section \<open>Recovery\<close>

datatype recovered_member = RmApplied | RmPending | RmTerminal

fun classify_recovered_member :: "change_status option \<Rightarrow> recovered_member" where
  "classify_recovered_member (Some ChApplied) = RmApplied"
| "classify_recovered_member (Some ChPending) = RmPending"
| "classify_recovered_member _ = RmTerminal"

datatype recovered_drive = Drive | WaitForSession | WaitForResume

definition decide_recovered_drive :: "bool \<Rightarrow> bool \<Rightarrow> bool option \<Rightarrow> recovered_drive" where
  "decide_recovered_drive session_running resume resolution_open =
     (if session_running then WaitForSession
      else if resume \<and> resolution_open \<noteq> Some False then WaitForResume
      else Drive)"

definition owner_is_resolving :: "recovered_drive \<Rightarrow> bool option \<Rightarrow> bool option" where
  "owner_is_resolving decision resolution_open =
     (case decision of
        Drive \<Rightarrow> None
      | WaitForResume \<Rightarrow> Some True
      | WaitForSession \<Rightarrow> Some (resolution_open = Some True))"

definition recovered_owner :: "apply_env \<Rightarrow> uuid \<Rightarrow> bool option" where
  "recovered_owner env c =
     (case change_by_id env c of
        Inr (Some r) \<Rightarrow>
          (case change_thread r of
             None \<Rightarrow> None
           | Some t \<Rightarrow>
               (let running = agent_running env t; resume = resume_queued env t;
                    resolution = (if resume \<or> running then pairing_open env t c else None)
                in owner_is_resolving (decide_recovered_drive running resume resolution) resolution))
      | _ \<Rightarrow> None)"

definition recover_member :: "apply_env \<Rightarrow> batch_progress \<Rightarrow> uuid \<Rightarrow> batch_progress" where
  "recover_member env b c =
     (let st = (case change_by_id env c of
                  Inr (Some r) \<Rightarrow> Some (change_state r)
                | Inr None \<Rightarrow> None
                | Inl e \<Rightarrow> Some ChPending)
      in case classify_recovered_member st of
           RmApplied \<Rightarrow> snd (record_applied c b)
         | RmPending \<Rightarrow> b
         | RmTerminal \<Rightarrow> snd (record_failed c withdrawn_member_reason b))"

definition restore_owner :: "apply_env \<Rightarrow> uuid list \<Rightarrow> batch_progress \<Rightarrow> uuid \<Rightarrow> batch_progress" where
  "restore_owner env laned b c =
     (if c \<in> set laned then restore_laned c b
      else case recovered_owner env c of
             Some resolving \<Rightarrow> restore_owned c resolving b
           | None \<Rightarrow> b)"

definition rebuilt_batch :: "apply_env \<Rightarrow> uuid \<times> uuid list \<times> nat option \<Rightarrow> batch_progress" where
  "rebuilt_batch env row =
     (case row of (bid, ids, actor) \<Rightarrow> foldl (recover_member env) (new_progress bid ids actor) ids)"

definition recover_batch_row ::
    "apply_env \<Rightarrow> apply_all_registry \<Rightarrow> uuid \<times> uuid list \<times> nat option
     \<Rightarrow> apply_all_registry \<times> drive_effect list" where
  "recover_batch_row env reg row =
     (let b = rebuilt_batch env row; bid = fst row; actor = snd (snd row) in
      if is_complete b then
        (reg, [BatchCompleted bid (applied_ids b) (failures b), RemoveBatchRow bid, ChangesUpdated])
      else
        (case lane_held env (pending_members b) of
           Inl e \<Rightarrow> (reg, [])
         | Inr laned \<Rightarrow>
             (case start_next (foldl (restore_owner env laned) b (pending_members b)) of
                (next, b) \<Rightarrow>
                  (registry_insert b reg,
                   case next of None \<Rightarrow> [] | Some c \<Rightarrow> [SpawnMember c actor]))))"

fun recover_apply_all_batches ::
    "apply_env \<Rightarrow> apply_all_registry \<Rightarrow> (uuid \<times> uuid list \<times> nat option) list
     \<Rightarrow> apply_all_registry \<times> drive_effect list" where
  "recover_apply_all_batches env reg [] = (reg, [])"
| "recover_apply_all_batches env reg (row # rows) =
     (case recover_batch_row env reg row of
        (reg, es) \<Rightarrow>
          (case recover_apply_all_batches env reg rows of (reg, later) \<Rightarrow> (reg, es @ later)))"

text \<open>\<open>recoverable_batches\<close>: the rows boot may reconstruct. Behind a snapshot boundary a press that began
  before it is completed as failed and its row removed; every step can fail, and then boot admits none.\<close>

record boundary_env =
  boundary_sequence :: "int option"
  first_started :: "uuid \<Rightarrow> string + int option"
  completed_before :: "uuid \<Rightarrow> string + bool"
  applied_among :: "uuid list \<Rightarrow> string + uuid list"
  emit_completed :: "uuid \<Rightarrow> string + unit"
  delete_row :: "uuid \<Rightarrow> string + unit"

definition restored_reason :: string where
  "restored_reason = ''Workspace restored from snapshot; apply this change again.''"

definition end_archived ::
    "boundary_env \<Rightarrow> uuid \<times> uuid list \<times> nat option \<Rightarrow> drive_effect list \<times> (string + unit)" where
  "end_archived benv row =
     (let bid = fst row; ids = fst (snd row);
          remove = (case delete_row benv bid of Inl e \<Rightarrow> ([], Inl e) | Inr _ \<Rightarrow> ([RemoveBatchRow bid], Inr ()))
      in case completed_before benv bid of
           Inl e \<Rightarrow> ([], Inl e)
         | Inr True \<Rightarrow> remove
         | Inr False \<Rightarrow>
             (case applied_among benv ids of
                Inl e \<Rightarrow> ([], Inl e)
              | Inr applied \<Rightarrow>
                  (case emit_completed benv bid of
                     Inl e \<Rightarrow> ([], Inl e)
                   | Inr _ \<Rightarrow>
                       (BatchCompleted bid applied
                          (map (\<lambda>c. \<lparr>failed_change = c, failure_error = restored_reason\<rparr>)
                            (filter (\<lambda>c. c \<notin> set applied) ids)) # fst remove,
                        snd remove))))"

fun admit_rows ::
    "boundary_env \<Rightarrow> int \<Rightarrow> (uuid \<times> uuid list \<times> nat option) list
     \<Rightarrow> drive_effect list \<times> (string + (uuid \<times> uuid list \<times> nat option) list)" where
  "admit_rows benv seq [] = ([], Inr [])"
| "admit_rows benv seq (row # rows) =
     (case first_started benv (fst row) of
        Inl e \<Rightarrow> ([], Inl e)
      | Inr first \<Rightarrow>
          if (case first of None \<Rightarrow> False | Some s \<Rightarrow> seq < s)
          then (case admit_rows benv seq rows of (es, rest) \<Rightarrow> (es, map_sum id (Cons row) rest))
          else (case end_archived benv row of
                  (es, Inl e) \<Rightarrow> (es, Inl e)
                | (es, Inr _) \<Rightarrow>
                    (case admit_rows benv seq rows of (later, rest) \<Rightarrow> (es @ later, rest))))"

definition recoverable_batches ::
    "boundary_env \<Rightarrow> (uuid \<times> uuid list \<times> nat option) list
     \<Rightarrow> drive_effect list \<times> (string + (uuid \<times> uuid list \<times> nat option) list)" where
  "recoverable_batches benv rows =
     (case boundary_sequence benv of None \<Rightarrow> ([], Inr rows) | Some seq \<Rightarrow> admit_rows benv seq rows)"

end
