(* ===== verification/Apply_All_Lemmas.thy ===== *)
theory Apply_All_Lemmas
  imports Apply_All_Driver "HOL-Library.Multiset"
begin

text \<open>
  How a batch moves. Every message a batch takes in either changes nothing or moves one member along its
  life and then applies the one rule that starts the next; the facts below say so once, and the
  invariants, the measures and the accounts of a batch follow from them.
\<close>

section \<open>One member in a list\<close>

lemma update_first_split:
  "find P xs = Some x \<Longrightarrow>
     \<exists>ys zs. xs = ys @ x # zs \<and> P x \<and> (\<forall>y \<in> set ys. \<not> P y) \<and> update_first P f xs = ys @ f x # zs"
proof (induction xs)
  case (Cons a xs)
  show ?case
  proof (cases "P a")
    case True
    with Cons.prems show ?thesis by (intro exI [of _ "[]"] exI [of _ xs]) auto
  next
    case False
    with Cons obtain ys zs where "xs = ys @ x # zs" "P x" "\<forall>y \<in> set ys. \<not> P y"
      "update_first P f xs = ys @ f x # zs" by auto
    with False show ?thesis by (intro exI [of _ "a # ys"] exI [of _ zs]) auto
  qed
qed simp

lemma update_first_none: "find P xs = None \<Longrightarrow> update_first P f xs = xs"
  by (induction xs) (auto split: if_splits)

lemma update_first_commute:
  assumes "\<And>x. P (g x) = P x" "\<And>x. Q (f x) = Q x" "\<And>x. f (g x) = g (f x)"
  shows "update_first P f (update_first Q g xs) = update_first Q g (update_first P f xs)"
  by (induction xs) (auto simp: assms)

lemma find_update_first:
  assumes "\<And>x. P (g x) = P x"
  shows "find P (update_first Q g xs) = None \<longleftrightarrow> find P xs = None"
    "(\<And>x. h (g x) = h x) \<Longrightarrow> map_option h (find P (update_first Q g xs)) = map_option h (find P xs)"
  by (induction xs) (auto simp: assms)

lemma map_update_first: "(\<And>x. h (f x) = h x) \<Longrightarrow> map h (update_first P f xs) = map h xs"
  by (induction xs) auto

section \<open>Moves\<close>

definition ids_of :: "batch_progress \<Rightarrow> uuid list" where
  "ids_of b = map member_change (members b)"

text \<open>The steps of a member's life other than its start.\<close>

definition moved :: "batch_member \<Rightarrow> batch_member \<Rightarrow> bool" where
  "moved m m' \<longleftrightarrow>
     member_change m' = member_change m \<and>
     (status m = Applying \<and> status m' = Resolving \<and> (requeued m \<longrightarrow> requeued m') \<or>
      status m = Resolving \<and> \<not> requeued m \<and> status m' = Queued \<and> requeued m' \<or>
      \<not> is_terminal (status m) \<and> is_terminal (status m') \<and> requeued m' = requeued m)"

lemma is_terminal_simps [simp]:
  "\<not> is_terminal Queued" "\<not> is_terminal Applying" "\<not> is_terminal Resolving"
  "is_terminal Applied" "is_terminal (Failed e)"
  by (simp_all add: is_terminal_def)

lemma start_next_cases:
  obtains (none) "start_next b = (None, b)"
      "(\<exists>m \<in> set (members b). status m = Applying) \<or> (\<forall>m \<in> set (members b). status m \<noteq> Queued)"
  | (start) ys m zs where "members b = ys @ m # zs" "status m = Queued"
      "\<forall>m \<in> set (members b). status m \<noteq> Applying"
      "start_next b = (Some (member_change m), b\<lparr>members := ys @ m\<lparr>status := Applying\<rparr> # zs\<rparr>)"
proof (cases "list_ex (\<lambda>m. status m = Applying) (members b)")
  case True
  then show ?thesis by (intro none) (auto simp: start_next_def list_ex_iff)
next
  case False
  show ?thesis
  proof (cases "find (\<lambda>m. status m = Queued) (members b)")
    case None
    with False show ?thesis using find_None_iff [of "\<lambda>m. status m = Queued" "members b"]
      by (intro none) (auto simp: start_next_def)
  next
    case (Some m)
    from update_first_split [OF this, of "\<lambda>m. m\<lparr>status := Applying\<rparr>"] False Some show ?thesis
      by (auto simp: start_next_def list_ex_iff intro: start)
  qed
qed

lemma set_member_split:
  "find_member b c = Some m \<Longrightarrow>
     \<exists>ys zs. members b = ys @ m # zs \<and> member_change m = c \<and>
       set_member c f b = b\<lparr>members := ys @ f m # zs\<rparr>"
  unfolding find_member_def set_member_def
  by (drule update_first_split [where f = f]) (elim exE conjE, intro exI conjI, auto)

lemma is_complete_map: "is_complete b = list_all is_terminal (map status (members b))"
  by (simp add: is_complete_def list.pred_map comp_def)

lemma any_status_map: "list_ex (\<lambda>m. status m = st) ms \<longleftrightarrow> st \<in> set (map status ms)"
  by (auto simp: list_ex_iff)

lemma update_first_twice:
  "(\<And>x. P (f x) = P x) \<Longrightarrow> update_first P g (update_first P f xs) = update_first P (\<lambda>x. g (f x)) xs"
  by (induction xs) auto

lemma park_in_lane_alt:
  "park_in_lane c b =
     (case find_member b c of
        Some m \<Rightarrow>
          if status m = Applying
          then advance_batch (set_member c (\<lambda>m. m\<lparr>status := Resolving, requeued := True\<rparr>) b)
          else (Duplicate, b)
      | None \<Rightarrow> (Duplicate, b))"
proof -
  let ?late = "set_member c (\<lambda>m. m\<lparr>requeued := True\<rparr>)"
  have late: "advance_batch (?late b) = (fst (advance_batch b), ?late (snd (advance_batch b)))" for b
  proof -
    have statuses: "map status (members (?late b)) = map status (members b)"
      by (simp add: set_member_def map_update_first)
    have complete: "is_complete (?late b) = is_complete b"
      using statuses by (simp add: is_complete_map)
    have applying: "list_ex (\<lambda>m. status m = Applying) (members (?late b)) =
        list_ex (\<lambda>m. status m = Applying) (members b)"
      using statuses by (simp add: any_status_map)
    have "start_next (?late b) = (fst (start_next b), ?late (snd (start_next b)))"
      using find_update_first(1) [of "\<lambda>m. status m = Queued" "\<lambda>m. m\<lparr>requeued := True\<rparr>"
          "\<lambda>m. member_change m = c" "members b"]
        find_update_first(2) [of "\<lambda>m. status m = Queued" "\<lambda>m. m\<lparr>requeued := True\<rparr>"
          member_change "\<lambda>m. member_change m = c" "members b"]
        update_first_commute [of "\<lambda>m. status m = Queued" "\<lambda>m. m\<lparr>requeued := True\<rparr>"
          "\<lambda>m. member_change m = c" "\<lambda>m. m\<lparr>status := Applying\<rparr>" "members b"]
        applying
      by (auto simp: start_next_def set_member_def split: option.splits)
    then show ?thesis by (simp add: advance_batch_def complete split: prod.split)
  qed
  have parts: "set_member c (\<lambda>m. m\<lparr>status := Resolving, requeued := True\<rparr>) b =
      ?late (set_member c (\<lambda>m. m\<lparr>status := Resolving\<rparr>) b)"
    by (simp add: set_member_def update_first_twice)
  have busy: "fst (advance_batch b) \<noteq> Duplicate" for b
    by (simp add: advance_batch_def split: prod.split option.split)
  show ?thesis
    using busy by (auto simp: park_in_lane_def park_def late parts split: option.splits prod.splits)
      (metis fst_conv)
qed

lemma moved_by_update:
  assumes "find_member b c = Some m" "moved m (f m)"
  shows "\<exists>ys zs. members b = ys @ m # zs \<and> member_change m = c \<and>
           set_member c f b = b\<lparr>members := ys @ f m # zs\<rparr> \<and> moved m (f m)"
  using set_member_split [OF assms(1), of f] assms(2) by blast

text \<open>What a message does: nothing, or one move of the member it names and then \<open>advance\<close>.\<close>

lemma batch_step_cases:
  assumes "batch_step msg b = (adv, b')"
  obtains (same) "adv = Duplicate" "b' = b"
  | (move) ys m m' zs where "members b = ys @ m # zs" "member_change m = msg_change msg" "moved m m'"
      "advance_batch (b\<lparr>members := ys @ m' # zs\<rparr>) = (adv, b')"
proof -
  have ended: thesis if "record_end c st b = (changed, b1)" "is_terminal st" "c = msg_change msg"
      "(if changed then advance_batch b1 else (Duplicate, b1)) = (adv, b')" for c st changed b1
  proof (cases "find_member b c")
    case None
    with that show thesis by (intro same) (auto simp: record_end_def)
  next
    case (Some m)
    show thesis
    proof (cases "is_terminal (status m)")
      case True
      with Some that show thesis by (intro same) (auto simp: record_end_def)
    next
      case False
      with that(2) have "moved m (m\<lparr>status := st\<rparr>)" by (simp add: moved_def)
      from moved_by_update [where f = "\<lambda>m. m\<lparr>status := st\<rparr>", OF Some this] False Some that show thesis
        by (auto simp: record_end_def intro: move)
    qed
  qed
  have parked: thesis if "(case find_member b c of
        Some m \<Rightarrow> if status m = Applying then advance_batch (set_member c f b) else (Duplicate, b)
      | None \<Rightarrow> (Duplicate, b)) = (adv, b')" "c = msg_change msg"
      "\<And>m. status m = Applying \<Longrightarrow> moved m (f m)" for c f
  proof (cases "find_member b c")
    case None
    with that show thesis by (intro same) auto
  next
    case (Some m)
    show thesis
    proof (cases "status m = Applying")
      case True
      from moved_by_update [where f = f, OF Some that(3) [OF True]] obtain ys zs where
        "members b = ys @ m # zs" "member_change m = c" "moved m (f m)"
        "set_member c f b = b\<lparr>members := ys @ f m # zs\<rparr>" by blast
      with True Some that(1,2) show thesis by (intro move [of ys m zs "f m"]) simp_all
    next
      case False
      with Some that(1) show thesis by (intro same) simp_all
    qed
  qed
  show thesis
  proof (cases msg)
    case (MsgApplied c)
    with assms show thesis
      by (intro ended [of c Applied "fst (record_end c Applied b)" "snd (record_end c Applied b)"])
         (auto simp: batch_step_def resolve_member_def record_applied_def split: prod.splits)
  next
    case (MsgFailed c err)
    show thesis
    proof (cases "\<exists>m. find_member b c = Some m \<and> status m = Resolving \<and> \<not> requeued m \<and>
        is_concurrent_main_conflict err")
      case True
      then obtain m where m: "find_member b c = Some m" "status m = Resolving" "\<not> requeued m"
        "is_concurrent_main_conflict err" by blast
      then have "moved m (m\<lparr>status := Queued, requeued := True\<rparr>)" by (simp add: moved_def)
      from moved_by_update [where f = "\<lambda>m. m\<lparr>status := Queued, requeued := True\<rparr>", OF m(1) this]
        m assms MsgFailed show thesis
        by (auto simp: batch_step_def resolve_member_def intro: move)
    next
      case False
      with assms MsgFailed show thesis
        by (intro ended [of c "Failed err" "fst (record_end c (Failed err) b)"
              "snd (record_end c (Failed err) b)"])
           (auto simp: batch_step_def resolve_member_def record_failed_def split: prod.splits option.splits)
    qed
  next
    case (MsgParked c)
    with assms show thesis
      by (intro parked [of c "\<lambda>m. m\<lparr>status := Resolving\<rparr>"])
         (auto simp: batch_step_def park_def moved_def)
  next
    case (MsgLaned c)
    with assms show thesis
      by (intro parked [of c "\<lambda>m. m\<lparr>status := Resolving, requeued := True\<rparr>"])
         (auto simp: batch_step_def park_in_lane_alt moved_def)
  qed
qed

lemma advance_batch_cases:
  assumes "advance_batch b = (adv, b')"
  obtains (complete) "adv = Complete" "b' = b" "is_complete b"
  | (wait) "adv = Wait" "b' = b" "\<not> is_complete b"
      "(\<exists>m \<in> set (members b). status m = Applying) \<or> (\<forall>m \<in> set (members b). status m \<noteq> Queued)"
  | (start) ys m zs where "adv = Start (member_change m)" "members b = ys @ m # zs" "status m = Queued"
      "\<forall>m \<in> set (members b). status m \<noteq> Applying"
      "b' = b\<lparr>members := ys @ m\<lparr>status := Applying\<rparr> # zs\<rparr>"
proof (cases "is_complete b")
  case True
  with assms show ?thesis by (intro complete) (auto simp: advance_batch_def)
next
  case False
  show ?thesis
  proof (cases b rule: start_next_cases)
    case none
    with assms False show ?thesis by (intro wait) (auto simp: advance_batch_def)
  next
    case (start ys m zs)
    with assms False show ?thesis by (intro that(3)) (auto simp: advance_batch_def)
  qed
qed

section \<open>The invariant\<close>

text \<open>At most one member applies, and while one is queued one applies: the queue is never idle.\<close>

definition applying_count :: "batch_member list \<Rightarrow> nat" where
  "applying_count ms = length (filter (\<lambda>m. status m = Applying) ms)"

definition busy_queue :: "batch_progress \<Rightarrow> bool" where
  "busy_queue b \<longleftrightarrow>
     applying_count (members b) \<le> 1 \<and>
     (list_ex (\<lambda>m. status m = Queued) (members b) \<longrightarrow> applying_count (members b) = 1)"

lemma applying_count_simps [simp]:
  "applying_count [] = 0"
  "applying_count (m # ms) = (if status m = Applying then 1 else 0) + applying_count ms"
  "applying_count (ms @ ms') = applying_count ms + applying_count ms'"
  by (simp_all add: applying_count_def)

lemma applying_count_zero: "applying_count ms = 0 \<longleftrightarrow> (\<forall>m \<in> set ms. status m \<noteq> Applying)"
  by (auto simp: applying_count_def filter_empty_conv)

lemma start_next_busy:
  assumes "applying_count (members b) \<le> 1"
  shows "busy_queue (snd (start_next b))"
proof (cases b rule: start_next_cases)
  case none
  have "applying_count (members b) = 1" if "\<exists>m \<in> set (members b). status m = Applying"
    using that assms applying_count_zero [of "members b"] by force
  with none assms show ?thesis by (auto simp: busy_queue_def list_ex_iff)
next
  case (start ys m zs)
  then have "applying_count ys = 0" "applying_count zs = 0"
    by (auto simp: applying_count_zero)
  with start show ?thesis by (simp add: busy_queue_def)
qed

lemma advance_batch_busy:
  "advance_batch b = (adv, b') \<Longrightarrow> applying_count (members b) \<le> 1 \<Longrightarrow> busy_queue b'"
  using start_next_busy [of b]
  by (auto simp: advance_batch_def busy_queue_def is_complete_def list_all_iff list_ex_iff applying_count_zero
      split: if_splits prod.splits)

lemma batch_step_busy:
  assumes "batch_step msg b = (adv, b')" "busy_queue b"
  shows "busy_queue b'"
  using assms(1)
proof (cases rule: batch_step_cases)
  case same
  with assms show ?thesis by simp
next
  case (move ys m m' zs)
  then have "applying_count (ys @ m' # zs) \<le> applying_count (members b)"
    by (auto simp: moved_def)
  with assms(2) move(4) show ?thesis by (intro advance_batch_busy) (auto simp: busy_queue_def)
qed

lemma advance_batch_same:
  "advance_batch b = (adv, b') \<Longrightarrow> ids_of b' = ids_of b \<and> batch_id b' = batch_id b \<and> batch_actor b' = batch_actor b"
  by (erule advance_batch_cases) (auto simp: ids_of_def)

lemma batch_step_same:
  "batch_step msg b = (adv, b') \<Longrightarrow> ids_of b' = ids_of b \<and> batch_id b' = batch_id b \<and> batch_actor b' = batch_actor b"
  by (erule batch_step_cases) (auto dest!: advance_batch_same simp: ids_of_def moved_def)

section \<open>The account of a complete batch\<close>

lemma complete_account:
  "is_complete b \<Longrightarrow> mset (applied_ids b @ map failed_change (failures b)) = mset (ids_of b)"
proof -
  have "mset (map member_change (filter (\<lambda>m. status m = Applied) ms) @
          map failed_change (List.map_filter failure_of ms)) = mset (map member_change ms)"
    if "list_all (\<lambda>m. is_terminal (status m)) ms" for ms
    using that
    by (induction ms) (auto simp: map_filter_simps failure_of_def is_terminal_def split: member_status.splits)
  then show "is_complete b \<Longrightarrow> ?thesis"
    by (simp add: is_complete_def applied_ids_def failures_def ids_of_def)
qed

end
