(* ===== verification/Apply_All_Runs.thy ===== *)
theory Apply_All_Runs
  imports Apply_All_Lemmas "HOL-Library.Sublist"
begin

text \<open>
  Apply All over whole runs: presses, the reports of their members and cancels, in any order, against the
  registry of the running batches. Every press is announced complete exactly once with an account of each
  of its members, a change is in one batch at most, and the queue of a batch is never idle.
\<close>

section \<open>Runs\<close>

datatype apply_all_op = Press uuid "uuid list" "nat option" | Report drive_msg | CancelAll apply_env

fun apply_all_op_step :: "apply_all_op \<Rightarrow> apply_all_registry \<Rightarrow> apply_all_registry \<times> drive_effect list" where
  "apply_all_op_step (Press fresh ids actor) reg = snd (start_apply_all_batch fresh ids actor reg)"
| "apply_all_op_step (Report msg) reg = advance_apply_all_batch msg reg"
| "apply_all_op_step (CancelAll env) reg = snd (cancel_apply_all_batches env reg)"

fun apply_all_run :: "apply_all_op list \<Rightarrow> apply_all_registry \<Rightarrow> apply_all_registry \<times> drive_effect list" where
  "apply_all_run [] reg = (reg, [])"
| "apply_all_run (opn # ops) reg =
     (case apply_all_op_step opn reg of
        (reg, es) \<Rightarrow> (case apply_all_run ops reg of (reg, later) \<Rightarrow> (reg, es @ later)))"

text \<open>What the effects announce, and what the registry still owes: a batch with its members.\<close>

fun started_by :: "drive_effect \<Rightarrow> (uuid \<times> uuid multiset) option" where
  "started_by (BatchStarted bid ids actor) = Some (bid, mset ids)"
| "started_by _ = None"

fun completed_by :: "drive_effect \<Rightarrow> (uuid \<times> uuid multiset) option" where
  "completed_by (BatchCompleted bid done_ids fs) = Some (bid, mset (done_ids @ map failed_change fs))"
| "completed_by _ = None"

definition started_in :: "drive_effect list \<Rightarrow> (uuid \<times> uuid multiset) list" where
  "started_in es = List.map_filter started_by es"

definition completed_in :: "drive_effect list \<Rightarrow> (uuid \<times> uuid multiset) list" where
  "completed_in es = List.map_filter completed_by es"

definition owed_by :: "apply_all_registry \<Rightarrow> (uuid \<times> uuid multiset) list" where
  "owed_by reg = map (\<lambda>(bid, b). (bid, mset (ids_of b))) reg"

definition press_ids :: "apply_all_op list \<Rightarrow> uuid list" where
  "press_ids ops = List.map_filter (\<lambda>opn. case opn of Press fresh _ _ \<Rightarrow> Some fresh | _ \<Rightarrow> None) ops"

definition press_ok :: "apply_all_op \<Rightarrow> bool" where
  "press_ok opn = (case opn of Press _ ids _ \<Rightarrow> distinct ids | _ \<Rightarrow> True)"

definition batch_ids_of :: "apply_all_registry \<Rightarrow> uuid list" where
  "batch_ids_of reg = concat (map (\<lambda>(bid, b). ids_of b) reg)"

definition running_batch :: "uuid \<times> batch_progress \<Rightarrow> bool" where
  "running_batch e = (batch_id (snd e) = fst e \<and> busy_queue (snd e) \<and> \<not> is_complete (snd e))"

definition registry_ok :: "apply_all_registry \<Rightarrow> bool" where
  "registry_ok reg \<longleftrightarrow> hm_ok reg \<and> distinct (batch_ids_of reg) \<and> list_all running_batch reg"

lemma announced_simps [simp]:
  "started_in [] = []" "started_in (es @ es') = started_in es @ started_in es'"
  "completed_in [] = []" "completed_in (es @ es') = completed_in es @ completed_in es'"
  "owed_by [] = []" "owed_by (reg @ reg') = owed_by reg @ owed_by reg'"
  "owed_by (e # reg) = (fst e, mset (ids_of (snd e))) # owed_by reg"
  by (simp_all add: started_in_def completed_in_def owed_by_def map_filter_def split_beta)

lemma announced_Cons [simp]:
  "started_in (e # es) = (case started_by e of None \<Rightarrow> [] | Some s \<Rightarrow> [s]) @ started_in es"
  "completed_in (e # es) = (case completed_by e of None \<Rightarrow> [] | Some s \<Rightarrow> [s]) @ completed_in es"
  by (simp_all add: started_in_def completed_in_def map_filter_simps split: option.split)

lemma batch_ids_of_simps [simp]:
  "batch_ids_of [] = []" "batch_ids_of (e # reg) = ids_of (snd e) @ batch_ids_of reg"
  "batch_ids_of (reg @ reg') = batch_ids_of reg @ batch_ids_of reg'"
  by (simp_all add: batch_ids_of_def split_beta)

section \<open>The members of a batch with distinct ids\<close>

definition end_with :: "member_status \<Rightarrow> batch_member \<Rightarrow> batch_member" where
  "end_with st m = (if is_terminal (status m) then m else m\<lparr>status := st\<rparr>)"

definition at_member :: "uuid \<Rightarrow> (batch_member \<Rightarrow> batch_member) \<Rightarrow> batch_member \<Rightarrow> batch_member" where
  "at_member c f m = (if member_change m = c then f m else m)"

lemma update_first_distinct:
  "distinct (map member_change ms) \<Longrightarrow>
     update_first (\<lambda>m. member_change m = c) f ms = map (at_member c f) ms"
  by (induction ms) (auto simp: at_member_def image_iff intro!: map_idI [symmetric])

lemma set_member_distinct:
  "distinct (ids_of b) \<Longrightarrow> set_member c f b = b\<lparr>members := map (at_member c f) (members b)\<rparr>"
  by (simp add: set_member_def ids_of_def update_first_distinct)

lemma find_member_distinct:
  "distinct (ids_of b) \<Longrightarrow> m \<in> set (members b) \<Longrightarrow> find_member b (member_change m) = Some m"
  using find_Some_iff [of "\<lambda>n. member_change n = member_change m" "members b" m]
  by (auto simp: find_member_def ids_of_def in_set_conv_nth distinct_conv_nth)

lemma find_member_None: "find_member b c = None \<longleftrightarrow> c \<notin> set (ids_of b)"
  by (auto simp: find_member_def ids_of_def find_None_iff)

lemma record_end_distinct:
  assumes "distinct (ids_of b)"
  shows "snd (record_end c st b) = b\<lparr>members := map (at_member c (end_with st)) (members b)\<rparr>"
proof (cases "find_member b c")
  case None
  then have "map (at_member c (end_with st)) (members b) = members b"
    by (auto simp: find_member_None ids_of_def at_member_def intro!: map_idI)
  with None show ?thesis by (simp add: record_end_def)
next
  case (Some m)
  then have found: "m \<in> set (members b)" "member_change m = c"
    by (auto simp: find_member_def find_Some_iff)
  have only: "n = m" if "n \<in> set (members b)" "member_change n = c" for n
    using filter_key_other [of member_change "members b" n m] assms found that by (simp add: ids_of_def)
  have same: "map (at_member c f) (members b) = map (at_member c (end_with st)) (members b)"
    if "f m = end_with st m" for f
  proof (rule map_cong [OF refl])
    fix n assume "n \<in> set (members b)"
    then show "at_member c f n = at_member c (end_with st) n"
      using only [of n] that by (cases "member_change n = c") (simp_all add: at_member_def)
  qed
  show ?thesis
  proof (cases "is_terminal (status m)")
    case True
    have "at_member c (\<lambda>m. m) = id" by (auto simp: at_member_def)
    then have "map (at_member c (\<lambda>m. m)) (members b) = members b" by simp
    with Some True same [of "\<lambda>m. m"] show ?thesis by (simp add: record_end_def end_with_def)
  next
    case False
    with Some assms same [of "\<lambda>m. m\<lparr>status := st\<rparr>"] show ?thesis
      by (simp add: record_end_def set_member_distinct end_with_def)
  qed
qed

lemma end_member_simps [simp]:
  "member_change (end_with st m) = member_change m"
  "member_change (at_member c (end_with st) m) = member_change m"
  by (simp_all add: end_with_def at_member_def)

lemma ids_of_map_end [simp]:
  "ids_of (b\<lparr>members := map (at_member c (end_with st)) (members b)\<rparr>) = ids_of b"
  by (simp add: ids_of_def comp_def)

lemma cancel_from:
  "distinct (ids_of b) \<Longrightarrow>
     foldl (\<lambda>b c. snd (record_failed c e b)) b cs =
     b\<lparr>members := map (\<lambda>m. if member_change m \<in> set cs then end_with (Failed e) m else m) (members b)\<rparr>"
proof (induction cs arbitrary: b)
  case (Cons c cs)
  then show ?case
    by (auto simp: record_failed_def record_end_distinct at_member_def end_with_def)
qed simp

lemma cancel_batch_ends:
  assumes "distinct (ids_of b)"
  shows "is_complete (cancel_batch b)" "ids_of (cancel_batch b) = ids_of b"
    "batch_id (cancel_batch b) = batch_id b"
  using assms
  by (auto simp: cancel_batch_def cancel_from is_complete_def list_all_iff end_with_def pending_members_def
      ids_of_def)

section \<open>The registry\<close>

lemma hm_split:
  "hm_ok reg \<Longrightarrow> hm_get reg k = Some v \<Longrightarrow>
     \<exists>xs ys. reg = xs @ (k, v) # ys \<and> (\<forall>v'. hm_insert k v' reg = xs @ (k, v') # ys) \<and>
       hm_remove k reg = xs @ ys"
proof (induction reg)
  case (Cons e reg)
  show ?case
  proof (cases "fst e = k")
    case True
    with Cons.prems(1) have "k \<notin> hm_keys reg" by (auto simp: hm_ok_def hm_keys_def)
    with True Cons.prems(2) show ?thesis
      by (intro exI [of _ "[]"] exI [of _ reg]) (cases e, auto simp: hm_remove_absent)
  next
    case False
    with Cons obtain xs ys where "reg = xs @ (k, v) # ys" "\<forall>v'. hm_insert k v' reg = xs @ (k, v') # ys"
      "hm_remove k reg = xs @ ys" by (cases e) (auto simp: hm_ok_def)
    with False show ?thesis by (intro exI [of _ "e # xs"] exI [of _ ys]) (cases e, auto)
  qed
qed simp

lemma hm_remove_inserted: "hm_remove k (hm_insert k v m) = hm_remove k m"
  by (induction m) auto

lemma batch_for_change_Some:
  assumes "hm_ok reg" "batch_for_change reg c = Some bid"
  shows "\<exists>b. hm_get reg bid = Some b \<and> contains_change b c"
proof -
  from assms(2) obtain b where "find (\<lambda>(bid, b). contains_change b c) reg = Some (bid, b)"
    by (auto simp: batch_for_change_def)
  then have "(bid, b) \<in> set reg" "contains_change b c"
    by (auto simp: find_Some_iff in_set_conv_nth)
  with assms(1) show ?thesis by (auto simp: hm_ok_def)
qed

lemma contains_change_ids: "contains_change b c \<longleftrightarrow> c \<in> set (ids_of b)"
  by (auto simp: contains_change_def ids_of_def list_ex_iff)

lemma batch_for_change_None: "batch_for_change reg c = None \<longleftrightarrow> c \<notin> set (batch_ids_of reg)"
  by (auto simp: batch_for_change_def find_None_iff contains_change_ids batch_ids_of_def)

lemma advance_complete: "advance_batch b = (adv, b') \<Longrightarrow> adv = Complete \<longleftrightarrow> is_complete b'"
  by (erule advance_batch_cases) (auto simp: is_complete_def)

lemma batch_step_complete:
  "batch_step msg b = (adv, b') \<Longrightarrow> \<not> is_complete b \<Longrightarrow> adv = Complete \<longleftrightarrow> is_complete b'"
  by (erule batch_step_cases) (auto dest: advance_complete)

lemma start_next_same:
  "start_next b = (started, b') \<Longrightarrow> ids_of b' = ids_of b \<and> batch_id b' = batch_id b \<and> (is_complete b' = is_complete b)"
  by (cases b rule: start_next_cases) (auto simp: ids_of_def is_complete_def)

lemma new_progress_sel [simp]:
  "ids_of (new_progress bid ids actor) = ids" "batch_id (new_progress bid ids actor) = bid"
  "is_complete (new_progress bid ids actor) = (ids = [])"
  "applying_count (members (new_progress bid ids actor)) = 0"
  by (auto simp: new_progress_def ids_of_def is_complete_def applying_count_zero comp_def)
     (cases ids; simp)

section \<open>Steps\<close>

definition accounts ::
    "apply_all_registry \<Rightarrow> drive_effect list \<Rightarrow> apply_all_registry \<Rightarrow> bool" where
  "accounts reg es reg' \<longleftrightarrow>
     mset (owed_by reg) + mset (started_in es) = mset (completed_in es) + mset (owed_by reg')"

lemma accounts_append:
  assumes "accounts reg es reg'" "accounts reg' es' reg''"
  shows "accounts reg (es @ es') reg''"
proof -
  have "mset (owed_by reg) + mset (started_in (es @ es')) =
      (mset (owed_by reg) + mset (started_in es)) + mset (started_in es')"
    by (simp add: add.assoc)
  also have "\<dots> = mset (completed_in es) + (mset (owed_by reg') + mset (started_in es'))"
    using assms(1) by (simp add: accounts_def add.assoc)
  also have "\<dots> = mset (completed_in (es @ es')) + mset (owed_by reg'')"
    using assms(2) by (simp add: accounts_def add.assoc)
  finally show ?thesis by (simp add: accounts_def)
qed

lemma advance_step:
  assumes ok: "registry_ok reg" and step: "advance_apply_all_batch msg reg = (reg', es)"
  shows "registry_ok reg' \<and> accounts reg es reg' \<and> hm_keys reg' \<subseteq> hm_keys reg \<and> started_in es = []"
proof (cases "batch_for_change reg (msg_change msg)")
  case None
  with assms show ?thesis by (simp add: advance_apply_all_batch_def accounts_def)
next
  case (Some bid)
  with ok obtain b where b: "hm_get reg bid = Some b"
    using batch_for_change_Some [of reg "msg_change msg" bid] by (auto simp: registry_ok_def)
  with ok obtain xs ys where split: "reg = xs @ (bid, b) # ys"
    "\<And>v'. hm_insert bid v' reg = xs @ (bid, v') # ys" "hm_remove bid reg = xs @ ys"
    using hm_split [of reg bid b] by (auto simp: registry_ok_def)
  obtain adv b' where moved: "batch_step msg b = (adv, b')" by fastforce
  have live: "batch_id b = bid" "busy_queue b" "\<not> is_complete b"
    using ok split(1) by (auto simp: registry_ok_def running_batch_def)
  note kept = batch_step_same [OF moved] batch_step_busy [OF moved live(2)]
    batch_step_complete [OF moved live(3)]
  have reg: "registry_ok (xs @ (bid, b') # ys)" if "\<not> is_complete b'"
    using ok split(1) kept live that by (auto simp: registry_ok_def running_batch_def hm_ok_def)
  have rest: "registry_ok (xs @ ys)"
    using ok split(1) by (auto simp: registry_ok_def hm_ok_def)
  have inserted: "hm_insert bid b' reg = xs @ (bid, b') # ys" by (rule split(2))
  have removed: "hm_remove bid (xs @ (bid, b') # ys) = xs @ ys"
    using hm_remove_inserted [of bid b' reg] split(3) inserted by simp
  have out: "reg' = (if adv = Complete then xs @ ys else xs @ (bid, b') # ys)" "started_in es = []"
    "completed_in es =
       (if adv = Complete then [(bid, mset (applied_ids b' @ map failed_change (failures b')))] else [])"
    using step Some b moved inserted removed
    by (auto simp: advance_apply_all_batch_def Let_def split: advance_step.splits)
  show ?thesis
  proof (cases "adv = Complete")
    case True
    with kept(3) have "mset (applied_ids b' @ map failed_change (failures b')) = mset (ids_of b)"
      using complete_account [of b'] kept(1) by simp
    with True out rest split(1) show ?thesis by (auto simp: accounts_def hm_keys_def)
  next
    case False
    with out reg kept split(1) show ?thesis by (auto simp: accounts_def hm_keys_def)
  qed
qed

lemma press_step:
  assumes ok: "registry_ok reg" and fresh: "fresh \<notin> hm_keys reg" and ids: "distinct ids"
    and step: "start_apply_all_batch fresh ids actor reg = (started, reg', es)"
  shows "registry_ok reg' \<and> accounts reg es reg' \<and> hm_keys reg' \<subseteq> insert fresh (hm_keys reg) \<and>
    map fst (started_in es) = (if started = None then [] else [fresh])"
proof (cases "not_in_any_batch reg ids = []")
  case True
  with assms show ?thesis by (auto simp: start_apply_all_batch_def accounts_def)
next
  case False
  let ?ids = "not_in_any_batch reg ids"
  obtain first b where start: "start_next (new_progress fresh ?ids actor) = (first, b)" by fastforce
  from start_next_same [OF start] False have b: "ids_of b = ?ids" "batch_id b = fresh" "\<not> is_complete b"
    by auto
  have busy: "busy_queue b" using start_next_busy [of "new_progress fresh ?ids actor"] start by simp
  have new: "distinct ?ids" "set ?ids \<inter> set (batch_ids_of reg) = {}"
    using ids by (auto simp: not_in_any_batch_def batch_for_change_None)
  have reg': "reg' = reg @ [(fresh, b)]" "es = [BatchStarted fresh ?ids actor, PersistBatch fresh ?ids actor, OpenLanePress fresh]"
    "started \<noteq> None"
    using step False start b(2) fresh
    by (auto simp: start_apply_all_batch_def Let_def registry_insert_def hm_insert_fresh)
  show ?thesis
    using ok fresh b busy new
    by (auto simp: reg' registry_ok_def running_batch_def accounts_def hm_ok_def hm_keys_def)
qed

lemma cancel_completes:
  assumes "registry_ok reg"
  shows "mset (completed_in (concat (map (\<lambda>b. [BatchCompleted (batch_id b) (applied_ids b) (failures b),
             RemoveBatchRow (batch_id b)]) (map (\<lambda>(bid, b). cancel_batch b) reg)))) = mset (owed_by reg)"
  using assms
proof (induction reg)
  case (Cons e reg)
  then have "registry_ok reg" "distinct (ids_of (snd e))" "batch_id (snd e) = fst e"
    by (auto simp: registry_ok_def running_batch_def hm_ok_def)
  with Cons.IH cancel_batch_ends [of "snd e"] complete_account [of "cancel_batch (snd e)"]
  show ?case by (cases e) auto
qed simp

lemma silent_effects [simp]:
  "started_in (map (\<lambda>b. SubmitLanePress (f b)) bs) = []" "completed_in (map (\<lambda>b. SubmitLanePress (f b)) bs) = []"
  "started_in (concat (map (\<lambda>b. [BatchCompleted (g b) (h b) (k b), RemoveBatchRow (l b)]) bs)) = []"
  by (induction bs) auto

lemma silent_interrupts [simp]: "started_in (interrupts env cs) = []" "completed_in (interrupts env cs) = []"
  by (induction cs) (auto simp: interrupts_def split: sum.splits option.splits)

lemma cancel_step:
  assumes "registry_ok reg" "cancel_apply_all_batches env reg = (n, reg', es)"
  shows "registry_ok reg' \<and> accounts reg es reg' \<and> hm_keys reg' \<subseteq> hm_keys reg \<and> started_in es = []"
  using assms cancel_completes [OF assms(1)]
  by (auto simp: cancel_apply_all_batches_def Let_def registry_ok_def accounts_def hm_keys_def
      simp del: map_map split: if_splits)

lemma apply_all_step:
  assumes ok: "registry_ok reg" and step: "apply_all_op_step opn reg = (reg', es)"
    and fresh: "set (press_ids [opn]) \<inter> hm_keys reg = {}" "press_ok opn"
  shows "registry_ok reg' \<and> accounts reg es reg' \<and> hm_keys reg' \<subseteq> set (press_ids [opn]) \<union> hm_keys reg \<and>
    subseq (map fst (started_in es)) (press_ids [opn])"
proof (cases opn)
  case (Press bid ids actor)
  obtain started where "start_apply_all_batch bid ids actor reg = (started, reg', es)"
    using step Press by (cases "start_apply_all_batch bid ids actor reg") simp
  from press_step [OF ok _ _ this] fresh Press show ?thesis
    by (auto simp: press_ids_def press_ok_def map_filter_simps)
next
  case (Report msg)
  from advance_step [OF ok] step Report show ?thesis by fastforce
next
  case (CancelAll env)
  obtain n where "cancel_apply_all_batches env reg = (n, reg', es)"
    using step CancelAll by (cases "cancel_apply_all_batches env reg") simp
  from cancel_step [OF ok this] show ?thesis by auto
qed

lemma press_ids_simps: "press_ids [] = []" "press_ids (opn # ops) = press_ids [opn] @ press_ids ops"
  by (simp_all add: press_ids_def map_filter_simps split: option.split)

lemma apply_all_run_facts:
  assumes "registry_ok reg" "apply_all_run ops reg = (reg', es)" "list_all press_ok ops"
    "distinct (press_ids ops)" "set (press_ids ops) \<inter> hm_keys reg = {}"
  shows "registry_ok reg' \<and> accounts reg es reg' \<and> subseq (map fst (started_in es)) (press_ids ops)"
  using assms
proof (induction ops arbitrary: reg es)
  case Nil
  then show ?case by (simp add: accounts_def)
next
  case (Cons opn ops)
  obtain reg1 es1 where step: "apply_all_op_step opn reg = (reg1, es1)" by fastforce
  with Cons.prems(2) obtain es2 where run: "apply_all_run ops reg1 = (reg', es2)" "es = es1 @ es2"
    by (auto split: prod.splits)
  note ids = press_ids_simps(2) [of opn ops]
  have first: "registry_ok reg1 \<and> accounts reg es1 reg1 \<and>
      hm_keys reg1 \<subseteq> set (press_ids [opn]) \<union> hm_keys reg \<and> subseq (map fst (started_in es1)) (press_ids [opn])"
    using Cons.prems ids by (intro apply_all_step [OF _ step]) auto
  have "registry_ok reg' \<and> accounts reg1 es2 reg' \<and> subseq (map fst (started_in es2)) (press_ids ops)"
    using first Cons.prems ids by (intro Cons.IH [OF _ run(1)]) auto
  with first run(2) ids show ?case
    by (auto intro: list_emb_append_mono accounts_append)
qed

end
