(* ===== verification/Apply_All_Boot.thy ===== *)
theory Apply_All_Boot
  imports Apply_All_Runs
begin

text \<open>
  Apply All at boot: what \<open>recover_apply_all_batches\<close> rebuilds from a persisted row, given as one status
  per member. A member the landing lane holds or a resolver owns is parked; of the others the first holds
  the queue, and it is driven only when nobody owns it.
\<close>

section \<open>The status boot gives a member\<close>

definition stored_status :: "apply_env \<Rightarrow> uuid \<Rightarrow> change_status option" where
  "stored_status env c =
     (case change_by_id env c of Inr (Some r) \<Rightarrow> Some (change_state r) | Inr None \<Rightarrow> None | Inl e \<Rightarrow> Some ChPending)"

definition rebuild :: "apply_env \<Rightarrow> batch_member \<Rightarrow> batch_member" where
  "rebuild env m =
     (case classify_recovered_member (stored_status env (member_change m)) of
        RmApplied \<Rightarrow> end_with Applied m
      | RmPending \<Rightarrow> m
      | RmTerminal \<Rightarrow> end_with (Failed withdrawn_member_reason) m)"

definition rebuilt_member :: "apply_env \<Rightarrow> uuid \<Rightarrow> batch_member" where
  "rebuilt_member env c = rebuild env \<lparr>member_change = c, status = Queued, requeued = False\<rparr>"

definition still_pending :: "apply_env \<Rightarrow> uuid \<Rightarrow> bool" where
  "still_pending env c \<longleftrightarrow> classify_recovered_member (stored_status env c) = RmPending"

definition boot_member :: "apply_env \<Rightarrow> uuid list \<Rightarrow> uuid \<Rightarrow> batch_member" where
  "boot_member env laned c =
     (if \<not> still_pending env c then rebuilt_member env c
      else if c \<in> set laned then \<lparr>member_change = c, status = Resolving, requeued = True\<rparr>
      else if recovered_owner env c = Some True then \<lparr>member_change = c, status = Resolving, requeued = False\<rparr>
      else \<lparr>member_change = c, status = Queued, requeued = False\<rparr>)"

definition unparked :: "apply_env \<Rightarrow> uuid list \<Rightarrow> uuid \<Rightarrow> bool" where
  "unparked env laned c \<longleftrightarrow> still_pending env c \<and> c \<notin> set laned \<and> recovered_owner env c \<noteq> Some True"

definition first_applies :: "batch_member list \<Rightarrow> batch_member list" where
  "first_applies ms = update_first (\<lambda>m. status m = Queued) (\<lambda>m. m\<lparr>status := Applying\<rparr>) ms"

definition boot_batch :: "apply_env \<Rightarrow> uuid list \<Rightarrow> uuid \<times> uuid list \<times> nat option \<Rightarrow> batch_progress" where
  "boot_batch env laned row =
     (case row of (bid, ids, actor) \<Rightarrow>
        \<lparr>batch_id = bid, batch_actor = actor, members = first_applies (map (boot_member env laned) ids)\<rparr>)"

section \<open>Rebuilding\<close>

lemma rebuild_change [simp]: "member_change (rebuild env m) = member_change m"
  by (simp add: rebuild_def split: recovered_member.splits)

lemma member_change_boot [simp]:
  "member_change (rebuilt_member env c) = c" "member_change (boot_member env laned c) = c"
  by (simp_all add: rebuilt_member_def boot_member_def)

lemma recover_member_distinct:
  "distinct (ids_of b) \<Longrightarrow>
     recover_member env b c = b\<lparr>members := map (at_member c (rebuild env)) (members b)\<rparr>"
  using record_end_distinct [of b c]
  by (auto simp: recover_member_def stored_status_def [symmetric] rebuild_def record_applied_def
      record_failed_def at_member_def Let_def split: recovered_member.splits
      intro!: map_cong batch_progress.equality map_idI [symmetric])

lemma rebuild_twice: "rebuild env (rebuild env m) = rebuild env m"
  by (auto simp: rebuild_def end_with_def split: recovered_member.splits)

lemma recover_from:
  "distinct (ids_of b) \<Longrightarrow>
     foldl (recover_member env) b cs =
     b\<lparr>members := map (\<lambda>m. if member_change m \<in> set cs then rebuild env m else m) (members b)\<rparr>"
proof (induction cs arbitrary: b)
  case (Cons c cs)
  have "distinct (ids_of (b\<lparr>members := map (at_member c (rebuild env)) (members b)\<rparr>))"
    using Cons.prems by (simp add: ids_of_def comp_def at_member_def if_distrib cong: if_cong)
  from Cons.IH [OF this] Cons.prems show ?case
    by (simp add: recover_member_distinct at_member_def rebuild_twice)
qed simp

lemma rebuilt_batch_members:
  "distinct ids \<Longrightarrow>
     rebuilt_batch env (bid, ids, actor) =
     \<lparr>batch_id = bid, batch_actor = actor, members = map (rebuilt_member env) ids\<rparr>"
  by (simp add: rebuilt_batch_def recover_from) (simp add: new_progress_def rebuilt_member_def)

lemma rebuilt_terminal: "is_terminal (status (rebuilt_member env c)) \<longleftrightarrow> \<not> still_pending env c"
  by (simp add: rebuilt_member_def rebuild_def still_pending_def end_with_def split: recovered_member.splits)

lemma rebuilt_pending:
  "still_pending env c \<Longrightarrow> rebuilt_member env c = \<lparr>member_change = c, status = Queued, requeued = False\<rparr>"
  by (simp add: rebuilt_member_def rebuild_def still_pending_def)

lemma pending_rebuilt:
  "pending_members (b\<lparr>members := map (rebuilt_member env) ids\<rparr>) = filter (still_pending env) ids"
  by (simp add: pending_members_def rebuilt_terminal comp_def filter_map)

lemma boot_queued: "status (boot_member env laned c) = Queued \<longleftrightarrow> unparked env laned c"
  using rebuilt_terminal [of env c] by (auto simp: boot_member_def unparked_def is_terminal_def)

lemma boot_not_applying: "status (boot_member env laned c) \<noteq> Applying"
  using rebuilt_terminal [of env c] by (auto simp: boot_member_def is_terminal_def)

section \<open>Restoring the owners\<close>

text \<open>What the members restored so far look like: the first unparked one already applies when a session
  that is not resolving owns it.\<close>

definition queue_held_at_boot :: "apply_env \<Rightarrow> uuid list \<Rightarrow> uuid list \<Rightarrow> bool" where
  "queue_held_at_boot env laned ids =
     (case find (unparked env laned) ids of None \<Rightarrow> False | Some c \<Rightarrow> recovered_owner env c = Some False)"

definition restored :: "apply_env \<Rightarrow> uuid list \<Rightarrow> uuid list \<Rightarrow> batch_member list" where
  "restored env laned ids =
     (if queue_held_at_boot env laned ids then first_applies (map (boot_member env laned) ids)
      else map (boot_member env laned) ids)"

lemma update_first_append:
  "update_first P f (xs @ ys) =
     (if list_ex P xs then update_first P f xs @ ys else xs @ update_first P f ys)"
  by (induction xs) auto

lemma position_append:
  "\<not> list_ex P xs \<Longrightarrow> P x \<Longrightarrow> position P (xs @ x # ys) = Some (length xs)"
  by (induction xs) auto

lemma find_append:
  "find P (xs @ ys) = (if list_ex P xs then find P xs else find P ys)"
  by (induction xs) auto

lemma find_list_ex: "find P xs = None \<longleftrightarrow> \<not> list_ex P xs"
  by (induction xs) auto

lemma restored_ids: "map member_change (restored env laned ids) = ids"
  by (simp add: restored_def first_applies_def map_update_first comp_def)

lemma restored_not_member: "c \<notin> set ids \<Longrightarrow> \<not> list_ex (\<lambda>m. member_change m = c) (restored env laned ids)"
  using restored_ids [of env laned ids] by (auto simp: list_ex_iff dest!: arg_cong [where f = set])

lemma boot_list_ex: "list_ex (\<lambda>m. status m = Queued) (map (boot_member env laned) ids) \<longleftrightarrow> list_ex (unparked env laned) ids"
  by (induction ids) (auto simp: boot_queued)

lemma first_applies_busy:
  "list_ex (\<lambda>m. status m = Queued \<or> status m = Applying) (first_applies ms) \<longleftrightarrow>
     list_ex (\<lambda>m. status m = Queued \<or> status m = Applying) ms"
  by (induction ms) (auto simp: first_applies_def)

lemma restored_busy:
  "list_ex (\<lambda>m. status m = Queued \<or> status m = Applying) (restored env laned ids) \<longleftrightarrow>
     list_ex (unparked env laned) ids"
proof -
  have "list_ex (\<lambda>m. status m = Queued \<or> status m = Applying) (map (boot_member env laned) ids) \<longleftrightarrow>
      list_ex (unparked env laned) ids"
    by (induction ids) (auto simp: boot_queued boot_not_applying)
  then show ?thesis by (simp add: restored_def first_applies_busy)
qed

lemma restored_snoc:
  "restored env laned (ids @ [c]) =
     restored env laned ids @
     [if \<not> list_ex (unparked env laned) ids \<and> unparked env laned c \<and> recovered_owner env c = Some False
      then \<lparr>member_change = c, status = Applying, requeued = False\<rparr> else boot_member env laned c]"
proof (cases "list_ex (unparked env laned) ids")
  case True
  then show ?thesis
    using boot_list_ex [of env laned ids]
    by (auto simp: restored_def queue_held_at_boot_def find_append first_applies_def update_first_append)
next
  case False
  then have "\<not> list_ex (\<lambda>m. status m = Queued) (map (boot_member env laned) ids)"
    "find (unparked env laned) ids = None"
    by (simp_all add: boot_list_ex find_list_ex)
  with False show ?thesis
    by (auto simp: restored_def queue_held_at_boot_def find_append first_applies_def update_first_append
        boot_queued) (simp add: boot_member_def unparked_def)
qed

lemma restore_owner_at:
  assumes b: "members b = restored env laned p @ rebuilt_member env c # rest" and c: "c \<notin> set p"
    and pending: "still_pending env c"
  shows "restore_owner env laned b c = b\<lparr>members := restored env laned (p @ [c]) @ rest\<rparr>"
proof -
  note fresh = restored_not_member [OF c, of env laned]
  have found: "find_member b c = Some (rebuilt_member env c)"
    using fresh by (simp add: find_member_def b find_append)
  have index: "position (\<lambda>m. member_change m = c) (members b) = Some (length (restored env laned p))"
    using fresh by (simp add: b position_append)
  have set_to: "set_member c f b = b\<lparr>members := restored env laned p @ f (rebuilt_member env c) # rest\<rparr>" for f
    using fresh by (simp add: set_member_def b update_first_append)
  show ?thesis
    using pending found index restored_busy [of env laned p]
    by (auto simp: restore_owner_def restore_laned_def restore_owned_def set_to rebuilt_pending b
        restored_snoc boot_member_def unparked_def Let_def list_update_append nth_append
        split: option.splits)
qed

lemma restored_terminal:
  "\<not> still_pending env c \<Longrightarrow> restored env laned (p @ [c]) = restored env laned p @ [rebuilt_member env c]"
  by (simp add: restored_snoc unparked_def boot_member_def)

lemma restore_from:
  "members b = restored env laned p @ map (rebuilt_member env) q \<Longrightarrow> distinct (p @ q) \<Longrightarrow>
     foldl (restore_owner env laned) b (filter (still_pending env) q) =
     b\<lparr>members := restored env laned (p @ q)\<rparr>"
proof (induction q arbitrary: p b)
  case (Cons c q)
  show ?case
  proof (cases "still_pending env c")
    case True
    with Cons.prems have "restore_owner env laned b c =
        b\<lparr>members := restored env laned (p @ [c]) @ map (rebuilt_member env) q\<rparr>"
      by (intro restore_owner_at) auto
    with Cons.IH [of "b\<lparr>members := restored env laned (p @ [c]) @ map (rebuilt_member env) q\<rparr>" "p @ [c]"]
      Cons.prems True show ?thesis by simp
  next
    case False
    with Cons.IH [of b "p @ [c]"] Cons.prems show ?thesis by (simp add: restored_terminal)
  qed
qed simp

section \<open>The start\<close>

lemma first_applies_held:
  "find (unparked env laned) ids \<noteq> None \<Longrightarrow>
     list_ex (\<lambda>m. status m = Applying) (first_applies (map (boot_member env laned) ids))"
  by (induction ids) (auto simp: first_applies_def boot_queued)

lemma start_restored:
  "start_next \<lparr>batch_id = bid, batch_actor = actor, members = restored env laned ids\<rparr> =
     ((case find (unparked env laned) ids of
         None \<Rightarrow> None | Some c \<Rightarrow> if recovered_owner env c = None then Some c else None),
      boot_batch env laned (bid, ids, actor))"
proof -
  have none: "\<not> list_ex (\<lambda>m. status m = Applying) (map (boot_member env laned) ids)"
    by (induction ids) (auto simp: boot_not_applying)
  have queued: "find (\<lambda>m. status m = Queued) (map (boot_member env laned) ids) =
      map_option (boot_member env laned) (find (unparked env laned) ids)"
    by (induction ids) (auto simp: boot_queued)
  show ?thesis
  proof (cases "find (unparked env laned) ids")
    case None
    then have "update_first (\<lambda>m. status m = Queued) f (map (boot_member env laned) ids) =
        map (boot_member env laned) ids" for f
      using queued by (intro update_first_none) simp
    with None none queued show ?thesis
      by (simp add: start_next_def restored_def queue_held_at_boot_def boot_batch_def first_applies_def)
  next
    case (Some c)
    then have "unparked env laned c" by (auto simp: find_Some_iff)
    then have "recovered_owner env c \<noteq> Some True" by (simp add: unparked_def)
    with Some none queued first_applies_held [of env laned ids] show ?thesis
      by (auto simp: start_next_def restored_def queue_held_at_boot_def boot_batch_def first_applies_def)
  qed
qed

end
