(* ===== verification/Apply_All_Properties.thy ===== *)
theory Apply_All_Properties
  imports Apply_All_Boot
begin

text \<open>
  What an Apply All guarantees: a batch cannot loop, every press is announced complete exactly once with
  an account of each of its members, a change is in one batch at most, the queue is never idle, and boot
  drives no member that a session or the landing lane owns.
\<close>

section \<open>A batch cannot loop\<close>

fun run_batch :: "drive_msg list \<Rightarrow> batch_progress \<Rightarrow> advance_step list \<times> batch_progress" where
  "run_batch [] b = ([], b)"
| "run_batch (msg # msgs) b =
     (case batch_step msg b of
        (adv, b) \<Rightarrow> (case run_batch msgs b of (advs, b) \<Rightarrow> (adv # advs, b)))"

text \<open>What is left of a member's life, and how often it can still start.\<close>

definition life :: "batch_member \<Rightarrow> nat" where
  "life m =
     (if is_terminal (status m) then 0
      else (if requeued m then 0 else 3) +
           (case status m of Queued \<Rightarrow> 3 | Applying \<Rightarrow> 2 | _ \<Rightarrow> 1))"

definition tries :: "batch_member \<Rightarrow> nat" where
  "tries m =
     (if is_terminal (status m) then 0
      else (if requeued m then 0 else 1) + (if status m = Queued then 1 else 0))"

definition batch_life :: "batch_progress \<Rightarrow> nat" where
  "batch_life b = sum_list (map life (members b))"

definition batch_tries :: "batch_progress \<Rightarrow> nat" where
  "batch_tries b = sum_list (map tries (members b))"

definition is_start :: "advance_step \<Rightarrow> bool" where
  "is_start adv = (case adv of Start _ \<Rightarrow> True | _ \<Rightarrow> False)"

lemma moved_life: "moved m m' \<Longrightarrow> life m' < life m \<and> tries m' \<le> tries m"
  by (cases "status m"; cases "status m'") (auto simp: moved_def life_def tries_def)

lemma advance_batch_life:
  "advance_batch b = (adv, b') \<Longrightarrow>
     batch_life b' \<le> batch_life b \<and> batch_tries b' + of_bool (is_start adv) \<le> batch_tries b"
  by (erule advance_batch_cases)
     (auto simp: batch_life_def batch_tries_def is_start_def life_def tries_def)

lemma batch_step_life:
  assumes "batch_step msg b = (adv, b')"
  shows "batch_life b' + of_bool (adv \<noteq> Duplicate) \<le> batch_life b \<and>
    batch_tries b' + of_bool (is_start adv) \<le> batch_tries b"
  using assms
proof (cases rule: batch_step_cases)
  case same
  then show ?thesis by (simp add: is_start_def)
next
  case (move ys m m' zs)
  let ?b = "b\<lparr>members := ys @ m' # zs\<rparr>"
  from move(1) moved_life [OF move(3)]
  have "batch_life ?b < batch_life b" "batch_tries ?b \<le> batch_tries b"
    by (auto simp: batch_life_def batch_tries_def)
  with advance_batch_life [OF move(4)] show ?thesis by auto
qed

lemma run_batch_life:
  "run_batch msgs b = (advs, b') \<Longrightarrow>
     batch_life b' + length (filter (\<lambda>a. a \<noteq> Duplicate) advs) \<le> batch_life b \<and>
     batch_tries b' + length (filter is_start advs) \<le> batch_tries b"
proof (induction msgs arbitrary: b advs)
  case (Cons msg msgs)
  obtain adv b1 where step: "batch_step msg b = (adv, b1)" by fastforce
  obtain advs1 where run: "run_batch msgs b1 = (advs1, b')" "advs = adv # advs1"
    using Cons.prems step by (auto split: prod.splits)
  from Cons.IH [OF run(1)] batch_step_life [OF step] run(2) show ?case
    by (auto simp: of_bool_def split: if_splits)
qed simp

lemma new_progress_life:
  "batch_life (new_progress bid ids actor) = 6 * length ids"
  "batch_tries (new_progress bid ids actor) = 2 * length ids"
  by (induction ids) (auto simp: batch_life_def batch_tries_def new_progress_def life_def tries_def)

lemma start_next_life:
  "start_next b = (next, b') \<Longrightarrow>
     batch_life b' \<le> batch_life b \<and> batch_tries b' + of_bool (next \<noteq> None) \<le> batch_tries b"
  by (cases b rule: start_next_cases)
     (auto simp: batch_life_def batch_tries_def life_def tries_def)

lemma start_next_new: "ids \<noteq> [] \<Longrightarrow> fst (start_next (new_progress bid ids actor)) \<noteq> None"
  by (cases ids) (auto simp: start_next_def new_progress_def list_ex_iff)

text \<open>C23. A batch ends: however the reports of its members arrive, a batch of n members starts an apply at
  most 2n times in all, its press included, and changes state at most 6n times, so a member that keeps
  colliding with what lands meanwhile cannot hold the queue for ever.\<close>

theorem a_batch_cannot_loop:
  assumes "start_next (new_progress bid ids actor) = (first, b)" "run_batch msgs b = (advs, b')"
  shows "length (filter is_start advs) + of_bool (ids \<noteq> []) \<le> 2 * length ids \<and>
    length (filter (\<lambda>a. a \<noteq> Duplicate) advs) \<le> 6 * length ids"
  using run_batch_life [OF assms(2)] start_next_life [OF assms(1)] new_progress_life [of bid ids actor]
    start_next_new [of ids bid actor] assms(1)
  by (auto simp: of_bool_def split: if_splits)

theorem a_batch_cannot_loop_witness:
  "length (filter is_start [Start 8, Wait, Start 7]) + of_bool ([7 :: uuid, 8] \<noteq> []) \<le> 2 * length [7 :: uuid, 8] \<and>
   length (filter (\<lambda>a. a \<noteq> Duplicate) [Start 8, Wait, Start 7]) \<le> 6 * length [7 :: uuid, 8]"
  by (rule a_batch_cannot_loop [of 1 _ None "Some 7" _ "[MsgParked 7, MsgFailed 7 concurrent_main_conflict, MsgApplied 8]"])
     code_simp+

section \<open>One end for each member\<close>

lemma advance_batch_keeps_ends:
  "advance_batch b = (adv, b') \<Longrightarrow> m \<in> set (members b) \<Longrightarrow> is_terminal (status m) \<Longrightarrow> m \<in> set (members b')"
  by (erule advance_batch_cases) auto

lemma batch_step_keeps_ends:
  assumes "batch_step msg b = (adv, b')" "m \<in> set (members b)" "is_terminal (status m)"
  shows "m \<in> set (members b')"
  using assms(1)
proof (cases rule: batch_step_cases)
  case (move ys n n' zs)
  then have "\<not> is_terminal (status n)" by (auto simp: moved_def)
  with move(1) assms(2,3) have "m \<in> set (members (b\<lparr>members := ys @ n' # zs\<rparr>))" by auto
  from advance_batch_keeps_ends [OF move(4) this assms(3)] show ?thesis .
qed (use assms in simp)

lemma run_batch_keeps_ends:
  "run_batch msgs b = (advs, b') \<Longrightarrow> m \<in> set (members b) \<Longrightarrow> is_terminal (status m) \<Longrightarrow> m \<in> set (members b')"
proof (induction msgs arbitrary: b advs)
  case (Cons msg msgs)
  then show ?case using batch_step_keeps_ends by (auto split: prod.splits)
qed simp

lemma run_batch_same: "run_batch msgs b = (advs, b') \<Longrightarrow> ids_of b' = ids_of b"
proof (induction msgs arbitrary: b advs)
  case (Cons msg msgs)
  then show ?case using batch_step_same by (auto split: prod.splits)
qed simp

text \<open>C25. The first end of a member is its only one: whatever reports come later, a member that was
  applied or failed keeps that end with its first error, and once the batch is complete the applied and
  the failed members together are the members of the press, each once.\<close>

theorem the_first_end_wins:
  assumes "run_batch msgs b = (advs, b')" "m \<in> set (members b)" "is_terminal (status m)" "is_complete b'"
  shows "m \<in> set (members b') \<and>
    mset (applied_ids b' @ map failed_change (failures b')) = mset (ids_of b)"
  using run_batch_keeps_ends [OF assms(1-3)] complete_account [OF assms(4)] run_batch_same [OF assms(1)]
  by simp

definition one_left :: batch_progress where
  "one_left =
     \<lparr>batch_id = 1, batch_actor = None,
      members = [\<lparr>member_change = 7, status = Applied, requeued = False\<rparr>,
                 \<lparr>member_change = 8, status = Applying, requeued = False\<rparr>]\<rparr>"

definition late_reports :: "drive_msg list" where
  "late_reports = [MsgFailed 7 ''late'', MsgFailed 8 ''no'', MsgApplied 8]"

theorem the_first_end_wins_witness:
  "hd (members one_left) \<in> set (members (snd (run_batch late_reports one_left))) \<and>
   mset (applied_ids (snd (run_batch late_reports one_left)) @
         map failed_change (failures (snd (run_batch late_reports one_left)))) =
   mset (ids_of one_left)"
  by (rule the_first_end_wins [of late_reports one_left "fst (run_batch late_reports one_left)"])
     (simp, code_simp+)

section \<open>Every press ends once\<close>

definition never_idle :: "batch_progress \<Rightarrow> bool" where
  "never_idle b \<longleftrightarrow>
     applying_count (members b) = 1 \<or>
     applying_count (members b) = 0 \<and> list_ex (\<lambda>m. status m = Resolving) (members b) \<and>
       \<not> list_ex (\<lambda>m. status m = Queued) (members b)"

lemma running_never_idle:
  assumes "running_batch e"
  shows "never_idle (snd e)"
proof -
  let ?b = "snd e"
  from assms have busy: "busy_queue ?b" and live: "\<not> is_complete ?b" by (simp_all add: running_batch_def)
  then obtain m where m: "m \<in> set (members ?b)" "\<not> is_terminal (status m)"
    by (auto simp: is_complete_def list_all_iff)
  show ?thesis
  proof (cases "applying_count (members ?b) = 1")
    case False
    with busy have "applying_count (members ?b) = 0" "\<not> list_ex (\<lambda>m. status m = Queued) (members ?b)"
      by (auto simp: busy_queue_def)
    with m show ?thesis by (cases "status m") (auto simp: never_idle_def list_ex_iff applying_count_zero)
  qed (simp add: never_idle_def)
qed

text \<open>C24. Every press ends once: whatever presses, reports and cancels follow each other, the batches
  announced as started are those announced as complete, each once and with an account of exactly its
  members, plus those the registry still holds. A change is in one batch at most, and in a batch that
  runs one member applies, or all that is left is parked.\<close>

theorem every_press_ends_once:
  assumes "apply_all_run ops [] = (reg, es)" "list_all press_ok ops" "distinct (press_ids ops)"
  shows "mset (started_in es) = mset (completed_in es) + mset (owed_by reg) \<and>
    distinct (map fst (started_in es)) \<and> distinct (batch_ids_of reg) \<and>
    list_all (\<lambda>(bid, b). never_idle b) reg"
proof -
  have "registry_ok []" by (simp add: registry_ok_def)
  from apply_all_run_facts [OF this assms]
  have "registry_ok reg" "accounts [] es reg" "subseq (map fst (started_in es)) (press_ids ops)"
    by (simp_all add: hm_keys_def)
  moreover from this have "list_all (\<lambda>(bid, b). never_idle b) reg"
    by (auto simp: registry_ok_def list_all_iff dest!: bspec running_never_idle)
  ultimately show ?thesis
    using assms(3) by (auto simp: registry_ok_def accounts_def subseq_conv_nths dest: distinct_nthsI)
qed

definition demo_env :: apply_env where
  "demo_env =
     \<lparr>change_by_id = (\<lambda>c. if c = 5 then Inr None
        else Inr (Some \<lparr>change_id = c, change_thread = Some (c + 10), branch_name = ''b'', file_count = 1,
                       change_state = (if c = 6 then ChApplied else ChPending)\<rparr>)),
      unsettled_threads = (\<lambda>_. Inr []), apply_change = (\<lambda>_. Inr StQueued),
      lane_held = (\<lambda>cs. Inr (filter (\<lambda>c. c = 7) cs)), agent_running = (\<lambda>t. t = 18),
      resume_queued = (\<lambda>_. False), pairing_open = (\<lambda>_ _. Some True), cancel_lane_members = (\<lambda>_. []),
      list_pending = Inr [], apply_ready = (\<lambda>rs. Inr rs), sweep_arms = (\<lambda>_. 0)\<rparr>"

definition demo_ops :: "apply_all_op list" where
  "demo_ops =
     [Press 1 [21, 22] None, Report (MsgApplied 21), Press 2 [22, 23] None, CancelAll demo_env, Press 3 [22] None]"

theorem every_press_ends_once_witness:
  "let es = snd (apply_all_run demo_ops []); reg = fst (apply_all_run demo_ops []) in
   mset (started_in es) = mset (completed_in es) + mset (owed_by reg) \<and>
    distinct (map fst (started_in es)) \<and> distinct (batch_ids_of reg) \<and>
    list_all (\<lambda>(bid, b). never_idle b) reg"
  unfolding Let_def
  by (rule every_press_ends_once [of demo_ops]) (simp, code_simp+)

section \<open>Boot\<close>

lemma boot_batch_busy: "busy_queue (boot_batch env laned (bid, ids, actor))"
proof -
  have "applying_count (restored env laned ids) \<le> 1"
  proof -
    have none: "applying_count (map (boot_member env laned) cs) = 0" for cs
      by (auto simp: applying_count_zero boot_not_applying)
    have "applying_count (first_applies (map (boot_member env laned) cs)) \<le> 1" for cs
      using none by (induction cs) (auto simp: first_applies_def boot_not_applying)
    with none show ?thesis by (simp add: restored_def)
  qed
  with start_next_busy [of "\<lparr>batch_id = bid, batch_actor = actor, members = restored env laned ids\<rparr>"]
  show ?thesis by (simp add: start_restored)
qed

text \<open>C28. Boot restores every owner: a persisted press with a change still pending comes back with each
  member in the state its stored change, the landing lane and its session give it. A member in the lane
  or with a resolver is parked, the first of the others holds the queue, the rest wait behind it, and the
  one member boot drives is that first one, only when no session owns it.\<close>

theorem boot_restores_every_owner:
  assumes "distinct ids" "list_ex (still_pending env) ids"
    "lane_held env (filter (still_pending env) ids) = Inr laned"
  shows "recover_batch_row env reg (bid, ids, actor) =
      (registry_insert (boot_batch env laned (bid, ids, actor)) reg,
       case find (unparked env laned) ids of
         None \<Rightarrow> []
       | Some c \<Rightarrow> if recovered_owner env c = None then [SpawnMember c actor] else []) \<and>
    busy_queue (boot_batch env laned (bid, ids, actor))"
proof -
  let ?b = "\<lparr>batch_id = bid, batch_actor = actor, members = map (rebuilt_member env) ids\<rparr>"
  have live: "\<not> is_complete ?b"
    using assms(2) by (auto simp: is_complete_def list_all_iff list_ex_iff rebuilt_terminal)
  have pending: "pending_members ?b = filter (still_pending env) ids"
    using pending_rebuilt [where b = ?b] by simp
  have owners: "foldl (restore_owner env laned) ?b (filter (still_pending env) ids) =
      \<lparr>batch_id = bid, batch_actor = actor, members = restored env laned ids\<rparr>"
    using restore_from [of ?b env laned "[]" ids] assms(1)
    by (simp add: restored_def queue_held_at_boot_def)
  show ?thesis
    using live boot_batch_busy assms(3)
    by (auto simp: recover_batch_row_def rebuilt_batch_members [OF assms(1)] pending owners start_restored
        split: option.splits)
qed

theorem boot_restores_every_owner_witness:
  "recover_batch_row demo_env [] (1, [5, 6, 7, 8, 9, 4], None) =
      (registry_insert (boot_batch demo_env [7] (1, [5, 6, 7, 8, 9, 4], None)) [],
       case find (unparked demo_env [7]) [5, 6, 7, 8, 9, 4] of
         None \<Rightarrow> []
       | Some c \<Rightarrow> if recovered_owner demo_env c = None then [SpawnMember c None] else []) \<and>
   busy_queue (boot_batch demo_env [7] (1, [5, 6, 7, 8, 9, 4], None)) \<and>
   find (unparked demo_env [7]) [5, 6, 7, 8, 9, 4] = Some 9 \<and>
   recovered_owner demo_env 9 = None"
proof -
  have "find (unparked demo_env [7]) [5, 6, 7, 8, 9, 4] = Some 9" "recovered_owner demo_env 9 = None"
    by code_simp+
  with boot_restores_every_owner [of "[5, 6, 7, 8, 9, 4]" demo_env "[7]" "[]" 1 None] show ?thesis
    by code_simp
qed

end
