(* ===== verification/Event_Waits.thy ===== *)
theory Event_Waits
  imports Event_Subscription
begin

text \<open>
  Event waits, the part without the engine (\<open>engine/event_wait/mod.rs\<close>, \<open>engine/event_wait/register.rs\<close>):
  a live wait, the cache of live waits, the one matcher, the scans of the event store forward from a wait's
  watermark and backward from its arming, the queries the boot rebuild runs, and what a registration
  refuses.

  A row of the event store holds its sequence, its type, its payload and its thread; what the payload of an
  \<open>EventWait*\<close> row says is its note. A time is in milliseconds. The regular expression engine and the text of
  a thread's id are parameters, as in \<open>Event_Subscription\<close>.
\<close>

section \<open>Waits and rows\<close>

record live_wait =
  wait_id :: uuid
  wait_thread :: uuid
  tool_use_id :: string
  wait_on :: "event_subscription list"
  wait_reason :: string
  armed_at :: int
  expires_at :: int
  watermark :: int

datatype wait_cancel_cause = UserStop | AgentStandDown | ThreadArchivedCause | ThreadDiscardedCause | SnapshotRestored

datatype wait_note =
  NoNote
| StartedNote live_wait
| DeliveredNote uuid uuid nat
| ExpiredNote uuid
| CanceledNote uuid wait_cancel_cause

fun resolves_wait :: "wait_note \<Rightarrow> uuid option" where
  "resolves_wait (DeliveredNote w e i) = Some w"
| "resolves_wait (ExpiredNote w) = Some w"
| "resolves_wait (CanceledNote w cause) = Some w"
| "resolves_wait _ = None"

fun starts_wait :: "wait_note \<Rightarrow> live_wait option" where
  "starts_wait (StartedNote w) = Some w"
| "starts_wait _ = None"

record stored_event =
  ev_seq :: int
  ev_id :: uuid
  ev_thread :: "uuid option"
  ev_type :: string
  ev_payload :: json
  ev_keep_alive_idle :: bool
  ev_note :: wait_note

section \<open>Matching\<close>

definition matched_index :: "regex_new \<Rightarrow> live_wait \<Rightarrow> string \<Rightarrow> json \<Rightarrow> nat option" where
  "matched_index regex w event_type payload =
     position (\<lambda>sub. subscription_matches regex sub event_type payload) (wait_on w)"

definition wait_watches :: "live_wait \<Rightarrow> string \<Rightarrow> bool" where
  "wait_watches w event_type = list_ex (\<lambda>sub. es_event_type sub = event_type) (wait_on w)"

definition waits_matching :: "regex_new \<Rightarrow> live_wait list \<Rightarrow> string \<Rightarrow> json \<Rightarrow> (uuid \<times> nat) list" where
  "waits_matching regex waits event_type payload =
     List.map_filter (\<lambda>w. map_option (\<lambda>i. (wait_id w, i)) (matched_index regex w event_type payload)) waits"

definition row_view :: "(uuid \<Rightarrow> string) \<Rightarrow> stored_event \<Rightarrow> json" where
  "row_view uuid_text r = matchable_payload uuid_text (ev_type r) (ev_payload r) (ev_thread r)"

definition waits_matching_row :: "regex_new \<Rightarrow> (uuid \<Rightarrow> string) \<Rightarrow> live_wait list \<Rightarrow> stored_event \<Rightarrow> (uuid \<times> nat) list" where
  "waits_matching_row regex uuid_text waits r = waits_matching regex waits (ev_type r) (row_view uuid_text r)"

text \<open>Which frames are offered. A thread's frame passes \<open>is_awaitable_event\<close>; a system frame is a domain event
  or a persisted one, and every row of the store is one of these.\<close>

definition is_awaitable_event :: "stored_event \<Rightarrow> bool" where
  "is_awaitable_event r =
     (ev_type r \<notin> set per_token_streaming_event_types \<and> ev_type r \<notin> set side_question_event_types \<and>
      \<not> ev_keep_alive_idle r \<and> ev_type r \<notin> set event_wait_event_types)"

definition is_offered :: "stored_event \<Rightarrow> bool" where
  "is_offered r = (ev_thread r = None \<or> is_awaitable_event r)"

definition expired_waits :: "live_wait list \<Rightarrow> int \<Rightarrow> uuid list" where
  "expired_waits waits now = map wait_id (filter (\<lambda>w. expires_at w \<le> now) waits)"

section \<open>The cache\<close>

type_synonym live_waits = "(uuid \<times> live_wait) list"

definition lw_insert :: "live_wait \<Rightarrow> live_waits \<Rightarrow> live_waits" where
  "lw_insert w waits = hm_insert (wait_id w) w waits"

definition lw_take :: "uuid \<Rightarrow> live_waits \<Rightarrow> live_wait option \<times> live_waits" where
  "lw_take wid waits = (hm_get waits wid, hm_remove wid waits)"

definition lw_take_on_thread :: "uuid \<Rightarrow> uuid \<Rightarrow> live_waits \<Rightarrow> live_wait option \<times> live_waits" where
  "lw_take_on_thread t wid waits =
     (case hm_get waits wid of
        Some w \<Rightarrow> if wait_thread w = t then (Some w, hm_remove wid waits) else (None, waits)
      | None \<Rightarrow> (None, waits))"

definition lw_for_thread :: "uuid \<Rightarrow> live_waits \<Rightarrow> live_wait list" where
  "lw_for_thread t waits = filter (\<lambda>w. wait_thread w = t) (map snd waits)"

definition lw_snapshot :: "live_waits \<Rightarrow> live_wait list" where
  "lw_snapshot waits = sort_key watermark (map snd waits)"

section \<open>The queries over the store\<close>

definition unresolved_row :: "stored_event list \<Rightarrow> stored_event \<Rightarrow> bool" where
  "unresolved_row rows e =
     (ev_thread e \<noteq> None \<and>
      (case ev_note e of
         StartedNote w \<Rightarrow>
           \<not> list_ex (\<lambda>r. ev_thread r = ev_thread e \<and> ev_seq e < ev_seq r \<and>
                resolves_wait (ev_note r) = Some (wait_id w)) rows
       | _ \<Rightarrow> False))"

definition live_wait_rows :: "int \<Rightarrow> stored_event list \<Rightarrow> stored_event list" where
  "live_wait_rows restore_floor rows =
     sort_key ev_seq (filter (\<lambda>e. restore_floor < ev_seq e \<and> unresolved_row rows e) rows)"

definition archived_wait_rows :: "int \<Rightarrow> stored_event list \<Rightarrow> stored_event list" where
  "archived_wait_rows boundary rows =
     sort_key ev_seq (filter (\<lambda>e. ev_seq e \<le> boundary \<and> unresolved_row rows e) rows)"

definition waits_of_rows :: "stored_event list \<Rightarrow> live_wait list" where
  "waits_of_rows rows = List.map_filter (\<lambda>e. starts_wait (ev_note e)) rows"

definition rebuild_live_waits :: "int \<Rightarrow> stored_event list \<Rightarrow> live_waits \<Rightarrow> live_waits" where
  "rebuild_live_waits restore_floor rows waits =
     fold lw_insert (waits_of_rows (live_wait_rows restore_floor rows)) waits"

definition catch_up_page_size :: nat where
  "catch_up_page_size = 200"

definition scanned_row :: "live_wait \<Rightarrow> stored_event \<Rightarrow> bool" where
  "scanned_row w r = (ev_type r \<in> set (map es_event_type (wait_on w)) \<and> \<not> ev_keep_alive_idle r)"

definition catch_up_page :: "live_wait \<Rightarrow> int \<Rightarrow> stored_event list \<Rightarrow> stored_event list" where
  "catch_up_page w after rows =
     take catch_up_page_size (sort_key ev_seq (filter (\<lambda>r. after < ev_seq r \<and> scanned_row w r) rows))"

text \<open>One turn of \<open>catch_up_from_watermark\<close>: a page is read, and the first row that matches ends the scan.\<close>

datatype scan_turn = ScanHit stored_event nat | ScanDone | ScanOn int

definition row_hit :: "regex_new \<Rightarrow> (uuid \<Rightarrow> string) \<Rightarrow> live_wait \<Rightarrow> stored_event \<Rightarrow> (stored_event \<times> nat) option" where
  "row_hit regex uuid_text w r =
     map_option (\<lambda>i. (r, i)) (matched_index regex w (ev_type r) (row_view uuid_text r))"

definition scan_turn :: "regex_new \<Rightarrow> (uuid \<Rightarrow> string) \<Rightarrow> live_wait \<Rightarrow> int \<Rightarrow> stored_event list \<Rightarrow> scan_turn" where
  "scan_turn regex uuid_text w after rows =
     (if wait_on w = [] then ScanDone
      else
        (let page = catch_up_page w after rows in
         case List.map_filter (row_hit regex uuid_text w) page of
           (r, i) # _ \<Rightarrow> ScanHit r i
         | [] \<Rightarrow> if length page < catch_up_page_size then ScanDone else ScanOn (ev_seq (last page))))"

section \<open>The arming lookback\<close>

definition arming_lookback_max_pages :: nat where
  "arming_lookback_max_pages = 3"

record arming_lookback =
  lookback_matches :: "stored_event list"
  lookback_more :: bool

definition lookback_page :: "event_subscription list \<Rightarrow> int \<Rightarrow> (stored_event \<Rightarrow> bool) \<Rightarrow> stored_event list \<Rightarrow> stored_event list" where
  "lookback_page on upper recent rows =
     take catch_up_page_size
       (rev (sort_key ev_seq (filter (\<lambda>r. ev_seq r \<le> upper \<and> recent r \<and>
          ev_type r \<in> set (map es_event_type on) \<and> \<not> ev_keep_alive_idle r) rows)))"

text \<open>The loop with the pages it may still read. \<open>recent\<close> is the window on the database's clock.\<close>

fun lookback_loop ::
  "(stored_event \<Rightarrow> bool) \<Rightarrow> event_subscription list \<Rightarrow> (stored_event \<Rightarrow> bool) \<Rightarrow> stored_event list \<Rightarrow> nat \<Rightarrow>
     nat \<Rightarrow> int \<Rightarrow> stored_event list \<Rightarrow> stored_event list" where
  "lookback_loop hit on recent rows wanted 0 upper found = found"
| "lookback_loop hit on recent rows wanted (Suc pages) upper found =
     (if wanted \<le> length found then found
      else
        (let page = lookback_page on upper recent rows;
             found' = found @ take (wanted - length found) (filter hit page)
         in if wanted \<le> length found' \<or> length page < catch_up_page_size then found'
            else lookback_loop hit on recent rows wanted pages (ev_seq (last page) - 1) found'))"

definition arming_lookback_matches ::
  "regex_new \<Rightarrow> (uuid \<Rightarrow> string) \<Rightarrow> event_subscription list \<Rightarrow> int \<Rightarrow> (stored_event \<Rightarrow> bool) \<Rightarrow> uuid set \<Rightarrow> nat \<Rightarrow>
     stored_event list \<Rightarrow> arming_lookback" where
  "arming_lookback_matches regex uuid_text on mark recent already_delivered limit rows =
     (let found =
        (if on = [] then []
         else lookback_loop
                (\<lambda>r. ev_id r \<notin> already_delivered \<and> any_matches regex on (ev_type r) (row_view uuid_text r))
                on recent rows (limit + 1) arming_lookback_max_pages mark [])
      in \<lparr>lookback_matches = take limit found, lookback_more = limit < length found\<rparr>)"

section \<open>Registration\<close>

definition max_timeout_secs :: int where
  "max_timeout_secs = 24 * 60 * 60"

definition max_recent_subscriptions :: int where
  "max_recent_subscriptions = 20"

definition max_live_waits_per_thread :: nat where
  "max_live_waits_per_thread = 25"

datatype await_refusal =
  OnNotAnArray | OnEmpty | EntryNotAnObject json | EntryWithoutType json
| RefusedSubscription refusal
| TimeoutMissing | TimeoutNotWhole json | TimeoutTooSmall int | TimeoutTooLong int
| ReasonMissing
| AlreadyWaiting "event_subscription list"
| TooManyLive nat | TooManyRecent int | CountUnreadable string

fun parse_entries :: "json list \<Rightarrow> event_subscription list \<Rightarrow> await_refusal + event_subscription list" where
  "parse_entries [] subs = Inr subs"
| "parse_entries (entry # entries) subs =
     (case as_object entry of
        None \<Rightarrow> Inl (EntryNotAnObject entry)
      | Some obj \<Rightarrow>
     (case from_object_entry obj of
        None \<Rightarrow> Inl (EntryWithoutType entry)
      | Some sub \<Rightarrow>
     (case validate_subscribable_event_type (es_event_type sub) WaitSurface of
        Inl r \<Rightarrow> Inl (RefusedSubscription r)
      | Inr _ \<Rightarrow> parse_entries entries (subs @ [sub]))))"

definition parse_subscriptions :: "json \<Rightarrow> await_refusal + event_subscription list" where
  "parse_subscriptions args =
     (case Option.bind (json_get args ''on'') as_array of
        None \<Rightarrow> Inl OnNotAnArray
      | Some entries \<Rightarrow> if entries = [] then Inl OnEmpty else parse_entries entries [])"

text \<open>\<open>Value::as_i64\<close>: an unsigned number above the signed range is none.\<close>

fun as_i64 :: "json \<Rightarrow> int option" where
  "as_i64 (JNumber (PosInt w)) = (if uint w < 2 ^ 63 then Some (uint w) else None)"
| "as_i64 (JNumber (NegInt w)) = Some (sint w)"
| "as_i64 _ = None"

definition parse_timeout_secs :: "json \<Rightarrow> await_refusal + int" where
  "parse_timeout_secs args =
     (case json_get args ''timeout_secs'' of
        None \<Rightarrow> Inl TimeoutMissing
      | Some raw \<Rightarrow>
     (case as_i64 raw of
        None \<Rightarrow> Inl (TimeoutNotWhole raw)
      | Some secs \<Rightarrow>
          if secs < 1 then Inl (TimeoutTooSmall secs)
          else if max_timeout_secs < secs then Inl (TimeoutTooLong secs)
          else Inr secs))"

definition event_wait_caps_refusal ::
  "live_waits \<Rightarrow> uuid \<Rightarrow> event_subscription list \<Rightarrow> string + int \<Rightarrow> await_refusal option" where
  "event_wait_caps_refusal waits t on recent =
     (let live = lw_for_thread t waits in
      if list_ex (\<lambda>w. wait_on w = on) live then Some (AlreadyWaiting on)
      else if max_live_waits_per_thread \<le> length live then Some (TooManyLive (length live))
      else case recent of
             Inr n \<Rightarrow> if max_recent_subscriptions \<le> n then Some (TooManyRecent n) else None
           | Inl e \<Rightarrow> Some (CountUnreadable e))"

text \<open>What \<open>register_event_wait\<close> decides before it writes anything. \<open>check\<close> is the half of the validation that
  asks the event store (\<open>check_subscriptions\<close>), \<open>recent\<close> the store's count of recent subscriptions.\<close>

definition register_decision ::
  "(event_subscription list \<Rightarrow> refusal + subscription_warning list) \<Rightarrow> string + int \<Rightarrow> live_waits \<Rightarrow> uuid \<Rightarrow>
     json \<Rightarrow> await_refusal + event_subscription list \<times> string \<times> int \<times> subscription_warning list" where
  "register_decision check recent waits t args =
     (case parse_subscriptions args of
        Inl e \<Rightarrow> Inl e
      | Inr on \<Rightarrow>
     (case check on of
        Inl e \<Rightarrow> Inl (RefusedSubscription e)
      | Inr warnings \<Rightarrow>
     (case parse_timeout_secs args of
        Inl e \<Rightarrow> Inl e
      | Inr secs \<Rightarrow>
          (let reason = (case Option.bind (json_get args ''reason'') as_str of None \<Rightarrow> [] | Some s \<Rightarrow> trim s) in
           if reason = [] then Inl ReasonMissing
           else case event_wait_caps_refusal waits t on recent of
                  Some e \<Rightarrow> Inl e
                | None \<Rightarrow> Inr (on, reason, secs, warnings)))))"

definition build_wait_at ::
  "uuid \<Rightarrow> int \<Rightarrow> uuid \<Rightarrow> string \<Rightarrow> event_subscription list \<Rightarrow> string \<Rightarrow> int \<Rightarrow> int \<Rightarrow> live_wait" where
  "build_wait_at fresh now t tool on reason timeout_secs mark =
     \<lparr>wait_id = fresh, wait_thread = t, tool_use_id = tool, wait_on = on, wait_reason = reason,
      armed_at = now, expires_at = now + timeout_secs * 1000, watermark = mark\<rparr>"

end
