(* ===== verification/Event_Wait_Dispatch.thy ===== *)
theory Event_Wait_Dispatch
  imports Event_Waits
begin

text \<open>
  Event waits as they run (\<open>engine/event_wait/dispatcher.rs\<close>, the writes of \<open>engine/event_wait/mod.rs\<close> and
  \<open>engine/event_wait/register.rs\<close>, and the committed horizon of \<open>engine/event_bus/append_horizon.rs\<close>).

  The tasks of the engine interleave at every await, so each piece between two awaits is an operation of
  its own, and a run is any sequence of operations: appends that commit or fail, registrations in their four
  steps (read the horizon, wait out the appends in flight, write the row, fill the cache) and the scan that
  follows, the dispatcher that hears one frame,
  cancels what it ends, reads the cache and takes each match, the deadline sweep, cancels,
  the write of a resolution, a lagged subscriber, the teardown flag, a restart. An operation whose index names
  nothing does nothing.

  The store allocates sequences in order and commits appends in any order. A row is broadcast when it
  commits; the frame carries the same view of the payload as the row.
\<close>

section \<open>State\<close>

datatype wait_resolution = Delivery stored_event nat | Expiry | Cancellation wait_cancel_cause

datatype append_purpose = PlainAppend | StartAppend live_wait | ResolveAppend live_wait wait_resolution

record open_append =
  ap_key :: int
  ap_rows :: "stored_event list"
  ap_purpose :: append_purpose

text \<open>A registration that waits for the appends that were in flight when it read the horizon.\<close>

record pending_wait =
  pw_thread :: uuid
  pw_tool :: string
  pw_on :: "event_subscription list"
  pw_reason :: string
  pw_timeout :: int
  pw_horizon :: int
  pw_in_flight :: "int list"

record wait_system =
  ws_store :: "stored_event list"
  ws_next :: int
  ws_open :: "open_append list"
  ws_frames :: "stored_event list"
  ws_cache :: live_waits
  ws_reading :: "pending_wait list"
  ws_uncached :: "live_wait list"
  ws_scans :: "(live_wait \<times> int) list"
  ws_hits :: "(live_wait \<times> stored_event \<times> nat) list"
  ws_ended :: "(uuid \<times> wait_cancel_cause) list"
  ws_heard :: "stored_event option"
  ws_offering :: "(uuid \<times> nat \<times> stored_event) list"
  ws_ending :: "(uuid \<times> wait_cancel_cause) list"
  ws_expiring :: "uuid list"
  ws_rescan :: bool
  ws_taken :: "(live_wait \<times> wait_resolution) list"
  ws_reentries :: "(uuid \<times> uuid) list"
  ws_down :: bool
  ws_booted :: bool

definition wait_system_new :: wait_system where
  "wait_system_new =
     \<lparr>ws_store = [], ws_next = 1, ws_open = [], ws_frames = [], ws_cache = [], ws_reading = [], ws_uncached = [],
      ws_scans = [], ws_hits = [], ws_ended = [], ws_heard = None, ws_offering = [], ws_ending = [], ws_expiring = [], ws_rescan = False,
      ws_taken = [], ws_reentries = [], ws_down = False, ws_booted = False\<rparr>"

section \<open>Appends\<close>

fun number_rows :: "int \<Rightarrow> stored_event list \<Rightarrow> stored_event list" where
  "number_rows n [] = []"
| "number_rows n (r # rs) = r\<lparr>ev_seq := n\<rparr> # number_rows (n + 1) rs"

definition begin_append :: "stored_event list \<Rightarrow> append_purpose \<Rightarrow> wait_system \<Rightarrow> wait_system" where
  "begin_append rows purpose s =
     s\<lparr>ws_open := ws_open s @ [\<lparr>ap_key = ws_next s, ap_rows = number_rows (ws_next s) rows, ap_purpose = purpose\<rparr>],
       ws_next := ws_next s + int (length rows)\<rparr>"

definition anchor_of :: "stored_event list \<Rightarrow> uuid" where
  "anchor_of rows = ev_id (last rows)"

text \<open>What follows a committed append: the registration goes on to the cache, a resolution that re-enters its
  thread queues the re-entry on its anchor (\<open>queue_wait_reentry\<close>), a cancel re-enters nothing.\<close>

definition after_commit :: "open_append \<Rightarrow> wait_system \<Rightarrow> wait_system" where
  "after_commit a s =
     (case ap_purpose a of
        PlainAppend \<Rightarrow> s
      | StartAppend w \<Rightarrow> s\<lparr>ws_uncached := ws_uncached s @ [w]\<rparr>
      | ResolveAppend w res \<Rightarrow>
          (case res of
             Cancellation cause \<Rightarrow> s
           | _ \<Rightarrow> s\<lparr>ws_reentries := ws_reentries s @ [(wait_thread w, anchor_of (ap_rows a))]\<rparr>))"

definition commit_append :: "nat \<Rightarrow> wait_system \<Rightarrow> wait_system" where
  "commit_append i s =
     (if i < length (ws_open s) then
        (let a = ws_open s ! i in
         after_commit a (s\<lparr>ws_open := remove_nth i (ws_open s), ws_store := ws_store s @ ap_rows a,
                           ws_frames := ws_frames s @ ap_rows a\<rparr>))
      else s)"

text \<open>A failed append wrote nothing. A registration is refused; the write of a resolution puts its wait back
  into the cache (\<open>resolution_emit_failed\<close>), which is an operation of its own.\<close>

definition abort_append :: "nat \<Rightarrow> wait_system \<Rightarrow> wait_system" where
  "abort_append i s =
     (if i < length (ws_open s) then
        (case ap_purpose (ws_open s ! i) of
           ResolveAppend w res \<Rightarrow> s
         | _ \<Rightarrow> s\<lparr>ws_open := remove_nth i (ws_open s)\<rparr>)
      else s)"

definition resolution_emit_failed :: "nat \<Rightarrow> wait_system \<Rightarrow> wait_system" where
  "resolution_emit_failed i s =
     (if i < length (ws_open s) then
        (case ap_purpose (ws_open s ! i) of
           ResolveAppend w res \<Rightarrow> s\<lparr>ws_open := remove_nth i (ws_open s), ws_cache := lw_insert w (ws_cache s)\<rparr>
         | _ \<Rightarrow> s)
      else s)"

section \<open>Registration\<close>

text \<open>\<open>committed_event_horizon\<close>: the largest committed sequence, read first, then the appends in flight, which
  must all have ended before the value may be used.\<close>

definition max_sequence :: "stored_event list \<Rightarrow> int" where
  "max_sequence rows = fold (\<lambda>r m. max (ev_seq r) m) rows 0"

definition read_watermark ::
  "uuid \<Rightarrow> string \<Rightarrow> event_subscription list \<Rightarrow> string \<Rightarrow> int \<Rightarrow> wait_system \<Rightarrow> wait_system" where
  "read_watermark t tool on reason timeout_secs s =
     s\<lparr>ws_reading := ws_reading s @
         [\<lparr>pw_thread = t, pw_tool = tool, pw_on = on, pw_reason = reason, pw_timeout = timeout_secs,
           pw_horizon = max_sequence (ws_store s), pw_in_flight = map ap_key (ws_open s)\<rparr>]\<rparr>"

definition horizon_settled :: "pending_wait \<Rightarrow> wait_system \<Rightarrow> bool" where
  "horizon_settled p s = list_all (\<lambda>a. ap_key a \<notin> set (pw_in_flight p)) (ws_open s)"

definition event_row :: "uuid \<Rightarrow> uuid option \<Rightarrow> string \<Rightarrow> json \<Rightarrow> wait_note \<Rightarrow> stored_event" where
  "event_row eid t name payload note =
     \<lparr>ev_seq = 0, ev_id = eid, ev_thread = t, ev_type = name, ev_payload = payload,
      ev_keep_alive_idle = False, ev_note = note\<rparr>"

text \<open>\<open>build_wait_at\<close> and the write of \<open>persist_wait\<close>. \<open>fresh\<close> is the drawn id of the wait, \<open>eid\<close> that of the row.\<close>

definition persist_wait :: "nat \<Rightarrow> uuid \<Rightarrow> uuid \<Rightarrow> json \<Rightarrow> int \<Rightarrow> wait_system \<Rightarrow> wait_system" where
  "persist_wait i fresh eid payload now s =
     (if i < length (ws_reading s) \<and> horizon_settled (ws_reading s ! i) s then
        (let p = ws_reading s ! i;
             w = build_wait_at fresh now (pw_thread p) (pw_tool p) (pw_on p) (pw_reason p) (pw_timeout p)
                   (pw_horizon p)
         in begin_append [event_row eid (Some (wait_thread w)) ''EventWaitStarted'' payload (StartedNote w)]
              (StartAppend w) (s\<lparr>ws_reading := remove_nth i (ws_reading s)\<rparr>))
      else s)"

text \<open>\<open>catch_up_event_wait\<close> begins unless the engine is shutting down; its pages are \<open>scan_step\<close>.\<close>

definition start_scan :: "live_wait \<Rightarrow> wait_system \<Rightarrow> wait_system" where
  "start_scan w s = (if ws_down s then s else s\<lparr>ws_scans := ws_scans s @ [(w, watermark w)]\<rparr>)"

definition cache_wait :: "nat \<Rightarrow> wait_system \<Rightarrow> wait_system" where
  "cache_wait i s =
     (if i < length (ws_uncached s) then
        (let w = ws_uncached s ! i in
         start_scan w (s\<lparr>ws_uncached := remove_nth i (ws_uncached s), ws_cache := lw_insert w (ws_cache s)\<rparr>))
      else s)"

section \<open>The catch-up scan\<close>

definition scan_step :: "regex_new \<Rightarrow> (uuid \<Rightarrow> string) \<Rightarrow> nat \<Rightarrow> wait_system \<Rightarrow> wait_system" where
  "scan_step regex uuid_text i s =
     (if i < length (ws_scans s) then
        (case ws_scans s ! i of
           (w, after) \<Rightarrow>
             (case scan_turn regex uuid_text w after (ws_store s) of
                ScanHit r k \<Rightarrow> s\<lparr>ws_scans := remove_nth i (ws_scans s), ws_hits := ws_hits s @ [(w, r, k)]\<rparr>
              | ScanDone \<Rightarrow> s\<lparr>ws_scans := remove_nth i (ws_scans s)\<rparr>
              | ScanOn last_seq \<Rightarrow> s\<lparr>ws_scans := (ws_scans s)[i := (w, last_seq)]\<rparr>))
      else s)"

definition scan_fails :: "nat \<Rightarrow> wait_system \<Rightarrow> wait_system" where
  "scan_fails i s = s\<lparr>ws_scans := remove_nth i (ws_scans s)\<rparr>"

text \<open>The one-shot gate: whoever takes the wait out of the cache resolves it.\<close>

definition take_wait :: "uuid \<Rightarrow> wait_resolution \<Rightarrow> wait_system \<Rightarrow> wait_system" where
  "take_wait wid res s =
     (case lw_take wid (ws_cache s) of
        (None, _) \<Rightarrow> s
      | (Some w, rest) \<Rightarrow> s\<lparr>ws_cache := rest, ws_taken := ws_taken s @ [(w, res)]\<rparr>)"

definition scan_take :: "nat \<Rightarrow> wait_system \<Rightarrow> wait_system" where
  "scan_take i s =
     (if i < length (ws_hits s) then
        (case ws_hits s ! i of
           (w, r, k) \<Rightarrow> take_wait (wait_id w) (Delivery r k) (s\<lparr>ws_hits := remove_nth i (ws_hits s)\<rparr>))
      else s)"

section \<open>The dispatcher\<close>

definition dispatcher_idle :: "wait_system \<Rightarrow> bool" where
  "dispatcher_idle s \<longleftrightarrow>
     ws_ended s = [] \<and> ws_ending s = [] \<and> ws_heard s = None \<and> ws_offering s = [] \<and> \<not> ws_rescan s"

definition wait_ending :: "stored_event \<Rightarrow> (uuid \<times> wait_cancel_cause) option" where
  "wait_ending r =
     (case ev_thread r of
        None \<Rightarrow> None
      | Some t \<Rightarrow>
          if ev_type r = ''ThreadArchived'' then Some (t, ThreadArchivedCause)
          else if ev_type r = ''ThreadDiscarded'' then Some (t, ThreadDiscardedCause)
          else None)"

text \<open>One frame (\<open>dispatcher_step\<close>): the threads it ends, and the frame to offer.\<close>

definition receive_frame :: "wait_system \<Rightarrow> wait_system" where
  "receive_frame s =
     (case ws_frames s of
        [] \<Rightarrow> s
      | r # frames \<Rightarrow>
          if dispatcher_idle s then
            s\<lparr>ws_frames := frames, ws_ended := List.map_filter wait_ending [r], ws_heard := Some r\<rparr>
          else s)"

text \<open>The waits of an ended thread are canceled one by one (\<open>cancel_waits_on_thread_where\<close>).\<close>

definition end_thread :: "wait_system \<Rightarrow> wait_system" where
  "end_thread s =
     (case ws_ended s of
        [] \<Rightarrow> s
      | (t, cause) # rest \<Rightarrow>
          if ws_ending s = [] then
            s\<lparr>ws_ended := rest, ws_ending := map (\<lambda>w. (wait_id w, cause)) (lw_for_thread t (ws_cache s))\<rparr>
          else s)"

definition end_one :: "wait_system \<Rightarrow> wait_system" where
  "end_one s =
     (case ws_ending s of
        [] \<Rightarrow> s
      | (wid, cause) # rest \<Rightarrow> take_wait wid (Cancellation cause) (s\<lparr>ws_ending := rest\<rparr>))"

text \<open>Once the ends are done the frame is offered: its matches in a snapshot of the cache, unless the engine is
  shutting down (\<open>offer_event_to_waits\<close>).\<close>

definition offer_frame :: "regex_new \<Rightarrow> (uuid \<Rightarrow> string) \<Rightarrow> wait_system \<Rightarrow> wait_system" where
  "offer_frame regex uuid_text s =
     (case ws_heard s of
        None \<Rightarrow> s
      | Some r \<Rightarrow>
          if ws_ended s = [] \<and> ws_ending s = [] \<and> ws_offering s = [] then
            s\<lparr>ws_heard := None,
              ws_offering :=
                (if ws_down s \<or> \<not> is_offered r then []
                 else map (\<lambda>(wid, k). (wid, k, r)) (waits_matching_row regex uuid_text (lw_snapshot (ws_cache s)) r))\<rparr>
          else s)"

definition offer_one :: "wait_system \<Rightarrow> wait_system" where
  "offer_one s =
     (case ws_offering s of
        [] \<Rightarrow> s
      | (wid, k, r) # rest \<Rightarrow>
          take_wait wid (Delivery r k) (s\<lparr>ws_offering := rest\<rparr>))"

text \<open>A lagged subscriber lost its oldest frames: the ends are read back from the store, and every live wait
  scans again from its watermark.\<close>

definition lag_frames :: "nat \<Rightarrow> wait_system \<Rightarrow> wait_system" where
  "lag_frames n s =
     (if dispatcher_idle s then
        s\<lparr>ws_frames := drop n (ws_frames s), ws_ended := List.map_filter wait_ending (take n (ws_frames s)),
          ws_rescan := True\<rparr>
      else s)"

definition rescan_all :: "wait_system \<Rightarrow> wait_system" where
  "rescan_all s =
     (if ws_rescan s \<and> ws_ended s = [] \<and> ws_ending s = []
      then fold start_scan (lw_snapshot (ws_cache s)) (s\<lparr>ws_rescan := False\<rparr>) else s)"

section \<open>Deadlines and cancels\<close>

definition sweep_expired :: "int \<Rightarrow> wait_system \<Rightarrow> wait_system" where
  "sweep_expired now s =
     (if ws_down s \<or> ws_expiring s \<noteq> [] then s
      else s\<lparr>ws_expiring := expired_waits (lw_snapshot (ws_cache s)) now\<rparr>)"

definition expire_one :: "wait_system \<Rightarrow> wait_system" where
  "expire_one s =
     (case ws_expiring s of [] \<Rightarrow> s | wid # rest \<Rightarrow> take_wait wid Expiry (s\<lparr>ws_expiring := rest\<rparr>))"

definition cancel_event_wait :: "uuid \<Rightarrow> uuid \<Rightarrow> wait_cancel_cause \<Rightarrow> wait_system \<Rightarrow> wait_system" where
  "cancel_event_wait t wid cause s =
     (case lw_take_on_thread t wid (ws_cache s) of
        (None, _) \<Rightarrow> s
      | (Some w, rest) \<Rightarrow> s\<lparr>ws_cache := rest, ws_taken := ws_taken s @ [(w, Cancellation cause)]\<rparr>)"

section \<open>Resolutions\<close>

text \<open>\<open>emit_delivery\<close>, \<open>emit_expiry\<close> and \<open>emit_cancel\<close>: a resolution and, unless it is a cancel, its re-entry anchor
  in one append. The payloads and ids are the writer's.\<close>

fun resolution_rows :: "live_wait \<Rightarrow> wait_resolution \<Rightarrow> uuid \<Rightarrow> uuid \<Rightarrow> json \<Rightarrow> json \<Rightarrow> stored_event list" where
  "resolution_rows w (Delivery r k) eid anchor payload text =
     [event_row eid (Some (wait_thread w)) ''EventWaitDelivered'' payload (DeliveredNote (wait_id w) (ev_id r) k),
      event_row anchor (Some (wait_thread w)) ''PromptInjected'' text NoNote]"
| "resolution_rows w Expiry eid anchor payload text =
     [event_row eid (Some (wait_thread w)) ''EventWaitExpired'' payload (ExpiredNote (wait_id w)),
      event_row anchor (Some (wait_thread w)) ''PromptInjected'' text NoNote]"
| "resolution_rows w (Cancellation cause) eid anchor payload text =
     [event_row eid (Some (wait_thread w)) ''EventWaitCanceled'' payload (CanceledNote (wait_id w) cause)]"

definition emit_resolution :: "nat \<Rightarrow> uuid \<Rightarrow> uuid \<Rightarrow> json \<Rightarrow> json \<Rightarrow> wait_system \<Rightarrow> wait_system" where
  "emit_resolution i eid anchor payload text s =
     (if i < length (ws_taken s) then
        (case ws_taken s ! i of
           (w, res) \<Rightarrow>
             begin_append (resolution_rows w res eid anchor payload text) (ResolveAppend w res)
               (s\<lparr>ws_taken := remove_nth i (ws_taken s)\<rparr>))
      else s)"

section \<open>Restart\<close>

text \<open>The process ends: what is in memory and every uncommitted append is gone. The next one subscribes to the
  bus before it rebuilds the cache (\<open>start_event_wait_dispatcher\<close>, then \<open>rebuild_event_waits\<close>).\<close>

definition restart :: "wait_system \<Rightarrow> wait_system" where
  "restart s = wait_system_new\<lparr>ws_store := ws_store s, ws_next := ws_next s\<rparr>"

definition rebuild_event_waits :: "wait_system \<Rightarrow> wait_system" where
  "rebuild_event_waits s =
     (if ws_booted s then s
      else
        (let s = s\<lparr>ws_cache := rebuild_live_waits 0 (ws_store s) (ws_cache s), ws_booted := True\<rparr>
         in fold start_scan (lw_snapshot (ws_cache s)) s))"

section \<open>Runs\<close>

datatype wait_op =
  Append "stored_event list"
| Commit nat
| Abort nat
| ResolutionFails nat
| Register uuid string "event_subscription list" string int
| PersistWait nat uuid uuid json int
| CacheWait nat
| ScanStep nat
| ScanFails nat
| ScanTake nat
| Receive
| EndThread
| EndOne
| OfferFrame
| OfferOne
| Lag nat
| Rescan
| Sweep int
| ExpireOne
| CancelWait uuid uuid wait_cancel_cause
| EmitResolution nat uuid uuid json json
| TearDown
| Restart
| Rebuild

text \<open>What the outside may do: append rows that are not the wait family's, register names the gate lets
  through, draw ids that are new, and register nothing before the boot is over.\<close>

definition awaitable_name :: "string \<Rightarrow> bool" where
  "awaitable_name name =
     (trim name = name \<and>
      (case validate_subscribable_event_type name WaitSurface of Inl _ \<Rightarrow> False | Inr _ \<Rightarrow> True))"

definition used_wait_ids :: "wait_system \<Rightarrow> uuid list" where
  "used_wait_ids s =
     map wait_id (waits_of_rows (ws_store s @ concat (map ap_rows (ws_open s))))"

definition wait_op_ok :: "wait_op \<Rightarrow> wait_system \<Rightarrow> bool" where
  "wait_op_ok opn s =
     (case opn of
        Append rows \<Rightarrow> rows \<noteq> [] \<and> list_all (\<lambda>r. ev_note r = NoNote) rows
      | Register t tool on reason secs \<Rightarrow> ws_booted s \<and> list_all (\<lambda>sub. awaitable_name (es_event_type sub)) on
      | PersistWait i fresh eid payload now \<Rightarrow> fresh \<notin> set (used_wait_ids s)
      | _ \<Rightarrow> True)"

definition wait_op_step :: "regex_new \<Rightarrow> (uuid \<Rightarrow> string) \<Rightarrow> wait_op \<Rightarrow> wait_system \<Rightarrow> wait_system" where
  "wait_op_step regex uuid_text opn s =
     (if \<not> wait_op_ok opn s then s
      else case opn of
        Append rows \<Rightarrow> begin_append rows PlainAppend s
      | Commit i \<Rightarrow> commit_append i s
      | Abort i \<Rightarrow> abort_append i s
      | ResolutionFails i \<Rightarrow> resolution_emit_failed i s
      | Register t tool on reason secs \<Rightarrow> read_watermark t tool on reason secs s
      | PersistWait i fresh eid payload now \<Rightarrow> persist_wait i fresh eid payload now s
      | CacheWait i \<Rightarrow> cache_wait i s
      | ScanStep i \<Rightarrow> scan_step regex uuid_text i s
      | ScanFails i \<Rightarrow> scan_fails i s
      | ScanTake i \<Rightarrow> scan_take i s
      | Receive \<Rightarrow> receive_frame s
      | EndThread \<Rightarrow> end_thread s
      | EndOne \<Rightarrow> end_one s
      | OfferFrame \<Rightarrow> offer_frame regex uuid_text s
      | OfferOne \<Rightarrow> offer_one s
      | Lag n \<Rightarrow> lag_frames n s
      | Rescan \<Rightarrow> rescan_all s
      | Sweep now \<Rightarrow> sweep_expired now s
      | ExpireOne \<Rightarrow> expire_one s
      | CancelWait t wid cause \<Rightarrow> cancel_event_wait t wid cause s
      | EmitResolution i eid anchor payload text \<Rightarrow> emit_resolution i eid anchor payload text s
      | TearDown \<Rightarrow> s\<lparr>ws_down := True\<rparr>
      | Restart \<Rightarrow> restart s
      | Rebuild \<Rightarrow> rebuild_event_waits s)"

definition wait_run :: "regex_new \<Rightarrow> (uuid \<Rightarrow> string) \<Rightarrow> wait_op list \<Rightarrow> wait_system" where
  "wait_run regex uuid_text ops = foldl (\<lambda>s opn. wait_op_step regex uuid_text opn s) wait_system_new ops"

end
