(* ===== verification/Event_Wait_Facts.thy ===== *)
theory Event_Wait_Facts
  imports Event_Wait_Dispatch "HOL-Library.Multiset"
begin

text \<open>
  What every run of the event waits keeps. The waits the process holds (in the cache, on their way into it,
  taken for a resolution, or in the write of one) are exactly the waits the store says are unresolved, and
  no append that is still open is at or below the watermark of a wait.
\<close>

named_theorems wait_simps \<open>the operations of the event waits\<close>

section \<open>Lists\<close>

lemma remove_nth_split:
  "i < length xs \<Longrightarrow> \<exists>ys zs. xs = ys @ xs ! i # zs \<and> remove_nth i xs = ys @ zs \<and> length ys = i"
  by (rule exI [of _ "take i xs"], rule exI [of _ "drop (Suc i) xs"]) (auto simp: remove_nth_def id_take_nth_drop)

lemma remove_nth_cases:
  assumes "i < length xs"
  obtains ys x zs where "xs = ys @ x # zs" "xs ! i = x" "remove_nth i xs = ys @ zs"
  using remove_nth_split [OF assms] by metis

lemma set_remove_nth_subset: "set (remove_nth i xs) \<subseteq> set xs"
  by (auto simp: remove_nth_def dest: in_set_takeD in_set_dropD)

lemma hm_insert_new_mset:
  "wait_id w \<notin> set (map fst waits) \<Longrightarrow> mset (map snd (lw_insert w waits)) = add_mset w (mset (map snd waits))"
  by (simp add: lw_insert_def hm_insert_fresh hm_keys_def image_image)

lemma hm_get_split:
  "hm_ok m \<Longrightarrow> hm_get m k = Some v \<Longrightarrow> \<exists>xs ys. m = xs @ (k, v) # ys \<and> hm_remove k m = xs @ ys"
proof (induction m)
  case (Cons e m)
  show ?case
  proof (cases "fst e = k")
    case True
    with Cons.prems(1) have "k \<notin> hm_keys m" by (auto simp: hm_ok_def hm_keys_def)
    with True Cons.prems(2) show ?thesis
      by (intro exI [of _ "[]"] exI [of _ m]) (cases e, auto simp: hm_remove_absent)
  next
    case False
    with Cons obtain xs ys where "m = xs @ (k, v) # ys" "hm_remove k m = xs @ ys"
      by (cases e) (auto simp: hm_ok_def)
    with False show ?thesis by (intro exI [of _ "e # xs"] exI [of _ ys]) (cases e, auto)
  qed
qed simp

section \<open>What the rows say\<close>

definition resolved_ids :: "stored_event list \<Rightarrow> uuid list" where
  "resolved_ids rows = List.map_filter (\<lambda>r. resolves_wait (ev_note r)) rows"

definition pending_of :: "stored_event list \<Rightarrow> live_wait list" where
  "pending_of rows = filter (\<lambda>w. wait_id w \<notin> set (resolved_ids rows)) (waits_of_rows rows)"

lemma map_filter_append [simp]: "List.map_filter f (xs @ ys) = List.map_filter f xs @ List.map_filter f ys"
  by (simp add: map_filter_def)

lemma rows_simps [simp]:
  "waits_of_rows [] = []" "resolved_ids [] = []"
  "waits_of_rows (xs @ ys) = waits_of_rows xs @ waits_of_rows ys"
  "resolved_ids (xs @ ys) = resolved_ids xs @ resolved_ids ys"
  "waits_of_rows (r # rs) = (case starts_wait (ev_note r) of None \<Rightarrow> [] | Some w \<Rightarrow> [w]) @ waits_of_rows rs"
  "resolved_ids (r # rs) = (case resolves_wait (ev_note r) of None \<Rightarrow> [] | Some w \<Rightarrow> [w]) @ resolved_ids rs"
  by (auto simp: waits_of_rows_def resolved_ids_def map_filter_simps split: option.splits)

lemma number_rows_notes [simp]:
  "waits_of_rows (number_rows n rows) = waits_of_rows rows"
  "resolved_ids (number_rows n rows) = resolved_ids rows"
  "length (number_rows n rows) = length rows"
  by (induction rows arbitrary: n) auto

lemma number_rows_seqs: "map ev_seq (number_rows n rows) = map (\<lambda>i. n + int i) [0..<length rows]"
proof (induction rows arbitrary: n)
  case (Cons r rows)
  have "map (\<lambda>i. n + int i) [0..<Suc (length rows)] = n # map (\<lambda>i. (n + 1) + int i) [0..<length rows]"
    by (simp add: upt_conv_Cons map_Suc_upt [symmetric] del: upt_Suc)
  with Cons show ?case by simp
qed simp

lemma number_rows_seq_ge: "r \<in> set (number_rows n rows) \<Longrightarrow> n \<le> ev_seq r \<and> ev_seq r < n + int (length rows)"
  by (induction rows arbitrary: n) force+

lemma number_rows_thread:
  "list_all (\<lambda>r. ev_thread r = t) rows \<Longrightarrow> r \<in> set (number_rows n rows) \<Longrightarrow> ev_thread r = t"
  by (induction rows arbitrary: n) auto

lemma silent_rows: "list_all (\<lambda>r. ev_note r = NoNote) rows \<Longrightarrow> waits_of_rows rows = [] \<and> resolved_ids rows = []"
  by (induction rows) auto

lemma waits_of_rows_iff: "w \<in> set (waits_of_rows rows) \<longleftrightarrow> (\<exists>e \<in> set rows. ev_note e = StartedNote w)"
proof (induction rows)
  case (Cons r rows)
  then show ?case by (cases "ev_note r") auto
qed simp

lemma resolved_ids_iff: "i \<in> set (resolved_ids rows) \<longleftrightarrow> (\<exists>r \<in> set rows. resolves_wait (ev_note r) = Some i)"
  by (induction rows) (auto split: option.splits)

lemma resolution_rows_notes [simp]:
  "waits_of_rows (resolution_rows w res eid anchor payload text) = []"
  "resolved_ids (resolution_rows w res eid anchor payload text) = [wait_id w]"
  "list_all (\<lambda>r. ev_thread r = Some (wait_thread w)) (resolution_rows w res eid anchor payload text)"
  "resolution_rows w res eid anchor payload text \<noteq> []"
  by (cases res; simp add: event_row_def)+

section \<open>The invariant\<close>

definition open_rows :: "wait_system \<Rightarrow> stored_event list" where
  "open_rows s = concat (map ap_rows (ws_open s))"

definition all_rows :: "wait_system \<Rightarrow> stored_event list" where
  "all_rows s = ws_store s @ open_rows s"

definition resolving_by :: "open_append \<Rightarrow> live_wait option" where
  "resolving_by a = (case ap_purpose a of ResolveAppend w res \<Rightarrow> Some w | _ \<Rightarrow> None)"

definition held_waits :: "wait_system \<Rightarrow> live_wait list" where
  "held_waits s =
     map snd (ws_cache s) @ ws_uncached s @ map fst (ws_taken s) @ List.map_filter resolving_by (ws_open s)"

definition wait_names_ok :: "live_wait \<Rightarrow> bool" where
  "wait_names_ok w = list_all (\<lambda>sub. awaitable_name (es_event_type sub)) (wait_on w)"

definition append_ok :: "stored_event list \<Rightarrow> open_append \<Rightarrow> bool" where
  "append_ok store a \<longleftrightarrow>
     ap_rows a \<noteq> [] \<and>
     (case ap_purpose a of
        PlainAppend \<Rightarrow> waits_of_rows (ap_rows a) = [] \<and> resolved_ids (ap_rows a) = []
      | StartAppend w \<Rightarrow> waits_of_rows (ap_rows a) = [w] \<and> resolved_ids (ap_rows a) = [] \<and> wait_names_ok w \<and>
          (\<forall>r \<in> set (ap_rows a). ev_thread r = Some (wait_thread w))
      | ResolveAppend w res \<Rightarrow> waits_of_rows (ap_rows a) = [] \<and> resolved_ids (ap_rows a) = [wait_id w] \<and>
          (\<forall>r \<in> set (ap_rows a). ev_thread r = Some (wait_thread w)) \<and>
          (\<exists>e \<in> set store. ev_note e = StartedNote w \<and> (\<forall>r \<in> set (ap_rows a). ev_seq e < ev_seq r)))"

definition store_ok :: "stored_event list \<Rightarrow> bool" where
  "store_ok rows \<longleftrightarrow>
     (\<forall>e \<in> set rows. \<forall>w. ev_note e = StartedNote w \<longrightarrow> ev_thread e = Some (wait_thread w) \<and> wait_names_ok w) \<and>
     (\<forall>r \<in> set rows. \<forall>i. resolves_wait (ev_note r) = Some i \<longrightarrow>
        (\<exists>e \<in> set rows. \<exists>w. ev_note e = StartedNote w \<and> wait_id w = i \<and> ev_thread r = ev_thread e \<and>
           ev_seq e < ev_seq r))"

definition cache_ok :: "live_waits \<Rightarrow> bool" where
  "cache_ok waits \<longleftrightarrow> hm_ok waits \<and> list_all (\<lambda>(i, w). i = wait_id w) waits"

definition seqs_ok :: "wait_system \<Rightarrow> bool" where
  "seqs_ok s \<longleftrightarrow>
     distinct (map ev_seq (all_rows s)) \<and> (\<forall>r \<in> set (all_rows s). 0 < ev_seq r \<and> ev_seq r < ws_next s) \<and>
     0 < ws_next s"

definition accounted :: "wait_system \<Rightarrow> bool" where
  "accounted s \<longleftrightarrow>
     (if ws_booted s then mset (held_waits s) = mset (pending_of (ws_store s))
      else held_waits s = [] \<and> ws_reading s = [] \<and> list_all (\<lambda>a. ap_purpose a = PlainAppend) (ws_open s))"

definition waits_ok :: "wait_system \<Rightarrow> bool" where
  "waits_ok s \<longleftrightarrow>
     seqs_ok s \<and> store_ok (ws_store s) \<and> list_all (append_ok (ws_store s)) (ws_open s) \<and>
     distinct (map wait_id (waits_of_rows (all_rows s))) \<and> distinct (resolved_ids (ws_store s)) \<and>
     list_all (\<lambda>p. list_all (\<lambda>sub. awaitable_name (es_event_type sub)) (pw_on p)) (ws_reading s) \<and>
     cache_ok (ws_cache s) \<and> accounted s"

lemma waits_ok_new: "waits_ok wait_system_new"
  by (simp add: waits_ok_def wait_system_new_def seqs_ok_def store_ok_def all_rows_def open_rows_def cache_ok_def
      accounted_def held_waits_def map_filter_simps)

section \<open>Operations that touch neither the store nor an append\<close>

definition same_books :: "wait_system \<Rightarrow> wait_system \<Rightarrow> bool" where
  "same_books s s' \<longleftrightarrow>
     ws_store s' = ws_store s \<and> ws_next s' = ws_next s \<and> ws_open s' = ws_open s \<and> ws_reading s' = ws_reading s \<and>
     ws_booted s' = ws_booted s \<and> mset (held_waits s') = mset (held_waits s) \<and> cache_ok (ws_cache s')"

lemma same_books_refl: "cache_ok (ws_cache s) \<Longrightarrow> same_books s s"
  by (simp add: same_books_def)

lemma same_books_ok: "same_books s s' \<Longrightarrow> waits_ok s \<Longrightarrow> waits_ok s'"
  by (auto simp: same_books_def waits_ok_def seqs_ok_def accounted_def all_rows_def open_rows_def)

lemma held_cong:
  "ws_cache s' = ws_cache s \<Longrightarrow> ws_uncached s' = ws_uncached s \<Longrightarrow> ws_taken s' = ws_taken s \<Longrightarrow>
     ws_open s' = ws_open s \<Longrightarrow> held_waits s' = held_waits s"
  by (simp add: held_waits_def)

lemma held_distinct:
  assumes "waits_ok s"
  shows "distinct (map wait_id (held_waits s))"
proof (cases "ws_booted s")
  case True
  with assms have "mset (map wait_id (held_waits s)) = mset (map wait_id (pending_of (ws_store s)))"
    by (simp add: waits_ok_def accounted_def)
  moreover have "distinct (map wait_id (pending_of (ws_store s)))"
    using assms by (auto simp: waits_ok_def all_rows_def pending_of_def distinct_map_filter)
  ultimately show ?thesis by (rule mset_eq_imp_distinct_iff [THEN iffD2])
next
  case False
  with assms show ?thesis by (simp add: waits_ok_def accounted_def)
qed

lemma cache_ok_get: "cache_ok waits \<Longrightarrow> hm_get waits i = Some w \<Longrightarrow> wait_id w = i \<and> w \<in> set (map snd waits)"
  by (force simp: cache_ok_def list_all_iff dest: map_of_SomeD)

lemma cache_take:
  assumes "cache_ok waits" "hm_get waits i = Some w"
  shows "mset (map snd waits) = add_mset w (mset (map snd (hm_remove i waits)))" "cache_ok (hm_remove i waits)"
proof -
  from assms have "hm_ok waits" by (simp add: cache_ok_def)
  from hm_get_split [OF this assms(2)] obtain xs ys where "waits = xs @ (i, w) # ys" "hm_remove i waits = xs @ ys"
    by blast
  with assms(1) show "mset (map snd waits) = add_mset w (mset (map snd (hm_remove i waits)))"
    "cache_ok (hm_remove i waits)"
    by (auto simp: cache_ok_def hm_ok_def)
qed

lemma cache_put:
  assumes "cache_ok waits" "wait_id w \<notin> wait_id ` set (map snd waits)"
  shows "mset (map snd (lw_insert w waits)) = add_mset w (mset (map snd waits))" "cache_ok (lw_insert w waits)"
proof -
  from assms have "wait_id w \<notin> set (map fst waits)" by (force simp: cache_ok_def list_all_iff)
  with assms(1) show "mset (map snd (lw_insert w waits)) = add_mset w (mset (map snd waits))"
    "cache_ok (lw_insert w waits)"
    by (auto simp: hm_insert_new_mset)
       (auto simp: cache_ok_def lw_insert_def hm_insert_fresh hm_keys_def hm_ok_def list_all_iff image_image)
qed

lemma take_wait_books:
  assumes "cache_ok (ws_cache s)"
  shows "same_books s (take_wait i res s)"
  using assms cache_take [of "ws_cache s" i]
  by (cases "hm_get (ws_cache s) i")
     (auto simp: take_wait_def lw_take_def same_books_def held_waits_def)

section \<open>The silent operations\<close>

lemma start_scan_sel [simp]:
  "ws_store (start_scan w s) = ws_store s" "ws_next (start_scan w s) = ws_next s" "ws_open (start_scan w s) = ws_open s"
  "ws_reading (start_scan w s) = ws_reading s" "ws_booted (start_scan w s) = ws_booted s"
  "ws_cache (start_scan w s) = ws_cache s" "ws_uncached (start_scan w s) = ws_uncached s"
  "ws_taken (start_scan w s) = ws_taken s" "ws_frames (start_scan w s) = ws_frames s"
  "ws_hits (start_scan w s) = ws_hits s" "ws_offering (start_scan w s) = ws_offering s"
  "ws_rescan (start_scan w s) = ws_rescan s" "ws_heard (start_scan w s) = ws_heard s" "ws_down (start_scan w s) = ws_down s"
  by (simp_all add: start_scan_def)

lemma fold_start_scan_sel [simp]:
  "ws_store (fold start_scan ws s) = ws_store s" "ws_next (fold start_scan ws s) = ws_next s"
  "ws_open (fold start_scan ws s) = ws_open s" "ws_reading (fold start_scan ws s) = ws_reading s"
  "ws_booted (fold start_scan ws s) = ws_booted s" "ws_cache (fold start_scan ws s) = ws_cache s"
  "ws_uncached (fold start_scan ws s) = ws_uncached s" "ws_taken (fold start_scan ws s) = ws_taken s"
  "ws_frames (fold start_scan ws s) = ws_frames s" "ws_hits (fold start_scan ws s) = ws_hits s"
  "ws_offering (fold start_scan ws s) = ws_offering s" "ws_rescan (fold start_scan ws s) = ws_rescan s" "ws_heard (fold start_scan ws s) = ws_heard s"
  "ws_down (fold start_scan ws s) = ws_down s"
  by (induction ws arbitrary: s) auto

lemma books_of_equal:
  assumes "cache_ok (ws_cache s)" "ws_store s' = ws_store s" "ws_next s' = ws_next s" "ws_open s' = ws_open s"
    "ws_reading s' = ws_reading s" "ws_booted s' = ws_booted s" "ws_cache s' = ws_cache s"
    "ws_uncached s' = ws_uncached s" "ws_taken s' = ws_taken s"
  shows "same_books s s'"
  using assms by (simp add: same_books_def held_waits_def)

lemma take_after_books:
  assumes "cache_ok (ws_cache s)" "ws_store s1 = ws_store s" "ws_next s1 = ws_next s" "ws_open s1 = ws_open s"
    "ws_reading s1 = ws_reading s" "ws_booted s1 = ws_booted s" "ws_cache s1 = ws_cache s"
    "ws_uncached s1 = ws_uncached s" "ws_taken s1 = ws_taken s"
  shows "same_books s (take_wait i res s1)"
proof -
  have "cache_ok (ws_cache s1)" using assms by simp
  from take_wait_books [OF this] books_of_equal [OF assms] show ?thesis by (simp add: same_books_def)
qed

lemma scan_step_books: "cache_ok (ws_cache s) \<Longrightarrow> same_books s (scan_step regex uuid_text i s)"
  by (auto simp: scan_step_def split: prod.splits scan_turn.splits intro!: books_of_equal)

lemma scan_take_books: "cache_ok (ws_cache s) \<Longrightarrow> same_books s (scan_take i s)"
  by (auto simp: scan_take_def same_books_refl split: prod.splits intro!: take_after_books)

lemma frame_books:
  assumes "cache_ok (ws_cache s)"
  shows "same_books s (receive_frame s)" "same_books s (end_thread s)" "same_books s (offer_frame regex uuid_text s)"
  using assms
  by (auto simp: receive_frame_def end_thread_def offer_frame_def split: list.splits option.splits intro!: books_of_equal)

lemma end_one_books: "cache_ok (ws_cache s) \<Longrightarrow> same_books s (end_one s)"
  by (auto simp: end_one_def same_books_refl split: list.splits intro!: take_after_books)

lemma offer_one_books: "cache_ok (ws_cache s) \<Longrightarrow> same_books s (offer_one s)"
  by (auto simp: offer_one_def same_books_refl split: list.splits intro!: take_after_books)

lemma expire_one_books: "cache_ok (ws_cache s) \<Longrightarrow> same_books s (expire_one s)"
  by (auto simp: expire_one_def same_books_refl split: list.splits intro!: take_after_books)

lemma rescan_books: "cache_ok (ws_cache s) \<Longrightarrow> same_books s (rescan_all s)"
  by (auto simp: rescan_all_def intro!: books_of_equal)

lemma cancel_books: "cache_ok (ws_cache s) \<Longrightarrow> same_books s (cancel_event_wait t i cause s)"
  using cache_take [of "ws_cache s" i]
  by (cases "hm_get (ws_cache s) i")
     (auto simp: cancel_event_wait_def lw_take_on_thread_def same_books_def held_waits_def)

lemma cache_wait_books:
  assumes "waits_ok s"
  shows "same_books s (cache_wait i s)"
proof (cases "i < length (ws_uncached s)")
  case True
  then obtain ys w zs where split: "ws_uncached s = ys @ w # zs" "ws_uncached s ! i = w"
    "remove_nth i (ws_uncached s) = ys @ zs" by (rule remove_nth_cases)
  have "cache_ok (ws_cache s)" using assms by (simp add: waits_ok_def)
  moreover have "wait_id w \<notin> wait_id ` set (map snd (ws_cache s))"
    using held_distinct [OF assms] split(1) by (auto simp: held_waits_def image_image)
  ultimately show ?thesis
    using True split cache_put [of "ws_cache s" w]
    by (simp add: cache_wait_def same_books_def held_waits_def Let_def)
qed (use assms in \<open>simp add: cache_wait_def waits_ok_def same_books_refl\<close>)

section \<open>Appends\<close>

lemma begin_append_sel [simp]:
  "ws_store (begin_append rows purpose s) = ws_store s" "ws_reading (begin_append rows purpose s) = ws_reading s"
  "ws_booted (begin_append rows purpose s) = ws_booted s" "ws_cache (begin_append rows purpose s) = ws_cache s"
  "ws_uncached (begin_append rows purpose s) = ws_uncached s" "ws_taken (begin_append rows purpose s) = ws_taken s"
  "ws_next (begin_append rows purpose s) = ws_next s + int (length rows)"
  "ws_open (begin_append rows purpose s) =
     ws_open s @ [\<lparr>ap_key = ws_next s, ap_rows = number_rows (ws_next s) rows, ap_purpose = purpose\<rparr>]"
  by (simp_all add: begin_append_def)

lemma all_rows_begin [simp]: "all_rows (begin_append rows purpose s) = all_rows s @ number_rows (ws_next s) rows"
  by (simp add: all_rows_def open_rows_def)

lemma seqs_ok_begin:
  assumes "seqs_ok s"
  shows "seqs_ok (begin_append rows purpose s)"
proof -
  have "distinct (map ev_seq (number_rows (ws_next s) rows))"
    by (auto simp: number_rows_seqs distinct_map inj_on_def)
  moreover have "n < ws_next s \<or> n \<notin> set (map ev_seq (all_rows s))" for n
    using assms by (auto simp: seqs_ok_def)
  ultimately show ?thesis
    using assms number_rows_seq_ge [of _ "ws_next s" rows]
    by (force simp: seqs_ok_def)
qed

lemma append_ok_begin_plain:
  "rows \<noteq> [] \<Longrightarrow> list_all (\<lambda>r. ev_note r = NoNote) rows \<Longrightarrow>
     append_ok store \<lparr>ap_key = n, ap_rows = number_rows n rows, ap_purpose = PlainAppend\<rparr>"
  using silent_rows [of rows] by (cases rows) (auto simp: append_ok_def)

lemma begin_plain_ok:
  assumes "waits_ok s" "rows \<noteq> []" "list_all (\<lambda>r. ev_note r = NoNote) rows"
  shows "waits_ok (begin_append rows PlainAppend s)"
  using assms seqs_ok_begin [of s rows PlainAppend] append_ok_begin_plain [OF assms(2,3)] silent_rows [OF assms(3)]
  by (auto simp: waits_ok_def accounted_def held_waits_def resolving_by_def map_filter_simps)

lemma read_watermark_ok:
  assumes "waits_ok s" "ws_booted s" "list_all (\<lambda>sub. awaitable_name (es_event_type sub)) on"
  shows "waits_ok (read_watermark t tool on reason secs s)"
  using assms
  by (auto simp: waits_ok_def read_watermark_def seqs_ok_def all_rows_def open_rows_def accounted_def held_waits_def)

lemma used_ids_all: "used_wait_ids s = map wait_id (waits_of_rows (all_rows s))"
  by (simp add: used_wait_ids_def all_rows_def open_rows_def)

lemma persist_wait_ok:
  assumes ok: "waits_ok s" and fresh: "fresh \<notin> set (used_wait_ids s)"
  shows "waits_ok (persist_wait i fresh eid payload now s)"
proof (cases "i < length (ws_reading s) \<and> horizon_settled (ws_reading s ! i) s")
  case True
  then obtain ys p zs where split: "ws_reading s = ys @ p # zs" "ws_reading s ! i = p"
    "remove_nth i (ws_reading s) = ys @ zs" by (auto elim: remove_nth_cases)
  let ?w = "build_wait_at fresh now (pw_thread p) (pw_tool p) (pw_on p) (pw_reason p) (pw_timeout p) (pw_horizon p)"
  let ?s = "s\<lparr>ws_reading := ys @ zs\<rparr>"
  let ?row = "event_row eid (Some (wait_thread ?w)) ''EventWaitStarted'' payload (StartedNote ?w)"
  have booted: "ws_booted s" using ok split(1) by (cases "ws_booted s") (auto simp: waits_ok_def accounted_def)
  have "wait_names_ok ?w" using ok split(1) by (auto simp: waits_ok_def wait_names_ok_def build_wait_at_def)
  then have start: "append_ok (ws_store s) \<lparr>ap_key = ws_next s, ap_rows = number_rows (ws_next s) [?row],
      ap_purpose = StartAppend ?w\<rparr>"
    by (simp add: append_ok_def event_row_def)
  have id: "wait_id ?w = fresh" by (simp add: build_wait_at_def)
  have rows: "all_rows ?s = all_rows s" by (simp add: all_rows_def open_rows_def)
  have "seqs_ok ?s" using ok rows by (simp add: waits_ok_def seqs_ok_def)
  then have seqs: "seqs_ok (begin_append [?row] (StartAppend ?w) ?s)" by (rule seqs_ok_begin)
  have ids: "distinct (map wait_id (waits_of_rows (all_rows (begin_append [?row] (StartAppend ?w) ?s))))"
    using ok fresh id rows by (simp add: waits_ok_def used_ids_all event_row_def)
  have acc: "accounted (begin_append [?row] (StartAppend ?w) ?s)"
    using ok booted by (simp add: waits_ok_def accounted_def held_waits_def resolving_by_def map_filter_simps)
  have "waits_ok (begin_append [?row] (StartAppend ?w) ?s)"
    using ok start seqs ids acc split(1) by (simp add: waits_ok_def)
  with True split show ?thesis by (simp add: persist_wait_def Let_def)
next
  case False
  with ok show ?thesis by (auto simp: persist_wait_def)
qed

lemma held_started:
  assumes "waits_ok s" "w \<in> set (held_waits s)"
  shows "\<exists>e \<in> set (ws_store s). ev_note e = StartedNote w" "wait_id w \<notin> set (resolved_ids (ws_store s))"
proof -
  have "ws_booted s" using assms by (cases "ws_booted s") (auto simp: waits_ok_def accounted_def)
  with assms have "w \<in> set (pending_of (ws_store s))"
    using mset_eq_setD [of "held_waits s" "pending_of (ws_store s)"] by (simp add: waits_ok_def accounted_def)
  then show "\<exists>e \<in> set (ws_store s). ev_note e = StartedNote w" "wait_id w \<notin> set (resolved_ids (ws_store s))"
    by (auto simp: pending_of_def waits_of_rows_iff)
qed

lemma emit_resolution_ok:
  assumes ok: "waits_ok s"
  shows "waits_ok (emit_resolution i eid anchor payload text s)"
proof (cases "i < length (ws_taken s)")
  case True
  then obtain ys x zs where split0: "ws_taken s = ys @ x # zs" "ws_taken s ! i = x" "remove_nth i (ws_taken s) = ys @ zs"
    by (rule remove_nth_cases)
  obtain w res where x: "x = (w, res)" by fastforce
  note split = split0 [unfolded x]
  let ?s = "s\<lparr>ws_taken := ys @ zs\<rparr>"
  let ?rows = "resolution_rows w res eid anchor payload text"
  have held: "w \<in> set (held_waits s)" using split(1) by (simp add: held_waits_def)
  then have booted: "ws_booted s" using ok by (cases "ws_booted s") (auto simp: waits_ok_def accounted_def)
  obtain e where e: "e \<in> set (ws_store s)" "ev_note e = StartedNote w" using held_started [OF ok held] by blast
  have below: "ev_seq e < ev_seq r" if "r \<in> set (number_rows (ws_next s) ?rows)" for r
    using number_rows_seq_ge [OF that] ok e(1) by (force simp: waits_ok_def seqs_ok_def all_rows_def)
  have nonempty: "number_rows (ws_next s) ?rows \<noteq> []"
    by (metis resolution_rows_notes(4) number_rows_notes(3) length_0_conv)
  have threads: "\<forall>r \<in> set (number_rows (ws_next s) ?rows). ev_thread r = Some (wait_thread w)"
    using number_rows_thread [OF resolution_rows_notes(3)] by blast
  have "append_ok (ws_store s) \<lparr>ap_key = ws_next s, ap_rows = number_rows (ws_next s) ?rows,
      ap_purpose = ResolveAppend w res\<rparr>"
    using e below nonempty threads by (auto simp: append_ok_def)
  moreover have "seqs_ok (begin_append ?rows (ResolveAppend w res) ?s)"
    using ok by (intro seqs_ok_begin) (simp add: waits_ok_def seqs_ok_def all_rows_def open_rows_def)
  moreover have "all_rows ?s = all_rows s" by (simp add: all_rows_def open_rows_def)
  moreover have "accounted (begin_append ?rows (ResolveAppend w res) ?s)"
    using ok booted split(1)
    by (simp add: waits_ok_def accounted_def held_waits_def resolving_by_def map_filter_simps)
  ultimately have "waits_ok (begin_append ?rows (ResolveAppend w res) ?s)"
    using ok by (simp add: waits_ok_def)
  with True split show ?thesis by (simp add: emit_resolution_def)
next
  case False
  with ok show ?thesis by (simp add: emit_resolution_def)
qed

section \<open>Commits and failures\<close>

lemma append_ok_mono: "append_ok store a \<Longrightarrow> append_ok (store @ rows) a"
  by (auto simp: append_ok_def split: append_purpose.splits)

lemma waits_of_rows_mset: "mset xs = mset ys \<Longrightarrow> mset (waits_of_rows xs) = mset (waits_of_rows ys)"
  by (simp add: waits_of_rows_def map_filter_def)

lemma seqs_ok_mset:
  assumes "seqs_ok s" "mset (all_rows s') = mset (all_rows s)" "ws_next s' = ws_next s"
  shows "seqs_ok s'"
proof -
  have "mset (map ev_seq (all_rows s')) = mset (map ev_seq (all_rows s))" using assms(2) by simp
  then have "distinct (map ev_seq (all_rows s')) = distinct (map ev_seq (all_rows s))"
    by (rule mset_eq_imp_distinct_iff)
  with assms mset_eq_setD [OF assms(2)] show ?thesis by (simp add: seqs_ok_def)
qed

lemma store_ok_commit:
  assumes store: "store_ok store" and ok: "append_ok store a"
  shows "store_ok (store @ ap_rows a)"
proof -
  have starts: "\<exists>r \<in> set (ap_rows a). ev_note r = StartedNote w" if "w \<in> set (waits_of_rows (ap_rows a))" for w
    using that by (simp add: waits_of_rows_iff)
  have started: "ev_thread e = Some (wait_thread w) \<and> wait_names_ok w"
    if "e \<in> set (ap_rows a)" "ev_note e = StartedNote w" for e w
  proof -
    have "w \<in> set (waits_of_rows (ap_rows a))" using that by (auto simp: waits_of_rows_iff)
    with ok that(1) show ?thesis by (auto simp: append_ok_def split: append_purpose.splits)
  qed
  have resolved: "\<exists>e \<in> set store. \<exists>w. ev_note e = StartedNote w \<and> wait_id w = i \<and> ev_thread r = ev_thread e \<and>
      ev_seq e < ev_seq r"
    if "r \<in> set (ap_rows a)" "resolves_wait (ev_note r) = Some i" for r i
  proof -
    have i: "i \<in> set (resolved_ids (ap_rows a))" using that by (auto simp: resolved_ids_iff)
    with ok obtain w res e where purpose: "ap_purpose a = ResolveAppend w res" "i = wait_id w"
      and e: "e \<in> set store" "ev_note e = StartedNote w" "\<forall>r \<in> set (ap_rows a). ev_seq e < ev_seq r"
        "\<forall>r \<in> set (ap_rows a). ev_thread r = Some (wait_thread w)"
      by (auto simp: append_ok_def split: append_purpose.splits)
    from store e(1,2) have "ev_thread e = Some (wait_thread w)" by (auto simp: store_ok_def)
    with e purpose(2) that(1) show ?thesis by (intro bexI [OF _ e(1)] exI [of _ w]) auto
  qed
  show ?thesis
    unfolding store_ok_def
  proof (intro conjI ballI allI impI)
    fix e w assume "e \<in> set (store @ ap_rows a)" "ev_note e = StartedNote w"
    then show "ev_thread e = Some (wait_thread w)" "wait_names_ok w"
      using store started by (auto simp: store_ok_def)
  next
    fix r i assume r: "r \<in> set (store @ ap_rows a)" "resolves_wait (ev_note r) = Some i"
    show "\<exists>e \<in> set (store @ ap_rows a). \<exists>w. ev_note e = StartedNote w \<and> wait_id w = i \<and>
        ev_thread r = ev_thread e \<and> ev_seq e < ev_seq r"
    proof (cases "r \<in> set (ap_rows a)")
      case True
      from resolved [OF this r(2)] show ?thesis by auto
    next
      case False
      with r store show ?thesis by (fastforce simp: store_ok_def)
    qed
  qed
qed

lemma resolved_was_started:
  "store_ok store \<Longrightarrow> i \<in> set (resolved_ids store) \<Longrightarrow> i \<in> wait_id ` set (waits_of_rows store)"
  by (force simp: store_ok_def resolved_ids_iff waits_of_rows_iff)

lemma remove_key_mset:
  "distinct (map f xs) \<Longrightarrow> x \<in> set xs \<Longrightarrow> mset (filter (\<lambda>y. f y \<noteq> f x) xs) = mset xs - {#x#}"
proof (induction xs)
  case (Cons y ys)
  show ?case
  proof (cases "y = x")
    case True
    with Cons.prems(1) have "\<forall>z \<in> set ys. f z \<noteq> f x" by (simp add: image_iff) metis
    then have "filter (\<lambda>y. f y \<noteq> f x) ys = ys" by (simp add: filter_id_conv)
    with True show ?thesis by simp
  next
    case False
    with Cons.prems have "f y \<noteq> f x" "x \<in> set ys" by (auto simp: image_iff)
    with Cons False show ?thesis by simp
  qed
qed simp

lemma after_commit_sel [simp]:
  "ws_store (after_commit a s) = ws_store s" "ws_next (after_commit a s) = ws_next s"
  "ws_open (after_commit a s) = ws_open s" "ws_reading (after_commit a s) = ws_reading s"
  "ws_booted (after_commit a s) = ws_booted s" "ws_cache (after_commit a s) = ws_cache s"
  "ws_taken (after_commit a s) = ws_taken s"
  by (simp_all add: after_commit_def split: append_purpose.split wait_resolution.split)

lemma commit_accounted:
  assumes ok: "waits_ok s" and split: "ws_open s = ys @ a # zs"
    and s': "s' = after_commit a (s\<lparr>ws_open := ys @ zs, ws_store := ws_store s @ ap_rows a, ws_frames := fs\<rparr>)"
  shows "accounted s'"
proof (cases "ws_booted s")
  case False
  with ok split have plain: "ap_purpose a = PlainAppend" by (auto simp: waits_ok_def accounted_def)
  then have "resolving_by a = None" by (simp add: resolving_by_def)
  with plain False ok split s' show ?thesis
    by (simp add: waits_ok_def accounted_def after_commit_def held_waits_def map_filter_simps)
next
  case True
  with ok have books: "mset (held_waits s) = mset (pending_of (ws_store s))" by (simp add: waits_ok_def accounted_def)
  have a: "append_ok (ws_store s) a" using ok split by (simp add: waits_ok_def)
  have mono: "resolved_ids (ap_rows a) = [] \<Longrightarrow>
      pending_of (ws_store s @ ap_rows a) =
      pending_of (ws_store s) @ filter (\<lambda>w. wait_id w \<notin> set (resolved_ids (ws_store s))) (waits_of_rows (ap_rows a))"
    by (simp add: pending_of_def)
  show ?thesis
  proof (cases "ap_purpose a")
    case PlainAppend
    with a mono have "pending_of (ws_store s @ ap_rows a) = pending_of (ws_store s)" by (simp add: append_ok_def)
    with PlainAppend True books split s' show ?thesis
      by (simp add: accounted_def after_commit_def held_waits_def resolving_by_def map_filter_simps)
  next
    case (StartAppend w)
    with a have rows: "waits_of_rows (ap_rows a) = [w]" "resolved_ids (ap_rows a) = []" by (simp_all add: append_ok_def)
    have "wait_id w \<notin> set (resolved_ids (ws_store s))"
    proof
      assume "wait_id w \<in> set (resolved_ids (ws_store s))"
      moreover have "store_ok (ws_store s)" using ok by (simp add: waits_ok_def)
      ultimately have "wait_id w \<in> wait_id ` set (waits_of_rows (ws_store s))" by (rule resolved_was_started [rotated])
      moreover have "distinct (map wait_id (waits_of_rows (all_rows s)))" using ok by (simp add: waits_ok_def)
      ultimately show False using rows(1) split by (auto simp: all_rows_def open_rows_def)
    qed
    with rows mono have "pending_of (ws_store s @ ap_rows a) = pending_of (ws_store s) @ [w]" by simp
    with StartAppend True books split s' show ?thesis
      by (simp add: accounted_def after_commit_def held_waits_def resolving_by_def map_filter_simps)
  next
    case (ResolveAppend w res)
    with a have rows: "waits_of_rows (ap_rows a) = []" "resolved_ids (ap_rows a) = [wait_id w]"
      by (simp_all add: append_ok_def)
    have held: "mset (held_waits s) = add_mset w (mset (held_waits s'))"
      using ResolveAppend split s'
      by (cases res) (simp_all add: after_commit_def held_waits_def resolving_by_def map_filter_simps)
    then have "w \<in># mset (pending_of (ws_store s))" using books by simp
    then have "w \<in> set (pending_of (ws_store s))" by simp
    moreover have "distinct (map wait_id (pending_of (ws_store s)))"
      using ok by (auto simp: waits_ok_def all_rows_def pending_of_def distinct_map_filter)
    moreover have "pending_of (ws_store s @ ap_rows a) = filter (\<lambda>v. wait_id v \<noteq> wait_id w) (pending_of (ws_store s))"
      using rows by (auto simp: pending_of_def intro!: filter_cong)
    ultimately have "mset (pending_of (ws_store s @ ap_rows a)) = mset (pending_of (ws_store s)) - {#w#}"
      using remove_key_mset [of wait_id "pending_of (ws_store s)" w] by simp
    with held books True s' show ?thesis by (simp add: accounted_def)
  qed
qed

lemma commit_append_ok:
  assumes ok: "waits_ok s"
  shows "waits_ok (commit_append i s)"
proof (cases "i < length (ws_open s)")
  case True
  then obtain ys a zs where split: "ws_open s = ys @ a # zs" "ws_open s ! i = a" "remove_nth i (ws_open s) = ys @ zs"
    by (rule remove_nth_cases)
  let ?s = "after_commit a (s\<lparr>ws_open := ys @ zs, ws_store := ws_store s @ ap_rows a,
      ws_frames := ws_frames s @ ap_rows a\<rparr>)"
  have a: "append_ok (ws_store s) a" using ok split(1) by (simp add: waits_ok_def)
  have rows: "mset (all_rows ?s) = mset (all_rows s)" using split(1) by (simp add: all_rows_def open_rows_def)
  have seqs: "seqs_ok s" using ok by (simp add: waits_ok_def)
  have "seqs_ok ?s" by (rule seqs_ok_mset [OF seqs rows]) simp
  moreover have "store_ok (ws_store ?s)"
    using store_ok_commit [OF _ a] ok by (simp add: waits_ok_def)
  moreover have "list_all (append_ok (ws_store ?s)) (ws_open ?s)"
  proof -
    have "list_all (append_ok (ws_store s)) (ys @ zs)" using ok split(1) by (simp add: waits_ok_def)
    then have "list_all (append_ok (ws_store s @ ap_rows a)) (ys @ zs)"
      by (rule list.pred_mono_strong) (rule append_ok_mono)
    then show ?thesis by simp
  qed
  moreover have "distinct (map wait_id (waits_of_rows (all_rows ?s)))"
  proof -
    have "mset (map wait_id (waits_of_rows (all_rows ?s))) = mset (map wait_id (waits_of_rows (all_rows s)))"
      using waits_of_rows_mset [OF rows] by simp
    from mset_eq_imp_distinct_iff [OF this] ok show ?thesis by (simp add: waits_ok_def)
  qed
  moreover have "distinct (resolved_ids (ws_store ?s))"
  proof (cases "ap_purpose a")
    case (ResolveAppend w res)
    with split(1) have "w \<in> set (held_waits s)" by (simp add: held_waits_def resolving_by_def map_filter_simps)
    from held_started(2) [OF ok this] ResolveAppend a ok show ?thesis by (simp add: waits_ok_def append_ok_def)
  qed (use a ok in \<open>simp_all add: waits_ok_def append_ok_def\<close>)
  moreover have "accounted ?s" by (rule commit_accounted [OF ok split(1) refl])
  ultimately have "waits_ok ?s" using ok by (simp add: waits_ok_def)
  with True split show ?thesis by (simp add: commit_append_def Let_def)
next
  case False
  with ok show ?thesis by (simp add: commit_append_def)
qed

lemma seqs_ok_shrink:
  "seqs_ok s \<Longrightarrow> set (all_rows s') \<subseteq> set (all_rows s) \<Longrightarrow> distinct (map ev_seq (all_rows s')) \<Longrightarrow>
     ws_next s' = ws_next s \<Longrightarrow> seqs_ok s'"
  by (auto simp: seqs_ok_def)

lemma distinct_drop_part: "distinct (map f (xs @ ys @ as @ zs)) \<Longrightarrow> distinct (map f (xs @ ys @ zs))"
  by auto

lemma drop_append_ok:
  assumes ok: "waits_ok s" and split: "ws_open s = ys @ a # zs"
    and s': "ws_store s' = ws_store s" "ws_next s' = ws_next s" "ws_open s' = ys @ zs" "ws_reading s' = ws_reading s"
    and cache: "cache_ok (ws_cache s')" and acc: "accounted s'"
  shows "waits_ok s'"
proof -
  have rows: "all_rows s = ws_store s @ concat (map ap_rows ys) @ ap_rows a @ concat (map ap_rows zs)"
    "all_rows s' = ws_store s @ concat (map ap_rows ys) @ concat (map ap_rows zs)"
    using split s' by (simp_all add: all_rows_def open_rows_def)
  have seqs: "seqs_ok s" and ids: "distinct (map wait_id (waits_of_rows (all_rows s)))"
    using ok by (simp_all add: waits_ok_def)
  have "distinct (map ev_seq (all_rows s))" using seqs by (simp add: seqs_ok_def)
  then have "distinct (map ev_seq (all_rows s'))" unfolding rows by (rule distinct_drop_part)
  moreover have "set (all_rows s') \<subseteq> set (all_rows s)" unfolding rows by auto
  ultimately have "seqs_ok s'" using seqs_ok_shrink [OF seqs] s'(2) by blast
  moreover have "distinct (map wait_id (waits_of_rows (all_rows s')))"
    using ids unfolding rows rows_simps by (rule distinct_drop_part)
  moreover have "list_all (append_ok (ws_store s)) (ys @ zs)" using ok split by (simp add: waits_ok_def)
  ultimately show ?thesis using ok s' cache acc by (simp add: waits_ok_def)
qed

lemma abort_append_ok:
  assumes ok: "waits_ok s"
  shows "waits_ok (abort_append i s)"
proof (cases "i < length (ws_open s)")
  case True
  then obtain ys a zs where split: "ws_open s = ys @ a # zs" "ws_open s ! i = a" "remove_nth i (ws_open s) = ys @ zs"
    by (rule remove_nth_cases)
  show ?thesis
  proof (cases "resolving_by a")
    case None
    let ?s = "s\<lparr>ws_open := ys @ zs\<rparr>"
    have "held_waits ?s = held_waits s" using None split(1) by (simp add: held_waits_def map_filter_simps)
    then have "accounted ?s"
      using ok split(1) by (cases "ws_booted s") (simp_all add: waits_ok_def accounted_def)
    then have "waits_ok ?s"
      using ok split(1) by (intro drop_append_ok [OF ok split(1), of ?s]) (simp_all add: waits_ok_def)
    with None True split show ?thesis
      by (simp add: abort_append_def resolving_by_def split: append_purpose.splits)
  next
    case (Some w)
    with True split ok show ?thesis by (simp add: abort_append_def resolving_by_def split: append_purpose.splits)
  qed
qed (use ok in \<open>simp add: abort_append_def\<close>)

lemma resolution_emit_failed_ok:
  assumes ok: "waits_ok s"
  shows "waits_ok (resolution_emit_failed i s)"
proof (cases "i < length (ws_open s)")
  case True
  then obtain ys a zs where split: "ws_open s = ys @ a # zs" "ws_open s ! i = a" "remove_nth i (ws_open s) = ys @ zs"
    by (rule remove_nth_cases)
  show ?thesis
  proof (cases "ap_purpose a")
    case (ResolveAppend w res)
    then have by_a: "resolving_by a = Some w" by (simp add: resolving_by_def)
    let ?s = "s\<lparr>ws_open := ys @ zs, ws_cache := lw_insert w (ws_cache s)\<rparr>"
    have new: "wait_id w \<notin> wait_id ` set (map snd (ws_cache s))"
      using held_distinct [OF ok] split(1) by_a by (auto simp: held_waits_def map_filter_simps image_image)
    have cache: "cache_ok (ws_cache s)" using ok by (simp add: waits_ok_def)
    have held: "mset (held_waits ?s) = mset (held_waits s)"
      using cache_put(1) [OF cache new] split(1) by_a by (simp add: held_waits_def map_filter_simps)
    have "ws_booted s"
      using ok split(1) ResolveAppend by (cases "ws_booted s") (auto simp: waits_ok_def accounted_def)
    with held have "accounted ?s" using ok by (simp add: waits_ok_def accounted_def)
    then have "waits_ok ?s"
      using ok split(1) cache_put(2) [OF cache new]
      by (intro drop_append_ok [OF ok split(1), of ?s]) simp_all
    with ResolveAppend True split show ?thesis by (simp add: resolution_emit_failed_def)
  qed (use True split ok in \<open>simp_all add: resolution_emit_failed_def\<close>)
qed (use ok in \<open>simp add: resolution_emit_failed_def\<close>)

section \<open>Restart\<close>

lemma restart_ok:
  assumes "waits_ok s"
  shows "waits_ok (restart s)"
proof -
  have "distinct (map wait_id (waits_of_rows (ws_store s)))" "distinct (map ev_seq (ws_store s))"
    using assms by (auto simp: waits_ok_def seqs_ok_def all_rows_def)
  with assms show ?thesis
    by (auto simp: waits_ok_def restart_def wait_system_new_def seqs_ok_def all_rows_def open_rows_def cache_ok_def
        accounted_def held_waits_def map_filter_simps)
qed

text \<open>The query behind the rebuild finds the waits the store has no resolution for.\<close>

lemma same_start:
  "distinct (map wait_id (waits_of_rows rows)) \<Longrightarrow> e \<in> set rows \<Longrightarrow> e' \<in> set rows \<Longrightarrow>
     ev_note e = StartedNote w \<Longrightarrow> ev_note e' = StartedNote w' \<Longrightarrow> wait_id w = wait_id w' \<Longrightarrow> e = e'"
proof (induction rows)
  case (Cons r rows)
  have here: "wait_id v \<notin> wait_id ` set (waits_of_rows rows)" if "ev_note r = StartedNote v" for v
    using Cons.prems(1) that by simp
  have there: "wait_id v \<in> wait_id ` set (waits_of_rows rows)" if "x \<in> set rows" "ev_note x = StartedNote v" for x v
    using that waits_of_rows_iff by blast
  show ?case
    using Cons here there by (metis (no_types, lifting) append_is_Nil_conv distinct_append map_append rows_simps(5) set_ConsD)
qed simp

lemma unresolved_row_iff:
  assumes "store_ok store" "e \<in> set store" "distinct (map wait_id (waits_of_rows store))" "ev_note e = StartedNote w"
  shows "unresolved_row store e \<longleftrightarrow> wait_id w \<notin> set (resolved_ids store)"
proof -
  have thread: "ev_thread e = Some (wait_thread w)" using assms(1,2,4) by (auto simp: store_ok_def)
  have "ev_thread r = ev_thread e \<and> ev_seq e < ev_seq r"
    if r: "r \<in> set store" "resolves_wait (ev_note r) = Some (wait_id w)" for r
  proof -
    from assms(1) r obtain e' w' where e': "e' \<in> set store" "ev_note e' = StartedNote w'" "wait_id w' = wait_id w"
      "ev_thread r = ev_thread e'" "ev_seq e' < ev_seq r" by (fastforce simp: store_ok_def)
    from same_start [OF assms(3) e'(1) assms(2) e'(2) assms(4) e'(3)] e'(4,5) show ?thesis by simp
  qed
  with thread assms(4) show ?thesis by (auto simp: unresolved_row_def list_ex_iff resolved_ids_iff)
qed

lemma live_wait_rows_waits:
  assumes "store_ok store" "distinct (map wait_id (waits_of_rows store))" "\<forall>r \<in> set store. 0 < ev_seq r"
  shows "set (waits_of_rows (live_wait_rows 0 store)) = set (pending_of store)"
    "distinct (map wait_id (waits_of_rows (live_wait_rows 0 store)))"
proof -
  show "set (waits_of_rows (live_wait_rows 0 store)) = set (pending_of store)"
  proof (rule set_eqI)
    fix w
    have "(\<exists>e \<in> set store. 0 < ev_seq e \<and> unresolved_row store e \<and> ev_note e = StartedNote w) \<longleftrightarrow>
        (\<exists>e \<in> set store. ev_note e = StartedNote w) \<and> wait_id w \<notin> set (resolved_ids store)"
      using assms(3) unresolved_row_iff [OF assms(1) _ assms(2)] by blast
    then show "w \<in> set (waits_of_rows (live_wait_rows 0 store)) \<longleftrightarrow> w \<in> set (pending_of store)"
      by (auto simp: waits_of_rows_iff pending_of_def live_wait_rows_def)
  qed
  have rows: "mset (live_wait_rows 0 store) = mset (filter (\<lambda>e. 0 < ev_seq e \<and> unresolved_row store e) store)"
    by (simp add: live_wait_rows_def)
  have "distinct (map wait_id (waits_of_rows (filter P rows)))" if "distinct (map wait_id (waits_of_rows rows))" for P rows
    using that
  proof (induction rows)
    case (Cons r rows)
    have "set (waits_of_rows (filter P rows)) \<subseteq> set (waits_of_rows rows)" by (auto simp: waits_of_rows_iff)
    with Cons show ?case by (auto split: option.splits)
  qed simp
  from this [OF assms(2)] mset_eq_imp_distinct_iff
    [of "map wait_id (waits_of_rows (live_wait_rows 0 store))"
        "map wait_id (waits_of_rows (filter (\<lambda>e. 0 < ev_seq e \<and> unresolved_row store e) store))"]
    waits_of_rows_mset [OF rows]
  show "distinct (map wait_id (waits_of_rows (live_wait_rows 0 store)))" by simp
qed

lemma fold_lw_insert:
  "cache_ok waits \<Longrightarrow> distinct (map wait_id ws) \<Longrightarrow> wait_id ` set ws \<inter> wait_id ` set (map snd waits) = {} \<Longrightarrow>
     cache_ok (fold lw_insert ws waits) \<and>
     mset (map snd (fold lw_insert ws waits)) = mset ws + mset (map snd waits)"
proof (induction ws arbitrary: waits)
  case (Cons w ws)
  then have new: "wait_id w \<notin> wait_id ` set (map snd waits)" by auto
  note put = cache_put [OF Cons.prems(1) new]
  have "set (map snd (lw_insert w waits)) = insert w (set (map snd waits))"
    using mset_eq_setD [OF put(1) [folded mset.simps(2)]] by simp
  then have "cache_ok (fold lw_insert ws (lw_insert w waits)) \<and>
      mset (map snd (fold lw_insert ws (lw_insert w waits))) = mset ws + mset (map snd (lw_insert w waits))"
    using Cons.prems put(2) by (intro Cons.IH) auto
  with put(1) show ?case by simp
qed simp

lemma rebuild_ok:
  assumes ok: "waits_ok s"
  shows "waits_ok (rebuild_event_waits s)"
proof (cases "ws_booted s")
  case True
  with ok show ?thesis by (simp add: rebuild_event_waits_def)
next
  case False
  let ?ws = "waits_of_rows (live_wait_rows 0 (ws_store s))"
  let ?s = "s\<lparr>ws_cache := fold lw_insert ?ws [], ws_booted := True\<rparr>"
  have empty: "ws_cache s = []" "ws_uncached s = []" "ws_taken s = []" "List.map_filter resolving_by (ws_open s) = []"
    using ok False by (auto simp: waits_ok_def accounted_def held_waits_def)
  have store: "store_ok (ws_store s)" "distinct (map wait_id (waits_of_rows (ws_store s)))"
    "\<forall>r \<in> set (ws_store s). 0 < ev_seq r"
    using ok by (auto simp: waits_ok_def seqs_ok_def all_rows_def)
  note live = live_wait_rows_waits [OF store]
  have filled: "cache_ok (fold lw_insert ?ws []) \<and> mset (map snd (fold lw_insert ?ws [])) = mset ?ws"
    using fold_lw_insert [of "[]" ?ws] live(2) by (simp add: cache_ok_def)
  have "distinct (map wait_id (pending_of (ws_store s)))"
    using store(2) by (simp add: pending_of_def distinct_map_filter)
  then have "mset ?ws = mset (pending_of (ws_store s))"
    using live set_eq_iff_mset_eq_distinct [of ?ws "pending_of (ws_store s)"] by (simp add: distinct_map)
  with filled empty have "accounted ?s" by (simp add: accounted_def held_waits_def)
  moreover have "all_rows ?s = all_rows s" by (simp add: all_rows_def open_rows_def)
  ultimately have booted: "waits_ok ?s" using ok filled by (simp add: waits_ok_def seqs_ok_def)
  let ?t = "fold start_scan (lw_snapshot (ws_cache ?s)) ?s"
  have "same_books ?s ?t" using booted by (intro books_of_equal) (simp_all add: waits_ok_def)
  from same_books_ok [OF this booted] have "waits_ok ?t" .
  moreover have "rebuild_event_waits s = ?t"
    using False empty(1) by (simp add: rebuild_event_waits_def rebuild_live_waits_def Let_def)
  ultimately show ?thesis by simp
qed

section \<open>Every run\<close>

fun is_silent_op :: "wait_op \<Rightarrow> bool" where
  "is_silent_op (Append _) = False"
| "is_silent_op (Commit _) = False"
| "is_silent_op (Abort _) = False"
| "is_silent_op (ResolutionFails _) = False"
| "is_silent_op (Register _ _ _ _ _) = False"
| "is_silent_op (PersistWait _ _ _ _ _) = False"
| "is_silent_op (EmitResolution _ _ _ _ _) = False"
| "is_silent_op Restart = False"
| "is_silent_op Rebuild = False"
| "is_silent_op _ = True"

lemma silent_op_books:
  assumes ok: "waits_ok s" and silent: "is_silent_op opn"
  shows "same_books s (wait_op_step regex uuid_text opn s)"
proof -
  have cache: "cache_ok (ws_cache s)" using ok by (simp add: waits_ok_def)
  show ?thesis
    using silent ok
    by (cases opn)
       (simp_all add: wait_op_step_def wait_op_ok_def scan_fails_def lag_frames_def sweep_expired_def
          cache_wait_books scan_step_books [OF cache] scan_take_books [OF cache] frame_books [OF cache]
          end_one_books [OF cache] offer_one_books [OF cache] expire_one_books [OF cache]
          rescan_books [OF cache] cancel_books [OF cache] books_of_equal [OF cache])
qed

lemma wait_step_ok:
  assumes ok: "waits_ok s"
  shows "waits_ok (wait_op_step regex uuid_text opn s)"
proof (cases "is_silent_op opn")
  case True
  from same_books_ok [OF silent_op_books [OF ok this] ok] show ?thesis .
next
  case False
  then show ?thesis
    using ok
    by (cases opn)
       (simp_all add: wait_op_step_def wait_op_ok_def begin_plain_ok commit_append_ok abort_append_ok
          resolution_emit_failed_ok read_watermark_ok persist_wait_ok emit_resolution_ok restart_ok rebuild_ok)
qed

interpretation wait_books: invariant_steps "\<lambda>s opn. wait_op_step regex uuid_text opn s" waits_ok
  for regex uuid_text
  by unfold_locales (rule wait_step_ok)

lemma wait_run_ok: "waits_ok (wait_run regex uuid_text ops)"
  unfolding wait_run_def by (rule wait_books.run_inv) (rule waits_ok_new)

end
