(* ===== verification/Event_Wait_Cover.thy ===== *)
theory Event_Wait_Cover
  imports Event_Wait_Facts
begin

text \<open>
  Why no event is missed. Every row that matches an armed wait above its watermark is on its way to the wait:
  in a frame not yet received, in a match not yet taken, ahead of a scan, in the hit of a scan, or behind a
  rescan that is owed. And no append that is still open is at or below a watermark.
\<close>

section \<open>The horizon\<close>

definition horizon_ok :: "wait_system \<Rightarrow> bool" where
  "horizon_ok s \<longleftrightarrow>
     (\<forall>p \<in> set (ws_reading s). pw_horizon p < ws_next s \<and>
        (\<forall>a \<in> set (ws_open s). ap_key a \<notin> set (pw_in_flight p) \<longrightarrow> (\<forall>r \<in> set (ap_rows a). pw_horizon p < ev_seq r))) \<and>
     (\<forall>w \<in> set (waits_of_rows (all_rows s)). watermark w < ws_next s \<and> (\<forall>r \<in> set (open_rows s). watermark w < ev_seq r))"

lemma horizon_same_books: "same_books s s' \<Longrightarrow> horizon_ok s \<Longrightarrow> horizon_ok s'"
  by (simp add: same_books_def horizon_ok_def all_rows_def open_rows_def)

lemma open_rows_begin [simp]:
  "open_rows (begin_append rows purpose s) = open_rows s @ number_rows (ws_next s) rows"
  by (simp add: open_rows_def)

lemma horizon_begin:
  assumes ok: "horizon_ok s"
    and new: "\<forall>w \<in> set (waits_of_rows rows). watermark w < ws_next s \<and> (\<forall>r \<in> set (open_rows s). watermark w < ev_seq r)"
  shows "horizon_ok (begin_append rows purpose s)"
proof -
  have fresh: "ws_next s \<le> ev_seq r" if "r \<in> set (number_rows (ws_next s) rows)" for r
    using number_rows_seq_ge [OF that] by simp
  have reading: "pw_horizon p < ws_next s" if "p \<in> set (ws_reading s)" for p
    using ok that by (simp add: horizon_ok_def)
  have waits: "watermark w < ws_next s \<and> (\<forall>r \<in> set (open_rows s). watermark w < ev_seq r)"
    if "w \<in> set (waits_of_rows (all_rows s)) \<or> w \<in> set (waits_of_rows rows)" for w
    using ok new that by (auto simp: horizon_ok_def)
  show ?thesis
    unfolding horizon_ok_def
  proof (intro conjI ballI impI)
    fix p assume "p \<in> set (ws_reading (begin_append rows purpose s))"
    then show "pw_horizon p < ws_next (begin_append rows purpose s)" using reading [of p] by simp
  next
    fix p a r assume p: "p \<in> set (ws_reading (begin_append rows purpose s))"
      and a: "a \<in> set (ws_open (begin_append rows purpose s))" "ap_key a \<notin> set (pw_in_flight p)" "r \<in> set (ap_rows a)"
    show "pw_horizon p < ev_seq r"
    proof (cases "a \<in> set (ws_open s)")
      case True
      with ok p a show ?thesis by (simp add: horizon_ok_def)
    next
      case False
      with a have "r \<in> set (number_rows (ws_next s) rows)" by auto
      from fresh [OF this] reading [of p] p show ?thesis by simp
    qed
  next
    fix w assume "w \<in> set (waits_of_rows (all_rows (begin_append rows purpose s)))"
    then show "watermark w < ws_next (begin_append rows purpose s)" using waits [of w] by auto
  next
    fix w r assume w: "w \<in> set (waits_of_rows (all_rows (begin_append rows purpose s)))"
      and r: "r \<in> set (open_rows (begin_append rows purpose s))"
    from w have "watermark w < ws_next s \<and> (\<forall>r \<in> set (open_rows s). watermark w < ev_seq r)"
      by (intro waits) auto
    with r fresh [of r] show "watermark w < ev_seq r" by auto
  qed
qed

lemma horizon_drop:
  assumes ok: "horizon_ok s" and "set (ws_open s') \<subseteq> set (ws_open s)" "ws_next s' = ws_next s"
    "ws_reading s' = ws_reading s" and rows: "set (all_rows s') \<subseteq> set (all_rows s)"
  shows "horizon_ok s'"
proof -
  have "w \<in> set (waits_of_rows (all_rows s))" if "w \<in> set (waits_of_rows (all_rows s'))" for w
    using that rows unfolding waits_of_rows_iff by blast
  moreover have "set (open_rows s') \<subseteq> set (open_rows s)" using assms(2) by (auto simp: open_rows_def)
  ultimately show ?thesis
    using ok assms(2) unfolding horizon_ok_def assms(3) assms(4) by blast
qed

lemma horizon_commit:
  assumes ok: "horizon_ok s"
  shows "horizon_ok (commit_append i s)"
proof (cases "i < length (ws_open s)")
  case True
  then obtain ys a zs where split: "ws_open s = ys @ a # zs" "ws_open s ! i = a" "remove_nth i (ws_open s) = ys @ zs"
    by (rule remove_nth_cases)
  have "horizon_ok (after_commit a (s\<lparr>ws_open := ys @ zs, ws_store := ws_store s @ ap_rows a,
      ws_frames := ws_frames s @ ap_rows a\<rparr>))"
    by (rule horizon_drop [OF ok]) (auto simp: split(1) all_rows_def open_rows_def)
  with True split show ?thesis by (simp add: commit_append_def Let_def)
qed (use ok in \<open>simp add: commit_append_def\<close>)

lemma horizon_without:
  assumes "horizon_ok s" "ws_store s' = ws_store s" "ws_open s' = remove_nth i (ws_open s)" "ws_next s' = ws_next s"
    "ws_reading s' = ws_reading s"
  shows "horizon_ok s'"
proof (rule horizon_drop [OF assms(1)])
  show opened: "set (ws_open s') \<subseteq> set (ws_open s)" using assms(3) set_remove_nth_subset by metis
  then show "set (all_rows s') \<subseteq> set (all_rows s)" using assms(2) by (auto simp: all_rows_def open_rows_def)
qed (use assms in simp_all)

lemma horizon_failures:
  assumes "horizon_ok s"
  shows "horizon_ok (abort_append i s)" "horizon_ok (resolution_emit_failed i s)"
  using assms
  by (auto simp: abort_append_def resolution_emit_failed_def split: append_purpose.splits
      intro: horizon_without [where s = s and i = i])

lemma max_sequence_less:
  "\<forall>r \<in> set rows. ev_seq r < n \<Longrightarrow> 0 < n \<Longrightarrow> max_sequence rows < n"
proof -
  have "m < n \<Longrightarrow> \<forall>r \<in> set rows. ev_seq r < n \<Longrightarrow> fold (\<lambda>r m. max (ev_seq r) m) rows m < n" for m
    by (induction rows arbitrary: m) auto
  then show "\<forall>r \<in> set rows. ev_seq r < n \<Longrightarrow> 0 < n \<Longrightarrow> max_sequence rows < n" by (simp add: max_sequence_def)
qed

lemma horizon_read:
  assumes "horizon_ok s" "waits_ok s"
  shows "horizon_ok (read_watermark t tool on reason secs s)"
proof -
  have "max_sequence (ws_store s) < ws_next s"
    using assms(2) by (intro max_sequence_less) (auto simp: waits_ok_def seqs_ok_def all_rows_def)
  with assms(1) show ?thesis by (auto simp: horizon_ok_def read_watermark_def all_rows_def open_rows_def)
qed

lemma horizon_persist:
  assumes "horizon_ok s"
  shows "horizon_ok (persist_wait i fresh eid payload now s)"
proof (cases "i < length (ws_reading s) \<and> horizon_settled (ws_reading s ! i) s")
  case True
  then obtain ys p zs where split: "ws_reading s = ys @ p # zs" "ws_reading s ! i = p"
    "remove_nth i (ws_reading s) = ys @ zs" by (auto elim: remove_nth_cases)
  let ?s = "s\<lparr>ws_reading := ys @ zs\<rparr>"
  have "horizon_ok ?s" using assms split(1) by (auto simp: horizon_ok_def all_rows_def open_rows_def)
  moreover have "pw_horizon p < ws_next s" "\<forall>r \<in> set (open_rows s). pw_horizon p < ev_seq r"
    using assms split True by (auto simp: horizon_ok_def horizon_settled_def open_rows_def list_all_iff)
  ultimately show ?thesis
    using True split
    by (auto simp: persist_wait_def Let_def event_row_def build_wait_at_def open_rows_def intro!: horizon_begin)
qed (use assms in \<open>auto simp: persist_wait_def\<close>)

lemma horizon_emit:
  assumes "horizon_ok s"
  shows "horizon_ok (emit_resolution i eid anchor payload wake s)"
proof -
  have "horizon_ok (s\<lparr>ws_taken := remove_nth i (ws_taken s)\<rparr>)"
    using assms by (simp add: horizon_ok_def all_rows_def open_rows_def)
  then show ?thesis
    using assms by (auto simp: emit_resolution_def split: prod.splits intro!: horizon_begin)
qed

lemma horizon_restart: "horizon_ok s \<Longrightarrow> horizon_ok (restart s)"
  by (auto simp: horizon_ok_def restart_def wait_system_new_def all_rows_def open_rows_def)

lemma horizon_rebuild: "horizon_ok s \<Longrightarrow> horizon_ok (rebuild_event_waits s)"
  by (simp add: horizon_ok_def rebuild_event_waits_def Let_def all_rows_def open_rows_def)

lemma horizon_step:
  assumes "waits_ok s" "horizon_ok s"
  shows "horizon_ok (wait_op_step regex uuid_text opn s)"
proof (cases "is_silent_op opn")
  case True
  from horizon_same_books [OF silent_op_books [OF assms(1) this] assms(2)] show ?thesis .
next
  case False
  have plain: "horizon_ok (begin_append rows PlainAppend s)" if "list_all (\<lambda>r. ev_note r = NoNote) rows" for rows
    using silent_rows [OF that] assms(2) by (intro horizon_begin) auto
  show ?thesis
    using False assms
    by (cases opn)
       (simp_all add: wait_op_step_def wait_op_ok_def plain horizon_commit horizon_failures horizon_read
          horizon_persist horizon_emit horizon_restart horizon_rebuild)
qed

section \<open>The scan\<close>

definition row_matches :: "regex_new \<Rightarrow> (uuid \<Rightarrow> string) \<Rightarrow> live_wait \<Rightarrow> stored_event \<Rightarrow> bool" where
  "row_matches regex uuid_text w r \<longleftrightarrow>
     \<not> ev_keep_alive_idle r \<and> matched_index regex w (ev_type r) (row_view uuid_text r) \<noteq> None"

lemma row_matches_scanned: "row_matches regex uuid_text w r \<Longrightarrow> scanned_row w r \<and> wait_on w \<noteq> []"
  by (force simp: row_matches_def matched_index_def scanned_row_def subscription_matches_def in_set_conv_nth
      dest!: position_SomeD)

lemma scan_turn_passes:
  assumes store: "distinct (map ev_seq rows)" and r: "r \<in> set rows" "after < ev_seq r" "row_matches regex uuid_text w r"
  shows "scan_turn regex uuid_text w after rows \<noteq> ScanDone"
    "scan_turn regex uuid_text w after rows = ScanOn n \<Longrightarrow> n < ev_seq r"
proof -
  let ?found = "filter (\<lambda>r. after < ev_seq r \<and> scanned_row w r) rows"
  let ?sorted = "sort_key ev_seq ?found"
  let ?page = "take catch_up_page_size ?sorted"
  have on: "wait_on w \<noteq> []" using row_matches_scanned [OF r(3)] by simp
  have mem: "r \<in> set ?sorted" using r row_matches_scanned [OF r(3)] by simp
  have later: "\<not> length ?page < catch_up_page_size \<and> ev_seq (last ?page) < ev_seq r" if out: "r \<notin> set ?page"
  proof -
    from mem out have tail: "r \<in> set (drop catch_up_page_size ?sorted)"
      by (metis append_take_drop_id UnE set_append)
    then have long: "catch_up_page_size < length ?sorted" by (cases "catch_up_page_size < length ?sorted") auto
    then have full: "length ?page = catch_up_page_size" by simp
    then have "0 < length ?page" by (simp add: catch_up_page_size_def)
    then have "?page \<noteq> []" by blast
    then have last_in: "last ?page \<in> set ?page" by simp
    have "sorted (map ev_seq (?page @ drop catch_up_page_size ?sorted))"
      unfolding append_take_drop_id by simp
    then have "\<forall>x \<in> set ?page. \<forall>y \<in> set (drop catch_up_page_size ?sorted). ev_seq x \<le> ev_seq y"
      unfolding map_append sorted_append set_map by blast
    then have "ev_seq (last ?page) \<le> ev_seq r" using last_in tail by blast
    moreover have "ev_seq (last ?page) \<noteq> ev_seq r"
    proof
      assume "ev_seq (last ?page) = ev_seq r"
      moreover have "last ?page \<in> set rows" using in_set_takeD [OF last_in] by simp
      ultimately have "last ?page = r" using filter_key_other [OF store] r(1) by blast
      with last_in out show False by simp
    qed
    ultimately show ?thesis using full by simp
  qed
  have hit: "List.map_filter (row_hit regex uuid_text w) ?page \<noteq> []" if "r \<in> set ?page"
    using that r(3) by (force simp: map_filter_def row_hit_def row_matches_def filter_empty_conv)
  show "scan_turn regex uuid_text w after rows \<noteq> ScanDone"
    using on later hit
    by (auto simp: scan_turn_def catch_up_page_def Let_def split: list.splits)
  show "n < ev_seq r" if "scan_turn regex uuid_text w after rows = ScanOn n"
    using that on later hit
    by (auto simp: scan_turn_def catch_up_page_def Let_def split: list.splits if_splits)
qed

section \<open>Coverage\<close>

definition covered :: "wait_system \<Rightarrow> live_wait \<Rightarrow> stored_event \<Rightarrow> bool" where
  "covered s w r \<longleftrightarrow>
     ws_rescan s \<or> r \<in> set (ws_frames s) \<or> ws_heard s = Some r \<or>
     (\<exists>after. (w, after) \<in> set (ws_scans s) \<and> after < ev_seq r) \<or>
     (\<exists>hit. (w, hit) \<in> set (ws_hits s)) \<or>
     (\<exists>k. (wait_id w, k, r) \<in> set (ws_offering s))"

definition cover_ok :: "regex_new \<Rightarrow> (uuid \<Rightarrow> string) \<Rightarrow> wait_system \<Rightarrow> bool" where
  "cover_ok regex uuid_text s \<longleftrightarrow>
     (\<not> ws_down s \<longrightarrow>
        (\<forall>w \<in> set (map snd (ws_cache s)). \<forall>r \<in> set (ws_store s).
           watermark w < ev_seq r \<and> row_matches regex uuid_text w r \<longrightarrow> covered s w r))"

lemma cover_mono:
  assumes ok: "cover_ok regex uuid_text s"
    and cache: "set (map snd (ws_cache s')) \<subseteq> set (map snd (ws_cache s))"
    and same: "ws_store s' = ws_store s" "ws_down s' = ws_down s" "ws_rescan s \<longrightarrow> ws_rescan s'"
      "ws_heard s' = ws_heard s"
      "set (ws_frames s) \<subseteq> set (ws_frames s')" "set (ws_scans s) \<subseteq> set (ws_scans s')"
      "set (ws_hits s) \<subseteq> set (ws_hits s')" "set (ws_offering s) \<subseteq> set (ws_offering s')"
  shows "cover_ok regex uuid_text s'"
proof -
  have kept: "covered s w r \<Longrightarrow> covered s' w r" for w r
    using same(3-8) unfolding covered_def same(4) by blast
  show ?thesis
    unfolding cover_ok_def same(1,2)
  proof (intro impI ballI)
    fix w r
    assume "\<not> ws_down s" "w \<in> set (map snd (ws_cache s'))" "r \<in> set (ws_store s)"
      "watermark w < ev_seq r \<and> row_matches regex uuid_text w r"
    with ok cache have "covered s w r" unfolding cover_ok_def by blast
    then show "covered s' w r" by (rule kept)
  qed
qed

lemma cover_quiet:
  assumes "cover_ok regex uuid_text s" "ws_cache s' = ws_cache s" "ws_store s' = ws_store s" "ws_down s' = ws_down s"
    "ws_rescan s' = ws_rescan s" "ws_heard s' = ws_heard s" "ws_frames s' = ws_frames s" "ws_scans s' = ws_scans s" "ws_hits s' = ws_hits s"
    "ws_offering s' = ws_offering s"
  shows "cover_ok regex uuid_text s'"
  using assms by (intro cover_mono [OF assms(1)]) simp_all

lemma cache_without:
  "cache_ok waits \<Longrightarrow> w \<in> set (map snd (hm_remove i waits)) \<Longrightarrow> w \<in> set (map snd waits) \<and> wait_id w \<noteq> i"
  by (auto simp: AList.delete_eq cache_ok_def list_all_iff)

lemma take_wait_cache:
  assumes "cache_ok (ws_cache s)" "w \<in> set (map snd (ws_cache (take_wait i res s)))"
  shows "w \<in> set (map snd (ws_cache s))" "wait_id w \<noteq> i"
proof -
  have "w \<in> set (map snd (ws_cache s)) \<and> wait_id w \<noteq> i"
  proof (cases "hm_get (ws_cache s) i")
    case None
    with assms(2) have here: "w \<in> set (map snd (ws_cache s))" by (simp add: take_wait_def lw_take_def)
    then have "wait_id w \<in> hm_keys (ws_cache s)"
      using assms(1) by (force simp: cache_ok_def list_all_iff hm_keys_def)
    with here None show ?thesis by (auto simp: hm_get_None_iff)
  next
    case (Some v)
    with assms(2) have "w \<in> set (map snd (hm_remove i (ws_cache s)))" by (simp add: take_wait_def lw_take_def)
    from cache_without [OF assms(1) this] show ?thesis .
  qed
  then show "w \<in> set (map snd (ws_cache s))" "wait_id w \<noteq> i" by simp_all
qed

lemma take_wait_sel [simp]:
  "ws_store (take_wait i res s) = ws_store s" "ws_down (take_wait i res s) = ws_down s"
  "ws_rescan (take_wait i res s) = ws_rescan s" "ws_heard (take_wait i res s) = ws_heard s" "ws_frames (take_wait i res s) = ws_frames s"
  "ws_scans (take_wait i res s) = ws_scans s" "ws_hits (take_wait i res s) = ws_hits s"
  "ws_offering (take_wait i res s) = ws_offering s"
  by (simp_all add: take_wait_def lw_take_def split: option.split)

text \<open>Taking a wait keeps the coverage of the others, whatever named the taken one.\<close>

lemma cover_take:
  assumes ok: "cover_ok regex uuid_text s" and cache: "cache_ok (ws_cache s)"
    and before: "ws_store s1 = ws_store s" "ws_down s1 = ws_down s" "ws_rescan s1 = ws_rescan s"
      "ws_heard s1 = ws_heard s" "ws_frames s1 = ws_frames s" "ws_scans s1 = ws_scans s" "ws_cache s1 = ws_cache s"
    and named: "\<And>w hit. (w, hit) \<in> set (ws_hits s) \<Longrightarrow> (w, hit) \<in> set (ws_hits s1) \<or> wait_id w = i"
      "\<And>j k r. (j, k, r) \<in> set (ws_offering s) \<Longrightarrow> (j, k, r) \<in> set (ws_offering s1) \<or> j = i"
  shows "cover_ok regex uuid_text (take_wait i res s1)"
  unfolding cover_ok_def
proof (intro impI ballI)
  fix w r
  assume down: "\<not> ws_down (take_wait i res s1)" and w: "w \<in> set (map snd (ws_cache (take_wait i res s1)))"
    and r: "r \<in> set (ws_store (take_wait i res s1))" and m: "watermark w < ev_seq r \<and> row_matches regex uuid_text w r"
  have cache1: "cache_ok (ws_cache s1)" using cache before by simp
  from take_wait_cache [OF cache1 w] before have "w \<in> set (map snd (ws_cache s))" "wait_id w \<noteq> i" by simp_all
  with ok down r m before have "covered s w r" "wait_id w \<noteq> i" by (auto simp: cover_ok_def)
  with before named show "covered (take_wait i res s1) w r" unfolding covered_def take_wait_sel by metis
qed

lemma awaitable_offered:
  assumes "wait_names_ok w" "row_matches regex uuid_text w r"
  shows "is_offered r"
proof -
  from assms(2) have idle: "\<not> ev_keep_alive_idle r" and "ev_type r \<in> es_event_type ` set (wait_on w)"
    using row_matches_scanned [OF assms(2)] by (auto simp: row_matches_def scanned_row_def)
  with assms(1) have name: "awaitable_name (ev_type r)" by (auto simp: wait_names_ok_def list_all_iff)
  then have "trim (ev_type r) = ev_type r" by (simp add: awaitable_name_def)
  with name idle show ?thesis
    by (auto simp: awaitable_name_def is_offered_def is_awaitable_event_def validate_subscribable_event_type_def
        Let_def split: if_splits)
qed

lemma cached_names:
  assumes "waits_ok s" "w \<in> set (map snd (ws_cache s))"
  shows "wait_names_ok w"
proof -
  have "w \<in> set (held_waits s)" using assms(2) by (auto simp: held_waits_def)
  from held_started(1) [OF assms(1) this] assms(1) show ?thesis by (auto simp: waits_ok_def store_ok_def)
qed

section \<open>The operations keep the coverage\<close>

lemma cover_commit:
  assumes ok: "cover_ok regex uuid_text s"
  shows "cover_ok regex uuid_text (commit_append i s)"
proof (cases "i < length (ws_open s)")
  case True
  let ?a = "ws_open s ! i"
  let ?s = "s\<lparr>ws_open := remove_nth i (ws_open s), ws_store := ws_store s @ ap_rows ?a, ws_frames := ws_frames s @ ap_rows ?a\<rparr>"
  have "cover_ok regex uuid_text ?s"
    using ok by (auto simp: cover_ok_def covered_def)
  then have "cover_ok regex uuid_text (after_commit ?a ?s)"
    by (rule cover_quiet) (simp_all add: after_commit_def split: append_purpose.split wait_resolution.split)
  with True show ?thesis by (simp add: commit_append_def Let_def)
qed (use ok in \<open>simp add: commit_append_def\<close>)

lemma lw_insert_set: "cache_ok waits \<Longrightarrow> set (map snd (lw_insert w waits)) \<subseteq> insert w (set (map snd waits))"
proof -
  have "set (map snd (hm_insert k v waits)) \<subseteq> insert v (set (map snd waits))" for k v
    by (induction waits) auto
  then show ?thesis by (simp add: lw_insert_def)
qed

lemma cover_cache:
  assumes ok: "cover_ok regex uuid_text s" and cache: "cache_ok (ws_cache s)"
  shows "cover_ok regex uuid_text (cache_wait i s)"
proof (cases "i < length (ws_uncached s)")
  case True
  let ?w = "ws_uncached s ! i"
  let ?s = "cache_wait i s"
  have state: "?s = start_scan ?w (s\<lparr>ws_uncached := remove_nth i (ws_uncached s), ws_cache := lw_insert ?w (ws_cache s)\<rparr>)"
    using True by (simp add: cache_wait_def Let_def)
  show ?thesis
    unfolding cover_ok_def
  proof (intro impI ballI)
    fix w r
    assume down: "\<not> ws_down ?s" and w: "w \<in> set (map snd (ws_cache ?s))" and r: "r \<in> set (ws_store ?s)"
      and m: "watermark w < ev_seq r \<and> row_matches regex uuid_text w r"
    show "covered ?s w r"
    proof (cases "w = ?w")
      case True
      with down m show ?thesis unfolding state by (auto simp: start_scan_def covered_def)
    next
      case False
      with w lw_insert_set [OF cache, of ?w] have "w \<in> set (map snd (ws_cache s))" unfolding state by auto
      with ok down r m have "covered s w r" unfolding state by (auto simp: cover_ok_def)
      then show ?thesis unfolding state by (auto simp: start_scan_def covered_def)
    qed
  qed
qed (use ok in \<open>simp add: cache_wait_def\<close>)

lemma cover_scan:
  assumes ok: "cover_ok regex uuid_text s" and books: "waits_ok s"
  shows "cover_ok regex uuid_text (scan_step regex uuid_text i s)"
proof (cases "i < length (ws_scans s)")
  case True
  obtain w after where scan: "ws_scans s ! i = (w, after)" by fastforce
  then obtain ys zs where split: "ws_scans s = ys @ (w, after) # zs" "remove_nth i (ws_scans s) = ys @ zs"
    and update: "\<And>x. (ws_scans s)[i := x] = ys @ x # zs"
    using remove_nth_split [OF True] by (metis list_update_length)
  have seqs: "distinct (map ev_seq (ws_store s))" using books by (auto simp: waits_ok_def seqs_ok_def all_rows_def)
  let ?s = "scan_step regex uuid_text i s"
  show ?thesis
    unfolding cover_ok_def
  proof (intro impI ballI)
    fix v r
    assume down: "\<not> ws_down ?s" and v: "v \<in> set (map snd (ws_cache ?s))" and r: "r \<in> set (ws_store ?s)"
      and m: "watermark v < ev_seq r \<and> row_matches regex uuid_text v r"
    have same: "ws_down ?s = ws_down s" "ws_cache ?s = ws_cache s" "ws_store ?s = ws_store s"
      "ws_rescan ?s = ws_rescan s" "ws_frames ?s = ws_frames s" "ws_offering ?s = ws_offering s" "ws_heard ?s = ws_heard s"
      using True scan by (simp_all add: scan_step_def split: scan_turn.split)
    have scans: "ws_scans ?s = (case scan_turn regex uuid_text w after (ws_store s) of
        ScanOn n \<Rightarrow> ys @ (w, n) # zs | _ \<Rightarrow> ys @ zs)"
      using True scan split(2) update by (simp add: scan_step_def split: scan_turn.split)
    have hits: "set (ws_hits s) \<subseteq> set (ws_hits ?s)"
      using True scan by (auto simp: scan_step_def split: scan_turn.split)
    from ok down v r m same have before: "covered s v r" by (auto simp: cover_ok_def)
    show "covered ?s v r"
    proof (cases "v = w \<and> after < ev_seq r")
      case hit: True
      note passes = scan_turn_passes [OF seqs, of r after regex uuid_text w]
      show ?thesis
      proof (cases "scan_turn regex uuid_text w after (ws_store s)")
        case (ScanHit r' k)
        with True scan hit show ?thesis by (auto simp: scan_step_def covered_def)
      next
        case ScanDone
        with passes(1) hit r m same show ?thesis by auto
      next
        case (ScanOn n)
        with passes(2) hit r m same have "n < ev_seq r" by auto
        with hit ScanOn scans show ?thesis by (auto simp: covered_def)
      qed
    next
      case False
      with before split(1) have "ws_rescan s \<or> r \<in> set (ws_frames s) \<or> ws_heard s = Some r \<or>
          (\<exists>a. (v, a) \<in> set (ys @ zs) \<and> a < ev_seq r) \<or> (\<exists>hit. (v, hit) \<in> set (ws_hits s)) \<or>
          (\<exists>k. (wait_id v, k, r) \<in> set (ws_offering s))"
        by (auto simp: covered_def)
      moreover have "set (ys @ zs) \<subseteq> set (ws_scans ?s)"
        unfolding scans by (auto split: scan_turn.split)
      ultimately show ?thesis using hits unfolding covered_def same(4-7) by blast
    qed
  qed
qed (use ok in \<open>simp add: scan_step_def\<close>)

lemma cover_scan_take:
  assumes ok: "cover_ok regex uuid_text s" and cache: "cache_ok (ws_cache s)"
  shows "cover_ok regex uuid_text (scan_take i s)"
proof (cases "i < length (ws_hits s)")
  case True
  then obtain ys x zs where split0: "ws_hits s = ys @ x # zs" "ws_hits s ! i = x" "remove_nth i (ws_hits s) = ys @ zs"
    by (rule remove_nth_cases)
  obtain w r k where x: "x = (w, r, k)" by (metis prod.collapse)
  note split = split0 [unfolded x]
  have "cover_ok regex uuid_text (take_wait (wait_id w) (Delivery r k) (s\<lparr>ws_hits := ys @ zs\<rparr>))"
    using split(1) by (intro cover_take [OF ok cache]) auto
  with True split show ?thesis by (simp add: scan_take_def)
qed (use ok in \<open>simp add: scan_take_def\<close>)

lemma cover_offer:
  assumes ok: "cover_ok regex uuid_text s" and cache: "cache_ok (ws_cache s)"
  shows "cover_ok regex uuid_text (offer_one s)"
proof (cases "ws_offering s")
  case Nil
  with ok show ?thesis by (simp add: offer_one_def)
next
  case (Cons x rest)
  obtain i k r where x: "x = (i, k, r)" by (metis prod.collapse)
  have "cover_ok regex uuid_text (take_wait i (Delivery r k) (s\<lparr>ws_offering := rest\<rparr>))"
    using Cons x by (intro cover_take [OF ok cache]) auto
  with ok Cons x show ?thesis by (simp add: offer_one_def)
qed

lemma cover_takes:
  assumes ok: "cover_ok regex uuid_text s" and cache: "cache_ok (ws_cache s)"
  shows "cover_ok regex uuid_text (end_one s)" "cover_ok regex uuid_text (expire_one s)"
    "cover_ok regex uuid_text (cancel_event_wait t i cause s)"
proof -
  show "cover_ok regex uuid_text (end_one s)"
    using ok by (auto simp: end_one_def split: list.splits intro!: cover_take [OF ok cache])
  show "cover_ok regex uuid_text (expire_one s)"
    using ok by (auto simp: expire_one_def split: list.splits intro!: cover_take [OF ok cache])
  have "cancel_event_wait t i cause s = s \<or> cancel_event_wait t i cause s = take_wait i (Cancellation cause) s"
    by (auto simp: cancel_event_wait_def lw_take_on_thread_def take_wait_def lw_take_def split: option.split)
  moreover have "cover_ok regex uuid_text (take_wait i (Cancellation cause) s)"
    by (rule cover_take [OF ok cache]) simp_all
  ultimately show "cover_ok regex uuid_text (cancel_event_wait t i cause s)" using ok by metis
qed

lemma set_lw_snapshot [simp]: "set (lw_snapshot waits) = set (map snd waits)"
  by (simp add: lw_snapshot_def)

lemma cover_receive:
  assumes ok: "cover_ok regex uuid_text s"
  shows "cover_ok regex uuid_text (receive_frame s)"
proof (cases "ws_frames s = [] \<or> \<not> dispatcher_idle s")
  case True
  with ok show ?thesis by (auto simp: receive_frame_def split: list.split)
next
  case False
  then obtain r0 frames where frames: "ws_frames s = r0 # frames" "ws_heard s = None"
    and s: "receive_frame s = s\<lparr>ws_frames := frames, ws_ended := List.map_filter wait_ending [r0], ws_heard := Some r0\<rparr>"
    by (cases "ws_frames s") (auto simp: receive_frame_def dispatcher_idle_def)
  have "covered s w r \<Longrightarrow> covered (receive_frame s) w r" for w r
    unfolding s using frames by (auto simp: covered_def)
  with ok show ?thesis unfolding cover_ok_def by (simp add: s)
qed

lemma cover_end_thread:
  assumes ok: "cover_ok regex uuid_text s"
  shows "cover_ok regex uuid_text (end_thread s)"
  by (rule cover_quiet [OF ok]) (simp_all add: end_thread_def split: list.split)

lemma cover_offer_frame:
  assumes ok: "cover_ok regex uuid_text s" and books: "waits_ok s"
  shows "cover_ok regex uuid_text (offer_frame regex uuid_text s)"
proof (cases "ws_heard s = None \<or> ws_ended s \<noteq> [] \<or> ws_ending s \<noteq> [] \<or> ws_offering s \<noteq> []")
  case True
  with ok show ?thesis by (auto simp: offer_frame_def split: option.split)
next
  case False
  then obtain r0 where heard: "ws_heard s = Some r0" and idle: "ws_ended s = []" "ws_ending s = []" "ws_offering s = []" by auto
  let ?s = "offer_frame regex uuid_text s"
  have same: "ws_down ?s = ws_down s" "ws_cache ?s = ws_cache s" "ws_store ?s = ws_store s"
      "ws_rescan ?s = ws_rescan s" "ws_frames ?s = ws_frames s" "ws_scans ?s = ws_scans s" "ws_hits ?s = ws_hits s"
    using heard idle by (simp_all add: offer_frame_def)
  show ?thesis
    unfolding cover_ok_def
  proof (intro impI ballI)
    fix w r
    assume down: "\<not> ws_down ?s" and w: "w \<in> set (map snd (ws_cache ?s))" and r: "r \<in> set (ws_store ?s)"
      and m: "watermark w < ev_seq r \<and> row_matches regex uuid_text w r"
    from ok down w r m same have before: "covered s w r" by (auto simp: cover_ok_def)
    show "covered ?s w r"
    proof (cases "r = r0")
      case True
      have "wait_names_ok w" using cached_names [OF books] w same by simp
      then have offered: "is_offered r" using m awaitable_offered by blast
      obtain k where k: "matched_index regex w (ev_type r) (row_view uuid_text r) = Some k"
        using m by (auto simp: row_matches_def)
      have "(wait_id w, k) \<in> set (waits_matching_row regex uuid_text (lw_snapshot (ws_cache s)) r)"
        using w same k by (force simp: waits_matching_row_def waits_matching_def map_filter_def)
      moreover have "ws_offering ?s =
          map (\<lambda>(wid, k). (wid, k, r)) (waits_matching_row regex uuid_text (lw_snapshot (ws_cache s)) r)"
        using True heard idle down same(1) offered by (simp add: offer_frame_def)
      ultimately have "(wait_id w, k, r) \<in> set (ws_offering ?s)" by force
      then show ?thesis by (auto simp: covered_def)
    next
      case False
      with before heard idle show ?thesis by (auto simp: covered_def same)
    qed
  qed
qed

lemma fold_start_scan_scans:
  "\<not> ws_down s \<Longrightarrow> ws_scans (fold start_scan ws s) = ws_scans s @ map (\<lambda>w. (w, watermark w)) ws"
  by (induction ws arbitrary: s) (auto simp: start_scan_def)

text \<open>A scan of every live wait from its watermark covers everything.\<close>

lemma cover_scan_all: "cover_ok regex uuid_text (fold start_scan (lw_snapshot (ws_cache s)) s)"
  unfolding cover_ok_def
proof (intro impI ballI)
  let ?s = "fold start_scan (lw_snapshot (ws_cache s)) s"
  fix w r
  assume down: "\<not> ws_down ?s" and w: "w \<in> set (map snd (ws_cache ?s))"
    and m: "watermark w < ev_seq r \<and> row_matches regex uuid_text w r"
  from w have "(w, watermark w) \<in> set (map (\<lambda>w. (w, watermark w)) (lw_snapshot (ws_cache s)))" by simp
  with down have "(w, watermark w) \<in> set (ws_scans ?s)" by (simp add: fold_start_scan_scans)
  with m show "covered ?s w r" unfolding covered_def by blast
qed

lemma cover_rescan: "cover_ok regex uuid_text s \<Longrightarrow> cover_ok regex uuid_text (rescan_all s)"
  using cover_scan_all [of regex uuid_text "s\<lparr>ws_rescan := False\<rparr>"] by (simp add: rescan_all_def)

lemma cover_lag: "cover_ok regex uuid_text s \<Longrightarrow> cover_ok regex uuid_text (lag_frames n s)"
  by (auto simp: lag_frames_def cover_ok_def covered_def)

lemma cover_restart: "cover_ok regex uuid_text (restart s)"
  by (simp add: cover_ok_def restart_def wait_system_new_def)

lemma cover_rebuild: "cover_ok regex uuid_text s \<Longrightarrow> cover_ok regex uuid_text (rebuild_event_waits s)"
  using cover_scan_all [of regex uuid_text
      "s\<lparr>ws_cache := rebuild_live_waits 0 (ws_store s) (ws_cache s), ws_booted := True\<rparr>"]
  by (simp add: rebuild_event_waits_def Let_def)

text \<open>The two operations that lose an event on the way: a scan whose read fails, and a resolution whose write
  fails after later frames went by.\<close>

fun is_mishap :: "wait_op \<Rightarrow> bool" where
  "is_mishap (ResolutionFails _) = True"
| "is_mishap (ScanFails _) = True"
| "is_mishap _ = False"

text \<open>What leaves the store, the frames, the cache and the scans alone leaves the coverage alone.\<close>

lemma cover_begin: "cover_ok regex uuid_text s \<Longrightarrow> cover_ok regex uuid_text (begin_append rows purpose s)"
  by (rule cover_quiet [of regex uuid_text s]) (simp_all add: begin_append_def)

lemma cover_abort: "cover_ok regex uuid_text s \<Longrightarrow> cover_ok regex uuid_text (abort_append i s)"
  by (rule cover_quiet [of regex uuid_text s]) (simp_all add: abort_append_def split: append_purpose.split)

lemma cover_read: "cover_ok regex uuid_text s \<Longrightarrow> cover_ok regex uuid_text (read_watermark t tool on reason secs s)"
  by (rule cover_quiet [of regex uuid_text s]) (simp_all add: read_watermark_def)

lemma cover_persist:
  "cover_ok regex uuid_text s \<Longrightarrow> cover_ok regex uuid_text (persist_wait i fresh eid payload now s)"
  by (rule cover_quiet [of regex uuid_text s]) (simp_all add: persist_wait_def begin_append_def Let_def)

lemma cover_emit:
  "cover_ok regex uuid_text s \<Longrightarrow> cover_ok regex uuid_text (emit_resolution i eid anchor payload wake s)"
  by (rule cover_quiet [of regex uuid_text s])
     (simp_all add: emit_resolution_def begin_append_def split: prod.split)

lemma cover_sweep: "cover_ok regex uuid_text s \<Longrightarrow> cover_ok regex uuid_text (sweep_expired now s)"
  by (rule cover_quiet [of regex uuid_text s]) (simp_all add: sweep_expired_def)

lemmas cover_quiets = cover_begin cover_abort cover_read cover_persist cover_emit cover_sweep

lemma cover_step:
  assumes books: "waits_ok s" and ok: "cover_ok regex uuid_text s" and calm: "\<not> is_mishap opn"
  shows "cover_ok regex uuid_text (wait_op_step regex uuid_text opn s)"
proof -
  have cache: "cache_ok (ws_cache s)" using books by (simp add: waits_ok_def)
  have down: "cover_ok regex uuid_text (s\<lparr>ws_down := True\<rparr>)" by (simp add: cover_ok_def)
  show ?thesis
    using ok calm
    by (cases opn)
       (simp_all add: wait_op_step_def cover_quiets [OF ok] down cover_commit cover_cache [OF _ cache] cover_scan [OF _ books]
          cover_scan_take [OF _ cache] cover_receive cover_end_thread cover_offer_frame [OF _ books] cover_takes [OF _ cache] cover_offer [OF _ cache]
          cover_lag cover_rescan cover_restart cover_rebuild)
qed

section \<open>Calm runs\<close>

definition calm :: "wait_op list \<Rightarrow> bool" where
  "calm ops = list_all (\<lambda>opn. \<not> is_mishap opn) ops"

lemma calm_run_covers:
  "calm ops \<Longrightarrow> waits_ok (wait_run regex uuid_text ops) \<and> cover_ok regex uuid_text (wait_run regex uuid_text ops)"
proof (induction ops rule: rev_induct)
  case Nil
  then show ?case by (simp add: wait_run_def waits_ok_new) (simp add: cover_ok_def wait_system_new_def)
next
  case (snoc opn ops)
  then have ok: "waits_ok (wait_run regex uuid_text ops)" "cover_ok regex uuid_text (wait_run regex uuid_text ops)"
    and "\<not> is_mishap opn" by (simp_all add: calm_def)
  from wait_step_ok [OF ok(1), of regex uuid_text opn] cover_step [OF ok this(3)]
  show ?case by (simp add: wait_run_def)
qed

lemma run_horizon_ok: "horizon_ok (wait_run regex uuid_text ops)"
proof (induction ops rule: rev_induct)
  case Nil
  then show ?case by (simp add: wait_run_def horizon_ok_def wait_system_new_def all_rows_def open_rows_def)
next
  case (snoc opn ops)
  from horizon_step [OF wait_run_ok [of regex uuid_text ops] snoc, of regex uuid_text opn] show ?case by (simp add: wait_run_def)
qed

end
