(* ===== verification/Event_Wait_Scan.thy ===== *)
theory Event_Wait_Scan
  imports Event_Wait_Cover
begin

text \<open>
  \<open>catch_up_from_watermark\<close> over one state of the store: the paging loop ends, and what it returns is the first
  match above the watermark in the order of the sequences. Also why the engine's own steps run out: each takes
  something off a finite agenda.
\<close>

section \<open>The loop\<close>

lemma scan_on_page:
  assumes "scan_turn regex uuid_text w after rows = ScanOn n"
  shows "n = ev_seq (last (catch_up_page w after rows))" "length (catch_up_page w after rows) = catch_up_page_size"
    "last (catch_up_page w after rows) \<in> set (catch_up_page w after rows)"
    "List.map_filter (row_hit regex uuid_text w) (catch_up_page w after rows) = []"
proof -
  show n: "n = ev_seq (last (catch_up_page w after rows))" and
    full: "length (catch_up_page w after rows) = catch_up_page_size" and
    "List.map_filter (row_hit regex uuid_text w) (catch_up_page w after rows) = []"
    using assms by (auto simp: scan_turn_def Let_def catch_up_page_def split: if_splits list.splits)
  from full have "catch_up_page w after rows \<noteq> []" by (auto simp: catch_up_page_size_def)
  then show "last (catch_up_page w after rows) \<in> set (catch_up_page w after rows)" by simp
qed

lemma page_rows: "r \<in> set (catch_up_page w after rows) \<Longrightarrow> r \<in> set rows \<and> after < ev_seq r \<and> scanned_row w r"
  by (auto simp: catch_up_page_def dest: in_set_takeD)

lemma filter_less_shrinks:
  "r \<in> set rows \<Longrightarrow> after < ev_seq r \<Longrightarrow>
     length (filter (\<lambda>x. ev_seq r < ev_seq x) rows) < length (filter (\<lambda>x. after < ev_seq x) rows)"
proof (induction rows)
  case (Cons x rows)
  have "length (filter (\<lambda>x. ev_seq r < ev_seq x) rows) \<le> length (filter (\<lambda>x. after < ev_seq x) rows)"
    using Cons.prems(2) by (induction rows) auto
  with Cons show ?case by auto
qed simp

lemma scan_on_shrinks:
  assumes "scan_turn regex uuid_text w after rows = ScanOn n"
  shows "length (filter (\<lambda>x. n < ev_seq x) rows) < length (filter (\<lambda>x. after < ev_seq x) rows)"
  using scan_on_page(1) [OF assms] page_rows [OF scan_on_page(3) [OF assms]] filter_less_shrinks by metis

function catch_up_loop ::
  "regex_new \<Rightarrow> (uuid \<Rightarrow> string) \<Rightarrow> stored_event list \<Rightarrow> live_wait \<Rightarrow> int \<Rightarrow> (stored_event \<times> nat) option" where
  "catch_up_loop regex uuid_text rows w after =
     (case scan_turn regex uuid_text w after rows of
        ScanHit r k \<Rightarrow> Some (r, k)
      | ScanDone \<Rightarrow> None
      | ScanOn last_seq \<Rightarrow> catch_up_loop regex uuid_text rows w last_seq)"
  by pat_completeness auto
termination
  by (relation "measure (\<lambda>(regex, uuid_text, rows, w, after). length (filter (\<lambda>x. after < ev_seq x) rows))")
     (simp_all add: scan_on_shrinks)

declare catch_up_loop.simps [simp del]

definition catch_up_from_watermark ::
  "regex_new \<Rightarrow> (uuid \<Rightarrow> string) \<Rightarrow> live_wait \<Rightarrow> stored_event list \<Rightarrow> (stored_event \<times> nat) option" where
  "catch_up_from_watermark regex uuid_text w rows = catch_up_loop regex uuid_text rows w (watermark w)"

section \<open>The reference\<close>

definition first_match ::
  "regex_new \<Rightarrow> (uuid \<Rightarrow> string) \<Rightarrow> live_wait \<Rightarrow> int \<Rightarrow> stored_event list \<Rightarrow> (stored_event \<times> nat) option" where
  "first_match regex uuid_text w after rows =
     (case List.map_filter (row_hit regex uuid_text w)
         (sort_key ev_seq (filter (\<lambda>r. after < ev_seq r \<and> \<not> ev_keep_alive_idle r) rows)) of
        [] \<Rightarrow> None
      | hit # _ \<Rightarrow> Some hit)"

lemma position_some: "position P xs = Some i \<Longrightarrow> \<exists>x \<in> set xs. P x"
  by (induction xs arbitrary: i) (auto split: if_splits)

lemma row_hit_watched: "row_hit regex uuid_text w r = Some h \<Longrightarrow> ev_type r \<in> es_event_type ` set (wait_on w)"
  by (force simp: row_hit_def matched_index_def subscription_matches_def dest!: position_some)

lemma map_filter_filter: "(\<And>x. x \<in> set xs \<Longrightarrow> f x \<noteq> None \<Longrightarrow> P x) \<Longrightarrow> List.map_filter f (filter P xs) = List.map_filter f xs"
  by (induction xs) (auto simp: map_filter_simps split: option.split)

lemma first_match_scanned:
  "first_match regex uuid_text w after rows =
     (case List.map_filter (row_hit regex uuid_text w)
         (sort_key ev_seq (filter (\<lambda>r. after < ev_seq r \<and> scanned_row w r) rows)) of
        [] \<Rightarrow> None
      | hit # _ \<Rightarrow> Some hit)"
proof -
  let ?rows = "sort_key ev_seq (filter (\<lambda>r. after < ev_seq r \<and> \<not> ev_keep_alive_idle r) rows)"
  have "List.map_filter (row_hit regex uuid_text w) (filter (scanned_row w) ?rows)
      = List.map_filter (row_hit regex uuid_text w) ?rows"
    by (rule map_filter_filter) (auto simp: scanned_row_def dest: row_hit_watched)
  moreover have "filter (scanned_row w) ?rows = sort_key ev_seq (filter (\<lambda>r. after < ev_seq r \<and> scanned_row w r) rows)"
    unfolding filter_sort filter_filter by (rule arg_cong [of _ _ "sort_key ev_seq"], rule filter_cong)
      (auto simp: scanned_row_def)
  ultimately show ?thesis by (simp add: first_match_def)
qed

text \<open>What is left after a full page is what lies above the page's last sequence.\<close>

lemma drop_is_above:
  assumes "sorted (map f xs)" "distinct (map f xs)" "0 < n" "n \<le> length xs"
  shows "filter (\<lambda>x. f (last (take n xs)) < f x) xs = drop n xs"
proof -
  have split: "xs = take n xs @ drop n xs" by simp
  have some: "take n xs \<noteq> []" using assms(3,4) by auto
  then have last_in: "last (take n xs) \<in> set (take n xs)" by (rule last_in_set)
  have sorted: "sorted (map f (take n xs) @ map f (drop n xs))" "distinct (map f (take n xs) @ map f (drop n xs))"
    using assms(1,2) by (simp_all only: map_append [symmetric] append_take_drop_id)
  have "f x \<le> f (last (take n xs))" if "x \<in> set (take n xs)" for x
  proof -
    have "sorted (map f (butlast (take n xs) @ [last (take n xs)]))"
      unfolding append_butlast_last_id [OF some] using sorted(1) by (simp only: sorted_append)
    moreover from that last_in have "x \<in> set (butlast (take n xs)) \<or> x = last (take n xs)"
      by (metis append_butlast_last_id empty_iff list.set(1) rotate1.simps(2) set_ConsD set_rotate1)
    ultimately show ?thesis by (auto simp: sorted_append)
  qed
  then have "filter (\<lambda>x. f (last (take n xs)) < f x) (take n xs) = []" by (auto simp: filter_empty_conv leD)
  moreover have "f (last (take n xs)) < f x" if "x \<in> set (drop n xs)" for x
  proof -
    have "f (last (take n xs)) \<le> f x" using that last_in sorted(1) by (simp add: sorted_append)
    moreover have "f (last (take n xs)) \<noteq> f x"
      using that last_in sorted(2) unfolding distinct_append set_map by blast
    ultimately show ?thesis by simp
  qed
  then have "filter (\<lambda>x. f (last (take n xs)) < f x) (drop n xs) = drop n xs" by simp
  ultimately have "filter (\<lambda>x. f (last (take n xs)) < f x) (take n xs @ drop n xs) = [] @ drop n xs"
    by (simp only: filter_append)
  then show ?thesis by simp
qed

lemma catch_up_is_first_match:
  "distinct (map ev_seq rows) \<Longrightarrow>
     catch_up_loop regex uuid_text rows w after = first_match regex uuid_text w after rows"
proof (induction regex uuid_text rows w after rule: catch_up_loop.induct)
  case (1 regex uuid_text rows w after)
  note distinct = "1.prems"
  let ?found = "filter (\<lambda>r. after < ev_seq r \<and> scanned_row w r) rows"
  let ?sorted = "sort_key ev_seq ?found"
  let ?page = "catch_up_page w after rows"
  have page: "?page = take catch_up_page_size ?sorted" by (simp add: catch_up_page_def)
  have hits: "List.map_filter (row_hit regex uuid_text w) ?sorted =
      List.map_filter (row_hit regex uuid_text w) ?page @
      List.map_filter (row_hit regex uuid_text w) (drop catch_up_page_size ?sorted)"
    unfolding page map_filter_append [symmetric] by simp
  show ?case
  proof (cases "scan_turn regex uuid_text w after rows")
    case (ScanHit r k)
    then obtain more where "List.map_filter (row_hit regex uuid_text w) ?page = (r, k) # more"
      by (auto simp: scan_turn_def Let_def split: if_splits list.splits)
    with hits ScanHit show ?thesis by (simp add: first_match_scanned catch_up_loop.simps)
  next
    case ScanDone
    then have "wait_on w = [] \<or>
        List.map_filter (row_hit regex uuid_text w) ?page = [] \<and> length ?page < catch_up_page_size"
      by (auto simp: scan_turn_def Let_def split: if_splits list.splits)
    then have "List.map_filter (row_hit regex uuid_text w) ?sorted = []"
    proof
      assume "wait_on w = []"
      then show ?thesis by (simp add: map_filter_def row_hit_def matched_index_def)
    next
      assume short: "List.map_filter (row_hit regex uuid_text w) ?page = [] \<and> length ?page < catch_up_page_size"
      then have "length ?sorted \<le> catch_up_page_size" unfolding page by (auto simp: min_def split: if_splits)
      then have "?page = ?sorted" unfolding page by simp
      with short show ?thesis by simp
    qed
    with ScanDone show ?thesis by (simp add: first_match_scanned catch_up_loop.simps)
  next
    case (ScanOn n)
    note on = scan_on_page [OF ScanOn]
    have "filter (\<lambda>r. n < ev_seq r) ?sorted = drop catch_up_page_size ?sorted"
      unfolding on(1) page
    proof (rule drop_is_above)
      have "distinct (map ev_seq ?found)" using distinct unfolding distinct_map by (auto simp: inj_on_def)
      then show "distinct (map ev_seq ?sorted)" by (simp add: distinct_map)
      show "catch_up_page_size \<le> length ?sorted" using on(2) unfolding page by simp
    qed (simp_all add: catch_up_page_size_def)
    moreover have "after < n" using page_rows [OF on(3)] on(1) by simp
    then have "filter (\<lambda>r. n < ev_seq r) ?sorted = sort_key ev_seq (filter (\<lambda>r. n < ev_seq r \<and> scanned_row w r) rows)"
      unfolding filter_sort filter_filter by (intro arg_cong [of _ _ "sort_key ev_seq"] filter_cong) auto
    ultimately have "first_match regex uuid_text w n rows = first_match regex uuid_text w after rows"
      using hits on(4) by (simp add: first_match_scanned)
    with "1.IH" [OF ScanOn distinct] ScanOn show ?thesis by (subst catch_up_loop.simps) simp
  qed
qed

end
