(* ===== verification/Event_Wait_Settle.thy ===== *)
theory Event_Wait_Settle
  imports Event_Wait_Scan
begin

text \<open>
  The engine's own steps run out: with no new append, registration, cancel or failure, the dispatcher and the
  scans come to rest after finitely many steps, and they rest only when every frame, match, hit, page and
  owed rescan is done.
\<close>

definition at_rest :: "wait_system \<Rightarrow> bool" where
  "at_rest s \<longleftrightarrow>
     ws_frames s = [] \<and> ws_ended s = [] \<and> ws_ending s = [] \<and> ws_heard s = None \<and> ws_offering s = [] \<and> ws_scans s = [] \<and> ws_hits s = [] \<and> \<not> ws_rescan s"

text \<open>The next step the engine takes by itself.\<close>

definition own_step :: "wait_system \<Rightarrow> wait_op option" where
  "own_step s =
     (if ws_hits s \<noteq> [] then Some (ScanTake 0)
      else if ws_scans s \<noteq> [] then Some (ScanStep 0)
      else if ws_ending s \<noteq> [] then Some EndOne
      else if ws_offering s \<noteq> [] then Some OfferOne
      else if ws_ended s \<noteq> [] then Some EndThread
      else if ws_heard s \<noteq> None then Some OfferFrame
      else if ws_rescan s then Some Rescan
      else if ws_frames s \<noteq> [] then Some Receive
      else None)"

lemma own_step_None: "own_step s = None \<longleftrightarrow> at_rest s"
  by (auto simp: own_step_def at_rest_def)

definition scan_work :: "wait_system \<Rightarrow> nat" where
  "scan_work s = (\<Sum>(w, after) \<leftarrow> ws_scans s. Suc (length (filter (\<lambda>r. after < ev_seq r) (ws_store s))))"

definition agenda :: "(wait_system \<times> wait_system) set" where
  "agenda = measures
     [\<lambda>s. of_bool (ws_rescan s), \<lambda>s. length (ws_frames s),
      \<lambda>s. length (ws_ended s) + of_bool (ws_heard s \<noteq> None), \<lambda>s. length (ws_ending s) + length (ws_offering s),
      scan_work, \<lambda>s. length (ws_hits s)]"

lemma take_wait_ending [simp]:
  "ws_ending (take_wait i res s) = ws_ending s" "ws_ended (take_wait i res s) = ws_ended s"
  by (simp_all add: take_wait_def lw_take_def split: option.split)

lemma remove_nth_0: "remove_nth 0 (x # xs) = xs"
  by (simp add: remove_nth_def)

lemma scan_step_less:
  assumes "ws_scans s = (w, after) # scans"
  shows "scan_work (scan_step regex uuid_text 0 s) < scan_work s"
  using assms scan_on_shrinks [of regex uuid_text w after "ws_store s"]
  by (simp add: scan_step_def scan_work_def remove_nth_0 split: scan_turn.split)

lemma own_step_less:
  assumes "own_step s = Some opn"
  shows "(wait_op_step regex uuid_text opn s, s) \<in> agenda"
proof -
  consider w r k hits where "ws_hits s = (w, r, k) # hits" "opn = ScanTake 0"
    | w after scans where "ws_hits s = []" "ws_scans s = (w, after) # scans" "opn = ScanStep 0"
    | i cause rest where "ws_ending s = (i, cause) # rest" "opn = EndOne"
    | i k r rest where "ws_offering s = (i, k, r) # rest" "opn = OfferOne"
    | t cause rest where "ws_ending s = []" "ws_ended s = (t, cause) # rest" "opn = EndThread"
    | r where "ws_ended s = []" "ws_ending s = []" "ws_offering s = []" "ws_heard s = Some r" "opn = OfferFrame"
    | "ws_ended s = []" "ws_ending s = []" "ws_rescan s" "opn = Rescan"
    | r frames where "dispatcher_idle s" "ws_frames s = r # frames" "opn = Receive"
    using assms
    by (cases "ws_hits s"; cases "ws_scans s"; cases "ws_ending s"; cases "ws_offering s"; cases "ws_ended s"; cases "ws_heard s";
        cases "ws_frames s")
       (auto simp: own_step_def dispatcher_idle_def split: if_splits)
  then show ?thesis
  proof cases
    case 1
    then show ?thesis
      by (simp add: agenda_def wait_op_step_def wait_op_ok_def scan_take_def remove_nth_0 scan_work_def)
  next
    case 2
    have "ws_rescan (scan_step regex uuid_text 0 s) = ws_rescan s" "ws_frames (scan_step regex uuid_text 0 s) = ws_frames s"
      "ws_ending (scan_step regex uuid_text 0 s) = ws_ending s" "ws_offering (scan_step regex uuid_text 0 s) = ws_offering s"
      "ws_ended (scan_step regex uuid_text 0 s) = ws_ended s" "ws_heard (scan_step regex uuid_text 0 s) = ws_heard s"
      using 2 by (simp_all add: scan_step_def split: scan_turn.split)
    with scan_step_less [OF 2(2)] 2(3) show ?thesis by (simp add: agenda_def wait_op_step_def wait_op_ok_def)
  next
    case 3
    then show ?thesis by (simp add: agenda_def wait_op_step_def wait_op_ok_def end_one_def)
  next
    case 4
    then show ?thesis by (simp add: agenda_def wait_op_step_def wait_op_ok_def offer_one_def)
  next
    case 5
    then show ?thesis by (simp add: agenda_def wait_op_step_def wait_op_ok_def end_thread_def)
  next
    case 6
    then show ?thesis by (simp add: agenda_def wait_op_step_def wait_op_ok_def offer_frame_def)
  next
    case 7
    then show ?thesis by (simp add: agenda_def wait_op_step_def wait_op_ok_def rescan_all_def)
  next
    case 8
    then show ?thesis by (simp add: agenda_def wait_op_step_def wait_op_ok_def receive_frame_def dispatcher_idle_def)
  qed
qed

fun is_own_step :: "wait_op \<Rightarrow> bool" where
  "is_own_step (ScanTake i) = True"
| "is_own_step (ScanStep i) = True"
| "is_own_step EndThread = True"
| "is_own_step EndOne = True"
| "is_own_step OfferFrame = True"
| "is_own_step OfferOne = True"
| "is_own_step Rescan = True"
| "is_own_step Receive = True"
| "is_own_step _ = False"

lemma own_step_is_own: "own_step s = Some opn \<Longrightarrow> is_own_step opn \<and> \<not> is_mishap opn"
  by (auto simp: own_step_def split: if_splits)

lemma own_step_calm: "is_own_step opn \<Longrightarrow> \<not> is_mishap opn"
  by (cases opn) simp_all

definition drive :: "regex_new \<Rightarrow> (uuid \<Rightarrow> string) \<Rightarrow> wait_op list \<Rightarrow> wait_system \<Rightarrow> wait_system" where
  "drive regex uuid_text ops s = foldl (\<lambda>s opn. wait_op_step regex uuid_text opn s) s ops"

lemma comes_to_rest: "\<exists>ops. list_all is_own_step ops \<and> calm ops \<and> at_rest (drive regex uuid_text ops s)"
proof -
  have "wf agenda" by (simp add: agenda_def)
  then show ?thesis
  proof (induction s rule: wf_induct_rule)
    case (less s)
    show ?case
    proof (cases "own_step s")
      case None
      then show ?thesis by (intro exI [of _ "[]"]) (simp add: own_step_None drive_def calm_def)
    next
      case (Some opn)
      from less [OF own_step_less [OF Some]] obtain ops where
        "list_all is_own_step ops" "calm ops" "at_rest (drive regex uuid_text ops (wait_op_step regex uuid_text opn s))"
        by blast
      with own_step_is_own [OF Some] show ?thesis
        by (intro exI [of _ "opn # ops"]) (simp add: drive_def calm_def)
    qed
  qed
qed

lemma drive_run: "wait_run regex uuid_text (ops @ more_ops) = drive regex uuid_text more_ops (wait_run regex uuid_text ops)"
  by (simp add: wait_run_def drive_def)

lemma calm_append [simp]: "calm (xs @ ys) \<longleftrightarrow> calm xs \<and> calm ys"
  by (simp add: calm_def)

text \<open>At rest, coverage is delivery.\<close>

lemma rest_missed_nothing:
  assumes "cover_ok regex uuid_text s" "at_rest s" "\<not> ws_down s" "w \<in> set (map snd (ws_cache s))" "r \<in> set (ws_store s)"
    "row_matches regex uuid_text w r"
  shows "ev_seq r \<le> watermark w"
proof (rule ccontr)
  assume "\<not> ev_seq r \<le> watermark w"
  with assms have "covered s w r" unfolding cover_ok_def by auto
  with assms(2) show False by (simp add: covered_def at_rest_def)
qed

end
