(* ===== verification/Event_Wait_Deliveries.thy ===== *)
theory Event_Wait_Deliveries
  imports Event_Wait_Facts
begin

text \<open>
  Every delivery is real: the row a wait is delivered is a row of the store, the wait was registered, and the
  subscription the delivery names is the first of the wait's that matches the row.
\<close>

definition genuine :: "regex_new \<Rightarrow> (uuid \<Rightarrow> string) \<Rightarrow> stored_event list \<Rightarrow> live_wait \<Rightarrow> stored_event \<Rightarrow> nat \<Rightarrow> bool" where
  "genuine regex uuid_text store w r k \<longleftrightarrow>
     r \<in> set store \<and> w \<in> set (waits_of_rows store) \<and>
     matched_index regex w (ev_type r) (row_view uuid_text r) = Some k"

definition delivery_real :: "regex_new \<Rightarrow> (uuid \<Rightarrow> string) \<Rightarrow> stored_event list \<Rightarrow> wait_note \<Rightarrow> bool" where
  "delivery_real regex uuid_text store note \<longleftrightarrow>
     (case note of
        DeliveredNote wid eid k \<Rightarrow> \<exists>w r. wait_id w = wid \<and> ev_id r = eid \<and> genuine regex uuid_text store w r k
      | _ \<Rightarrow> True)"

definition real_hits :: "regex_new \<Rightarrow> (uuid \<Rightarrow> string) \<Rightarrow> stored_event list \<Rightarrow> (live_wait \<times> stored_event \<times> nat) set" where
  "real_hits regex uuid_text store = {(w, r, k). genuine regex uuid_text store w r k}"

definition real_offers :: "regex_new \<Rightarrow> (uuid \<Rightarrow> string) \<Rightarrow> stored_event list \<Rightarrow> (uuid \<times> nat \<times> stored_event) set" where
  "real_offers regex uuid_text store = {(wid, k, r). \<exists>w. wait_id w = wid \<and> genuine regex uuid_text store w r k}"

definition real_taken :: "regex_new \<Rightarrow> (uuid \<Rightarrow> string) \<Rightarrow> stored_event list \<Rightarrow> (live_wait \<times> wait_resolution) set" where
  "real_taken regex uuid_text store = {(w, res). \<forall>r k. res = Delivery r k \<longrightarrow> genuine regex uuid_text store w r k}"

definition deliveries_ok :: "regex_new \<Rightarrow> (uuid \<Rightarrow> string) \<Rightarrow> wait_system \<Rightarrow> bool" where
  "deliveries_ok regex uuid_text s \<longleftrightarrow>
     set (ws_frames s) \<union> set_option (ws_heard s) \<subseteq> set (ws_store s) \<and>
     fst ` set (ws_scans s) \<subseteq> set (waits_of_rows (ws_store s)) \<and>
     set (ws_hits s) \<subseteq> real_hits regex uuid_text (ws_store s) \<and>
     set (ws_offering s) \<subseteq> real_offers regex uuid_text (ws_store s) \<and>
     set (ws_taken s) \<subseteq> real_taken regex uuid_text (ws_store s) \<and>
     ev_note ` set (all_rows s) \<subseteq> Collect (delivery_real regex uuid_text (ws_store s))"

lemma waits_of_rows_mono: "set store \<subseteq> set store' \<Longrightarrow> set (waits_of_rows store) \<subseteq> set (waits_of_rows store')"
  using waits_of_rows_iff by blast

lemma genuine_mono:
  "set store \<subseteq> set store' \<Longrightarrow> genuine regex uuid_text store w r k \<Longrightarrow> genuine regex uuid_text store' w r k"
  using waits_of_rows_mono unfolding genuine_def by blast

lemma real_mono:
  assumes "set store \<subseteq> set store'"
  shows "real_hits regex uuid_text store \<subseteq> real_hits regex uuid_text store'"
    "real_offers regex uuid_text store \<subseteq> real_offers regex uuid_text store'"
    "real_taken regex uuid_text store \<subseteq> real_taken regex uuid_text store'"
    "Collect (delivery_real regex uuid_text store) \<subseteq> Collect (delivery_real regex uuid_text store')"
proof -
  note mono = genuine_mono [OF assms, of regex uuid_text]
  show "real_hits regex uuid_text store \<subseteq> real_hits regex uuid_text store'" by (auto simp: real_hits_def mono)
  show "real_offers regex uuid_text store \<subseteq> real_offers regex uuid_text store'"
    by (auto simp: real_offers_def intro: mono)
  show "real_taken regex uuid_text store \<subseteq> real_taken regex uuid_text store'" by (auto simp: real_taken_def mono)
  show "Collect (delivery_real regex uuid_text store) \<subseteq> Collect (delivery_real regex uuid_text store')"
    using mono by (simp add: Collect_mono_iff delivery_real_def split: wait_note.split) blast
qed

lemma deliveries_mono:
  assumes ok: "deliveries_ok regex uuid_text s"
    and store: "set (ws_store s) \<subseteq> set (ws_store s')" "set (ws_frames s') \<union> set_option (ws_heard s') \<subseteq> set (ws_store s')"
      "set (all_rows s') \<subseteq> set (all_rows s)"
    and less: "set (ws_scans s') \<subseteq> set (ws_scans s)" "set (ws_hits s') \<subseteq> set (ws_hits s)"
      "set (ws_offering s') \<subseteq> set (ws_offering s)" "set (ws_taken s') \<subseteq> set (ws_taken s)"
  shows "deliveries_ok regex uuid_text s'"
  using ok store(2) subset_trans [OF image_mono [OF less(1), of fst]] subset_trans [OF less(2)]
    subset_trans [OF less(3)] subset_trans [OF less(4)] subset_trans [OF image_mono [OF store(3), of ev_note]]
    waits_of_rows_mono [OF store(1)] real_mono [OF store(1), of regex uuid_text]
  unfolding deliveries_ok_def by (meson subset_trans)

text \<open>A wait taken out of the cache by its id is the wait that was registered under that id.\<close>

lemma cached_started:
  assumes "waits_ok s" "w \<in> set (map snd (ws_cache s))"
  shows "w \<in> set (waits_of_rows (ws_store s))"
  using held_started(1) [OF assms(1), of w] assms(2) by (auto simp: held_waits_def waits_of_rows_iff)

lemma taken_is_the_one:
  assumes "waits_ok s" "hm_get (ws_cache s) (wait_id w) = Some v" "w \<in> set (waits_of_rows (ws_store s))"
  shows "v = w"
proof -
  from assms(1,2) have v: "wait_id v = wait_id w" "v \<in> set (map snd (ws_cache s))"
    using cache_ok_get [of "ws_cache s"] by (auto simp: waits_ok_def)
  have "inj_on wait_id (set (waits_of_rows (ws_store s)))"
    using assms(1) by (simp add: waits_ok_def all_rows_def distinct_map)
  with v cached_started [OF assms(1) v(2)] assms(3) show ?thesis by (auto dest: inj_onD)
qed

lemma deliveries_take:
  assumes ok: "deliveries_ok regex uuid_text s" and books: "waits_ok s"
    and before: "ws_store s1 = ws_store s" "ws_open s1 = ws_open s" "ws_frames s1 = ws_frames s" "ws_heard s1 = ws_heard s"
      "ws_cache s1 = ws_cache s" "ws_taken s1 = ws_taken s" "ws_scans s1 = ws_scans s"
      "set (ws_hits s1) \<subseteq> set (ws_hits s)" "set (ws_offering s1) \<subseteq> set (ws_offering s)"
    and real: "\<And>r k. res = Delivery r k \<Longrightarrow> \<exists>w. wait_id w = i \<and> genuine regex uuid_text (ws_store s) w r k"
  shows "deliveries_ok regex uuid_text (take_wait i res s1)"
proof -
  have rows: "all_rows s1 = all_rows s" using before by (simp add: all_rows_def open_rows_def)
  have base: "deliveries_ok regex uuid_text s1"
    using ok before by (intro deliveries_mono [OF ok]) (simp_all add: rows deliveries_ok_def)
  show ?thesis
  proof (cases "hm_get (ws_cache s) i")
    case None
    then show ?thesis using base before by (simp add: take_wait_def lw_take_def)
  next
    case (Some v)
    have "genuine regex uuid_text (ws_store s) v r k" if res: "res = Delivery r k" for r k
    proof -
      from real [OF res] obtain w where w: "wait_id w = i" "genuine regex uuid_text (ws_store s) w r k" by blast
      with Some taken_is_the_one [OF books, of w v] show ?thesis by (simp add: genuine_def)
    qed
    then have "(v, res) \<in> real_taken regex uuid_text (ws_store s)" by (simp add: real_taken_def)
    with base Some before show ?thesis
      by (simp add: take_wait_def lw_take_def deliveries_ok_def all_rows_def open_rows_def)
  qed
qed

section \<open>The operations\<close>

lemma deliveries_scan_take:
  assumes "deliveries_ok regex uuid_text s" "waits_ok s"
  shows "deliveries_ok regex uuid_text (scan_take i s)"
proof (cases "i < length (ws_hits s)")
  case True
  obtain w r k where hit: "ws_hits s ! i = (w, r, k)" by (metis prod_cases3)
  from nth_mem [OF True] hit assms(1) have "genuine regex uuid_text (ws_store s) w r k"
    by (auto simp: deliveries_ok_def real_hits_def)
  then have "deliveries_ok regex uuid_text
      (take_wait (wait_id w) (Delivery r k) (s\<lparr>ws_hits := remove_nth i (ws_hits s)\<rparr>))"
    by (intro deliveries_take [OF assms]) (auto simp: set_remove_nth_subset)
  with True hit show ?thesis by (simp add: scan_take_def)
qed (use assms in \<open>simp add: scan_take_def\<close>)

lemma deliveries_offer:
  assumes "deliveries_ok regex uuid_text s" "waits_ok s"
  shows "deliveries_ok regex uuid_text (offer_one s)"
proof (cases "ws_offering s")
  case (Cons offer rest)
  obtain i k r where offer: "offer = (i, k, r)" by (metis prod_cases3)
  from Cons offer assms(1) have "\<exists>w. wait_id w = i \<and> genuine regex uuid_text (ws_store s) w r k"
    by (simp add: deliveries_ok_def real_offers_def)
  then have "deliveries_ok regex uuid_text (take_wait i (Delivery r k) (s\<lparr>ws_offering := rest\<rparr>))"
    using Cons by (intro deliveries_take [OF assms]) auto
  with Cons offer assms(1) show ?thesis by (simp add: offer_one_def)
qed (use assms in \<open>simp add: offer_one_def\<close>)

lemma deliveries_ends:
  assumes "deliveries_ok regex uuid_text s" "waits_ok s"
  shows "deliveries_ok regex uuid_text (end_one s)" "deliveries_ok regex uuid_text (expire_one s)"
  using assms
  by (auto simp: end_one_def expire_one_def split: list.split intro!: deliveries_take [OF assms])

lemma deliveries_cancel:
  assumes "deliveries_ok regex uuid_text s"
  shows "deliveries_ok regex uuid_text (cancel_event_wait t i cause s)"
  using assms
  by (simp add: cancel_event_wait_def lw_take_on_thread_def deliveries_ok_def all_rows_def open_rows_def real_taken_def
      split: option.split)

lemma matched_pos_real:
  assumes "waits_ok s" "r \<in> set (ws_store s)"
  shows "set (map (\<lambda>(wid, k). (wid, k, r)) (waits_matching_row regex uuid_text (lw_snapshot (ws_cache s)) r))
     \<subseteq> real_offers regex uuid_text (ws_store s)"
proof
  fix offer
  assume "offer \<in> set (map (\<lambda>(wid, k). (wid, k, r)) (waits_matching_row regex uuid_text (lw_snapshot (ws_cache s)) r))"
  then obtain w k where w: "w \<in> set (map snd (ws_cache s))" "offer = (wait_id w, k, r)"
    "matched_index regex w (ev_type r) (row_view uuid_text r) = Some k"
    by (auto simp: waits_matching_row_def waits_matching_def lw_snapshot_def map_filter_def split: if_splits)
       (metis image_eqI snd_conv)
  with cached_started [OF assms(1) w(1)] assms(2) show "offer \<in> real_offers regex uuid_text (ws_store s)"
    by (auto simp: real_offers_def genuine_def)
qed

lemma deliveries_frames:
  assumes ok: "deliveries_ok regex uuid_text s" and books: "waits_ok s"
  shows "deliveries_ok regex uuid_text (receive_frame s)" "deliveries_ok regex uuid_text (end_thread s)"
    "deliveries_ok regex uuid_text (offer_frame regex uuid_text s)"
proof -
  show "deliveries_ok regex uuid_text (receive_frame s)"
    using ok by (cases "ws_frames s") (simp_all add: receive_frame_def deliveries_ok_def all_rows_def open_rows_def)
  show "deliveries_ok regex uuid_text (end_thread s)"
    using ok by (simp add: end_thread_def deliveries_ok_def all_rows_def open_rows_def split: list.split)
  show "deliveries_ok regex uuid_text (offer_frame regex uuid_text s)"
  proof (cases "ws_heard s")
    case (Some r)
    with ok have "r \<in> set (ws_store s)" by (simp add: deliveries_ok_def)
    from matched_pos_real [OF books this, of regex uuid_text] ok Some show ?thesis
      by (simp add: offer_frame_def deliveries_ok_def all_rows_def open_rows_def)
  qed (use ok in \<open>simp add: offer_frame_def\<close>)
qed

lemma fold_start_scan_fst: "fst ` set (ws_scans (fold start_scan ws s)) \<subseteq> fst ` set (ws_scans s) \<union> set ws"
proof (induction ws arbitrary: s)
  case (Cons w ws)
  have "fst ` set (ws_scans (start_scan w s)) \<subseteq> fst ` set (ws_scans s) \<union> {w}" by (auto simp: start_scan_def)
  with Cons [of "start_scan w s"] show ?case by auto
qed simp

lemma deliveries_more_scans:
  assumes "deliveries_ok regex uuid_text s" "set ws \<subseteq> set (waits_of_rows (ws_store s))"
  shows "deliveries_ok regex uuid_text (fold start_scan ws s)"
proof -
  have "fst ` set (ws_scans (fold start_scan ws s)) \<subseteq> set (waits_of_rows (ws_store s))"
    using subset_trans [OF fold_start_scan_fst [of ws s]] assms by (simp add: deliveries_ok_def)
  with assms(1) show ?thesis by (simp add: deliveries_ok_def all_rows_def open_rows_def)
qed

lemma deliveries_cache:
  assumes ok: "deliveries_ok regex uuid_text s" and books: "waits_ok s"
  shows "deliveries_ok regex uuid_text (cache_wait i s)"
proof (cases "i < length (ws_uncached s)")
  case True
  let ?w = "ws_uncached s ! i"
  let ?s = "s\<lparr>ws_uncached := remove_nth i (ws_uncached s), ws_cache := lw_insert ?w (ws_cache s)\<rparr>"
  have "?w \<in> set (waits_of_rows (ws_store s))"
    using held_started(1) [OF books, of ?w] True by (auto simp: held_waits_def waits_of_rows_iff)
  moreover have "deliveries_ok regex uuid_text ?s"
    using ok by (simp add: deliveries_ok_def all_rows_def open_rows_def)
  ultimately have "deliveries_ok regex uuid_text (fold start_scan [?w] ?s)" by (intro deliveries_more_scans) simp_all
  with True show ?thesis by (simp add: cache_wait_def Let_def)
qed (use ok in \<open>simp add: cache_wait_def\<close>)

lemma deliveries_rescan:
  assumes ok: "deliveries_ok regex uuid_text s" and books: "waits_ok s"
  shows "deliveries_ok regex uuid_text (rescan_all s)"
proof -
  have "deliveries_ok regex uuid_text (s\<lparr>ws_rescan := False\<rparr>)"
    using ok by (simp add: deliveries_ok_def all_rows_def open_rows_def)
  moreover have "set (lw_snapshot (ws_cache s)) \<subseteq> set (waits_of_rows (ws_store s))"
    using cached_started [OF books] by (auto simp: lw_snapshot_def)
  ultimately show ?thesis using ok by (simp add: rescan_all_def deliveries_more_scans)
qed

lemma deliveries_rebuild:
  assumes ok: "deliveries_ok regex uuid_text s" and books: "waits_ok s"
  shows "deliveries_ok regex uuid_text (rebuild_event_waits s)"
proof (cases "ws_booted s")
  case False
  let ?s = "s\<lparr>ws_cache := rebuild_live_waits 0 (ws_store s) (ws_cache s), ws_booted := True\<rparr>"
  let ?t = "fold start_scan (lw_snapshot (ws_cache ?s)) ?s"
  have t: "?t = rebuild_event_waits s" using False by (simp add: rebuild_event_waits_def Let_def)
  have "waits_ok ?t" unfolding t by (rule rebuild_ok [OF books])
  from cached_started [OF this]
  have "set (lw_snapshot (ws_cache ?s)) \<subseteq> set (waits_of_rows (ws_store ?s))" by (auto simp: lw_snapshot_def)
  moreover have "deliveries_ok regex uuid_text ?s" using ok by (simp add: deliveries_ok_def all_rows_def open_rows_def)
  ultimately have "deliveries_ok regex uuid_text ?t" by (intro deliveries_more_scans) simp_all
  then show ?thesis by (simp only: t)
qed (use ok in \<open>simp add: rebuild_event_waits_def\<close>)

lemma matched_page: "r \<in> set (catch_up_page w after rows) \<Longrightarrow> r \<in> set rows"
  by (auto simp: catch_up_page_def dest: in_set_takeD)

lemma scan_hit_real:
  "scan_turn regex uuid_text w after rows = ScanHit r k \<Longrightarrow>
     r \<in> set rows \<and> matched_index regex w (ev_type r) (row_view uuid_text r) = Some k"
proof -
  assume "scan_turn regex uuid_text w after rows = ScanHit r k"
  then have "(r, k) \<in> set (List.map_filter (row_hit regex uuid_text w) (catch_up_page w after rows))"
    by (auto simp: scan_turn_def Let_def split: if_splits list.splits)
  then show ?thesis by (auto simp: map_filter_def row_hit_def dest: matched_page split: if_splits)
qed

lemma deliveries_scan:
  assumes ok: "deliveries_ok regex uuid_text s"
  shows "deliveries_ok regex uuid_text (scan_step regex uuid_text i s)"
proof (cases "i < length (ws_scans s)")
  case True
  obtain w after where scan: "ws_scans s ! i = (w, after)" by fastforce
  from nth_mem [OF True] scan ok have w: "w \<in> set (waits_of_rows (ws_store s))"
    by (force simp: deliveries_ok_def)
  have fewer: "fst ` set (remove_nth i (ws_scans s)) \<subseteq> set (waits_of_rows (ws_store s))"
    using ok set_remove_nth_subset [of i "ws_scans s"] unfolding deliveries_ok_def by blast
  have moved: "fst ` set ((ws_scans s)[i := (w, n)]) \<subseteq> set (waits_of_rows (ws_store s))" for n
    using ok w set_update_subset_insert [of "ws_scans s" i "(w, n)"] unfolding deliveries_ok_def by force
  show ?thesis
    using True scan ok fewer moved w scan_hit_real [of regex uuid_text w after "ws_store s"]
    by (auto simp: scan_step_def deliveries_ok_def all_rows_def open_rows_def real_hits_def genuine_def
        split: scan_turn.split)
qed (use ok in \<open>simp add: scan_step_def\<close>)

section \<open>Appends\<close>

lemma number_rows_note_set [simp]: "ev_note ` set (number_rows n rows) = ev_note ` set rows"
  by (induction rows arbitrary: n) auto

lemma deliveries_begin:
  assumes "deliveries_ok regex uuid_text s" "ev_note ` set rows \<subseteq> Collect (delivery_real regex uuid_text (ws_store s))"
  shows "deliveries_ok regex uuid_text (begin_append rows purpose s)"
proof -
  have "ev_note ` set (all_rows (begin_append rows purpose s)) = ev_note ` set (all_rows s) \<union> ev_note ` set rows"
    by (simp add: image_Un)
  with assms show ?thesis unfolding deliveries_ok_def by (simp add: begin_append_def)
qed

lemma deliveries_plain:
  assumes "deliveries_ok regex uuid_text s" "list_all (\<lambda>r. ev_note r = NoNote) rows"
  shows "deliveries_ok regex uuid_text (begin_append rows purpose s)"
  using assms by (intro deliveries_begin) (auto simp: list_all_iff delivery_real_def)

lemma deliveries_persist:
  assumes ok: "deliveries_ok regex uuid_text s"
  shows "deliveries_ok regex uuid_text (persist_wait i fresh eid payload now s)"
proof -
  have "deliveries_ok regex uuid_text (s\<lparr>ws_reading := ps\<rparr>)" for ps
    using ok by (simp add: deliveries_ok_def all_rows_def open_rows_def)
  then show ?thesis
    using ok by (simp add: persist_wait_def Let_def deliveries_begin event_row_def delivery_real_def)
qed

lemma deliveries_emit:
  assumes ok: "deliveries_ok regex uuid_text s"
  shows "deliveries_ok regex uuid_text (emit_resolution i eid anchor payload wake s)"
proof (cases "i < length (ws_taken s)")
  case True
  obtain w res where taken: "ws_taken s ! i = (w, res)" by fastforce
  let ?s = "s\<lparr>ws_taken := remove_nth i (ws_taken s)\<rparr>"
  have "deliveries_ok regex uuid_text ?s"
    using ok subset_trans [OF set_remove_nth_subset [of i "ws_taken s"]]
    by (simp add: deliveries_ok_def all_rows_def open_rows_def)
  moreover from nth_mem [OF True] taken ok have "(w, res) \<in> real_taken regex uuid_text (ws_store s)"
    by (auto simp: deliveries_ok_def)
  then have "ev_note ` set (resolution_rows w res eid anchor payload wake)
      \<subseteq> Collect (delivery_real regex uuid_text (ws_store s))"
    by (cases res) (auto simp: event_row_def delivery_real_def real_taken_def)
  ultimately have "deliveries_ok regex uuid_text
      (begin_append (resolution_rows w res eid anchor payload wake) (ResolveAppend w res) ?s)"
    by (intro deliveries_begin) simp_all
  with True taken show ?thesis by (simp add: emit_resolution_def)
qed (use ok in \<open>simp add: emit_resolution_def\<close>)

lemma open_rows_less: "set (concat (map ap_rows (remove_nth i opens))) \<subseteq> set (concat (map ap_rows opens))"
  using set_remove_nth_subset [of i opens] by auto

lemma after_commit_deliveries:
  "deliveries_ok regex uuid_text (after_commit a s) = deliveries_ok regex uuid_text s"
  by (simp add: after_commit_def deliveries_ok_def all_rows_def open_rows_def
      split: append_purpose.split wait_resolution.split)

lemma deliveries_commit:
  assumes ok: "deliveries_ok regex uuid_text s"
  shows "deliveries_ok regex uuid_text (commit_append i s)"
proof (cases "i < length (ws_open s)")
  case True
  let ?a = "ws_open s ! i"
  let ?s = "s\<lparr>ws_open := remove_nth i (ws_open s), ws_store := ws_store s @ ap_rows ?a,
      ws_frames := ws_frames s @ ap_rows ?a\<rparr>"
  have "set (ap_rows ?a) \<subseteq> set (open_rows s)" using nth_mem [OF True] by (auto simp: open_rows_def)
  then have "set (all_rows ?s) \<subseteq> set (all_rows s)"
    using open_rows_less [of i "ws_open s"] unfolding all_rows_def open_rows_def by simp blast
  moreover have "set (ws_frames ?s) \<union> set_option (ws_heard ?s) \<subseteq> set (ws_store ?s)" using ok by (auto simp: deliveries_ok_def)
  ultimately have "deliveries_ok regex uuid_text ?s" by (intro deliveries_mono [OF ok]) auto
  with True show ?thesis by (simp add: commit_append_def Let_def after_commit_deliveries)
qed (use ok in \<open>simp add: commit_append_def\<close>)

lemma deliveries_fewer_open:
  assumes "deliveries_ok regex uuid_text s"
  shows "deliveries_ok regex uuid_text (s\<lparr>ws_open := remove_nth i (ws_open s)\<rparr>)"
    "deliveries_ok regex uuid_text (s\<lparr>ws_open := remove_nth i (ws_open s), ws_cache := cache\<rparr>)"
  using assms open_rows_less [of i "ws_open s"]
  by (intro deliveries_mono [OF assms]; auto simp: all_rows_def open_rows_def deliveries_ok_def)+

lemma deliveries_failures:
  assumes "deliveries_ok regex uuid_text s"
  shows "deliveries_ok regex uuid_text (abort_append i s)" "deliveries_ok regex uuid_text (resolution_emit_failed i s)"
  using assms
  by (simp_all add: abort_append_def resolution_emit_failed_def deliveries_fewer_open split: append_purpose.split)

lemma deliveries_quiet:
  assumes "deliveries_ok regex uuid_text s"
  shows "deliveries_ok regex uuid_text (scan_fails i s)" "deliveries_ok regex uuid_text (lag_frames n s)"
    "deliveries_ok regex uuid_text (sweep_expired now s)" "deliveries_ok regex uuid_text (s\<lparr>ws_down := True\<rparr>)"
    "deliveries_ok regex uuid_text (read_watermark t tool on reason secs s)"
    "deliveries_ok regex uuid_text (restart s)"
  using assms set_remove_nth_subset [of i "ws_scans s"]
  by (intro deliveries_mono [OF assms];
      auto simp: scan_fails_def lag_frames_def sweep_expired_def read_watermark_def restart_def wait_system_new_def
        all_rows_def open_rows_def deliveries_ok_def dest: in_set_dropD)+

lemma deliveries_step:
  assumes "waits_ok s" "deliveries_ok regex uuid_text s"
  shows "deliveries_ok regex uuid_text (wait_op_step regex uuid_text opn s)"
  using assms
  by (cases opn)
     (simp_all add: wait_op_step_def wait_op_ok_def deliveries_plain deliveries_persist deliveries_emit deliveries_commit
        deliveries_failures deliveries_quiet deliveries_scan deliveries_rebuild deliveries_rescan deliveries_cache
        deliveries_frames deliveries_cancel deliveries_ends deliveries_offer deliveries_scan_take)

lemma run_deliveries_ok: "deliveries_ok regex uuid_text (wait_run regex uuid_text ops)"
proof (induction ops rule: rev_induct)
  case Nil
  then show ?case
    by (simp add: wait_run_def deliveries_ok_def wait_system_new_def all_rows_def open_rows_def)
next
  case (snoc opn ops)
  from deliveries_step [OF wait_run_ok [of regex uuid_text ops] snoc, of opn] show ?case by (simp add: wait_run_def)
qed

end
