(* ===== verification/Event_Wait_Reads.thy ===== *)
theory Event_Wait_Reads
  imports Event_Wait_Scan
begin

text \<open>
  What a registration decides and what it reports: the arming lookback read as one list, and the shape of
  what \<open>register_event_wait\<close> lets through.

  The re-entries a restart drives again (\<open>lost_wait_reentries\<close> in \<open>engine/event_wait/mod.rs\<close>): a resolution whose
  anchor is the last row of its thread. \<open>known\<close> and \<open>discarded\<close> are what \<open>thread_summaries\<close> says of a thread.
\<close>

section \<open>The lookback as one list\<close>

definition lookback_rows ::
  "event_subscription list \<Rightarrow> int \<Rightarrow> (stored_event \<Rightarrow> bool) \<Rightarrow> stored_event list \<Rightarrow> stored_event list" where
  "lookback_rows on upper recent rows =
     rev (sort_key ev_seq (filter (\<lambda>r. ev_seq r \<le> upper \<and> recent r \<and>
       ev_type r \<in> set (map es_event_type on) \<and> \<not> ev_keep_alive_idle r) rows))"

lemma lookback_page_rows: "lookback_page on upper recent rows = take catch_up_page_size (lookback_rows on upper recent rows)"
  by (simp add: lookback_page_def lookback_rows_def)

lemma sorted_uminus_rev: "sorted (map f xs) \<Longrightarrow> sorted (map (\<lambda>x. - f x :: int) (rev xs))"
  by (induction xs) (auto simp: sorted_append)

lemma next_lookback_rows:
  assumes "distinct (map ev_seq rows)" "catch_up_page_size \<le> length (lookback_rows on upper recent rows)"
  shows "lookback_rows on (ev_seq (last (lookback_page on upper recent rows)) - 1) recent rows =
     drop catch_up_page_size (lookback_rows on upper recent rows)"
proof -
  let ?rows = "lookback_rows on upper recent rows"
  let ?last = "ev_seq (last (lookback_page on upper recent rows))"
  have "distinct (map (\<lambda>r. - ev_seq r) ?rows)"
    using assms(1) by (auto simp: lookback_rows_def distinct_map inj_on_def)
  moreover have "sorted (map (\<lambda>r. - ev_seq r) ?rows)"
    unfolding lookback_rows_def by (rule sorted_uminus_rev) (rule sorted_sort_key)
  ultimately have "filter (\<lambda>r. - ?last < - ev_seq r) ?rows = drop catch_up_page_size ?rows"
    unfolding lookback_page_rows using assms(2) by (intro drop_is_above) (simp_all add: catch_up_page_size_def)
  moreover have "?last \<le> upper"
  proof -
    have "lookback_page on upper recent rows \<noteq> []"
      using assms(2) by (auto simp: lookback_page_rows catch_up_page_size_def)
    then have "last (lookback_page on upper recent rows) \<in> set (lookback_page on upper recent rows)" by simp
    then show ?thesis by (auto simp: lookback_page_def dest: in_set_takeD)
  qed
  then have "filter (\<lambda>r. - ?last < - ev_seq r) ?rows = lookback_rows on (?last - 1) recent rows"
    unfolding lookback_rows_def rev_filter [symmetric] filter_sort filter_filter
    by (intro arg_cong [of _ _ rev] arg_cong [of _ _ "sort_key ev_seq"] filter_cong) auto
  ultimately show ?thesis by simp
qed

lemma lookback_loop_takes:
  assumes "distinct (map ev_seq rows)" "length found \<le> wanted"
  shows "lookback_loop hit on recent rows wanted pages upper found =
     take wanted (found @ filter hit (take (pages * catch_up_page_size) (lookback_rows on upper recent rows)))"
  using assms(2)
proof (induction pages arbitrary: upper found)
  case (Suc pages)
  let ?rows = "lookback_rows on upper recent rows"
  let ?page = "lookback_page on upper recent rows"
  let ?found = "found @ take (wanted - length found) (filter hit ?page)"
  have page: "?page = take catch_up_page_size ?rows" by (rule lookback_page_rows)
  have "take (Suc pages * catch_up_page_size) ?rows = ?page @ take (pages * catch_up_page_size) (drop catch_up_page_size ?rows)"
    unfolding page by (simp add: take_add)
  then have all: "take wanted (found @ filter hit (take (Suc pages * catch_up_page_size) ?rows)) =
      take wanted (?found @ filter hit (take (pages * catch_up_page_size) (drop catch_up_page_size ?rows)))"
    using Suc.prems by (simp add: min_def)
  consider "wanted \<le> length found" | "length found < wanted" "wanted \<le> length ?found"
    | "length found < wanted" "length ?found < wanted" "length ?page < catch_up_page_size"
    | "length found < wanted" "length ?found < wanted" "catch_up_page_size \<le> length ?page" by linarith
  then show ?case
  proof cases
    case 1
    with Suc.prems show ?thesis by simp
  next
    case 2
    with Suc.prems show ?thesis unfolding all by simp
  next
    case 3
    then have "drop catch_up_page_size ?rows = []" by (simp add: page)
    with 3 show ?thesis unfolding all by (simp add: Let_def)
  next
    case 4
    then have "catch_up_page_size \<le> length ?rows" by (simp add: page)
    moreover have "length found + length (filter hit ?page) < wanted"
      using 4(2) by (simp add: min_def split: if_splits)
    ultimately show ?thesis
      unfolding all using next_lookback_rows [OF assms(1)] Suc.IH [of ?found "ev_seq (last ?page) - 1"] 4
      by (simp add: Let_def)
  qed
qed simp

section \<open>What a registration lets through\<close>

lemma parse_entries_awaitable:
  "parse_entries entries subs = Inr on \<Longrightarrow> list_all (\<lambda>sub. awaitable_name (es_event_type sub)) subs \<Longrightarrow>
     list_all (\<lambda>sub. awaitable_name (es_event_type sub)) on \<and> length on = length subs + length entries"
proof (induction entries arbitrary: subs)
  case (Cons entry entries)
  from Cons.prems(1) obtain obj sub v where "from_object_entry obj = Some sub"
    "validate_subscribable_event_type (es_event_type sub) WaitSurface = Inr v"
    and rest: "parse_entries entries (subs @ [sub]) = Inr on"
    by (auto split: option.splits sum.splits)
  then have "awaitable_name (es_event_type sub)"
    by (auto simp: from_object_entry_def awaitable_name_def Let_def split: option.splits if_splits)
  with Cons.IH [OF rest] Cons.prems(2) show ?case by simp
qed simp

lemma parse_subscriptions_awaitable:
  "parse_subscriptions args = Inr on \<Longrightarrow> on \<noteq> [] \<and> list_all (\<lambda>sub. awaitable_name (es_event_type sub)) on"
  using parse_entries_awaitable [of _ "[]" on]
  by (auto simp: parse_subscriptions_def split: option.splits if_splits)

section \<open>Lost re-entries\<close>

definition thread_rows :: "uuid \<Rightarrow> stored_event list \<Rightarrow> stored_event list" where
  "thread_rows t rows =
     sort_key ev_seq (filter (\<lambda>r. ev_thread r = Some t \<and> ev_type r \<notin> set side_question_event_types) rows)"

definition rows_after :: "stored_event \<Rightarrow> stored_event list \<Rightarrow> stored_event list" where
  "rows_after e rows =
     sort_key ev_seq (filter (\<lambda>r. ev_thread r = ev_thread e \<and> ev_seq e < ev_seq r \<and>
       ev_type r \<notin> set side_question_event_types) rows)"

definition lost_reentry ::
  "(uuid \<Rightarrow> bool) \<Rightarrow> (uuid \<Rightarrow> bool) \<Rightarrow> int \<Rightarrow> stored_event list \<Rightarrow> stored_event \<Rightarrow> (uuid \<times> uuid) option" where
  "lost_reentry known discarded restore_floor rows e =
     (case ev_thread e of
        None \<Rightarrow> None
      | Some t \<Rightarrow>
          if known t \<and> ev_type e \<in> {''EventWaitDelivered'', ''EventWaitExpired''} \<and> restore_floor < ev_seq e \<and> \<not> discarded t
          then (case rows_after e rows of
                  [] \<Rightarrow> None
                | anchor # later \<Rightarrow> if ev_type anchor = ''PromptInjected'' \<and> later = [] then Some (t, ev_id anchor) else None)
          else None)"

definition lost_wait_reentries ::
  "(uuid \<Rightarrow> bool) \<Rightarrow> (uuid \<Rightarrow> bool) \<Rightarrow> int \<Rightarrow> stored_event list \<Rightarrow> (uuid \<times> uuid) list" where
  "lost_wait_reentries known discarded restore_floor rows =
     List.map_filter (lost_reentry known discarded restore_floor rows) (sort_key ev_seq rows)"

section \<open>One per thread\<close>

lemma side_question_free: "''EventWaitDelivered'' \<notin> set side_question_event_types" "''EventWaitExpired'' \<notin> set side_question_event_types"
  by code_simp+

lemma rows_after_thread:
  "ev_thread e = Some t \<Longrightarrow> rows_after e rows = filter (\<lambda>r. ev_seq e < ev_seq r) (thread_rows t rows)"
  unfolding rows_after_def thread_rows_def filter_sort filter_filter
  by (intro arg_cong [of _ _ "sort_key ev_seq"] filter_cong) auto

lemma only_one_above:
  assumes "sorted (map f xs)" "distinct (map f xs)" "e \<in> set xs"
  shows "filter (\<lambda>x. f e < f x) xs = [a] \<longleftrightarrow> (\<exists>pre. xs = pre @ [e, a])"
proof -
  from assms(3) obtain pre post where xs: "xs = pre @ e # post" by (meson split_list)
  have "f x \<le> f e" if "x \<in> set pre" for x using assms(1) that by (auto simp: xs sorted_append)
  then have "filter (\<lambda>x. f e < f x) pre = []" by (force simp: filter_empty_conv)
  moreover have "f e < f x" if "x \<in> set post" for x
    using assms(1,2) that by (force simp: xs sorted_append order.strict_iff_order)
  then have "filter (\<lambda>x. f e < f x) post = post" by simp
  ultimately have above: "filter (\<lambda>x. f e < f x) xs = post" by (simp add: xs)
  show ?thesis
  proof
    assume "\<exists>pre. xs = pre @ [e, a]"
    then obtain q where "xs = q @ [e] @ [a]" by auto
    then show "filter (\<lambda>x. f e < f x) xs = [a]"
      using assms(1,2) by (auto simp: sorted_append order.strict_iff_order filter_empty_conv)
  qed (use above xs in auto)
qed

lemma lost_reentry_iff:
  assumes "distinct (map ev_seq rows)" "e \<in> set rows"
  shows "lost_reentry known discarded restore_floor rows e = Some (t, i) \<longleftrightarrow>
     known t \<and> \<not> discarded t \<and> restore_floor < ev_seq e \<and> ev_type e \<in> {''EventWaitDelivered'', ''EventWaitExpired''} \<and>
     (\<exists>pre a. thread_rows t rows = pre @ [e, a] \<and> ev_type a = ''PromptInjected'' \<and> ev_id a = i)"
proof (cases "ev_thread e = Some t \<and> ev_type e \<in> {''EventWaitDelivered'', ''EventWaitExpired''}")
  case True
  then have "e \<in> set (thread_rows t rows)"
    using assms(2) side_question_free by (auto simp: thread_rows_def)
  moreover have "sorted (map ev_seq (thread_rows t rows))" "distinct (map ev_seq (thread_rows t rows))"
    using assms(1) by (auto simp: thread_rows_def distinct_map inj_on_def)
  ultimately have one: "rows_after e rows = [a] \<longleftrightarrow> (\<exists>pre. thread_rows t rows = pre @ [e, a])" for a
    using True only_one_above [of ev_seq "thread_rows t rows" e a] by (simp add: rows_after_thread)
  have "lost_reentry known discarded restore_floor rows e = Some (t, i) \<longleftrightarrow>
      known t \<and> \<not> discarded t \<and> restore_floor < ev_seq e \<and>
      (\<exists>a. rows_after e rows = [a] \<and> ev_type a = ''PromptInjected'' \<and> ev_id a = i)"
    using True by (auto simp: lost_reentry_def split: list.split)
  then show ?thesis using one True by blast
next
  case False
  have "ev_thread e = Some t" if "thread_rows t rows = pre @ [e, a]" for pre a
  proof -
    have "e \<in> set (thread_rows t rows)" using that by simp
    then show ?thesis by (simp add: thread_rows_def)
  qed
  with False show ?thesis by (auto simp: lost_reentry_def split: option.splits if_splits list.splits)
qed

lemma lost_reentry_unique:
  assumes "distinct (map ev_seq rows)" "e \<in> set rows" "e' \<in> set rows"
    "lost_reentry known discarded restore_floor rows e = Some (t, i)"
    "lost_reentry known discarded restore_floor rows e' = Some (t, i')"
  shows "e = e'"
  using lost_reentry_iff [OF assms(1,2)] lost_reentry_iff [OF assms(1,3)] assms(4,5) by auto

lemma distinct_map_filter_fst:
  "distinct xs \<Longrightarrow> (\<And>x y t i j. x \<in> set xs \<Longrightarrow> y \<in> set xs \<Longrightarrow> f x = Some (t, i) \<Longrightarrow> f y = Some (t, j) \<Longrightarrow> x = y) \<Longrightarrow>
     distinct (map fst (List.map_filter f xs))"
proof (induction xs)
  case (Cons x xs)
  have rest: "distinct (map fst (List.map_filter f xs))" using Cons by (intro Cons.IH) auto
  show ?case
  proof (cases "f x")
    case None
    with rest show ?thesis by (simp add: map_filter_simps)
  next
    case (Some p)
    obtain t i where p: "p = (t, i)" by fastforce
    have "t \<notin> fst ` set (List.map_filter f xs)"
    proof
      assume "t \<in> fst ` set (List.map_filter f xs)"
      then obtain y j where "y \<in> set xs" "f y = Some (t, j)" by (force simp: map_filter_def)
      with Cons.prems(2) [of x y t i j] Some p Cons.prems(1) show False by auto
    qed
    with rest Some p show ?thesis by (simp add: map_filter_simps)
  qed
qed (simp add: map_filter_simps)

lemma set_map_filter_iff: "x \<in> set (List.map_filter f xs) \<longleftrightarrow> (\<exists>y \<in> set xs. f y = Some x)"
  by (force simp: map_filter_def)

section \<open>The property\<close>

text \<open>A restart drives again exactly the resolutions whose anchor is the last row of their thread, side questions
  aside, and whose thread is known, not discarded and not behind a restored snapshot: so at most one re-entry per
  thread, even when several of its waits resolved before the engine went down.\<close>

theorem lost_reentries_are_the_last_words:
  assumes "distinct (map ev_seq rows)"
  shows "distinct (map fst (lost_wait_reentries known discarded restore_floor rows)) \<and>
     ((t, i) \<in> set (lost_wait_reentries known discarded restore_floor rows) \<longleftrightarrow>
       known t \<and> \<not> discarded t \<and>
       (\<exists>pre e a. thread_rows t rows = pre @ [e, a] \<and> restore_floor < ev_seq e \<and>
          ev_type e \<in> {''EventWaitDelivered'', ''EventWaitExpired''} \<and> ev_type a = ''PromptInjected'' \<and> ev_id a = i))"
proof
  have "distinct (sort_key ev_seq rows)" using assms by (simp add: distinct_map)
  then show "distinct (map fst (lost_wait_reentries known discarded restore_floor rows))"
    unfolding lost_wait_reentries_def
    by (rule distinct_map_filter_fst) (rule lost_reentry_unique [OF assms], simp_all)
next
  have "e \<in> set rows" if "thread_rows t rows = pre @ [e, a]" for pre e a
  proof -
    have "e \<in> set (thread_rows t rows)" using that by simp
    then show ?thesis by (simp add: thread_rows_def)
  qed
  then show "(t, i) \<in> set (lost_wait_reentries known discarded restore_floor rows) \<longleftrightarrow>
     known t \<and> \<not> discarded t \<and>
     (\<exists>pre e a. thread_rows t rows = pre @ [e, a] \<and> restore_floor < ev_seq e \<and>
        ev_type e \<in> {''EventWaitDelivered'', ''EventWaitExpired''} \<and> ev_type a = ''PromptInjected'' \<and> ev_id a = i)"
    using lost_reentry_iff [OF assms, of _ known discarded restore_floor t i]
    unfolding lost_wait_reentries_def set_map_filter_iff set_sort by blast
qed

definition two_resolved :: "stored_event list" where
  "two_resolved =
     map (\<lambda>(n, i, name). (event_row i (Some 7) name JNull NoNote)\<lparr>ev_seq := n\<rparr>)
       [(1, 11, ''EventWaitDelivered''), (2, 12, ''PromptInjected''), (3, 13, ''EventWaitExpired''), (4, 14, ''PromptInjected'')]"

theorem lost_reentries_are_the_last_words_witness:
  "(7, 14) \<in> set (lost_wait_reentries (\<lambda>_. True) (\<lambda>_. False) 0 two_resolved) \<and>
     (7, 12) \<notin> set (lost_wait_reentries (\<lambda>_. True) (\<lambda>_. False) 0 two_resolved)"
proof -
  have d: "distinct (map ev_seq two_resolved)" by (simp add: two_resolved_def)
  have prompt: "''PromptInjected'' \<notin> set side_question_event_types" by code_simp
  have rows: "thread_rows 7 two_resolved = two_resolved"
    using side_question_free prompt by (simp add: thread_rows_def two_resolved_def event_row_def)
  have "two_resolved = take 2 two_resolved @ [two_resolved ! 2, two_resolved ! 3]"
    "ev_id (two_resolved ! 3) = 14" by (simp_all add: two_resolved_def event_row_def)
  moreover have "ev_id a \<noteq> 12" if "two_resolved = pre @ [e, a]" for pre e a
  proof -
    have "last two_resolved = a" unfolding that by simp
    then show ?thesis by (auto simp: two_resolved_def event_row_def)
  qed
  ultimately show ?thesis
    using lost_reentries_are_the_last_words [OF d, of "\<lambda>_. True" "\<lambda>_. False" 0 7] rows
    by (force simp: two_resolved_def event_row_def)
qed

end
