(* ===== verification/Event_Wait_Properties.thy ===== *)
theory Event_Wait_Properties
  imports Event_Wait_Settle Event_Wait_Deliveries Event_Wait_Reads
begin

text \<open>
  The properties of the event waits: a wait resolves once and its thread is never stranded, no match is
  missed, nothing commits below a watermark, every delivery is a match that happened, and what a registration
  lets through.
\<close>

section \<open>What the engine's own steps leave alone\<close>

lemma own_step_sel:
  "is_own_step opn \<Longrightarrow> ws_uncached (wait_op_step regex uuid_text opn s) = ws_uncached s"
  "is_own_step opn \<Longrightarrow> ws_down (wait_op_step regex uuid_text opn s) = ws_down s"
  by (cases opn;
      simp add: wait_op_step_def scan_take_def scan_step_def end_one_def offer_one_def offer_frame_def end_thread_def rescan_all_def receive_frame_def
        take_wait_def lw_take_def split: prod.split list.split scan_turn.split option.split)+

lemma own_step_silent: "is_own_step opn \<Longrightarrow> is_silent_op opn"
  by (cases opn) simp_all

lemma drive_keeps:
  assumes "waits_ok s" "list_all is_own_step ops"
  shows "waits_ok (drive regex uuid_text ops s)" "same_books s (drive regex uuid_text ops s)"
    "ws_uncached (drive regex uuid_text ops s) = ws_uncached s" "ws_down (drive regex uuid_text ops s) = ws_down s"
  using assms
proof (induction ops arbitrary: s)
  case Nil
  { case 1 then show ?case by (simp add: drive_def) }
  { case 2 then show ?case by (simp add: drive_def same_books_refl waits_ok_def) }
  { case 3 then show ?case by (simp add: drive_def) }
  { case 4 then show ?case by (simp add: drive_def) }
next
  case (Cons opn ops)
  note drive_Cons = drive_def [of regex uuid_text "opn # ops"] drive_def [of regex uuid_text ops]
  { case 1
    with Cons(1) wait_step_ok [of s regex uuid_text opn] show ?case by (simp add: drive_Cons) }
  { case 2
    then have "waits_ok (wait_op_step regex uuid_text opn s)" "list_all is_own_step ops"
      "same_books s (wait_op_step regex uuid_text opn s)"
      using wait_step_ok silent_op_books own_step_silent by auto
    with Cons(2) [of "wait_op_step regex uuid_text opn s"] show ?case by (simp add: drive_Cons same_books_def) }
  { case 3
    with Cons(3) [of "wait_op_step regex uuid_text opn s"] wait_step_ok [of s regex uuid_text opn] show ?case
      by (simp add: drive_Cons own_step_sel) }
  { case 4
    with Cons(4) [of "wait_op_step regex uuid_text opn s"] wait_step_ok [of s regex uuid_text opn] show ?case
      by (simp add: drive_Cons own_step_sel) }
qed

text \<open>A wait that was in the cache and is there no more has been taken, and its resolution is being written.\<close>

lemma left_the_cache:
  assumes ok: "waits_ok s" "list_all is_own_step ops" and w: "w \<in> set (map snd (ws_cache s))"
    and gone: "w \<notin> set (map snd (ws_cache (drive regex uuid_text ops s)))"
  shows "w \<in> fst ` set (ws_taken (drive regex uuid_text ops s)) \<or> w \<in> set (List.map_filter resolving_by (ws_open s))"
proof -
  let ?t = "drive regex uuid_text ops s"
  note keeps = drive_keeps [OF ok, of regex uuid_text]
  have "w \<in> set (held_waits s)" using w by (simp add: held_waits_def)
  then have "w \<in> set (held_waits ?t)"
    using keeps(2) mset_eq_setD [of "held_waits ?t" "held_waits s"] by (simp add: same_books_def)
  moreover have "w \<notin> set (ws_uncached ?t)"
    using held_distinct [OF ok(1)] w keeps(3) by (auto simp: held_waits_def)
  ultimately show ?thesis using gone keeps(2) by (simp add: held_waits_def same_books_def)
qed

lemma cached_not_resolving:
  assumes "waits_ok s" "w \<in> set (map snd (ws_cache s))"
  shows "w \<notin> set (List.map_filter resolving_by (ws_open s))"
  using held_distinct [OF assms(1)] assms(2) by (auto simp: held_waits_def)

section \<open>A run\<close>

text \<open>A wait on ''Deployed'', armed, caught up and past its own frame; then a deployment commits.\<close>

definition watch_deploys :: event_subscription where
  "watch_deploys = \<lparr>es_event_type = ''Deployed'', es_condition = None\<rparr>"

definition deploy_wait :: live_wait where
  "deploy_wait = build_wait_at 1 0 7 ''call'' [watch_deploys] ''the deploy'' 60 0"

definition arm_deploy_wait :: "wait_op list" where
  "arm_deploy_wait =
     [Rebuild, Register 7 ''call'' [watch_deploys] ''the deploy'' 60, PersistWait 0 1 100 JNull 0, Commit 0,
      CacheWait 0, ScanStep 0, Receive, OfferFrame]"

definition deployed_row :: stored_event where
  "deployed_row = event_row 200 None ''Deployed'' (JObject []) NoNote"

definition deploy_once :: "wait_op list" where
  "deploy_once = [Append [deployed_row], Commit 0]"

abbreviation plain_run :: "wait_op list \<Rightarrow> wait_system" where
  "plain_run \<equiv> wait_run (\<lambda>_. Inl []) (\<lambda>_. [])"

lemma deployed_is_awaitable: "awaitable_name ''Deployed''"
proof -
  have "list_all graphic ''Deployed''" by code_simp
  then have "trim ''Deployed'' = ''Deployed''" by (rule graphic_trim)
  moreover have "''Deployed'' \<notin> set per_token_streaming_event_types" "''Deployed'' \<notin> set side_question_event_types"
    "''Deployed'' \<notin> set event_wait_event_types" "classify_event ''Deployed'' = None"
    "\<not> is_persisted_type_name ''Deployed''" "''Deployed'' \<notin> set transport_type_names"
    "\<not> is_reserved_system_name ''Deployed''" "''Deployed'' \<notin> set legacy_type_name_aliases"
    by code_simp+
  ultimately show ?thesis
    by (simp add: awaitable_name_def validate_subscribable_event_type_def)
qed

lemma started_is_hidden [simp]: "''EventWaitStarted'' \<in> set event_wait_event_types"
  by code_simp

lemmas wait_evaluation = wait_run_def arm_deploy_wait_def wait_op_step_def wait_op_ok_def wait_system_new_def
  rebuild_event_waits_def rebuild_live_waits_def live_wait_rows_def lw_snapshot_def read_watermark_def
  persist_wait_def horizon_settled_def begin_append_def commit_append_def after_commit_def cache_wait_def
  start_scan_def scan_step_def scan_turn_def catch_up_page_def receive_frame_def offer_frame_def dispatcher_idle_def
  remove_nth_def max_sequence_def used_wait_ids_def event_row_def lw_insert_def
  wait_ending_def map_filter_simps is_offered_def is_awaitable_event_def scanned_row_def catch_up_page_size_def drive_def

definition armed_state :: wait_system where
  "armed_state = wait_system_new\<lparr>
     ws_store := [event_row 100 (Some 7) ''EventWaitStarted'' JNull (StartedNote deploy_wait)\<lparr>ev_seq := 1\<rparr>],
     ws_next := 2, ws_cache := [(1, deploy_wait)], ws_booted := True\<rparr>"

lemma arm_deploy_wait_state: "plain_run arm_deploy_wait = armed_state"
  by (simp add: wait_evaluation armed_state_def deployed_is_awaitable watch_deploys_def deploy_wait_def build_wait_at_def Let_def)


lemma deploy_once_state:
  "plain_run (arm_deploy_wait @ deploy_once) =
     armed_state\<lparr>ws_store := ws_store armed_state @ [deployed_row\<lparr>ev_seq := 2\<rparr>], ws_next := 3,
       ws_frames := [deployed_row\<lparr>ev_seq := 2\<rparr>]\<rparr>"
  unfolding drive_run arm_deploy_wait_state
  by (simp add: wait_evaluation deploy_once_def armed_state_def deployed_row_def Let_def)

lemma deploy_matches:
  "matched_index (\<lambda>_. Inl []) deploy_wait ''Deployed'' (row_view (\<lambda>_. []) (deployed_row\<lparr>ev_seq := n\<rparr>)) = Some 0"
  by (simp add: matched_index_def deploy_wait_def build_wait_at_def watch_deploys_def subscription_matches_def evaluate_def)

lemma deploy_row_matches: "row_matches (\<lambda>_. Inl []) (\<lambda>_. []) deploy_wait (deployed_row\<lparr>ev_seq := n\<rparr>)"
  using deploy_matches [of n] by (simp add: row_matches_def deployed_row_def event_row_def)

definition deliver_deploy :: "wait_op list" where
  "deliver_deploy = deploy_once @ [Receive, OfferFrame, OfferOne, EmitResolution 0 300 301 JNull JNull]"

definition deploy_delivery :: "stored_event list" where
  "deploy_delivery = number_rows 3 (resolution_rows deploy_wait (Delivery (deployed_row\<lparr>ev_seq := 2\<rparr>) 0) 300 301 JNull JNull)"

lemma deliver_deploy_state:
  "plain_run (arm_deploy_wait @ deliver_deploy) =
     armed_state\<lparr>ws_store := ws_store armed_state @ [deployed_row\<lparr>ev_seq := 2\<rparr>], ws_next := 5, ws_cache := [],
       ws_open := [\<lparr>ap_key = 3, ap_rows = deploy_delivery,
         ap_purpose = ResolveAppend deploy_wait (Delivery (deployed_row\<lparr>ev_seq := 2\<rparr>) 0)\<rparr>]\<rparr>"
proof -
  have offered: "waits_matching_row (\<lambda>_. Inl []) (\<lambda>_. []) [deploy_wait] (deployed_row\<lparr>ev_seq := 2\<rparr>) = [(1, 0)]"
    using deploy_matches [of 2]
    by (simp add: waits_matching_row_def waits_matching_def map_filter_simps deployed_row_def event_row_def
        deploy_wait_def build_wait_at_def)
  then show ?thesis
    unfolding deliver_deploy_def append_assoc [symmetric] drive_run [of _ _ "arm_deploy_wait @ deploy_once"]
      deploy_once_state
    by (simp add: drive_def wait_op_step_def wait_op_ok_def receive_frame_def dispatcher_idle_def armed_state_def
        wait_system_new_def offer_frame_def wait_ending_def is_offered_def deployed_row_def event_row_def lw_snapshot_def
        map_filter_simps offer_one_def take_wait_def lw_take_def emit_resolution_def begin_append_def
        remove_nth_def deploy_delivery_def)
qed

section \<open>Properties\<close>

text \<open>C18. After any sequence of operations, failed writes, lost frames and restarts included, no wait has two
  resolutions in the store; once the boot is over, the waits the process holds are exactly the registered waits
  without a resolution, each once; and a restart at that point rebuilds its cache to exactly those.\<close>

theorem a_wait_resolves_once:
  assumes "s = wait_run regex uuid_text ops"
  shows "distinct (resolved_ids (ws_store s)) \<and>
     (ws_booted s \<longrightarrow> mset (held_waits s) = mset (pending_of (ws_store s))) \<and>
     mset (map snd (ws_cache (rebuild_event_waits (restart s)))) = mset (pending_of (ws_store s))"
proof -
  have ok: "waits_ok s" unfolding assms by (rule wait_run_ok)
  then have "waits_ok (rebuild_event_waits (restart s))" by (intro rebuild_ok restart_ok)
  then have "mset (map snd (ws_cache (rebuild_event_waits (restart s)))) = mset (pending_of (ws_store s))"
    by (simp add: waits_ok_def accounted_def held_waits_def rebuild_event_waits_def restart_def wait_system_new_def
        Let_def map_filter_simps)
  with ok show ?thesis by (simp add: waits_ok_def accounted_def)
qed

theorem a_wait_resolves_once_witness:
  "ws_booted (plain_run arm_deploy_wait) \<and>
     mset (held_waits (plain_run arm_deploy_wait)) = mset (pending_of (ws_store (plain_run arm_deploy_wait)))"
proof -
  have "ws_booted (plain_run arm_deploy_wait)" by (simp add: arm_deploy_wait_state armed_state_def)
  with a_wait_resolves_once [OF refl, of "\<lambda>_. Inl []" "\<lambda>_. []" arm_deploy_wait] show ?thesis by blast
qed

text \<open>C17. No match is missed. In any run without a failed scan or a failed resolution write (lost frames,
  restarts and every interleaving included), while the engine is not shutting down, a row that matches an
  armed wait above its watermark gets that wait resolved: the engine's own steps can run out, and whichever
  way they do, the wait has left the cache with a resolution.\<close>

theorem no_match_is_missed:
  assumes "s = wait_run regex uuid_text ops" "calm ops" "\<not> ws_down s"
    and "w \<in> set (map snd (ws_cache s))" "r \<in> set (ws_store s)" "watermark w < ev_seq r"
    and "row_matches regex uuid_text w r"
  shows "(\<exists>steps. list_all is_own_step steps \<and> at_rest (drive regex uuid_text steps s)) \<and>
     (\<forall>steps. list_all is_own_step steps \<and> at_rest (drive regex uuid_text steps s) \<longrightarrow>
        w \<in> fst ` set (ws_taken (drive regex uuid_text steps s)))"
proof (intro conjI allI impI)
  show "\<exists>steps. list_all is_own_step steps \<and> at_rest (drive regex uuid_text steps s)" using comes_to_rest by blast
next
  fix steps
  assume steps: "list_all is_own_step steps \<and> at_rest (drive regex uuid_text steps s)"
  let ?t = "drive regex uuid_text steps s"
  have ok: "waits_ok s" unfolding assms(1) by (rule wait_run_ok)
  note keeps = drive_keeps [OF ok conjunct1 [OF steps], of regex uuid_text]
  have "calm steps" using steps by (auto simp: calm_def list_all_iff dest: own_step_calm)
  then have cover: "cover_ok regex uuid_text ?t"
    using calm_run_covers [of "ops @ steps" regex uuid_text] assms(1,2) by (simp add: drive_run)
  have same: "ws_store ?t = ws_store s" using keeps(2) by (simp add: same_books_def)
  have "w \<notin> set (map snd (ws_cache ?t))"
    using rest_missed_nothing [OF cover conjunct2 [OF steps], of w r] assms(3,5-7) keeps(4) same by auto
  from left_the_cache [OF ok conjunct1 [OF steps] assms(4) this] cached_not_resolving [OF ok assms(4)]
  show "w \<in> fst ` set (ws_taken ?t)" by blast
qed

theorem no_match_is_missed_witness:
  "\<exists>steps. list_all is_own_step steps \<and>
     deploy_wait \<in> fst ` set (ws_taken (drive (\<lambda>_. Inl []) (\<lambda>_. []) steps (plain_run (arm_deploy_wait @ deploy_once))))"
proof -
  let ?s = "plain_run (arm_deploy_wait @ deploy_once)"
  have "calm (arm_deploy_wait @ deploy_once)" by (simp add: calm_def arm_deploy_wait_def deploy_once_def)
  moreover have "\<not> ws_down ?s" "deploy_wait \<in> set (map snd (ws_cache ?s))" "deployed_row\<lparr>ev_seq := 2\<rparr> \<in> set (ws_store ?s)"
    unfolding deploy_once_state by (simp_all add: armed_state_def wait_system_new_def)
  moreover have "watermark deploy_wait < ev_seq (deployed_row\<lparr>ev_seq := 2\<rparr>)" by (simp add: deploy_wait_def build_wait_at_def)
  ultimately show ?thesis using no_match_is_missed [OF refl _ _ _ _ _ deploy_row_matches] by blast
qed

text \<open>C19. Nothing commits below a watermark: in any run, every row of an append that has not committed yet, and
  every sequence the store will still hand out, is above the watermark of every wait that was registered.\<close>

theorem nothing_commits_below_a_watermark:
  assumes "s = wait_run regex uuid_text ops" "w \<in> set (waits_of_rows (all_rows s))"
  shows "watermark w < ws_next s \<and> list_all (\<lambda>a. list_all (\<lambda>r. watermark w < ev_seq r) (ap_rows a)) (ws_open s)"
  using run_horizon_ok [of regex uuid_text ops] assms
  by (auto simp: horizon_ok_def open_rows_def list_all_iff)

theorem nothing_commits_below_a_watermark_witness: "watermark deploy_wait < ws_next (plain_run arm_deploy_wait)"
proof -
  have "deploy_wait \<in> set (waits_of_rows (all_rows (plain_run arm_deploy_wait)))"
    unfolding arm_deploy_wait_state by (simp add: armed_state_def all_rows_def event_row_def)
  from nothing_commits_below_a_watermark [OF refl this] show ?thesis by simp
qed

text \<open>C20. Every delivery is a match that happened: whatever the run, the row a delivery in the store names is in
  the store, its wait was registered, and the subscription it names is the first of the wait's to match that
  row.\<close>

theorem every_delivery_is_real:
  assumes "s = wait_run regex uuid_text ops" "x \<in> set (ws_store s)" "ev_note x = DeliveredNote wid eid k"
  shows "\<exists>w \<in> set (waits_of_rows (ws_store s)). \<exists>r \<in> set (ws_store s). wait_id w = wid \<and> ev_id r = eid \<and>
     matched_index regex w (ev_type r) (row_view uuid_text r) = Some k"
proof -
  have "delivery_real regex uuid_text (ws_store s) (ev_note x)"
    using run_deliveries_ok [of regex uuid_text ops] assms(1,2) by (auto simp: deliveries_ok_def all_rows_def)
  with assms(3) show ?thesis by (auto simp: delivery_real_def genuine_def)
qed

theorem every_delivery_is_real_witness:
  "\<exists>w \<in> set (waits_of_rows (ws_store (plain_run (arm_deploy_wait @ deliver_deploy @ [Commit 0])))).
     \<exists>r \<in> set (ws_store (plain_run (arm_deploy_wait @ deliver_deploy @ [Commit 0]))). wait_id w = 1 \<and> ev_id r = 200 \<and>
     matched_index (\<lambda>_. Inl []) w (ev_type r) (row_view (\<lambda>_. []) r) = Some 0"
proof -
  let ?s = "plain_run (arm_deploy_wait @ deliver_deploy @ [Commit 0])"
  have "ws_store ?s = ws_store armed_state @ [deployed_row\<lparr>ev_seq := 2\<rparr>] @ deploy_delivery"
    unfolding append_assoc [symmetric] drive_run [of _ _ "arm_deploy_wait @ deliver_deploy"] deliver_deploy_state
    by (simp add: drive_def wait_op_step_def wait_op_ok_def commit_append_def after_commit_def Let_def)
  moreover have "hd deploy_delivery \<in> set deploy_delivery" "ev_note (hd deploy_delivery) = DeliveredNote 1 200 0"
    by (simp_all add: deploy_delivery_def event_row_def deployed_row_def deploy_wait_def build_wait_at_def)
  ultimately show ?thesis by (intro every_delivery_is_real [OF refl]) auto
qed

text \<open>The catch-up scan pages forward and ends, and over a store without equal sequences it returns the first
  row above the watermark, in the order of the sequences, that the wait matches, or nothing when there is
  none.\<close>

theorem catch_up_finds_the_first:
  assumes "distinct (map ev_seq rows)"
  shows "catch_up_from_watermark regex uuid_text w rows = first_match regex uuid_text w (watermark w) rows"
  using assms by (simp add: catch_up_from_watermark_def catch_up_is_first_match)

theorem catch_up_finds_the_first_witness:
  "catch_up_from_watermark (\<lambda>_. Inl []) (\<lambda>_. []) deploy_wait [deployed_row\<lparr>ev_seq := 2\<rparr>, deployed_row\<lparr>ev_seq := 1\<rparr>] =
     Some (deployed_row\<lparr>ev_seq := 1\<rparr>, 0)"
proof -
  have "row_hit (\<lambda>_. Inl []) (\<lambda>_. []) deploy_wait (deployed_row\<lparr>ev_seq := n\<rparr>) = Some (deployed_row\<lparr>ev_seq := n\<rparr>, 0)" for n
    using deploy_matches [of n] by (simp add: row_hit_def deployed_row_def event_row_def)
  moreover have "first_match (\<lambda>_. Inl []) (\<lambda>_. []) deploy_wait (watermark deploy_wait)
      [deployed_row\<lparr>ev_seq := 2\<rparr>, deployed_row\<lparr>ev_seq := 1\<rparr>] = Some (deployed_row\<lparr>ev_seq := 1\<rparr>, 0)" if
      "\<And>n. row_hit (\<lambda>_. Inl []) (\<lambda>_. []) deploy_wait (deployed_row\<lparr>ev_seq := n\<rparr>) = Some (deployed_row\<lparr>ev_seq := n\<rparr>, 0)"
    using that by (simp add: first_match_def deploy_wait_def build_wait_at_def deployed_row_def event_row_def map_filter_simps)
  ultimately show ?thesis by (subst catch_up_finds_the_first) simp_all
qed

text \<open>What the arming lookback reports: of the rows the query finds at or below the watermark and inside the
  window, newest first, it reads six hundred at most; of these it reports the first few that match and were not
  delivered before, and says whether there were more.\<close>

theorem lookback_reports_the_newest_matches:
  assumes "distinct (map ev_seq rows)"
    and "found = filter (\<lambda>r. ev_id r \<notin> delivered \<and> any_matches regex on (ev_type r) (row_view uuid_text r))
      (take 600 (lookback_rows on mark recent rows))"
  shows "arming_lookback_matches regex uuid_text on mark recent delivered limit rows =
     \<lparr>lookback_matches = take limit found, lookback_more = limit < length found\<rparr>"
proof (cases "on = []")
  case True
  then have "found = []" by (simp add: assms(2) lookback_rows_def)
  with True show ?thesis by (simp add: arming_lookback_matches_def Let_def)
next
  case False
  have "arming_lookback_max_pages * catch_up_page_size = 600"
    by (simp add: arming_lookback_max_pages_def catch_up_page_size_def)
  with lookback_loop_takes [OF assms(1), of "[]" "limit + 1"] False show ?thesis
    by (simp add: arming_lookback_matches_def assms(2) Let_def)
qed

theorem lookback_reports_the_newest_matches_witness:
  "lookback_matches (arming_lookback_matches (\<lambda>_. Inl []) (\<lambda>_. []) [watch_deploys] 5 (\<lambda>_. True) {} 1
     [deployed_row\<lparr>ev_seq := 2\<rparr>, deployed_row\<lparr>ev_seq := 4\<rparr>, deployed_row\<lparr>ev_seq := 7\<rparr>]) = [deployed_row\<lparr>ev_seq := 4\<rparr>]"
  by (subst lookback_reports_the_newest_matches [OF _ refl])
     (simp_all add: lookback_rows_def deployed_row_def event_row_def watch_deploys_def any_matches_def
        subscription_matches_def evaluate_def)

text \<open>What a registration lets through: an array of subscriptions that all name an event a wait can be
  resolved by (the names the runs above assume), a reason, a timeout from one second to a day, on a thread with
  fewer than twenty-five live waits, none of them with these subscriptions, and fewer than twenty recent
  ones.\<close>

theorem registrations_are_bounded:
  assumes "register_decision check recent waits t args = Inr (on, reason, secs, warnings)"
  shows "on \<noteq> [] \<and> list_all (\<lambda>sub. awaitable_name (es_event_type sub)) on \<and> reason \<noteq> [] \<and>
     1 \<le> secs \<and> secs \<le> 86400 \<and> length (lw_for_thread t waits) < 25 \<and>
     list_all (\<lambda>w. wait_on w \<noteq> on) (lw_for_thread t waits) \<and> check on = Inr warnings \<and>
     recent \<in> Inr ` {n. n < 20}"
proof -
  from assms have parsed: "parse_subscriptions args = Inr on" "check on = Inr warnings" "parse_timeout_secs args = Inr secs"
    "reason \<noteq> []" and caps: "event_wait_caps_refusal waits t on recent = None"
    by (auto simp: register_decision_def Let_def split: sum.splits option.splits if_splits)
  from parsed(3) have "1 \<le> secs" "secs \<le> 86400"
    by (auto simp: parse_timeout_secs_def max_timeout_secs_def split: option.splits if_splits)
  moreover from caps have "length (lw_for_thread t waits) < 25" "list_all (\<lambda>w. wait_on w \<noteq> on) (lw_for_thread t waits)"
    "recent \<in> Inr ` {n. n < 20}"
    by (auto simp: event_wait_caps_refusal_def Let_def list_ex_iff list_all_iff max_live_waits_per_thread_def
        max_recent_subscriptions_def split: if_splits sum.splits)
  ultimately show ?thesis using parse_subscriptions_awaitable [OF parsed(1)] parsed by blast
qed

theorem registrations_are_bounded_witness:
  "\<exists>args. register_decision (\<lambda>_. Inr []) (Inr 0) [] 7 args = Inr ([watch_deploys], ''why'', 60, []) \<and>
     awaitable_name (es_event_type watch_deploys)"
proof -
  let ?args = "JObject [(''on'', JArray [JObject [(''event_type'', JString ''Deployed'')]]),
     (''reason'', JString ''why''), (''timeout_secs'', JNumber (PosInt 60))]"
  have trims: "trim ''Deployed'' = ''Deployed''" "trim ''why'' = ''why''" by (rule graphic_trim, code_simp)+
  have "from_object_entry [(''event_type'', JString ''Deployed'')] = Some watch_deploys"
    using trims by (simp add: from_object_entry_def watch_deploys_def Let_def)
  then have "parse_subscriptions ?args = Inr [watch_deploys]"
    using deployed_is_awaitable
    by (auto simp: parse_subscriptions_def json_get_def awaitable_name_def watch_deploys_def split: sum.splits)
  then have "register_decision (\<lambda>_. Inr []) (Inr 0) [] 7 ?args = Inr ([watch_deploys], ''why'', 60, [])"
    using trims
    by (simp add: register_decision_def parse_timeout_secs_def json_get_def
        event_wait_caps_refusal_def lw_for_thread_def Let_def
        max_timeout_secs_def max_live_waits_per_thread_def max_recent_subscriptions_def)
  with registrations_are_bounded [OF this] show ?thesis by auto
qed

section \<open>A match that is lost\<close>

text \<open>\<open>resolution_emit_failed\<close> puts the wait back and scans nothing: when the write of a delivery fails, the match
  stays undelivered with nothing left to offer it again. Everything is at rest, the wait is armed, and a
  matching row lies above its watermark.\<close>

definition fail_delivery :: "wait_op list" where
  "fail_delivery = deliver_deploy @ [ResolutionFails 0]"

lemma a_failed_delivery_is_not_retried:
  "at_rest (plain_run (arm_deploy_wait @ fail_delivery)) \<and> \<not> ws_down (plain_run (arm_deploy_wait @ fail_delivery)) \<and>
     deploy_wait \<in> set (map snd (ws_cache (plain_run (arm_deploy_wait @ fail_delivery)))) \<and>
     deployed_row\<lparr>ev_seq := 2\<rparr> \<in> set (ws_store (plain_run (arm_deploy_wait @ fail_delivery))) \<and>
     watermark deploy_wait < 2 \<and>
     row_matches (\<lambda>_. Inl []) (\<lambda>_. []) deploy_wait (deployed_row\<lparr>ev_seq := 2\<rparr>)"
proof -
  have run: "plain_run (arm_deploy_wait @ fail_delivery) =
      armed_state\<lparr>ws_store := ws_store armed_state @ [deployed_row\<lparr>ev_seq := 2\<rparr>], ws_next := 5\<rparr>"
    unfolding fail_delivery_def append_assoc [symmetric] drive_run [of _ _ "arm_deploy_wait @ deliver_deploy"]
      deliver_deploy_state
    by (simp add: drive_def wait_op_step_def wait_op_ok_def resolution_emit_failed_def remove_nth_def lw_insert_def
        armed_state_def wait_system_new_def deploy_wait_def build_wait_at_def)
  show ?thesis
    unfolding run using deploy_row_matches [of 2]
    by (simp add: at_rest_def armed_state_def wait_system_new_def deploy_wait_def build_wait_at_def)
qed

text \<open>The live path does not compare a frame with the watermark: a frame that was broadcast before the watermark was
  read, and received after the wait is in the cache, is delivered, though it lies at the watermark.\<close>

definition arm_behind_a_frame :: "wait_op list" where
  "arm_behind_a_frame =
     [Rebuild, Append [deployed_row], Commit 0, Register 7 ''call'' [watch_deploys] ''the deploy'' 60,
      PersistWait 0 1 100 JNull 0, Commit 0, CacheWait 0, ScanStep 0, Receive, OfferFrame, OfferOne]"

lemma a_late_frame_is_delivered:
  "ws_taken (plain_run arm_behind_a_frame) = [(deploy_wait\<lparr>watermark := 1\<rparr>, Delivery (deployed_row\<lparr>ev_seq := 1\<rparr>) 0)]"
proof -
  have offered: "waits_matching_row (\<lambda>_. Inl []) (\<lambda>_. []) [deploy_wait\<lparr>watermark := 1\<rparr>] (deployed_row\<lparr>ev_seq := 1\<rparr>) = [(1, 0)]"
    by (simp add: waits_matching_row_def waits_matching_def map_filter_simps deployed_row_def event_row_def
        deploy_wait_def build_wait_at_def matched_index_def watch_deploys_def subscription_matches_def evaluate_def)
  show ?thesis
    using offered
    by (simp add: wait_evaluation arm_behind_a_frame_def deployed_is_awaitable watch_deploys_def deploy_wait_def
        build_wait_at_def deployed_row_def offer_one_def take_wait_def lw_take_def Let_def)
qed

end
