(* ===== verification/Lane_Landing.thy ===== *)
theory Lane_Landing
  imports Lane_State Rust_Strings
begin

text \<open>
  How the lane moves \<open>main\<close>: the base a landing builds on (\<open>git_ops/origin.rs\<close>), the chain of landing merges of
  a clean pass and its publication (\<open>landing_lane/landing.rs\<close>), and the check and the landing of an
  integration branch (\<open>landing_lane/integration.rs\<close>).

  What git answers is a record of functions: one for each repository state the code asks, since \<open>main\<close> can
  move between the attempts of a pass. A line of \<open>rev-list --parents\<close> is the list of its words.
\<close>

section \<open>Git\<close>

datatype git_answer = GitYes | GitNo | GitUnknown

record landing_input =
  input_change :: uuid
  input_snapshot :: sha
  input_subject :: string
  input_body :: string

text \<open>\<open>git_merge_tree\<close> and \<open>git_commit_tree\<close> give the first line and the whole of stdout of a command that succeeded;
  \<open>git_first_parents\<close> the landing merges \<open>rev-list\<close> finds on \<open>main\<close>, and on \<open>origin/main\<close> when it exists.\<close>

record git_view =
  git_is_ancestor :: "sha \<Rightarrow> sha \<Rightarrow> git_answer"
  git_merge_tree :: "sha \<Rightarrow> sha \<Rightarrow> string option"
  git_commit_tree :: "string \<Rightarrow> sha \<Rightarrow> landing_input \<Rightarrow> string option"
  git_first_parents :: "string + string list list"

section \<open>The base\<close>

datatype landing_order = OriginFirst | LocalFirst | OrderUnknown string

datatype origin_tip = NoOrigin | LocalOrigin | EmptyOrigin | OriginAt sha

record landing_base =
  base_local :: sha
  base_on :: sha
  base_origin :: origin_tip

datatype base_refusal = MainUnreadable string | OriginRefusal string

fun needs_push :: "origin_tip \<Rightarrow> sha \<Rightarrow> bool" where
  "needs_push NoOrigin t = False"
| "needs_push LocalOrigin t = False"
| "needs_push EmptyOrigin t = True"
| "needs_push (OriginAt sha) t = (sha \<noteq> t)"

fun origin_first :: "origin_tip \<Rightarrow> bool" where
  "origin_first EmptyOrigin = True"
| "origin_first (OriginAt sha) = True"
| "origin_first _ = False"

text \<open>What \<open>landing_base\<close> reads: local \<open>main\<close>, whether there is an \<open>origin\<close>, and what a fetch finds.\<close>

record base_reads =
  read_main_sha :: "sha option"
  read_remote :: git_answer
  read_fetch :: "string + sha option"
  read_ancestor :: "sha \<Rightarrow> sha \<Rightarrow> git_answer"

definition compare_lines :: "base_reads \<Rightarrow> sha \<Rightarrow> sha \<Rightarrow> base_refusal + bool" where
  "compare_lines e older newer =
     (case read_ancestor e older newer of
        GitYes \<Rightarrow> Inr True
      | GitNo \<Rightarrow> Inr False
      | GitUnknown \<Rightarrow> Inl (OriginRefusal ''git could not compare main with origin/main''))"

text \<open>A sha is ASCII, so its first eight characters are its first eight bytes.\<close>

definition diverged :: "sha \<Rightarrow> sha \<Rightarrow> string" where
  "diverged here there =
     ''local main ('' @ take 8 here @ '') and origin/main ('' @ take 8 there @
     '') have diverged. Bring them back to one line by hand''"

definition landing_base_of :: "base_reads \<Rightarrow> landing_order \<Rightarrow> base_refusal + landing_base" where
  "landing_base_of e order =
     (case read_main_sha e of
        None \<Rightarrow> Inl (MainUnreadable ''could not read main'')
      | Some here \<Rightarrow>
     (case read_remote e of
        GitNo \<Rightarrow> Inr \<lparr>base_local = here, base_on = here, base_origin = NoOrigin\<rparr>
      | GitUnknown \<Rightarrow>
          Inl (OriginRefusal ''git could not say whether the repository has an origin remote'')
      | GitYes \<Rightarrow>
     (case order of
        LocalFirst \<Rightarrow> Inr \<lparr>base_local = here, base_on = here, base_origin = LocalOrigin\<rparr>
      | OrderUnknown why \<Rightarrow> Inl (OriginRefusal why)
      | OriginFirst \<Rightarrow>
     (case read_fetch e of
        Inl err \<Rightarrow> Inl (OriginRefusal (''could not fetch from origin: '' @ err))
      | Inr None \<Rightarrow> Inr \<lparr>base_local = here, base_on = here, base_origin = EmptyOrigin\<rparr>
      | Inr (Some tip) \<Rightarrow>
          (let at = (\<lambda>b. Inr \<lparr>base_local = here, base_on = b, base_origin = OriginAt tip\<rparr>) in
           if tip = here then at here
           else case compare_lines e here tip of
                  Inl r \<Rightarrow> Inl r
                | Inr True \<Rightarrow> at tip
                | Inr False \<Rightarrow>
                    (case compare_lines e tip here of
                       Inl r \<Rightarrow> Inl r
                     | Inr True \<Rightarrow> at here
                     | Inr False \<Rightarrow> Inl (OriginRefusal (diverged here tip))))))))"

section \<open>The chain of a clean pass\<close>

record landing_merge =
  first_parent :: sha
  merge_sha :: sha

datatype landing_step = StepLanded landing_merge | StepOnMain "landing_merge option" | StepSetAside

record landing_chain =
  chain_tip :: sha
  chain_steps :: "(uuid \<times> landing_step) list"

definition lands_anything :: "landing_chain \<Rightarrow> bool" where
  "lands_anything chain = list_ex (\<lambda>(c, step). case step of StepLanded m \<Rightarrow> True | _ \<Rightarrow> False) (chain_steps chain)"

fun landing_merge_of :: "string list \<Rightarrow> sha \<Rightarrow> landing_merge option" where
  "landing_merge_of (merge # parent # second # _) snapshot =
     (if second = snapshot then Some \<lparr>first_parent = parent, merge_sha = merge\<rparr> else None)"
| "landing_merge_of _ snapshot = None"

definition find_landing_merge :: "git_view \<Rightarrow> sha \<Rightarrow> string + landing_merge option" where
  "find_landing_merge git snapshot =
     (case git_first_parents git of
        Inl e \<Rightarrow> Inl e
      | Inr lines \<Rightarrow>
          Inr (case List.map_filter (\<lambda>l. landing_merge_of l snapshot) lines of [] \<Rightarrow> None | m # _ \<Rightarrow> Some m))"

definition earlier_landing :: "git_view \<Rightarrow> landing_input \<Rightarrow> landing_merge option" where
  "earlier_landing git input =
     (case find_landing_merge git (input_snapshot input) of Inl e \<Rightarrow> None | Inr m \<Rightarrow> m)"

definition merged_tree :: "git_view \<Rightarrow> sha \<Rightarrow> sha \<Rightarrow> string option" where
  "merged_tree git ours theirs =
     (case git_merge_tree git ours theirs of
        None \<Rightarrow> None
      | Some line \<Rightarrow> (let tree = trim line in if tree = [] then None else Some tree))"

definition land_one :: "git_view \<Rightarrow> sha \<Rightarrow> landing_input \<Rightarrow> landing_step" where
  "land_one git tip input =
     (case git_is_ancestor git (input_snapshot input) tip of
        GitYes \<Rightarrow> StepOnMain (earlier_landing git input)
      | GitUnknown \<Rightarrow> StepSetAside
      | GitNo \<Rightarrow>
          (case merged_tree git tip (input_snapshot input) of
             None \<Rightarrow> StepSetAside
           | Some tree \<Rightarrow>
               (case git_commit_tree git tree tip input of
                  None \<Rightarrow> StepSetAside
                | Some out \<Rightarrow>
                    (let merge = trim out in
                     if merge = [] then StepSetAside
                     else StepLanded \<lparr>first_parent = tip, merge_sha = merge\<rparr>))))"

fun chain_onto :: "git_view \<Rightarrow> sha \<Rightarrow> landing_input list \<Rightarrow> landing_chain" where
  "chain_onto git tip [] = \<lparr>chain_tip = tip, chain_steps = []\<rparr>"
| "chain_onto git tip (input # inputs) =
     (let step = land_one git tip input;
          tip = (case step of StepLanded m \<Rightarrow> merge_sha m | _ \<Rightarrow> tip);
          chain = chain_onto git tip inputs
      in chain\<lparr>chain_steps := (input_change input, step) # chain_steps chain\<rparr>)"

section \<open>Publishing a pass\<close>

datatype push_outcome = Pushed | PushRejected string | PushFailed string

text \<open>What one attempt of a pass meets. \<open>at_move\<close> is what \<open>ff_main_to_locked\<close> answers, \<open>at_main\<close> where \<open>main\<close> is
  afterwards.\<close>

record attempt =
  at_base :: base_reads
  at_git :: git_view
  at_push :: "sha \<Rightarrow> push_outcome"
  at_move :: "string + unit"
  at_main :: "sha option"

record publication =
  pub_base :: sha
  pub_chain :: landing_chain
  pub_failed :: "string option"

datatype clean_pass = Published publication | PassWaiting string

definition moved_main :: "publication \<Rightarrow> bool" where
  "moved_main p \<longleftrightarrow> pub_failed p = None \<and> lands_anything (pub_chain p)"

definition pub_main_now :: "publication \<Rightarrow> sha" where
  "pub_main_now p = (if moved_main p then chain_tip (pub_chain p) else pub_base p)"

definition move_local_main :: "attempt \<Rightarrow> landing_base \<Rightarrow> sha \<Rightarrow> string option" where
  "move_local_main a b tip =
     (if tip = base_local b then None
      else case at_move a of
             Inr _ \<Rightarrow> None
           | Inl e \<Rightarrow>
               if at_main a = Some tip then None
               else if origin_first (base_origin b) then None
               else Some e)"

definition max_push_attempts :: nat where
  "max_push_attempts = 3"

definition kept_moving :: "string \<Rightarrow> string" where
  "kept_moving rejected =
     ''origin/main kept moving, and '' @ show_nat max_push_attempts @ '' pushes in a row were refused: '' @ rejected"

text \<open>The attempts that are left, the last refusal, and the attempts as they come.\<close>

fun publish_loop ::
  "nat \<Rightarrow> string \<Rightarrow> (nat \<Rightarrow> attempt) \<Rightarrow> landing_order \<Rightarrow> landing_input list \<Rightarrow> string + clean_pass" where
  "publish_loop 0 rejected at order inputs = Inr (PassWaiting (kept_moving rejected))"
| "publish_loop (Suc left) rejected at order inputs =
     (case landing_base_of (at_base (at 0)) order of
        Inl (MainUnreadable e) \<Rightarrow> Inl e
      | Inl (OriginRefusal why) \<Rightarrow> Inr (PassWaiting why)
      | Inr b \<Rightarrow>
          (let chain = chain_onto (at_git (at 0)) (base_on b) inputs;
               published = Inr (Published \<lparr>pub_base = base_on b, pub_chain = chain,
                                  pub_failed = move_local_main (at 0) b (chain_tip chain)\<rparr>)
           in if needs_push (base_origin b) (chain_tip chain)
              then case at_push (at 0) (chain_tip chain) of
                     Pushed \<Rightarrow> published
                   | PushRejected e \<Rightarrow> publish_loop left e (\<lambda>n. at (Suc n)) order inputs
                   | PushFailed e \<Rightarrow> Inr (PassWaiting (''could not push to origin: '' @ e))
              else published))"

definition publish_clean_pass ::
  "(nat \<Rightarrow> attempt) \<Rightarrow> landing_order \<Rightarrow> landing_input list \<Rightarrow> string + clean_pass" where
  "publish_clean_pass at order inputs = publish_loop max_push_attempts [] at order inputs"

section \<open>The integration branch\<close>

text \<open>What \<open>verify_integration\<close> asks the worktree: a merge in progress, unmerged paths, uncommitted edits, and the
  first-parent line of the branch from its base.\<close>

record worktree_reads =
  wt_merging :: git_answer
  wt_unmerged :: git_answer
  wt_dirty :: git_answer
  wt_line :: "string + string list list"

datatype verify_error =
  MergeInProgress | MergeUnknown | FilesUnmerged | UnmergedUnknown | EditsUncommitted | StatusUnknown
| LineUnreadable string | NoLandingMerge uuid sha | LandingMerges uuid nat

fun member_merges :: "string list list \<Rightarrow> lane_member list \<Rightarrow> verify_error + (uuid \<times> landing_merge) list" where
  "member_merges lines [] = Inr []"
| "member_merges lines (m # ms) =
     (case List.map_filter (\<lambda>l. landing_merge_of l (snapshot_sha m)) lines of
        [merge] \<Rightarrow>
          (case member_merges lines ms of Inl e \<Rightarrow> Inl e | Inr found \<Rightarrow> Inr ((change_id m, merge) # found))
      | [] \<Rightarrow> Inl (NoLandingMerge (change_id m) (snapshot_sha m))
      | found \<Rightarrow> Inl (LandingMerges (change_id m) (length found)))"

definition verify_integration ::
  "worktree_reads \<Rightarrow> lane_member list \<Rightarrow> verify_error + (uuid \<times> landing_merge) list" where
  "verify_integration e ms =
     (case wt_merging e of
        GitYes \<Rightarrow> Inl MergeInProgress
      | GitUnknown \<Rightarrow> Inl MergeUnknown
      | GitNo \<Rightarrow>
     (case wt_unmerged e of
        GitYes \<Rightarrow> Inl FilesUnmerged
      | GitUnknown \<Rightarrow> Inl UnmergedUnknown
      | GitNo \<Rightarrow>
     (case wt_dirty e of
        GitYes \<Rightarrow> Inl EditsUncommitted
      | GitUnknown \<Rightarrow> Inl StatusUnknown
      | GitNo \<Rightarrow>
     (case wt_line e of
        Inl err \<Rightarrow> Inl (LineUnreadable err)
      | Inr lines \<Rightarrow> member_merges lines ms))))"

datatype integration_landing =
  IntegrationLanded sha sha | CatchUpConflict sha "string list" | IntegrationWaiting string

text \<open>One attempt to land the branch: what the catch-up asks (whether the head holds \<open>main\<close>, the merge, the commits
  it would bring), the head after it, and the push and move as in a pass.\<close>

record branch_attempt =
  ba_attempt :: attempt
  ba_holds_main :: "sha \<Rightarrow> git_answer"
  ba_merge :: "sha \<Rightarrow> string + bool"
  ba_commits :: "sha \<Rightarrow> string list"
  ba_head :: "string + sha"

definition catch_up :: "branch_attempt \<Rightarrow> sha \<Rightarrow> string + integration_landing option" where
  "catch_up a main =
     (case ba_holds_main a main of
        GitYes \<Rightarrow> Inr None
      | GitNo \<Rightarrow>
          (case ba_merge a main of
             Inl e \<Rightarrow> Inl e
           | Inr True \<Rightarrow> Inr None
           | Inr False \<Rightarrow> Inr (Some (CatchUpConflict main (ba_commits a main))))
      | GitUnknown \<Rightarrow> Inl ''git could not say whether the integration branch holds main'')"

fun integration_loop ::
  "nat \<Rightarrow> string \<Rightarrow> (nat \<Rightarrow> branch_attempt) \<Rightarrow> landing_order \<Rightarrow> string + integration_landing" where
  "integration_loop 0 rejected at order = Inr (IntegrationWaiting (kept_moving rejected))"
| "integration_loop (Suc left) rejected at order =
     (case landing_base_of (at_base (ba_attempt (at 0))) order of
        Inl (MainUnreadable e) \<Rightarrow> Inl e
      | Inl (OriginRefusal why) \<Rightarrow> Inr (IntegrationWaiting why)
      | Inr b \<Rightarrow>
     (case catch_up (at 0) (base_on b) of
        Inl e \<Rightarrow> Inl e
      | Inr (Some conflict) \<Rightarrow> Inr conflict
      | Inr None \<Rightarrow>
     (case ba_head (at 0) of
        Inl e \<Rightarrow> Inl e
      | Inr head \<Rightarrow>
          (let landed = (case move_local_main (ba_attempt (at 0)) b head of
                           Some e \<Rightarrow> Inl e
                         | None \<Rightarrow> Inr (IntegrationLanded (base_on b) head))
           in if needs_push (base_origin b) head
              then case at_push (ba_attempt (at 0)) head of
                     Pushed \<Rightarrow> landed
                   | PushRejected e \<Rightarrow> integration_loop left e (\<lambda>n. at (Suc n)) order
                   | PushFailed e \<Rightarrow> Inr (IntegrationWaiting (''could not push to origin: '' @ e))
              else landed))))"

definition land_integration :: "(nat \<Rightarrow> branch_attempt) \<Rightarrow> landing_order \<Rightarrow> string + integration_landing" where
  "land_integration at order = integration_loop max_push_attempts [] at order"

end
