(* ===== verification/Lane_Driver_State.thy ===== *)
theory Lane_Driver_State
  imports Lane_Landing Lane_Recovery Apply_Claims Until_Restored
begin

text \<open>
  The landing lane's driver (\<open>landing_lane/driver.rs\<close>): what it keeps, what it reads and what it does. The driver is
  one task that takes one message at a time, so a handler is a function on the record of its fields. What a
  handler awaits (a stored row, a git pass, an id it draws) is a record of reads, one for each site that reads; what
  it sends, stores or spawns is the list of its effects, in order. The apply claims are the table that every apply
  shares (\<open>Apply_Claims\<close>); dropping a claim can send \<open>ClaimReleased\<close> to the lane itself.
\<close>

type_synonym lane_actor = "string option"

section \<open>Changes\<close>

record lane_change =
  ch_id :: uuid
  ch_status :: change_status
  ch_thread :: "uuid option"
  ch_title :: "string option"
  ch_description :: string
  ch_branch :: string
  ch_repo :: string
  ch_files :: "string list"
  ch_restart :: bool

definition change_is_pending :: "lane_change \<Rightarrow> bool" where
  "change_is_pending ch \<longleftrightarrow> ch_status ch = ChPending"

definition change_thread :: "lane_change \<Rightarrow> uuid \<Rightarrow> uuid" where
  "change_thread ch c = (case ch_thread ch of None \<Rightarrow> c | Some t \<Rightarrow> t)"

datatype unqueue_reason = UnqDiscarded | UnqSetAside | UnqRemoved | UnqBatchFailed | UnqLandingFailed

fun unqueue_reason_for :: "change_status option \<Rightarrow> unqueue_reason option" where
  "unqueue_reason_for None = Some UnqDiscarded"
| "unqueue_reason_for (Some st) =
     (case st of
        ChPending \<Rightarrow> None | ChApplied \<Rightarrow> None | ChReverted \<Rightarrow> None
      | ChSetAside \<Rightarrow> Some UnqSetAside
      | ChDiscarded \<Rightarrow> Some UnqDiscarded | ChWithdrawn \<Rightarrow> Some UnqDiscarded)"

text \<open>\<open>files_have_client_update\<close> (\<open>git_ops/restart_detection.rs\<close>).\<close>

definition client_bundle_dirs :: "string list" where
  "client_bundle_dirs =
     [''crates/lucidos-app/src/'', ''crates/lucidos-app/public/'', ''crates/lucidos-app/vite/'',
      ''packages/lucidos-sdk/src/'']"

definition client_bundle_files :: "string list" where
  "client_bundle_files =
     [''crates/lucidos-app/index.html'', ''crates/lucidos-app/vite.config.ts'', ''crates/lucidos-app/package.json'',
      ''package.json'', ''package-lock.json'']"

definition files_have_client_update :: "string list \<Rightarrow> bool" where
  "files_have_client_update files =
     list_ex (\<lambda>f. f \<in> set client_bundle_files \<or> list_ex (\<lambda>dir. take (length dir) f = dir) client_bundle_dirs) files"

text \<open>The thread title, else the first line of the description, else the branch. \<open>lines\<close> also drops a carriage return
  before the line feed, which \<open>trim\<close> drops too.\<close>

definition member_title :: "lane_change \<Rightarrow> string" where
  "member_title ch =
     (let first = trim (takeWhile (\<lambda>c. c \<noteq> CHR 0x0A) (ch_description ch));
          by_text = (if first = [] then ch_branch ch else first)
      in case ch_title ch of
           None \<Rightarrow> by_text
         | Some t \<Rightarrow> if trim t = [] then by_text else t)"

definition lane_thread_title :: "string list \<Rightarrow> string" where
  "lane_thread_title titles =
     (case titles of
        [only] \<Rightarrow> ''Landing: '' @ only
      | _ \<Rightarrow> ''Landing '' @ show_nat (length titles) @ '' changes'')"

section \<open>Members of a pass\<close>

record pass_member =
  pm_member :: lane_member
  pm_change :: lane_change
  pm_claim :: apply_claim
  pm_actor :: lane_actor

abbreviation pm_id :: "pass_member \<Rightarrow> uuid" where
  "pm_id m \<equiv> change_id (pm_member m)"

definition pm_thread :: "pass_member \<Rightarrow> uuid" where
  "pm_thread m = change_thread (pm_change m) (pm_id m)"

definition landing_input_of :: "(uuid \<Rightarrow> string) \<Rightarrow> pass_member \<Rightarrow> landing_input" where
  "landing_input_of uuid_text m =
     \<lparr>input_change = pm_id m,
      input_snapshot = snapshot_sha (pm_member m),
      input_subject = ''Land: '' @ member_title (pm_change m),
      input_body = ''Change: '' @ uuid_text (pm_id m) @ [CHR 0x0A] @ ''Branch: '' @ ch_branch (pm_change m)\<rparr>"

record source_settle =
  settle_change :: lane_change
  settle_snapshot :: string
  settle_landed :: bool

definition pm_settle :: "pass_member \<Rightarrow> bool \<Rightarrow> source_settle" where
  "pm_settle m was_landed =
     \<lparr>settle_change = pm_change m, settle_snapshot = snapshot_sha (pm_member m), settle_landed = was_landed\<rparr>"

record submission =
  sub_change :: lane_change
  sub_claim :: apply_claim
  sub_actor :: lane_actor
  sub_snapshot :: sha

record owned_brief =
  brief_title :: string
  brief_summary :: string
  brief_branch :: string
  brief_snapshot :: sha

definition owned_brief_of :: "pass_member \<Rightarrow> owned_brief" where
  "owned_brief_of m =
     \<lparr>brief_title = member_title (pm_change m), brief_summary = ch_description (pm_change m),
      brief_branch = ch_branch (pm_change m), brief_snapshot = snapshot_sha (pm_member m)\<rparr>"

section \<open>Messages and answers\<close>

datatype lane_thread_end = EndCompleted | EndStopped | EndFailed string

datatype lane_msg =
    MsgSubmit submission
  | MsgThreadEnded uuid uuid lane_thread_end
  | MsgLand uuid
  | MsgCancel uuid lane_actor
  | MsgThreadClosed uuid lane_actor
  | MsgWithdrawn uuid unqueue_reason
  | MsgClaimReleased uuid
  | MsgOriginAnswered
  | MsgRemove uuid lane_actor
  | MsgCancelMembers "uuid list" lane_actor
  | MsgPressOpened uuid
  | MsgPressSubmitted uuid
  | MsgRestored lane_restore

datatype apply_result =
    ResultQueued uuid "uuid option" string
  | ResultNoop uuid "uuid option" nat string
  | ResultApplied uuid "uuid option" bool sha sha nat nat

type_synonym lane_answer = "string + apply_result"

datatype lane_reply =
    ReplySubmit lane_answer
  | ReplyCancel "string + unit"
  | ReplyRemove "lane_removal + unit"
  | ReplyCancelMembers "uuid list"

section \<open>Effects\<close>

text \<open>The events a handler stores, the messages it sends and the tasks it spawns. \<open>DroppedQuietly\<close> is no effect of
  the code: it marks a change that leaves the lane while the lane stores no event for it.\<close>

datatype lane_effect =
    EmitQueued uuid lane_member lane_actor
  | EmitUnqueued uuid uuid unqueue_reason lane_actor
  | EmitApplied uuid uuid bool bool "string list" "string option" lane_actor "landing_merge option"
  | EmitEntityEvents "string list" landing_merge lane_actor "uuid option"
  | EmitApplyFailed uuid uuid string lane_actor
  | EmitBatchStarted uuid "lane_member list" sha uuid
  | EmitBatchLanded uuid sha sha
  | EmitBatchFailed uuid string lane_actor
  | TellApplyAllFailed uuid string
  | BroadcastChanges lane_snapshot
  | PushMain
  | CreateLaneBranch uuid sha
  | OpenLaneThreadTask uuid uuid sha string "owned_brief list"
  | CatchUpTurn uuid uuid sha "string list"
  | LandWhenFree uuid uuid
  | CleanupLaneWorktree uuid uuid bool
  | RetireLaneWorktree uuid
  | SettleSource source_settle
  | InterruptLaneThread uuid lane_actor
  | SendReply lane_reply
  | DroppedQuietly uuid

fun effect_record :: "lane_effect \<Rightarrow> lane_record option" where
  "effect_record (EmitQueued t m a) = Some (Queued m)"
| "effect_record (EmitUnqueued t c r a) = Some (Unqueued c)"
| "effect_record (EmitApplied t c r u cs title a m) = Some (Applied c)"
| "effect_record (EmitBatchStarted b ms base t) = Some (BatchStarted b base t ms)"
| "effect_record (EmitBatchLanded b pre post) = Some (BatchEnded b)"
| "effect_record (EmitBatchFailed b reason a) = Some (BatchEnded b)"
| "effect_record _ = None"

definition lane_records :: "lane_effect list \<Rightarrow> lane_record list" where
  "lane_records es = List.map_filter effect_record es"

section \<open>Reads\<close>

record pass_reads =
  pr_row :: "uuid \<Rightarrow> string + lane_change option"
  pr_order :: landing_order
  pr_attempts :: "nat \<Rightarrow> attempt"
  pr_commits :: "sha \<Rightarrow> sha \<Rightarrow> string list"
  pr_batch :: uuid
  pr_thread :: uuid
  pr_uuid_text :: "uuid \<Rightarrow> string"

text \<open>\<open>rd_row\<close> answers where one change is withdrawn, held or healed, \<open>rd_failed_row\<close> where a failed batch lets go of a
  member; a message reads a change at most once at each site, and a restart passes the queue at most twice.\<close>

record lane_reads =
  rd_pass :: pass_reads
  rd_pass_again :: pass_reads
  rd_row :: "uuid \<Rightarrow> string + lane_change option"
  rd_failed_row :: "uuid \<Rightarrow> string + lane_change option"
  rd_queued_thread :: "uuid \<Rightarrow> string + uuid option"
  rd_branch_head :: "string \<Rightarrow> string \<Rightarrow> sha option"
  rd_worktree :: worktree_reads
  rd_branch_attempts :: "nat \<Rightarrow> branch_attempt"
  rd_running :: bool
  rd_git :: git_view
  rd_main :: "sha option"
  rd_main_before :: "sha option"
  rd_thread_state :: "string + lane_thread_state"
  rd_lanes :: "string + uuid list"

section \<open>The driver\<close>

record lane_driver =
  dr_lane :: lane
  dr_actors :: "(uuid \<times> lane_actor) list"
  dr_held :: "(uuid \<times> pass_member) list"
  dr_landing :: "uuid option"
  dr_waiting_for_origin :: "string option"
  dr_batch_waiting :: "(uuid \<times> uuid) option"
  dr_origin_waiters :: "uuid set"
  dr_published :: lane_snapshot
  dr_claims :: claim_state
  dr_released :: "uuid list"
  dr_effects :: "lane_effect list"

definition dr_log :: "lane_driver \<Rightarrow> lane_record list" where
  "dr_log s = lane_records (dr_effects s)"

text \<open>A driver as the engine starts it: no claim survives a start, and the callback is set before the first message.
  The stored events do survive.\<close>

definition lane_driver_start :: "lane_effect list \<Rightarrow> lane_driver" where
  "lane_driver_start stored =
     \<lparr>dr_lane = lane_default, dr_actors = [], dr_held = [], dr_landing = None, dr_waiting_for_origin = None,
      dr_batch_waiting = None, dr_origin_waiters = {},
      dr_published = lane_snapshot_of lane_default None,
      dr_claims = claim_start\<lparr>st_claims := on_lane_wait_release (st_claims claim_start)\<rparr>,
      dr_released = [], dr_effects = stored\<rparr>"

definition effect :: "lane_effect \<Rightarrow> lane_driver \<Rightarrow> lane_driver" where
  "effect e s = s\<lparr>dr_effects := dr_effects s @ [e]\<rparr>"

definition set_lane :: "lane \<Rightarrow> lane_driver \<Rightarrow> lane_driver" where
  "set_lane l s = s\<lparr>dr_lane := l\<rparr>"

definition publish_lane :: "lane_driver \<Rightarrow> lane_driver" where
  "publish_lane s =
     s\<lparr>dr_published := snapshot_waiting_for_origin (dr_waiting_for_origin s) (lane_snapshot_of (dr_lane s) (dr_landing s))\<rparr>"

definition announce_lane :: "lane_driver \<Rightarrow> lane_driver" where
  "announce_lane s = (let s = publish_lane s in effect (BroadcastChanges (dr_published s)) s)"

section \<open>Claims\<close>

definition do_claim_op :: "claim_op \<Rightarrow> lane_driver \<Rightarrow> lane_driver" where
  "do_claim_op opn s =
     (let (es, cst) = claim_step (dr_claims s) opn
      in s\<lparr>dr_claims := cst,
           dr_released := dr_released s @ List.map_filter (\<lambda>e. case e of Released c \<Rightarrow> Some c | _ \<Rightarrow> None) es\<rparr>)"

definition take_claim :: "bool \<Rightarrow> uuid \<Rightarrow> lane_driver \<Rightarrow> apply_claim option \<times> lane_driver" where
  "take_claim for_lane c s =
     (fst (claim (st_flags (dr_claims s)) c for_lane (st_claims (dr_claims s))),
      do_claim_op (if for_lane then ClaimForLane c else Claim c) s)"

definition drop_member :: "pass_member \<Rightarrow> lane_driver \<Rightarrow> lane_driver" where
  "drop_member m s = do_claim_op (DropClaim (pm_claim m)) s"

text \<open>\<open>HashMap::insert\<close> into \<open>held\<close> drops the member it replaces, \<open>HashMap::remove\<close> hands the member out.\<close>

definition hold_member :: "pass_member \<Rightarrow> lane_driver \<Rightarrow> lane_driver" where
  "hold_member m s =
     (let old = hm_get (dr_held s) (pm_id m);
          s = s\<lparr>dr_held := hm_insert (pm_id m) m (dr_held s)\<rparr>
      in case old of None \<Rightarrow> s | Some replaced \<Rightarrow> drop_member replaced s)"

definition unhold_member :: "uuid \<Rightarrow> lane_driver \<Rightarrow> pass_member option \<times> lane_driver" where
  "unhold_member c s = (hm_get (dr_held s) c, s\<lparr>dr_held := hm_remove c (dr_held s)\<rparr>)"

definition remember_actor :: "uuid \<Rightarrow> lane_actor \<Rightarrow> lane_driver \<Rightarrow> lane_driver" where
  "remember_actor c a s = s\<lparr>dr_actors := hm_insert c a (dr_actors s)\<rparr>"

definition forget_actor :: "uuid \<Rightarrow> lane_driver \<Rightarrow> lane_driver" where
  "forget_actor c s = s\<lparr>dr_actors := hm_remove c (dr_actors s)\<rparr>"

definition actors_retain :: "lane_driver \<Rightarrow> lane_driver" where
  "actors_retain s = s\<lparr>dr_actors := filter (\<lambda>(c, a). lane_place (dr_lane s) c = Waiting) (dr_actors s)\<rparr>"

end
