(* ===== verification/Lane_Driver_Pass.thy ===== *)
theory Lane_Driver_Pass
  imports Lane_Driver_State
begin

text \<open>
  Passes (\<open>landing_lane/driver.rs\<close>): claiming the waiting members, running the git pass over them, announcing what
  each became, and opening a batch of those set aside.
\<close>

definition queued_behind_batch :: string where
  "queued_behind_batch =
     ''Queued in the landing lane. It would not merge cleanly onto main while a batch resolves, '' @
     ''so it resolves in the next batch.''"

definition gathering_for_press :: string where
  "gathering_for_press =
     ''Queued in the landing lane. It would not merge cleanly onto main, so it resolves in one batch with '' @
     ''the rest of the Apply All.''"

definition resolving_in_batch :: string where
  "resolving_in_batch =
     ''It would not merge cleanly onto main, so it resolves in a lane batch. It lands when the batch does.''"

definition waiting_for_origin_answer :: string where
  "waiting_for_origin_answer =
     ''Queued in the landing lane. origin did not take the push, so it lands on the lane's next try.''"

definition landing_failed :: string where
  "landing_failed = ''The landing lane could not land this change''"

definition why_waiting :: "lane \<Rightarrow> string" where
  "why_waiting l = (if gathering l then gathering_for_press else queued_behind_batch)"

definition queued_answer :: "uuid \<Rightarrow> uuid option \<Rightarrow> string \<Rightarrow> lane_answer" where
  "queued_answer c t message = Inr (ResultQueued c t message)"

section \<open>Announcing one member\<close>

definition emit_unqueued :: "uuid \<Rightarrow> uuid \<Rightarrow> unqueue_reason \<Rightarrow> lane_actor \<Rightarrow> lane_driver \<Rightarrow> lane_driver" where
  "emit_unqueued t c reason actor s = effect (EmitUnqueued t c reason actor) s"

definition announce_landing ::
  "(sha \<Rightarrow> sha \<Rightarrow> string list) \<Rightarrow> pass_member \<Rightarrow> landing_merge option \<Rightarrow> lane_driver \<Rightarrow> apply_result \<times> lane_driver" where
  "announce_landing commits_between m merge s =
     (let ch = pm_change m; t = pm_thread m; c = claimed_change (pm_claim m)
      in case merge of
           None \<Rightarrow>
             (ResultNoop (ch_id ch) (ch_thread ch) (length (ch_files ch))
                ''Change already present on main, marked applied.'',
              drop_member m (effect (EmitApplied t c False False [] (ch_title ch) (pm_actor m) None) s))
         | Some lm \<Rightarrow>
             (let commits = commits_between (first_parent lm) (merge_sha lm);
                  s = effect (EmitApplied t c (ch_restart ch) (files_have_client_update (ch_files ch)) commits
                        (ch_title ch) (pm_actor m) (Some lm)) s;
                  s = effect (EmitEntityEvents (ch_files ch) lm (pm_actor m) (ch_thread ch)) s
              in (ResultApplied (ch_id ch) (ch_thread ch) (ch_restart ch) (first_parent lm) (merge_sha lm)
                    (length commits) (length (ch_files ch)),
                  drop_member m s)))"

definition fail_member :: "pass_member \<Rightarrow> string \<Rightarrow> lane_driver \<Rightarrow> string \<times> lane_driver" where
  "fail_member m error s =
     (let message = landing_failed @ '': '' @ error @ ''. It is still pending; apply it again.'';
          s = emit_unqueued (pm_thread m) (pm_id m) UnqLandingFailed None s;
          s = effect (EmitApplyFailed (pm_thread m) (pm_id m) message (pm_actor m)) s
      in (message, drop_member m s))"

definition settle_sources :: "source_settle list \<Rightarrow> lane_driver \<Rightarrow> lane_driver" where
  "settle_sources settles s = foldl (\<lambda>s x. effect (SettleSource x) s) s settles"

text \<open>A change that leaves without an event is marked. One that landed elsewhere left with that \<open>ChangeApplied\<close>.\<close>

definition leave_resolved :: "lane_member \<Rightarrow> lane_change option \<Rightarrow> lane_driver \<Rightarrow> lane_driver" where
  "leave_resolved m ch s =
     (case unqueue_reason_for (map_option ch_status ch) of
        None \<Rightarrow> effect (DroppedQuietly (change_id m)) s
      | Some reason \<Rightarrow>
          emit_unqueued (case ch of None \<Rightarrow> change_id m | Some ch \<Rightarrow> change_thread ch (change_id m))
            (change_id m) reason None s)"

section \<open>Claiming the members of a pass\<close>

fun claim_members ::
  "pass_reads \<Rightarrow> lane_member list \<Rightarrow> uuid option \<Rightarrow> lane_driver \<Rightarrow> pass_member list \<times> lane_driver" where
  "claim_members P [] skip s = ([], s)"
| "claim_members P (m # ms) skip s =
     (if Some (change_id m) = skip then claim_members P ms skip s
      else case take_claim True (change_id m) s of
        (None, s) \<Rightarrow> claim_members P ms skip (set_lane (wait m (dr_lane s)) s)
      | (Some k, s) \<Rightarrow>
          (let taken = (\<lambda>ch a. \<lparr>pm_member = m, pm_change = ch, pm_claim = k, pm_actor = a\<rparr>);
               drop = do_claim_op (DropClaim k)
           in case pr_row P (change_id m) of
                Inl e \<Rightarrow> claim_members P ms skip (drop (set_lane (wait m (dr_lane s)) s))
              | Inr read \<Rightarrow>
                  (let a = (case hm_get (dr_actors s) (change_id m) of None \<Rightarrow> None | Some a \<Rightarrow> a);
                       s = forget_actor (change_id m) s
                   in case read of
                        None \<Rightarrow> claim_members P ms skip (drop (leave_resolved m None s))
                      | Some ch \<Rightarrow>
                          if change_is_pending ch
                          then (let (rest, s) = claim_members P ms skip s in (taken ch a # rest, s))
                          else claim_members P ms skip (drop (leave_resolved m (Some ch) s)))))"

definition claim_waiting :: "pass_reads \<Rightarrow> uuid option \<Rightarrow> lane_driver \<Rightarrow> pass_member list \<times> lane_driver" where
  "claim_waiting P skip s =
     (let (taken, l) = take_pass (dr_lane s) in claim_members P taken skip (set_lane l s))"

section \<open>A pass\<close>

definition wait_for_origin :: "string \<Rightarrow> lane_driver \<Rightarrow> lane_driver" where
  "wait_for_origin why s = s\<lparr>dr_waiting_for_origin := Some why\<rparr>"

definition land_when_free :: "uuid \<Rightarrow> uuid \<Rightarrow> lane_driver \<Rightarrow> lane_driver" where
  "land_when_free b t s = effect (LandWhenFree b t) s"

definition land_batch_waiting_for_origin :: "lane_driver \<Rightarrow> lane_driver" where
  "land_batch_waiting_for_origin s =
     (case dr_batch_waiting s of
        None \<Rightarrow> s
      | Some (b, t) \<Rightarrow>
          (let s = s\<lparr>dr_batch_waiting := None\<rparr>
           in if resolving_batch_of b (dr_lane s) \<noteq> None
              then land_when_free b t (s\<lparr>dr_landing := Some b\<rparr>) else s))"

definition push_after :: "landing_order \<Rightarrow> lane_driver \<Rightarrow> lane_driver" where
  "push_after order s = (if order = LocalFirst then effect PushMain s else s)"

datatype pass_outcome = Lands landing_merge | AlreadyOnMain | FailsLanding string | SetAsideOutcome

fun pass_outcome_of :: "landing_step \<Rightarrow> string option \<Rightarrow> pass_outcome" where
  "pass_outcome_of (StepLanded m) None = Lands m"
| "pass_outcome_of (StepLanded m) (Some e) = FailsLanding e"
| "pass_outcome_of (StepOnMain (Some m)) failed = Lands m"
| "pass_outcome_of (StepOnMain None) failed = AlreadyOnMain"
| "pass_outcome_of StepSetAside failed = SetAsideOutcome"

fun settles_source :: "pass_outcome \<Rightarrow> bool option" where
  "settles_source (Lands m) = Some True"
| "settles_source AlreadyOnMain = Some True"
| "settles_source (FailsLanding e) = Some False"
| "settles_source SetAsideOutcome = None"

text \<open>Taking one member out of the pass by its id; a pass names each change once.\<close>

fun take_member :: "uuid \<Rightarrow> pass_member list \<Rightarrow> (pass_member \<times> pass_member list) option" where
  "take_member c [] = None"
| "take_member c (m # ms) =
     (if pm_id m = c then Some (m, ms) else map_option (\<lambda>(k, rest). (k, m # rest)) (take_member c ms))"

type_synonym lane_answers = "(uuid \<times> lane_answer) list"

record pass_state =
  ps_members :: "pass_member list"
  ps_set_aside :: "pass_member list"
  ps_settle :: "source_settle list"
  ps_answers :: lane_answers

fun pass_steps ::
  "pass_reads \<Rightarrow> string option \<Rightarrow> (uuid \<times> landing_step) list \<Rightarrow> pass_state \<Rightarrow> lane_driver \<Rightarrow> pass_state \<times> lane_driver" where
  "pass_steps P failed [] ps s = (ps, s)"
| "pass_steps P failed ((c, step) # steps) ps s =
     (case take_member c (ps_members ps) of
        None \<Rightarrow> pass_steps P failed steps ps s
      | Some (m, rest) \<Rightarrow>
          (let outcome = pass_outcome_of step failed;
               ps = ps\<lparr>ps_members := rest,
                       ps_settle := ps_settle ps @
                         (case settles_source outcome of None \<Rightarrow> [] | Some was_landed \<Rightarrow> [pm_settle m was_landed])\<rparr>;
               answered = (\<lambda>a. ps\<lparr>ps_answers := hm_insert c a (ps_answers ps)\<rparr>)
           in case outcome of
                Lands lm \<Rightarrow>
                  (let (r, s) = announce_landing (pr_commits P) m (Some lm) s
                   in pass_steps P failed steps (answered (Inr r)) s)
              | AlreadyOnMain \<Rightarrow>
                  (let (r, s) = announce_landing (pr_commits P) m None s
                   in pass_steps P failed steps (answered (Inr r)) s)
              | FailsLanding e \<Rightarrow>
                  (let (message, s) = fail_member m e s
                   in pass_steps P failed steps (answered (Inl message)) s)
              | SetAsideOutcome \<Rightarrow> pass_steps P failed steps (ps\<lparr>ps_set_aside := ps_set_aside ps @ [m]\<rparr>) s))"

definition drop_members :: "pass_member list \<Rightarrow> lane_driver \<Rightarrow> lane_driver" where
  "drop_members ms s = foldl (\<lambda>s m. drop_member m s) s ms"

definition open_lane_thread :: "resolving_batch \<Rightarrow> lane_driver \<Rightarrow> lane_driver" where
  "open_lane_thread b s =
     (let briefs = map owned_brief_of (List.map_filter (\<lambda>m. hm_get (dr_held s) (change_id m)) (unlanded b))
      in effect (OpenLaneThreadTask (batch_id b) (lane_thread_id b) (base_sha b)
           (lane_thread_title (map brief_title briefs)) briefs) s)"

fun keep_waiting :: "string \<Rightarrow> pass_member list \<Rightarrow> lane_answers \<Rightarrow> lane_driver \<Rightarrow> lane_answers \<times> lane_driver" where
  "keep_waiting why [] answers s = (answers, s)"
| "keep_waiting why (m # ms) answers s =
     keep_waiting why ms (hm_insert (pm_id m) (queued_answer (pm_id m) (ch_thread (pm_change m)) why) answers)
       (drop_member m (remember_actor (pm_id m) (pm_actor m) s))"

fun hold_set_aside :: "pass_member list \<Rightarrow> lane_answers \<Rightarrow> lane_driver \<Rightarrow> lane_answers \<times> lane_driver" where
  "hold_set_aside [] answers s = (answers, s)"
| "hold_set_aside (m # ms) answers s =
     hold_set_aside ms
       (hm_insert (pm_id m) (queued_answer (pm_id m) (ch_thread (pm_change m)) resolving_in_batch) answers)
       (hold_member m s)"

definition take_in_set_aside ::
  "pass_reads \<Rightarrow> pass_member list \<Rightarrow> sha \<Rightarrow> lane_answers \<Rightarrow> lane_driver \<Rightarrow> lane_answers \<times> lane_driver" where
  "take_in_set_aside P aside base answers s =
     (let (opened, l) = set_aside (pr_batch P) base (pr_thread P) (map pm_member aside) (dr_lane s);
          s = set_lane l s
      in case opened of
           None \<Rightarrow> keep_waiting (why_waiting l) aside answers s
         | Some b \<Rightarrow>
             (let s = effect (EmitBatchStarted (batch_id b) (members b) (base_sha b) (lane_thread_id b)) s;
                  s = effect (CreateLaneBranch (batch_id b) (base_sha b)) s;
                  (answers, s) = hold_set_aside aside answers s
              in (answers, open_lane_thread b s)))"

definition put_back :: "pass_member \<Rightarrow> lane_driver \<Rightarrow> lane_driver" where
  "put_back m s =
     (let s = remember_actor (pm_id m) (pm_actor m) s;
          s = s\<lparr>dr_origin_waiters := insert (pm_id m) (dr_origin_waiters s)\<rparr>
      in set_lane (wait (pm_member m) (dr_lane s)) s)"

fun wait_all ::
  "pass_member list \<Rightarrow> lane_answers \<Rightarrow> lane_driver \<Rightarrow> lane_answers \<times> lane_driver" where
  "wait_all [] answers s = (answers, s)"
| "wait_all (m # ms) answers s =
     (let answers = hm_insert (pm_id m)
            (queued_answer (pm_id m) (ch_thread (pm_change m)) waiting_for_origin_answer) answers
      in wait_all ms answers (drop_member m (put_back m s)))"

fun fail_all ::
  "string \<Rightarrow> pass_member list \<Rightarrow> source_settle list \<Rightarrow> lane_answers \<Rightarrow> lane_driver \<Rightarrow>
     source_settle list \<times> lane_answers \<times> lane_driver" where
  "fail_all e [] settles answers s = (settles, answers, s)"
| "fail_all e (m # ms) settles answers s =
     (let (message, s) = fail_member m e s
      in fail_all e ms (settles @ [pm_settle m False]) (hm_insert (pm_id m) (Inl message) answers) s)"

definition run_pass :: "pass_reads \<Rightarrow> pass_member list \<Rightarrow> lane_driver \<Rightarrow> lane_answers \<times> lane_driver" where
  "run_pass P ms s =
     (if ms = [] then ([], s)
      else case publish_clean_pass (pr_attempts P) (pr_order P) (map (landing_input_of (pr_uuid_text P)) ms) of
        Inr (PassWaiting why) \<Rightarrow>
          (let (answers, s) = wait_all ms [] (wait_for_origin why s) in (answers, announce_lane s))
      | Inl e \<Rightarrow>
          (let (settles, answers, s) = fail_all e ms [] [] s in (answers, settle_sources settles s))
      | Inr (Published p) \<Rightarrow>
          (let s = (if moved_main p then push_after (pr_order P) s else s);
               s = land_batch_waiting_for_origin (s\<lparr>dr_waiting_for_origin := None\<rparr>);
               (ps, s) = pass_steps P (pub_failed p) (chain_steps (pub_chain p))
                 \<lparr>ps_members = ms, ps_set_aside = [], ps_settle = [], ps_answers = []\<rparr> s;
               (answers, s) = take_in_set_aside P (ps_set_aside ps) (pub_main_now p) (ps_answers ps) s
           in (answers, drop_members (ps_members ps) (settle_sources (ps_settle ps) (announce_lane s)))))"

definition run_waiting :: "pass_reads \<Rightarrow> lane_driver \<Rightarrow> lane_driver" where
  "run_waiting P s =
     (if queue_held (dr_lane s) \<or> waiting (dr_lane s) = [] then s
      else (let (ms, s) = claim_waiting P None s in snd (run_pass P ms s)))"

definition retry_origin :: "pass_reads \<Rightarrow> lane_driver \<Rightarrow> lane_driver" where
  "retry_origin P s =
     (if dr_waiting_for_origin s = None then s
      else (let s = land_batch_waiting_for_origin s;
                waiters = dr_origin_waiters s;
                s = s\<lparr>dr_origin_waiters := {}\<rparr>;
                (taken, l) = (if queue_held (dr_lane s) then take_members waiters (dr_lane s)
                              else take_pass (dr_lane s));
                (ms, s) = claim_members P taken None (set_lane l s)
            in snd (run_pass P ms s)))"

end
