(* ===== verification/Lane_Driver.thy ===== *)
theory Lane_Driver
  imports Lane_Driver_Pass
begin

text \<open>
  The resolving batch, the messages and the restart of the lane's driver (\<open>landing_lane/driver.rs\<close>).
\<close>

definition lane_canceled :: string where
  "lane_canceled = ''Canceled from the landing lane.''"

definition lane_removed :: string where
  "lane_removed = ''Removed from the landing lane.''"

definition batch_failed_before_restart :: string where
  "batch_failed_before_restart = ''Its lane batch failed before the engine restarted.''"

definition lane_thread_closed :: string where
  "lane_thread_closed = ''The lane thread was archived, deleted or discarded.''"

section \<open>The end of a batch\<close>

definition unqueue_failed_member :: "lane_reads \<Rightarrow> string \<Rightarrow> uuid \<Rightarrow> lane_driver \<Rightarrow> lane_driver" where
  "unqueue_failed_member R reason c s =
     (let (held, s) = unhold_member c s;
          ch = (case held of
                  Some m \<Rightarrow> Some (pm_change m)
                | None \<Rightarrow> (case rd_failed_row R c of Inl e \<Rightarrow> None | Inr ch \<Rightarrow> ch));
          t = (case ch of
                 Some ch \<Rightarrow> Some (change_thread ch c)
               | None \<Rightarrow> (case rd_queued_thread R c of Inl e \<Rightarrow> None | Inr t \<Rightarrow> t));
          s = (case t of Some t \<Rightarrow> emit_unqueued t c UnqBatchFailed None s | None \<Rightarrow> s);
          s = (case ch of
                 Some ch \<Rightarrow>
                   if change_is_pending ch
                   then (let s = effect (TellApplyAllFailed c reason) s;
                             head = (case rd_branch_head R (ch_repo ch) (ch_branch ch) of None \<Rightarrow> [] | Some h \<Rightarrow> h)
                         in effect (SettleSource
                              \<lparr>settle_change = ch, settle_snapshot = head, settle_landed = False\<rparr>) s)
                   else s
               | None \<Rightarrow> s)
      in case held of None \<Rightarrow> s | Some m \<Rightarrow> drop_member m s)"

definition unqueue_failed_members :: "lane_reads \<Rightarrow> string \<Rightarrow> uuid list \<Rightarrow> lane_driver \<Rightarrow> lane_driver" where
  "unqueue_failed_members R reason cs s = foldl (\<lambda>s c. unqueue_failed_member R reason c s) s cs"

definition fail_batch ::
  "lane_reads \<Rightarrow> uuid \<Rightarrow> string \<Rightarrow> lane_actor \<Rightarrow> bool \<Rightarrow> lane_driver \<Rightarrow> lane_driver" where
  "fail_batch R b reason actor with_hold s =
     (case end_batch b (dr_lane s) of
        (None, l) \<Rightarrow> s
      | (Some batch, l) \<Rightarrow>
          (let s = (set_lane l s)\<lparr>dr_landing := None\<rparr>;
               s = effect (EmitBatchFailed b reason actor) s;
               s = unqueue_failed_members R reason (map change_id (unlanded batch)) s;
               s = effect (CleanupLaneWorktree b (lane_thread_id batch) with_hold) s
           in run_waiting (rd_pass R) (actors_retain (announce_lane s))))"

definition spawn_settled :: "(lane_change \<times> string) list \<Rightarrow> lane_driver \<Rightarrow> lane_driver" where
  "spawn_settled settled s =
     settle_sources (map (\<lambda>(ch, snap). \<lparr>settle_change = ch, settle_snapshot = snap, settle_landed = True\<rparr>) settled) s"

definition close_landed ::
  "lane_reads \<Rightarrow> resolving_batch \<Rightarrow> sha \<Rightarrow> sha \<Rightarrow> bool \<Rightarrow> (lane_change \<times> string) list \<Rightarrow> lane_driver \<Rightarrow> lane_driver" where
  "close_landed R batch pre post with_hold settled s =
     (let s = effect (EmitBatchLanded (batch_id batch) pre post) (s\<lparr>dr_landing := None\<rparr>);
          s = set_lane (snd (end_batch (batch_id batch) (dr_lane s))) s;
          s = effect (CleanupLaneWorktree (batch_id batch) (lane_thread_id batch) with_hold) s;
          s = spawn_settled settled (announce_lane s)
      in run_waiting (rd_pass R) (actors_retain s))"

section \<open>Landing a batch\<close>

fun hold_unlanded :: "lane_reads \<Rightarrow> lane_member list \<Rightarrow> lane_driver \<Rightarrow> (string + unit) \<times> lane_driver" where
  "hold_unlanded R [] s = (Inr (), s)"
| "hold_unlanded R (m # ms) s =
     (let c = change_id m; text = pr_uuid_text (rd_pass R) c
      in if hm_get (dr_held s) c \<noteq> None then hold_unlanded R ms s
         else case take_claim False c s of
                (None, s) \<Rightarrow> (Inl (''change '' @ text @ '' is being applied elsewhere''), s)
              | (Some k, s) \<Rightarrow>
                  (let drop = do_claim_op (DropClaim k)
                   in case rd_row R c of
                        Inl e \<Rightarrow> (Inl (''could not read change '' @ text @ '': '' @ e), drop s)
                      | Inr None \<Rightarrow> (Inl (''change '' @ text @ '' is no longer pending''), drop s)
                      | Inr (Some ch) \<Rightarrow>
                          if change_is_pending ch
                          then hold_unlanded R ms
                                 (hold_member \<lparr>pm_member = m, pm_change = ch, pm_claim = k, pm_actor = None\<rparr> s)
                          else (Inl (''change '' @ text @ '' is no longer pending''), drop s)))"

definition hold_batch_members :: "lane_reads \<Rightarrow> resolving_batch \<Rightarrow> lane_driver \<Rightarrow> (string + unit) \<times> lane_driver" where
  "hold_batch_members R batch s = hold_unlanded R (unlanded batch) s"

definition land_member ::
  "lane_reads \<Rightarrow> pass_member \<Rightarrow> landing_merge \<Rightarrow> lane_driver \<Rightarrow> (lane_change \<times> string) \<times> lane_driver" where
  "land_member R m merge s =
     (let s = set_lane (landed (pm_id m) (dr_lane s)) s;
          (r, s) = announce_landing (pr_commits (rd_pass R)) m (Some merge) s
      in ((pm_change m, snapshot_sha (pm_member m)), s))"

fun land_members ::
  "lane_reads \<Rightarrow> (uuid \<times> landing_merge) list \<Rightarrow> lane_driver \<Rightarrow> (lane_change \<times> string) list \<times> lane_driver" where
  "land_members R [] s = ([], s)"
| "land_members R ((c, merge) # merges) s =
     (case unhold_member c s of
        (None, s) \<Rightarrow> land_members R merges s
      | (Some m, s) \<Rightarrow>
          (let (settled, s) = land_member R m merge s; (rest, s) = land_members R merges s
           in (settled # rest, s)))"

fun verify_text :: "(uuid \<Rightarrow> string) \<Rightarrow> verify_error \<Rightarrow> string" where
  "verify_text uuid_text MergeInProgress = ''a merge is still in progress''"
| "verify_text uuid_text MergeUnknown = ''git could not say whether a merge is open''"
| "verify_text uuid_text FilesUnmerged = ''some files are still unmerged''"
| "verify_text uuid_text UnmergedUnknown = ''git could not list unmerged files''"
| "verify_text uuid_text EditsUncommitted = ''the integration branch has uncommitted edits''"
| "verify_text uuid_text StatusUnknown = ''git could not read the worktree's status''"
| "verify_text uuid_text (LineUnreadable e) = e"
| "verify_text uuid_text (NoLandingMerge c snapshot) =
     ''change '' @ uuid_text c @ '' has no landing merge of '' @ snapshot"
| "verify_text uuid_text (LandingMerges c n) =
     ''change '' @ uuid_text c @ '' has '' @ show_nat n @ '' landing merges, not one''"

definition land_batch :: "lane_reads \<Rightarrow> uuid \<Rightarrow> lane_driver \<Rightarrow> lane_driver" where
  "land_batch R b s =
     (case resolving_batch_of b (dr_lane s) of
        None \<Rightarrow> s
      | Some batch \<Rightarrow>
     (case hold_batch_members R batch s of
        (Inl reason, s) \<Rightarrow> fail_batch R b reason None True s
      | (Inr _, s) \<Rightarrow>
     (case verify_integration (rd_worktree R) (unlanded batch) of
        Inl e \<Rightarrow>
          fail_batch R b (''The lane thread finished, but '' @ verify_text (pr_uuid_text (rd_pass R)) e @ ''.'') None True s
      | Inr merges \<Rightarrow>
     (case land_integration (rd_branch_attempts R) (pr_order (rd_pass R)) of
        Inl e \<Rightarrow> fail_batch R b (''The lane could not land the batch: '' @ e) None True s
      | Inr (IntegrationLanded pre post) \<Rightarrow>
          (let s = (if pre \<noteq> post then push_after (pr_order (rd_pass R)) s else s);
               (settled, s) = land_members R merges s
           in close_landed R batch pre post True settled (s\<lparr>dr_waiting_for_origin := None\<rparr>))
      | Inr (IntegrationWaiting why) \<Rightarrow>
          announce_lane (wait_for_origin why
            (s\<lparr>dr_landing := None, dr_batch_waiting := Some (b, lane_thread_id batch)\<rparr>))
      | Inr (CatchUpConflict main commits) \<Rightarrow>
          effect (CatchUpTurn b (lane_thread_id batch) main commits) (announce_lane (s\<lparr>dr_landing := None\<rparr>))))))"

definition thread_ended :: "lane_reads \<Rightarrow> uuid \<Rightarrow> uuid \<Rightarrow> lane_thread_end \<Rightarrow> lane_driver \<Rightarrow> lane_driver" where
  "thread_ended R b t ended s =
     (if resolving_batch_of b (dr_lane s) = None then effect (CleanupLaneWorktree b t False) s
      else case ended of
             EndCompleted \<Rightarrow> land_when_free b t (announce_lane (s\<lparr>dr_landing := Some b\<rparr>))
           | EndStopped \<Rightarrow> if dr_landing s = Some b then announce_lane (s\<lparr>dr_landing := None\<rparr>) else s
           | EndFailed reason \<Rightarrow> fail_batch R b reason None False s)"

section \<open>Submitting a change\<close>

definition submitted_member :: "submission \<Rightarrow> lane_member \<Rightarrow> pass_member" where
  "submitted_member sub m =
     \<lparr>pm_member = m, pm_change = sub_change sub, pm_claim = sub_claim sub, pm_actor = sub_actor sub\<rparr>"

definition pass_answer ::
  "pass_reads \<Rightarrow> pass_member list \<Rightarrow> uuid \<Rightarrow> uuid option \<Rightarrow> lane_driver \<Rightarrow> lane_answer \<times> lane_driver" where
  "pass_answer P ms c t s =
     (let (answers, s) = run_pass P ms s
      in (case hm_get answers c of
            Some a \<Rightarrow> a | None \<Rightarrow> queued_answer c t (why_waiting (dr_lane s)), s))"

definition snapshot_of :: "lane \<Rightarrow> uuid \<Rightarrow> sha \<Rightarrow> sha" where
  "snapshot_of l c fallback =
     (case find (\<lambda>m. change_id m = c) (waiting l) of None \<Rightarrow> fallback | Some m \<Rightarrow> snapshot_sha m)"

definition arrive :: "pass_reads \<Rightarrow> submission \<Rightarrow> lane_driver \<Rightarrow> lane_answer \<times> lane_driver" where
  "arrive P sub s =
     (let c = ch_id (sub_change sub); t = ch_thread (sub_change sub);
          m = \<lparr>change_id = c, snapshot_sha = sub_snapshot sub\<rparr>;
          s = effect (EmitQueued (change_thread (sub_change sub) c) m (sub_actor sub)) s;
          (ms, s) = claim_waiting P None s
      in pass_answer P (ms @ [submitted_member sub m]) c t s)"

text \<open>The submission that finds its change resolving gives its claim to the batch only when the lane lost its own; otherwise
  the claim is dropped, and so is that of a change that waits while the queue is held.\<close>

definition submit_change :: "pass_reads \<Rightarrow> submission \<Rightarrow> lane_driver \<Rightarrow> lane_answer \<times> lane_driver" where
  "submit_change P sub s =
     (let c = ch_id (sub_change sub); t = ch_thread (sub_change sub);
          drop = do_claim_op (DropClaim (sub_claim sub))
      in case lane_place (dr_lane s) c of
           Resolving \<Rightarrow>
             (let m = (case resolving (dr_lane s) of
                         None \<Rightarrow> None | Some b \<Rightarrow> find (\<lambda>m. change_id m = c) (members b))
              in (queued_answer c t resolving_in_batch,
                  case m of
                    None \<Rightarrow> drop s
                  | Some m \<Rightarrow>
                      if hm_get (dr_held s) c = None
                      then s\<lparr>dr_held := hm_insert c (submitted_member sub m) (dr_held s)\<rparr> else drop s))
         | Waiting \<Rightarrow>
             if queue_held (dr_lane s) then (queued_answer c t (why_waiting (dr_lane s)), drop s)
             else (let snapshot = snapshot_of (dr_lane s) c (sub_snapshot sub);
                       (ms, s) = claim_waiting P (Some c) s
                   in pass_answer P
                        (ms @ [submitted_member sub \<lparr>change_id = c, snapshot_sha = snapshot\<rparr>]) c t s)
         | Absent \<Rightarrow> arrive P sub s)"

section \<open>Leaving the lane from outside\<close>

definition withdraw ::
  "lane_reads \<Rightarrow> uuid \<Rightarrow> unqueue_reason \<Rightarrow> lane_actor \<Rightarrow> lane_driver \<Rightarrow> lane_change option \<times> lane_driver" where
  "withdraw R c reason actor s =
     (let (was_waiting, l) = unqueue c (dr_lane s); s = set_lane l s
      in if \<not> was_waiting then (None, s)
         else (let s = forget_actor c s;
                   ch = (case rd_row R c of Inl e \<Rightarrow> None | Inr ch \<Rightarrow> ch);
                   t = (case ch of None \<Rightarrow> c | Some ch \<Rightarrow> change_thread ch c)
               in (ch, announce_lane (emit_unqueued t c reason actor s))))"

definition remove_change :: "lane_reads \<Rightarrow> uuid \<Rightarrow> lane_actor \<Rightarrow> lane_driver \<Rightarrow> (lane_removal + unit) \<times> lane_driver" where
  "remove_change R c actor s =
     (case removal (dr_lane s) c of
        Inl refused \<Rightarrow> (Inl refused, s)
      | Inr _ \<Rightarrow>
          (let (ch, s) = withdraw R c UnqRemoved actor s;
               s = effect (TellApplyAllFailed c lane_removed) s
           in (Inr (),
               case ch of
                 None \<Rightarrow> s
               | Some ch \<Rightarrow>
                   if change_is_pending ch
                   then effect (SettleSource \<lparr>settle_change = ch,
                          settle_snapshot =
                            (case rd_branch_head R (ch_repo ch) (ch_branch ch) of None \<Rightarrow> [] | Some h \<Rightarrow> h),
                          settle_landed = False\<rparr>) s
                   else s)))"

definition end_from_outside :: "lane_reads \<Rightarrow> uuid \<Rightarrow> string \<Rightarrow> lane_actor \<Rightarrow> lane_driver \<Rightarrow> lane_driver" where
  "end_from_outside R b reason actor s =
     (case resolving_batch_of b (dr_lane s) of
        None \<Rightarrow> s
      | Some batch \<Rightarrow>
          (let s = fail_batch R b reason actor False s
           in if rd_running R then effect (InterruptLaneThread (lane_thread_id batch) actor) s else s))"

definition cancel_resolving :: "lane_reads \<Rightarrow> uuid \<Rightarrow> lane_actor \<Rightarrow> lane_driver \<Rightarrow> (string + unit) \<times> lane_driver" where
  "cancel_resolving R b actor s =
     (if resolving_batch_of b (dr_lane s) = None then (Inl ''No lane batch with that id is resolving.'', s)
      else (Inr (), end_from_outside R b lane_canceled actor s))"

definition cancel_members :: "lane_reads \<Rightarrow> uuid list \<Rightarrow> lane_actor \<Rightarrow> lane_driver \<Rightarrow> uuid list \<times> lane_driver" where
  "cancel_members R cs actor s =
     (let h = held_of (dr_lane s) cs;
          s = foldl (\<lambda>s c. snd (remove_change R c actor s)) s (hold_waiting h);
          s = (case hold_batch h of None \<Rightarrow> s | Some b \<Rightarrow> snd (cancel_resolving R b actor s))
      in (hold_members h, s))"

section \<open>The restart\<close>

definition closed_lanes_opened_here :: "uuid list \<Rightarrow> uuid set \<Rightarrow> uuid option \<Rightarrow> uuid list" where
  "closed_lanes_opened_here listed opened open_id = filter (\<lambda>b. b \<in> opened \<and> Some b \<noteq> open_id) listed"

definition remove_closed_lane_worktrees :: "lane_reads \<Rightarrow> uuid set \<Rightarrow> lane_driver \<Rightarrow> lane_driver" where
  "remove_closed_lane_worktrees R opened s =
     (case rd_lanes R of
        Inl e \<Rightarrow> s
      | Inr listed \<Rightarrow>
          foldl (\<lambda>s b. effect (RetireLaneWorktree b) s) s
            (closed_lanes_opened_here listed opened (map_option batch_id (resolving (dr_lane s)))))"

fun heal_members ::
  "lane_reads \<Rightarrow> lane_member list \<Rightarrow> lane_driver \<Rightarrow> (lane_change \<times> string) list \<times> lane_driver" where
  "heal_members R [] s = ([], s)"
| "heal_members R (m # ms) s =
     (case find_landing_merge (rd_git R) (snapshot_sha m) of
        Inr (Some merge) \<Rightarrow>
          (case unhold_member (change_id m) s of
             (None, s) \<Rightarrow> heal_members R ms s
           | (Some pm, s) \<Rightarrow>
               (let (settled, s) = land_member R pm merge s; (rest, s) = heal_members R ms s
                in (settled # rest, s)))
      | _ \<Rightarrow> heal_members R ms s)"

definition heal_landed_members ::
  "lane_reads \<Rightarrow> resolving_batch \<Rightarrow> lane_driver \<Rightarrow> (lane_change \<times> string) list \<times> lane_driver" where
  "heal_landed_members R batch s = heal_members R (unlanded batch) s"

fun heal_waiting :: "lane_reads \<Rightarrow> lane_member list \<Rightarrow> lane_driver \<Rightarrow> lane_driver" where
  "heal_waiting R [] s = s"
| "heal_waiting R (m # ms) s =
     (case find_landing_merge (rd_git R) (snapshot_sha m) of
        Inr (Some merge) \<Rightarrow>
          (case take_claim False (change_id m) s of
             (None, s) \<Rightarrow> heal_waiting R ms s
           | (Some k, s) \<Rightarrow>
               (case rd_row R (change_id m) of
                  Inr (Some ch) \<Rightarrow>
                    (let s = set_lane (snd (unqueue (change_id m) (dr_lane s))) s
                     in if change_is_pending ch
                        then (let pm = \<lparr>pm_member = m, pm_change = ch, pm_claim = k, pm_actor = None\<rparr>;
                                  (r, s) = announce_landing (pr_commits (rd_pass R)) pm (Some merge) s
                              in heal_waiting R ms (effect (SettleSource \<lparr>settle_change = ch,
                                   settle_snapshot = snapshot_sha m, settle_landed = True\<rparr>) s))
                        else heal_waiting R ms
                               (do_claim_op (DropClaim k) (effect (DroppedQuietly (change_id m)) s)))
                | _ \<Rightarrow> heal_waiting R ms (do_claim_op (DropClaim k) s)))
      | _ \<Rightarrow> heal_waiting R ms s)"

definition heal_landed_waiting :: "lane_reads \<Rightarrow> lane_driver \<Rightarrow> lane_driver" where
  "heal_landed_waiting R s = heal_waiting R (waiting (dr_lane s)) s"

definition restore_batch :: "lane_reads \<Rightarrow> resolving_batch \<Rightarrow> lane_driver \<Rightarrow> lane_driver" where
  "restore_batch R batch s =
     (let b = batch_id batch
      in case hold_batch_members R batch s of
           (Inl reason, s) \<Rightarrow> fail_batch R b reason None False s
         | (Inr _, s) \<Rightarrow>
     (let (healed, s) = heal_landed_members R batch s
      in case resolving_batch_of b (dr_lane s) of
           None \<Rightarrow> s
         | Some batch \<Rightarrow>
             if all_landed batch
             then close_landed R batch
                    (case rd_main_before R of None \<Rightarrow> base_sha batch | Some pre \<Rightarrow> pre)
                    (case rd_main R of None \<Rightarrow> [] | Some post \<Rightarrow> post) False healed s
             else case rd_thread_state R of
                    Inl e \<Rightarrow> s
                  | Inr st \<Rightarrow>
                      (case batch_recovery st of
                         OpenLaneThread \<Rightarrow> open_lane_thread batch s
                       | Land \<Rightarrow> land_when_free b (lane_thread_id batch) (s\<lparr>dr_landing := Some b\<rparr>)
                       | AwaitLaneThread \<Rightarrow> s
                       | Fail \<Rightarrow> fail_batch R b lane_thread_closed None False s)))"

definition restore_driver :: "lane_reads \<Rightarrow> lane_restore \<Rightarrow> lane_driver \<Rightarrow> lane_driver" where
  "restore_driver R r s =
     (let s = set_lane (restore_lane r) s;
          s = drop_members (map snd (dr_held s)) (s\<lparr>dr_held := []\<rparr>);
          s = remove_closed_lane_worktrees R (opened_here r) s;
          s = unqueue_failed_members R batch_failed_before_restart (restore_stranded r) s;
          s = heal_landed_waiting R s;
          s = (case resolving (dr_lane s) of None \<Rightarrow> s | Some batch \<Rightarrow> restore_batch R batch s)
      in run_waiting (rd_pass_again R) s)"

section \<open>Settling a source thread\<close>

text \<open>What becomes of the source thread of a change the lane is done with, outside the lane's task: the branch is read
  first, and again under the thread's hold.\<close>

record settle_reads =
  sr_head :: "sha option"
  sr_in_flight :: bool
  sr_finished :: bool
  sr_worktree_found :: bool
  sr_hold :: "string + bool"
  sr_head_held :: "sha option"

datatype settle_action = DiscardOrphanedSiblings uuid uuid | ResetWorktreeToMain | RedecideBranchWork uuid string bool

definition reset_landed_worktree :: "settle_reads \<Rightarrow> sha \<Rightarrow> settle_action list" where
  "reset_landed_worktree e snapshot =
     (if \<not> sr_worktree_found e then []
      else case sr_hold e of
             Inr True \<Rightarrow> if sr_head_held e \<noteq> Some snapshot then [] else [ResetWorktreeToMain]
           | _ \<Rightarrow> [])"

definition settle_source_after_lane :: "settle_reads \<Rightarrow> source_settle \<Rightarrow> settle_action list" where
  "settle_source_after_lane e x =
     (case ch_thread (settle_change x) of
        None \<Rightarrow> []
      | Some t \<Rightarrow>
          (if settle_landed x then [DiscardOrphanedSiblings t (ch_id (settle_change x))] else []) @
          (if settle_landed x \<and> sr_head e = Some (settle_snapshot x)
           then reset_landed_worktree e (settle_snapshot x)
           else if sr_in_flight e then []
           else [RedecideBranchWork t (ch_branch (settle_change x)) (sr_finished e)]))"

lemma a_moved_branch_is_never_reset:
  "ResetWorktreeToMain \<in> set (settle_source_after_lane e x) \<longleftrightarrow>
     ch_thread (settle_change x) \<noteq> None \<and> settle_landed x \<and> sr_head e = Some (settle_snapshot x) \<and>
     sr_worktree_found e \<and> sr_hold e = Inr True \<and> sr_head_held e = Some (settle_snapshot x)"
  by (cases "ch_thread (settle_change x)"; cases "sr_hold e")
    (auto simp: settle_source_after_lane_def reset_landed_worktree_def split: bool.split)

section \<open>Messages\<close>

definition reply :: "lane_reply \<Rightarrow> lane_driver \<Rightarrow> lane_driver" where
  "reply r s = effect (SendReply r) s"

fun handle_msg :: "lane_reads \<Rightarrow> lane_msg \<Rightarrow> lane_driver \<Rightarrow> lane_driver" where
  "handle_msg R (MsgSubmit sub) s =
     (let (answer, s) = submit_change (rd_pass R) sub s in reply (ReplySubmit answer) s)"
| "handle_msg R (MsgThreadEnded b t ended) s = thread_ended R b t ended s"
| "handle_msg R (MsgLand b) s = land_batch R b s"
| "handle_msg R (MsgCancel b actor) s =
     (let (answer, s) = cancel_resolving R b actor s in reply (ReplyCancel answer) s)"
| "handle_msg R (MsgThreadClosed t actor) s =
     (case batch_of_lane_thread t (dr_lane s) of
        None \<Rightarrow> s | Some b \<Rightarrow> end_from_outside R b lane_thread_closed actor s)"
| "handle_msg R (MsgWithdrawn c reason) s = snd (withdraw R c reason None s)"
| "handle_msg R (MsgClaimReleased c) s = run_waiting (rd_pass R) s"
| "handle_msg R MsgOriginAnswered s = retry_origin (rd_pass R) s"
| "handle_msg R (MsgRemove c actor) s =
     (let (answer, s) = remove_change R c actor s in reply (ReplyRemove answer) s)"
| "handle_msg R (MsgCancelMembers cs actor) s =
     (let (ids, s) = cancel_members R cs actor s in reply (ReplyCancelMembers ids) s)"
| "handle_msg R (MsgPressOpened p) s =
     (let s = set_lane (open_press p (dr_lane s)) s
      in if waiting (dr_lane s) = [] then s else announce_lane s)"
| "handle_msg R (MsgPressSubmitted p) s =
     (let (free, l) = submit_press p (dr_lane s); s = set_lane l s
      in if free then run_waiting (rd_pass R) s else s)"
| "handle_msg R (MsgRestored r) s = restore_driver R r s"

definition handle_lane_msg :: "lane_reads \<Rightarrow> lane_msg \<Rightarrow> lane_driver \<Rightarrow> lane_driver" where
  "handle_lane_msg R msg s = publish_lane (handle_msg R msg s)"

text \<open>The task's loop: what the gate lets through, one message after the other.\<close>

definition is_lane_restore :: "lane_msg \<Rightarrow> bool" where
  "is_lane_restore msg = (case msg of MsgRestored r \<Rightarrow> True | _ \<Rightarrow> False)"

definition lane_receive ::
  "(lane_reads \<times> lane_msg) \<Rightarrow> (lane_reads \<times> lane_msg) gate \<times> lane_driver \<Rightarrow>
     (lane_reads \<times> lane_msg) gate \<times> lane_driver" where
  "lane_receive msg st =
     (let (now, gate) = admit msg (is_lane_restore (snd msg)) (fst st)
      in (gate, foldl (\<lambda>s (R, m). handle_lane_msg R m s) (snd st) now))"

text \<open>What \<open>recover_landing_lane\<close> sends: the fold of the stored records, or an empty lane when they cannot be read.\<close>

definition recovered_lane :: "string + lane_record list \<times> (uuid \<Rightarrow> bool) \<Rightarrow> lane_restore" where
  "recovered_lane read =
     (let empty_lane = \<lparr>restore_lane = lane_default, opened_here = {}, restore_stranded = []\<rparr>
      in case read of
           Inl e \<Rightarrow> empty_lane
         | Inr (records, is_pending) \<Rightarrow>
             if records = [] then empty_lane else lane_restore_of records is_pending)"

end
