(* ===== verification/Lane_Driver_Log.thy ===== *)
theory Lane_Driver_Log
  imports Lane_Driver_State Lane_Properties
begin

text \<open>
  The lane against its stored events: while a driver works, folding the events it stored gives back the open batch,
  the waiting changes and those it has in hand, up to the changes that left without an event.
\<close>

definition log_lane :: "lane_effect list \<Rightarrow> lane" where
  "log_lane es = foldl fold_record lane_default (lane_records es)"

definition dropped :: "lane_effect list \<Rightarrow> uuid set" where
  "dropped es = {c. DroppedQuietly c \<in> set es}"

definition lane_inv :: "lane \<Rightarrow> lane_effect list \<Rightarrow> lane_member set \<Rightarrow> bool" where
  "lane_inv l es S \<longleftrightarrow>
     lane_ok l \<and> inj_on change_id S \<and> change_id ` S \<inter> held_ids l = {} \<and> list_all record_ok (lane_records es) \<and>
     resolving (log_lane es) = resolving l \<and> set (waiting l) \<union> S \<subseteq> set (waiting (log_lane es)) \<and>
     (\<forall>m \<in> set (waiting (log_lane es)). m \<in> set (waiting l) \<union> S \<or> change_id m \<in> dropped es)"

lemma lane_records_snoc [simp]:
  "lane_records (es @ [e]) = lane_records es @ (case effect_record e of None \<Rightarrow> [] | Some r \<Rightarrow> [r])"
  by (simp add: lane_records_def map_filter_def split: option.split)

lemma lane_records_append: "lane_records (xs @ ys) = lane_records xs @ lane_records ys"
  by (simp add: lane_records_def map_filter_def)

lemma log_lane_snoc:
  "log_lane (es @ [e]) = (case effect_record e of None \<Rightarrow> log_lane es | Some r \<Rightarrow> fold_record (log_lane es) r)"
  by (simp add: log_lane_def split: option.split)

lemma dropped_snoc [simp]:
  "dropped (es @ [e]) = (case e of DroppedQuietly c \<Rightarrow> insert c (dropped es) | _ \<Rightarrow> dropped es)"
  by (auto simp: dropped_def split: lane_effect.split)

lemma dropped_record: "effect_record e = Some r \<Longrightarrow> dropped (es @ [e]) = dropped es"
  by (cases e) simp_all

lemma log_lane_ok: "list_all record_ok (lane_records es) \<Longrightarrow> lane_ok (log_lane es)"
  by (simp add: log_lane_def foldl_records_ok)

lemma lane_inv_ok: "lane_inv l es S \<Longrightarrow> lane_ok l"
  by (simp add: lane_inv_def)

lemma mark_landed_other: "c \<notin> member_ids (unlanded b) \<Longrightarrow> mark_landed c b = b"
  by (auto simp: mark_landed_def unlanded_def)

lemma landed_other: "c \<notin> resolving_ids l \<Longrightarrow> map_option (mark_landed c) (resolving l) = resolving l"
  by (cases "resolving l") (simp_all add: resolving_ids_def mark_landed_other)

section \<open>Effects that store no lane event\<close>

lemma lane_inv_quiet:
  assumes "effect_record e = None" "\<And>c. e \<noteq> DroppedQuietly c"
  shows "lane_inv l (es @ [e]) S = lane_inv l es S"
proof -
  have "dropped (es @ [e]) = dropped es" using assms(2) by (auto simp: dropped_def)
  with assms(1) show ?thesis by (simp add: lane_inv_def log_lane_snoc del: dropped_snoc)
qed

lemma lane_inv_dropped:
  assumes "lane_inv l es S"
  shows "lane_inv l (es @ [DroppedQuietly c]) {m \<in> S. change_id m \<noteq> c}"
  using assms by (auto simp: lane_inv_def log_lane_snoc inj_on_def)

lemma lane_inv_presses: "lane_inv (l\<lparr>presses := P\<rparr>) es S = lane_inv l es S"
  by (simp add: lane_inv_def held_presses)

section \<open>Changes of the queue\<close>

lemma lane_inv_wait:
  assumes "lane_inv l es S" "m \<in> S"
  shows "lane_inv (wait m l) es (S - {m})"
proof -
  have fresh: "change_id m \<notin> held_ids l" using assms by (auto simp: lane_inv_def)
  have held: "held_ids (wait m l) = insert (change_id m) (held_ids l)"
    using fresh by (auto simp: held_ids_def resolving_ids_def lane_simps)
  have "change_id ` (S - {m}) \<inter> held_ids (wait m l) = {}"
    using assms held by (auto simp: lane_inv_def inj_on_def)
  then show ?thesis using assms fresh by (auto simp: lane_inv_def lane_simps intro: inj_on_diff)
qed

lemma lane_inv_take:
  assumes "lane_inv l es S" "lane_ok l'" "resolving l' = resolving l"
    and "set (waiting l) = set (waiting l') \<union> set taken" "member_ids (waiting l') \<inter> member_ids taken = {}"
  shows "lane_inv l' es (S \<union> set taken)"
proof -
  have held: "held_ids l = held_ids l' \<union> member_ids taken"
    using assms(3,4) by (auto simp: held_ids_def resolving_ids_def)
  have inj: "inj_on change_id (set (waiting l))"
    using lane_ok_distinct [OF lane_inv_ok [OF assms(1)]] by (simp add: distinct_map)
  have apart: "change_id ` S \<inter> (held_ids l' \<union> member_ids taken) = {}" using assms(1) held by (simp add: lane_inv_def)
  have "inj_on change_id (S \<union> set taken)"
    using assms(1) inj assms(4) apart by (auto simp: lane_inv_def inj_on_Un inj_on_def)
  moreover have "member_ids taken \<inter> held_ids l' = {}"
    using lane_ok_disjoint [OF lane_inv_ok [OF assms(1)]] assms(3-5) by (auto simp: held_ids_def resolving_ids_def)
  then have "change_id ` (S \<union> set taken) \<inter> held_ids l' = {}" using apart by (simp add: image_Un) blast
  ultimately show ?thesis using assms by (auto simp: lane_inv_def)
qed

lemma lane_inv_take_pass:
  assumes "lane_inv l es S"
  shows "lane_inv (snd (take_pass l)) es (S \<union> set (fst (take_pass l)))"
  using assms
  by (intro lane_inv_take [OF assms]) (auto simp: lane_simps lane_inv_def)

lemma lane_inv_take_members:
  assumes "lane_inv l es S"
  shows "lane_inv (snd (take_members ids l)) es (S \<union> set (fst (take_members ids l)))"
  using assms
  by (intro lane_inv_take [OF assms]) (auto simp: lane_simps lane_inv_def)

text \<open>A waiting change leaves the queue with an event of its own, or without one.\<close>

lemma lane_inv_unqueue:
  assumes "lane_inv l es S" "c \<notin> change_id ` S"
    and "effect_record e = Some (Unqueued c) \<or> effect_record e = Some (Applied c) \<and> c \<in> member_ids (waiting l) \<or>
      e = DroppedQuietly c"
  shows "lane_inv (snd (unqueue c l)) (es @ [e]) S"
proof -
  have ok: "lane_ok l" by (rule lane_inv_ok [OF assms(1)])
  have F: "resolving (log_lane es) = resolving l" using assms(1) by (simp add: lane_inv_def)
  have apart: "change_id ` S \<inter> held_ids (snd (unqueue c l)) = {}"
    using assms(1) held_unqueue [of c l] by (simp add: lane_inv_def) blast
  have neq: "change_id m \<noteq> c" if "m \<in> S" for m using assms(2) that by auto
  have res: "map_option (mark_landed c) (resolving l) = resolving l" if "c \<in> member_ids (waiting l)"
    using lane_ok_disjoint [OF ok] that by (intro landed_other) auto
  show ?thesis
    using assms(3)
  proof (elim disjE conjE)
    assume "effect_record e = Some (Unqueued c)"
    then show ?thesis
      using assms(1) neq apart ok F
      by (auto simp: lane_inv_def log_lane_snoc lane_simps dropped_record simp del: dropped_snoc)
  next
    assume "effect_record e = Some (Applied c)" "c \<in> member_ids (waiting l)"
    then show ?thesis
      using assms(1) neq apart ok F res
      by (auto simp: lane_inv_def log_lane_snoc lane_simps dropped_record simp del: dropped_snoc)
  next
    assume "e = DroppedQuietly c"
    then show ?thesis
      using assms(1) neq apart ok by (auto simp: lane_inv_def log_lane_snoc lane_simps)
  qed
qed

text \<open>What is in hand leaves the lane with its event.\<close>

lemma lane_inv_leave:
  assumes "lane_inv l es S" "c \<notin> member_ids (waiting l)"
    and "effect_record e = Some (Unqueued c) \<or> effect_record e = Some (Applied c) \<and> c \<notin> resolving_ids l"
  shows "lane_inv l (es @ [e]) {m \<in> S. change_id m \<noteq> c}"
  using assms(3)
proof (elim disjE conjE)
  assume "effect_record e = Some (Unqueued c)"
  then show ?thesis
    using assms(1,2)
    by (auto simp: lane_inv_def log_lane_snoc lane_simps dropped_record inj_on_def simp del: dropped_snoc)
next
  assume "effect_record e = Some (Applied c)" "c \<notin> resolving_ids l"
  then show ?thesis
    using assms(1,2) landed_other [of c l]
    by (auto simp: lane_inv_def log_lane_snoc lane_simps dropped_record inj_on_def simp del: dropped_snoc)
qed

lemma lane_inv_queued:
  assumes "lane_inv l es S" "change_id m \<notin> held_ids l" "change_id m \<notin> change_id ` S" "change_id m \<notin> dropped es"
  shows "lane_inv l (es @ [EmitQueued t m a]) (insert m S)"
proof -
  have "held_ids (log_lane es) \<subseteq> held_ids l \<union> change_id ` S \<union> dropped es"
    using assms(1) by (auto simp: lane_inv_def held_ids_def resolving_ids_def)
  then have "change_id m \<notin> held_ids (log_lane es)" using assms(2-4) by blast
  moreover have "inj_on change_id (insert m S)" using assms(1,3) by (auto simp: lane_inv_def)
  ultimately show ?thesis using assms by (auto simp: lane_inv_def log_lane_snoc lane_simps)
qed

section \<open>Changes of the batch\<close>

lemma lane_inv_landed:
  assumes "lane_inv l es S" "c \<notin> change_id ` S" "effect_record e = Some (Applied c)"
  shows "lane_inv (landed c l) (es @ [e]) S"
proof -
  have "change_id ` S \<inter> held_ids (landed c l) = {}"
    using assms(1) held_landed [of c l] by (simp add: lane_inv_def) blast
  then show ?thesis
    using assms by (auto simp: lane_inv_def log_lane_snoc lane_simps dropped_record simp del: dropped_snoc)
qed

lemma lane_inv_end_batch:
  assumes "lane_inv l es S" "effect_record e = Some (BatchEnded b)"
  shows "lane_inv (snd (end_batch b l)) (es @ [e]) S"
proof -
  have "change_id ` S \<inter> held_ids (snd (end_batch b l)) = {}"
    using assms(1) held_end_batch [of b l] by (simp add: lane_inv_def) blast
  moreover have "resolving_batch_of b (log_lane es) = resolving_batch_of b l"
    using assms(1) by (simp add: lane_inv_def resolving_batch_of_def)
  ultimately show ?thesis
    using assms by (auto simp: lane_inv_def log_lane_snoc lane_simps dropped_record simp del: dropped_snoc)
qed

lemma set_aside_records:
  assumes "lane_inv l es (set ms)" "distinct (map change_id ms)"
  shows "fst (set_aside b base t ms l) = None \<Longrightarrow> lane_inv (snd (set_aside b base t ms l)) es {}"
    and "fst (set_aside b base t ms l) = Some batch \<Longrightarrow>
      lane_inv (snd (set_aside b base t ms l)) (es @ [EmitBatchStarted b ms base t]) {}"
proof -
  have take: "takeable l ms" using assms by (auto simp: takeable_def lane_inv_def)
  note ok = lane_ok_set_aside [OF lane_inv_ok [OF assms(1)] take, of b base t]
  show "lane_inv (snd (set_aside b base t ms l)) es {}" if "fst (set_aside b base t ms l) = None"
    using that assms ok by (auto simp: lane_inv_def lane_simps split: if_splits)
  have "set (filter (\<lambda>w. change_id w \<notin> member_ids ms) (waiting l)) = set (waiting l)"
    using assms(1) by (auto simp: lane_inv_def held_ids_def)
  then show "lane_inv (snd (set_aside b base t ms l)) (es @ [EmitBatchStarted b ms base t]) {}"
    if "fst (set_aside b base t ms l) = Some batch"
    using that assms ok
    by (auto simp: lane_inv_def lane_simps log_lane_snoc split: if_splits)
qed

end
