(* ===== verification/Lane_Driver_Claims.thy ===== *)
theory Lane_Driver_Claims
  imports Lane_Driver_State
begin

text \<open>
  The claims a driver holds: each member in hand and each member of the open batch is held under a claim that is
  live, is its change's holder and is not handed off, so every other apply of the change is refused. And what the lane
  is told: a change it was refused is marked for it until the release arrives.
\<close>

section \<open>Owned claims\<close>

definition owns :: "claim_state \<Rightarrow> apply_claim \<Rightarrow> bool" where
  "owns st k \<longleftrightarrow> k \<in> set (st_live st) \<and>
     (\<exists>h. hm_get (held (st_claims st)) (claimed_change k) = Some h \<and> generation h = claim_generation k \<and>
        handed_off_flag h = None)"

fun spares :: "claim_op \<Rightarrow> apply_claim \<Rightarrow> bool" where
  "spares (DropClaim k') k \<longleftrightarrow> k' \<noteq> k"
| "spares (Carry k' f) k \<longleftrightarrow> k' \<noteq> k"
| "spares opn k \<longleftrightarrow> True"

lemma owned_claim_refuses:
  "owns st k \<Longrightarrow> claimed_change k = c \<Longrightarrow> fst (claim (st_flags st) c l (st_claims st)) = None"
  by (auto simp: owns_def claim_def handed_off_def)

lemma owns_claim:
  assumes "owns st k"
  shows "owns (st\<lparr>st_claims := snd (claim (st_flags st) c l (st_claims st)),
    st_live := keep (fst (claim (st_flags st) c l (st_claims st))) (st_live st)\<rparr>) k"
proof (cases "c = claimed_change k")
  case True
  then show ?thesis using assms by (auto simp: owns_def claim_def handed_off_def keep_def)
next
  case False
  then show ?thesis
    using assms by (auto simp: owns_def claim_def grant_def keep_def Let_def split: option.split)
qed

lemma drop_other_change:
  assumes "claimed_change k \<noteq> claimed_change k' \<or> claim_generation k \<noteq> claim_generation k'" "owns st k"
  shows "hm_get (held (snd (drop_claim k' (st_claims st)))) (claimed_change k) =
    hm_get (held (st_claims st)) (claimed_change k)"
  using assms by (auto simp: owns_def drop_claim_def split: option.split)

lemma owns_drop:
  assumes "claims_ok st" "owns st k" "k' \<in> set (st_live st)" "k' \<noteq> k"
  shows "owns (st\<lparr>st_claims := snd (drop_claim k' (st_claims st)), st_live := remove1 k' (st_live st)\<rparr>) k"
proof -
  have "claim_generation k \<noteq> claim_generation k'"
    using claims_inv_live [OF assms(1), of k k'] assms(2-4) by (auto simp: owns_def)
  with drop_other_change [of k k' st] assms show ?thesis by (auto simp: owns_def in_set_remove1)
qed

lemma owns_pending:
  assumes "claims_ok st" "owns st k" "claim_pending_change (st_flags st) c read (st_claims st) = (answer, released, cs)"
  shows "owns (st\<lparr>st_claims := cs, st_live := keep (case answer of Inl _ \<Rightarrow> None | Inr k \<Rightarrow> k) (st_live st)\<rparr>) k"
proof (cases "claim (st_flags st) c False (st_claims st)")
  case (Pair got cs1)
  define st1 where "st1 = st\<lparr>st_claims := cs1, st_live := keep got (st_live st)\<rparr>"
  have own1: "owns st1 k" using owns_claim [OF assms(2), of c False] Pair by (simp add: st1_def)
  show ?thesis
  proof (cases got)
    case None
    then show ?thesis
      using assms(3) own1 Pair by (auto simp: claim_pending_change_def try_claim_def st1_def keep_def)
  next
    case (Some k')
    have ok1: "claims_ok st1"
      using claims_inv_claim [OF assms(1), of "st_flags st" c False] Pair by (simp add: st1_def)
    have k': "k' \<in> set (st_live st1)" "claimed_change k' = c"
      using Pair Some by (auto simp: st1_def keep_def claim_def grant_def Let_def split: option.splits if_splits)
    have "k' \<noteq> k"
    proof
      assume "k' = k"
      with owned_claim_refuses [OF assms(2), of c False] k'(2) Pair Some show False by simp
    qed
    have fresh: "k' \<notin> set (st_live st)"
      using Pair Some assms(1)
      by (auto simp: claim_def grant_def Let_def claims_inv_def split: option.splits if_splits)
    have dropped: "owns (st1\<lparr>st_claims := snd (drop_claim k' cs1), st_live := st_live st\<rparr>) k"
      using owns_drop [OF ok1 own1 k'(1) \<open>k' \<noteq> k\<close>] fresh Some by (simp add: st1_def keep_def remove1_append)
    show ?thesis
    proof (cases "read = Inr (Some True)")
      case True
      then show ?thesis
        using assms(3) own1 Pair Some by (auto simp: claim_pending_change_def try_claim_def st1_def keep_def)
    next
      case False
      then have "claim_pending_change (st_flags st) c read (st_claims st) =
          (case read of Inl e \<Rightarrow> Inl e | Inr _ \<Rightarrow> Inr None, drop_claim k' cs1)"
        using Pair Some by (auto simp: claim_pending_change_def try_claim_def split: sum.splits option.splits bool.splits)
      then show ?thesis
        using assms(3) dropped by (cases "drop_claim k' cs1") (auto simp: st1_def keep_def split: sum.splits)
    qed
  qed
qed

lemma owns_step:
  assumes "claims_ok st" "owns st k" "spares opn k"
  shows "owns (snd (claim_step st opn)) k"
proof (cases opn)
  case (Claim c)
  then show ?thesis using owns_claim [OF assms(2), of c False] by (simp add: try_claim_def split_def Let_def)
next
  case (ClaimForLane c)
  then show ?thesis using owns_claim [OF assms(2), of c True] by (simp add: try_claim_for_lane_def split_def Let_def)
next
  case (ClaimPending c read)
  then show ?thesis
    using owns_pending [OF assms(1,2), of c read]
    by (cases "claim_pending_change (st_flags st) c read (st_claims st)") simp
next
  case (Carry k' f)
  then show ?thesis
  proof (cases "k' \<in> set (st_live st)")
    case True
    with Carry assms have "claim_generation k \<noteq> claim_generation k'"
      using claims_inv_live [OF assms(1), of k k'] by (auto simp: owns_def)
    with Carry assms True show ?thesis by (auto simp: owns_def carried_by_session_def split: option.splits)
  qed (use Carry assms in simp)
next
  case (DropClaim k')
  then show ?thesis
    using owns_drop [OF assms(1,2), of k'] assms by (simp add: split_def Let_def)
qed (use assms in \<open>auto simp: owns_def on_lane_wait_release_def\<close>)

lemma callback_step:
  "release_callback (st_claims st) \<Longrightarrow> release_callback (st_claims (snd (claim_step st opn)))"
  by (cases opn) (auto simp: claim_ops split: option.splits if_splits sum.splits bool.splits prod.splits)

lemma granted_owns:
  assumes "claim (st_flags st) c l (st_claims st) = (Some k, cs)"
  shows "claimed_change k = c \<and> owns (st\<lparr>st_claims := cs, st_live := st_live st @ [k]\<rparr>) k"
  using assms by (auto simp: claim_def grant_def owns_def Let_def split: option.splits if_splits)

section \<open>What a driver holds\<close>

definition holder_ok :: "pass_member \<Rightarrow> bool" where
  "holder_ok m \<longleftrightarrow> claimed_change (pm_claim m) = pm_id m"

definition held_members :: "lane_driver \<Rightarrow> pass_member set" where
  "held_members s = snd ` set (dr_held s)"

definition claims_held :: "lane_driver \<Rightarrow> pass_member set \<Rightarrow> bool" where
  "claims_held s H \<longleftrightarrow>
     claims_ok (dr_claims s) \<and> release_callback (st_claims (dr_claims s)) \<and>
     (\<forall>m \<in> H \<union> held_members s. holder_ok m \<and> owns (dr_claims s) (pm_claim m)) \<and>
     hm_ok (dr_held s) \<and> (\<forall>c m. hm_get (dr_held s) c = Some m \<longrightarrow> pm_id m = c) \<and>
     inj_on pm_id H \<and> pm_id ` H \<inter> hm_keys (dr_held s) = {}"

lemma held_memberI: "hm_get (dr_held s) c = Some m \<Longrightarrow> m \<in> held_members s"
  by (force simp: held_members_def dest: map_of_SomeD)

lemma held_member_iff: "hm_ok (dr_held s) \<Longrightarrow> m \<in> held_members s \<longleftrightarrow> (\<exists>c. hm_get (dr_held s) c = Some m)"
  by (force simp: held_members_def hm_ok_def map_of_eq_Some_iff)

text \<open>What a handler changes that no claim depends on.\<close>

lemma claims_held_cong:
  "dr_claims s' = dr_claims s \<Longrightarrow> dr_held s' = dr_held s \<Longrightarrow> claims_held s' H = claims_held s H"
  by (simp add: claims_held_def held_members_def)

lemma claims_held_mono: "claims_held s H \<Longrightarrow> H' \<subseteq> H \<Longrightarrow> claims_held s H'"
  unfolding claims_held_def by (fastforce intro: inj_on_subset)

lemma do_claim_op_sel [simp]:
  "dr_lane (do_claim_op opn s) = dr_lane s" "dr_effects (do_claim_op opn s) = dr_effects s"
  "dr_held (do_claim_op opn s) = dr_held s" "dr_landing (do_claim_op opn s) = dr_landing s"
  "dr_waiting_for_origin (do_claim_op opn s) = dr_waiting_for_origin s"
  "dr_batch_waiting (do_claim_op opn s) = dr_batch_waiting s" "dr_actors (do_claim_op opn s) = dr_actors s"
  "dr_origin_waiters (do_claim_op opn s) = dr_origin_waiters s"
  "dr_claims (do_claim_op opn s) = snd (claim_step (dr_claims s) opn)"
  by (simp_all add: do_claim_op_def split_def Let_def)

lemma claims_held_op:
  assumes "claims_held s H" "\<And>m. m \<in> H \<union> held_members s \<Longrightarrow> spares opn (pm_claim m)"
  shows "claims_held (do_claim_op opn s) H"
proof -
  have "held_members (do_claim_op opn s) = held_members s" by (simp add: held_members_def)
  with assms show ?thesis
    by (auto simp: claims_held_def intro: claims_ok_step owns_step callback_step)
qed

lemma take_claim_granted:
  assumes "claims_held s H" "take_claim l c s = (Some k, s')"
  shows "claimed_change k = c \<and> c \<notin> pm_id ` H \<and> c \<notin> hm_keys (dr_held s) \<and> owns (dr_claims s') k \<and> claims_held s' H"
proof -
  have got: "fst (claim (st_flags (dr_claims s)) c l (st_claims (dr_claims s))) = Some k"
    and s': "s' = do_claim_op (if l then ClaimForLane c else Claim c) s"
    using assms(2) by (auto simp: take_claim_def)
  obtain cs where cs: "claim (st_flags (dr_claims s)) c l (st_claims (dr_claims s)) = (Some k, cs)"
    using got by (cases "claim (st_flags (dr_claims s)) c l (st_claims (dr_claims s))") auto
  note k = granted_owns [OF cs]
  have "dr_claims s' = dr_claims s\<lparr>st_claims := cs, st_live := st_live (dr_claims s) @ [k]\<rparr>"
    using cs s' by (cases l) (simp_all add: try_claim_def try_claim_for_lane_def keep_def)
  with k have own: "owns (dr_claims s') k" by simp
  have none: "pm_id m \<noteq> c" if "m \<in> H \<union> held_members s" for m
    using owned_claim_refuses [of "dr_claims s" "pm_claim m" c l] assms(1) that got
    by (auto simp: claims_held_def holder_ok_def)
  have "c \<notin> hm_keys (dr_held s)"
  proof
    assume "c \<in> hm_keys (dr_held s)"
    then obtain m where m: "hm_get (dr_held s) c = Some m" using hm_get_None_iff [of "dr_held s" c] by auto
    with assms(1) have "pm_id m = c" by (simp add: claims_held_def)
    with none [of m] held_memberI [OF m] show False by simp
  qed
  moreover have "claims_held s' H"
    unfolding s' by (rule claims_held_op [OF assms(1)]) (simp split: if_splits)
  moreover have "c \<notin> pm_id ` H" using none by blast
  ultimately show ?thesis using k own by blast
qed

lemma take_claim_refused:
  assumes "claims_held s H" "take_claim l c s = (None, s')"
  shows "claims_held s' H"
proof -
  have "s' = do_claim_op (if l then ClaimForLane c else Claim c) s" using assms(2) by (auto simp: take_claim_def)
  then show ?thesis using claims_held_op [OF assms(1)] by auto
qed

lemma claims_held_insert:
  assumes "claims_held s H" "holder_ok m" "owns (dr_claims s) (pm_claim m)" "pm_id m \<notin> pm_id ` H"
    and "pm_id m \<notin> hm_keys (dr_held s)"
  shows "claims_held s (insert m H)"
  using assms by (auto simp: claims_held_def)

text \<open>A member lets its claim go: the others keep theirs.\<close>

lemma claims_held_drop:
  assumes "claims_held s H" "m \<in> H"
  shows "claims_held (drop_member m s) (H - {m})"
  unfolding drop_member_def
proof (rule claims_held_op)
  show "claims_held s (H - {m})" using assms(1) by (rule claims_held_mono) blast
  fix m' assume m': "m' \<in> (H - {m}) \<union> held_members s"
  have "pm_id m' \<noteq> pm_id m"
  proof (cases "m' \<in> H")
    case True
    with m' assms show ?thesis
      by (metis (no_types, lifting) DiffE Un_iff claims_held_def held_member_iff hm_get_None_iff inj_onD insertI1
          IntI empty_iff imageI option.distinct(1) singletonI)
  next
    case False
    with m' obtain c where "hm_get (dr_held s) c = Some m'" using assms(1) by (auto simp: claims_held_def held_member_iff)
    then have "pm_id m' \<in> hm_keys (dr_held s)"
      using assms(1) hm_get_None_iff [of "dr_held s" "pm_id m'"] by (auto simp: claims_held_def)
    with assms show ?thesis by (auto simp: claims_held_def)
  qed
  moreover have "holder_ok m" "holder_ok m'" using assms m' by (auto simp: claims_held_def)
  ultimately show "spares (DropClaim (pm_claim m)) (pm_claim m')" by (auto simp: holder_ok_def)
qed

lemma claims_held_drop_fresh:
  assumes "claims_held s H" "claimed_change k = c" "c \<notin> pm_id ` H" "c \<notin> hm_keys (dr_held s)"
  shows "claims_held (do_claim_op (DropClaim k) s) H"
proof (rule claims_held_op [OF assms(1)])
  fix m assume m: "m \<in> H \<union> held_members s"
  have "pm_id m \<noteq> c"
  proof (cases "m \<in> H")
    case False
    with m obtain d where "hm_get (dr_held s) d = Some m" using assms(1) by (auto simp: claims_held_def held_member_iff)
    then have "pm_id m \<in> hm_keys (dr_held s)"
      using assms(1) hm_get_None_iff [of "dr_held s" "pm_id m"] by (auto simp: claims_held_def)
    with assms(4) show ?thesis by auto
  qed (use assms(3) in auto)
  moreover have "holder_ok m" using assms(1) m by (auto simp: claims_held_def)
  ultimately show "spares (DropClaim k) (pm_claim m)" using assms(2) by (auto simp: holder_ok_def)
qed

lemma claims_held_hold:
  assumes "claims_held s H" "m \<in> H"
  shows "claims_held (hold_member m s) (H - {m})" "dr_held (hold_member m s) = dr_held s @ [(pm_id m, m)]"
    "dr_claims (hold_member m s) = dr_claims s"
proof -
  have fresh: "pm_id m \<notin> hm_keys (dr_held s)" using assms by (auto simp: claims_held_def)
  then have none: "hm_get (dr_held s) (pm_id m) = None" by (simp add: hm_get_None_iff)
  then show held: "dr_held (hold_member m s) = dr_held s @ [(pm_id m, m)]"
    and claims: "dr_claims (hold_member m s) = dr_claims s"
    using fresh by (simp_all add: hold_member_def hm_insert_fresh)
  have "held_members (hold_member m s) = insert m (held_members s)" by (simp add: held_members_def held)
  moreover have "hm_keys (dr_held (hold_member m s)) = insert (pm_id m) (hm_keys (dr_held s))"
    by (simp add: held hm_keys_def)
  moreover have "hm_ok (dr_held (hold_member m s))"
    using assms(1) fresh by (auto simp: held hm_ok_def claims_held_def hm_keys_def)
  ultimately show "claims_held (hold_member m s) (H - {m})"
    using assms fresh none claims held
    by (auto simp: claims_held_def inj_on_def map_add_def split: option.splits if_splits)
qed

lemma claims_held_unhold:
  assumes "claims_held s {}" "hm_get (dr_held s) c = Some m"
  shows "claims_held (snd (unhold_member c s)) {m}" "pm_id m = c" "holder_ok m"
proof -
  show pm: "pm_id m = c" and "holder_ok m"
    using assms held_memberI [OF assms(2)] by (auto simp: claims_held_def)
  have "held_members (snd (unhold_member c s)) \<subseteq> held_members s"
    by (auto simp: held_members_def unhold_member_def AList.delete_eq)
  moreover have "m \<in> held_members s" by (rule held_memberI [OF assms(2)])
  ultimately show "claims_held (snd (unhold_member c s)) {m}"
    using assms pm by (auto simp: claims_held_def unhold_member_def split: if_splits)
qed

section \<open>What the lane is told\<close>

definition told :: "lane_driver \<Rightarrow> uuid \<Rightarrow> bool" where
  "told s c \<longleftrightarrow> lane_waits (dr_claims s) c \<or> c \<in> set (dr_released s)"

lemma map_filter_mem: "x \<in> set (List.map_filter f xs) \<longleftrightarrow> (\<exists>y \<in> set xs. f y = Some x)"
  by (force simp: map_filter_def)

lemma lane_granted_only: "LaneGranted c \<in> set (fst (claim_step st opn)) \<Longrightarrow> opn = ClaimForLane c"
  by (cases opn) (auto simp: split_def Let_def split: option.splits if_splits)

lemma told_op:
  assumes "told s c" "opn \<noteq> ClaimForLane c"
  shows "told (do_claim_op opn s) c"
proof (cases "c \<in> set (dr_released s)")
  case True
  then show ?thesis by (simp add: told_def do_claim_op_def split_def Let_def)
next
  case False
  with assms(1) have "lane_waits (dr_claims s) c" by (simp add: told_def)
  from lane_waits_step [OF this, of opn] lane_granted_only [of c "dr_claims s" opn] assms(2)
  show ?thesis by (auto simp: told_def do_claim_op_def split_def Let_def map_filter_mem intro: rev_bexI)
qed

lemma told_refused:
  assumes "claims_held s H" "take_claim True c s = (None, s')"
  shows "told s' c"
proof -
  have "fst (claim (st_flags (dr_claims s)) c True (st_claims (dr_claims s))) = None"
    and "s' = do_claim_op (ClaimForLane c) s" using assms(2) by (auto simp: take_claim_def)
  then show ?thesis
    using assms(1)
    by (auto simp: told_def lane_waits_def claims_held_def claim_ops split: option.splits if_splits)
qed

end
