(* ===== verification/Lane_Landing_Properties.thy ===== *)
theory Lane_Landing_Properties
  imports Lane_Landing
begin

text \<open>
  What the lane's git passes guarantee: the base they build on, the chain they build, when it is published, and what
  the check of an integration branch says.
\<close>

section \<open>The base\<close>

definition holds_tip :: "base_reads \<Rightarrow> sha \<Rightarrow> sha \<Rightarrow> bool" where
  "holds_tip e older newer \<longleftrightarrow> older = newer \<or> read_ancestor e older newer = GitYes"

lemma compare_lines_answers:
  "compare_lines e a b = Inr True \<longleftrightarrow> read_ancestor e a b = GitYes"
  "compare_lines e a b = Inr False \<longleftrightarrow> read_ancestor e a b = GitNo"
  by (simp_all add: compare_lines_def split: git_answer.splits)

lemma landing_base_shape:
  assumes "landing_base_of e order = Inr b"
  shows "read_main_sha e = Some (base_local b) \<and> holds_tip e (base_local b) (base_on b) \<and>
    (case base_origin b of
       OriginAt tip \<Rightarrow> order = OriginFirst \<and> read_fetch e = Inr (Some tip) \<and> holds_tip e tip (base_on b) \<and>
         base_on b \<in> {base_local b, tip}
     | EmptyOrigin \<Rightarrow> order = OriginFirst \<and> read_fetch e = Inr None \<and> base_on b = base_local b
     | LocalOrigin \<Rightarrow> order = LocalFirst \<and> base_on b = base_local b
     | NoOrigin \<Rightarrow> read_remote e = GitNo \<and> base_on b = base_local b)"
  using assms
  by (auto simp: landing_base_of_def holds_tip_def compare_lines_def Let_def
      split: option.splits git_answer.splits landing_order.splits sum.splits bool.splits if_splits)

text \<open>C0. The base of a landing is never behind: it holds local \<open>main\<close>, and with an origin the lane fetches, it holds
  the tip of \<open>origin/main\<close> too. It is one of the two, so a pass never builds on a commit it made up.\<close>

theorem a_base_holds_both_mains:
  assumes "landing_base_of e order = Inr b"
  shows "read_main_sha e = Some (base_local b) \<and> holds_tip e (base_local b) (base_on b) \<and>
    (case base_origin b of
       OriginAt tip \<Rightarrow> order = OriginFirst \<and> read_fetch e = Inr (Some tip) \<and> holds_tip e tip (base_on b) \<and>
         base_on b \<in> {base_local b, tip}
     | EmptyOrigin \<Rightarrow> order = OriginFirst \<and> read_fetch e = Inr None \<and> base_on b = base_local b
     | LocalOrigin \<Rightarrow> order = LocalFirst \<and> base_on b = base_local b
     | NoOrigin \<Rightarrow> read_remote e = GitNo \<and> base_on b = base_local b)"
  by (rule landing_base_shape [OF assms])

definition forked :: base_reads where
  "forked = \<lparr>read_main_sha = Some ''aaaaaaaa1'', read_remote = GitYes, read_fetch = Inr (Some ''bbbbbbbb1''),
     read_ancestor = (\<lambda>x y. if x = ''aaaaaaaa1'' \<and> y = ''bbbbbbbb1'' then GitYes else GitNo)\<rparr>"

theorem a_base_holds_both_mains_witness:
  "base_on \<lparr>base_local = ''aaaaaaaa1'', base_on = ''bbbbbbbb1'', base_origin = OriginAt ''bbbbbbbb1''\<rparr> = ''bbbbbbbb1'' \<and>
   holds_tip forked ''aaaaaaaa1'' ''bbbbbbbb1''"
proof -
  have "landing_base_of forked OriginFirst =
      Inr \<lparr>base_local = ''aaaaaaaa1'', base_on = ''bbbbbbbb1'', base_origin = OriginAt ''bbbbbbbb1''\<rparr>"
    by (simp add: landing_base_of_def forked_def compare_lines_def)
  from a_base_holds_both_mains [OF this] show ?thesis by simp
qed

lemma diverged_lines_are_refused:
  assumes "read_main_sha e = Some here" "read_remote e = GitYes" "read_fetch e = Inr (Some there)" "here \<noteq> there"
    and "read_ancestor e here there = GitNo" "read_ancestor e there here = GitNo"
  shows "landing_base_of e OriginFirst = Inl (OriginRefusal (diverged here there))"
  using assms by (simp add: landing_base_of_def compare_lines_def)

section \<open>The chain\<close>

fun landed_merge :: "landing_step \<Rightarrow> landing_merge option" where
  "landed_merge (StepLanded m) = Some m"
| "landed_merge _ = None"

definition landed_merges :: "landing_chain \<Rightarrow> landing_merge list" where
  "landed_merges chain = List.map_filter (\<lambda>(c, step). landed_merge step) (chain_steps chain)"

definition landing_inputs :: "landing_input list \<Rightarrow> landing_chain \<Rightarrow> landing_input list" where
  "landing_inputs inputs chain =
     map fst (filter (\<lambda>(i, c, step). landed_merge step \<noteq> None) (zip inputs (chain_steps chain)))"

definition only_landings :: "landing_chain \<Rightarrow> landing_chain" where
  "only_landings chain = chain\<lparr>chain_steps := filter (\<lambda>(c, step). landed_merge step \<noteq> None) (chain_steps chain)\<rparr>"

lemma lands_anything_merges: "lands_anything chain \<longleftrightarrow> landed_merges chain \<noteq> []"
proof -
  have "list_ex (\<lambda>(c, step). case step of StepLanded m \<Rightarrow> True | _ \<Rightarrow> False) xs \<longleftrightarrow>
      List.map_filter (\<lambda>(c, step). landed_merge step) xs \<noteq> []" for xs :: "(uuid \<times> landing_step) list"
  proof (induction xs)
    case (Cons x xs)
    then show ?case by (cases x; cases "snd x") (auto simp: map_filter_simps)
  qed (simp add: map_filter_simps)
  then show ?thesis by (simp add: lands_anything_def landed_merges_def)
qed

lemma land_one_parent: "land_one git tip i = StepLanded m \<Longrightarrow> first_parent m = tip"
  by (auto simp: land_one_def Let_def split: git_answer.splits option.splits if_splits)

lemma chain_one_line:
  "map fst (chain_steps (chain_onto git tip inputs)) = map input_change inputs \<and>
   tip # map merge_sha (landed_merges (chain_onto git tip inputs)) =
   map first_parent (landed_merges (chain_onto git tip inputs)) @ [chain_tip (chain_onto git tip inputs)]"
proof (induction inputs arbitrary: tip)
  case Nil
  then show ?case by (simp add: landed_merges_def map_filter_simps)
next
  case (Cons i inputs)
  show ?case
    using Cons.IH [of tip] Cons.IH [of "case land_one git tip i of StepLanded m \<Rightarrow> merge_sha m | _ \<Rightarrow> tip"]
      land_one_parent [of git tip i]
    by (cases "land_one git tip i") (simp_all add: landed_merges_def map_filter_simps Let_def)
qed

lemma chain_without_the_rest:
  "chain_onto git tip (landing_inputs inputs (chain_onto git tip inputs)) = only_landings (chain_onto git tip inputs)"
proof (induction inputs arbitrary: tip)
  case Nil
  then show ?case by (simp add: landing_inputs_def only_landings_def)
next
  case (Cons i inputs)
  show ?case
    using Cons.IH [of tip] Cons.IH [of "case land_one git tip i of StepLanded m \<Rightarrow> merge_sha m | _ \<Rightarrow> tip"]
    by (cases "land_one git tip i") (simp_all add: landing_inputs_def only_landings_def Let_def)
qed

lemma no_landing_keeps_the_tip:
  assumes "\<not> lands_anything (chain_onto git tip inputs)"
  shows "chain_tip (chain_onto git tip inputs) = tip"
  using assms chain_one_line [of git tip inputs] by (simp add: lands_anything_merges)

text \<open>C0. The landing merges of a pass are one first-parent line from the base to the tip it publishes, with one step for
  each member in the order they were queued; and the members that land build the very same line on their own, so a
  member set aside (a conflict, a failing git command) or found on \<open>main\<close> already leaves nothing behind.\<close>

theorem a_pass_is_one_line:
  "let chain = chain_onto git tip inputs; merges = landed_merges chain in
     map fst (chain_steps chain) = map input_change inputs \<and>
     tip # map merge_sha merges = map first_parent merges @ [chain_tip chain] \<and>
     chain_onto git tip (landing_inputs inputs chain) = only_landings chain"
  using chain_one_line [of git tip inputs] chain_without_the_rest [of git tip inputs] by (simp add: Let_def)

section \<open>Publishing\<close>

definition rejected_at :: "attempt \<Rightarrow> landing_order \<Rightarrow> landing_input list \<Rightarrow> bool" where
  "rejected_at a order inputs \<longleftrightarrow>
     (\<exists>b e. landing_base_of (at_base a) order = Inr b \<and>
        needs_push (base_origin b) (chain_tip (chain_onto (at_git a) (base_on b) inputs)) \<and>
        at_push a (chain_tip (chain_onto (at_git a) (base_on b) inputs)) = PushRejected e)"

text \<open>\<open>origin\<close> has the tip: nothing to push, or the push went through.\<close>

definition origin_has :: "attempt \<Rightarrow> landing_base \<Rightarrow> sha \<Rightarrow> bool" where
  "origin_has a b tip \<longleftrightarrow> (needs_push (base_origin b) tip \<longrightarrow> at_push a tip = Pushed)"

lemma publish_loop_published:
  "publish_loop n rejected at order inputs = Inr (Published p) \<Longrightarrow>
     \<exists>k<n. (\<forall>i<k. rejected_at (at i) order inputs) \<and>
       (\<exists>b. landing_base_of (at_base (at k)) order = Inr b \<and> pub_base p = base_on b \<and>
         pub_chain p = chain_onto (at_git (at k)) (base_on b) inputs \<and>
         origin_has (at k) b (chain_tip (pub_chain p)) \<and>
         pub_failed p = move_local_main (at k) b (chain_tip (pub_chain p)))"
proof (induction n arbitrary: rejected at)
  case (Suc n)
  from Suc.prems obtain b where b: "landing_base_of (at_base (at 0)) order = Inr b"
    by (auto split: sum.splits base_refusal.splits)
  let ?chain = "chain_onto (at_git (at 0)) (base_on b) inputs"
  show ?case
  proof (cases "needs_push (base_origin b) (chain_tip ?chain) \<and> at_push (at 0) (chain_tip ?chain) \<noteq> Pushed")
    case False
    with Suc.prems b show ?thesis
      by (intro exI [of _ 0]) (auto simp: origin_has_def Let_def split: if_splits)
  next
    case True
    with Suc.prems b obtain e where e: "at_push (at 0) (chain_tip ?chain) = PushRejected e"
      by (auto simp: Let_def split: push_outcome.splits)
    then have first: "rejected_at (at 0) order inputs" using b True by (auto simp: rejected_at_def)
    from True b e Suc.prems have "publish_loop n e (\<lambda>i. at (Suc i)) order inputs = Inr (Published p)"
      by (simp add: Let_def)
    from Suc.IH [OF this] obtain k where "k < n"
      "\<forall>i<k. rejected_at (at (Suc i)) order inputs" and
      k: "\<exists>b. landing_base_of (at_base (at (Suc k))) order = Inr b \<and> pub_base p = base_on b \<and>
         pub_chain p = chain_onto (at_git (at (Suc k))) (base_on b) inputs \<and>
         origin_has (at (Suc k)) b (chain_tip (pub_chain p)) \<and>
         pub_failed p = move_local_main (at (Suc k)) b (chain_tip (pub_chain p))" by auto
    then have "\<forall>i<Suc k. rejected_at (at i) order inputs"
      using first by (auto simp: less_Suc_eq_0_disj)
    moreover have "Suc k < Suc n" using \<open>k < n\<close> by simp
    ultimately show ?thesis using k by blast
  qed
qed simp

lemma moved_aside:
  assumes "pub_failed p = move_local_main a b (chain_tip (pub_chain p))" "origin_first (base_origin b)"
  shows "pub_failed p = None"
  using assms by (auto simp: move_local_main_def split: sum.splits)


definition forked_attempt :: "(sha \<Rightarrow> push_outcome) \<Rightarrow> attempt" where
  "forked_attempt push = \<lparr>at_base = forked,
     at_git = \<lparr>git_is_ancestor = (\<lambda>x y. GitNo), git_merge_tree = (\<lambda>x y. Some ''tree''),
       git_commit_tree = (\<lambda>t p i. Some (''m'' @ input_snapshot i)), git_first_parents = Inr []\<rparr>,
     at_push = push, at_move = Inr (), at_main = None\<rparr>"

definition one_input :: landing_input where
  "one_input = \<lparr>input_change = 1, input_snapshot = ''s'', input_subject = ''Land: x'', input_body = []\<rparr>"

definition second_push :: "nat \<Rightarrow> attempt" where
  "second_push n = forked_attempt (\<lambda>tip. if n = 0 then PushRejected ''behind'' else Pushed)"


lemma publish_loop_moved:
  "\<forall>i<n. rejected_at (at i) order inputs \<Longrightarrow> 0 < n \<Longrightarrow>
     \<exists>e. publish_loop n rejected at order inputs = Inr (PassWaiting (kept_moving e))"
proof (induction n arbitrary: rejected at)
  case (Suc n)
  have "rejected_at (at 0) order inputs" using Suc.prems(1) by simp
  then obtain e where step: "publish_loop (Suc n) rejected at order inputs =
      publish_loop n e (\<lambda>i. at (Suc i)) order inputs"
    by (auto simp: rejected_at_def Let_def)
  have "\<forall>i<n. rejected_at (at (Suc i)) order inputs" using Suc.prems(1) by simp
  with Suc.IH [of "\<lambda>i. at (Suc i)" e] step show ?case by (cases n) auto
qed simp

text \<open>An \<open>origin\<close> that moves under every attempt makes the pass wait; nothing moves \<open>main\<close>.\<close>

lemma a_moving_origin_makes_the_pass_wait:
  assumes "\<forall>i<3. rejected_at (at i) order inputs"
  shows "\<exists>e. publish_clean_pass at order inputs = Inr (PassWaiting (kept_moving e))"
  using publish_loop_moved [of 3 at order inputs "[]"] assms
  by (simp add: publish_clean_pass_def max_push_attempts_def)

section \<open>The integration branch\<close>

lemma member_merges_ids:
  "member_merges lines ms = Inr found \<Longrightarrow> map fst found = map change_id ms \<and>
     list_all2 (\<lambda>m (c, merge). List.map_filter (\<lambda>l. landing_merge_of l (snapshot_sha m)) lines = [merge]) ms found"
  by (induction ms arbitrary: found) (auto split: list.splits sum.splits)

lemma landing_merge_of_line:
  "landing_merge_of l snapshot = Some m \<longleftrightarrow> (\<exists>rest. l = merge_sha m # first_parent m # snapshot # rest)"
  by (induction l snapshot rule: landing_merge_of.induct) (auto split: if_splits)

lemma only_line:
  assumes "List.map_filter (\<lambda>l. landing_merge_of l snapshot) lines = [merge]"
  shows "length (filter (\<lambda>l. landing_merge_of l snapshot \<noteq> None) lines) = 1 \<and>
    (\<exists>rest. (merge_sha merge # first_parent merge # snapshot # rest) \<in> set lines)"
proof -
  have len: "length (List.map_filter f xs) = length (filter (\<lambda>l. f l \<noteq> None) xs)" for f :: "string list \<Rightarrow> landing_merge option" and xs
    by (induction xs) (auto simp: map_filter_simps split: option.splits)
  have "merge \<in> set (List.map_filter (\<lambda>l. landing_merge_of l snapshot) lines)" using assms by simp
  then obtain l where "l \<in> set lines" "landing_merge_of l snapshot = Some merge"
    by (auto simp: map_filter_def)
  with landing_merge_of_line [of l snapshot merge] len [of "\<lambda>l. landing_merge_of l snapshot" lines] assms show ?thesis
    by auto
qed

text \<open>C27. The check of an integration branch passes only on a settled worktree whose branch holds exactly one merge of
  each member still to land, and it answers those merges in the members' order.\<close>

theorem a_checked_branch_holds_each_member_once:
  assumes "verify_integration e ms = Inr merges"
  shows "wt_merging e = GitNo \<and> wt_unmerged e = GitNo \<and> wt_dirty e = GitNo \<and>
    map fst merges = map change_id ms \<and>
    (\<exists>lines. wt_line e = Inr lines \<and>
      list_all2 (\<lambda>m (c, merge).
        length (filter (\<lambda>l. landing_merge_of l (snapshot_sha m) \<noteq> None) lines) = 1 \<and>
        (\<exists>rest. (merge_sha merge # first_parent merge # snapshot_sha m # rest) \<in> set lines)) ms merges)"
proof -
  from assms obtain lines where lines: "wt_line e = Inr lines" "member_merges lines ms = Inr merges"
    and settled: "wt_merging e = GitNo" "wt_unmerged e = GitNo" "wt_dirty e = GitNo"
    by (auto simp: verify_integration_def split: git_answer.splits sum.splits)
  have "list_all2 (\<lambda>m (c, merge).
        length (filter (\<lambda>l. landing_merge_of l (snapshot_sha m) \<noteq> None) lines) = 1 \<and>
        (\<exists>rest. (merge_sha merge # first_parent merge # snapshot_sha m # rest) \<in> set lines)) ms merges"
    by (rule list_all2_mono [OF conjunct2 [OF member_merges_ids [OF lines(2)]]]) (auto dest!: only_line)
  then show ?thesis using settled lines member_merges_ids [OF lines(2)] by auto
qed

definition settled_branch :: worktree_reads where
  "settled_branch = \<lparr>wt_merging = GitNo, wt_unmerged = GitNo, wt_dirty = GitNo,
     wt_line = Inr [[''m1'', ''b'', ''s1''], [''fix'', ''m1''], [''m2'', ''fix'', ''s2'']]\<rparr>"

theorem a_checked_branch_holds_each_member_once_witness:
  "map fst [(1::uuid, \<lparr>first_parent = ''b'', merge_sha = ''m1''\<rparr>), (2, \<lparr>first_parent = ''fix'', merge_sha = ''m2''\<rparr>)] =
     map change_id [\<lparr>change_id = 1, snapshot_sha = ''s1''\<rparr>, \<lparr>change_id = 2, snapshot_sha = ''s2''\<rparr>]"
proof -
  have "verify_integration settled_branch
      [\<lparr>change_id = 1, snapshot_sha = ''s1''\<rparr>, \<lparr>change_id = 2, snapshot_sha = ''s2''\<rparr>] =
      Inr [(1, \<lparr>first_parent = ''b'', merge_sha = ''m1''\<rparr>), (2, \<lparr>first_parent = ''fix'', merge_sha = ''m2''\<rparr>)]"
    by (simp add: verify_integration_def settled_branch_def map_filter_simps)
  from a_checked_branch_holds_each_member_once [OF this] show ?thesis by simp
qed

text \<open>A branch lands only with its head on the base of its attempt, and with that head at \<open>origin\<close>.\<close>

lemma integration_loop_landed:
  "integration_loop n rejected at order = Inr (IntegrationLanded pre post) \<Longrightarrow>
     \<exists>k<n. \<exists>b. landing_base_of (at_base (ba_attempt (at k))) order = Inr b \<and> pre = base_on b \<and>
       (ba_holds_main (at k) pre = GitYes \<or> ba_merge (at k) pre = Inr True) \<and> ba_head (at k) = Inr post \<and>
       origin_has (ba_attempt (at k)) b post \<and> move_local_main (ba_attempt (at k)) b post = None"
proof (induction n arbitrary: rejected at)
  case (Suc n)
  from Suc.prems obtain b where b: "landing_base_of (at_base (ba_attempt (at 0))) order = Inr b"
    by (auto split: sum.splits base_refusal.splits)
  from Suc.prems b obtain head where up: "catch_up (at 0) (base_on b) = Inr None" and head: "ba_head (at 0) = Inr head"
    by (auto simp: catch_up_def split: sum.splits option.splits git_answer.splits bool.splits)
  have caught: "ba_holds_main (at 0) (base_on b) = GitYes \<or> ba_merge (at 0) (base_on b) = Inr True"
    using up by (auto simp: catch_up_def split: git_answer.splits sum.splits bool.splits)
  show ?case
  proof (cases "needs_push (base_origin b) head \<and> at_push (ba_attempt (at 0)) head \<noteq> Pushed")
    case False
    with Suc.prems b up head caught show ?thesis
      by (intro exI [of _ 0]) (auto simp: origin_has_def Let_def split: if_splits option.splits)
  next
    case True
    with Suc.prems b up head obtain e where "integration_loop n e (\<lambda>i. at (Suc i)) order = Inr (IntegrationLanded pre post)"
      by (auto simp: Let_def split: push_outcome.splits)
    from Suc.IH [OF this] obtain k where k: "k < n" "\<exists>b. landing_base_of (at_base (ba_attempt (at (Suc k)))) order = Inr b \<and> pre = base_on b \<and>
       (ba_holds_main (at (Suc k)) pre = GitYes \<or> ba_merge (at (Suc k)) pre = Inr True) \<and> ba_head (at (Suc k)) = Inr post \<and>
       origin_has (ba_attempt (at (Suc k))) b post \<and> move_local_main (ba_attempt (at (Suc k))) b post = None" by auto
    moreover have "Suc k < Suc n" using k(1) by simp
    ultimately show ?thesis by blast
  qed
qed simp

end
