(* ===== verification/Lane_Driver_Pass_Inv.thy ===== *)
theory Lane_Driver_Pass_Inv
  imports Lane_Driver_Pass Lane_Driver_Log Lane_Driver_Claims Lane_Landing_Properties
begin

text \<open>
  What a pass keeps: the lane agrees with its stored events, every member in hand and of the batch is held under
  its claim, and a change that still waits is one the lane will be told of.

  A whole pass keeps the driver's invariants: claiming its members, each way it can end, and the batch it opens.
\<close>

abbreviation linv :: "lane_driver \<Rightarrow> lane_member set \<Rightarrow> bool" where
  "linv s S \<equiv> lane_inv (dr_lane s) (dr_effects s) S"

abbreviation keys_match :: "lane_driver \<Rightarrow> bool" where
  "keys_match s \<equiv> hm_keys (dr_held s) = resolving_ids (dr_lane s)"

definition waiting_told :: "lane_driver \<Rightarrow> bool" where
  "waiting_told s \<longleftrightarrow> (\<forall>m \<in> set (waiting (dr_lane s)). told s (change_id m))"

section \<open>Frames\<close>

lemma effect_sel [simp]:
  "dr_lane (effect e s) = dr_lane s" "dr_effects (effect e s) = dr_effects s @ [e]" "dr_held (effect e s) = dr_held s"
  "dr_claims (effect e s) = dr_claims s" "dr_waiting_for_origin (effect e s) = dr_waiting_for_origin s"
  "dr_actors (effect e s) = dr_actors s" "dr_released (effect e s) = dr_released s"
  by (simp_all add: effect_def)

lemma set_lane_sel [simp]:
  "dr_lane (set_lane l s) = l" "dr_effects (set_lane l s) = dr_effects s" "dr_held (set_lane l s) = dr_held s"
  "dr_claims (set_lane l s) = dr_claims s" "dr_waiting_for_origin (set_lane l s) = dr_waiting_for_origin s"
  "dr_released (set_lane l s) = dr_released s"
  by (simp_all add: set_lane_def)

lemma publish_lane_sel [simp]:
  "dr_lane (publish_lane s) = dr_lane s" "dr_effects (publish_lane s) = dr_effects s"
  "dr_held (publish_lane s) = dr_held s" "dr_claims (publish_lane s) = dr_claims s"
  "dr_waiting_for_origin (publish_lane s) = dr_waiting_for_origin s" "dr_released (publish_lane s) = dr_released s"
  by (simp_all add: publish_lane_def)

lemma actors_sel [simp]:
  "dr_lane (remember_actor c a s) = dr_lane s" "dr_effects (remember_actor c a s) = dr_effects s"
  "dr_held (remember_actor c a s) = dr_held s" "dr_claims (remember_actor c a s) = dr_claims s"
  "dr_waiting_for_origin (remember_actor c a s) = dr_waiting_for_origin s"
  "dr_released (remember_actor c a s) = dr_released s"
  "dr_lane (forget_actor c s) = dr_lane s" "dr_effects (forget_actor c s) = dr_effects s"
  "dr_held (forget_actor c s) = dr_held s" "dr_claims (forget_actor c s) = dr_claims s"
  "dr_waiting_for_origin (forget_actor c s) = dr_waiting_for_origin s"
  "dr_released (forget_actor c s) = dr_released s"
  by (simp_all add: remember_actor_def forget_actor_def)

text \<open>Two states that agree on what the invariants read.\<close>

definition same_lane :: "lane_driver \<Rightarrow> lane_driver \<Rightarrow> bool" where
  "same_lane s s' \<longleftrightarrow> dr_lane s' = dr_lane s \<and> dr_held s' = dr_held s \<and> dr_claims s' = dr_claims s \<and>
     dr_released s' = dr_released s \<and> (\<forall>l S. lane_inv l (dr_effects s') S = lane_inv l (dr_effects s) S)"

lemma same_lane_refl [simp]: "same_lane s s"
  by (simp add: same_lane_def)

lemma same_lane_trans: "same_lane s s1 \<Longrightarrow> same_lane s1 s2 \<Longrightarrow> same_lane s s2"
  by (simp add: same_lane_def)

lemma same_laneD:
  assumes "same_lane s s'"
  shows "linv s' S = linv s S" "claims_held s' H = claims_held s H" "keys_match s' = keys_match s"
    "waiting_told s' = waiting_told s" "dr_lane s' = dr_lane s" "told s' c = told s c" "dr_held s' = dr_held s"
  using assms claims_held_cong [of s' s H] by (auto simp: same_lane_def waiting_told_def told_def)

lemma same_lane_effect:
  "effect_record e = None \<Longrightarrow> (\<And>c. e \<noteq> DroppedQuietly c) \<Longrightarrow> same_lane s (effect e s)"
  by (simp add: same_lane_def lane_inv_quiet)

lemma same_lane_announce [simp]: "same_lane s (announce_lane s)"
  by (simp add: same_lane_def announce_lane_def Let_def lane_inv_quiet)

lemma same_lane_settle: "same_lane s (settle_sources settles s)"
proof (induction settles arbitrary: s)
  case (Cons x settles)
  have "same_lane s (effect (SettleSource x) s)" by (rule same_lane_effect) simp_all
  from same_lane_trans [OF this Cons.IH] show ?case by (simp add: settle_sources_def)
qed (simp add: settle_sources_def)

lemma same_lane_push: "same_lane s (push_after order s)"
  by (simp add: push_after_def same_lane_effect)

lemma same_lane_origin: "same_lane s (s\<lparr>dr_waiting_for_origin := w\<rparr>)"
  by (simp add: same_lane_def)

lemma same_lane_batch_waiting: "same_lane s (land_batch_waiting_for_origin s)"
proof -
  have "same_lane s (land_when_free b t (s\<lparr>dr_batch_waiting := None, dr_landing := l\<rparr>))" for b t l
    by (simp add: same_lane_def land_when_free_def lane_inv_quiet)
  moreover have "same_lane s (s\<lparr>dr_batch_waiting := None\<rparr>)" by (simp add: same_lane_def)
  ultimately show ?thesis by (simp add: land_batch_waiting_for_origin_def Let_def split: option.split prod.split)
qed

lemma batch_waiting_origin [simp]:
  "dr_waiting_for_origin (land_batch_waiting_for_origin s) = dr_waiting_for_origin s"
  by (simp add: land_batch_waiting_for_origin_def land_when_free_def Let_def split: option.split prod.split)

lemma settle_origin [simp]: "dr_waiting_for_origin (settle_sources settles s) = dr_waiting_for_origin s"
  by (induction settles arbitrary: s) (simp_all add: settle_sources_def)

lemma announce_origin [simp]: "dr_waiting_for_origin (announce_lane s) = dr_waiting_for_origin s"
  by (simp add: announce_lane_def Let_def)

section \<open>Members that leave\<close>

text \<open>A landing is one \<open>ChangeApplied\<close>, and then the member's claim goes.\<close>

fun applied_effect :: "(sha \<Rightarrow> sha \<Rightarrow> string list) \<Rightarrow> pass_member \<Rightarrow> landing_merge option \<Rightarrow> lane_effect" where
  "applied_effect cb m None =
     EmitApplied (pm_thread m) (claimed_change (pm_claim m)) False False [] (ch_title (pm_change m)) (pm_actor m) None"
| "applied_effect cb m (Some lm) =
     EmitApplied (pm_thread m) (claimed_change (pm_claim m)) (ch_restart (pm_change m))
       (files_have_client_update (ch_files (pm_change m))) (cb (first_parent lm) (merge_sha lm))
       (ch_title (pm_change m)) (pm_actor m) (Some lm)"

lemma applied_effect_record [simp]:
  "effect_record (applied_effect cb m merge) = Some (Applied (claimed_change (pm_claim m)))"
  by (cases merge) simp_all

lemma announce_landing_parts:
  "dr_lane (snd (announce_landing cb m merge s)) = dr_lane s"
  "dr_held (snd (announce_landing cb m merge s)) = dr_held s"
  "dr_claims (snd (announce_landing cb m merge s)) = dr_claims (drop_member m s)"
  "dr_waiting_for_origin (snd (announce_landing cb m merge s)) = dr_waiting_for_origin s"
  "dr_released (snd (announce_landing cb m merge s)) = dr_released (drop_member m s)"
  "lane_inv l (dr_effects (snd (announce_landing cb m merge s))) S =
     lane_inv l (dr_effects s @ [applied_effect cb m merge]) S"
proof -
  have quiet: "lane_inv l ((es @ [e]) @ [EmitEntityEvents f lm a t]) S = lane_inv l (es @ [e]) S" for es e f lm a t
    by (rule lane_inv_quiet) simp_all
  show "lane_inv l (dr_effects (snd (announce_landing cb m merge s))) S =
     lane_inv l (dr_effects s @ [applied_effect cb m merge]) S"
    by (cases merge) (simp_all add: announce_landing_def Let_def drop_member_def quiet del: append_assoc)
qed (cases merge; simp add: announce_landing_def Let_def drop_member_def do_claim_op_def split_def)+

declare applied_effect.simps [simp del]

lemma drop_member_sel [simp]:
  "dr_lane (drop_member m s) = dr_lane s" "dr_effects (drop_member m s) = dr_effects s"
  "dr_held (drop_member m s) = dr_held s" "dr_waiting_for_origin (drop_member m s) = dr_waiting_for_origin s"
  by (simp_all add: drop_member_def)

lemma told_cong: "dr_claims s' = dr_claims s \<Longrightarrow> dr_released s' = dr_released s \<Longrightarrow> told s' c = told s c"
  by (simp add: told_def)

lemma told_drop: "told s c \<Longrightarrow> told (drop_member m s) c"
  unfolding drop_member_def by (rule told_op) simp_all

lemma told_announce: "told s c \<Longrightarrow> told (snd (announce_landing cb m merge s)) c"
  using told_cong [of "snd (announce_landing cb m merge s)" "drop_member m s" c] told_drop [of s c m]
  by (simp add: announce_landing_parts)

lemma claims_held_announce:
  "claims_held s H \<Longrightarrow> m \<in> H \<Longrightarrow> claims_held (snd (announce_landing cb m merge s)) (H - {m})"
  using claims_held_cong [of "snd (announce_landing cb m merge s)" "drop_member m s"] claims_held_drop [of s H m]
  by (simp add: announce_landing_parts)

lemma linv_announce_hand:
  assumes "linv s S" "pm_member m \<in> S" "holder_ok m"
  shows "linv (snd (announce_landing cb m merge s)) {x \<in> S. change_id x \<noteq> pm_id m}"
proof -
  have "pm_id m \<notin> held_ids (dr_lane s)" using assms(1,2) by (auto simp: lane_inv_def)
  then have "pm_id m \<notin> member_ids (waiting (dr_lane s))" "pm_id m \<notin> resolving_ids (dr_lane s)"
    by (auto simp: held_ids_def)
  with lane_inv_leave [OF assms(1), of "pm_id m" "applied_effect cb m merge"] assms(3)
  show ?thesis by (simp add: announce_landing_parts holder_ok_def)
qed

lemma fail_member_parts:
  "dr_lane (snd (fail_member m e s)) = dr_lane s" "dr_held (snd (fail_member m e s)) = dr_held s"
  "dr_claims (snd (fail_member m e s)) = dr_claims (drop_member m s)"
  "dr_waiting_for_origin (snd (fail_member m e s)) = dr_waiting_for_origin s"
  "dr_released (snd (fail_member m e s)) = dr_released (drop_member m s)"
  "lane_inv l (dr_effects (snd (fail_member m e s))) S =
     lane_inv l (dr_effects s @ [EmitUnqueued (pm_thread m) (pm_id m) UnqLandingFailed None]) S"
proof -
  have quiet: "lane_inv l ((es @ [e]) @ [EmitApplyFailed t c msg a]) S = lane_inv l (es @ [e]) S" for es e t c msg a
    by (rule lane_inv_quiet) simp_all
  show "lane_inv l (dr_effects (snd (fail_member m e s))) S =
     lane_inv l (dr_effects s @ [EmitUnqueued (pm_thread m) (pm_id m) UnqLandingFailed None]) S"
    by (simp add: fail_member_def emit_unqueued_def Let_def drop_member_def quiet del: append_assoc)
qed (simp_all add: fail_member_def emit_unqueued_def Let_def drop_member_def do_claim_op_def split_def)

lemma told_fail: "told s c \<Longrightarrow> told (snd (fail_member m e s)) c"
  using told_cong [of "snd (fail_member m e s)" "drop_member m s" c] told_drop [of s c m]
  by (simp add: fail_member_parts)

lemma claims_held_fail:
  "claims_held s H \<Longrightarrow> m \<in> H \<Longrightarrow> claims_held (snd (fail_member m e s)) (H - {m})"
  using claims_held_cong [of "snd (fail_member m e s)" "drop_member m s"] claims_held_drop [of s H m]
  by (simp add: fail_member_parts)

lemma linv_fail_hand:
  assumes "linv s S" "pm_member m \<in> S"
  shows "linv (snd (fail_member m e s)) {x \<in> S. change_id x \<noteq> pm_id m}"
proof -
  have "pm_id m \<notin> member_ids (waiting (dr_lane s))" using assms by (auto simp: lane_inv_def held_ids_def)
  with lane_inv_leave [OF assms(1)] show ?thesis by (simp add: fail_member_parts)
qed

lemma without_first:
  "distinct (map pm_id (m # ms)) \<Longrightarrow>
     {x \<in> pm_member ` set (m # ms). change_id x \<noteq> pm_id m} = pm_member ` set ms \<and>
     pm_member ` set (m # ms) - {pm_member m} = pm_member ` set ms \<and> set (m # ms) - {m} = set ms"
  by (force simp: image_iff)

section \<open>Claiming\<close>

lemma leave_resolved_effect:
  "\<exists>e. leave_resolved m ch s = effect e s \<and>
     (e = DroppedQuietly (change_id m) \<or> effect_record e = Some (Unqueued (change_id m)))"
  by (auto simp: leave_resolved_def emit_unqueued_def split: option.split)

lemma linv_leave_resolved:
  assumes "linv s S" "m \<in> S"
  shows "linv (leave_resolved m ch s) {x \<in> S. change_id x \<noteq> change_id m}"
proof -
  have "change_id m \<notin> member_ids (waiting (dr_lane s))" using assms by (auto simp: lane_inv_def held_ids_def)
  with leave_resolved_effect [of m ch s] assms lane_inv_leave [OF assms(1), of "change_id m"]
    lane_inv_dropped [OF assms(1), of "change_id m"]
  show ?thesis by auto
qed

lemma leave_resolved_sel [simp]:
  "dr_lane (leave_resolved m ch s) = dr_lane s" "dr_held (leave_resolved m ch s) = dr_held s"
  "dr_claims (leave_resolved m ch s) = dr_claims s" "dr_released (leave_resolved m ch s) = dr_released s"
  "dr_waiting_for_origin (leave_resolved m ch s) = dr_waiting_for_origin s"
  using leave_resolved_effect [of m ch s] by auto

lemma take_claim_sel:
  assumes "take_claim l c s = (k, s')"
  shows "dr_lane s' = dr_lane s" "dr_effects s' = dr_effects s" "dr_held s' = dr_held s"
    "dr_waiting_for_origin s' = dr_waiting_for_origin s"
  using assms by (auto simp: take_claim_def)

lemma told_take:
  assumes "told s d" "d \<noteq> c" "take_claim True c s = (k, s')"
  shows "told s' d"
  using assms told_op [of s d "ClaimForLane c"] by (auto simp: take_claim_def)

text \<open>What a claiming loop leaves alone, besides the queue.\<close>

definition pass_frame :: "lane_driver \<Rightarrow> lane_driver \<Rightarrow> bool" where
  "pass_frame s s' \<longleftrightarrow> dr_held s' = dr_held s \<and> resolving (dr_lane s') = resolving (dr_lane s) \<and>
     presses (dr_lane s') = presses (dr_lane s) \<and> dr_waiting_for_origin s' = dr_waiting_for_origin s"

lemma pass_frame_trans: "pass_frame s s1 \<Longrightarrow> pass_frame s1 s2 \<Longrightarrow> pass_frame s s2"
  by (simp add: pass_frame_def)

text \<open>One member is put back in the queue, leaves, or joins the pass.\<close>

datatype claimed = Back | Left | Joins pass_member

fun claim_one :: "pass_reads \<Rightarrow> lane_member \<Rightarrow> lane_driver \<Rightarrow> claimed \<times> lane_driver" where
  "claim_one P m s =
     (case take_claim True (change_id m) s of
        (None, s) \<Rightarrow> (Back, set_lane (wait m (dr_lane s)) s)
      | (Some k, s) \<Rightarrow>
     (case pr_row P (change_id m) of
        Inl e \<Rightarrow> (Back, do_claim_op (DropClaim k) (set_lane (wait m (dr_lane s)) s))
      | Inr read \<Rightarrow>
          (let a = (case hm_get (dr_actors s) (change_id m) of None \<Rightarrow> None | Some a \<Rightarrow> a);
               s = forget_actor (change_id m) s
           in case read of
                None \<Rightarrow> (Left, do_claim_op (DropClaim k) (leave_resolved m None s))
              | Some ch \<Rightarrow>
                  if change_is_pending ch
                  then (Joins \<lparr>pm_member = m, pm_change = ch, pm_claim = k, pm_actor = a\<rparr>, s)
                  else (Left, do_claim_op (DropClaim k) (leave_resolved m (Some ch) s)))))"

lemma claim_members_step:
  "claim_members P (m # ms) skip s =
     (if Some (change_id m) = skip then claim_members P ms skip s
      else case claim_one P m s of
             (Joins pm, s) \<Rightarrow> (let (rest, s) = claim_members P ms skip s in (pm # rest, s))
           | (_, s) \<Rightarrow> claim_members P ms skip s)"
  by (auto simp: Let_def split: option.split sum.split prod.split)

lemma claim_one_inv:
  assumes "linv s S" "m \<in> S" "claims_held s H" "claim_one P m s = (out, s')"
  shows "pass_frame s s' \<and>
    (case out of
       Joins pm \<Rightarrow> pm_member pm = m \<and> linv s' S \<and> claims_held s' (insert pm H)
     | _ \<Rightarrow> linv s' (S - {m}) \<and> claims_held s' H)"
proof (cases "take_claim True (change_id m) s")
  case (Pair got s1)
  note sel = take_claim_sel [OF Pair]
  have only: "{x \<in> S. change_id x \<noteq> change_id m} = S - {m}" using assms(1,2) by (auto simp: lane_inv_def inj_on_def)
  have wait_frame: "pass_frame s1 (set_lane (wait m (dr_lane s1)) s1)" by (simp add: pass_frame_def lane_simps)
  have frame1: "pass_frame s s1" using sel by (simp add: pass_frame_def)
  have linv1: "linv s1 S" using assms(1) sel by simp
  have waited: "linv (set_lane (wait m (dr_lane s1)) s1) (S - {m})" using lane_inv_wait [OF linv1 assms(2)] by simp
  show ?thesis
  proof (cases got)
    case None
    with Pair assms(4) have "out = Back" "s' = set_lane (wait m (dr_lane s1)) s1" by auto
    with waited pass_frame_trans [OF frame1 wait_frame] take_claim_refused [OF assms(3)] Pair None show ?thesis
      by (simp add: claims_held_cong [of "set_lane l s1" s1 for l])
  next
    case (Some k)
    note k = take_claim_granted [OF assms(3) Pair [unfolded Some]]
    have drop: "claims_held (do_claim_op (DropClaim k) s2) H" if "dr_claims s2 = dr_claims s1" "dr_held s2 = dr_held s1" for s2
      using k that sel claims_held_cong [of s2 s1 H] by (intro claims_held_drop_fresh [of s2 H k "change_id m"]) auto
    have left: "linv (leave_resolved m ch (forget_actor (change_id m) s1)) (S - {m})" for ch
      using linv_leave_resolved [of "forget_actor (change_id m) s1" S m ch] linv1 assms(2) by (simp add: only)
    show ?thesis
    proof (cases "pr_row P (change_id m)")
      case (Inl e)
      with Pair Some assms(4) have "out = Back" "s' = do_claim_op (DropClaim k) (set_lane (wait m (dr_lane s1)) s1)" by auto
      with waited pass_frame_trans [OF frame1 wait_frame] drop [of "set_lane (wait m (dr_lane s1)) s1"] show ?thesis
        by (simp add: pass_frame_def)
    next
      case (Inr read)
      show ?thesis
      proof (cases "\<exists>ch. read = Some ch \<and> change_is_pending ch")
        case True
        then obtain ch where ch: "read = Some ch" "change_is_pending ch" by blast
        let ?pm = "\<lparr>pm_member = m, pm_change = ch, pm_claim = k,
          pm_actor = case hm_get (dr_actors s1) (change_id m) of None \<Rightarrow> None | Some a \<Rightarrow> a\<rparr>"
        have out: "out = Joins ?pm" "s' = forget_actor (change_id m) s1" using Pair Some assms(4) Inr ch by auto
        have "claims_held s1 (insert ?pm H)"
          using k sel by (intro claims_held_insert) (auto simp: holder_ok_def)
        with out linv1 frame1 show ?thesis
          by (simp add: pass_frame_def claims_held_cong [of "forget_actor c s1" s1 for c])
      next
        case False
        then obtain ch where "out = Left" "s' = do_claim_op (DropClaim k) (leave_resolved m ch (forget_actor (change_id m) s1))"
          using Pair Some assms(4) Inr by (cases read) (auto simp: Let_def)
        with left [of ch] frame1 drop [of "leave_resolved m ch (forget_actor (change_id m) s1)"] show ?thesis
          by (simp add: pass_frame_def)
      qed
    qed
  qed
qed

lemma claim_members_inv:
  assumes "linv s (S \<union> set taken)" "distinct (map change_id taken)" "S \<inter> set taken = {}" "claims_held s H"
    and "claim_members P taken skip s = (ms, s')"
  shows "pass_frame s s' \<and> claims_held s' (H \<union> set ms) \<and> distinct (map pm_id ms) \<and>
    pm_member ` set ms \<subseteq> set taken \<and>
    linv s' (S \<union> {m \<in> set taken. Some (change_id m) = skip} \<union> pm_member ` set ms) \<and>
    list_all (\<lambda>m. Some (pm_id m) \<noteq> skip) ms"
  using assms
proof (induction taken arbitrary: s S H ms)
  case Nil
  then show ?case by (simp add: pass_frame_def)
next
  case (Cons m taken)
  have S': "S \<union> set (m # taken) = insert m S \<union> set taken" by auto
  have d: "distinct (map change_id taken)" "change_id m \<notin> change_id ` set taken" using Cons.prems(2) by auto
  have apart: "insert m S \<inter> set taken = {}" "S \<inter> set taken = {}" "m \<notin> S" using Cons.prems(3) d(2) by auto
  show ?case
  proof (cases "Some (change_id m) = skip")
    case True
    then have "claim_members P taken skip s = (ms, s')" using Cons.prems(5) by simp
    from Cons.IH [OF Cons.prems(1) [unfolded S'] d(1) apart(1) Cons.prems(4) this] True show ?thesis
      by (auto simp: Un_assoc insert_commute Un_insert_right intro: back_subst [where P = "lane_inv _ _"])
  next
    case False
    obtain out s1 where one: "claim_one P m s = (out, s1)" by (cases "claim_one P m s")
    note inv1 = claim_one_inv [OF Cons.prems(1) _ Cons.prems(4) one]
    have m: "m \<in> S \<union> set (m # taken)" by simp
    have rest: "S \<union> set (m # taken) - {m} = S \<union> set taken" using apart d(2) by auto
    show ?thesis
    proof (cases "\<exists>pm. out = Joins pm")
      case True
      then obtain pm where pm: "out = Joins pm" by blast
      obtain rest' where ms: "ms = pm # rest'" "claim_members P taken skip s1 = (rest', s')"
        using Cons.prems(5) False one pm unfolding claim_members_step by (auto split: prod.splits)
      have one': "pass_frame s s1" "pm_member pm = m" "linv s1 (insert m S \<union> set taken)" "claims_held s1 (insert pm H)"
        using inv1 [OF m] pm S' by auto
      note ih = Cons.IH [OF one'(3) d(1) apart(1) one'(4) ms(2)]
      have "insert m S \<union> {x \<in> set taken. Some (change_id x) = skip} \<union> pm_member ` set rest' =
          S \<union> {x \<in> set (m # taken). Some (change_id x) = skip} \<union> pm_member ` set ms"
        using False ms(1) one'(2) by auto
      moreover have "pm_id pm \<notin> pm_id ` set rest'"
        using ih d(2) one'(2) by (auto dest!: subsetD)
      ultimately show ?thesis
        using ih ms(1) one' False pass_frame_trans [OF one'(1)] by auto
    next
      case no: False
      have "claim_members P taken skip s1 = (ms, s')"
        using Cons.prems(5) False one no unfolding claim_members_step by (cases out) auto
      moreover have one': "pass_frame s s1" "linv s1 (S \<union> set taken)" "claims_held s1 H"
        using inv1 [OF m] no rest by (cases out; simp)+
      ultimately have ih: "pass_frame s1 s' \<and> claims_held s' (H \<union> set ms) \<and> distinct (map pm_id ms) \<and>
          pm_member ` set ms \<subseteq> set taken \<and>
          linv s' (S \<union> {m \<in> set taken. Some (change_id m) = skip} \<union> pm_member ` set ms) \<and>
          list_all (\<lambda>m. Some (pm_id m) \<noteq> skip) ms"
        by (intro Cons.IH d(1) apart(2)) auto
      have "{x \<in> set (m # taken). Some (change_id x) = skip} = {x \<in> set taken. Some (change_id x) = skip}"
        using False by auto
      with ih pass_frame_trans [OF one'(1)] show ?thesis by auto
    qed
  qed
qed

text \<open>When every row can be read, a member is put back only because another holds its claim, and the lane is told of
  that claim's release.\<close>

definition rows_readable :: "pass_reads \<Rightarrow> bool" where
  "rows_readable P \<longleftrightarrow> (\<forall>c. \<not> isl (pr_row P c))"

lemma claim_one_told:
  assumes "linv s S" "m \<in> S" "claims_held s H" "claim_one P m s = (out, s')" "waiting_told s" "rows_readable P"
  shows "waiting_told s'"
proof (cases "take_claim True (change_id m) s")
  case (Pair got s1)
  note sel = take_claim_sel [OF Pair]
  have fresh: "change_id m \<notin> held_ids (dr_lane s)" using assms(1,2) by (auto simp: lane_inv_def)
  have told1: "told s1 (change_id x)" if "x \<in> set (waiting (dr_lane s))" for x
  proof -
    have "change_id x \<in> held_ids (dr_lane s)" using that by (simp add: held_ids_def)
    with fresh have "change_id x \<noteq> change_id m" by metis
    with assms(5) that told_take [OF _ _ Pair, of "change_id x"] show ?thesis by (simp add: waiting_told_def)
  qed
  show ?thesis
  proof (cases got)
    case None
    with Pair assms(4) have s': "s' = set_lane (wait m (dr_lane s1)) s1" by auto
    have "told s1 (change_id m)" using told_refused [OF assms(3)] Pair None by simp
    moreover have "told s' c = told s1 c" for c by (simp add: s' told_def)
    ultimately show ?thesis
      using told1 fresh sel by (auto simp: s' waiting_told_def lane_simps)
  next
    case (Some k)
    have drop: "waiting_told (do_claim_op (DropClaim k) s2)"
      if "dr_lane s2 = dr_lane s" "dr_claims s2 = dr_claims s1" "dr_released s2 = dr_released s1" for s2
      using that told1 told_cong [of s2 s1] told_op [of s2 _ "DropClaim k"] by (auto simp: waiting_told_def)
    have "waiting_told (forget_actor c s1)" for c
      using told1 sel told_cong [of "forget_actor c s1" s1] by (auto simp: waiting_told_def)
    moreover have "\<not> isl (pr_row P (change_id m))" using assms(6) by (simp add: rows_readable_def)
    ultimately show ?thesis
      using Pair Some assms(4) drop sel by (auto simp: Let_def split: sum.splits option.splits if_splits)
  qed
qed

lemma claim_members_told:
  assumes "linv s (S \<union> set taken)" "distinct (map change_id taken)" "S \<inter> set taken = {}" "claims_held s H"
    and "claim_members P taken skip s = (ms, s')" "waiting_told s" "rows_readable P"
  shows "waiting_told s'"
  using assms
proof (induction taken arbitrary: s S H ms)
  case (Cons m taken)
  have S': "S \<union> set (m # taken) = insert m S \<union> set taken" by auto
  have d: "distinct (map change_id taken)" "change_id m \<notin> change_id ` set taken" using Cons.prems(2) by auto
  have apart: "insert m S \<inter> set taken = {}" "S \<inter> set taken = {}" "m \<notin> S" using Cons.prems(3) d(2) by auto
  show ?case
  proof (cases "Some (change_id m) = skip")
    case True
    then have "claim_members P taken skip s = (ms, s')" using Cons.prems(5) by simp
    from Cons.IH [OF Cons.prems(1) [unfolded S'] d(1) apart(1) Cons.prems(4) this Cons.prems(6,7)] show ?thesis .
  next
    case False
    obtain out s1 where one: "claim_one P m s = (out, s1)" by (cases "claim_one P m s")
    have m: "m \<in> S \<union> set (m # taken)" by simp
    note inv1 = claim_one_inv [OF Cons.prems(1) m Cons.prems(4) one]
    have told1: "waiting_told s1"
      by (rule claim_one_told [OF Cons.prems(1) m Cons.prems(4) one Cons.prems(6,7)])
    have rest: "S \<union> set (m # taken) - {m} = S \<union> set taken" using apart d(2) by auto
    obtain rest' where ms: "claim_members P taken skip s1 = (rest', s')"
      using Cons.prems(5) False one unfolding claim_members_step by (cases out) (auto split: prod.splits)
    show ?thesis
    proof (cases "\<exists>pm. out = Joins pm")
      case True
      then obtain pm where "linv s1 (insert m S \<union> set taken)" "claims_held s1 (insert pm H)" using inv1 S' by auto
      from Cons.IH [OF this(1) d(1) apart(1) this(2) ms told1 Cons.prems(7)] show ?thesis .
    next
      case False
      then have "linv s1 (S \<union> set taken)" "claims_held s1 H" using inv1 rest by (cases out; simp)+
      from Cons.IH [OF this(1) d(1) apart(2) this(2) ms told1 Cons.prems(7)] show ?thesis .
    qed
  qed
qed simp

section \<open>The ends of a pass\<close>

lemma put_back_sel [simp]:
  "dr_lane (put_back m s) = wait (pm_member m) (dr_lane s)" "dr_effects (put_back m s) = dr_effects s"
  "dr_held (put_back m s) = dr_held s" "dr_claims (put_back m s) = dr_claims s"
  "dr_waiting_for_origin (put_back m s) = dr_waiting_for_origin s"
  by (simp_all add: put_back_def Let_def)

lemma wait_all_inv:
  assumes "linv s (pm_member ` set ms)" "claims_held s (set ms)" "distinct (map pm_id ms)"
    and "wait_all ms answers s = (answers', s')"
  shows "pass_frame s s' \<and> linv s' {} \<and> claims_held s' {}"
  using assms
proof (induction ms arbitrary: answers s)
  case (Cons m ms)
  note first = without_first [OF Cons.prems(3)]
  have linv: "linv (drop_member m (put_back m s)) (pm_member ` set ms)"
    using lane_inv_wait [OF Cons.prems(1), of "pm_member m"] first by simp
  have "claims_held (put_back m s) (set (m # ms))"
    using Cons.prems(2) claims_held_cong [of "put_back m s" s] by simp
  from claims_held_drop [OF this, of m] first have held: "claims_held (drop_member m (put_back m s)) (set ms)" by simp
  obtain answers1 where next': "wait_all ms answers1 (drop_member m (put_back m s)) = (answers', s')"
    using Cons.prems(4) by (simp add: Let_def)
  have frame: "pass_frame s (drop_member m (put_back m s))" by (simp add: pass_frame_def lane_simps)
  have "distinct (map pm_id ms)" using Cons.prems(3) by simp
  from Cons.IH [OF linv held this next'] pass_frame_trans [OF frame] show ?case by blast
qed (simp add: pass_frame_def)

lemma fail_all_inv:
  assumes "linv s (pm_member ` set ms)" "claims_held s (set ms)" "distinct (map pm_id ms)"
    and "fail_all e ms settles answers s = (settles', answers', s')"
  shows "dr_lane s' = dr_lane s \<and> pass_frame s s' \<and> linv s' {} \<and> claims_held s' {} \<and>
    (\<forall>c. told s c \<longrightarrow> told s' c)"
  using assms
proof (induction ms arbitrary: settles answers s)
  case (Cons m ms)
  note first = without_first [OF Cons.prems(3)]
  obtain message s1 where f: "fail_member m e s = (message, s1)" by (cases "fail_member m e s")
  have linv: "linv s1 (pm_member ` set ms)" using linv_fail_hand [OF Cons.prems(1), of m e] first f by simp
  have held: "claims_held s1 (set ms)" using claims_held_fail [OF Cons.prems(2), of m e] first f by simp
  have lane: "dr_lane s1 = dr_lane s" "pass_frame s s1"
    using fail_member_parts(1-5) [of m e s] f by (simp_all add: pass_frame_def)
  have told: "told s c \<Longrightarrow> told s1 c" for c using told_fail [of s c m e] f by simp
  have next': "fail_all e ms (settles @ [pm_settle m False]) (hm_insert (pm_id m) (Inl message) answers) s1 =
      (settles', answers', s')" using Cons.prems(4) f by simp
  have "distinct (map pm_id ms)" using Cons.prems(3) by simp
  from Cons.IH [OF linv held this next'] lane told pass_frame_trans [OF lane(2)] show ?case by auto
qed (simp add: pass_frame_def)

section \<open>The steps of a pass\<close>

lemma landed_member_out:
  assumes "linv s (pm_member ` set ms)" "claims_held s (set ms)" "distinct (map pm_id ms)" "m \<in> set ms"
    and "set ms' = set ms - {m}"
  shows "linv (snd (announce_landing cb m merge s)) (pm_member ` set ms') \<and>
    claims_held (snd (announce_landing cb m merge s)) (set ms') \<and>
    linv (snd (fail_member m e s)) (pm_member ` set ms') \<and> claims_held (snd (fail_member m e s)) (set ms')"
proof -
  have "pm_id x \<noteq> pm_id m" if "x \<in> set ms" "x \<noteq> m" for x
    using assms(3,4) that by (auto simp: distinct_map inj_on_def)
  then have rest: "{x \<in> pm_member ` set ms. change_id x \<noteq> pm_id m} = pm_member ` set ms'" using assms(5) by auto
  have ok: "holder_ok m" using assms(2,4) by (simp add: claims_held_def)
  have in_hand: "pm_member m \<in> pm_member ` set ms" using assms(4) by simp
  show ?thesis
    using linv_announce_hand [OF assms(1) in_hand ok, of cb merge] linv_fail_hand [OF assms(1) in_hand, of e]
      claims_held_announce [OF assms(2,4), of cb merge] claims_held_fail [OF assms(2,4), of e] rest assms(5)
    by simp
qed

lemma pass_steps_inv:
  assumes "linv s (pm_member ` set (ps_members ps @ ps_set_aside ps))" "claims_held s (set (ps_members ps @ ps_set_aside ps))"
    and "distinct (map pm_id (ps_members ps @ ps_set_aside ps))" "map fst steps = map pm_id (ps_members ps)"
    and "pass_steps P failed steps ps s = (ps', s')"
  shows "ps_members ps' = [] \<and> dr_lane s' = dr_lane s \<and> pass_frame s s' \<and>
    linv s' (pm_member ` set (ps_set_aside ps')) \<and> claims_held s' (set (ps_set_aside ps')) \<and>
    distinct (map pm_id (ps_set_aside ps')) \<and> (\<forall>c. told s c \<longrightarrow> told s' c)"
  using assms
proof (induction steps arbitrary: ps s)
  case Nil
  then show ?case by (simp add: pass_frame_def)
next
  case (Cons cstep steps)
  obtain c step where cs: "cstep = (c, step)" by fastforce
  obtain m rest where ms: "ps_members ps = m # rest" "pm_id m = c" "map fst steps = map pm_id rest"
    using Cons.prems(4) cs by (cases "ps_members ps") auto
  have taken: "take_member c (ps_members ps) = Some (m, rest)" using ms by simp
  define aside where "aside = ps_set_aside ps"
  let ?all = "m # rest @ aside"
  have here: "linv s (pm_member ` set ?all)" "claims_held s (set ?all)" "distinct (map pm_id ?all)"
    using Cons.prems(1-3) ms(1) by (simp_all add: aside_def)
  have out: "set (rest @ aside) = set ?all - {m}" using here(3) by auto
  note left = landed_member_out [OF here _ out]
  have m: "m \<in> set ?all" by simp
  have d: "distinct (map pm_id (rest @ aside))" using here(3) by simp
  define ps1 where "ps1 = ps\<lparr>ps_members := rest, ps_settle := ps_settle ps @
    (case settles_source (pass_outcome_of step failed) of None \<Rightarrow> [] | Some was_landed \<Rightarrow> [pm_settle m was_landed])\<rparr>"
  have ps1: "ps_members ps1 = rest" "ps_set_aside ps1 = aside" by (simp_all add: ps1_def aside_def)
  have go: ?case
    if "pass_steps P failed steps ps2 s2 = (ps', s')" "ps_members ps2 = rest" "ps_set_aside ps2 = aside"
      "linv s2 (pm_member ` set (rest @ aside))" "claims_held s2 (set (rest @ aside))"
      "dr_lane s2 = dr_lane s" "pass_frame s s2" "\<And>c. told s c \<Longrightarrow> told s2 c" for ps2 s2
    using Cons.IH [of s2 ps2] that d ms(3) pass_frame_trans [OF that(7)] by auto
  show ?case
  proof (cases "pass_outcome_of step failed")
    case (Lands lm)
    then have "pass_steps P failed steps (ps1\<lparr>ps_answers := hm_insert c (Inr (fst (announce_landing (pr_commits P) m (Some lm) s))) (ps_answers ps1)\<rparr>)
        (snd (announce_landing (pr_commits P) m (Some lm) s)) = (ps', s')"
      using Cons.prems(5) cs taken ps1_def by (simp add: Let_def split_def)
    then show ?thesis
      by (rule go) (use left [OF m] ps1 told_announce in
          \<open>simp_all add: announce_landing_parts pass_frame_def\<close>)
  next
    case AlreadyOnMain
    then have "pass_steps P failed steps (ps1\<lparr>ps_answers := hm_insert c (Inr (fst (announce_landing (pr_commits P) m None s))) (ps_answers ps1)\<rparr>)
        (snd (announce_landing (pr_commits P) m None s)) = (ps', s')"
      using Cons.prems(5) cs taken ps1_def by (simp add: Let_def split_def)
    then show ?thesis
      by (rule go) (use left [OF m] ps1 told_announce in
          \<open>simp_all add: announce_landing_parts pass_frame_def\<close>)
  next
    case (FailsLanding e)
    then have "pass_steps P failed steps (ps1\<lparr>ps_answers := hm_insert c (Inl (fst (fail_member m e s))) (ps_answers ps1)\<rparr>)
        (snd (fail_member m e s)) = (ps', s')"
      using Cons.prems(5) cs taken ps1_def by (simp add: Let_def split_def)
    then show ?thesis
      by (rule go) (use left [OF m] ps1 told_fail in \<open>simp_all add: fail_member_parts pass_frame_def\<close>)
  next
    case SetAsideOutcome
    then have next': "pass_steps P failed steps (ps1\<lparr>ps_set_aside := aside @ [m]\<rparr>) s = (ps', s')"
      using Cons.prems(5) cs taken ps1_def by (simp add: Let_def aside_def)
    have sets: "set (rest @ aside @ [m]) = set ?all" by auto
    have "distinct (map pm_id (rest @ aside @ [m]))" using here(3) by auto
    then show ?thesis
      by (intro Cons.IH [OF _ _ _ _ next']) (use here sets ps1 ms(3) in simp_all)
  qed
qed

section \<open>The members set aside\<close>

lemma keep_waiting_inv:
  assumes "claims_held s (set ms)" "distinct (map pm_id ms)" "keep_waiting why ms answers s = (answers', s')"
  shows "dr_lane s' = dr_lane s \<and> dr_effects s' = dr_effects s \<and> pass_frame s s' \<and> claims_held s' {} \<and>
    (\<forall>c. told s c \<longrightarrow> told s' c)"
  using assms
proof (induction ms arbitrary: answers s)
  case (Cons m ms)
  define s1 where "s1 = drop_member m (remember_actor (pm_id m) (pm_actor m) s)"
  obtain answers1 where next': "keep_waiting why ms answers1 s1 = (answers', s')"
    using Cons.prems(3) by (simp add: s1_def)
  have "claims_held (remember_actor (pm_id m) (pm_actor m) s) (set (m # ms))"
    using Cons.prems(1) claims_held_cong [of "remember_actor (pm_id m) (pm_actor m) s" s] by simp
  from claims_held_drop [OF this, of m] without_first [OF Cons.prems(2)] have "claims_held s1 (set ms)"
    by (simp add: s1_def)
  from Cons.IH [OF this _ next'] Cons.prems(2) have ih: "dr_lane s' = dr_lane s1 \<and> dr_effects s' = dr_effects s1 \<and>
      pass_frame s1 s' \<and> claims_held s' {} \<and> (\<forall>c. told s1 c \<longrightarrow> told s' c)" by simp
  have "told s1 c" if "told s c" for c
    using that told_drop [of "remember_actor (pm_id m) (pm_actor m) s" c m] by (simp add: s1_def told_def)
  with ih show ?case by (simp add: s1_def pass_frame_def)
qed (simp add: pass_frame_def)

lemma hold_set_aside_inv:
  assumes "claims_held s (set ms)" "distinct (map pm_id ms)" "hold_set_aside ms answers s = (answers', s')"
  shows "dr_lane s' = dr_lane s \<and> dr_effects s' = dr_effects s \<and> claims_held s' {} \<and>
    dr_held s' = dr_held s @ map (\<lambda>m. (pm_id m, m)) ms \<and> dr_waiting_for_origin s' = dr_waiting_for_origin s"
  using assms
proof (induction ms arbitrary: answers s)
  case (Cons m ms)
  obtain answers1 where next': "hold_set_aside ms answers1 (hold_member m s) = (answers', s')"
    using Cons.prems(3) by simp
  note hold = claims_held_hold [OF Cons.prems(1), of m]
  have sel: "dr_lane (hold_member m s) = dr_lane s" "dr_effects (hold_member m s) = dr_effects s"
    "dr_waiting_for_origin (hold_member m s) = dr_waiting_for_origin s"
    by (simp_all add: hold_member_def Let_def split: option.split)
  have "claims_held (hold_member m s) (set ms)" using hold(1) without_first [OF Cons.prems(2)] by simp
  from Cons.IH [OF this _ next'] Cons.prems(2) hold(2) sel show ?case by simp
qed simp

lemma set_aside_None_queue:
  "fst (set_aside b base t ms l) = None \<Longrightarrow> resolving (snd (set_aside b base t ms l)) = resolving l \<and>
     (\<not> queue_held l \<longrightarrow> ms = [])"
  by (auto simp: lane_simps split: if_splits)

text \<open>When this returns, no queue is free with a change in it that the lane will not be told of: either the members opened
  a batch, or the queue was held already, or there were none.\<close>

lemma take_in_set_aside_inv:
  assumes "linv s (pm_member ` set aside)" "claims_held s (set aside)" "distinct (map pm_id aside)" "keys_match s"
    and "take_in_set_aside P aside base answers s = (answers', s')"
  shows "linv s' {} \<and> claims_held s' {} \<and> keys_match s' \<and> dr_waiting_for_origin s' = dr_waiting_for_origin s \<and>
    (queue_held (dr_lane s) \<or> waiting_told s \<longrightarrow> queue_held (dr_lane s') \<or> waiting_told s')"
proof -
  let ?ms = "map pm_member aside"
  define opened where "opened = set_aside (pr_batch P) base (pr_thread P) ?ms (dr_lane s)"
  have linv: "lane_inv (dr_lane s) (dr_effects s) (set ?ms)" using assms(1) by simp
  have d: "distinct (map change_id ?ms)" using assms(3) by (simp add: comp_def)
  show ?thesis
  proof (cases "fst opened")
    case None
    have run: "keep_waiting (why_waiting (snd opened)) aside answers (set_lane (snd opened) s) = (answers', s')"
      using assms(5) None by (simp add: take_in_set_aside_def opened_def [symmetric] split_def Let_def)
    have "claims_held (set_lane (snd opened) s) (set aside)"
      using assms(2) claims_held_cong [of "set_lane (snd opened) s" s] by simp
    note kept = keep_waiting_inv [OF this assms(3) run]
    have linv': "lane_inv (snd opened) (dr_effects s) {}"
      using set_aside_records(1) [OF linv d, of "pr_batch P" base "pr_thread P"] None by (simp add: opened_def)
    have res: "resolving (snd opened) = resolving (dr_lane s)" "\<not> queue_held (dr_lane s) \<longrightarrow> aside = []"
      using set_aside_None_queue [of "pr_batch P" base "pr_thread P" ?ms "dr_lane s"] None by (auto simp: opened_def)
    have pres: "presses (snd opened) = presses (dr_lane s)" by (simp add: opened_def lane_simps)
    have same: "snd opened = dr_lane s" if "\<not> queue_held (dr_lane s)"
      using res(2) that by (simp add: opened_def set_aside_def)
    have "queue_held (dr_lane s') = queue_held (dr_lane s)" using kept res pres by (simp add: queue_held_def)
    moreover have "waiting_told s'" if "\<not> queue_held (dr_lane s)" "waiting_told s"
    proof -
      have "told (set_lane (snd opened) s) c = told s c" for c by (simp add: told_def)
      then show ?thesis using kept that(2) same [OF that(1)] by (simp add: waiting_told_def)
    qed
    ultimately show ?thesis
      using kept linv' res assms(4) by (auto simp: pass_frame_def resolving_ids_def)
  next
    case (Some b)
    have free: "\<not> queue_held (dr_lane s)" and b: "b = new_batch (pr_batch P) base (pr_thread P) ?ms"
      and lane: "resolving (snd opened) = Some b"
      using Some by (auto simp: opened_def lane_simps split: if_splits)
    define s1 where "s1 = effect (CreateLaneBranch (batch_id b) (base_sha b))
      (effect (EmitBatchStarted (batch_id b) (members b) (base_sha b) (lane_thread_id b)) (set_lane (snd opened) s))"
    obtain answers1 s2 where hold: "hold_set_aside aside answers s1 = (answers1, s2)" by fastforce
    have s': "s' = open_lane_thread b s2"
      using assms(5) Some hold by (simp add: take_in_set_aside_def opened_def [symmetric] split_def Let_def s1_def)
    have "claims_held s1 (set aside)" using assms(2) claims_held_cong [of s1 s] by (simp add: s1_def)
    note held = hold_set_aside_inv [OF this assms(3) hold]
    have "lane_inv (snd opened) (dr_effects s @ [EmitBatchStarted (pr_batch P) ?ms base (pr_thread P)]) {}"
      using set_aside_records(2) [OF linv d, of "pr_batch P" base "pr_thread P"] Some by (simp add: opened_def)
    then have "linv s1 {}" using lane_inv_quiet by (simp add: s1_def b del: append_assoc)
    then have "linv s2 {}" using held by simp
    moreover have same: "same_lane s2 s'"
      unfolding s' open_lane_thread_def Let_def by (rule same_lane_effect) simp_all
    moreover have "hm_keys (dr_held s2) = resolving_ids (dr_lane s2)"
    proof -
      have "resolving (dr_lane s) = None" using free by (simp add: queue_held_def)
      then have "hm_keys (dr_held s) = {}" using assms(4) by (simp add: resolving_ids_def)
      then have "hm_keys (dr_held s2) = pm_id ` set aside" using held by (simp add: hm_keys_def s1_def image_image)
      moreover have "resolving (dr_lane s2) = Some b" using held lane by (simp add: s1_def)
      ultimately show ?thesis by (simp add: resolving_ids_def b image_image)
    qed
    moreover have "queue_held (dr_lane s2)" using held lane by (simp add: s1_def queue_held_def)
    moreover have "dr_waiting_for_origin s' = dr_waiting_for_origin s"
      using held by (simp add: s' open_lane_thread_def Let_def s1_def)
    ultimately show ?thesis using held same_laneD [OF same] by simp
  qed
qed

end
