(* ===== verification/Lane_Driver_Inv.thy ===== *)
theory Lane_Driver_Inv
  imports Lane_Driver Lane_Driver_Pass_Inv
begin

text \<open>
  Every message keeps the driver's invariants: the lane agrees with its stored events, the batch's members are held
  and nothing else is, and a free queue has no change in it that nothing would wake.
\<close>

definition driver_ok :: "lane_driver \<Rightarrow> bool" where
  "driver_ok s \<longleftrightarrow> linv s {} \<and> claims_held s {} \<and> keys_match s"

definition queue_awake :: "lane_driver \<Rightarrow> bool" where
  "queue_awake s \<longleftrightarrow> queue_held (dr_lane s) \<or> dr_waiting_for_origin s \<noteq> None \<or> waiting_told s"

lemma driver_ok_same:
  assumes "same_lane s s'"
  shows "driver_ok s' = driver_ok s"
  by (simp only: driver_ok_def same_laneD(1-3) [OF assms])

lemma queue_awake_same:
  "same_lane s s' \<Longrightarrow> dr_waiting_for_origin s' = dr_waiting_for_origin s \<Longrightarrow> queue_awake s' = queue_awake s"
  by (simp add: queue_awake_def same_laneD)

section \<open>Passes\<close>

lemma keys_match_frame: "pass_frame s s' \<Longrightarrow> keys_match s' = keys_match s"
  using resolving_ids_cong [of "dr_lane s'" "dr_lane s"] by (simp add: pass_frame_def)

lemma queue_held_frame: "pass_frame s s' \<Longrightarrow> queue_held (dr_lane s') = queue_held (dr_lane s)"
  by (simp add: pass_frame_def queue_held_def)

lemma published_steps:
  assumes "publish_clean_pass at order (map (landing_input_of txt) ms) = Inr (Published p)"
  shows "map fst (chain_steps (pub_chain p)) = map pm_id ms"
proof -
  from publish_loop_published [OF assms [unfolded publish_clean_pass_def]] obtain k and b :: landing_base where
    "pub_chain p = chain_onto (at_git (at k)) (base_on b) (map (landing_input_of txt) ms)" by metis
  with chain_one_line [of "at_git (at k)" "base_on b" "map (landing_input_of txt) ms"] show ?thesis
    by (simp add: landing_input_of_def comp_def)
qed

lemma run_pass_cases:
  assumes "linv s (pm_member ` set ms)" "claims_held s (set ms)" "distinct (map pm_id ms)" "keys_match s"
    and "run_pass P ms s = (answers, s')"
  shows "driver_ok s' \<and> (queue_held (dr_lane s) \<or> waiting_told s \<longrightarrow> queue_awake s') \<and>
    (ms \<noteq> [] \<longrightarrow> (\<forall>p. publish_clean_pass (pr_attempts P) (pr_order P) (map (landing_input_of (pr_uuid_text P)) ms) =
       Inr (Published p) \<longrightarrow> dr_waiting_for_origin s' = None))"
proof (cases "ms = []")
  case True
  with assms show ?thesis by (auto simp: run_pass_def driver_ok_def queue_awake_def)
next
  case False
  show ?thesis
  proof (cases "publish_clean_pass (pr_attempts P) (pr_order P) (map (landing_input_of (pr_uuid_text P)) ms)")
    case (Inl e)
    obtain settles answers1 s1 where f: "fail_all e ms [] [] s = (settles, answers1, s1)" by (cases "fail_all e ms [] [] s")
    then have s': "s' = settle_sources settles s1" using assms(5) False Inl by (simp add: run_pass_def)
    note inv = fail_all_inv [OF assms(1-3) f] and same = same_lane_settle [of s1 settles]
    have "driver_ok s1" using inv assms(4) keys_match_frame [of s s1] unfolding driver_ok_def by blast
    moreover have "queue_held (dr_lane s) \<or> waiting_told s \<Longrightarrow> queue_awake s1"
      using inv by (auto simp: queue_awake_def waiting_told_def)
    ultimately show ?thesis using driver_ok_same [OF same] queue_awake_same [OF same] s' Inl by simp
  next
    case (Inr pass)
    show ?thesis
    proof (cases pass)
      case (PassWaiting why)
      obtain answers1 s1 where w: "wait_all ms [] (wait_for_origin why s) = (answers1, s1)" by fastforce
      then have s': "s' = announce_lane s1" using assms(5) False Inr PassWaiting by (simp add: run_pass_def)
      have same0: "same_lane s (wait_for_origin why s)" by (simp add: wait_for_origin_def same_lane_origin)
      have "pass_frame (wait_for_origin why s) s1 \<and> linv s1 {} \<and> claims_held s1 {}"
        by (rule wait_all_inv [OF _ _ assms(3) w]) (use assms(1,2) same_laneD [OF same0] in simp_all)
      then have "driver_ok s1 \<and> queue_awake s1"
        using assms(4) keys_match_frame [of "wait_for_origin why s" s1] same_laneD [OF same0]
        by (simp add: driver_ok_def queue_awake_def pass_frame_def wait_for_origin_def)
      then show ?thesis
        using driver_ok_same [OF same_lane_announce] queue_awake_same [OF same_lane_announce] s' Inr PassWaiting by simp
    next
      case (Published p)
      define s0 where "s0 = land_batch_waiting_for_origin
        ((if moved_main p then push_after (pr_order P) s else s)\<lparr>dr_waiting_for_origin := None\<rparr>)"
      have same: "same_lane s s0"
      proof -
        have "same_lane s (if moved_main p then push_after (pr_order P) s else s)" by (simp add: same_lane_push)
        from same_lane_trans [OF this same_lane_origin] show ?thesis
          unfolding s0_def by (rule same_lane_trans [OF _ same_lane_batch_waiting])
      qed
      let ?ps = "\<lparr>ps_members = ms, ps_set_aside = [], ps_settle = [], ps_answers = []\<rparr>"
      obtain ps s1 where steps: "pass_steps P (pub_failed p) (chain_steps (pub_chain p)) ?ps s0 = (ps, s1)" by fastforce
      have inv: "ps_members ps = [] \<and> dr_lane s1 = dr_lane s0 \<and> pass_frame s0 s1 \<and>
          linv s1 (pm_member ` set (ps_set_aside ps)) \<and> claims_held s1 (set (ps_set_aside ps)) \<and>
          distinct (map pm_id (ps_set_aside ps)) \<and> (\<forall>c. told s0 c \<longrightarrow> told s1 c)"
        by (rule pass_steps_inv [OF _ _ _ _ steps])
          (use assms(1-3) same_laneD [OF same] published_steps Inr Published in simp_all)
      obtain answers2 s2 where aside: "take_in_set_aside P (ps_set_aside ps) (pub_main_now p) (ps_answers ps) s1 = (answers2, s2)"
        by fastforce
      have keys: "keys_match s1" using inv keys_match_frame [of s0 s1] same_laneD [OF same] assms(4) by simp
      have taken: "linv s2 {} \<and> claims_held s2 {} \<and> keys_match s2 \<and> dr_waiting_for_origin s2 = dr_waiting_for_origin s1 \<and>
          (queue_held (dr_lane s1) \<or> waiting_told s1 \<longrightarrow> queue_held (dr_lane s2) \<or> waiting_told s2)"
        using take_in_set_aside_inv [OF _ _ _ keys aside] inv by blast
      have s': "s' = settle_sources (ps_settle ps) (announce_lane s2)"
        using assms(5) False Inr Published steps aside inv
        by (simp add: run_pass_def Let_def s0_def [symmetric] drop_members_def)
      have same2: "same_lane s2 s'"
        unfolding s' by (rule same_lane_trans [OF same_lane_announce same_lane_settle])
      have "queue_held (dr_lane s) \<or> waiting_told s \<Longrightarrow> queue_held (dr_lane s1) \<or> waiting_told s1"
        using inv same_laneD [OF same] by (auto simp: waiting_told_def)
      moreover have "dr_waiting_for_origin s' = None"
        using taken inv by (simp add: s' pass_frame_def) (simp add: s0_def)
      ultimately show ?thesis
        using taken same_laneD [OF same2] by (auto simp: driver_ok_def queue_awake_def)
    qed
  qed
qed

lemma run_pass_inv:
  assumes "linv s (pm_member ` set ms)" "claims_held s (set ms)" "distinct (map pm_id ms)" "keys_match s"
    and "run_pass P ms s = (answers, s')"
  shows "driver_ok s' \<and> (queue_held (dr_lane s) \<or> waiting_told s \<longrightarrow> queue_awake s')"
  using run_pass_cases [OF assms] by blast

lemma run_pass_published:
  assumes "linv s (pm_member ` set ms)" "claims_held s (set ms)" "distinct (map pm_id ms)" "keys_match s"
    and "run_pass P ms s = (answers, s')" "ms \<noteq> []"
    and "publish_clean_pass (pr_attempts P) (pr_order P) (map (landing_input_of (pr_uuid_text P)) ms) = Inr (Published p)"
  shows "dr_waiting_for_origin s' = None"
  using run_pass_cases [OF assms(1-5)] assms(6,7) by blast

lemma claim_waiting_inv:
  assumes "linv s S" "claims_held s H" "claim_waiting P skip s = (ms, s')"
  shows "pass_frame s s' \<and> claims_held s' (H \<union> set ms) \<and> distinct (map pm_id ms) \<and>
    pm_member ` set ms \<subseteq> set (fst (take_pass (dr_lane s))) \<and>
    linv s' (S \<union> {m \<in> set (fst (take_pass (dr_lane s))). Some (change_id m) = skip} \<union> pm_member ` set ms) \<and>
    list_all (\<lambda>m. Some (pm_id m) \<noteq> skip) ms \<and>
    (rows_readable P \<longrightarrow> queue_held (dr_lane s') \<or> waiting_told s')"
proof -
  obtain taken l where tk: "take_pass (dr_lane s) = (taken, l)" by fastforce
  have run: "claim_members P taken skip (set_lane l s) = (ms, s')" using assms(3) tk by (simp add: claim_waiting_def)
  have linv: "linv (set_lane l s) (S \<union> set taken)" using lane_inv_take_pass [OF assms(1)] tk by simp
  have held: "claims_held (set_lane l s) H" using assms(2) claims_held_cong [of "set_lane l s" s] by simp
  have d: "distinct (map change_id taken)"
    using takeable_take_pass [OF lane_inv_ok [OF assms(1)]] tk by (simp add: takeable_def)
  have "set taken \<subseteq> set (waiting (dr_lane s))" using take_pass_lane(1) [of "dr_lane s"] tk by (auto split: if_splits)
  then have apart: "S \<inter> set taken = {}" using assms(1) by (auto simp: lane_inv_def held_ids_def)
  note inv = claim_members_inv [OF linv d apart held run]
  have frame: "pass_frame s (set_lane l s)"
    using take_pass_lane(3,4) [of "dr_lane s"] tk by (simp add: pass_frame_def)
  have "queue_held (dr_lane s') \<or> waiting_told s'" if "rows_readable P"
  proof (cases "queue_held (dr_lane s)")
    case True
    then show ?thesis using queue_held_frame [OF pass_frame_trans [OF frame]] inv by simp
  next
    case False
    then have "waiting_told (set_lane l s)" using take_pass_lane(2) [of "dr_lane s"] tk by (simp add: waiting_told_def)
    with claim_members_told [OF linv d apart held run _ that] show ?thesis by simp
  qed
  with inv pass_frame_trans [OF frame] tk show ?thesis by simp
qed

lemma run_waiting_ok: "driver_ok s \<Longrightarrow> driver_ok (run_waiting P s)"
  and run_waiting_awake: "driver_ok s \<Longrightarrow> rows_readable P \<Longrightarrow> queue_awake (run_waiting P s)"
proof -
  assume ok: "driver_ok s"
  have "driver_ok (run_waiting P s) \<and> (rows_readable P \<longrightarrow> queue_awake (run_waiting P s))"
  proof (cases "queue_held (dr_lane s) \<or> waiting (dr_lane s) = []")
    case True
    then show ?thesis using ok by (auto simp: run_waiting_def queue_awake_def waiting_told_def)
  next
    case False
    obtain ms s1 where c: "claim_waiting P None s = (ms, s1)" by fastforce
    obtain answers s2 where r: "run_pass P ms s1 = (answers, s2)" by fastforce
    have s2: "run_waiting P s = s2" using False c r by (simp add: run_waiting_def)
    have inv: "pass_frame s s1" "claims_held s1 (set ms)" "distinct (map pm_id ms)" "linv s1 (pm_member ` set ms)"
      "rows_readable P \<longrightarrow> queue_held (dr_lane s1) \<or> waiting_told s1"
      using claim_waiting_inv [OF _ _ c, of "{}" "{}"] ok by (simp_all add: driver_ok_def)
    have "keys_match s1" using keys_match_frame [OF inv(1)] ok by (simp add: driver_ok_def)
    from run_pass_inv [OF inv(4,2,3) this r] inv(5) s2 show ?thesis by blast
  qed
  then show "driver_ok (run_waiting P s)" "rows_readable P \<Longrightarrow> queue_awake (run_waiting P s)" by simp_all
qed

lemma retry_origin_inv:
  assumes "driver_ok s"
  shows "driver_ok (retry_origin P s)" "queue_awake s \<Longrightarrow> rows_readable P \<Longrightarrow> queue_awake (retry_origin P s)"
proof -
  have "driver_ok (retry_origin P s) \<and> (queue_awake s \<and> rows_readable P \<longrightarrow> queue_awake (retry_origin P s))"
  proof (cases "dr_waiting_for_origin s = None")
    case True
    then show ?thesis using assms by (simp add: retry_origin_def)
  next
    case False
    define s0 where "s0 = (land_batch_waiting_for_origin s)\<lparr>dr_origin_waiters := {}\<rparr>"
    have same: "same_lane s s0"
      using same_lane_batch_waiting [of s] by (simp add: s0_def same_lane_def)
    let ?ids = "dr_origin_waiters (land_batch_waiting_for_origin s)"
    obtain taken l where tk: "(if queue_held (dr_lane s0) then take_members ?ids (dr_lane s0)
        else take_pass (dr_lane s0)) = (taken, l)" by fastforce
    obtain ms s1 where c: "claim_members P taken None (set_lane l s0) = (ms, s1)" by fastforce
    obtain answers s2 where r: "run_pass P ms s1 = (answers, s2)" by fastforce
    have s2: "retry_origin P s = s2" using False tk c r
      by (cases "queue_held (dr_lane s0)") (auto simp: retry_origin_def Let_def s0_def)
    have ok0: "linv s0 {}" "claims_held s0 {}" "keys_match s0"
      using assms same_laneD [OF same] by (simp_all add: driver_ok_def)
    have linv: "linv (set_lane l s0) ({} \<union> set taken)"
      using lane_inv_take_pass [OF ok0(1)] lane_inv_take_members [OF ok0(1), of ?ids] tk by (simp split: if_splits)
    have held: "claims_held (set_lane l s0) {}" using ok0(2) claims_held_cong [of "set_lane l s0" s0] by simp
    have d: "distinct (map change_id taken)"
      using takeable_take_pass [OF lane_inv_ok [OF ok0(1)]] takeable_take_members [OF lane_inv_ok [OF ok0(1)], of ?ids] tk
      by (simp add: takeable_def split: if_splits)
    have frame: "pass_frame s0 (set_lane l s0)"
      using take_pass_lane(3,4) [of "dr_lane s0"] take_members_lane(3,4) [of ?ids "dr_lane s0"] tk
      by (simp add: pass_frame_def split: if_splits)
    note inv = claim_members_inv [OF linv d _ held c]
    have "keys_match s1" using inv keys_match_frame [OF pass_frame_trans [OF frame]] ok0(3) by simp
    moreover have "queue_held (dr_lane s1) \<or> waiting_told s1" if "rows_readable P"
    proof (cases "queue_held (dr_lane s0)")
      case True
      then show ?thesis using queue_held_frame [OF pass_frame_trans [OF frame]] inv by simp
    next
      case no: False
      then have "waiting_told (set_lane l s0)"
        using take_pass_lane(2) [of "dr_lane s0"] tk by (simp add: waiting_told_def)
      with claim_members_told [OF linv d _ held c _ that] show ?thesis by simp
    qed
    ultimately show ?thesis using run_pass_inv [of s1 ms P answers s2] inv r s2 by auto
  qed
  then show "driver_ok (retry_origin P s)" "queue_awake s \<Longrightarrow> rows_readable P \<Longrightarrow> queue_awake (retry_origin P s)"
    by simp_all
qed

end
