(* ===== verification/Lane_Driver_Batch_Inv.thy ===== *)
theory Lane_Driver_Batch_Inv
  imports Lane_Driver_Inv
begin

text \<open>
  The batch's part of the invariants: a batch that fails or lands lets every claim go, one that lands or heals a member lets
  that one's go, and every end of a batch passes the queue.
\<close>

section \<open>Letting go of a failed batch\<close>

lemma unqueue_failed_member_inv:
  assumes "linv s {}" "claims_held s {}" "c \<notin> member_ids (waiting (dr_lane s))"
  shows "dr_lane (unqueue_failed_member R reason c s) = dr_lane s \<and>
    linv (unqueue_failed_member R reason c s) {} \<and> claims_held (unqueue_failed_member R reason c s) {} \<and>
    hm_keys (dr_held (unqueue_failed_member R reason c s)) = hm_keys (dr_held s) - {c}"
proof -
  define s1 where "s1 = snd (unhold_member c s)"
  define got where "got = hm_get (dr_held s) c"
  define ch where "ch = (case got of Some m \<Rightarrow> Some (pm_change m)
    | None \<Rightarrow> (case rd_failed_row R c of Inl e \<Rightarrow> None | Inr ch \<Rightarrow> ch))"
  define t where "t = (case ch of Some ch \<Rightarrow> Some (change_thread ch c)
    | None \<Rightarrow> (case rd_queued_thread R c of Inl e \<Rightarrow> None | Inr t \<Rightarrow> t))"
  define s2 where "s2 = (case t of Some t \<Rightarrow> emit_unqueued t c UnqBatchFailed None s1 | None \<Rightarrow> s1)"
  define s3 where "s3 = (case ch of
      Some ch \<Rightarrow>
        if change_is_pending ch
        then effect (SettleSource \<lparr>settle_change = ch, settle_snapshot =
               (case rd_branch_head R (ch_repo ch) (ch_branch ch) of None \<Rightarrow> [] | Some h \<Rightarrow> h), settle_landed = False\<rparr>)
             (effect (TellApplyAllFailed c reason) s2)
        else s2
    | None \<Rightarrow> s2)"
  have whole: "unqueue_failed_member R reason c s = (case got of None \<Rightarrow> s3 | Some m \<Rightarrow> drop_member m s3)"
    unfolding unqueue_failed_member_def unhold_member_def Let_def s3_def s2_def t_def ch_def got_def s1_def prod.case snd_conv
    by (rule refl)
  have s1: "dr_lane s1 = dr_lane s" "dr_effects s1 = dr_effects s" "dr_held s1 = hm_remove c (dr_held s)"
    by (simp_all add: s1_def unhold_member_def)
  have "lane_inv (dr_lane s) (dr_effects s @ [EmitUnqueued u c UnqBatchFailed None]) {}" for u
    using lane_inv_leave [OF assms(1,3), of "EmitUnqueued u c UnqBatchFailed None"] by simp
  then have s2: "linv s2 {}" "dr_lane s2 = dr_lane s" "dr_held s2 = dr_held s1" "dr_claims s2 = dr_claims s1"
    using assms(1) s1 by (auto simp: s2_def emit_unqueued_def split: option.split)
  have same: "same_lane s2 s3"
    unfolding s3_def
    by (auto intro!: same_lane_trans [OF same_lane_effect same_lane_effect] split: option.split)
  have keys: "hm_keys (dr_held s3) = hm_keys (dr_held s) - {c}"
    using same_laneD(7) [OF same] s2 s1 by simp
  show ?thesis
  proof (cases got)
    case None
    then have "hm_remove c (dr_held s) = dr_held s" by (simp add: got_def hm_get_None_iff hm_remove_absent)
    then have "s1 = s" by (simp add: s1_def unhold_member_def)
    then have "claims_held s2 {}" using assms(2) s2 claims_held_cong [of s2 s "{}"] by simp
    then show ?thesis
      using whole None s2 keys same_laneD(1,2,5) [OF same] by simp
  next
    case (Some m)
    then have "claims_held s1 {m}" using claims_held_unhold(1) [OF assms(2)] by (simp add: got_def s1_def)
    then have "claims_held s2 {m}" using s2 claims_held_cong [of s2 s1 "{m}"] by simp
    then have "claims_held s3 {m}" using same_laneD(2) [OF same] by simp
    from claims_held_drop [OF this, of m] have "claims_held (drop_member m s3) {}" by simp
    then show ?thesis
      using whole Some s2 keys same_laneD(1,5) [OF same] by simp
  qed
qed

lemma unqueue_failed_members_inv:
  assumes "linv s {}" "claims_held s {}" "set cs \<inter> member_ids (waiting (dr_lane s)) = {}"
  shows "dr_lane (unqueue_failed_members R reason cs s) = dr_lane s \<and>
    linv (unqueue_failed_members R reason cs s) {} \<and> claims_held (unqueue_failed_members R reason cs s) {} \<and>
    hm_keys (dr_held (unqueue_failed_members R reason cs s)) = hm_keys (dr_held s) - set cs"
  using assms
proof (induction cs arbitrary: s)
  case Nil
  then show ?case by (simp add: unqueue_failed_members_def)
next
  case (Cons c cs)
  define s1 where "s1 = unqueue_failed_member R reason c s"
  have inv: "dr_lane s1 = dr_lane s \<and> linv s1 {} \<and> claims_held s1 {} \<and> hm_keys (dr_held s1) = hm_keys (dr_held s) - {c}"
    unfolding s1_def by (rule unqueue_failed_member_inv) (use Cons.prems in auto)
  have step: "unqueue_failed_members R reason (c # cs) s = unqueue_failed_members R reason cs s1"
    by (simp add: unqueue_failed_members_def s1_def)
  have "set cs \<inter> member_ids (waiting (dr_lane s1)) = {}" using Cons.prems(3) inv by auto
  with Cons.IH [of s1] inv show ?case by (auto simp: step)
qed

section \<open>A batch ends\<close>

definition batch_held :: "lane_driver \<Rightarrow> bool" where
  "batch_held s \<longleftrightarrow> linv s {} \<and> claims_held s {} \<and> hm_keys (dr_held s) \<subseteq> resolving_ids (dr_lane s)"

lemma driver_ok_batch_held: "driver_ok s \<Longrightarrow> batch_held s"
  by (simp add: driver_ok_def batch_held_def)

lemma same_lane_retain: "same_lane s (actors_retain s)"
  by (simp add: same_lane_def actors_retain_def)

lemma same_lane_landing: "same_lane s (s\<lparr>dr_landing := x\<rparr>)"
  by (simp add: same_lane_def)

lemma fail_batch_inv:
  assumes "batch_held s" "resolving_batch_of b (dr_lane s) = Some batch"
  shows "driver_ok (fail_batch R b reason actor hold s) \<and>
    (rows_readable (rd_pass R) \<longrightarrow> queue_awake (fail_batch R b reason actor hold s))"
proof -
  have res: "resolving (dr_lane s) = Some batch" using assms(2) by (simp add: lane_simps)
  have ended: "end_batch b (dr_lane s) = (Some batch, (dr_lane s)\<lparr>resolving := None\<rparr>)"
    using assms(2) res by (simp add: end_batch_def)
  define s1 where "s1 = effect (EmitBatchFailed b reason actor)
    ((set_lane ((dr_lane s)\<lparr>resolving := None\<rparr>) s)\<lparr>dr_landing := None\<rparr>)"
  define s2 where "s2 = unqueue_failed_members R reason (map change_id (unlanded batch)) s1"
  define s3 where "s3 = actors_retain (announce_lane (effect (CleanupLaneWorktree b (lane_thread_id batch) hold) s2))"
  have whole: "fail_batch R b reason actor hold s = run_waiting (rd_pass R) s3"
    by (simp add: fail_batch_def ended Let_def s1_def s2_def s3_def)
  have linv: "linv s {}" and held: "claims_held s {}" and keys: "hm_keys (dr_held s) \<subseteq> member_ids (unlanded batch)"
    using assms(1) res by (simp_all add: batch_held_def resolving_ids_def)
  have "linv s1 {}" using lane_inv_end_batch [OF linv, of "EmitBatchFailed b reason actor" b] ended by (simp add: s1_def)
  moreover have "claims_held s1 {}" using held claims_held_cong [of s1 s "{}"] by (simp add: s1_def)
  moreover have "set (map change_id (unlanded batch)) \<inter> member_ids (waiting (dr_lane s1)) = {}"
    using lane_ok_disjoint [OF lane_inv_ok [OF linv]] res by (auto simp: s1_def resolving_ids_def)
  ultimately have s2: "dr_lane s2 = dr_lane s1 \<and> linv s2 {} \<and> claims_held s2 {} \<and>
      hm_keys (dr_held s2) = hm_keys (dr_held s1) - set (map change_id (unlanded batch))"
    unfolding s2_def by (rule unqueue_failed_members_inv)
  then have "keys_match s2" using keys by (auto simp: s1_def resolving_ids_def)
  then have "driver_ok s2" using s2 unfolding driver_ok_def by blast
  moreover have "same_lane s2 s3"
    unfolding s3_def
    by (rule same_lane_trans [OF same_lane_trans [OF same_lane_effect same_lane_announce] same_lane_retain]) simp_all
  ultimately have "driver_ok s3" by (simp add: driver_ok_same)
  with run_waiting_ok run_waiting_awake whole show ?thesis by simp
qed

lemma close_landed_inv:
  assumes "linv s {}" "claims_held s {}" "hm_keys (dr_held s) = {}" "resolving_batch_of (batch_id batch) (dr_lane s) \<noteq> None"
  shows "driver_ok (close_landed R batch pre post hold settled s) \<and>
    (rows_readable (rd_pass R) \<longrightarrow> queue_awake (close_landed R batch pre post hold settled s))"
proof -
  define s1 where "s1 = set_lane (snd (end_batch (batch_id batch) (dr_lane s)))
    (effect (EmitBatchLanded (batch_id batch) pre post) (s\<lparr>dr_landing := None\<rparr>))"
  define s2 where "s2 = actors_retain (spawn_settled settled (announce_lane
    (effect (CleanupLaneWorktree (batch_id batch) (lane_thread_id batch) hold) s1)))"
  have whole: "close_landed R batch pre post hold settled s = run_waiting (rd_pass R) s2"
    by (simp add: close_landed_def Let_def s1_def s2_def)
  have "linv s1 {}"
    using lane_inv_end_batch [OF assms(1), of "EmitBatchLanded (batch_id batch) pre post" "batch_id batch"]
    by (simp add: s1_def)
  moreover have "claims_held s1 {}" using assms(2) claims_held_cong [of s1 s "{}"] by (simp add: s1_def)
  moreover have "keys_match s1" using assms(3,4) by (simp add: s1_def resolving_ids_def lane_simps)
  ultimately have "driver_ok s1" by (simp add: driver_ok_def)
  moreover have "same_lane s1 s2"
    unfolding s2_def spawn_settled_def
    by (rule same_lane_trans [OF same_lane_trans [OF same_lane_trans [OF same_lane_effect same_lane_announce]
          same_lane_settle] same_lane_retain]) simp_all
  ultimately have "driver_ok s2" by (simp add: driver_ok_same)
  with run_waiting_ok run_waiting_awake whole show ?thesis by simp
qed

section \<open>Holding and landing its members\<close>

lemma hold_unlanded_all_held:
  "member_ids ms \<subseteq> hm_keys (dr_held s) \<Longrightarrow> hold_unlanded R ms s = (Inr (), s)"
  by (induction ms) (auto simp: Let_def hm_get_None_iff)

lemma hold_unlanded_inv:
  assumes "linv s {}" "claims_held s {}" "hold_unlanded R ms s = (out, s')"
  shows "dr_lane s' = dr_lane s \<and> dr_effects s' = dr_effects s \<and> claims_held s' {} \<and>
    hm_keys (dr_held s') \<subseteq> hm_keys (dr_held s) \<union> member_ids ms \<and>
    (out = Inr () \<longrightarrow> hm_keys (dr_held s') = hm_keys (dr_held s) \<union> member_ids ms)"
  using assms
proof (induction ms arbitrary: s)
  case (Cons m ms)
  show ?case
  proof (cases "hm_get (dr_held s) (change_id m)")
    case (Some pm)
    then have "change_id m \<in> hm_keys (dr_held s)" using hm_get_None_iff [of "dr_held s" "change_id m"] by auto
    with Cons.IH [OF Cons.prems(1,2)] Cons.prems(3) Some show ?thesis by (auto simp: Let_def)
  next
    case None
    obtain got s1 where t: "take_claim False (change_id m) s = (got, s1)" by fastforce
    note sel = take_claim_sel [OF t]
    show ?thesis
    proof (cases got)
      case None
      with t Cons.prems(3) \<open>hm_get (dr_held s) (change_id m) = None\<close>
      have "s' = s1" "out \<noteq> Inr ()" by (auto simp: Let_def)
      with take_claim_refused [OF Cons.prems(2)] t None sel show ?thesis by auto
    next
      case (Some k)
      note k = take_claim_granted [OF Cons.prems(2) t [unfolded Some]]
      have drop: "claims_held (do_claim_op (DropClaim k) s1) {}"
        using k sel by (intro claims_held_drop_fresh [of s1 "{}" k "change_id m"]) auto
      show ?thesis
      proof (cases "\<exists>ch. rd_row R (change_id m) = Inr (Some ch) \<and> change_is_pending ch")
        case False
        then have "s' = do_claim_op (DropClaim k) s1" "out \<noteq> Inr ()"
          using Cons.prems(3) t Some \<open>hm_get (dr_held s) (change_id m) = None\<close>
          by (auto simp: Let_def split: sum.splits option.splits if_splits)
        with drop sel show ?thesis by auto
      next
        case True
        then obtain ch where ch: "rd_row R (change_id m) = Inr (Some ch)" "change_is_pending ch" by blast
        let ?pm = "\<lparr>pm_member = m, pm_change = ch, pm_claim = k, pm_actor = None\<rparr>"
        have "claims_held s1 {?pm}"
          using k sel by (intro claims_held_insert) (auto simp: holder_ok_def)
        note hold = claims_held_hold [OF this, of ?pm]
        have next': "hold_unlanded R ms (hold_member ?pm s1) = (out, s')"
          using Cons.prems(3) t Some ch \<open>hm_get (dr_held s) (change_id m) = None\<close> by (simp add: Let_def)
        have lane: "dr_lane (hold_member ?pm s1) = dr_lane s" "dr_effects (hold_member ?pm s1) = dr_effects s"
          using sel by (simp_all add: hold_member_def Let_def split: option.split)
        have "hm_keys (dr_held (hold_member ?pm s1)) = insert (change_id m) (hm_keys (dr_held s))"
          using hold(2) sel by (simp add: hm_keys_def)
        with Cons.IH [OF _ _ next'] hold(1) lane Cons.prems(1) show ?thesis by auto
      qed
    qed
  qed
qed simp

lemma land_member_inv:
  assumes "linv s {}" "claims_held s {}" "hm_get (dr_held s) c = Some m"
    and "land_member R m merge (snd (unhold_member c s)) = (settled, s')"
  shows "dr_lane s' = landed c (dr_lane s) \<and> linv s' {} \<and> claims_held s' {} \<and>
    hm_keys (dr_held s') = hm_keys (dr_held s) - {c} \<and> dr_waiting_for_origin s' = dr_waiting_for_origin s"
proof -
  define s1 where "s1 = set_lane (landed (pm_id m) (dr_lane (snd (unhold_member c s)))) (snd (unhold_member c s))"
  note m = claims_held_unhold [OF assms(2,3)]
  have s': "s' = snd (announce_landing (pr_commits (rd_pass R)) m (Some merge) s1)"
    using assms(4) by (simp add: land_member_def Let_def split_def s1_def)
  have s1: "dr_lane s1 = landed c (dr_lane s)" "dr_effects s1 = dr_effects s" "dr_held s1 = hm_remove c (dr_held s)"
    "dr_waiting_for_origin s1 = dr_waiting_for_origin s"
    using m(2) by (simp_all add: s1_def unhold_member_def)
  have "claims_held s1 {m}" using m(1) claims_held_cong [of s1 "snd (unhold_member c s)"] by (simp add: s1_def)
  from claims_held_announce [OF this, of m] have "claims_held s' {}" by (simp add: s')
  moreover have "linv s' {}"
    using lane_inv_landed [OF assms(1), of c "applied_effect (pr_commits (rd_pass R)) m (Some merge)"] m(2,3) s1
    by (simp add: s' announce_landing_parts holder_ok_def)
  ultimately show ?thesis using s1 by (simp add: s' announce_landing_parts)
qed

lemma land_members_inv:
  assumes "linv s {}" "claims_held s {}" "keys_match s" "land_members R merges s = (settled, s')"
  shows "linv s' {} \<and> claims_held s' {} \<and> keys_match s' \<and>
    resolving_ids (dr_lane s') = resolving_ids (dr_lane s) - set (map fst merges) \<and>
    map_option batch_id (resolving (dr_lane s')) = map_option batch_id (resolving (dr_lane s))"
  using assms
proof (induction merges arbitrary: s settled)
  case (Cons cm merges)
  obtain c merge where cm: "cm = (c, merge)" by fastforce
  show ?case
  proof (cases "hm_get (dr_held s) c")
    case None
    then have "c \<notin> hm_keys (dr_held s)" by (simp add: hm_get_None_iff)
    then have same: "snd (unhold_member c s) = s" by (simp add: unhold_member_def hm_remove_absent)
    then have "land_members R merges s = (settled, s')"
      using Cons.prems(4) cm None by (simp add: unhold_member_def split_def)
    from Cons.IH [OF Cons.prems(1-3) this] cm \<open>c \<notin> hm_keys (dr_held s)\<close> Cons.prems(3) show ?thesis by auto
  next
    case (Some m)
    obtain settled1 s1 where one: "land_member R m merge (snd (unhold_member c s)) = (settled1, s1)" by fastforce
    obtain rest where next': "land_members R merges s1 = (rest, s')"
      using Cons.prems(4) cm Some one by (auto simp: unhold_member_def split: prod.splits)
    note inv = land_member_inv [OF Cons.prems(1,2) Some one]
    have res: "resolving_ids (dr_lane s1) = resolving_ids (dr_lane s) - {c}" using inv by (simp add: resolving_ids_landed)
    have ids: "map_option batch_id (resolving (dr_lane s1)) = map_option batch_id (resolving (dr_lane s))"
      using inv by (simp add: lane_simps option.map_comp comp_def)
    have keys: "keys_match s1" using inv Cons.prems(3) res by (metis)
    have "linv s1 {}" "claims_held s1 {}" using inv by blast+
    from Cons.IH [OF this keys next'] ids res cm show ?thesis by (simp add: Diff_insert2 [symmetric] insert_commute)
  qed
qed simp

lemma heal_members_inv:
  assumes "linv s {}" "claims_held s {}" "keys_match s" "heal_members R ms s = (settled, s')"
  shows "linv s' {} \<and> claims_held s' {} \<and> keys_match s' \<and>
    map_option batch_id (resolving (dr_lane s')) = map_option batch_id (resolving (dr_lane s))"
  using assms
proof (induction ms arbitrary: s settled)
  case (Cons m ms)
  show ?case
  proof (cases "\<exists>merge pm. find_landing_merge (rd_git R) (snapshot_sha m) = Inr (Some merge) \<and>
      hm_get (dr_held s) (change_id m) = Some pm")
    case True
    then obtain merge pm where found: "find_landing_merge (rd_git R) (snapshot_sha m) = Inr (Some merge)"
      and pm: "hm_get (dr_held s) (change_id m) = Some pm" by blast
    obtain settled1 s1 where one: "land_member R pm merge (snd (unhold_member (change_id m) s)) = (settled1, s1)" by fastforce
    obtain rest where next': "heal_members R ms s1 = (rest, s')"
      using Cons.prems(4) found pm one by (auto simp: unhold_member_def split: prod.splits)
    note inv = land_member_inv [OF Cons.prems(1,2) pm one]
    have keys: "keys_match s1" using inv Cons.prems(3) by (simp add: resolving_ids_landed)
    have ids: "map_option batch_id (resolving (dr_lane s1)) = map_option batch_id (resolving (dr_lane s))"
      using inv by (simp add: lane_simps option.map_comp comp_def)
    have "linv s1 {}" "claims_held s1 {}" using inv by blast+
    from Cons.IH [OF this keys next'] ids show ?thesis by simp
  next
    case False
    have "heal_members R ms s = (settled, s')"
    proof (cases "find_landing_merge (rd_git R) (snapshot_sha m)")
      case (Inr found)
      show ?thesis
      proof (cases found)
        case (Some merge)
        then have none: "hm_get (dr_held s) (change_id m) = None" using False Inr by (cases "hm_get (dr_held s) (change_id m)") auto
        then have "snd (unhold_member (change_id m) s) = s"
          by (simp add: unhold_member_def hm_get_None_iff hm_remove_absent)
        with Cons.prems(4) Inr Some none show ?thesis by (simp add: unhold_member_def)
      qed (use Cons.prems(4) Inr in simp)
    qed (use Cons.prems(4) in simp)
    from Cons.IH [OF Cons.prems(1-3) this] show ?thesis .
  qed
qed simp

end
