(* ===== verification/Lane_Driver_Msg_Inv.thy ===== *)
theory Lane_Driver_Msg_Inv
  imports Lane_Driver_Batch_Inv
begin

text \<open>
  Each message, and the restart, keeps the driver's invariants.
\<close>

definition reads_readable :: "lane_reads \<Rightarrow> bool" where
  "reads_readable R \<longleftrightarrow> rows_readable (rd_pass R) \<and> rows_readable (rd_pass_again R)"

text \<open>What an operation owes: the invariants, and with readable rows a queue that stays awake.\<close>

definition keeps :: "lane_reads \<Rightarrow> lane_driver \<Rightarrow> lane_driver \<Rightarrow> bool" where
  "keeps R s s' \<longleftrightarrow> driver_ok s' \<and> (reads_readable R \<and> queue_awake s \<longrightarrow> queue_awake s')"

lemma keeps_refl: "driver_ok s \<Longrightarrow> keeps R s s"
  by (simp add: keeps_def)

lemma keeps_trans: "keeps R s s1 \<Longrightarrow> keeps R s1 s2 \<Longrightarrow> keeps R s s2"
  by (simp add: keeps_def)

lemma keeps_awake: "driver_ok s' \<and> (rows_readable (rd_pass R) \<longrightarrow> queue_awake s') \<Longrightarrow> keeps R s s'"
  by (simp add: keeps_def reads_readable_def)

lemma keeps_same:
  "driver_ok s \<Longrightarrow> same_lane s s' \<Longrightarrow> dr_waiting_for_origin s' = dr_waiting_for_origin s \<Longrightarrow> keeps R s s'"
  by (simp add: keeps_def driver_ok_same queue_awake_same)

lemma keeps_open_batch:
  "driver_ok s \<Longrightarrow> same_lane s s' \<Longrightarrow> resolving (dr_lane s) \<noteq> None \<Longrightarrow> keeps R s s'"
  by (simp add: keeps_def driver_ok_same queue_awake_def queue_held_def same_laneD(5))

lemma keeps_run_waiting: "driver_ok s \<Longrightarrow> keeps R s0 (run_waiting (rd_pass R) s)"
  by (simp add: keeps_awake run_waiting_ok run_waiting_awake)

section \<open>The batch's messages\<close>

lemma fail_batch_keeps: "batch_held s \<Longrightarrow> driver_ok s \<or> resolving_batch_of b (dr_lane s) \<noteq> None \<Longrightarrow>
    keeps R s (fail_batch R b reason actor hold s)"
proof (cases "resolving_batch_of b (dr_lane s)")
  case None
  assume "driver_ok s \<or> resolving_batch_of b (dr_lane s) \<noteq> None"
  with None show ?thesis by (simp add: fail_batch_def end_batch_def keeps_refl)
next
  case (Some batch)
  assume "batch_held s"
  from fail_batch_inv [OF this Some] show ?thesis by (rule keeps_awake)
qed

lemma land_batch_keeps:
  assumes ok: "driver_ok s"
  shows "keeps R s (land_batch R b s)"
proof (cases "resolving_batch_of b (dr_lane s)")
  case None
  then show ?thesis by (simp add: land_batch_def keeps_refl ok)
next
  case (Some batch)
  then have res: "resolving (dr_lane s) = Some batch" and b: "batch_id batch = b" by (simp_all add: lane_simps)
  have keys: "hm_keys (dr_held s) = member_ids (unlanded batch)"
    using ok res by (simp add: driver_ok_def resolving_ids_def)
  have held: "hold_batch_members R batch s = (Inr (), s)"
    using keys by (simp add: hold_batch_members_def hold_unlanded_all_held)
  have failing: "keeps R s (fail_batch R b reason None True s)" for reason
    by (rule fail_batch_keeps) (simp_all add: ok driver_ok_batch_held)
  show ?thesis
  proof (cases "verify_integration (rd_worktree R) (unlanded batch)")
    case (Inl e)
    with Some held failing show ?thesis by (simp add: land_batch_def)
  next
    case (Inr merges)
    then have ids: "map fst merges = map change_id (unlanded batch)"
      using member_merges_ids
      by (auto simp: verify_integration_def split: git_answer.splits sum.splits)
    show ?thesis
    proof (cases "land_integration (rd_branch_attempts R) (pr_order (rd_pass R))")
      case (Inl e)
      with Some held Inr failing show ?thesis by (simp add: land_batch_def)
    next
      case landing: (Inr landing)
      show ?thesis
      proof (cases landing)
        case (IntegrationLanded pre post)
        define s0 where "s0 = (if pre \<noteq> post then push_after (pr_order (rd_pass R)) s else s)"
        obtain settled s1 where members: "land_members R merges s0 = (settled, s1)" by fastforce
        have whole: "land_batch R b s = close_landed R batch pre post True settled (s1\<lparr>dr_waiting_for_origin := None\<rparr>)"
          using Some held Inr landing IntegrationLanded members by (simp add: land_batch_def s0_def Let_def)
        have same: "same_lane s s0" by (simp add: s0_def same_lane_push)
        have s0: "linv s0 {}" "claims_held s0 {}" "keys_match s0"
          using ok same_laneD [OF same] by (simp_all add: driver_ok_def)
        have inv: "linv s1 {} \<and> claims_held s1 {} \<and> keys_match s1 \<and>
            resolving_ids (dr_lane s1) = resolving_ids (dr_lane s0) - set (map fst merges) \<and>
            map_option batch_id (resolving (dr_lane s1)) = map_option batch_id (resolving (dr_lane s0))"
          by (rule land_members_inv [OF s0 members])
        have "resolving_ids (dr_lane s0) = member_ids (unlanded batch)"
          using res same_laneD(5) [OF same] by (simp add: resolving_ids_def)
        then have none: "resolving_ids (dr_lane s1) = {}" using inv ids by simp
        have open1: "resolving_batch_of (batch_id batch) (dr_lane s1) \<noteq> None"
          using inv res same_laneD(5) [OF same] by (auto simp: resolving_batch_of_def split: option.splits)
        have "driver_ok (land_batch R b s) \<and> (rows_readable (rd_pass R) \<longrightarrow> queue_awake (land_batch R b s))"
          unfolding whole
          by (rule close_landed_inv)
            (use inv none open1 same_laneD [OF same_lane_origin [of s1 None]] in auto)
        then show ?thesis by (rule keeps_awake)
      next
        case (CatchUpConflict main commits)
        have "same_lane s (land_batch R b s)"
          using Some held Inr landing CatchUpConflict
          by (simp add: land_batch_def)
            (intro same_lane_trans [OF same_lane_trans [OF same_lane_landing same_lane_announce] same_lane_effect]; simp)
        then show ?thesis by (rule keeps_open_batch [OF ok]) (simp add: res)
      next
        case (IntegrationWaiting why)
        have "same_lane s (wait_for_origin why (s\<lparr>dr_landing := None, dr_batch_waiting := Some (b, lane_thread_id batch)\<rparr>))"
          by (simp add: same_lane_def wait_for_origin_def)
        then have "same_lane s (land_batch R b s)"
          using Some held Inr landing IntegrationWaiting same_lane_trans [OF _ same_lane_announce]
          by (simp add: land_batch_def)
        then show ?thesis by (rule keeps_open_batch [OF ok]) (simp add: res)
      qed
    qed
  qed
qed

lemma thread_ended_keeps:
  assumes ok: "driver_ok s"
  shows "keeps R s (thread_ended R b t ended s)"
proof (cases "resolving_batch_of b (dr_lane s)")
  case None
  then show ?thesis
    by (simp add: thread_ended_def keeps_same [OF ok same_lane_effect])
next
  case (Some batch)
  then have res: "resolving (dr_lane s) \<noteq> None" by (simp add: lane_simps)
  show ?thesis
  proof (cases ended)
    case EndCompleted
    have "same_lane s (thread_ended R b t ended s)"
      using Some EndCompleted unfolding thread_ended_def land_when_free_def
      by (simp add: same_lane_trans [OF same_lane_trans [OF same_lane_landing same_lane_announce] same_lane_effect])
    then show ?thesis by (rule keeps_open_batch [OF ok]) (rule res)
  next
    case EndStopped
    have "same_lane s (thread_ended R b t ended s)"
      using Some EndStopped by (simp add: thread_ended_def same_lane_trans [OF same_lane_landing same_lane_announce])
    then show ?thesis by (rule keeps_open_batch [OF ok]) (rule res)
  next
    case (EndFailed reason)
    with Some fail_batch_keeps [OF driver_ok_batch_held [OF ok]] ok show ?thesis by (simp add: thread_ended_def)
  qed
qed

lemma end_from_outside_keeps:
  assumes ok: "driver_ok s"
  shows "keeps R s (end_from_outside R b reason actor s)"
proof (cases "resolving_batch_of b (dr_lane s)")
  case None
  then show ?thesis by (simp add: end_from_outside_def keeps_refl ok)
next
  case (Some batch)
  define s1 where "s1 = fail_batch R b reason actor False s"
  have failed: "keeps R s s1" unfolding s1_def by (rule fail_batch_keeps) (simp_all add: ok driver_ok_batch_held)
  then have "keeps R s1 (effect (InterruptLaneThread t a) s1)" for t a
    by (intro keeps_same same_lane_effect) (simp_all add: keeps_def)
  with failed keeps_trans [OF failed] Some show ?thesis by (simp add: end_from_outside_def s1_def Let_def)
qed

lemma cancel_resolving_keeps: "driver_ok s \<Longrightarrow> keeps R s (snd (cancel_resolving R b actor s))"
  by (simp add: cancel_resolving_def keeps_refl end_from_outside_keeps)

section \<open>Leaving the queue\<close>

lemma unqueue_absent: "c \<notin> member_ids (waiting l) \<Longrightarrow> snd (unqueue c l) = l"
proof -
  assume "c \<notin> member_ids (waiting l)"
  then have "filter (\<lambda>m. change_id m \<noteq> c) (waiting l) = waiting l" by (intro filter_True) auto
  then show ?thesis by (simp add: unqueue_def Let_def)
qed

lemma withdraw_keeps:
  assumes ok: "driver_ok s"
  shows "keeps R s (snd (withdraw R c reason actor s))"
proof (cases "c \<in> member_ids (waiting (dr_lane s))")
  case False
  then have "\<not> fst (unqueue c (dr_lane s))" by (simp add: unqueue_hit)
  then have "snd (withdraw R c reason actor s) = set_lane (dr_lane s) s"
    using unqueue_absent [OF False] by (simp add: withdraw_def split_def Let_def)
  then show ?thesis by (simp add: set_lane_def keeps_refl ok)
next
  case True
  then have hit: "fst (unqueue c (dr_lane s))" by (simp add: unqueue_hit)
  define t where "t = (case (case rd_row R c of Inl e \<Rightarrow> None | Inr ch \<Rightarrow> ch) of None \<Rightarrow> c | Some ch \<Rightarrow> change_thread ch c)"
  define s1 where "s1 = emit_unqueued t c reason actor (forget_actor c (set_lane (snd (unqueue c (dr_lane s))) s))"
  have whole: "snd (withdraw R c reason actor s) = announce_lane s1"
    using hit by (simp add: withdraw_def split_def Let_def s1_def t_def)
  have "linv s1 {}"
    using lane_inv_unqueue [of "dr_lane s" "dr_effects s" "{}" c "EmitUnqueued t c reason actor"] ok
    by (simp add: s1_def emit_unqueued_def driver_ok_def)
  moreover have "claims_held s1 {}"
    using ok claims_held_cong [of s1 s "{}"] by (simp add: s1_def emit_unqueued_def driver_ok_def)
  moreover have "keys_match s1"
    using ok by (simp add: s1_def emit_unqueued_def driver_ok_def resolving_ids_def lane_simps)
  ultimately have "driver_ok s1" by (simp add: driver_ok_def)
  moreover have "queue_awake s1" if "queue_awake s"
    using that
    by (auto simp: queue_awake_def queue_held_def waiting_told_def s1_def emit_unqueued_def lane_simps told_def)
  ultimately show ?thesis
    unfolding whole by (simp add: keeps_def driver_ok_same [OF same_lane_announce] queue_awake_same [OF same_lane_announce])
qed

lemma remove_change_keeps:
  assumes ok: "driver_ok s"
  shows "keeps R s (snd (remove_change R c actor s))"
proof (cases "removal (dr_lane s) c")
  case (Inl refused)
  then show ?thesis by (simp add: remove_change_def keeps_refl ok)
next
  case (Inr u)
  obtain ch s1 where w: "withdraw R c UnqRemoved actor s = (ch, s1)" by fastforce
  have k1: "keeps R s s1" using withdraw_keeps [OF ok, of R c UnqRemoved actor] w by simp
  then have ok1: "driver_ok s1" by (simp add: keeps_def)
  define s2 where "s2 = effect (TellApplyAllFailed c lane_removed) s1"
  have k2: "keeps R s1 s2" unfolding s2_def by (rule keeps_same [OF ok1 same_lane_effect]) simp_all
  then have ok2: "driver_ok s2" by (simp add: keeps_def)
  have "keeps R s2 (effect (SettleSource x) s2)" for x by (rule keeps_same [OF ok2 same_lane_effect]) simp_all
  with keeps_trans [OF keeps_trans [OF k1 k2]] keeps_trans [OF k1 k2] Inr w show ?thesis
    by (auto simp: remove_change_def Let_def s2_def split: option.split)
qed

lemma cancel_members_keeps:
  assumes ok: "driver_ok s"
  shows "keeps R s (snd (cancel_members R cs actor s))"
proof -
  have fold: "keeps R s (foldl (\<lambda>s c. snd (remove_change R c actor s)) s xs)" if "driver_ok s" for xs s
    using that
  proof (induction xs arbitrary: s)
    case (Cons x xs)
    have k: "keeps R s (snd (remove_change R x actor s))" by (rule remove_change_keeps [OF Cons.prems])
    then show ?case using keeps_trans [OF k Cons.IH] by (simp add: keeps_def)
  qed (simp add: keeps_refl)
  define s1 where "s1 = foldl (\<lambda>s c. snd (remove_change R c actor s)) s (hold_waiting (held_of (dr_lane s) cs))"
  have k1: "keeps R s s1" unfolding s1_def by (rule fold [OF ok])
  then have "driver_ok s1" by (simp add: keeps_def)
  with keeps_trans [OF k1 cancel_resolving_keeps] k1 show ?thesis
    by (auto simp: cancel_members_def Let_def s1_def split: option.split)
qed

section \<open>Submitting\<close>

text \<open>A submission comes with a claim of its own: granted, not handed off, not one the lane already has; and its change is
  not one that left the lane because it was no longer pending.\<close>

definition submission_ok :: "lane_driver \<Rightarrow> submission \<Rightarrow> bool" where
  "submission_ok s sub \<longleftrightarrow>
     claimed_change (sub_claim sub) = ch_id (sub_change sub) \<and> owns (dr_claims s) (sub_claim sub) \<and>
     sub_claim sub \<notin> pm_claim ` held_members s \<and> ch_id (sub_change sub) \<notin> dropped (dr_effects s)"

lemma owns_unique:
  "claims_ok st \<Longrightarrow> owns st k \<Longrightarrow> owns st k' \<Longrightarrow> claimed_change k = claimed_change k' \<Longrightarrow> k = k'"
  using claims_inv_live [of "st_claims st" "st_live st" k k'] by (auto simp: owns_def)

lemma submission_not_held:
  assumes "claims_held s {}" "submission_ok s sub"
  shows "ch_id (sub_change sub) \<notin> hm_keys (dr_held s)"
proof
  assume "ch_id (sub_change sub) \<in> hm_keys (dr_held s)"
  then obtain m where m: "hm_get (dr_held s) (ch_id (sub_change sub)) = Some m"
    using hm_get_None_iff [of "dr_held s" "ch_id (sub_change sub)"] by auto
  have "holder_ok m" "owns (dr_claims s) (pm_claim m)" "pm_id m = ch_id (sub_change sub)"
    using assms(1) m held_memberI [OF m] by (auto simp: claims_held_def)
  then have "pm_claim m = sub_claim sub"
    using assms owns_unique [of "dr_claims s" "pm_claim m" "sub_claim sub"]
    by (simp add: claims_held_def submission_ok_def holder_ok_def)
  with imageI [OF held_memberI [OF m], of pm_claim] assms(2) show False by (simp add: submission_ok_def)
qed

lemma submission_claims_held:
  assumes "claims_held s {}" "submission_ok s sub" "change_id m = ch_id (sub_change sub)"
  shows "claims_held s {submitted_member sub m}"
  using claims_held_insert [OF assms(1), of "submitted_member sub m"] assms submission_not_held [OF assms(1,2)]
  by (simp add: submitted_member_def holder_ok_def submission_ok_def)

lemma pass_answer_keeps:
  assumes "linv s (pm_member ` set ms)" "claims_held s (set ms)" "distinct (map pm_id ms)" "keys_match s"
    and "rows_readable (rd_pass R) \<Longrightarrow> queue_held (dr_lane s) \<or> waiting_told s"
  shows "keeps R s0 (snd (pass_answer (rd_pass R) ms c t s))"
proof -
  obtain answers s1 where r: "run_pass (rd_pass R) ms s = (answers, s1)" by fastforce
  then have "snd (pass_answer (rd_pass R) ms c t s) = s1" by (simp add: pass_answer_def)
  with run_pass_inv [OF assms(1-4) r] assms(5) show ?thesis by (auto simp: keeps_def reads_readable_def)
qed

lemma submit_change_keeps:
  assumes ok: "driver_ok s" and sub: "submission_ok s sub"
  shows "keeps R s (snd (submit_change (rd_pass R) sub s))"
proof -
  define c where "c = ch_id (sub_change sub)"
  have inv: "linv s {}" "claims_held s {}" "keys_match s" using ok by (simp_all add: driver_ok_def)
  have fresh: "c \<notin> resolving_ids (dr_lane s)" using submission_not_held [OF inv(2) sub] inv(3) by (simp add: c_def)
  let ?pm = "\<lambda>snap. submitted_member sub \<lparr>change_id = c, snapshot_sha = snap\<rparr>"
  have mine: "claims_held s {?pm snap}" for snap using submission_claims_held [OF inv(2) sub] by (simp add: c_def)
  have pm: "pm_member (?pm snap) = \<lparr>change_id = c, snapshot_sha = snap\<rparr>" for snap by (simp add: submitted_member_def)
  show ?thesis
  proof (cases "lane_place (dr_lane s) c")
    case Resolving
    with fresh show ?thesis by (simp add: lane_place_Resolving)
  next
    case Waiting
    show ?thesis
    proof (cases "queue_held (dr_lane s)")
      case True
      let ?s' = "do_claim_op (DropClaim (sub_claim sub)) s"
      have whole: "snd (submit_change (rd_pass R) sub s) = ?s'"
        using Waiting True by (simp add: submit_change_def Let_def c_def)
      have "claims_held ?s' {}"
        using claims_held_drop [OF mine, of _ "[]"] by (simp add: drop_member_def submitted_member_def)
      then show ?thesis
        using inv True unfolding whole by (simp add: keeps_def driver_ok_def queue_awake_def)
    next
      case free: False
      define snap where "snap = snapshot_of (dr_lane s) c (sub_snapshot sub)"
      obtain ms s1 where w: "claim_waiting (rd_pass R) (Some c) s = (ms, s1)" by fastforce
      have whole: "snd (submit_change (rd_pass R) sub s) = snd (pass_answer (rd_pass R) (ms @ [?pm snap]) c (ch_thread (sub_change sub)) s1)"
        using Waiting free w by (simp add: submit_change_def Let_def c_def snap_def)
      note got = claim_waiting_inv [OF inv(1) mine w]
      have taken: "fst (take_pass (dr_lane s)) = waiting (dr_lane s)" using free by (simp add: take_pass_lane)
      obtain m where m: "find (\<lambda>m. change_id m = c) (waiting (dr_lane s)) = Some m"
        using Waiting by (cases "find (\<lambda>m. change_id m = c) (waiting (dr_lane s))") (auto simp: lane_place_Waiting find_None_iff)
      then have found: "m \<in> set (waiting (dr_lane s))" "change_id m = c" by (auto simp: find_Some_iff)
      have only: "{x \<in> set (waiting (dr_lane s)). change_id x = c} = {m}"
        using found lane_ok_distinct [OF lane_inv_ok [OF inv(1)]] by (auto simp: distinct_map inj_on_def)
      have "m = \<lparr>change_id = c, snapshot_sha = snap\<rparr>" using m found(2) by (cases m) (simp add: snap_def snapshot_of_def)
      then have "linv s1 (pm_member ` set (ms @ [?pm snap]))"
        using got only taken by (simp add: pm insert_commute)
      moreover have "distinct (map pm_id (ms @ [?pm snap]))" using got by (auto simp: pm list_all_iff)
      moreover have "keys_match s1" using got keys_match_frame [of s s1] inv(3) by simp
      ultimately show ?thesis unfolding whole by (intro pass_answer_keeps) (use got in auto)
    qed
  next
    case Absent
    define m where "m = \<lparr>change_id = c, snapshot_sha = sub_snapshot sub\<rparr>"
    define s0 where "s0 = effect (EmitQueued (change_thread (sub_change sub) c) m (sub_actor sub)) s"
    obtain ms s1 where w: "claim_waiting (rd_pass R) None s0 = (ms, s1)" by fastforce
    have whole: "snd (submit_change (rd_pass R) sub s) =
        snd (pass_answer (rd_pass R) (ms @ [submitted_member sub m]) c (ch_thread (sub_change sub)) s1)"
      using Absent w by (simp add: submit_change_def arrive_def Let_def c_def m_def s0_def)
    have gone: "c \<notin> held_ids (dr_lane s)" using Absent by (simp add: lane_place_Absent)
    have "linv s0 {m}"
      using lane_inv_queued [OF inv(1), of m] gone sub
      by (simp add: s0_def m_def c_def submission_ok_def del: dropped_snoc)
    moreover have "claims_held s0 {submitted_member sub m}"
      using mine [of "sub_snapshot sub"] claims_held_cong [of s0 s] by (simp add: s0_def m_def)
    ultimately have got: "pass_frame s0 s1 \<and> claims_held s1 ({submitted_member sub m} \<union> set ms) \<and> distinct (map pm_id ms) \<and>
      pm_member ` set ms \<subseteq> set (fst (take_pass (dr_lane s0))) \<and>
      linv s1 ({m} \<union> {m \<in> set (fst (take_pass (dr_lane s0))). Some (change_id m) = None} \<union> pm_member ` set ms) \<and>
      list_all (\<lambda>m. Some (pm_id m) \<noteq> None) ms \<and>
      (rows_readable (rd_pass R) \<longrightarrow> queue_held (dr_lane s1) \<or> waiting_told s1)"
      by (rule claim_waiting_inv [OF _ _ w])
    have "set (fst (take_pass (dr_lane s0))) \<subseteq> set (waiting (dr_lane s))" by (simp add: take_pass_lane s0_def)
    then have "pm_id x \<noteq> c" if "x \<in> set ms" for x
      using got gone that by (force simp: held_ids_def)
    then have "distinct (map pm_id (ms @ [submitted_member sub m]))"
      using got by (auto simp: m_def submitted_member_def)
    moreover have "linv s1 (pm_member ` set (ms @ [submitted_member sub m]))"
      using got by (simp add: submitted_member_def)
    moreover have "keys_match s1" using got keys_match_frame [of s0 s1] inv(3) by (simp add: s0_def)
    ultimately show ?thesis unfolding whole by (intro pass_answer_keeps) (use got in auto)
  qed
qed

end
