(* ===== verification/Lane_Driver_Restart.thy ===== *)
theory Lane_Driver_Restart
  imports Lane_Driver_Msg_Inv
begin

text \<open>
  The restart: a driver that starts from any stored prefix of the events an earlier one wrote takes the lane back, holds the
  open batch's members again, and passes the queue.
\<close>

section \<open>Healing\<close>

lemma heal_waiting_inv:
  assumes "linv s {}" "claims_held s {}" "set ms \<subseteq> set (waiting (dr_lane s))" "distinct (map change_id ms)"
  shows "linv (heal_waiting R ms s) {} \<and> claims_held (heal_waiting R ms s) {} \<and>
    dr_held (heal_waiting R ms s) = dr_held s \<and> resolving (dr_lane (heal_waiting R ms s)) = resolving (dr_lane s)"
  using assms
proof (induction ms arbitrary: s)
  case (Cons m ms)
  have rest: "set ms \<subseteq> set (waiting (dr_lane s))" "distinct (map change_id ms)" using Cons.prems(3,4) by auto
  have other: "change_id x \<noteq> change_id m" if "x \<in> set ms" for x
    using Cons.prems(4) imageI [OF that, of change_id] by auto
  show ?case
  proof (cases "\<exists>merge. find_landing_merge (rd_git R) (snapshot_sha m) = Inr (Some merge)")
    case False
    then have "heal_waiting R (m # ms) s = heal_waiting R ms s" by (auto split: sum.split option.split)
    with Cons.IH [OF Cons.prems(1,2) rest] show ?thesis by simp
  next
    case True
    then obtain merge where found: "find_landing_merge (rd_git R) (snapshot_sha m) = Inr (Some merge)" by blast
    obtain got s1 where t: "take_claim False (change_id m) s = (got, s1)" by fastforce
    note sel = take_claim_sel [OF t]
    show ?thesis
    proof (cases got)
      case None
      then have "heal_waiting R (m # ms) s = heal_waiting R ms s1" using found t by simp
      moreover have "claims_held s1 {}" using take_claim_refused [OF Cons.prems(2)] t None by simp
      ultimately show ?thesis using Cons.IH [of s1] Cons.prems(1) rest sel by simp
    next
      case (Some k)
      note k = take_claim_granted [OF Cons.prems(2) t [unfolded Some]]
      have drop: "claims_held (do_claim_op (DropClaim k) s2) {}"
        if "dr_claims s2 = dr_claims s1" "dr_held s2 = dr_held s1" for s2
        using k that sel claims_held_cong [of s2 s1 "{}"]
        by (intro claims_held_drop_fresh [of s2 "{}" k "change_id m"]) auto
      show ?thesis
      proof (cases "\<exists>ch. rd_row R (change_id m) = Inr (Some ch)")
        case False
        then have "heal_waiting R (m # ms) s = heal_waiting R ms (do_claim_op (DropClaim k) s1)"
          using found t Some by (auto split: sum.split option.split)
        with Cons.IH [of "do_claim_op (DropClaim k) s1"] drop [of s1] Cons.prems(1) rest sel show ?thesis by simp
      next
        case True
        then obtain ch where ch: "rd_row R (change_id m) = Inr (Some ch)" by blast
        define s2 where "s2 = set_lane (snd (unqueue (change_id m) (dr_lane s1))) s1"
        have s2: "dr_effects s2 = dr_effects s" "dr_claims s2 = dr_claims s1" "dr_held s2 = dr_held s"
          "dr_lane s2 = snd (unqueue (change_id m) (dr_lane s))" using sel by (simp_all add: s2_def)
        have waits: "change_id m \<in> member_ids (waiting (dr_lane s))" using Cons.prems(3) by simp
        have rest2: "set ms \<subseteq> set (waiting (snd (unqueue (change_id m) (dr_lane s))))"
          using rest(1) other by (auto simp: lane_simps)
        show ?thesis
        proof (cases "change_is_pending ch")
          case False
          define s3 where "s3 = do_claim_op (DropClaim k) (effect (DroppedQuietly (change_id m)) s2)"
          have "heal_waiting R (m # ms) s = heal_waiting R ms s3"
            using found t Some ch False by (simp add: Let_def s2_def s3_def)
          moreover have "linv s3 {}"
            using lane_inv_unqueue [OF Cons.prems(1), of "change_id m" "DroppedQuietly (change_id m)"] s2
            by (simp add: s3_def del: dropped_snoc)
          moreover have "claims_held s3 {}" unfolding s3_def by (rule drop) (use s2 sel in simp_all)
          ultimately show ?thesis
            using Cons.IH [of s3] rest2 rest(2) s2 by (simp add: s3_def lane_simps)
        next
          case True
          define pm where "pm = \<lparr>pm_member = m, pm_change = ch, pm_claim = k, pm_actor = None\<rparr>"
          define s3 where "s3 = snd (announce_landing (pr_commits (rd_pass R)) pm (Some merge) s2)"
          define s4 where "s4 = effect (SettleSource \<lparr>settle_change = ch, settle_snapshot = snapshot_sha m, settle_landed = True\<rparr>) s3"
          have "heal_waiting R (m # ms) s = heal_waiting R ms s4"
            using found t Some ch True by (simp add: Let_def s2_def s3_def s4_def pm_def split_def)
          moreover have ok: "holder_ok pm" using k by (simp add: pm_def holder_ok_def)
          have "linv s3 {}"
            using lane_inv_unqueue [OF Cons.prems(1), of "change_id m" "applied_effect (pr_commits (rd_pass R)) pm (Some merge)"]
              s2 waits ok by (simp add: s3_def announce_landing_parts pm_def holder_ok_def)
          then have "linv s4 {}" unfolding s4_def by (simp add: lane_inv_quiet)
          moreover have "claims_held s2 {pm}"
          proof (rule claims_held_insert)
            show "claims_held s2 {}" using k s2 sel claims_held_cong [of s2 s1] by simp
          qed (use k ok s2 in \<open>simp_all add: pm_def\<close>)
          then have "claims_held s3 {}" using claims_held_announce [of s2 "{pm}" pm] by (simp add: s3_def)
          then have "claims_held s4 {}" using claims_held_cong [of s4 s3] by (simp add: s4_def)
          ultimately show ?thesis
            using Cons.IH [of s4] rest2 rest(2) s2
            by (simp add: s4_def s3_def announce_landing_parts lane_simps)
        qed
      qed
    qed
  qed
qed simp

section \<open>The open batch\<close>

lemma restore_batch_inv:
  assumes "linv s {}" "claims_held s {}" "hm_keys (dr_held s) = {}" "resolving (dr_lane s) = Some batch"
  shows "driver_ok (restore_batch R batch s)"
proof -
  define b where "b = batch_id batch"
  obtain out s1 where h: "hold_batch_members R batch s = (out, s1)" by fastforce
  note held = hold_unlanded_inv [OF assms(1,2) h [unfolded hold_batch_members_def]]
  have res: "resolving_ids (dr_lane s1) = member_ids (unlanded batch)" using held assms(4) by (simp add: resolving_ids_def)
  have open1: "resolving_batch_of b (dr_lane s1) = Some batch" using held assms(4) by (simp add: b_def lane_simps)
  show ?thesis
  proof (cases out)
    case (Inl reason)
    have "batch_held s1" using held assms(1,3) res by (simp add: batch_held_def)
    then have "keeps R s1 (fail_batch R b reason None False s1)" by (rule fail_batch_keeps) (simp add: open1)
    then show ?thesis using h Inl by (simp add: restore_batch_def b_def keeps_def)
  next
    case (Inr u)
    have inv1: "linv s1 {}" "claims_held s1 {}" "keys_match s1" using held assms(1,3) res Inr by auto
    obtain healed s2 where heal: "heal_landed_members R batch s1 = (healed, s2)" by fastforce
    note inv2 = heal_members_inv [OF inv1 heal [unfolded heal_landed_members_def]]
    obtain batch2 where res2: "resolving (dr_lane s2) = Some batch2" "batch_id batch2 = b"
      using inv2 held assms(4) by (auto simp: b_def)
    then have open2: "resolving_batch_of b (dr_lane s2) = Some batch2" by (simp add: lane_simps)
    have ok2: "driver_ok s2" using inv2 by (simp add: driver_ok_def)
    show ?thesis
    proof (cases "all_landed batch2")
      case True
      then have none: "resolving_ids (dr_lane s2) = {}" using res2 by (simp add: resolving_ids_def all_landed_def)
      have "driver_ok (close_landed R batch2 pre post False healed s2)" for pre post
        using close_landed_inv [of s2 batch2] inv2 none open2 res2(2) by simp
      then show ?thesis using h Inr heal open2 True by (simp add: restore_batch_def b_def [symmetric])
    next
      case False
      have failing: "driver_ok (fail_batch R b lane_thread_closed None False s2)"
        using fail_batch_keeps [OF driver_ok_batch_held [OF ok2], of b R] ok2 by (simp add: keeps_def)
      have "driver_ok (open_lane_thread batch2 s2)"
        using ok2 by (simp add: driver_ok_same [OF same_lane_effect] open_lane_thread_def Let_def)
      moreover have landing: "same_lane s2 (land_when_free b t (s2\<lparr>dr_landing := x\<rparr>))" for t x
        unfolding land_when_free_def by (rule same_lane_trans [OF same_lane_landing same_lane_effect]) simp_all
      have "driver_ok (land_when_free b t (s2\<lparr>dr_landing := x\<rparr>))" for t x
        using ok2 by (simp only: driver_ok_same [OF landing])
      ultimately show ?thesis
        using h Inr heal open2 False failing ok2
        by (simp add: restore_batch_def b_def [symmetric] split: sum.split batch_recovery_step.split)
    qed
  qed
qed

section \<open>From the stored events\<close>

text \<open>The restored lane leaves out the waiting changes whose rows are no longer pending; the marks name them.\<close>

definition restart_marks :: "lane_effect list \<Rightarrow> (uuid \<Rightarrow> bool) \<Rightarrow> lane_effect list" where
  "restart_marks stored is_pending =
     map DroppedQuietly (filter (\<lambda>c. \<not> is_pending c) (map change_id (waiting (log_lane stored))))"

definition restarted :: "lane_reads \<Rightarrow> lane_effect list \<Rightarrow> (uuid \<Rightarrow> bool) \<Rightarrow> lane_driver" where
  "restarted R stored is_pending =
     handle_lane_msg R (MsgRestored (recovered_lane (Inr (lane_records stored, is_pending))))
       (lane_driver_start (stored @ restart_marks stored is_pending))"

lemma marks_records: "lane_records (stored @ restart_marks stored p) = lane_records stored"
  by (simp add: lane_records_def restart_marks_def map_filter_def)

lemma recovered_lane_fold:
  "restore_lane (recovered_lane (Inr (rs, p))) = retain_waiting p (foldl fold_record lane_default rs)"
  by (simp add: recovered_lane_def lane_restore_of_def lane_fold_def Let_def retain_waiting_def lane_default_def)

lemma recovered_stranded:
  "c \<in> set (restore_stranded (recovered_lane (Inr (rs, p)))) \<Longrightarrow>
     c \<notin> held_ids (restore_lane (recovered_lane (Inr (rs, p))))"
  by (auto simp: recovered_lane_def lane_restore_of_def Let_def stranded_iff split: if_splits)

lemma restored_lane_inv:
  assumes "list_all record_ok (lane_records stored)"
  shows "lane_inv (retain_waiting p (log_lane stored)) (stored @ restart_marks stored p) {}"
proof -
  have "log_lane (stored @ restart_marks stored p) = log_lane stored" by (simp add: log_lane_def marks_records)
  moreover have "dropped (stored @ restart_marks stored p) \<supseteq> {c \<in> member_ids (waiting (log_lane stored)). \<not> p c}"
    by (auto simp: dropped_def restart_marks_def)
  ultimately show ?thesis
    using assms lane_ok_retain [OF log_lane_ok [OF assms], of p]
    by (auto simp: lane_inv_def marks_records lane_simps)
qed

lemma claims_held_start: "claims_held (lane_driver_start stored) {}"
proof -
  have "claims_ok (snd (claim_step claim_start SetCallback))" by (rule claims_ok_step [OF claims_ok_start])
  then show ?thesis
    by (simp add: claims_held_def lane_driver_start_def held_members_def hm_keys_def on_lane_wait_release_def)
qed

lemma restarted_inv:
  assumes "list_all record_ok (lane_records stored)"
  shows "driver_ok (restarted R stored p)" "reads_readable R \<Longrightarrow> queue_awake (restarted R stored p)"
proof -
  define r where "r = recovered_lane (Inr (lane_records stored, p))"
  define s0 where "s0 = set_lane (restore_lane r) (lane_driver_start (stored @ restart_marks stored p))"
  define s1 where "s1 = remove_closed_lane_worktrees R (opened_here r) s0"
  define s2 where "s2 = unqueue_failed_members R batch_failed_before_restart (restore_stranded r) s1"
  define s3 where "s3 = heal_landed_waiting R s2"
  define s4 where "s4 = (case resolving (dr_lane s3) of None \<Rightarrow> s3 | Some batch \<Rightarrow> restore_batch R batch s3)"
  have lane: "restore_lane r = retain_waiting p (log_lane stored)" by (simp add: r_def recovered_lane_fold log_lane_def)
  have empty: "dr_held s0 = []" by (simp add: s0_def lane_driver_start_def)
  then have no_drop: "drop_members (map snd (dr_held s0)) (s0\<lparr>dr_held := []\<rparr>) = s0" by (simp add: drop_members_def)
  have whole: "restarted R stored p = publish_lane (run_waiting (rd_pass_again R) s4)"
    unfolding restarted_def handle_lane_msg_def handle_msg.simps restore_driver_def Let_def r_def [symmetric]
      s0_def [symmetric] no_drop s1_def [symmetric] s2_def [symmetric] s3_def [symmetric] s4_def
    by (rule refl)
  have linv0: "linv s0 {}" using restored_lane_inv [OF assms, of p] by (simp add: s0_def lane lane_driver_start_def)
  have held0: "claims_held s0 {}"
    using claims_held_start claims_held_cong [of s0 "lane_driver_start (stored @ restart_marks stored p)"] by (simp add: s0_def)
  have same1: "same_lane s0 s1"
  proof -
    have "same_lane s (foldl (\<lambda>s b. effect (RetireLaneWorktree b) s) s bs)" for s bs
    proof (induction bs arbitrary: s)
      case (Cons b bs)
      have "same_lane s (effect (RetireLaneWorktree b) s)" by (rule same_lane_effect) simp_all
      from same_lane_trans [OF this Cons.IH] show ?case by simp
    qed simp
    then show ?thesis by (simp add: s1_def remove_closed_lane_worktrees_def split: sum.split)
  qed
  have "set (restore_stranded r) \<inter> member_ids (waiting (dr_lane s1)) = {}"
    using recovered_stranded same_laneD(5) [OF same1] by (auto simp: r_def s0_def held_ids_def)
  then have inv2: "dr_lane s2 = dr_lane s1 \<and> linv s2 {} \<and> claims_held s2 {} \<and>
      hm_keys (dr_held s2) = hm_keys (dr_held s1) - set (restore_stranded r)"
    unfolding s2_def
    by (intro unqueue_failed_members_inv) (use linv0 held0 same_laneD [OF same1] in simp_all)
  have inv2': "linv s2 {}" "claims_held s2 {}" using inv2 by blast+
  have d: "distinct (map change_id (waiting (dr_lane s2)))" by (rule lane_ok_distinct [OF lane_inv_ok [OF inv2'(1)]])
  have inv3: "linv s3 {} \<and> claims_held s3 {} \<and> dr_held s3 = dr_held s2 \<and> resolving (dr_lane s3) = resolving (dr_lane s2)"
    unfolding s3_def heal_landed_waiting_def by (rule heal_waiting_inv [OF inv2' subset_refl d])
  have "hm_keys (dr_held s3) = {}"
    using inv3 inv2 same_laneD(7) [OF same1] empty by (simp add: hm_keys_def)
  note keys3 = this
  have ok4: "driver_ok s4"
  proof (cases "resolving (dr_lane s3)")
    case None
    then have "keys_match s3" using keys3 by (simp add: resolving_ids_def)
    then have "driver_ok s3" using inv3 unfolding driver_ok_def by blast
    then show ?thesis by (simp add: s4_def None)
  next
    case (Some batch)
    have "driver_ok (restore_batch R batch s3)"
      by (rule restore_batch_inv [OF _ _ keys3 Some]) (use inv3 in blast)+
    then show ?thesis by (simp add: s4_def Some)
  qed
  have same: "same_lane s (publish_lane s)" for s by (simp add: same_lane_def)
  show "driver_ok (restarted R stored p)" unfolding whole using run_waiting_ok [OF ok4] by (simp add: driver_ok_same [OF same])
  show "queue_awake (restarted R stored p)" if "reads_readable R"
    unfolding whole using run_waiting_awake [OF ok4] that
    by (simp add: queue_awake_same [OF same] reads_readable_def)
qed

end
