(* ===== verification/Lane_Driver_Properties.thy ===== *)
theory Lane_Driver_Properties
  imports Lane_Driver_Restart
begin

text \<open>
  The lane's driver over whole runs: any messages in any order, other applies of the same table of claims in between, and
  crashes that keep any prefix of the events stored so far.
\<close>

section \<open>Runs\<close>

text \<open>\<open>NextRelease\<close> handles the first \<open>ClaimReleased\<close> that a dropped claim sent; \<open>Elsewhere\<close> is another apply's use of the
  table. \<open>Crash n\<close> stops the engine with the first \<open>n\<close> effects stored, in the middle of the last message or after
  it, and starts it again.\<close>

datatype driver_event =
    Handle lane_reads lane_msg
  | NextRelease lane_reads
  | Elsewhere claim_op
  | Crash nat lane_reads "uuid \<Rightarrow> bool"

fun driver_step :: "lane_driver \<Rightarrow> driver_event \<Rightarrow> lane_driver" where
  "driver_step s (Handle R msg) = handle_lane_msg R msg s"
| "driver_step s (NextRelease R) =
     (case dr_released s of
        [] \<Rightarrow> s
      | c # cs \<Rightarrow> handle_lane_msg R (MsgClaimReleased c) (s\<lparr>dr_released := cs\<rparr>))"
| "driver_step s (Elsewhere opn) = do_claim_op opn s"
| "driver_step s (Crash n R p) = restarted R (take n (dr_effects s)) p"

text \<open>What the rest of the program owes the lane: a submission comes with its own claim, the others neither drop nor carry a
  claim that the lane holds, and only the lane claims for the lane.\<close>

fun event_ok :: "lane_driver \<Rightarrow> driver_event \<Rightarrow> bool" where
  "event_ok s (Handle R (MsgSubmit sub)) \<longleftrightarrow> submission_ok s sub"
| "event_ok s (Handle R (MsgRestored r)) \<longleftrightarrow> False"
| "event_ok s (Elsewhere opn) \<longleftrightarrow>
     (\<forall>m \<in> held_members s. spares opn (pm_claim m)) \<and> (case opn of ClaimForLane c \<Rightarrow> False | _ \<Rightarrow> True)"
| "event_ok s e \<longleftrightarrow> True"

fun events_ok :: "lane_driver \<Rightarrow> driver_event list \<Rightarrow> bool" where
  "events_ok s [] \<longleftrightarrow> True"
| "events_ok s (e # es) \<longleftrightarrow> event_ok s e \<and> events_ok (driver_step s e) es"

definition first_start :: "lane_reads \<Rightarrow> lane_driver" where
  "first_start R = restarted R [] (\<lambda>c. True)"

fun event_readable :: "driver_event \<Rightarrow> bool" where
  "event_readable (Handle R msg) \<longleftrightarrow> reads_readable R"
| "event_readable (NextRelease R) \<longleftrightarrow> reads_readable R"
| "event_readable (Elsewhere opn) \<longleftrightarrow> True"
| "event_readable (Crash n R p) \<longleftrightarrow> reads_readable R"

section \<open>Steps\<close>

lemma same_lane_presses: "driver_ok s \<Longrightarrow> driver_ok (set_lane ((dr_lane s)\<lparr>presses := P\<rparr>) s)"
  using claims_held_cong [of "set_lane ((dr_lane s)\<lparr>presses := P\<rparr>) s" s "{}"]
  by (simp add: driver_ok_def lane_inv_presses resolving_ids_def)

lemma handle_msg_keeps:
  assumes ok: "driver_ok s" and guard: "event_ok s (Handle R msg)"
  shows "keeps R s (handle_msg R msg s)"
proof (cases msg)
  case (MsgSubmit sub)
  have k: "keeps R s (snd (submit_change (rd_pass R) sub s))"
    using submit_change_keeps [OF ok] guard MsgSubmit by simp
  then have "driver_ok (snd (submit_change (rd_pass R) sub s))" by (simp add: keeps_def)
  from keeps_trans [OF k keeps_same [OF this same_lane_effect]] MsgSubmit show ?thesis
    by (simp add: split_def reply_def Let_def)
next
  case (MsgThreadEnded b t ended)
  then show ?thesis by (simp add: thread_ended_keeps ok)
next
  case (MsgLand b)
  then show ?thesis by (simp add: land_batch_keeps ok)
next
  case (MsgCancel b actor)
  have k: "keeps R s (snd (cancel_resolving R b actor s))" by (rule cancel_resolving_keeps [OF ok])
  then have "driver_ok (snd (cancel_resolving R b actor s))" by (simp add: keeps_def)
  from keeps_trans [OF k keeps_same [OF this same_lane_effect]] MsgCancel show ?thesis
    by (simp add: split_def reply_def Let_def)
next
  case (MsgThreadClosed t actor)
  then show ?thesis by (simp add: end_from_outside_keeps keeps_refl ok split: option.split)
next
  case (MsgWithdrawn c reason)
  then show ?thesis by (simp add: withdraw_keeps ok)
next
  case (MsgClaimReleased c)
  then show ?thesis by (simp add: keeps_run_waiting ok)
next
  case MsgOriginAnswered
  then show ?thesis using retry_origin_inv [OF ok] by (simp add: keeps_def reads_readable_def)
next
  case (MsgRemove c actor)
  have k: "keeps R s (snd (remove_change R c actor s))" by (rule remove_change_keeps [OF ok])
  then have "driver_ok (snd (remove_change R c actor s))" by (simp add: keeps_def)
  from keeps_trans [OF k keeps_same [OF this same_lane_effect]] MsgRemove show ?thesis
    by (simp add: split_def reply_def Let_def)
next
  case (MsgCancelMembers cs actor)
  have k: "keeps R s (snd (cancel_members R cs actor s))" by (rule cancel_members_keeps [OF ok])
  then have "driver_ok (snd (cancel_members R cs actor s))" by (simp add: keeps_def)
  from keeps_trans [OF k keeps_same [OF this same_lane_effect]] MsgCancelMembers show ?thesis
    by (simp add: split_def reply_def Let_def)
next
  case (MsgPressOpened p)
  define s1 where "s1 = set_lane (open_press p (dr_lane s)) s"
  have ok1: "driver_ok s1" using same_lane_presses [OF ok] by (simp add: s1_def open_press_def)
  have "keeps R s s1" using ok1 by (simp add: keeps_def queue_awake_def queue_held_def s1_def open_press_def)
  moreover have "keeps R s1 (announce_lane s1)" by (rule keeps_same [OF ok1 same_lane_announce]) simp
  ultimately show ?thesis using keeps_trans MsgPressOpened by (auto simp: Let_def s1_def)
next
  case (MsgPressSubmitted p)
  obtain free l where sp: "submit_press p (dr_lane s) = (free, l)" by fastforce
  then have l: "l = (dr_lane s)\<lparr>presses := presses (dr_lane s) - {p}\<rparr>"
    and free: "free \<longleftrightarrow> p \<in> presses (dr_lane s) \<and> \<not> queue_held l" by (auto simp: submit_press_def Let_def)
  have ok1: "driver_ok (set_lane l s)" using same_lane_presses [OF ok] l by simp
  have "queue_awake (set_lane l s)" if "queue_awake s" "\<not> free"
  proof (cases "queue_held l")
    case False
    with that(2) free have "presses (dr_lane s) - {p} = presses (dr_lane s)" by auto
    then have "l = dr_lane s" using l by simp
    then show ?thesis using that(1) by (simp add: set_lane_def)
  qed (simp add: queue_awake_def)
  then have "keeps R s (set_lane l s)" if "\<not> free" using ok1 that by (simp add: keeps_def)
  then show ?thesis using MsgPressSubmitted sp keeps_run_waiting [OF ok1] by (simp add: Let_def)
next
  case (MsgRestored r)
  with guard show ?thesis by simp
qed

lemma same_lane_publish: "same_lane s (publish_lane s)"
  by (simp add: same_lane_def)

lemma driver_step_inv:
  assumes ok: "driver_ok s" and guard: "event_ok s e"
  shows "driver_ok (driver_step s e)" "event_readable e \<Longrightarrow> queue_awake s \<Longrightarrow> queue_awake (driver_step s e)"
proof -
  have handled: "driver_ok (handle_lane_msg R msg t) \<and> (reads_readable R \<and> queue_awake t \<longrightarrow> queue_awake (handle_lane_msg R msg t))"
    if "driver_ok t" "event_ok t (Handle R msg)" for R msg t
    using handle_msg_keeps [OF that] driver_ok_same [OF same_lane_publish] queue_awake_same [OF same_lane_publish]
    by (simp add: handle_lane_msg_def keeps_def)
  have "driver_ok (driver_step s e) \<and> (event_readable e \<and> queue_awake s \<longrightarrow> queue_awake (driver_step s e))"
  proof (cases e)
    case (Handle R msg)
    with handled [OF ok] guard show ?thesis by simp
  next
    case (NextRelease R)
    show ?thesis
    proof (cases "dr_released s")
      case (Cons c cs)
      have ok1: "driver_ok (s\<lparr>dr_released := cs\<rparr>)"
        using ok claims_held_cong [of "s\<lparr>dr_released := cs\<rparr>" s "{}"] by (simp add: driver_ok_def)
      have "driver_step s e = publish_lane (run_waiting (rd_pass R) (s\<lparr>dr_released := cs\<rparr>))"
        using NextRelease Cons by (simp add: handle_lane_msg_def)
      then show ?thesis
        using run_waiting_ok [OF ok1] run_waiting_awake [OF ok1] NextRelease
          driver_ok_same [OF same_lane_publish] queue_awake_same [OF same_lane_publish]
        by (simp add: reads_readable_def)
    qed (use ok NextRelease in simp)
  next
    case (Elsewhere opn)
    have "claims_held (do_claim_op opn s) {}"
      using ok guard Elsewhere by (intro claims_held_op) (auto simp: driver_ok_def)
    then have "driver_ok (do_claim_op opn s)" using ok by (simp add: driver_ok_def)
    moreover have "opn \<noteq> ClaimForLane c" for c using guard Elsewhere by auto
    then have "queue_awake (do_claim_op opn s)" if "queue_awake s"
      using that told_op [of s _ opn] by (auto simp: queue_awake_def waiting_told_def)
    ultimately show ?thesis using Elsewhere by simp
  next
    case (Crash n R p)
    have "list_all record_ok (lane_records (dr_effects s))" using ok by (simp add: driver_ok_def lane_inv_def)
    then have "list_all record_ok (lane_records (take n (dr_effects s)))"
      using append_take_drop_id [of n "dr_effects s"]
      by (metis lane_records_append list_all_append)
    with restarted_inv Crash show ?thesis by simp
  qed
  then show "driver_ok (driver_step s e)" "event_readable e \<Longrightarrow> queue_awake s \<Longrightarrow> queue_awake (driver_step s e)"
    by simp_all
qed

abbreviation driver_run :: "lane_driver \<Rightarrow> driver_event list \<Rightarrow> lane_driver" where
  "driver_run \<equiv> foldl driver_step"

lemma driver_run_inv:
  assumes "driver_ok s" "events_ok s es"
  shows "driver_ok (driver_run s es)"
    "list_all event_readable es \<Longrightarrow> queue_awake s \<Longrightarrow> queue_awake (driver_run s es)"
proof -
  have "driver_ok (driver_run s es) \<and>
      (list_all event_readable es \<and> queue_awake s \<longrightarrow> queue_awake (driver_run s es))"
    using assms
  proof (induction es arbitrary: s)
    case (Cons e es)
    from Cons.IH [OF driver_step_inv(1) [OF Cons.prems(1)]] Cons.prems driver_step_inv(2) [OF Cons.prems(1)]
    show ?case by simp
  qed simp
  then show "driver_ok (driver_run s es)"
    "list_all event_readable es \<Longrightarrow> queue_awake s \<Longrightarrow> queue_awake (driver_run s es)" by simp_all
qed

lemma first_start_inv:
  "driver_ok (first_start R)" "reads_readable R \<Longrightarrow> queue_awake (first_start R)"
  using restarted_inv [of "[]"] by (simp_all add: first_start_def lane_records_def map_filter_def)

lemma driver_reaches: "events_ok (first_start R) es \<Longrightarrow> driver_ok (driver_run (first_start R) es)"
  by (rule driver_run_inv(1) [OF first_start_inv(1)])

section \<open>A concrete run\<close>

text \<open>One change is submitted, conflicts with \<open>main\<close>, and opens a batch.\<close>

definition demo_change :: lane_change where
  "demo_change = \<lparr>ch_id = 3, ch_status = ChPending, ch_thread = Some 5, ch_title = None, ch_description = [],
     ch_branch = ''b'', ch_repo = ''r'', ch_files = [], ch_restart = False\<rparr>"

definition demo_submission :: submission where
  "demo_submission = \<lparr>sub_change = demo_change, sub_claim = \<lparr>claimed_change = 3, claim_generation = 0\<rparr>,
     sub_actor = None, sub_snapshot = ''s1''\<rparr>"

definition demo_attempt :: attempt where
  "demo_attempt =
     \<lparr>at_base = \<lparr>read_main_sha = Some ''m'', read_remote = GitNo, read_fetch = Inl [], read_ancestor = (\<lambda>x y. GitNo)\<rparr>,
      at_git = \<lparr>git_is_ancestor = (\<lambda>x y. GitNo), git_merge_tree = (\<lambda>x y. None), git_commit_tree = (\<lambda>t p i. None),
        git_first_parents = Inr []\<rparr>,
      at_push = (\<lambda>t. Pushed), at_move = Inr (), at_main = None\<rparr>"

definition demo_pass :: pass_reads where
  "demo_pass = \<lparr>pr_row = (\<lambda>c. Inr None), pr_order = LocalFirst, pr_attempts = (\<lambda>n. demo_attempt),
     pr_commits = (\<lambda>x y. []), pr_batch = 7, pr_thread = 8, pr_uuid_text = show_nat\<rparr>"

definition demo_reads :: lane_reads where
  "demo_reads = \<lparr>rd_pass = demo_pass, rd_pass_again = demo_pass, rd_row = (\<lambda>c. Inr None), rd_failed_row = (\<lambda>c. Inr None),
     rd_queued_thread = (\<lambda>c. Inr None), rd_branch_head = (\<lambda>r b. None),
     rd_worktree = \<lparr>wt_merging = GitNo, wt_unmerged = GitNo, wt_dirty = GitNo, wt_line = Inr []\<rparr>,
     rd_branch_attempts = (\<lambda>n. \<lparr>ba_attempt = demo_attempt, ba_holds_main = (\<lambda>m. GitYes), ba_merge = (\<lambda>m. Inr True),
       ba_commits = (\<lambda>m. []), ba_head = Inr ''h''\<rparr>),
     rd_running = False, rd_git = at_git demo_attempt, rd_main = None, rd_main_before = None,
     rd_thread_state = Inr NotOpened, rd_lanes = Inr []\<rparr>"

definition demo_events :: "driver_event list" where
  "demo_events = [Elsewhere (Claim 3), Handle demo_reads (MsgSubmit demo_submission)]"

lemma demo_start:
  "first_start demo_reads = publish_lane (lane_driver_start [])"
  by (simp add: first_start_def restarted_def recovered_lane_def handle_lane_msg_def restore_driver_def Let_def
      restart_marks_def log_lane_def lane_records_def lane_default_def map_filter_simps lane_driver_start_def set_lane_def drop_members_def
      remove_closed_lane_worktrees_def demo_reads_def closed_lanes_opened_here_def unqueue_failed_members_def
      heal_landed_waiting_def run_waiting_def)

lemma demo_claimed:
  "do_claim_op (Claim 3) (publish_lane (lane_driver_start [])) =
     (publish_lane (lane_driver_start []))\<lparr>dr_claims :=
        \<lparr>st_flags = {}, st_claims = \<lparr>held = [(3, \<lparr>generation = 0, handed_off_flag = None, lane_waiting = False\<rparr>)],
           next_generation = 1, release_callback = True\<rparr>, st_live = [\<lparr>claimed_change = 3, claim_generation = 0\<rparr>]\<rparr>\<rparr>"
  by (simp add: do_claim_op_def publish_lane_def lane_driver_start_def claim_start_def apply_claims_default_def claim_ops
      map_filter_simps)

lemma demo_events_ok: "events_ok (first_start demo_reads) demo_events"
  by (simp add: demo_events_def demo_start demo_claimed submission_ok_def demo_submission_def demo_change_def owns_def
      held_members_def publish_lane_def lane_driver_start_def dropped_def claim_start_def apply_claims_default_def claim_ops)

lemma demo_events_readable: "reads_readable demo_reads" "list_all event_readable demo_events"
  by (simp_all add: demo_events_def reads_readable_def rows_readable_def demo_reads_def demo_pass_def)

lemma demo_published:
  "publish_clean_pass (\<lambda>n. demo_attempt) LocalFirst [i] =
     Inr (Published \<lparr>pub_base = ''m'', pub_chain = \<lparr>chain_tip = ''m'', chain_steps = [(input_change i, StepSetAside)]\<rparr>,
       pub_failed = None\<rparr>)"
  by (simp add: publish_clean_pass_def max_push_attempts_def numeral_3_eq_3 demo_attempt_def landing_base_of_def
      land_one_def merged_tree_def move_local_main_def)

lemma demo_batch:
  "resolving (dr_lane (driver_run (first_start demo_reads) demo_events)) =
     Some (new_batch 7 ''m'' 8 [\<lparr>change_id = 3, snapshot_sha = ''s1''\<rparr>])"
  "waiting (dr_lane (driver_run (first_start demo_reads) demo_events)) = []"
proof -
  define s0 where "s0 = do_claim_op (Claim 3) (publish_lane (lane_driver_start []))"
  define m where "m = \<lparr>change_id = 3, snapshot_sha = ''s1''\<rparr>"
  define pm where "pm = submitted_member demo_submission m"
  define s1 where "s1 = effect (EmitQueued 5 m None) s0"
  have lane1: "dr_lane s1 = lane_default" "dr_batch_waiting s1 = None" "dr_held s1 = []"
    by (simp_all add: s1_def effect_def s0_def publish_lane_def lane_driver_start_def)
  have default: "lane_place lane_default c = Absent" "queue_held lane_default = False" "waiting lane_default = []"
    "lane_default\<lparr>waiting := []\<rparr> = lane_default" for c
    by (simp_all add: lane_place_def lane_default_def queue_held_def)
  have reads: "pr_attempts demo_pass = (\<lambda>n. demo_attempt)" "pr_order demo_pass = LocalFirst" "pr_batch demo_pass = 7"
    "pr_thread demo_pass = 8" by (simp_all add: demo_pass_def)
  have pm: "pm_id pm = 3" "pm_member pm = m" "input_change (landing_input_of u pm) = 3" "change_id m = 3" for u
    by (simp_all add: pm_def submitted_member_def m_def landing_input_of_def)
  have sub: "ch_id (sub_change demo_submission) = 3" "ch_thread (sub_change demo_submission) = Some 5"
    "sub_snapshot demo_submission = ''s1''" "sub_actor demo_submission = None"
    by (simp_all add: demo_submission_def demo_change_def)
  have no_wait: "claim_waiting demo_pass None s1 = ([], s1)"
    using lane1 by (simp add: claim_waiting_def take_pass_def default set_lane_def)
  have "snd (submit_change demo_pass demo_submission s0) = snd (run_pass demo_pass [pm] s1)"
    using no_wait default lane1
    by (simp add: submit_change_def arrive_def sub change_thread_def s1_def m_def pm_def pass_answer_def split_def Let_def)
  moreover have "dr_lane (snd (run_pass demo_pass [pm] s1)) = lane_default\<lparr>resolving := Some (new_batch 7 ''m'' 8 [m])\<rparr>"
  proof -
    define s2 where "s2 = s1\<lparr>dr_waiting_for_origin := None\<rparr>"
    have s2: "dr_lane s2 = lane_default" "land_batch_waiting_for_origin s2 = s2" "dr_held s2 = []"
      using lane1 by (simp_all add: s2_def land_batch_waiting_for_origin_def)
    obtain answers s3 where aside: "take_in_set_aside demo_pass [pm] ''m'' [] s2 = (answers, s3)" by fastforce
    have "dr_lane s3 = lane_default\<lparr>resolving := Some (new_batch 7 ''m'' 8 [m])\<rparr>"
      using aside s2
      by (auto simp: take_in_set_aside_def set_aside_def default reads pm Let_def open_lane_thread_def hold_member_def
          split: option.splits)
    moreover have "snd (run_pass demo_pass [pm] s1) = drop_members [] (settle_sources [] (announce_lane s3))"
      using aside s2
      by (simp add: run_pass_def reads demo_published pm pub_main_now_def moved_main_def lands_anything_def Let_def s2_def
          del: announce_origin)
    ultimately show ?thesis
      using same_laneD(5) [OF same_lane_announce [of s3]] by (simp add: drop_members_def settle_sources_def)
  qed
  ultimately have lane: "dr_lane (snd (submit_change demo_pass demo_submission s0)) =
      lane_default\<lparr>resolving := Some (new_batch 7 ''m'' 8 [m])\<rparr>" by simp
  have "driver_run (first_start demo_reads) demo_events =
      publish_lane (reply (ReplySubmit (fst (submit_change demo_pass demo_submission s0)))
        (snd (submit_change demo_pass demo_submission s0)))"
    by (simp add: demo_events_def demo_start s0_def [symmetric] handle_lane_msg_def split_def Let_def)
      (simp add: demo_reads_def)
  with lane show "resolving (dr_lane (driver_run (first_start demo_reads) demo_events)) =
      Some (new_batch 7 ''m'' 8 [\<lparr>change_id = 3, snapshot_sha = ''s1''\<rparr>])"
    "waiting (dr_lane (driver_run (first_start demo_reads) demo_events)) = []"
    by (simp_all add: reply_def m_def default)
qed

section \<open>What holds of every run\<close>



text \<open>C8. The lane holds what it resolves. Whatever happens elsewhere in the table of claims, every change that the open
  batch still owes is held by the lane under a current claim, so any other apply of it is refused; and the lane keeps
  no claim of any other change.\<close>

theorem a_resolving_change_is_held:
  assumes "events_ok (first_start R) es" "driver_run (first_start R) es = s"
  shows "hm_keys (dr_held s) = resolving_ids (dr_lane s) \<and>
    (\<forall>c \<in> resolving_ids (dr_lane s). \<exists>m. hm_get (dr_held s) c = Some m \<and> pm_id m = c \<and>
       claimed_change (pm_claim m) = c \<and> is_current (pm_claim m) (st_claims (dr_claims s)) \<and>
       (\<forall>for_lane. fst (claim (st_flags (dr_claims s)) c for_lane (st_claims (dr_claims s))) = None))"
proof -
  have ok: "keys_match s" "claims_held s {}" using driver_reaches [OF assms(1)] assms(2) by (simp_all add: driver_ok_def)
  have "\<exists>m. hm_get (dr_held s) c = Some m \<and> pm_id m = c \<and> claimed_change (pm_claim m) = c \<and>
       is_current (pm_claim m) (st_claims (dr_claims s)) \<and>
       (\<forall>for_lane. fst (claim (st_flags (dr_claims s)) c for_lane (st_claims (dr_claims s))) = None)"
    if "c \<in> resolving_ids (dr_lane s)" for c
  proof -
    from that ok(1) obtain m where m: "hm_get (dr_held s) c = Some m"
      using hm_get_None_iff [of "dr_held s" c] by auto
    have own: "pm_id m = c" "holder_ok m" "owns (dr_claims s) (pm_claim m)"
      using ok(2) m held_memberI [OF m] by (auto simp: claims_held_def)
    then show ?thesis
      using m owned_claim_refuses [OF own(3), of c] by (auto simp: holder_ok_def owns_def is_current_def)
  qed
  with ok(1) show ?thesis by blast
qed

theorem a_resolving_change_is_held_witness:
  "\<exists>s. driver_run (first_start demo_reads) demo_events = s \<and> hm_keys (dr_held s) = {3} \<and>
     fst (claim (st_flags (dr_claims s)) 3 False (st_claims (dr_claims s))) = None"
proof -
  define s where "s = driver_run (first_start demo_reads) demo_events"
  have "resolving_ids (dr_lane s) = {3}" using demo_batch by (simp add: s_def resolving_ids_def)
  then show ?thesis
    using a_resolving_change_is_held [OF demo_events_ok s_def [symmetric]] s_def by auto
qed


text \<open>Another apply takes a change that gathers for a press; when the press is in, the pass is refused it.\<close>

definition busy_events :: "driver_event list" where
  "busy_events = [Handle demo_reads (MsgPressOpened 9), Elsewhere (Claim 3), Handle demo_reads (MsgSubmit demo_submission),
     Elsewhere (Claim 3), Handle demo_reads (MsgPressSubmitted 9)]"

definition queue_view :: "lane_driver \<Rightarrow> string option \<times> bool \<times> lane_member list" where
  "queue_view s = (dr_waiting_for_origin s, queue_held (dr_lane s), waiting (dr_lane s))"

lemma busy_state:
  "queue_view (driver_run (first_start demo_reads) busy_events) = (None, False, [\<lparr>change_id = 3, snapshot_sha = ''s1''\<rparr>])"
  by code_simp

text \<open>The guard of the run, at its one submission.\<close>

lemma busy_claims:
  "dr_claims (driver_run (first_start demo_reads) (take 2 busy_events)) =
     \<lparr>st_flags = {}, st_claims = \<lparr>held = [(3, \<lparr>generation = 0, handed_off_flag = None, lane_waiting = False\<rparr>)],
        next_generation = 1, release_callback = True\<rparr>, st_live = [\<lparr>claimed_change = 3, claim_generation = 0\<rparr>]\<rparr>"
  "dr_held (driver_run (first_start demo_reads) (take 2 busy_events)) = []"
  "dr_effects (driver_run (first_start demo_reads) (take 2 busy_events)) = []"
  by (simp_all add: busy_events_def demo_start handle_lane_msg_def Let_def set_lane_def publish_lane_def lane_driver_start_def
      open_press_def lane_default_def do_claim_op_def claim_start_def apply_claims_default_def claim_ops)

lemma busy_events_ok: "events_ok (first_start demo_reads) busy_events"
proof -
  have split: "busy_events = take 2 busy_events @ drop 2 busy_events" by simp
  have "event_ok (driver_run (first_start demo_reads) (take 2 busy_events)) (Handle demo_reads (MsgSubmit demo_submission))"
    by (simp only: event_ok.simps submission_ok_def busy_claims owns_def held_members_def dropped_def)
      (simp add: demo_submission_def demo_change_def)
  then show ?thesis
    by (simp add: busy_events_def demo_start held_members_def publish_lane_def lane_driver_start_def handle_lane_msg_def)
qed


section \<open>Findings\<close>

text \<open>A pass that \<open>origin\<close> takes clears the reason to wait, but not the members an earlier pass left for \<open>origin\<close>: with a
  batch open they stay in the queue, and the next answer of \<open>origin\<close> does nothing.\<close>

lemma refused_members_are_forgotten:
  assumes "publish_clean_pass (pr_attempts P) (pr_order P) (map (landing_input_of (pr_uuid_text P)) ms) = Inr (Published p)"
    and "ms \<noteq> []" "run_pass P ms s = (answers, s')" "linv s (pm_member ` set ms)" "claims_held s (set ms)"
    and "distinct (map pm_id ms)" "keys_match s"
  shows "dr_waiting_for_origin s' = None \<and> retry_origin P' s' = s'"
  using run_pass_published [OF assms(4-7,3,2,1)] by (simp add: retry_origin_def)

text \<open>A change set aside while the engine stops, before the lane stored its \<open>ChangeUnqueued\<close>, is left out at the restart and
  stays queued in the events. Brought back and applied again it waits with its new snapshot, but the next restart gives
  it the old one.\<close>

lemma a_change_brought_back_lands_its_old_snapshot:
  assumes "old = \<lparr>change_id = c, snapshot_sha = x\<rparr>" "new = \<lparr>change_id = c, snapshot_sha = y\<rparr>"
  shows "waiting (lane_fold [Queued old] (\<lambda>d. d \<noteq> c)) = []"
    "waiting (wait new (lane_fold [Queued old] (\<lambda>d. d \<noteq> c))) = [new]"
    "waiting (lane_fold [Queued old, Queued new] (\<lambda>d. True)) = [old]"
  using assms
  by (simp_all add: lane_fold_def wait_def lane_place_def lane_default_def retain_waiting_def)

end
