(* ===== verification/Settlement.thy ===== *)
theory Settlement
  imports Prelude "HOL-Library.Multiset"
begin

text \<open>
  The contract of a settlement: what a boot writes after a restore, before anything may run
  (\<open>engine/restore_boot.rs\<close>). Any write can be the last one before a crash, and then the next boot reads
  the store anew. A settlement keeps the contract when each of its writes pays one thing the store owes and
  owes nothing new. Interrupted boots then write together what one boot would have written.
\<close>

section \<open>Paying what is owed\<close>

text \<open>Every write of the list pays itself, an extra one pays nothing and costs nothing.\<close>

primrec pays ::
  "('w \<Rightarrow> 's \<Rightarrow> 's) \<Rightarrow> ('s \<Rightarrow> 'w multiset) \<Rightarrow> ('w \<Rightarrow> bool) \<Rightarrow> 's \<Rightarrow> 'w list \<Rightarrow> bool" where
  "pays enact owed extra s [] \<longleftrightarrow> True"
| "pays enact owed extra s (w # ws) \<longleftrightarrow>
     owed s = (if extra w then {#} else {#w#}) + owed (enact w s) \<and> pays enact owed extra (enact w s) ws"

lemma pays_append:
  "pays enact owed extra s (ws @ vs) \<longleftrightarrow>
     pays enact owed extra s ws \<and> pays enact owed extra (fold enact ws s) vs"
  by (induction ws arbitrary: s) auto

definition duties :: "('w \<Rightarrow> bool) \<Rightarrow> 'w list \<Rightarrow> 'w multiset" where
  "duties extra ws = mset (filter (\<lambda>w. \<not> extra w) ws)"

lemma duties_simps [simp]:
  "duties extra [] = {#}"
  "duties extra (w # ws) = (if extra w then {#} else {#w#}) + duties extra ws"
  "duties extra (ws @ vs) = duties extra ws + duties extra vs"
  by (auto simp: duties_def)

lemma pays_account: "pays enact owed extra s ws \<Longrightarrow> owed s = duties extra ws + owed (fold enact ws s)"
  by (induction ws arbitrary: s) (auto simp: ac_simps)

text \<open>Writes that neither part of a sum minds pay the same in the sum.\<close>

lemma pays_add:
  assumes "pays enact owed extra s ws" and "\<And>t w. ok t \<Longrightarrow> w \<in> set ws \<Longrightarrow> other (enact w t) = other t"
    and "ok s" and "\<And>t w. ok t \<Longrightarrow> ok (enact w t)"
  shows "pays enact (\<lambda>t. owed t + other t) extra s ws"
  using assms by (induction ws arbitrary: s) (auto simp: ac_simps)

lemma mset_split_row:
  "distinct xs \<Longrightarrow> x \<in> set xs \<Longrightarrow> mset xs = add_mset x (mset (filter (\<lambda>y. y \<noteq> x) xs))"
proof (induction xs)
  case (Cons y ys)
  show ?case
  proof (cases "y = x")
    case True
    with Cons.prems have "filter (\<lambda>y. y \<noteq> x) ys = ys" by (auto simp: filter_id_conv)
    with True show ?thesis by (simp del: mset_filter)
  qed (use Cons in \<open>auto simp del: mset_filter\<close>)
qed simp

lemma fold_keeps:
  assumes "\<And>t w. ok t \<Longrightarrow> ok (enact w t)" and "ok s"
  shows "ok (fold enact ws s)"
  using assms(2) by (induction ws arbitrary: s) (auto simp: assms(1))

lemma fold_frame:
  assumes "\<And>t w. ok t \<Longrightarrow> w \<in> set ws \<Longrightarrow> other (enact w t) = other t"
    and "ok s" and "\<And>t w. ok t \<Longrightarrow> ok (enact w t)"
  shows "other (fold enact ws s) = other s"
  using assms by (induction ws arbitrary: s) auto

section \<open>One settlement\<close>

locale settlement =
  fixes enact :: "'w \<Rightarrow> 's \<Rightarrow> 's"
    and ok :: "'s \<Rightarrow> bool"
    and extra :: "'w \<Rightarrow> bool"
    and plan :: "'o \<Rightarrow> 's \<Rightarrow> 'w list"
    and owed :: "'s \<Rightarrow> 'w multiset"
    and mine :: "'w \<Rightarrow> bool"
  assumes ok_write: "ok s \<Longrightarrow> ok (enact w s)"
    and plan_mine: "ok s \<Longrightarrow> w \<in> set (plan ord s) \<Longrightarrow> mine w"
    and plan_pays: "ok s \<Longrightarrow> pays enact owed extra s (plan ord s)"
    and plan_owed: "ok s \<Longrightarrow> duties extra (plan ord s) = owed s"
    and plan_rests: "ok s \<Longrightarrow> owed s = {#} \<Longrightarrow> plan ord s = []"
    and frame: "ok s \<Longrightarrow> \<not> mine w \<Longrightarrow> owed (enact w s) = owed s"
begin

text \<open>A boot that stops after \<open>k\<close> writes, and a row of such boots, each with its own order of the rows read.\<close>

lemma cut_account:
  assumes "ok s"
  shows "owed s = duties extra (take k (plan ord s)) + owed (fold enact (take k (plan ord s)) s)"
  using plan_pays [OF assms, of ord] pays_append [of enact owed extra s "take k (plan ord s)" "drop k (plan ord s)"]
  by (intro pays_account) simp

lemma whole_settles:
  assumes "ok s" "length (plan ord s) \<le> k"
  shows "owed (fold enact (take k (plan ord s)) s) = {#}"
  using cut_account [OF assms(1), of k ord] plan_owed [OF assms(1), of ord] assms(2) by simp

lemma owed_mine: "ok s \<Longrightarrow> w \<in># owed s \<Longrightarrow> mine w"
  using plan_owed [of s undefined] plan_mine [of s w undefined]
  by (metis duties_def filter_is_subset in_mono set_mset_mset)

lemma ok_fold: "ok s \<Longrightarrow> ok (fold enact ws s)"
  by (rule fold_keeps) (auto intro: ok_write)

primrec boots :: "('o \<times> nat) list \<Rightarrow> 's \<Rightarrow> 'w list \<times> 's" where
  "boots [] s = ([], s)"
| "boots (b # bs) s =
     (let ws = take (snd b) (plan (fst b) s) in case boots bs (fold enact ws s) of (vs, t) \<Rightarrow> (ws @ vs, t))"

lemma boots_pay:
  "ok s \<Longrightarrow> boots bs s = (ws, t) \<Longrightarrow> t = fold enact ws s \<and> pays enact owed extra s ws"
proof (induction bs arbitrary: s ws)
  case (Cons b bs)
  let ?ws = "take (snd b) (plan (fst b) s)"
  obtain vs where rest: "boots bs (fold enact ?ws s) = (vs, t)" and ws: "ws = ?ws @ vs"
    using Cons.prems(2) by (auto simp: Let_def split: prod.splits)
  have "pays enact owed extra s ?ws"
    using plan_pays [OF Cons.prems(1), of "fst b"] pays_append [of enact owed extra s ?ws "drop (snd b) (plan (fst b) s)"]
    by simp
  with Cons.IH [OF ok_fold [OF Cons.prems(1)] rest] ws show ?case by (simp add: pays_append)
qed simp

lemma boots_account:
  "ok s \<Longrightarrow> boots bs s = (ws, t) \<Longrightarrow> ok t \<and> owed s = duties extra ws + owed t"
  using boots_pay [of s bs ws t] ok_fold [of s ws] by (auto dest: pays_account)

end

section \<open>Settlements one after the other\<close>

locale settlement_pair =
  one: settlement enact ok extra plan1 owed1 mine1 + two: settlement enact ok extra plan2 owed2 mine2
  for enact :: "'w \<Rightarrow> 's \<Rightarrow> 's" and ok extra
    and plan1 :: "'o \<Rightarrow> 's \<Rightarrow> 'w list" and owed1 mine1
    and plan2 :: "'o \<Rightarrow> 's \<Rightarrow> 'w list" and owed2 mine2 +
  assumes apart: "mine1 w \<Longrightarrow> \<not> mine2 w"
begin

definition both_plan :: "'o \<Rightarrow> 's \<Rightarrow> 'w list" where
  "both_plan ord s = plan1 ord s @ plan2 ord (fold enact (plan1 ord s) s)"

definition both_owed :: "'s \<Rightarrow> 'w multiset" where
  "both_owed s = owed1 s + owed2 s"

lemma both_owed_sym: "both_owed = (\<lambda>s. owed2 s + owed1 s)"
  by (auto simp: both_owed_def ac_simps)

lemma second_untouched: "ok s \<Longrightarrow> owed2 (fold enact (plan1 ord s) s) = owed2 s"
proof -
  assume s: "ok s"
  have "\<And>t w. ok t \<Longrightarrow> w \<in> set (plan1 ord s) \<Longrightarrow> owed2 (enact w t) = owed2 t"
    using one.plan_mine [OF s] apart two.frame by blast
  then show ?thesis by (rule fold_frame [where ok = ok]) (auto intro: s one.ok_write)
qed

sublocale both: settlement enact ok extra both_plan both_owed "\<lambda>w. mine1 w \<or> mine2 w"
proof
  fix s w ord
  assume s: "ok s"
  note [simp] = both_plan_def
  let ?t = "fold enact (plan1 ord s) s"
  have t: "ok ?t" by (rule one.ok_fold [OF s])
  show "ok (enact w s)" by (rule one.ok_write [OF s])
  show "w \<in> set (both_plan ord s) \<Longrightarrow> mine1 w \<or> mine2 w"
    using one.plan_mine [OF s] two.plan_mine [OF t] by auto
  have first: "pays enact both_owed extra s (plan1 ord s)"
    unfolding both_owed_def
    by (rule pays_add [OF one.plan_pays [OF s], where ok = ok])
      (use one.plan_mine [OF s] apart two.frame s one.ok_write in blast)+
  have second: "pays enact both_owed extra ?t (plan2 ord ?t)"
    unfolding both_owed_sym
    by (rule pays_add [OF two.plan_pays [OF t], where ok = ok])
      (use two.plan_mine [OF t] apart one.frame t one.ok_write in blast)+
  show "pays enact both_owed extra s (both_plan ord s)" by (simp add: pays_append first second)
  show "duties extra (both_plan ord s) = both_owed s"
    using one.plan_owed [OF s] two.plan_owed [OF t] second_untouched [OF s, of ord] by (simp add: both_owed_def)
  show "both_owed s = {#} \<Longrightarrow> both_plan ord s = []"
    using one.plan_rests [OF s, of ord] two.plan_rests [OF s, of ord] by (simp add: both_owed_def)
  show "\<not> (mine1 w \<or> mine2 w) \<Longrightarrow> both_owed (enact w s) = both_owed s"
    using one.frame [OF s] two.frame [OF s] by (simp add: both_owed_def)
qed

end

section \<open>A settlement row by row\<close>

text \<open>The shape of each settlement here: a query, then for each of its rows at most one preparing write and a last
  one. A preparing write that pays is not repeated once it is stored; an extra one may be.\<close>

locale row_settlement =
  fixes enact :: "'w \<Rightarrow> 's \<Rightarrow> 's"
    and ok :: "'s \<Rightarrow> bool"
    and extra :: "'w \<Rightarrow> bool"
    and in_order :: "'o \<Rightarrow> 'r list \<Rightarrow> 'r list"
    and rows :: "'s \<Rightarrow> 'r list"
    and prepare :: "'s \<Rightarrow> 'r \<Rightarrow> 'w option"
    and last_write :: "'s \<Rightarrow> 'r \<Rightarrow> 'w"
    and mine :: "'w \<Rightarrow> bool"
  assumes row_ok: "ok s \<Longrightarrow> ok (enact w s)"
    and any_order: "mset (in_order ord xs) = mset xs"
    and rows_distinct: "ok s \<Longrightarrow> distinct (rows s)"
    and last_pays: "\<not> extra (last_write s x)"
    and prepare_mine: "ok s \<Longrightarrow> x \<in> set (rows s) \<Longrightarrow> prepare s x = Some w \<Longrightarrow> mine w"
    and last_mine: "ok s \<Longrightarrow> x \<in> set (rows s) \<Longrightarrow> mine (last_write s x)"
    and after_last: "ok s \<Longrightarrow> x \<in> set (rows s) \<Longrightarrow>
      rows (enact (last_write s x) s) = filter (\<lambda>y. y \<noteq> x) (rows s)"
    and last_apart: "ok s \<Longrightarrow> x \<in> set (rows s) \<Longrightarrow> y \<in> set (rows s) \<Longrightarrow> y \<noteq> x \<Longrightarrow>
      prepare (enact (last_write s x) s) y = prepare s y \<and> last_write (enact (last_write s x) s) y = last_write s y"
    and after_prepare: "ok s \<Longrightarrow> x \<in> set (rows s) \<Longrightarrow> prepare s x = Some w \<Longrightarrow>
      rows (enact w s) = rows s \<and> last_write (enact w s) x = last_write s x \<and>
      (if extra w then \<forall>v. prepare (enact w s) x = Some v \<longrightarrow> extra v else prepare (enact w s) x = None)"
    and prepare_apart: "ok s \<Longrightarrow> x \<in> set (rows s) \<Longrightarrow> prepare s x = Some w \<Longrightarrow> y \<in> set (rows s) \<Longrightarrow> y \<noteq> x \<Longrightarrow>
      prepare (enact w s) y = prepare s y \<and> last_write (enact w s) y = last_write s y"
    and row_frame: "ok s \<Longrightarrow> \<not> mine w \<Longrightarrow>
      rows (enact w s) = rows s \<and>
      (\<forall>x \<in> set (rows s). prepare (enact w s) x = prepare s x \<and> last_write (enact w s) x = last_write s x)"
begin

definition row_writes :: "'s \<Rightarrow> 'r \<Rightarrow> 'w list" where
  "row_writes s x = (case prepare s x of None \<Rightarrow> [] | Some w \<Rightarrow> [w]) @ [last_write s x]"

definition row_plan :: "'o \<Rightarrow> 's \<Rightarrow> 'w list" where
  "row_plan ord s = concat (map (row_writes s) (in_order ord (rows s)))"

definition row_owed :: "'s \<Rightarrow> 'w multiset" where
  "row_owed s = (\<Sum>x \<in># mset (rows s). duties extra (row_writes s x))"

lemma duties_concat: "duties extra (concat (map f xs)) = (\<Sum>x \<in># mset xs. duties extra (f x))"
  by (induction xs) auto

lemma same_rows_owed:
  assumes "rows t = rows s" "\<And>x. x \<in> set (rows s) \<Longrightarrow> duties extra (row_writes t x) = duties extra (row_writes s x)"
  shows "row_owed t = row_owed s"
  unfolding row_owed_def assms(1) by (rule arg_cong [where f = sum_mset], rule image_mset_cong) (simp add: assms(2))

lemma owed_split:
  assumes "ok s" "x \<in> set (rows s)"
  shows "row_owed s = duties extra (row_writes s x) +
    (\<Sum>y \<in># mset (filter (\<lambda>y. y \<noteq> x) (rows s)). duties extra (row_writes s y))"
  unfolding row_owed_def
  by (subst mset_split_row [OF rows_distinct [OF assms(1)] assms(2)]) (simp del: mset_filter)

lemma last_owed:
  assumes s: "ok s" "x \<in> set (rows s)" and prep: "case prepare s x of None \<Rightarrow> True | Some v \<Rightarrow> extra v"
  shows "row_owed s = {#last_write s x#} + row_owed (enact (last_write s x) s)"
proof -
  have "duties extra (row_writes s x) = {#last_write s x#}"
    using prep by (auto simp: row_writes_def last_pays split: option.splits)
  moreover have "row_owed (enact (last_write s x) s) =
      (\<Sum>y \<in># mset (filter (\<lambda>y. y \<noteq> x) (rows s)). duties extra (row_writes s y))"
    unfolding row_owed_def after_last [OF s]
    by (rule arg_cong [where f = sum_mset], rule image_mset_cong) (use last_apart [OF s] in \<open>auto simp: row_writes_def\<close>)
  ultimately show ?thesis using owed_split [OF s] by simp
qed

lemma prepare_owed:
  assumes s: "ok s" "x \<in> set (rows s)" and w: "prepare s x = Some w"
  shows "row_owed s = (if extra w then {#} else {#w#}) + row_owed (enact w s)"
proof -
  note after = after_prepare [OF s w]
  have rows: "rows (enact w s) = rows s" using after by simp
  have s': "ok (enact w s)" "x \<in> set (rows (enact w s))" using s row_ok rows by auto
  have mine: "duties extra (row_writes s x) = (if extra w then {#} else {#w#}) + duties extra (row_writes (enact w s) x)"
    using after w by (auto simp: row_writes_def last_pays split: option.splits if_splits)
  have rest: "(\<Sum>y \<in># mset (filter (\<lambda>y. y \<noteq> x) (rows s)). duties extra (row_writes (enact w s) y)) =
      (\<Sum>y \<in># mset (filter (\<lambda>y. y \<noteq> x) (rows s)). duties extra (row_writes s y))"
    by (rule arg_cong [where f = sum_mset], rule image_mset_cong)
      (use prepare_apart [OF s w] in \<open>auto simp: row_writes_def\<close>)
  show ?thesis using owed_split [OF s] owed_split [OF s'] mine rest rows by (simp add: ac_simps)
qed

lemma rows_pay:
  "ok t \<Longrightarrow> distinct xs \<Longrightarrow> set xs \<subseteq> set (rows t) \<Longrightarrow>
   (\<And>x. x \<in> set xs \<Longrightarrow> prepare t x = prepare s x \<and> last_write t x = last_write s x) \<Longrightarrow>
   pays enact row_owed extra t (concat (map (row_writes s) xs))"
proof (induction xs arbitrary: t)
  case (Cons x xs)
  have x: "x \<in> set (rows t)" and same: "prepare t x = prepare s x" "last_write t x = last_write s x"
    using Cons.prems by auto
  define u where "u = (case prepare t x of None \<Rightarrow> t | Some w \<Rightarrow> enact w t)"
  have u: "ok u" "rows u = rows t" "last_write u x = last_write t x"
      "case prepare u x of None \<Rightarrow> True | Some v \<Rightarrow> extra v"
      "\<And>y. y \<in> set (rows t) \<Longrightarrow> y \<noteq> x \<Longrightarrow> prepare u y = prepare t y \<and> last_write u y = last_write t y"
    using Cons.prems(1) row_ok after_prepare [OF Cons.prems(1) x] prepare_apart [OF Cons.prems(1) x]
    by (auto simp: u_def split: option.splits if_splits)
  let ?v = "enact (last_write t x) u"
  have xu: "x \<in> set (rows u)" using x u(2) by simp
  have v: "ok ?v" "rows ?v = filter (\<lambda>y. y \<noteq> x) (rows t)"
      "\<And>y. y \<in> set (rows t) \<Longrightarrow> y \<noteq> x \<Longrightarrow> prepare ?v y = prepare t y \<and> last_write ?v y = last_write t y"
    using row_ok [OF u(1)] after_last [OF u(1) xu] last_apart [OF u(1) xu] u by auto
  have tail: "pays enact row_owed extra ?v (concat (map (row_writes s) xs))"
  proof (rule Cons.IH [OF v(1)])
    show "distinct xs" using Cons.prems(2) by simp
    show "set xs \<subseteq> set (rows ?v)" using Cons.prems(2,3) v(2) by auto
    fix y assume y: "y \<in> set xs"
    then have "y \<in> set (rows t)" "y \<noteq> x" using Cons.prems(2,3) by auto
    with y show "prepare ?v y = prepare s y \<and> last_write ?v y = last_write s y" using v(3) Cons.prems(4) by simp
  qed
  have final: "row_owed u = {#last_write t x#} + row_owed ?v" using last_owed [OF u(1) xu u(4)] u(3) by simp
  show ?case
  proof (cases "prepare t x")
    case None
    then have "u = t" by (simp add: u_def)
    with None show ?thesis using final tail same by (simp add: row_writes_def [of s x] last_pays)
  next
    case (Some w)
    then have "u = enact w t" by (simp add: u_def)
    with Some show ?thesis
      using final tail same prepare_owed [OF Cons.prems(1) x Some] last_pays [of s x] by (simp add: row_writes_def [of s x])
  qed
qed simp

sublocale settlement enact ok extra row_plan row_owed mine
proof
  fix s w ord
  assume s: "ok s"
  have members: "set (in_order ord (rows s)) = set (rows s)" by (metis any_order set_mset_mset)
  show "ok (enact w s)" by (rule row_ok [OF s])
  show "w \<in> set (row_plan ord s) \<Longrightarrow> mine w"
    using members prepare_mine [OF s] last_mine [OF s] by (auto simp: row_plan_def row_writes_def split: option.splits)
  have "distinct (in_order ord (rows s))"
    using rows_distinct [OF s] any_order by (metis distinct_count_atmost_1 mset_eq_imp_distinct_iff)
  with members show "pays enact row_owed extra s (row_plan ord s)"
    unfolding row_plan_def by (intro rows_pay [OF s]) auto
  show "duties extra (row_plan ord s) = row_owed s" by (simp add: row_plan_def duties_concat any_order row_owed_def)
  show "row_owed s = {#} \<Longrightarrow> row_plan ord s = []"
    using any_order [of ord "rows s"]
    by (cases "rows s") (auto simp: row_owed_def row_plan_def row_writes_def last_pays split: option.splits if_splits)
  show "\<not> mine w \<Longrightarrow> row_owed (enact w s) = row_owed s"
    by (rule same_rows_owed) (use row_frame [OF s] in \<open>auto simp: row_writes_def\<close>)
qed

lemma owed_write: "w \<in># row_owed s \<Longrightarrow> \<exists>x \<in> set (rows s). w \<in> set (row_writes s x)"
  by (auto simp: row_owed_def duties_def)

lemma owed_rows: "ok s \<Longrightarrow> row_owed s = {#} \<Longrightarrow> rows s = []"
  by (cases "rows s") (auto simp: row_owed_def row_writes_def last_pays split: option.splits if_splits)

end

end
