(* ===== verification/Restore_Boot.thy ===== *)
theory Restore_Boot
  imports Settlement Event_Waits Lane_Driver_State Apply_All_Driver Main_Check_Driver Thread_Status
begin

text \<open>
  A boot on a restored snapshot (\<open>engine/restore_boot.rs\<close>, \<open>core/snapshot/boundary.rs\<close>). The boundary splits the
  stored events into archived and fresh ones. Before anything may run, each component ends what the archive left
  open: \<open>settle_restored_threads\<close> (\<open>chat/recovery.rs\<close>), \<open>settle_restored_waits\<close> (\<open>event_wait/mod.rs\<close>),
  \<open>settle_restored_batches\<close> (\<open>apply_all_driver.rs\<close>), \<open>settle_restored_standing_applies\<close> (\<open>standing_apply.rs\<close>),
  \<open>settle_restored_lane\<close> (\<open>landing_lane/driver.rs\<close>) and \<open>settle_restored_checks\<close> (\<open>main_check/driver.rs\<close>). A settlement
  reads rows and then writes for each of them, and an error or a crash ends the boot with the writes made so
  far, so a settlement is the list of its writes. Rows a query returns in no order come in the order of a rank
  that each boot chooses anew.
\<close>

section \<open>The store\<close>

record restore_boundary =
  rb_restore_id :: uuid
  rb_snapshot :: string
  rb_restored_at :: int
  rb_event_sequence :: int

record restore_marker =
  rm_restore_id :: uuid
  rm_snapshot :: string
  rm_restored_at :: int

text \<open>The events the settlements read or write, each with its sequence. \<open>TurnEvent\<close> is a thread event they know by
  its type alone. \<open>ChangeAppliedEvent\<close> carries the \<open>pre_sha\<close> of its landing merge, when it has a landing merge.\<close>

datatype restore_event =
    TurnEvent uuid string
  | TurnAborted uuid bool
  | QuestionAsked uuid string
  | QuestionAnswered uuid string bool
  | ApplyNowEnded uuid
  | WaitEvent uuid wait_note
  | ChangeQueuedEvent uuid lane_member
  | ChangeUnqueuedEvent uuid uuid unqueue_reason
  | ChangeAppliedEvent uuid uuid "sha option option"
  | LaneBatchStartedEvent uuid sha uuid "lane_member list"
  | LaneBatchLandedEvent uuid
  | LaneBatchFailedEvent uuid string
  | PressStartedEvent uuid
  | PressCompletedEvent uuid "uuid list" "apply_failure list"
  | ArmDroppedEvent uuid "uuid option" "uuid option" string
  | CheckEvent check_event

type_synonym restore_log = "(int \<times> restore_event) list"

fun event_thread :: "restore_event \<Rightarrow> uuid option" where
  "event_thread (TurnEvent t ty) = Some t"
| "event_thread (TurnAborted t restored) = Some t"
| "event_thread (QuestionAsked t tool) = Some t"
| "event_thread (QuestionAnswered t tool quiet) = Some t"
| "event_thread (ApplyNowEnded t) = Some t"
| "event_thread (WaitEvent t note) = Some t"
| "event_thread (ChangeQueuedEvent t m) = Some t"
| "event_thread (ChangeUnqueuedEvent t c r) = Some t"
| "event_thread (ChangeAppliedEvent t c pre) = Some t"
| "event_thread _ = None"

record thread_summary =
  ts_thread :: uuid
  ts_status :: thread_status
  ts_apply_in_flight :: bool

record standing_arm =
  arm_thread :: uuid
  arm_change :: "uuid option"
  arm_batch :: "uuid option"
  arm_generation :: int

record boot_store =
  bs_boundary :: "restore_boundary option"
  bs_log :: restore_log
  bs_next :: int
  bs_threads :: "thread_summary list"
  bs_presses :: "(uuid \<times> uuid list \<times> nat option) list"
  bs_arms :: "standing_arm list"
  bs_applied :: "uuid list"
  bs_landing_thread :: "uuid \<Rightarrow> uuid"

text \<open>\<open>install\<close>: the boundary of the marker's restore. A boot of the same restore keeps the sequence it found first.\<close>

definition last_sequence :: "restore_log \<Rightarrow> int" where
  "last_sequence evs = foldr max (map fst evs) 0"

definition install_boundary :: "restore_marker \<Rightarrow> boot_store \<Rightarrow> boot_store option" where
  "install_boundary m s =
     (let fresh = \<lparr>rb_restore_id = rm_restore_id m, rb_snapshot = rm_snapshot m, rb_restored_at = rm_restored_at m,
                   rb_event_sequence = last_sequence (bs_log s)\<rparr>
      in case bs_boundary s of
           None \<Rightarrow> Some (s\<lparr>bs_boundary := Some fresh\<rparr>)
         | Some b \<Rightarrow>
             if rb_restore_id b \<noteq> rm_restore_id m then Some (s\<lparr>bs_boundary := Some fresh\<rparr>)
             else if rb_snapshot b = rm_snapshot m \<and> rb_restored_at b = rm_restored_at m then Some s
             else None)"

definition permits_slot :: "boot_store \<Rightarrow> int \<Rightarrow> bool" where
  "permits_slot s slot = (case bs_boundary s of None \<Rightarrow> True | Some b \<Rightarrow> rb_restored_at b < slot)"

section \<open>Writes\<close>

datatype boot_write =
    AnswerCard uuid string
  | AbortTurn uuid
  | EndApplyNow uuid
  | CancelWait uuid live_wait
  | CompletePress uuid "uuid list" "apply_failure list"
  | DeletePress uuid
  | DropArm standing_arm
  | DeleteArm uuid int
  | FailLaneBatch uuid
  | UnqueueChange uuid uuid
  | AbandonCheck uuid "string option"

definition arm_restored_reason :: string where
  "arm_restored_reason = ''snapshot-restored''"

definition lane_restored_reason :: string where
  "lane_restored_reason = ''Workspace restored from snapshot; apply these changes again.''"

definition check_restored_reason :: string where
  "check_restored_reason = ''Workspace restored from snapshot; check abandoned.''"

fun event_of :: "boot_write \<Rightarrow> restore_event option" where
  "event_of (AnswerCard t tool) = Some (QuestionAnswered t tool False)"
| "event_of (AbortTurn t) = Some (TurnAborted t True)"
| "event_of (EndApplyNow t) = Some (ApplyNowEnded t)"
| "event_of (CancelWait t w) = Some (WaitEvent t (CanceledNote (wait_id w) SnapshotRestored))"
| "event_of (CompletePress b applied failed) = Some (PressCompletedEvent b applied failed)"
| "event_of (DropArm a) = Some (ArmDroppedEvent (arm_thread a) (arm_change a) (arm_batch a) arm_restored_reason)"
| "event_of (FailLaneBatch b) = Some (LaneBatchFailedEvent b lane_restored_reason)"
| "event_of (UnqueueChange t c) = Some (ChangeUnqueuedEvent t c UnqRemoved)"
| "event_of (AbandonCheck c url) = Some (CheckEvent (MainCheckAbandoned c check_restored_reason url))"
| "event_of (DeletePress b) = None"
| "event_of (DeleteArm t g) = None"

text \<open>What the projection of an event does to the thread's row. An answer that is not quiet sets the thread running,
  an abort by a restore sets it failed.\<close>

definition set_row :: "uuid \<Rightarrow> (thread_summary \<Rightarrow> thread_summary) \<Rightarrow> boot_store \<Rightarrow> boot_store" where
  "set_row t f s = s\<lparr>bs_threads := map (\<lambda>r. if ts_thread r = t then f r else r) (bs_threads s)\<rparr>"

fun project_event :: "restore_event \<Rightarrow> boot_store \<Rightarrow> boot_store" where
  "project_event (QuestionAnswered t tool quiet) s =
     set_row t (\<lambda>r. r\<lparr>ts_status := (if quiet then thread_status.Idle else thread_status.Running)\<rparr>) s"
| "project_event (TurnAborted t restored) s = set_row t (\<lambda>r. r\<lparr>ts_status := thread_status.Failed\<rparr>) s"
| "project_event (ApplyNowEnded t) s = set_row t (\<lambda>r. r\<lparr>ts_apply_in_flight := False\<rparr>) s"
| "project_event e s = s"

definition emit_event :: "restore_event \<Rightarrow> boot_store \<Rightarrow> boot_store" where
  "emit_event e s = project_event e (s\<lparr>bs_log := bs_log s @ [(bs_next s, e)], bs_next := bs_next s + 1\<rparr>)"

definition delete_rows :: "boot_write \<Rightarrow> boot_store \<Rightarrow> boot_store" where
  "delete_rows w s =
     (case w of
        DeletePress b \<Rightarrow> s\<lparr>bs_presses := filter (\<lambda>row. fst row \<noteq> b) (bs_presses s)\<rparr>
      | DeleteArm t g \<Rightarrow>
          s\<lparr>bs_arms := filter (\<lambda>a. \<not> (arm_thread a = t \<and> arm_generation a = g)) (bs_arms s)\<rparr>
      | _ \<Rightarrow> s)"

definition enact :: "boot_write \<Rightarrow> boot_store \<Rightarrow> boot_store" where
  "enact w s = (case event_of w of None \<Rightarrow> delete_rows w s | Some e \<Rightarrow> emit_event e s)"

section \<open>The queries\<close>

type_synonym rank = "uuid \<Rightarrow> nat"

definition archived :: "boot_store \<Rightarrow> restore_log" where
  "archived s =
     (case bs_boundary s of None \<Rightarrow> [] | Some b \<Rightarrow> filter (\<lambda>e. fst e \<le> rb_event_sequence b) (bs_log s))"

definition fresh :: "boot_store \<Rightarrow> restore_log" where
  "fresh s =
     (case bs_boundary s of None \<Rightarrow> bs_log s | Some b \<Rightarrow> filter (\<lambda>e. rb_event_sequence b < fst e) (bs_log s))"

text \<open>\<open>settle_restored_threads\<close>: the turns, each with its open card, and the Apply Nows in flight.\<close>

definition turn_starts :: "string list" where
  "turn_starts =
     [''MessageReceived'', ''CodingAgentUserMessageSent'', ''TriggerStarted'', ''ChildThreadCompleted'',
      ''ContinuationStarted'', ''OrphanRecoveryStarted'']"

fun renews_turn :: "uuid \<Rightarrow> restore_event \<Rightarrow> bool" where
  "renews_turn t (TurnEvent u ty) \<longleftrightarrow> u = t \<and> ty \<in> set turn_starts"
| "renews_turn t (TurnAborted u restored) \<longleftrightarrow> u = t \<and> restored"
| "renews_turn t _ \<longleftrightarrow> False"

definition in_a_turn :: "thread_status \<Rightarrow> bool" where
  "in_a_turn st \<longleftrightarrow> st \<in> {thread_status.Running, thread_status.WaitingForUserAnswer, thread_status.Paused}"

definition open_turns :: "boot_store \<Rightarrow> uuid list" where
  "open_turns s =
     map ts_thread
       (filter (\<lambda>r. in_a_turn (ts_status r) \<and>
                    list_ex (\<lambda>e. event_thread (snd e) = Some (ts_thread r)) (archived s) \<and>
                    \<not> list_ex (\<lambda>e. renews_turn (ts_thread r) (snd e)) (fresh s))
          (bs_threads s))"

fun asks_unanswered :: "restore_log \<Rightarrow> uuid \<Rightarrow> restore_event \<Rightarrow> string option" where
  "asks_unanswered evs t (QuestionAsked u tool) =
     (if u = t \<and> \<not> list_ex (\<lambda>e. \<exists>quiet \<in> {False, True}. snd e = QuestionAnswered t tool quiet) evs then Some tool else None)"
| "asks_unanswered evs t _ = None"

definition pending_question :: "restore_log \<Rightarrow> uuid \<Rightarrow> string option" where
  "pending_question evs t =
     (case rev (List.map_filter (\<lambda>e. asks_unanswered evs t (snd e)) evs) of
        [] \<Rightarrow> None
      | tool # _ \<Rightarrow> if tool = [] then None else Some tool)"

definition close_card :: "boot_store \<Rightarrow> uuid \<Rightarrow> boot_write option" where
  "close_card s t = map_option (AnswerCard t) (pending_question (bs_log s) t)"

definition open_applies :: "boot_store \<Rightarrow> uuid list" where
  "open_applies s =
     (if bs_boundary s = None then []
      else map ts_thread
        (filter (\<lambda>r. ts_apply_in_flight r \<and>
                     \<not> list_ex (\<lambda>e. snd e = TurnEvent (ts_thread r) ''ApplyNowStarted'') (fresh s)) (bs_threads s)))"

text \<open>\<open>settle_restored_waits\<close>: the archived waits no later event of their thread resolves.\<close>

definition wait_resolved :: "restore_log \<Rightarrow> int \<Rightarrow> uuid \<Rightarrow> live_wait \<Rightarrow> bool" where
  "wait_resolved evs at_seq t w \<longleftrightarrow>
     list_ex (\<lambda>(q, e). at_seq < q \<and>
        (case e of WaitEvent u note \<Rightarrow> u = t \<and> resolves_wait note = Some (wait_id w) | _ \<Rightarrow> False)) evs"

fun started_wait :: "int \<times> restore_event \<Rightarrow> (int \<times> uuid \<times> live_wait) option" where
  "started_wait (q, WaitEvent t (StartedNote w)) = Some (q, t, w)"
| "started_wait _ = None"

definition open_waits :: "boot_store \<Rightarrow> (int \<times> uuid \<times> live_wait) list" where
  "open_waits s =
     filter (\<lambda>(q, t, w). \<not> wait_resolved (bs_log s) q t w) (List.map_filter started_wait (archived s))"

text \<open>\<open>recoverable_batches\<close>: the presses whose first start is not fresh.\<close>

definition first_sequence :: "restore_log \<Rightarrow> (restore_event \<Rightarrow> bool) \<Rightarrow> int option" where
  "first_sequence evs P =
     (case filter (\<lambda>e. P (snd e)) evs of [] \<Rightarrow> None | e # es \<Rightarrow> Some (foldr min (map fst es) (fst e)))"

definition begun_fresh :: "boot_store \<Rightarrow> (restore_event \<Rightarrow> bool) \<Rightarrow> bool" where
  "begun_fresh s P =
     (case bs_boundary s of
        None \<Rightarrow> True
      | Some b \<Rightarrow> (case first_sequence (bs_log s) P of None \<Rightarrow> False | Some q \<Rightarrow> rb_event_sequence b < q))"

definition open_presses :: "boot_store \<Rightarrow> (uuid \<times> uuid list \<times> nat option) list" where
  "open_presses s = filter (\<lambda>row. \<not> begun_fresh s (\<lambda>e. e = PressStartedEvent (fst row))) (bs_presses s)"

fun completes_press :: "uuid \<Rightarrow> restore_event \<Rightarrow> bool" where
  "completes_press b (PressCompletedEvent c applied failed) \<longleftrightarrow> c = b"
| "completes_press b _ \<longleftrightarrow> False"

definition end_press :: "boot_store \<Rightarrow> uuid \<times> uuid list \<times> nat option \<Rightarrow> boot_write option" where
  "end_press s row =
     (let (b, ids, actor) = row
      in if list_ex (\<lambda>e. completes_press b (snd e)) (bs_log s) then None
         else Some (CompletePress b (filter (\<lambda>c. c \<in> set ids) (bs_applied s))
                (map (\<lambda>c. \<lparr>failed_change = c, failure_error = restored_reason\<rparr>)
                  (filter (\<lambda>c. c \<notin> set (bs_applied s)) ids))))"

text \<open>\<open>settle_restored_standing_applies\<close> and \<open>settle_restored_arm\<close>.\<close>

definition open_arms :: "boot_store \<Rightarrow> standing_arm list" where
  "open_arms s =
     (case bs_boundary s of None \<Rightarrow> [] | Some b \<Rightarrow> filter (\<lambda>a. arm_generation a \<le> rb_restored_at b) (bs_arms s))"

fun announces_drop :: "uuid \<Rightarrow> restore_event \<Rightarrow> bool" where
  "announces_drop t (ArmDroppedEvent u c b reason) \<longleftrightarrow> u = t \<and> reason = arm_restored_reason"
| "announces_drop t _ \<longleftrightarrow> False"

definition announce_drop :: "boot_store \<Rightarrow> standing_arm \<Rightarrow> boot_write option" where
  "announce_drop s a =
     (if list_ex (\<lambda>e. announces_drop (arm_thread a) (snd e)) (fresh s) then None else Some (DropArm a))"

text \<open>\<open>settle_restored_lane\<close>: the archived batches no event ends, and the archived \<open>ChangeQueued\<close> that is the latest
  word on its change.\<close>

fun starts_lane_batch :: "restore_event \<Rightarrow> uuid option" where
  "starts_lane_batch (LaneBatchStartedEvent b base t ms) = Some b"
| "starts_lane_batch _ = None"

fun ends_lane_batch :: "restore_event \<Rightarrow> uuid option" where
  "ends_lane_batch (LaneBatchLandedEvent b) = Some b"
| "ends_lane_batch (LaneBatchFailedEvent b reason) = Some b"
| "ends_lane_batch _ = None"

fun marks_queue :: "restore_event \<Rightarrow> uuid option" where
  "marks_queue (ChangeQueuedEvent t m) = Some (lane_member.change_id m)"
| "marks_queue (ChangeUnqueuedEvent t c r) = Some c"
| "marks_queue (ChangeAppliedEvent t c pre) = Some c"
| "marks_queue _ = None"

definition open_lane_batches :: "boot_store \<Rightarrow> uuid list" where
  "open_lane_batches s =
     filter (\<lambda>b. \<not> list_ex (\<lambda>e. ends_lane_batch (snd e) = Some b) (bs_log s))
       (remdups (List.map_filter (\<lambda>e. starts_lane_batch (snd e)) (archived s)))"

fun queued_row :: "int \<times> restore_event \<Rightarrow> (int \<times> uuid \<times> uuid) option" where
  "queued_row (q, ChangeQueuedEvent t m) = Some (q, t, lane_member.change_id m)"
| "queued_row _ = None"

definition open_queued :: "boot_store \<Rightarrow> (int \<times> uuid \<times> uuid) list" where
  "open_queued s =
     filter (\<lambda>(q, t, c). \<not> list_ex (\<lambda>e. q < fst e \<and> marks_queue (snd e) = Some c) (bs_log s))
       (List.map_filter queued_row (archived s))"

text \<open>\<open>settle_restored_checks\<close>: the check that runs in the records, when it began in the archive.\<close>

fun check_record_of :: "(uuid \<Rightarrow> uuid) \<Rightarrow> restore_event \<Rightarrow> main_check_record option" where
  "check_record_of landing_thread (CheckEvent ce) = Some (record_of_event ce)"
| "check_record_of landing_thread (ChangeAppliedEvent t c (Some pre)) = Some (RLanded (Some (landing_thread t)) pre)"
| "check_record_of landing_thread _ = None"

definition load_check_records :: "boot_store \<Rightarrow> main_check_record list" where
  "load_check_records s =
     (let rows = List.map_filter (\<lambda>(q, e). map_option (Pair q) (check_record_of (bs_landing_thread s) e)) (bs_log s)
      in case bs_boundary s of
           None \<Rightarrow> map snd rows
         | Some b \<Rightarrow>
             (let old = (\<lambda>row. fst row \<le> rb_event_sequence b)
              in map snd (takeWhile old rows) @ [RestoreBoundary] @ map snd (dropWhile old rows)))"

fun starts_check :: "uuid \<Rightarrow> restore_event \<Rightarrow> bool" where
  "starts_check c (CheckEvent (MainCheckStarted d from to)) \<longleftrightarrow> d = c"
| "starts_check c _ \<longleftrightarrow> False"

definition active_check :: "main_check_record list \<Rightarrow> (check_range \<times> string option) option" where
  "active_check rs =
     (let rec = check_fold rs
      in case rec_reattach rec of
           Some (r, link) \<Rightarrow> Some (r, Some (run_url link))
         | None \<Rightarrow> map_option (\<lambda>r. (r, None)) (rec_interrupted rec))"

definition open_checks :: "boot_store \<Rightarrow> (uuid \<times> string option) list" where
  "open_checks s =
     (if bs_boundary s = None then []
      else case active_check (load_check_records s) of
        None \<Rightarrow> []
      | Some (r, url) \<Rightarrow> if begun_fresh s (starts_check (check_id r)) then [] else [(check_id r, url)])"

section \<open>The settlements\<close>

definition write_rows :: "(boot_store \<Rightarrow> 'r \<Rightarrow> boot_write option) \<Rightarrow> (boot_store \<Rightarrow> 'r \<Rightarrow> boot_write) \<Rightarrow>
    boot_store \<Rightarrow> 'r list \<Rightarrow> boot_write list" where
  "write_rows first final s rows =
     concat (map (\<lambda>x. (case first s x of None \<Rightarrow> [] | Some w \<Rightarrow> [w]) @ [final s x]) rows)"

definition and_then ::
  "(rank \<Rightarrow> boot_store \<Rightarrow> boot_write list) \<Rightarrow> (rank \<Rightarrow> boot_store \<Rightarrow> boot_write list) \<Rightarrow>
   rank \<Rightarrow> boot_store \<Rightarrow> boot_write list" where
  "and_then p q ord s = p ord s @ q ord (fold enact (p ord s) s)"

definition settle_turns :: "rank \<Rightarrow> boot_store \<Rightarrow> boot_write list" where
  "settle_turns ord s = write_rows close_card (\<lambda>s. AbortTurn) s (sort_key ord (open_turns s))"

definition settle_applies :: "rank \<Rightarrow> boot_store \<Rightarrow> boot_write list" where
  "settle_applies ord s = write_rows (\<lambda>s t. None) (\<lambda>s. EndApplyNow) s (sort_key ord (open_applies s))"

definition settle_restored_threads :: "rank \<Rightarrow> boot_store \<Rightarrow> boot_write list" where
  "settle_restored_threads = and_then settle_turns settle_applies"

definition settle_restored_waits :: "rank \<Rightarrow> boot_store \<Rightarrow> boot_write list" where
  "settle_restored_waits ord s = write_rows (\<lambda>s x. None) (\<lambda>s (q, t, w). CancelWait t w) s (open_waits s)"

definition settle_restored_batches :: "rank \<Rightarrow> boot_store \<Rightarrow> boot_write list" where
  "settle_restored_batches ord s = write_rows end_press (\<lambda>s row. DeletePress (fst row)) s (open_presses s)"

definition settle_restored_standing_applies :: "rank \<Rightarrow> boot_store \<Rightarrow> boot_write list" where
  "settle_restored_standing_applies ord s =
     write_rows announce_drop (\<lambda>s a. DeleteArm (arm_thread a) (arm_generation a)) s
       (sort_key (\<lambda>a. ord (arm_thread a)) (open_arms s))"

definition settle_lane_batches :: "rank \<Rightarrow> boot_store \<Rightarrow> boot_write list" where
  "settle_lane_batches ord s = write_rows (\<lambda>s b. None) (\<lambda>s. FailLaneBatch) s (sort_key ord (open_lane_batches s))"

definition settle_lane_queue :: "rank \<Rightarrow> boot_store \<Rightarrow> boot_write list" where
  "settle_lane_queue ord s = write_rows (\<lambda>s x. None) (\<lambda>s (q, t, c). UnqueueChange t c) s (open_queued s)"

definition settle_restored_lane :: "rank \<Rightarrow> boot_store \<Rightarrow> boot_write list" where
  "settle_restored_lane = and_then settle_lane_batches settle_lane_queue"

definition settle_restored_check :: "rank \<Rightarrow> boot_store \<Rightarrow> boot_write list" where
  "settle_restored_check ord s = write_rows (\<lambda>s x. None) (\<lambda>s (c, url). AbandonCheck c url) s (open_checks s)"

definition settle_before_dispatch :: "rank \<Rightarrow> boot_store \<Rightarrow> boot_write list" where
  "settle_before_dispatch =
     and_then settle_restored_threads (and_then settle_restored_waits (and_then settle_restored_batches
       (and_then settle_restored_standing_applies (and_then settle_restored_lane settle_restored_check))))"

text \<open>A boot that installs the boundary of its marker and stops after \<open>k\<close> writes, and a row of such boots.\<close>

definition restore_boot :: "restore_marker \<Rightarrow> rank \<Rightarrow> nat \<Rightarrow> boot_store \<Rightarrow> boot_write list \<times> boot_store" where
  "restore_boot m ord k s =
     (case install_boundary m s of
        None \<Rightarrow> ([], s)
      | Some s \<Rightarrow> (let ws = take k (settle_before_dispatch ord s) in (ws, fold enact ws s)))"

fun restore_boots :: "restore_marker \<Rightarrow> (rank \<times> nat) list \<Rightarrow> boot_store \<Rightarrow> boot_write list \<times> boot_store" where
  "restore_boots m [] s = ([], s)"
| "restore_boots m ((ord, k) # bs) s =
     (let (ws, s) = restore_boot m ord k s; (vs, s) = restore_boots m bs s in (ws @ vs, s))"

definition boot_finishes :: "restore_marker \<Rightarrow> rank \<Rightarrow> nat \<Rightarrow> boot_store \<Rightarrow> bool" where
  "boot_finishes m ord k s =
     (case install_boundary m s of None \<Rightarrow> False | Some s \<Rightarrow> length (settle_before_dispatch ord s) \<le> k)"

text \<open>\<open>load_lane_records\<close>: the fresh events the lane's state depends on. An applied change counts when it was ever
  queued.\<close>

fun lane_record_of_event :: "restore_event \<Rightarrow> lane_record option" where
  "lane_record_of_event (ChangeQueuedEvent t m) = Some (lane_record.Queued m)"
| "lane_record_of_event (ChangeUnqueuedEvent t c r) = Some (Unqueued c)"
| "lane_record_of_event (ChangeAppliedEvent t c pre) = Some (lane_record.Applied c)"
| "lane_record_of_event (LaneBatchStartedEvent b base t ms) = Some (lane_record.BatchStarted b base t ms)"
| "lane_record_of_event (LaneBatchLandedEvent b) = Some (BatchEnded b)"
| "lane_record_of_event (LaneBatchFailedEvent b reason) = Some (BatchEnded b)"
| "lane_record_of_event _ = None"

fun ever_queued :: "restore_log \<Rightarrow> restore_event \<Rightarrow> bool" where
  "ever_queued evs (ChangeAppliedEvent t c pre) \<longleftrightarrow>
     list_ex (\<lambda>e. case snd e of ChangeQueuedEvent u m \<Rightarrow> lane_member.change_id m = c | _ \<Rightarrow> False) evs"
| "ever_queued evs _ \<longleftrightarrow> True"

definition load_lane_records :: "boot_store \<Rightarrow> lane_record list" where
  "load_lane_records s =
     (let floor = (case bs_boundary s of None \<Rightarrow> 0 | Some b \<Rightarrow> rb_event_sequence b)
      in List.map_filter (\<lambda>e. if floor < fst e \<and> ever_queued (bs_log s) (snd e) then lane_record_of_event (snd e) else None)
           (bs_log s))"

section \<open>What the store keeps\<close>

definition wait_keys :: "restore_log \<Rightarrow> (uuid \<times> uuid) list" where
  "wait_keys evs = map (\<lambda>(q, t, w). (t, wait_id w)) (List.map_filter started_wait evs)"

definition boot_store_ok :: "boot_store \<Rightarrow> bool" where
  "boot_store_ok s \<longleftrightarrow>
     0 < bs_next s \<and> list_all (\<lambda>e. 0 < fst e \<and> fst e < bs_next s) (bs_log s) \<and>
     sorted_wrt (<) (map fst (bs_log s)) \<and>
     (case bs_boundary s of None \<Rightarrow> True | Some b \<Rightarrow> rb_event_sequence b < bs_next s) \<and>
     distinct (map ts_thread (bs_threads s)) \<and> distinct (map fst (bs_presses s)) \<and>
     distinct (map arm_thread (bs_arms s)) \<and> distinct (wait_keys (bs_log s))"

fun is_card :: "boot_write \<Rightarrow> bool" where
  "is_card (AnswerCard t tool) \<longleftrightarrow> True"
| "is_card _ \<longleftrightarrow> False"

end
