(* ===== verification/Restore_Boot_Facts.thy ===== *)
theory Restore_Boot_Facts
  imports Restore_Boot
begin

text \<open>
  Each settlement of a restore keeps the contract of \<open>Settlement\<close>, and so do all of them one after the other. The
  first section says what one write does to the store, the others discharge the contract query by query.
\<close>

named_theorems boot_simps

section \<open>One write\<close>

definition new_events :: "boot_write \<Rightarrow> boot_store \<Rightarrow> restore_log" where
  "new_events w s = (case event_of w of None \<Rightarrow> [] | Some e \<Rightarrow> [(bs_next s, e)])"

lemma set_row_rest [simp]:
  "bs_log (set_row t f s) = bs_log s" "bs_next (set_row t f s) = bs_next s"
  "bs_boundary (set_row t f s) = bs_boundary s" "bs_presses (set_row t f s) = bs_presses s"
  "bs_arms (set_row t f s) = bs_arms s" "bs_applied (set_row t f s) = bs_applied s"
  "bs_landing_thread (set_row t f s) = bs_landing_thread s"
  by (simp_all add: set_row_def)

lemma enact_log [boot_simps]: "bs_log (enact w s) = bs_log s @ new_events w s"
  by (cases w) (simp_all add: enact_def emit_event_def delete_rows_def new_events_def)

lemma enact_rest [boot_simps]:
  "bs_boundary (enact w s) = bs_boundary s" "bs_applied (enact w s) = bs_applied s"
  "bs_landing_thread (enact w s) = bs_landing_thread s"
  by (cases w; simp add: enact_def emit_event_def delete_rows_def)+

lemma enact_next: "bs_next (enact w s) = (if event_of w = None then bs_next s else bs_next s + 1)"
  by (cases w) (simp_all add: enact_def emit_event_def delete_rows_def)

lemma enact_presses [boot_simps]:
  "bs_presses (enact w s) =
     (case w of DeletePress b \<Rightarrow> filter (\<lambda>row. fst row \<noteq> b) (bs_presses s) | _ \<Rightarrow> bs_presses s)"
  by (cases w) (simp_all add: enact_def emit_event_def delete_rows_def)

lemma enact_arms [boot_simps]:
  "bs_arms (enact w s) =
     (case w of DeleteArm t g \<Rightarrow> filter (\<lambda>a. \<not> (arm_thread a = t \<and> arm_generation a = g)) (bs_arms s)
      | _ \<Rightarrow> bs_arms s)"
  by (cases w) (simp_all add: enact_def emit_event_def delete_rows_def)

definition row_update :: "boot_write \<Rightarrow> thread_summary \<Rightarrow> thread_summary" where
  "row_update w r =
     (case w of
        AnswerCard t tool \<Rightarrow> if ts_thread r = t then r\<lparr>ts_status := thread_status.Running\<rparr> else r
      | AbortTurn t \<Rightarrow> if ts_thread r = t then r\<lparr>ts_status := thread_status.Failed\<rparr> else r
      | EndApplyNow t \<Rightarrow> if ts_thread r = t then r\<lparr>ts_apply_in_flight := False\<rparr> else r
      | _ \<Rightarrow> r)"

lemma enact_threads [boot_simps]: "bs_threads (enact w s) = map (row_update w) (bs_threads s)"
  by (cases w) (simp_all add: enact_def emit_event_def delete_rows_def set_row_def row_update_def map_idI)

lemma row_update_thread [simp]: "ts_thread (row_update w r) = ts_thread r"
  by (cases w) (simp_all add: row_update_def)

lemma enact_thread_ids: "map ts_thread (bs_threads (enact w s)) = map ts_thread (bs_threads s)"
  by (simp add: enact_threads comp_def)

lemma new_events_start_no_wait: "List.map_filter started_wait (new_events w s) = []"
  by (cases w) (simp_all add: new_events_def map_filter_simps)

lemma map_filter_app [boot_simps]: "List.map_filter f (xs @ ys) = List.map_filter f xs @ List.map_filter f ys"
  by (simp add: map_filter_def)

lemma filter_rows_distinct: "distinct (map f xs) \<Longrightarrow> distinct (map f (filter P xs))"
  by (rule distinct_map_filter)

lemma boot_store_ok_enact:
  assumes "boot_store_ok s"
  shows "boot_store_ok (enact w s)"
proof -
  have keys: "wait_keys (bs_log (enact w s)) = wait_keys (bs_log s)"
    by (simp add: wait_keys_def boot_simps new_events_start_no_wait)
  have evs: "list_all (\<lambda>e. 0 < fst e \<and> fst e < bs_next (enact w s)) (bs_log (enact w s))"
      "sorted_wrt (<) (map fst (bs_log (enact w s)))"
    using assms
    by (cases "event_of w"; force simp: boot_store_ok_def enact_log new_events_def enact_next list_all_iff sorted_wrt_append)+
  have rows: "distinct (map fst (bs_presses (enact w s)))" "distinct (map arm_thread (bs_arms (enact w s)))"
    using assms by (cases w; simp add: boot_store_ok_def boot_simps filter_rows_distinct)+
  show ?thesis
    using assms keys evs rows by (auto simp: boot_store_ok_def enact_rest enact_thread_ids enact_next simp del: map_map split: option.splits)
qed

lemma archived_enact [boot_simps]: "boot_store_ok s \<Longrightarrow> archived (enact w s) = archived s"
  by (auto simp: archived_def enact_rest enact_log new_events_def boot_store_ok_def split: option.splits)

lemma fresh_enact [boot_simps]: "boot_store_ok s \<Longrightarrow> fresh (enact w s) = fresh s @ new_events w s"
  by (auto simp: fresh_def enact_rest enact_log new_events_def boot_store_ok_def split: option.splits)

lemma begun_fresh_enact [boot_simps]:
  assumes "\<And>e. event_of w = Some e \<Longrightarrow> \<not> P e"
  shows "begun_fresh (enact w s) P = begun_fresh s P"
proof -
  have "filter (\<lambda>e. P (snd e)) (new_events w s) = []" using assms by (auto simp: new_events_def split: option.splits)
  then show ?thesis by (cases "bs_boundary s") (simp_all add: begun_fresh_def first_sequence_def enact_rest enact_log)
qed

text \<open>Filters that lose one row.\<close>

lemma filter_drop_one:
  "(\<And>y. y \<in> set xs \<Longrightarrow> Q y \<longleftrightarrow> P y \<and> y \<noteq> x) \<Longrightarrow> filter Q xs = filter (\<lambda>y. y \<noteq> x) (filter P xs)"
  by (induction xs) auto

lemma row_distinct: "distinct (map f xs) \<Longrightarrow> distinct xs"
  by (simp add: distinct_map)

lemma boot_store_ok_distinct: "boot_store_ok s \<Longrightarrow> distinct (map fst (bs_log s))"
  by (simp add: boot_store_ok_def strict_sorted_iff)

section \<open>Turns\<close>

lemma asks_unanswered_other:
  "(\<And>tool quiet. event_of w \<noteq> Some (QuestionAnswered t tool quiet)) \<Longrightarrow>
   asks_unanswered (evs @ new_events w s) t e = asks_unanswered evs t e"
  by (cases e) (auto simp: new_events_def split: option.splits)

lemma pending_question_other:
  assumes "\<And>tool quiet. event_of w \<noteq> Some (QuestionAnswered t tool quiet)"
  shows "pending_question (evs @ new_events w s) t = pending_question evs t"
proof -
  have "List.map_filter (\<lambda>e. asks_unanswered evs t (snd e)) (new_events w s) = []"
    by (cases w) (simp_all add: new_events_def map_filter_simps)
  then show ?thesis
    by (simp add: pending_question_def map_filter_app asks_unanswered_other [OF assms])
qed

definition turn_due :: "boot_store \<Rightarrow> thread_summary \<Rightarrow> bool" where
  "turn_due s r \<longleftrightarrow> in_a_turn (ts_status r) \<and>
     list_ex (\<lambda>e. event_thread (snd e) = Some (ts_thread r)) (archived s) \<and>
     \<not> list_ex (\<lambda>e. renews_turn (ts_thread r) (snd e)) (fresh s)"

lemma open_turns_due: "open_turns s = map ts_thread (filter (turn_due s) (bs_threads s))"
  by (simp add: open_turns_def turn_due_def [abs_def])

lemma turn_due_enact:
  assumes "boot_store_ok s"
  shows "turn_due (enact w s) (row_update w r) \<longleftrightarrow>
    turn_due s r \<and> w \<noteq> AbortTurn (ts_thread r) \<or>
    (\<exists>tool. w = AnswerCard (ts_thread r) tool) \<and> turn_due s (r\<lparr>ts_status := thread_status.Running\<rparr>)"
  using assms
  by (cases w) (auto simp: turn_due_def boot_simps new_events_def row_update_def in_a_turn_def)

lemma map_filter_rows:
  assumes "\<And>r. r \<in> set rs \<Longrightarrow> P' (f r) \<longleftrightarrow> P r \<and> g r \<noteq> x" "\<And>r. g (f r) = g r"
  shows "map g (filter P' (map f rs)) = filter (\<lambda>y. y \<noteq> x) (map g (filter P rs))"
  using assms(1) by (induction rs) (auto simp: assms(2))

lemma map_filter_same_rows:
  assumes "\<And>r. r \<in> set rs \<Longrightarrow> P' (f r) = P r" "\<And>r. g (f r) = g r"
  shows "map g (filter P' (map f rs)) = map g (filter P rs)"
  using assms(1) by (induction rs) (auto simp: assms(2))

lemma row_of_thread:
  "boot_store_ok s \<Longrightarrow> r \<in> set (bs_threads s) \<Longrightarrow> r' \<in> set (bs_threads s) \<Longrightarrow> ts_thread r = ts_thread r' \<Longrightarrow> r = r'"
  by (auto simp: boot_store_ok_def distinct_map inj_on_def)

lemma turns_after_abort:
  "boot_store_ok s \<Longrightarrow> open_turns (enact (AbortTurn x) s) = filter (\<lambda>y. y \<noteq> x) (open_turns s)"
  unfolding open_turns_due enact_threads
  by (rule map_filter_rows) (auto simp: turn_due_enact)

lemma turns_after_card:
  assumes s: "boot_store_ok s" and x: "x \<in> set (open_turns s)"
  shows "open_turns (enact (AnswerCard x tool) s) = open_turns s"
proof -
  obtain r where r: "r \<in> set (bs_threads s)" "ts_thread r = x" "turn_due s r" using x by (auto simp: open_turns_due)
  have "turn_due (enact (AnswerCard x tool) s) (row_update (AnswerCard x tool) r') = turn_due s r'"
    if "r' \<in> set (bs_threads s)" for r'
  proof (cases "ts_thread r' = x")
    case True
    then have "r' = r" using row_of_thread [OF s that r(1)] r(2) by simp
    then show ?thesis using turn_due_enact [OF s, of "AnswerCard x tool" r'] r by simp
  next
    case False
    then show ?thesis using turn_due_enact [OF s, of "AnswerCard x tool" r'] by simp
  qed
  then show ?thesis unfolding open_turns_due enact_threads by (intro map_filter_same_rows) auto
qed

lemma turns_untouched:
  "boot_store_ok s \<Longrightarrow> (\<And>t tool. w \<noteq> AnswerCard t tool) \<Longrightarrow> (\<And>t. w \<noteq> AbortTurn t) \<Longrightarrow> open_turns (enact w s) = open_turns s"
  unfolding open_turns_due enact_threads
  by (rule map_filter_same_rows) (auto simp: turn_due_enact)

lemma card_untouched:
  assumes "\<And>tool. w \<noteq> AnswerCard t tool"
  shows "close_card (enact w s) t = close_card s t"
proof -
  have "\<And>tool quiet. event_of w \<noteq> Some (QuestionAnswered t tool quiet)" using assms by (cases w) auto
  then show ?thesis by (simp add: close_card_def enact_log pending_question_other)
qed

lemma close_card_writes: "close_card s t = Some w \<Longrightarrow> \<exists>tool. w = AnswerCard t tool"
  by (auto simp: close_card_def)

lemma distinct_open_turns: "boot_store_ok s \<Longrightarrow> distinct (open_turns s)"
  by (auto simp: open_turns_def boot_store_ok_def intro: filter_rows_distinct)

interpretation turns: row_settlement enact boot_store_ok is_card sort_key open_turns close_card "\<lambda>s. AbortTurn"
  "\<lambda>w. (\<exists>t tool. w = AnswerCard t tool) \<or> (\<exists>t. w = AbortTurn t)"
  by unfold_locales
    (auto simp: boot_store_ok_enact distinct_open_turns turns_after_abort turns_after_card turns_untouched card_untouched
      dest!: close_card_writes)

section \<open>Apply Nows\<close>

definition apply_due :: "boot_store \<Rightarrow> thread_summary \<Rightarrow> bool" where
  "apply_due s r \<longleftrightarrow> ts_apply_in_flight r \<and>
     \<not> list_ex (\<lambda>e. snd e = TurnEvent (ts_thread r) ''ApplyNowStarted'') (fresh s)"

lemma open_applies_due:
  "open_applies s = (if bs_boundary s = None then [] else map ts_thread (filter (apply_due s) (bs_threads s)))"
  by (simp add: open_applies_def apply_due_def [abs_def])

lemma apply_due_enact:
  "boot_store_ok s \<Longrightarrow> apply_due (enact w s) (row_update w r) \<longleftrightarrow> apply_due s r \<and> w \<noteq> EndApplyNow (ts_thread r)"
  by (cases w) (auto simp: apply_due_def boot_simps new_events_def row_update_def)

lemma applies_after_end:
  "boot_store_ok s \<Longrightarrow> open_applies (enact (EndApplyNow x) s) = filter (\<lambda>y. y \<noteq> x) (open_applies s)"
  unfolding open_applies_due enact_threads enact_rest
  by (auto simp: apply_due_enact intro!: map_filter_rows)

lemma applies_untouched:
  "boot_store_ok s \<Longrightarrow> (\<And>t. w \<noteq> EndApplyNow t) \<Longrightarrow> open_applies (enact w s) = open_applies s"
  unfolding open_applies_due enact_threads enact_rest
  by (auto simp: apply_due_enact intro!: map_filter_same_rows)

lemma distinct_open_applies: "boot_store_ok s \<Longrightarrow> distinct (open_applies s)"
  by (auto simp: open_applies_def boot_store_ok_def intro: filter_rows_distinct)

interpretation applies: row_settlement enact boot_store_ok is_card sort_key open_applies "\<lambda>s t. None" "\<lambda>s. EndApplyNow"
  "\<lambda>w. \<exists>t. w = EndApplyNow t"
  by unfold_locales (auto simp: boot_store_ok_enact distinct_open_applies applies_after_end applies_untouched)

section \<open>Waits\<close>

abbreviation cancel_row :: "int \<times> uuid \<times> live_wait \<Rightarrow> boot_write" where
  "cancel_row \<equiv> \<lambda>(q, t, w). CancelWait t w"

lemma started_wait_from: "started_wait e = Some (q, t, w) \<Longrightarrow> e = (q, WaitEvent t (StartedNote w))"
  by (cases e rule: started_wait.cases) auto

lemma archived_waits_distinct:
  assumes "boot_store_ok s"
  shows "distinct (map (\<lambda>(q, t, w). (t, wait_id w)) (List.map_filter started_wait (archived s)))"
proof -
  have part: "List.map_filter started_wait (filter P evs) = filter (\<lambda>(q, t, w). P (q, WaitEvent t (StartedNote w)))
      (List.map_filter started_wait evs)" for P and evs :: restore_log
  proof (induction evs)
    case (Cons e evs)
    then show ?case by (cases "started_wait e") (auto simp: map_filter_simps dest!: started_wait_from)
  qed (simp add: map_filter_simps)
  show ?thesis
    using assms by (auto simp: archived_def boot_store_ok_def wait_keys_def part split: option.splits intro: filter_rows_distinct)
qed

lemma archived_old: "boot_store_ok s \<Longrightarrow> e \<in> set (archived s) \<Longrightarrow> e \<in> set (bs_log s) \<and> fst e < bs_next s"
  by (auto simp: archived_def boot_store_ok_def list_all_iff split: option.splits)

lemma in_map_filter: "y \<in> set (List.map_filter f xs) \<longleftrightarrow> (\<exists>x \<in> set xs. f x = Some y)"
  by (force simp: map_filter_def)

lemma waits_after_cancel:
  assumes s: "boot_store_ok s" and x: "x \<in> set (open_waits s)"
  shows "open_waits (enact (cancel_row x) s) = filter (\<lambda>y. y \<noteq> x) (open_waits s)"
  unfolding open_waits_def archived_enact [OF s]
proof (rule filter_drop_one)
  fix y assume y: "y \<in> set (List.map_filter started_wait (archived s))"
  obtain q t w where yw: "y = (q, t, w)" by (cases y) auto
  obtain q' t' w' where xw: "x = (q', t', w')" by (cases x) auto
  have "q < bs_next s" using y yw archived_old [OF s] by (auto simp: in_map_filter dest!: started_wait_from)
  moreover have "x = y" if "t = t'" "wait_id w = wait_id w'"
    using that archived_waits_distinct [OF s] x y unfolding xw yw open_waits_def
    by (auto simp: distinct_map dest!: inj_onD [where x = "(q, t, w)" and y = "(q', t', w')"])
  ultimately show "(case y of (q, t, w) \<Rightarrow> \<not> wait_resolved (bs_log (enact (cancel_row x) s)) q t w) \<longleftrightarrow>
      (case y of (q, t, w) \<Rightarrow> \<not> wait_resolved (bs_log s) q t w) \<and> y \<noteq> x"
    using yw xw by (auto simp: wait_resolved_def enact_log new_events_def)
qed

lemma waits_untouched:
  assumes "boot_store_ok s" "\<And>t v. w \<noteq> CancelWait t v"
  shows "open_waits (enact w s) = open_waits s"
proof -
  have "wait_resolved (bs_log (enact w s)) q t v = wait_resolved (bs_log s) q t v" for q t v
    using assms(2) by (cases w) (auto simp: wait_resolved_def enact_log new_events_def)
  then show ?thesis by (simp add: open_waits_def archived_enact [OF assms(1)])
qed

lemma distinct_open_waits: "boot_store_ok s \<Longrightarrow> distinct (open_waits s)"
  using archived_waits_distinct [of s] by (auto simp: open_waits_def distinct_map intro: distinct_filter)

interpretation waits: row_settlement enact boot_store_ok is_card "\<lambda>ord xs. xs" open_waits "\<lambda>s x. None" "\<lambda>s. cancel_row"
  "\<lambda>w. \<exists>t v. w = CancelWait t v"
  by unfold_locales (auto simp: boot_store_ok_enact distinct_open_waits waits_untouched waits_after_cancel [simplified] split: prod.splits)

section \<open>Presses\<close>

lemma press_starts_elsewhere [simp]: "begun_fresh (enact w s) (\<lambda>e. e = PressStartedEvent b) = begun_fresh s (\<lambda>e. e = PressStartedEvent b)"
  by (rule begun_fresh_enact) (cases w; auto)

lemma distinct_open_presses: "boot_store_ok s \<Longrightarrow> distinct (map fst (open_presses s))"
  by (auto simp: open_presses_def boot_store_ok_def intro: filter_rows_distinct)

lemma presses_after_delete:
  assumes s: "boot_store_ok s" and x: "x \<in> set (open_presses s)"
  shows "open_presses (enact (DeletePress (fst x)) s) = filter (\<lambda>y. y \<noteq> x) (open_presses s)"
proof -
  have "y = x" if "y \<in> set (bs_presses s)" "fst y = fst x" for y
    using that x s by (auto simp: boot_store_ok_def distinct_map open_presses_def inj_on_def)
  then show ?thesis by (auto simp: open_presses_def enact_presses intro!: filter_cong)
qed

lemma presses_untouched: "(\<And>b. w \<noteq> DeletePress b) \<Longrightarrow> open_presses (enact w s) = open_presses s"
  by (cases w) (auto simp: open_presses_def enact_presses)

lemma end_press_untouched:
  assumes "\<And>applied failed. w \<noteq> CompletePress (fst row) applied failed"
  shows "end_press (enact w s) row = end_press s row"
  using assms by (cases w; cases row) (auto simp: end_press_def enact_log new_events_def enact_rest)

lemma end_press_ended: "end_press (enact (CompletePress b applied failed) s) (b, ids, actor) = None"
  by (simp add: end_press_def enact_log new_events_def)

lemma end_press_writes: "end_press s row = Some w \<Longrightarrow> \<exists>applied failed. w = CompletePress (fst row) applied failed"
  by (cases row) (auto simp: end_press_def split: if_splits)

lemma press_of_id:
  "boot_store_ok s \<Longrightarrow> x \<in> set (open_presses s) \<Longrightarrow> y \<in> set (open_presses s) \<Longrightarrow> fst y = fst x \<Longrightarrow> y = x"
  using distinct_open_presses [of s] by (auto simp: distinct_map inj_on_def)

interpretation presses: row_settlement enact boot_store_ok is_card "\<lambda>ord xs. xs" open_presses end_press
  "\<lambda>s row. DeletePress (fst row)" "\<lambda>w. (\<exists>b a f. w = CompletePress b a f) \<or> (\<exists>b. w = DeletePress b)"
proof unfold_locales
  fix s w and x y :: "uuid \<times> uuid list \<times> nat option"
  assume s: "boot_store_ok s" and x: "x \<in> set (open_presses s)" and w: "end_press s x = Some w"
    and y: "y \<in> set (open_presses s)" "y \<noteq> x"
  have "fst y \<noteq> fst x" using press_of_id [OF s x y(1)] y(2) by blast
  with end_press_writes [OF w] show "end_press (enact w s) y = end_press s y \<and> DeletePress (fst y) = DeletePress (fst y)"
    by (auto simp: end_press_untouched)
qed (auto simp: boot_store_ok_enact row_distinct [OF distinct_open_presses] presses_after_delete presses_untouched
    end_press_untouched end_press_ended dest!: end_press_writes)

section \<open>Standing applies\<close>

lemma distinct_open_arms: "boot_store_ok s \<Longrightarrow> distinct (map arm_thread (open_arms s))"
  by (auto simp: open_arms_def boot_store_ok_def split: option.splits intro: filter_rows_distinct)

lemma arm_of_thread:
  "boot_store_ok s \<Longrightarrow> x \<in> set (open_arms s) \<Longrightarrow> y \<in> set (open_arms s) \<Longrightarrow> arm_thread y = arm_thread x \<Longrightarrow> y = x"
  using distinct_open_arms [of s] by (auto simp: distinct_map inj_on_def)

lemma arms_after_delete:
  assumes s: "boot_store_ok s" and x: "x \<in> set (open_arms s)"
  shows "open_arms (enact (DeleteArm (arm_thread x) (arm_generation x)) s) = filter (\<lambda>y. y \<noteq> x) (open_arms s)"
proof -
  have "y = x" if "y \<in> set (bs_arms s)" "arm_thread y = arm_thread x" for y
    using that x s by (auto simp: boot_store_ok_def distinct_map open_arms_def inj_on_def split: option.splits)
  then show ?thesis by (auto simp: open_arms_def enact_arms enact_rest split: option.splits intro!: filter_cong)
qed

lemma arms_untouched: "(\<And>t g. w \<noteq> DeleteArm t g) \<Longrightarrow> open_arms (enact w s) = open_arms s"
  by (cases "bs_boundary s"; cases w) (auto simp: open_arms_def enact_arms enact_rest)

lemma announce_untouched:
  "boot_store_ok s \<Longrightarrow> \<forall>b. w = DropArm b \<longrightarrow> arm_thread b \<noteq> arm_thread a \<Longrightarrow> announce_drop (enact w s) a = announce_drop s a"
  by (cases w) (auto simp: announce_drop_def fresh_enact new_events_def)

lemma announce_announced: "boot_store_ok s \<Longrightarrow> announce_drop (enact (DropArm a) s) a = None"
  by (simp add: announce_drop_def fresh_enact new_events_def)

lemma announce_writes: "announce_drop s a = Some w \<Longrightarrow> w = DropArm a"
  by (auto simp: announce_drop_def split: if_splits)

interpretation arms: row_settlement enact boot_store_ok is_card "\<lambda>ord. sort_key (\<lambda>a. ord (arm_thread a))" open_arms
  announce_drop "\<lambda>s a. DeleteArm (arm_thread a) (arm_generation a)"
  "\<lambda>w. (\<exists>a. w = DropArm a) \<or> (\<exists>t g. w = DeleteArm t g)"
proof unfold_locales
  fix s w x y
  assume s: "boot_store_ok s" and x: "x \<in> set (open_arms s)" and w: "announce_drop s x = Some w"
    and y: "y \<in> set (open_arms s)" "y \<noteq> x"
  have "arm_thread y \<noteq> arm_thread x" using arm_of_thread [OF s x y(1)] y(2) by blast
  then have "announce_drop (enact (DropArm x) s) y = announce_drop s y" by (intro announce_untouched [OF s]) auto
  with announce_writes [OF w] show "announce_drop (enact w s) y = announce_drop s y \<and>
      DeleteArm (arm_thread y) (arm_generation y) = DeleteArm (arm_thread y) (arm_generation y)"
    by simp
qed (auto simp: boot_store_ok_enact row_distinct [OF distinct_open_arms] arms_after_delete arms_untouched
    announce_untouched announce_announced dest!: announce_writes)

section \<open>The lane\<close>

lemma lane_batches_after:
  "boot_store_ok s \<Longrightarrow> open_lane_batches (enact (FailLaneBatch x) s) = filter (\<lambda>y. y \<noteq> x) (open_lane_batches s)"
  unfolding open_lane_batches_def archived_enact
  by (rule filter_drop_one) (auto simp: enact_log new_events_def)

lemma lane_batches_untouched:
  "boot_store_ok s \<Longrightarrow> (\<And>b. w \<noteq> FailLaneBatch b) \<Longrightarrow> open_lane_batches (enact w s) = open_lane_batches s"
  by (cases w) (simp_all add: open_lane_batches_def archived_enact enact_log new_events_def)

interpretation lane_batches: row_settlement enact boot_store_ok is_card sort_key open_lane_batches "\<lambda>s b. None"
  "\<lambda>s. FailLaneBatch" "\<lambda>w. \<exists>b. w = FailLaneBatch b"
  by unfold_locales
    (auto simp: boot_store_ok_enact lane_batches_after lane_batches_untouched, auto simp: open_lane_batches_def)

abbreviation unqueue_row :: "int \<times> uuid \<times> uuid \<Rightarrow> boot_write" where
  "unqueue_row \<equiv> \<lambda>(q, t, c). UnqueueChange t c"

lemma queued_row_from: "queued_row e = Some (q, t, c) \<Longrightarrow> fst e = q \<and> marks_queue (snd e) = Some c"
  by (cases e rule: queued_row.cases) auto

lemma queued_row_event: "queued_row e = Some (q, t, c) \<Longrightarrow> \<exists>m. e = (q, ChangeQueuedEvent t m) \<and> lane_member.change_id m = c"
  by (cases e rule: queued_row.cases) auto

lemma event_at_sequence:
  "boot_store_ok s \<Longrightarrow> e \<in> set (bs_log s) \<Longrightarrow> f \<in> set (bs_log s) \<Longrightarrow> fst e = fst f \<Longrightarrow> e = f"
  using boot_store_ok_distinct [of s] by (auto simp: distinct_map inj_on_def)

lemma open_queued_row:
  assumes "boot_store_ok s" "(q, t, c) \<in> set (open_queued s)"
  obtains e where "e \<in> set (bs_log s)" "queued_row e = Some (q, t, c)" "fst e = q" "marks_queue (snd e) = Some c" "q < bs_next s"
  using assms by (auto simp: open_queued_def in_map_filter dest: archived_old queued_row_from)

lemma open_queued_latest:
  "(q, t, c) \<in> set (open_queued s) \<Longrightarrow> f \<in> set (bs_log s) \<Longrightarrow> q < fst f \<Longrightarrow> marks_queue (snd f) \<noteq> Some c"
  by (auto simp: open_queued_def list_ex_iff)

lemma open_queued_change:
  assumes s: "boot_store_ok s" and x: "(q, t, c) \<in> set (open_queued s)" and y: "(q', t', c) \<in> set (open_queued s)"
  shows "(q', t') = (q, t)"
proof -
  obtain e where e: "e \<in> set (bs_log s)" "queued_row e = Some (q, t, c)" "fst e = q" "marks_queue (snd e) = Some c"
    using open_queued_row [OF s x] by blast
  obtain f where f: "f \<in> set (bs_log s)" "queued_row f = Some (q', t', c)" "fst f = q'" "marks_queue (snd f) = Some c"
    using open_queued_row [OF s y] by blast
  have "\<not> q < q'" "\<not> q' < q"
    using open_queued_latest [OF x f(1)] open_queued_latest [OF y e(1)] e f by auto
  then have "e = f" using event_at_sequence [OF s e(1) f(1)] e f by simp
  with e f show ?thesis by simp
qed

lemma queue_after:
  assumes s: "boot_store_ok s" and x: "x \<in> set (open_queued s)"
  shows "open_queued (enact (unqueue_row x) s) = filter (\<lambda>y. y \<noteq> x) (open_queued s)"
proof -
  obtain q t c where xq: "x = (q, t, c)" by (cases x) auto
  define latest :: "restore_log \<Rightarrow> int \<times> uuid \<times> uuid \<Rightarrow> bool"
    where "latest = (\<lambda>evs (q, t, c). \<not> list_ex (\<lambda>e. q < fst e \<and> marks_queue (snd e) = Some c) evs)"
  have rows: "open_queued u = filter (latest (bs_log u)) (List.map_filter queued_row (archived u))" for u
    by (simp add: open_queued_def latest_def)
  have "latest (bs_log (enact (unqueue_row x) s)) y \<longleftrightarrow> latest (bs_log s) y \<and> y \<noteq> x"
    if y: "y \<in> set (List.map_filter queued_row (archived s))" for y
  proof -
    obtain q' t' c' where yq: "y = (q', t', c')" by (cases y) auto
    have old: "q' < bs_next s" using y yq by (auto simp: in_map_filter dest!: queued_row_from archived_old [OF s])
    have "y = x" if "latest (bs_log s) y" "c' = c"
      using that y yq xq x open_queued_change [OF s, of q t c q' t'] by (simp add: rows)
    moreover have "latest (bs_log (enact (unqueue_row x) s)) y \<longleftrightarrow> latest (bs_log s) y \<and> c' \<noteq> c"
      using old by (auto simp: latest_def yq xq enact_log new_events_def)
    ultimately show ?thesis using yq xq by auto
  qed
  then show ?thesis unfolding rows archived_enact [OF s] by (rule filter_drop_one)
qed

lemma queue_untouched:
  "boot_store_ok s \<Longrightarrow> (\<And>t c. w \<noteq> UnqueueChange t c) \<Longrightarrow> open_queued (enact w s) = open_queued s"
  by (cases w) (simp_all add: open_queued_def archived_enact enact_log new_events_def)

lemma distinct_queued_rows: "distinct (map fst evs) \<Longrightarrow> distinct (List.map_filter queued_row evs)"
proof (induction evs)
  case (Cons e evs)
  show ?case
  proof (cases "queued_row e")
    case (Some x)
    then have "fst e = fst x" by (cases x) (auto dest: queued_row_from)
    moreover have "fst f = fst x" if "queued_row f = Some x" for f using that by (cases x) (auto dest: queued_row_from)
    ultimately have "x \<notin> set (List.map_filter queued_row evs)"
      using Cons.prems by (force simp: in_map_filter)
    with Some Cons show ?thesis by (simp add: map_filter_simps)
  qed (use Cons in \<open>simp add: map_filter_simps\<close>)
qed (simp add: map_filter_simps)

lemma distinct_open_queued: "boot_store_ok s \<Longrightarrow> distinct (open_queued s)"
  unfolding open_queued_def
  by (intro distinct_filter distinct_queued_rows)
    (auto simp: archived_def split: option.splits intro: filter_rows_distinct boot_store_ok_distinct)

interpretation lane_queue: row_settlement enact boot_store_ok is_card "\<lambda>ord xs. xs" open_queued "\<lambda>s x. None"
  "\<lambda>s. unqueue_row" "\<lambda>w. \<exists>t c. w = UnqueueChange t c"
  by unfold_locales (auto simp: boot_store_ok_enact distinct_open_queued queue_untouched queue_after [simplified] split: prod.splits)

section \<open>The main check\<close>

lemma active_check_running:
  assumes "foldl fold_step (main_check_default, None, None) rs = (c, fixed, linked)"
  shows "active_check rs = None \<longleftrightarrow> mc_running c = None"
    and "active_check rs = Some (r, url) \<Longrightarrow> mc_running c = Some r"
  by (auto simp: active_check_def check_fold_def assms take_interrupted_def Let_def split: option.splits if_splits prod.splits)

lemma active_check_ended:
  assumes "active_check rs = Some (r, url)"
  shows "active_check (rs @ [REnded (check_id r) Abandoned]) = None"
proof -
  obtain c fixed linked where walk: "foldl fold_step (main_check_default, None, None) rs = (c, fixed, linked)"
    using prod_cases3 by blast
  have "mc_running c = Some r" by (rule active_check_running(2) [OF walk assms])
  then have "mc_running (replay_ended (check_id r) Abandoned c) = None"
    by (simp add: replay_ended_def check_finish_def check_pass_def Let_def split: prod.splits)
  then show ?thesis
    using active_check_running(1) [of "rs @ [REnded (check_id r) Abandoned]"] walk by simp
qed

definition new_check_records :: "boot_write \<Rightarrow> main_check_record list" where
  "new_check_records w = (case w of AbandonCheck c url \<Rightarrow> [REnded c Abandoned] | _ \<Rightarrow> [])"

lemma load_check_records_enact:
  assumes s: "boot_store_ok s" and b: "bs_boundary s = Some b"
  shows "load_check_records (enact w s) = load_check_records s @ new_check_records w"
proof -
  define row :: "int \<times> restore_event \<Rightarrow> (int \<times> main_check_record) option"
    where "row = (\<lambda>(q, e). map_option (Pair q) (check_record_of (bs_landing_thread s) e))"
  define old where "old = (\<lambda>r :: int \<times> main_check_record. fst r \<le> rb_event_sequence b)"
  have load: "load_check_records u =
      map snd (takeWhile old (List.map_filter row (bs_log u))) @ [RestoreBoundary] @
      map snd (dropWhile old (List.map_filter row (bs_log u)))"
    if "bs_boundary u = Some b" "bs_landing_thread u = bs_landing_thread s" for u
    by (simp add: load_check_records_def that row_def old_def Let_def)
  have new: "map snd (List.map_filter row (new_events w s)) = new_check_records w"
    "\<forall>r \<in> set (List.map_filter row (new_events w s)). \<not> old r"
    using s b by (cases w; simp add: new_events_def row_def map_filter_simps new_check_records_def old_def boot_store_ok_def)+
  have take: "takeWhile old (xs @ ys) = takeWhile old xs" and drop: "dropWhile old (xs @ ys) = dropWhile old xs @ ys"
    if "\<forall>y \<in> set ys. \<not> old y" for xs ys
    using that by (induction xs) (auto simp: takeWhile_eq_Nil_iff dropWhile_eq_self_iff)
  show ?thesis
    by (simp add: load enact_rest enact_log b map_filter_app take [OF new(2)] drop [OF new(2)] new(1))
qed

lemma check_starts_elsewhere [simp]: "begun_fresh (enact w s) (starts_check c) = begun_fresh s (starts_check c)"
  by (rule begun_fresh_enact) (cases w; auto)

lemma checks_untouched:
  "boot_store_ok s \<Longrightarrow> (\<And>c url. w \<noteq> AbandonCheck c url) \<Longrightarrow> open_checks (enact w s) = open_checks s"
  by (cases "bs_boundary s"; cases w) (auto simp: open_checks_def enact_rest load_check_records_enact new_check_records_def split: option.splits)

lemma checks_after_abandon:
  assumes "boot_store_ok s" "x \<in> set (open_checks s)"
  shows "open_checks (enact (case x of (c, url) \<Rightarrow> AbandonCheck c url) s) = filter (\<lambda>y. y \<noteq> x) (open_checks s)"
  using assms
  by (auto simp: open_checks_def enact_rest load_check_records_enact new_check_records_def active_check_ended
      split: if_splits option.splits prod.splits)

lemma distinct_open_checks: "distinct (open_checks s)"
  by (simp add: open_checks_def split: option.splits)

interpretation checks: row_settlement enact boot_store_ok is_card "\<lambda>ord xs. xs" open_checks "\<lambda>s x. None"
  "\<lambda>s (c, url). AbandonCheck c url" "\<lambda>w. \<exists>c url. w = AbandonCheck c url"
  by unfold_locales
    (auto simp: boot_store_ok_enact distinct_open_checks checks_untouched checks_after_abandon [simplified] split: prod.splits)

section \<open>All of them\<close>

interpretation threads: settlement_pair enact boot_store_ok is_card turns.row_plan turns.row_owed
  "\<lambda>w. (\<exists>t tool. w = AnswerCard t tool) \<or> (\<exists>t. w = AbortTurn t)" applies.row_plan applies.row_owed
  "\<lambda>w. \<exists>t. w = EndApplyNow t"
  by unfold_locales auto

interpretation lane: settlement_pair enact boot_store_ok is_card lane_batches.row_plan lane_batches.row_owed
  "\<lambda>w. \<exists>b. w = FailLaneBatch b" lane_queue.row_plan lane_queue.row_owed "\<lambda>w. \<exists>t c. w = UnqueueChange t c"
  by unfold_locales auto

interpretation from_lane: settlement_pair enact boot_store_ok is_card lane.both_plan lane.both_owed
  "\<lambda>w. (\<exists>b. w = FailLaneBatch b) \<or> (\<exists>t c. w = UnqueueChange t c)" checks.row_plan checks.row_owed
  "\<lambda>w. \<exists>c url. w = AbandonCheck c url"
  by unfold_locales auto

interpretation from_arms: settlement_pair enact boot_store_ok is_card arms.row_plan arms.row_owed
  "\<lambda>w. (\<exists>a. w = DropArm a) \<or> (\<exists>t g. w = DeleteArm t g)" from_lane.both_plan from_lane.both_owed
  "\<lambda>w. ((\<exists>b. w = FailLaneBatch b) \<or> (\<exists>t c. w = UnqueueChange t c)) \<or> (\<exists>c url. w = AbandonCheck c url)"
  by unfold_locales auto

interpretation from_presses: settlement_pair enact boot_store_ok is_card presses.row_plan presses.row_owed
  "\<lambda>w. (\<exists>b a f. w = CompletePress b a f) \<or> (\<exists>b. w = DeletePress b)" from_arms.both_plan from_arms.both_owed
  "\<lambda>w. ((\<exists>a. w = DropArm a) \<or> (\<exists>t g. w = DeleteArm t g)) \<or>
       ((\<exists>b. w = FailLaneBatch b) \<or> (\<exists>t c. w = UnqueueChange t c)) \<or> (\<exists>c url. w = AbandonCheck c url)"
  by unfold_locales auto

interpretation from_waits: settlement_pair enact boot_store_ok is_card waits.row_plan waits.row_owed
  "\<lambda>w. \<exists>t v. w = CancelWait t v" from_presses.both_plan from_presses.both_owed
  "\<lambda>w. ((\<exists>b a f. w = CompletePress b a f) \<or> (\<exists>b. w = DeletePress b)) \<or>
       ((\<exists>a. w = DropArm a) \<or> (\<exists>t g. w = DeleteArm t g)) \<or>
       ((\<exists>b. w = FailLaneBatch b) \<or> (\<exists>t c. w = UnqueueChange t c)) \<or> (\<exists>c url. w = AbandonCheck c url)"
  by unfold_locales auto

interpretation restore: settlement_pair enact boot_store_ok is_card threads.both_plan threads.both_owed
  "\<lambda>w. ((\<exists>t tool. w = AnswerCard t tool) \<or> (\<exists>t. w = AbortTurn t)) \<or> (\<exists>t. w = EndApplyNow t)"
  from_waits.both_plan from_waits.both_owed
  "\<lambda>w. (\<exists>t v. w = CancelWait t v) \<or> ((\<exists>b a f. w = CompletePress b a f) \<or> (\<exists>b. w = DeletePress b)) \<or>
       ((\<exists>a. w = DropArm a) \<or> (\<exists>t g. w = DeleteArm t g)) \<or>
       ((\<exists>b. w = FailLaneBatch b) \<or> (\<exists>t c. w = UnqueueChange t c)) \<or> (\<exists>c url. w = AbandonCheck c url)"
  by unfold_locales auto

text \<open>The code's settlements are these plans.\<close>

lemma settlement_plans:
  "settle_turns = turns.row_plan" "settle_applies = applies.row_plan" "settle_restored_waits = waits.row_plan"
  "settle_restored_batches = presses.row_plan" "settle_restored_standing_applies = arms.row_plan"
  "settle_lane_batches = lane_batches.row_plan" "settle_lane_queue = lane_queue.row_plan"
  "settle_restored_check = checks.row_plan"
  by (simp_all add: fun_eq_iff write_rows_def
    settle_turns_def turns.row_plan_def turns.row_writes_def settle_applies_def applies.row_plan_def applies.row_writes_def
    settle_restored_waits_def waits.row_plan_def waits.row_writes_def
    settle_restored_batches_def presses.row_plan_def presses.row_writes_def
    settle_restored_standing_applies_def arms.row_plan_def arms.row_writes_def
    settle_lane_batches_def lane_batches.row_plan_def lane_batches.row_writes_def
    settle_lane_queue_def lane_queue.row_plan_def lane_queue.row_writes_def
    settle_restored_check_def checks.row_plan_def checks.row_writes_def
    turns.row_writes_def [abs_def] applies.row_writes_def [abs_def] waits.row_writes_def [abs_def]
    presses.row_writes_def [abs_def] arms.row_writes_def [abs_def] lane_batches.row_writes_def [abs_def]
    lane_queue.row_writes_def [abs_def] checks.row_writes_def [abs_def])

lemma settle_before_dispatch_plan: "settle_before_dispatch = restore.both_plan"
  by (simp add: fun_eq_iff settle_before_dispatch_def settle_restored_threads_def settle_restored_lane_def and_then_def
    settlement_plans restore.both_plan_def threads.both_plan_def from_waits.both_plan_def from_presses.both_plan_def
    from_arms.both_plan_def from_lane.both_plan_def lane.both_plan_def Let_def)

lemma nothing_owed:
  assumes "boot_store_ok s" "restore.both_owed s = {#}"
  shows "open_turns s = []" "open_applies s = []" "open_waits s = []" "open_presses s = []" "open_arms s = []"
    "open_lane_batches s = []" "open_queued s = []" "open_checks s = []"
  using assms
  by (auto simp: restore.both_owed_def threads.both_owed_def from_waits.both_owed_def from_presses.both_owed_def
    from_arms.both_owed_def from_lane.both_owed_def lane.both_owed_def
    dest: turns.owed_rows applies.owed_rows waits.owed_rows presses.owed_rows arms.owed_rows lane_batches.owed_rows
      lane_queue.owed_rows checks.owed_rows)

end
