(* ===== verification/Restore_Boot_Properties.thy ===== *)
theory Restore_Boot_Properties
  imports Restore_Boot_Facts
begin

text \<open>
  What the boots after a restore do together: however often one is cut off, the writes are those of one boot, nothing
  archived stays open, fresh work stays, and the landing lane recovers what the whole log would give it.
\<close>

section \<open>A row of boots\<close>

lemma sequence_bound: "\<forall>q \<in> set qs. q < n \<Longrightarrow> a < n \<Longrightarrow> foldr max qs a < (n :: int)"
  by (induction qs) auto

lemma sequence_above: "q \<in> set qs \<Longrightarrow> q \<le> foldr max qs (a :: int)"
  by (induction qs) auto

lemma install_cases:
  assumes "install_boundary m s = Some s1"
  obtains b where "s1 = s\<lparr>bs_boundary := Some b\<rparr>" "rb_restore_id b = rm_restore_id m" "rb_snapshot b = rm_snapshot m"
    "rb_restored_at b = rm_restored_at m" "rb_event_sequence b = last_sequence (bs_log s) \<or> bs_boundary s = Some b"
proof (cases "\<exists>b. bs_boundary s = Some b \<and> rb_restore_id b = rm_restore_id m")
  case True
  then obtain b where b: "bs_boundary s = Some b" "rb_restore_id b = rm_restore_id m" by blast
  then have "s1 = s\<lparr>bs_boundary := Some b\<rparr>" "rb_snapshot b = rm_snapshot m" "rb_restored_at b = rm_restored_at m"
    using assms by (auto simp: install_boundary_def split: if_splits)
  with b that show thesis by blast
next
  case False
  then have "s1 = s\<lparr>bs_boundary := Some \<lparr>rb_restore_id = rm_restore_id m, rb_snapshot = rm_snapshot m,
      rb_restored_at = rm_restored_at m, rb_event_sequence = last_sequence (bs_log s)\<rparr>\<rparr>"
    using assms by (auto simp: install_boundary_def Let_def split: option.splits)
  then show thesis by (rule that) simp_all
qed

lemma install_ok:
  assumes "boot_store_ok s" "install_boundary m s = Some s1"
  shows "boot_store_ok s1"
proof -
  have "last_sequence (bs_log s) < bs_next s"
    using assms(1) unfolding last_sequence_def by (intro sequence_bound) (auto simp: boot_store_ok_def list_all_iff)
  then show ?thesis using assms by (auto simp: boot_store_ok_def elim!: install_cases)
qed

lemma install_again:
  assumes "install_boundary m s = Some s1" "bs_boundary t = bs_boundary s1"
  shows "install_boundary m t = Some t"
  by (rule install_cases [OF assms(1)]) (use assms(2) in \<open>simp add: install_boundary_def Let_def\<close>)

lemma fold_enact_boundary: "bs_boundary (fold enact ws s) = bs_boundary s"
  by (induction ws arbitrary: s) (simp_all add: enact_rest)

lemma boots_after_install:
  "install_boundary m s = Some s \<Longrightarrow> restore_boots m bs s = restore.both.boots bs s"
proof (induction bs arbitrary: s)
  case (Cons b bs)
  have "install_boundary m (fold enact ws s) = Some (fold enact ws s)" for ws
    by (rule install_again [OF Cons.prems]) (simp add: fold_enact_boundary)
  then show ?case
    using Cons by (cases b) (simp add: restore_boot_def settle_before_dispatch_plan Let_def split: prod.splits)
qed simp

lemma boots_install_first:
  "install_boundary m s = Some s1 \<Longrightarrow> bs \<noteq> [] \<Longrightarrow> restore_boots m bs s = restore_boots m bs s1"
  using install_again [of m s s1 s1] by (cases bs) (auto simp: restore_boot_def)

lemma restore_boots_append:
  "restore_boots m (bs @ cs) s =
     (let (ws, t) = restore_boots m bs s; (vs, u) = restore_boots m cs t in (ws @ vs, u))"
  by (induction m bs s rule: restore_boots.induct) (auto simp: Let_def split: prod.splits)

text \<open>A row of boots whose last one finishes.\<close>

lemma finished_boots:
  assumes s: "boot_store_ok s" and inst: "install_boundary m s = Some s1"
    and run: "restore_boots m (bs @ [(ord, k)]) s = (ws, t)"
    and fin: "boot_finishes m ord k (snd (restore_boots m bs s))"
  shows "boot_store_ok s1" "boot_store_ok t" "t = fold enact ws s1" "pays enact restore.both_owed is_card s1 ws"
    "duties is_card ws = restore.both_owed s1" "restore.both_owed t = {#}" "bs_boundary t = bs_boundary s1"
proof -
  have again: "install_boundary m s1 = Some s1" by (rule install_again [OF inst refl])
  show s1: "boot_store_ok s1" by (rule install_ok [OF s inst])
  have all: "restore.both.boots (bs @ [(ord, k)]) s1 = (ws, t)"
    using run boots_install_first [OF inst] boots_after_install [OF again] by simp
  show pay: "pays enact restore.both_owed is_card s1 ws" and t: "t = fold enact ws s1"
    using restore.both.boots_pay [OF s1 all] by simp_all
  show ok: "boot_store_ok t" unfolding t by (rule restore.both.ok_fold [OF s1])
  show "bs_boundary t = bs_boundary s1" by (simp add: t fold_enact_boundary)
  obtain vs u where part: "restore_boots m bs s1 = (vs, u)" by fastforce
  then have u: "u = fold enact vs s1" "boot_store_ok u"
    using restore.both.boots_pay [OF s1, of bs vs u] boots_after_install [OF again] restore.both.ok_fold [OF s1] by auto
  have instu: "install_boundary m u = Some u" by (rule install_again [OF inst]) (simp add: u fold_enact_boundary)
  have len: "length (restore.both_plan ord u) \<le> k"
  proof (cases bs)
    case Nil
    then have "u = s1" using part by simp
    with Nil fin inst show ?thesis by (simp add: boot_finishes_def settle_before_dispatch_plan)
  next
    case (Cons b cs)
    then have "snd (restore_boots m bs s) = u" using boots_install_first [OF inst, of bs] part by simp
    with fin instu show ?thesis by (simp add: boot_finishes_def settle_before_dispatch_plan)
  qed
  have "restore_boots m (bs @ [(ord, k)]) s1 = (ws, t)" using run boots_install_first [OF inst] by simp
  then have "t = fold enact (take k (restore.both_plan ord u)) u"
    using part instu
    by (simp add: restore_boots_append Let_def restore_boot_def settle_before_dispatch_plan del: fold_append)
  then show none: "restore.both_owed t = {#}" using restore.both.whole_settles [OF u(2) len] by simp
  show "duties is_card ws = restore.both_owed s1" using pays_account [OF pay] none t by simp
qed

section \<open>The writes of the boots\<close>


section \<open>What stays\<close>

lemma owed_deletes_press:
  assumes "boot_store_ok s" "DeletePress b \<in># restore.both_owed s"
  shows "\<exists>row \<in> set (open_presses s). fst row = b"
proof -
  have "DeletePress b \<in># presses.row_owed s"
    using assms(2) threads.both.owed_mine [OF assms(1)] waits.owed_mine [OF assms(1)] from_arms.both.owed_mine [OF assms(1)]
    by (fastforce simp: restore.both_owed_def from_waits.both_owed_def from_presses.both_owed_def)
  then obtain x where x: "x \<in> set (open_presses s)" "DeletePress b \<in> set (presses.row_writes s x)"
    by (blast dest: presses.owed_write)
  then have "fst x = b"
    using end_press_writes [of s x] by (cases "end_press s x") (auto simp: presses.row_writes_def)
  with x(1) show ?thesis by blast
qed

lemma owed_deletes_arm:
  assumes "boot_store_ok s" "DeleteArm t g \<in># restore.both_owed s"
  shows "\<exists>a \<in> set (open_arms s). arm_thread a = t \<and> arm_generation a = g"
proof -
  have "DeleteArm t g \<in># arms.row_owed s"
    using assms(2) threads.both.owed_mine [OF assms(1)] waits.owed_mine [OF assms(1)] presses.owed_mine [OF assms(1)]
      from_lane.both.owed_mine [OF assms(1)]
    by (fastforce simp: restore.both_owed_def from_waits.both_owed_def from_presses.both_owed_def from_arms.both_owed_def)
  then obtain x where x: "x \<in> set (open_arms s)" "DeleteArm t g \<in> set (arms.row_writes s x)"
    by (blast dest: arms.owed_write)
  then have "arm_thread x = t \<and> arm_generation x = g"
    using announce_writes [of s x] by (cases "announce_drop s x") (auto simp: arms.row_writes_def)
  with x(1) show ?thesis by blast
qed

definition fresh_presses :: "boot_store \<Rightarrow> (uuid \<times> uuid list \<times> nat option) list" where
  "fresh_presses s = filter (\<lambda>row. begun_fresh s (\<lambda>e. e = PressStartedEvent (fst row))) (bs_presses s)"

definition fresh_arms :: "boot_store \<Rightarrow> standing_arm list" where
  "fresh_arms s =
     (case bs_boundary s of None \<Rightarrow> bs_arms s | Some b \<Rightarrow> filter (\<lambda>a. rb_restored_at b < arm_generation a) (bs_arms s))"

lemma owed_write_keeps:
  assumes s: "boot_store_ok s" and w: "is_card w \<or> w \<in># restore.both_owed s"
  shows "fresh_presses (enact w s) = fresh_presses s" "fresh_arms (enact w s) = fresh_arms s"
proof -
  show "fresh_presses (enact w s) = fresh_presses s"
    using w owed_deletes_press [OF s]
    by (cases w) (force simp: fresh_presses_def enact_presses open_presses_def intro!: filter_cong)+
  show "fresh_arms (enact w s) = fresh_arms s"
    using w owed_deletes_arm [OF s]
    by (cases w)
      (force simp: fresh_arms_def enact_arms enact_rest open_arms_def split: option.splits intro!: filter_cong)+
qed

lemma paid_writes_keep:
  "boot_store_ok s \<Longrightarrow> pays enact restore.both_owed is_card s ws \<Longrightarrow>
   fresh_presses (fold enact ws s) = fresh_presses s \<and> fresh_arms (fold enact ws s) = fresh_arms s"
proof (induction ws arbitrary: s)
  case (Cons w ws)
  have "is_card w \<or> w \<in># restore.both_owed s" using Cons.prems(2) by (auto split: if_splits)
  with Cons owed_write_keeps [OF Cons.prems(1)] boot_store_ok_enact [OF Cons.prems(1)] show ?case by simp
qed simp

lemma fold_enact_log:
  "\<exists>new. bs_log (fold enact ws s) = bs_log s @ new \<and> map snd new = List.map_filter event_of ws \<and>
     (\<forall>e \<in> set new. bs_next s \<le> fst e) \<and> bs_next s \<le> bs_next (fold enact ws s)"
proof (induction ws arbitrary: s)
  case (Cons w ws)
  from Cons.IH [of "enact w s"] obtain new where new: "bs_log (fold enact ws (enact w s)) = bs_log (enact w s) @ new"
    "map snd new = List.map_filter event_of ws" "\<forall>e \<in> set new. bs_next (enact w s) \<le> fst e"
    "bs_next (enact w s) \<le> bs_next (fold enact ws (enact w s))" by blast
  have "bs_next s \<le> bs_next (enact w s)" by (simp add: enact_next)
  with new show ?case
    by (intro exI [where x = "new_events w s @ new"])
      (force simp: enact_log new_events_def map_filter_simps split: option.splits)
qed (simp add: map_filter_simps)


section \<open>The lane after a restore\<close>

text \<open>A batch ends after it starts.\<close>

fun ends_after_start :: "restore_log \<Rightarrow> bool" where
  "ends_after_start [] \<longleftrightarrow> True"
| "ends_after_start (e # es) \<longleftrightarrow>
     (case ends_lane_batch (snd e) of
        None \<Rightarrow> True
      | Some b \<Rightarrow> \<not> list_ex (\<lambda>f. starts_lane_batch (snd f) = Some b) es) \<and> ends_after_start es"

lemma ends_after_startD:
  "ends_after_start (xs @ e # ys) \<Longrightarrow> starts_lane_batch (snd e) = Some b \<Longrightarrow> f \<in> set xs \<Longrightarrow> ends_lane_batch (snd f) \<noteq> Some b"
  by (induction xs) (auto simp: list_ex_iff split: option.splits)

definition records_in :: "restore_log \<Rightarrow> restore_log \<Rightarrow> lane_record list" where
  "records_in all evs =
     List.map_filter (\<lambda>e. if ever_queued all (snd e) then lane_record_of_event (snd e) else None) evs"

lemma records_in_simps [simp]:
  "records_in all [] = []"
  "records_in all (xs @ ys) = records_in all xs @ records_in all ys"
  by (simp_all add: records_in_def map_filter_app map_filter_simps)

abbreviation lane_of :: "lane_record list \<Rightarrow> lane" where
  "lane_of rs \<equiv> foldl fold_record lane_default rs"

lemma waiting_is_queued:
  "set evs \<subseteq> set all \<Longrightarrow> m \<in> set (waiting (lane_of (records_in all evs))) \<Longrightarrow>
   \<exists>xs e ys t m'. evs = xs @ e # ys \<and> snd e = ChangeQueuedEvent t m' \<and> lane_member.change_id m' = lane_member.change_id m \<and>
     (\<forall>f \<in> set ys. marks_queue (snd f) \<noteq> Some (lane_member.change_id m))"
proof (induction evs rule: rev_induct)
  case (snoc e evs)
  let ?l = "lane_of (records_in all evs)" and ?c = "lane_member.change_id m"
  have sub: "set evs \<subseteq> set all" using snoc.prems(1) by simp
  note IH = snoc.IH [OF sub]
  have old: ?case if here: "m \<in> set (waiting ?l)" and unmarked: "marks_queue (snd e) \<noteq> Some ?c"
  proof -
    obtain xs f ys t m' where f: "evs = xs @ f # ys" "snd f = ChangeQueuedEvent t m'" "lane_member.change_id m' = ?c"
      "\<forall>g \<in> set ys. marks_queue (snd g) \<noteq> Some ?c"
      using IH [OF here] by blast
    with unmarked show ?thesis
      by (intro exI [where x = xs] exI [where x = f] exI [where x = "ys @ [e]"] exI [where x = t] exI [where x = m']) auto
  qed
  have queued: "list_ex (\<lambda>e. case snd e of ChangeQueuedEvent u n \<Rightarrow> lane_member.change_id n = ?c | _ \<Rightarrow> False) all"
    if here: "m \<in> set (waiting ?l)"
  proof -
    obtain xs f ys t m' where "evs = xs @ f # ys" "snd f = ChangeQueuedEvent t m'" "lane_member.change_id m' = ?c"
      using IH [OF here] by blast
    then show ?thesis using sub unfolding list_ex_iff by (intro bexI [where x = f]) auto
  qed
  show ?case
  proof (cases "snd e")
    case (ChangeQueuedEvent t n)
    show ?thesis
    proof (cases "lane_member.change_id n = ?c")
      case True
      with ChangeQueuedEvent show ?thesis
        by (intro exI [where x = evs] exI [where x = e] exI [where x = "[]"] exI [where x = t] exI [where x = n]) auto
    next
      case False
      with snoc.prems(2) ChangeQueuedEvent have "m \<in> set (waiting ?l)"
        by (auto simp: records_in_def map_filter_app map_filter_simps wait_def split: if_splits)
      with False ChangeQueuedEvent show ?thesis by (intro old) auto
    qed
  qed (use snoc.prems(2) old queued in
    \<open>auto simp: records_in_def map_filter_app map_filter_simps lane_simps split: if_splits\<close>)
qed (simp add: lane_default_def)

lemma resolving_is_started:
  "resolving (lane_of (records_in all evs)) = Some b \<Longrightarrow>
   \<exists>xs e ys. evs = xs @ e # ys \<and> starts_lane_batch (snd e) = Some (resolving_batch.batch_id b) \<and>
     (\<forall>f \<in> set ys. ends_lane_batch (snd f) \<noteq> Some (resolving_batch.batch_id b))"
proof (induction evs arbitrary: b rule: rev_induct)
  case (snoc e evs)
  let ?l = "lane_of (records_in all evs)"
  have old: ?case if here: "resolving ?l = Some b'" and same: "resolving_batch.batch_id b' = resolving_batch.batch_id b"
    and unended: "ends_lane_batch (snd e) \<noteq> Some (resolving_batch.batch_id b)" for b'
  proof -
    obtain xs f ys where f: "evs = xs @ f # ys" "starts_lane_batch (snd f) = Some (resolving_batch.batch_id b)"
      "\<forall>g \<in> set ys. ends_lane_batch (snd g) \<noteq> Some (resolving_batch.batch_id b)"
      using snoc.IH [OF here] same by metis
    with unended show ?thesis by (intro exI [where x = xs] exI [where x = f] exI [where x = "ys @ [e]"]) auto
  qed
  show ?case
  proof (cases "snd e")
    case (LaneBatchStartedEvent i base t ms)
    with snoc.prems have "resolving_batch.batch_id b = i"
      by (auto simp: records_in_def map_filter_app map_filter_simps lane_simps new_batch_def)
    with LaneBatchStartedEvent show ?thesis
      by (intro exI [where x = evs] exI [where x = e] exI [where x = "[]"]) auto
  qed (use snoc.prems old in
    \<open>auto simp: records_in_def map_filter_app map_filter_simps lane_simps mark_landed_def split: if_splits\<close>)
qed (simp add: lane_default_def)

lemma presses_of_records [simp]: "presses (lane_of rs) = {}"
proof -
  have "presses (foldl fold_record l rs) = presses l" for l
  proof (induction rs arbitrary: l)
    case (Cons r rs)
    then show ?case by (cases r) (simp_all add: lane_simps)
  qed simp
  then show ?thesis by (simp add: lane_default_def)
qed

text \<open>Records that only end and take off.\<close>

fun only_ends :: "lane_record \<Rightarrow> bool" where
  "only_ends (Unqueued c) \<longleftrightarrow> True"
| "only_ends (BatchEnded b) \<longleftrightarrow> True"
| "only_ends _ \<longleftrightarrow> False"

lemma ends_only:
  "list_all only_ends rs \<Longrightarrow>
   waiting (foldl fold_record l rs) = filter (\<lambda>m. Unqueued (lane_member.change_id m) \<notin> set rs) (waiting l) \<and>
   resolving (foldl fold_record l rs) =
     (case resolving l of None \<Rightarrow> None | Some b \<Rightarrow> if BatchEnded (resolving_batch.batch_id b) \<in> set rs then None else Some b) \<and>
   presses (foldl fold_record l rs) = presses l"
proof (induction rs arbitrary: l)
  case Nil
  then show ?case by (simp split: option.splits)
next
  case (Cons r rs)
  have IH: "list_all only_ends rs" using Cons.prems by simp
  show ?case
  proof (cases r)
    case (Unqueued c)
    then show ?thesis using Cons.IH [OF IH] by (auto simp: lane_simps intro!: filter_cong split: option.splits)
  next
    case (BatchEnded b)
    then show ?thesis using Cons.IH [OF IH] by (auto simp: lane_simps split: option.splits)
  qed (use Cons.prems in auto)
qed

lemma written_records:
  "map snd new = List.map_filter event_of ws \<Longrightarrow> list_all only_ends (records_in all new) \<and>
   (UnqueueChange t c \<in> set ws \<longrightarrow> Unqueued c \<in> set (records_in all new)) \<and>
   (FailLaneBatch b \<in> set ws \<longrightarrow> BatchEnded b \<in> set (records_in all new))"
proof (induction ws arbitrary: new)
  case (Cons w ws)
  show ?case
  proof (cases "event_of w")
    case None
    with Cons show ?thesis by (cases w) (auto simp: map_filter_simps)
  next
    case (Some e)
    with Cons.prems obtain q rest where "new = (q, e) # rest" "map snd rest = List.map_filter event_of ws"
      by (cases new) (auto simp: map_filter_simps)
    with Cons.IH [of rest] Some show ?thesis by (cases w) (auto simp: records_in_def map_filter_simps)
  qed
qed (simp add: map_filter_simps)

lemma log_of_boots:
  assumes "install_boundary m s = Some s1"
  shows "bs_log s1 = bs_log s" "bs_next s1 = bs_next s"
  using assms by (auto elim!: install_cases)

lemma duty_written: "w \<in># duties is_card ws \<Longrightarrow> w \<in> set ws"
  by (auto simp: duties_def)

lemma owed_queue: "boot_store_ok s \<Longrightarrow> (q, t, c) \<in> set (open_queued s) \<Longrightarrow> UnqueueChange t c \<in># restore.both_owed s"
  by (auto simp: restore.both_owed_def from_waits.both_owed_def from_presses.both_owed_def from_arms.both_owed_def
    from_lane.both_owed_def lane.both_owed_def lane_queue.row_owed_def lane_queue.row_writes_def duties_def
    intro!: bexI [where x = "(q, t, c)"])

lemma owed_batch: "boot_store_ok s \<Longrightarrow> b \<in> set (open_lane_batches s) \<Longrightarrow> FailLaneBatch b \<in># restore.both_owed s"
  by (auto simp: restore.both_owed_def from_waits.both_owed_def from_presses.both_owed_def from_arms.both_owed_def
    from_lane.both_owed_def lane.both_owed_def lane_batches.row_owed_def lane_batches.row_writes_def duties_def)

text \<open>The writes of a settlement empty the lane that the archive gives, and leave an empty lane empty.\<close>

lemma settled_lane_is_empty:
  assumes s: "boot_store_ok s" and arch: "archived s = bs_log s" and order: "ends_after_start (bs_log s)"
    and all: "set (bs_log s) \<subseteq> set all" and paid: "duties is_card ws = restore.both_owed s"
    and new: "map snd new = List.map_filter event_of ws"
  shows "lane_of (records_in all (bs_log s @ new)) = lane_default" "lane_of (records_in all new) = lane_default"
proof -
  let ?l = "lane_of (records_in all (bs_log s))"
  note ends = ends_only [OF written_records [OF new, THEN conjunct1]]
  have unqueued: "Unqueued (lane_member.change_id m) \<in> set (records_in all new)" if here: "m \<in> set (waiting ?l)" for m
  proof -
    obtain xs e ys t m' where e: "bs_log s = xs @ e # ys" "snd e = ChangeQueuedEvent t m'"
      "lane_member.change_id m' = lane_member.change_id m"
      "\<forall>f \<in> set ys. marks_queue (snd f) \<noteq> Some (lane_member.change_id m)"
      using waiting_is_queued [OF all here] by blast
    have "fst f \<le> fst e" if "f \<in> set (xs @ [e])" for f
      using s that e(1) by (auto simp: boot_store_ok_def sorted_wrt_append)
    then have "\<not> list_ex (\<lambda>f. fst e < fst f \<and> marks_queue (snd f) = Some (lane_member.change_id m)) (bs_log s)"
      using e(1,4) by (fastforce simp: list_ex_iff)
    moreover have "queued_row e = Some (fst e, t, lane_member.change_id m)" using e(2,3) by (cases e) simp
    then have "(fst e, t, lane_member.change_id m) \<in> set (List.map_filter queued_row (archived s))"
      using e(1) by (auto simp: arch in_map_filter)
    ultimately have "(fst e, t, lane_member.change_id m) \<in> set (open_queued s)" by (simp add: open_queued_def)
    then have "UnqueueChange t (lane_member.change_id m) \<in> set ws"
      using owed_queue [OF s] paid by (intro duty_written) simp
    then show ?thesis using written_records [OF new] by blast
  qed
  have ended: "BatchEnded (resolving_batch.batch_id b) \<in> set (records_in all new)" if here: "resolving ?l = Some b" for b
  proof -
    let ?i = "resolving_batch.batch_id b"
    obtain xs e ys where e: "bs_log s = xs @ e # ys" "starts_lane_batch (snd e) = Some ?i"
      "\<forall>f \<in> set ys. ends_lane_batch (snd f) \<noteq> Some ?i"
      using resolving_is_started [OF here] by blast
    have "ends_lane_batch (snd f) \<noteq> Some ?i" if "f \<in> set (bs_log s)" for f
      using that e ends_after_startD [OF order [unfolded e(1)] e(2), of f] by (cases "snd e") auto
    then have "?i \<in> set (open_lane_batches s)"
      using e(1,2) by (auto simp: open_lane_batches_def arch in_map_filter list_ex_iff)
    then have "FailLaneBatch ?i \<in> set ws" using owed_batch [OF s] paid by (intro duty_written) simp
    then show ?thesis using written_records [OF new] by blast
  qed
  have empty: "l = lane_default" if "waiting l = []" "resolving l = None" "presses l = {}" for l :: lane
    using that by (cases l) (simp add: lane_default_def)
  show "lane_of (records_in all (bs_log s @ new)) = lane_default"
    using ends [of ?l all] unqueued ended by (intro empty) (auto simp: filter_empty_conv split: option.splits)
  show "lane_of (records_in all new) = lane_default"
    using ends [of lane_default all] by (intro empty) (auto simp: lane_default_def)
qed

lemma load_records:
  "load_lane_records s =
     records_in (bs_log s)
       (filter (\<lambda>e. (case bs_boundary s of None \<Rightarrow> 0 | Some b \<Rightarrow> rb_event_sequence b) < fst e) (bs_log s))"
proof -
  have "List.map_filter (\<lambda>e. if P e \<and> Q e then f e else None) evs = List.map_filter (\<lambda>e. if Q e then f e else None) (filter P evs)"
    for P Q and f :: "int \<times> restore_event \<Rightarrow> lane_record option" and evs
    by (induction evs) (auto simp: map_filter_simps split: option.splits)
  then show ?thesis by (simp add: load_lane_records_def records_in_def Let_def)
qed

definition first_of_restore :: "restore_marker \<Rightarrow> boot_store \<Rightarrow> bool" where
  "first_of_restore m s =
     (case bs_boundary s of None \<Rightarrow> True | Some b \<Rightarrow> rb_restore_id b \<noteq> rm_restore_id m)"

definition with_later :: "restore_log \<Rightarrow> boot_store \<Rightarrow> boot_store" where
  "with_later later s = s\<lparr>bs_log := bs_log s @ later\<rparr>"

text \<open>C15. After a finished restore the lane that a restart folds from the fresh events is the lane the whole log would
  give, whatever the lane did since. The floor of the query then changes nothing, and no archived change or batch comes
  back to the lane.\<close>

theorem nothing_archived_reaches_the_lane:
  assumes s: "boot_store_ok s" "first_of_restore m s" and order: "ends_after_start (bs_log s)"
    and inst: "install_boundary m s = Some s1" and run: "restore_boots m (bs @ [(ord, k)]) s = (ws, t)"
    and fin: "boot_finishes m ord k (snd (restore_boots m bs s))"
    and later: "\<forall>e \<in> set later. bs_next t \<le> fst e"
  shows "lane_fold (load_lane_records (with_later later t)) pend =
    lane_fold (load_lane_records ((with_later later t)\<lparr>bs_boundary := None\<rparr>)) pend"
proof -
  note finished = finished_boots [OF s(1) inst run fin]
  obtain b where b: "bs_boundary s1 = Some b" "rb_event_sequence b = last_sequence (bs_log s)"
    using inst s(2) by (auto simp: install_boundary_def first_of_restore_def Let_def split: option.splits)
  have old: "0 < fst e \<and> fst e \<le> rb_event_sequence b" if "e \<in> set (bs_log s)" for e
    using that s(1) b(2) by (auto simp: boot_store_ok_def list_all_iff last_sequence_def intro: sequence_above)
  have arch: "archived s1 = bs_log s1"
    using old b(1) log_of_boots [OF inst] by (simp add: archived_def filter_id_conv)
  obtain new where new: "bs_log t = bs_log s @ new" "map snd new = List.map_filter event_of ws"
      "\<forall>e \<in> set new. bs_next s1 \<le> fst e" and grown: "bs_next s1 \<le> bs_next t"
    using fold_enact_log [of ws s1] finished(3) log_of_boots [OF inst] by auto
  have floor: "0 < bs_next s1" "rb_event_sequence b < bs_next s1" using finished(1) b(1) by (auto simp: boot_store_ok_def)
  let ?all = "bs_log s @ new @ later"
  have all: "bs_log (with_later later t) = ?all" by (simp add: with_later_def new(1))
  have above: "rb_event_sequence b < fst e \<and> 0 < fst e" if "e \<in> set (new @ later)" for e
    using that floor new(3) later grown by fastforce
  have floor_filter: "filter (\<lambda>e. rb_event_sequence b < fst e) ?all = new @ later" "filter (\<lambda>e. 0 < fst e) ?all = ?all"
  proof -
    have "filter (\<lambda>e. rb_event_sequence b < fst e) (bs_log s) = []"
      "filter (\<lambda>e. rb_event_sequence b < fst e) (new @ later) = new @ later"
      using old above by (force simp: filter_empty_conv filter_id_conv simp del: filter_append split_paired_All)+
    then show "filter (\<lambda>e. rb_event_sequence b < fst e) ?all = new @ later" by simp
    show "filter (\<lambda>e. 0 < fst e) ?all = ?all" using old above by (auto simp: filter_id_conv simp del: filter_append)
  qed
  have "load_lane_records (with_later later t) = records_in ?all (new @ later)"
    "load_lane_records ((with_later later t)\<lparr>bs_boundary := None\<rparr>) = records_in ?all ?all"
    using load_records [of "with_later later t"] load_records [of "(with_later later t)\<lparr>bs_boundary := None\<rparr>"]
      floor_filter finished(7) b(1) all by (simp_all add: with_later_def del: filter_append records_in_simps)
  moreover have "lane_of (records_in ?all (bs_log s1 @ new)) = lane_default" "lane_of (records_in ?all new) = lane_default"
    using settled_lane_is_empty [OF finished(1) arch _ _ finished(5) new(2), of ?all] order log_of_boots [OF inst] by auto
  ultimately show ?thesis using log_of_boots [OF inst] by (simp add: lane_fold_def)
qed

section \<open>A restored workspace\<close>

definition demo_marker :: restore_marker where
  "demo_marker = \<lparr>rm_restore_id = 900, rm_snapshot = ''nightly'', rm_restored_at = 50\<rparr>"

definition demo_log :: restore_log where
  "demo_log =
     [(1, TurnEvent 1 ''MessageReceived''), (2, QuestionAsked 1 ''card''),
      (3, ChangeQueuedEvent 2 \<lparr>lane_member.change_id = 20, snapshot_sha = ''s''\<rparr>),
      (5, LaneBatchStartedEvent 70 ''base'' 71 [\<lparr>lane_member.change_id = 21, snapshot_sha = ''t''\<rparr>]),
      (6, PressStartedEvent 80), (9, CheckEvent (MainCheckStarted 90 ''a'' ''b''))]"

definition demo_store :: boot_store where
  "demo_store =
     \<lparr>bs_boundary = None, bs_log = demo_log, bs_next = 10,
      bs_threads = [\<lparr>ts_thread = 1, ts_status = WaitingForUserAnswer, ts_apply_in_flight = True\<rparr>],
      bs_presses = [(80, [20, 22], None)],
      bs_arms = [\<lparr>arm_thread = 3, arm_change = None, arm_batch = Some 80, arm_generation = 40\<rparr>],
      bs_applied = [22], bs_landing_thread = id\<rparr>"

definition demo_boundary :: restore_boundary where
  "demo_boundary = \<lparr>rb_restore_id = 900, rb_snapshot = ''nightly'', rb_restored_at = 50, rb_event_sequence = 9\<rparr>"

definition demo_rank :: rank where
  "demo_rank t = t"

lemma demo_installed:
  "boot_store_ok demo_store" "install_boundary demo_marker demo_store = Some (demo_store\<lparr>bs_boundary := Some demo_boundary\<rparr>)"
  "first_of_restore demo_marker demo_store" "ends_after_start (bs_log demo_store)"
  by (simp_all add: demo_store_def demo_marker_def demo_log_def demo_boundary_def boot_store_ok_def install_boundary_def
    last_sequence_def wait_keys_def map_filter_simps first_of_restore_def)

lemma demo_plan:
  "settle_before_dispatch demo_rank (demo_store\<lparr>bs_boundary := Some demo_boundary\<rparr>) =
     [AnswerCard 1 ''card'', AbortTurn 1, EndApplyNow 1,
      CompletePress 80 [22] [\<lparr>failed_change = 20, failure_error = restored_reason\<rparr>], DeletePress 80,
      DropArm \<lparr>arm_thread = 3, arm_change = None, arm_batch = Some 80, arm_generation = 40\<rparr>, DeleteArm 3 40,
      FailLaneBatch 70, UnqueueChange 2 20, AbandonCheck 90 None]"
  by code_simp

definition demo_boots :: "(rank \<times> nat) list" where
  "demo_boots = [(demo_rank, 1)] @ [(demo_rank, 20)]"

lemma demo_finishes:
  "boot_finishes demo_marker demo_rank 20 (snd (restore_boots demo_marker [(demo_rank, 1)] demo_store))"
  by code_simp

lemma demo_next: "bs_next (snd (restore_boots demo_marker demo_boots demo_store)) = 18"
  by code_simp

lemma demo_run:
  "restore_boots demo_marker ([(demo_rank, 1)] @ [(demo_rank, 20)]) demo_store =
     (fst (restore_boots demo_marker demo_boots demo_store), snd (restore_boots demo_marker demo_boots demo_store))"
  by (simp add: demo_boots_def)



theorem nothing_archived_reaches_the_lane_witness:
  "let later = [(18, ChangeQueuedEvent 2 \<lparr>lane_member.change_id = 20, snapshot_sha = ''s''\<rparr>)];
       u = with_later later (snd (restore_boots demo_marker demo_boots demo_store))
   in lane_fold (load_lane_records u) (\<lambda>c. True) = lane_fold (load_lane_records (u\<lparr>bs_boundary := None\<rparr>)) (\<lambda>c. True)"
  unfolding Let_def
  by (rule nothing_archived_reaches_the_lane [OF demo_installed(1,3,4,2) demo_run demo_finishes]) (simp add: demo_next)

text \<open>A boot cut off between the answer to a card and the abort of its turn: the next one looks the open card up again,
  finds an older one that no answer ever closed, and answers that too. One whole boot would have left it.\<close>

definition two_cards :: boot_store where
  "two_cards = demo_store\<lparr>bs_log := [(1, QuestionAsked 1 ''older''), (2, QuestionAsked 1 ''card'')], bs_presses := [],
     bs_arms := [], bs_threads := [\<lparr>ts_thread = 1, ts_status = WaitingForUserAnswer, ts_apply_in_flight = False\<rparr>]\<rparr>"

lemma a_retry_answers_an_older_card:
  "fst (restore_boots demo_marker [(demo_rank, 20)] two_cards) = [AnswerCard 1 ''card'', AbortTurn 1]"
  "fst (restore_boots demo_marker [(demo_rank, 1), (demo_rank, 20)] two_cards) =
     [AnswerCard 1 ''card'', AnswerCard 1 ''older'', AbortTurn 1]"
  by code_simp+

end
