(* ===== verification/Spec2Isabelle.thy ===== *)
theory Spec2Isabelle
  imports Lane_Properties Main_Check_Properties Queue_Operations Queue_Delay Queue_Recovery Thread_Rows
    Thread_Gate_Properties Event_Subscription_Properties Apply_Claims Command_Floor_Properties Apply_All_Properties
    Event_Wait_Properties Event_Wait_Reads Lane_Driver_Properties Restore_Boot_Properties
begin

text \<open>
  A verification of the decision logic of the Lucidos engine (\<open>src/crates/lucidos-engine/src\<close>).

  Lucidos runs coding agents on behalf of a workspace. An agent works in a thread; what it commits becomes
  a change; a change is applied to \<open>main\<close> by a person's button or by an Apply All; the landing lane puts
  applied changes on \<open>main\<close> one after another; the main check then tests \<open>main\<close>. Triggers (cron, events,
  webhooks) start background work, which the Thread Queue admits under the capacity policy beside the
  people who chat. Every command an agent runs passes the command guard first. The engine keeps its state
  in memory behind locks and rebuilds it at boot, from tables or by folding the events it stored, so most
  components come with a recovery, and the properties say what a restart recovers.

  The parts, and where each is. Paths are below \<open>src/crates/lucidos-engine/src\<close>; a definition keeps the name
  of the Rust item it translates, with a prefix of its component where two items share a name.

  \<^item> What all parts share. \<open>Prelude\<close>: identifiers, \<open>VecDeque\<close> and \<open>HashMap\<close> operations, the contract
    \<open>invariant_steps\<close> of a component whose steps keep an invariant. \<open>Rust_Strings\<close>: a \<open>String\<close> as the list of
    its UTF-8 bytes, its characters, \<open>trim\<close>, the tests on characters. \<open>Json\<close>: \<open>serde_json\<close> values, numbers as
    64-bit words or the bits of a double.

  \<^item> Thread Queue (\<open>engine/thread_queue/{policy,request,executor,mod}.rs\<close>). \<open>Queue_Policy\<close>: \<open>CapacityPolicy\<close> and
    the admission decision. \<open>Queue_Request\<close>: the request shapes, keys and summaries. \<open>Chain_Depth\<close>: the depth
    registry of event-trigger chains (\<open>scheduler/user_tasks.rs\<close>). \<open>Queue_State\<close>: the in-memory state with its
    backlog, slots, user slots and tallies. \<open>Queue_Admission\<close>: submit in its two critical sections, overflow,
    the three phases of a drain, Run now, drop, completion, rebinding, policy change. \<open>Queue_Drain\<close> and
    \<open>Queue_Caps\<close> show the index walk of a drain equal to a scan of the list and prove the caps of the scan;
    \<open>Queue_Runs\<close> holds the invariant \<open>queue_ok\<close>; \<open>Queue_Drain_Properties\<close> the four properties of a drain;
    \<open>Queue_Lifecycle\<close> weighs what the queue holds, with one equation per operation, of which
    \<open>Queue_Properties\<close> and \<open>Queue_Contracts\<close> are the instances; \<open>Queue_Operations\<close> the properties of single
    operations; \<open>Queue_Delay\<close> the delay notifications; \<open>Queue_Recovery\<close> the recovery at boot.

  \<^item> Landing lane (\<open>engine/landing_lane/{state,recovery,snapshot}.rs\<close>). \<open>Lane_State\<close>: every operation of
    \<open>Lane\<close>, \<open>ResolvingBatch\<close> and \<open>LaneHold\<close>, and the client view. \<open>Lane_Recovery\<close>: the fold over the events and
    the scan for stranded changes. \<open>Lane_Properties\<close>: whole runs of the lane with a pass in hand.

  \<^item> Main check (\<open>engine/main_check/{state,recovery,snapshot,driver}.rs\<close>, \<open>engine/until_restored.rs\<close>).
    \<open>Main_Check\<close>: the scheduler, its fold and its view. \<open>Until_Restored\<close>: the gate that holds messages until
    the restore. \<open>Main_Check_Driver\<close>: the driver's handlers. \<open>Main_Check_Facts\<close>: the invariant and the tiling
    of \<open>main\<close>; \<open>Main_Check_Replay\<close> relates a live run to the fold of the log it wrote;
    \<open>Main_Check_Properties\<close> concludes.

  \<^item> Applying changes. \<open>Apply_Claims\<close> (\<open>engine/change_ops/apply_claim.rs\<close>): one apply at a time per change,
    with the lane's wait for a release. \<open>Apply_All\<close> (\<open>engine/apply_all_batches.rs\<close>): the progress of a batch and
    the registry. \<open>Apply_All_Driver\<close> (\<open>engine/apply_all_driver.rs\<close>): press, advance, cancel, recovery.
    \<open>Apply_All_Lemmas\<close> reduces every message to one move of one member; \<open>Apply_All_Runs\<close> follows whole runs
    of the registry; \<open>Apply_All_Boot\<close> gives recovery one status per member; \<open>Apply_All_Properties\<close> concludes.

  \<^item> Threads (\<open>engine/thread_lifecycle.rs\<close>, \<open>engine/thread_events/\<close>, \<open>engine/event_bus_projection_thread.rs\<close>,
    \<open>api/threads/family.rs\<close>). \<open>Thread_Status\<close>: the columns of a row and their texts. \<open>Thread_Events\<close>: how an
    event moves a thread. \<open>Thread_Gates\<close>: the blocking predicates, the archive gate of a family, the offered
    actions. \<open>Thread_Rows\<close>: the projection of pin and section. \<open>Thread_Event_Properties\<close> and
    \<open>Thread_Gate_Properties\<close> prove what the tables promise together.

  \<^item> Event subscriptions (\<open>core/event_subscription/\<close>, \<open>engine/event_bus_system_event.rs\<close>). \<open>Event_Names\<close>: the
    tables of names. \<open>Known_Names\<close>: the near-miss rule and its edit distance. \<open>Event_Condition\<close>: evaluator,
    validator and path suggestions; \<open>Event_Condition_Properties\<close> gives conditions a plain meaning;
    \<open>Event_Suggestions\<close> reads suggested paths back. \<open>Event_Subscription\<close>: the matcher and the check of the
    write surfaces, with its properties in \<open>Event_Subscription_Properties\<close>.

  \<^item> Event waits (\<open>engine/event_wait/{mod,register,dispatcher}.rs\<close>, \<open>engine/event_bus/append_horizon.rs\<close>).
    \<open>Event_Waits\<close>: a wait, the cache of live waits, the matcher, the scans of the store, the registration.
    \<open>Event_Wait_Dispatch\<close>: the engine as operations that interleave between awaits (appends, registrations in
    four steps, the dispatcher, scans, the deadline sweep, cancels, resolutions, restarts). \<open>Event_Wait_Facts\<close>:
    what every run keeps; \<open>Event_Wait_Cover\<close>: why no match is missed; \<open>Event_Wait_Scan\<close>: the paging loop is a
    search for the first match; \<open>Event_Wait_Settle\<close>: the engine's own steps run out; \<open>Event_Wait_Deliveries\<close>:
    deliveries name real matches; \<open>Event_Wait_Reads\<close>: what a registration reports
    and what a restart drives again; \<open>Event_Wait_Properties\<close> concludes. A snapshot boundary is not part of the
    runs (the rebuild's floor is 0 there).
  \<^item> Command guard (\<open>engine/command_guard.rs\<close>). \<open>Shell_Quotes\<close>: the quoting state of a byte walk, closing
    brackets, substitutions. \<open>Shell_Words\<close>: assignments, prefixes, and every head a segment could run, with
    the inductive reading \<open>head_at\<close> it is proved equal to. \<open>Shell_Unwrap\<close>: taking a shell wrapper off a
    command, ANSI-C escapes included. \<open>Command_Floor\<close>: the catastrophic floor. \<open>Shell_Quote_Lemmas\<close>: the walks
    on a command made of parts, with the contract \<open>single_quoting\<close> that both quoting functions of the engine
    (\<open>agent_session/prompts.rs\<close>, \<open>git_ops/worktree.rs\<close>) meet. \<open>Command_Floor_Properties\<close> concludes.

  \<^item> Landing driver (\<open>engine/landing_lane/{landing,integration,driver}.rs\<close>, \<open>engine/git_ops/origin.rs\<close>).
    \<open>Lane_Landing\<close>: the base of a pass, the chain of merges, publication with its push and its retries, the check
    and the landing of a batch's branch; git commands are parameters. \<open>Lane_Landing_Properties\<close>: the chain is one
    first-parent line, origin has what a pass publishes, what a checked branch holds. \<open>Lane_Driver_State\<close>: the driver's record, the reads of each site, the effects and the stored
    events. \<open>Lane_Driver_Pass\<close>: one pass from the claims to the opened batch. \<open>Lane_Driver\<close>: every message handler,
    the batch, the restart and the settling of source threads. \<open>Lane_Driver_Log\<close>: the stored events as the lane's
    own; \<open>Lane_Driver_Claims\<close>: what each operation does to the claims. The invariant \<open>linv\<close> (the lane, its log and
    its claims agree) is kept by a pass (\<open>Lane_Driver_Pass_Inv\<close>), by a queue operation
    (\<open>Lane_Driver_Inv\<close>), by a batch (\<open>Lane_Driver_Batch_Inv\<close>), by each message (\<open>Lane_Driver_Msg_Inv\<close>) and by a
    restart (\<open>Lane_Driver_Restart\<close>). \<open>Lane_Driver_Properties\<close> follows whole runs, where other applies take and drop
    claims between messages and a crash may come after any message.

  \<^item> Restore boot (\<open>engine/restore_boot.rs\<close>, \<open>core/snapshot/boundary.rs\<close> and the \<open>settle_restored_\<close> functions of
    the components). \<open>Settlement\<close>: the contract of a settlement, that settlements one after the other keep it, and that
    one made row by row keeps it; boots that stop after any write. \<open>Restore_Boot\<close>: the store with its boundary, the
    queries, the writes and \<open>settle_before_dispatch\<close>. \<open>Restore_Boot_Facts\<close> interprets the contract for each settlement
    and for all of them. \<open>Restore_Boot_Properties\<close>: cut-off boots write what one boot writes, nothing archived stays
    open, and nothing archived reaches the lane.
  How state and effects correspond to the code. A struct is a \<open>record\<close>, an enum a \<open>datatype\<close>, a \<open>HashMap\<close> an
  association list with distinct keys (no statement depends on its order), a \<open>VecDeque\<close> a list. An operation
  that runs under a lock is one function from the state to the new state and its effects in order; one that
  takes the lock twice is two functions, and a property about runs interleaves them where the code can. A
  value the code draws (a fresh id, the time) is an argument. What the code reads from another subsystem is
  a field of an environment record or an argument: the database, git, child processes, the agent sessions,
  the regular expression engine, the case of non-ASCII characters, \<open>workspace_floor::reason\<close>. Errors are \<open>Inl\<close>
  of a sum, and an effect that can fail only into the log has no result, as in the code.

  Termination and bounds. Every loop is a total function. The walks over commands have measures on the
  bytes or tokens left (a step is proved to advance); the candidate loop's measure is the unmarked tokens and
  then its stack; the drain's measures are the backlog and the waiting people. Fuel stands only where the
  code has a bound of its own: substitutions nested at most \<open>max_substitution_depth\<close>, shell wrappers at most
  \<open>max_shell_layers\<close>, conditions at most their depth limit, and there the branch of the bound is the code's.
  Counters that hold numbers of entries in memory are \<open>nat\<close>; where a width matters (JSON numbers, escapes)
  the value is a word.

  What the properties show. The Thread Queue keeps every line in order, starts within its caps, leaves nothing
  startable, answers each submitter once, keeps one scheduled fire per trigger, and boot rebuilds the line.
  The lane, the main check and an Apply All lose no change, end each piece of work once, and come back from
  their own log; the lane's driver agrees with its events, holds what its batch owes, and origin has what a pass
  publishes. No match of an event wait is missed. However often a boot
  after a restore is cut off, each archived piece of work ends once. A change has one apply at a time. The archive gate strands no work. A condition means what
  it says. The guard reads a wrapped script as the bare one and refuses a nested catastrophe.

  Not modelled. The HTTP layer, the event store and its SQL, git itself, credentials and devices, provider wire
  formats, memory and voice, the desktop and mobile apps, the gateway, the command line and the version
  updater are input and output around these decisions. The change operations, the standing apply and the agent
  sessions mix decisions with git and processes and are left out; of the landing lane, so are the run of a lane
  thread (its worktree, prompts and duty) and following origin.
\<close>

end
